(* ===== verification/Thaw_Prelude.thy ===== *)
theory Thaw_Prelude
  imports Main "HOL-Library.Word" "HOL-Library.AList"
begin

text \<open>
  Shared vocabulary of the development: the machine types of the Rust sources, the pieces of the
  Rust standard library that several components use (checked and saturating arithmetic on
  \<open>usize\<close> and \<open>u64\<close>, \<open>slice::partition_point\<close>, \<open>Iterator::position\<close> followed by
  \<open>Vec::remove\<close>), and the generic lemmas on lists that the component proofs rest on.

  An address, a size or a counter of type \<open>usize\<close> or \<open>u64\<close> is a \<^typ>\<open>nat\<close> whose checked
  operations compare with \<open>2 ^ 64\<close>; bytes, UTF-16 code units, code points and hash values are
  machine words.
\<close>

unbundle bit_operations_syntax

type_synonym u8 = "8 word"
type_synonym u16 = "16 word"
type_synonym u32 = "32 word"
type_synonym u64 = "64 word"
type_synonym usize = nat
type_synonym bytes = "8 word list"
type_synonym memory = "nat \<Rightarrow> 8 word"

text \<open>Collections of rewrite rules that the component proofs pass to the simplifier.\<close>

named_theorems btree_simps \<open>lookup laws of the ordered maps\<close>
named_theorems frame_simps \<open>state fields an operation does not write\<close>

subsection \<open>Integer operations of the standard library\<close>

definition usize_limit :: nat where
  "usize_limit = 2 ^ 64"

definition checked_add :: "usize \<Rightarrow> usize \<Rightarrow> usize option" where
  "checked_add a b = (if a + b < usize_limit then Some (a + b) else None)"

definition checked_mul :: "usize \<Rightarrow> usize \<Rightarrow> usize option" where
  "checked_mul a b = (if a * b < usize_limit then Some (a * b) else None)"

definition checked_sub :: "usize \<Rightarrow> usize \<Rightarrow> usize option" where
  "checked_sub a b = (if b \<le> a then Some (a - b) else None)"

definition saturating_add :: "usize \<Rightarrow> usize \<Rightarrow> usize" where
  "saturating_add a b = min (a + b) (usize_limit - 1)"

definition saturating_mul :: "usize \<Rightarrow> usize \<Rightarrow> usize" where
  "saturating_mul a b = min (a * b) (usize_limit - 1)"

definition is_power_of_two :: "usize \<Rightarrow> bool" where
  "is_power_of_two n = list_ex (\<lambda>k. n = 2 ^ k) [0..<64]"

lemma checked_add_Some_iff: "checked_add a b = Some c \<longleftrightarrow> c = a + b \<and> a + b < usize_limit"
  by (auto simp: checked_add_def)

lemma checked_sub_Some_iff: "checked_sub a b = Some c \<longleftrightarrow> b \<le> a \<and> c = a - b"
  by (auto simp: checked_sub_def)

lemma saturating_add_less: "saturating_add a b < usize_limit"
  by (simp add: saturating_add_def usize_limit_def)

lemma saturating_mul_less: "saturating_mul a b < usize_limit"
  by (simp add: saturating_mul_def usize_limit_def)

lemma is_power_of_two_pos: "is_power_of_two n \<Longrightarrow> 0 < n"
  by (auto simp: is_power_of_two_def list_ex_iff)

lemma nat_and_mask: "(n::nat) AND mask k = n mod 2 ^ k"
  by (metis take_bit_eq_mask take_bit_eq_mod)

subsection \<open>Slices and vectors\<close>

text \<open>
  \<open>partition_point\<close> returns the length of the prefix satisfying the predicate, provided the
  slice is partitioned by it. Every call below is on a slice sorted by the compared key, and
  \<open>partition_point_sorted\<close> turns that into the documented result.
\<close>

definition partition_point :: "('a \<Rightarrow> bool) \<Rightarrow> 'a list \<Rightarrow> nat" where
  "partition_point P xs = length (takeWhile P xs)"

lemma partition_point_le: "partition_point P xs \<le> length xs"
  by (simp add: partition_point_def length_takeWhile_le)

lemma partition_point_take: "x \<in> set (take (partition_point P xs) xs) \<Longrightarrow> P x"
  by (metis partition_point_def set_takeWhileD takeWhile_eq_take)

lemma partition_point_drop_hd:
  "partition_point P xs < length xs \<Longrightarrow> \<not> P (xs ! partition_point P xs)"
  by (simp add: partition_point_def nth_length_takeWhile)

lemma partition_point_sorted:
  assumes "sorted (map f xs)"
  shows "i < length xs \<Longrightarrow> i < partition_point (\<lambda>x. f x \<le> b) xs \<longleftrightarrow> f (xs ! i) \<le> b"
proof -
  assume i: "i < length xs"
  let ?p = "partition_point (\<lambda>x. f x \<le> b) xs"
  show ?thesis
  proof
    assume lt: "i < ?p"
    then have "xs ! i \<in> set (take ?p xs)"
      using i by (auto simp: in_set_conv_nth intro!: exI [of _ i])
    then show "f (xs ! i) \<le> b" by (rule partition_point_take)
  next
    assume le: "f (xs ! i) \<le> b"
    show "i < ?p"
    proof (rule ccontr)
      assume "\<not> i < ?p"
      then have pi: "?p \<le> i" "?p < length xs" using i by auto
      then have "f (xs ! ?p) \<le> f (xs ! i)"
        using sorted_nth_mono [OF assms, of ?p i] i by simp
      moreover have "\<not> f (xs ! ?p) \<le> b"
        using partition_point_drop_hd [OF pi(2)] by simp
      ultimately show False using le by simp
    qed
  qed
qed

text \<open>
  A stack held in a vector is written with its top first: \<open>extend\<close> pushes the elements of a
  slice in order, so the last one is popped first.
\<close>

definition push_all :: "'a list \<Rightarrow> 'a list \<Rightarrow> 'a list" where
  "push_all cs stack = rev cs @ stack"

lemma set_push_all [simp]: "set (push_all cs stack) = set cs \<union> set stack"
  by (simp add: push_all_def)

subsection \<open>Association lists as hash maps\<close>

text \<open>
  A \<open>HashMap\<close> is an association list with distinct keys: \<^const>\<open>map_of\<close> is \<open>get\<close>,
  \<^const>\<open>AList.update\<close> is \<open>insert\<close>, \<^const>\<open>AList.delete\<close> is \<open>remove\<close> and a filter on
  the pairs is \<open>retain\<close>.
\<close>

definition hm_get :: "('k \<times> 'v) list \<Rightarrow> 'k \<Rightarrow> 'v option" where
  "hm_get m k = map_of m k"

definition hm_insert :: "'k \<Rightarrow> 'v \<Rightarrow> ('k \<times> 'v) list \<Rightarrow> ('k \<times> 'v) list" where
  "hm_insert k v m = AList.update k v m"

definition hm_remove :: "'k \<Rightarrow> ('k \<times> 'v) list \<Rightarrow> ('k \<times> 'v) list" where
  "hm_remove k m = AList.delete k m"

definition hm_retain :: "('k \<Rightarrow> 'v \<Rightarrow> bool) \<Rightarrow> ('k \<times> 'v) list \<Rightarrow> ('k \<times> 'v) list" where
  "hm_retain P m = filter (\<lambda>(k, v). P k v) m"

lemma hm_get_insert [simp]: "hm_get (hm_insert k v m) k' = (if k' = k then Some v else hm_get m k')"
  by (simp add: hm_get_def hm_insert_def update_conv')

lemma hm_get_remove [simp]: "hm_get (hm_remove k m) k' = (if k' = k then None else hm_get m k')"
  by (simp add: hm_get_def hm_remove_def delete_conv')

lemma hm_get_Nil [simp]: "hm_get [] k = None"
  by (simp add: hm_get_def)

lemma hm_get_retain:
  assumes "distinct (map fst m)"
  shows "hm_get (hm_retain P m) k =
    (case hm_get m k of None \<Rightarrow> None | Some v \<Rightarrow> if P k v then Some v else None)"
  using assms
proof (induction m)
  case Nil
  then show ?case by (simp add: hm_get_def hm_retain_def)
next
  case (Cons kv m)
  obtain k1 v1 where kv: "kv = (k1, v1)" by (cases kv)
  have IH: "hm_get (hm_retain P m) k =
      (case hm_get m k of None \<Rightarrow> None | Some v \<Rightarrow> if P k v then Some v else None)"
    using Cons by simp
  show ?case
  proof (cases "k = k1")
    case True
    have "hm_get m k1 = None"
      using Cons.prems kv by (simp add: hm_get_def map_of_eq_None_iff)
    then have "hm_get (hm_retain P m) k1 = None" using IH True by simp
    then show ?thesis using True kv by (simp add: hm_get_def hm_retain_def)
  next
    case False
    then show ?thesis using IH kv by (simp add: hm_get_def hm_retain_def)
  qed
qed

lemma distinct_hm_insert: "distinct (map fst m) \<Longrightarrow> distinct (map fst (hm_insert k v m))"
  by (simp add: hm_insert_def distinct_update)

lemma distinct_hm_remove: "distinct (map fst m) \<Longrightarrow> distinct (map fst (hm_remove k m))"
  by (simp add: hm_remove_def distinct_delete)

lemma distinct_hm_retain: "distinct (map fst m) \<Longrightarrow> distinct (map fst (hm_retain P m))"
  by (induction m) (auto simp: hm_retain_def)

text \<open>\<open>unwrap_or_default\<close> on an optional vector.\<close>

definition or_default :: "'a list option \<Rightarrow> 'a list" where
  "or_default x = (case x of None \<Rightarrow> [] | Some cs \<Rightarrow> cs)"

lemma or_default_simps [simp]: "or_default None = []" "or_default (Some cs) = cs"
  by (simp_all add: or_default_def)

lemma set_or_default_map_of: "set (or_default (map_of m k)) \<subseteq> (\<Union>e \<in> set m. set (snd e))"
  by (cases "map_of m k") (force dest: map_of_SomeD)+

subsection \<open>Little-endian words in memory\<close>

text \<open>\<open>(a as *const usize).read_unaligned()\<close> on a little-endian 64-bit target.\<close>

definition read_usize :: "memory \<Rightarrow> usize \<Rightarrow> usize" where
  "read_usize m a = fold (\<lambda>k acc. acc * 256 + unat (m (a + k))) [7, 6, 5, 4, 3, 2, 1, 0] 0"

definition write_zeros :: "memory \<Rightarrow> usize \<Rightarrow> usize \<Rightarrow> memory" where
  "write_zeros m p n = (\<lambda>a. if p \<le> a \<and> a < p + n then 0 else m a)"

definition write_bytes_at :: "memory \<Rightarrow> usize \<Rightarrow> bytes \<Rightarrow> memory" where
  "write_bytes_at m p bs = (\<lambda>a. if p \<le> a \<and> a < p + length bs then bs ! (a - p) else m a)"

definition read_bytes_at :: "memory \<Rightarrow> usize \<Rightarrow> usize \<Rightarrow> bytes" where
  "read_bytes_at m p n = map (\<lambda>k. m (p + k)) [0..<n]"

lemma length_read_bytes_at [simp]: "length (read_bytes_at m p n) = n"
  by (simp add: read_bytes_at_def)

lemma read_write_bytes_at: "read_bytes_at (write_bytes_at m p bs) p (length bs) = bs"
  by (rule nth_equalityI) (auto simp: read_bytes_at_def write_bytes_at_def)

lemma read_bytes_at_cong:
  "(\<And>a. p \<le> a \<Longrightarrow> a < p + n \<Longrightarrow> m a = m' a) \<Longrightarrow> read_bytes_at m p n = read_bytes_at m' p n"
  by (auto simp: read_bytes_at_def)

lemma read_bytes_at_append:
  "read_bytes_at m p (a + b) = read_bytes_at m p a @ read_bytes_at m (p + a) b"
  by (rule nth_equalityI) (auto simp: read_bytes_at_def nth_append)

lemma read_usize_zeros: "p \<le> a \<Longrightarrow> a + 8 \<le> p + n \<Longrightarrow> read_usize (write_zeros m p n) a = 0"
  by (simp add: read_usize_def write_zeros_def)

end
