(* ===== verification/Ordered_Map.thy ===== *)
theory Ordered_Map
  imports Thaw_Prelude
begin

text \<open>
  \<open>BTreeMap\<close>: an association list sorted by strictly increasing keys. \<open>bt_insert\<close> is
  \<open>insert\<close>, \<open>bt_floor m p\<close> is \<open>range(..=p).next_back()\<close> and iteration order is list order.
  The locale \<open>floor_map\<close> states what the clients use of it: lookup after insert, and that the
  floor of a key is the entry with the greatest key below it. Its lemmas reduce every floor query
  to lookups, so a client never unfolds the representation.
\<close>

type_synonym ('k, 'v) btree = "('k \<times> 'v) list"

fun bt_insert :: "'k::linorder \<Rightarrow> 'v \<Rightarrow> ('k, 'v) btree \<Rightarrow> ('k, 'v) btree" where
  "bt_insert k v [] = [(k, v)]"
| "bt_insert k v ((k', v') # xs) =
     (if k < k' then (k, v) # (k', v') # xs
      else if k = k' then (k, v) # xs
      else (k', v') # bt_insert k v xs)"

definition bt_get :: "('k, 'v) btree \<Rightarrow> 'k \<Rightarrow> 'v option" where
  "bt_get m k = map_of m k"

definition bt_remove :: "'k \<Rightarrow> ('k, 'v) btree \<Rightarrow> ('k, 'v) btree" where
  "bt_remove k m = filter (\<lambda>(k', _). k' \<noteq> k) m"

definition bt_retain :: "('k \<Rightarrow> 'v \<Rightarrow> bool) \<Rightarrow> ('k, 'v) btree \<Rightarrow> ('k, 'v) btree" where
  "bt_retain P m = filter (\<lambda>(k, v). P k v) m"

fun bt_floor :: "('k::linorder, 'v) btree \<Rightarrow> 'k \<Rightarrow> ('k \<times> 'v) option" where
  "bt_floor [] p = None"
| "bt_floor ((k, v) # xs) p =
     (if k \<le> p then (case bt_floor xs p of None \<Rightarrow> Some (k, v) | Some e \<Rightarrow> Some e) else None)"

definition bt_ok :: "('k::linorder, 'v) btree \<Rightarrow> bool" where
  "bt_ok m = sorted_wrt (<) (map fst m)"

subsection \<open>The interface\<close>

locale floor_map =
  fixes lookup :: "'m \<Rightarrow> 'k::linorder \<Rightarrow> 'v option"
    and insert :: "'k \<Rightarrow> 'v \<Rightarrow> 'm \<Rightarrow> 'm"
    and floor :: "'m \<Rightarrow> 'k \<Rightarrow> ('k \<times> 'v) option"
    and invar :: "'m \<Rightarrow> bool"
  assumes lookup_insert: "invar m \<Longrightarrow> lookup (insert k v m) k' = (if k' = k then Some v else lookup m k')"
    and invar_insert: "invar m \<Longrightarrow> invar (insert k v m)"
    and floor_sound: "invar m \<Longrightarrow> floor m p = Some (k, v) \<Longrightarrow> lookup m k = Some v \<and> k \<le> p"
    and floor_greatest: "invar m \<Longrightarrow> lookup m k = Some v \<Longrightarrow> k \<le> p \<Longrightarrow>
          \<exists>k' v'. floor m p = Some (k', v') \<and> k \<le> k'"
begin

lemma floor_eq_Some_iff:
  assumes "invar m"
  shows "floor m p = Some (k, v) \<longleftrightarrow>
    lookup m k = Some v \<and> k \<le> p \<and> (\<forall>k'. k' \<le> p \<longrightarrow> lookup m k' \<noteq> None \<longrightarrow> k' \<le> k)" (is "_ \<longleftrightarrow> ?R")
proof
  assume f: "floor m p = Some (k, v)"
  have "k' \<le> k" if "k' \<le> p" "lookup m k' \<noteq> None" for k'
    using floor_greatest [OF assms _ that(1)] that(2) f by fastforce
  then show ?R using floor_sound [OF assms f] by blast
next
  assume r: ?R
  then obtain k' v' where f: "floor m p = Some (k', v')" and "k \<le> k'"
    using floor_greatest [OF assms] by blast
  then show "floor m p = Some (k, v)"
    using r floor_sound [OF assms f] by (metis option.distinct(1) option.sel order_antisym)
qed

lemma floor_eq_None_iff:
  assumes "invar m"
  shows "floor m p = None \<longleftrightarrow> (\<forall>k\<le>p. lookup m k = None)"
proof
  assume "floor m p = None"
  then show "\<forall>k\<le>p. lookup m k = None"
    using floor_greatest [OF assms] by (metis not_None_eq option.distinct(1))
next
  assume n: "\<forall>k\<le>p. lookup m k = None"
  show "floor m p = None"
  proof (cases "floor m p")
    case (Some kv)
    obtain k v where "kv = (k, v)" by (cases kv)
    then show ?thesis using floor_sound [OF assms, of p k v] Some n by auto
  qed simp
qed

lemma floor_cong:
  assumes "invar m" "invar m'" "\<And>k. k \<le> p \<Longrightarrow> lookup m k = lookup m' k"
  shows "floor m p = floor m' p"
proof (cases "floor m p")
  case None
  then have "\<forall>k\<le>p. lookup m' k = None"
    using floor_eq_None_iff [OF assms(1)] assms(3) by metis
  then show ?thesis using floor_eq_None_iff [OF assms(2)] None by metis
next
  case (Some kv)
  obtain k v where kv: "kv = (k, v)" by (cases kv)
  then have f: "floor m p = Some (k, v)" using Some by simp
  then have "lookup m k = Some v" "k \<le> p" "\<forall>k'. k' \<le> p \<longrightarrow> lookup m k' \<noteq> None \<longrightarrow> k' \<le> k"
    using floor_eq_Some_iff [OF assms(1)] by auto
  then have "floor m' p = Some (k, v)"
    using floor_eq_Some_iff [OF assms(2)] assms(3) by metis
  then show ?thesis using f by simp
qed

lemma floor_insert:
  assumes "invar m"
  shows "floor (insert k v m) p =
    (if k \<le> p \<and> (case floor m p of None \<Rightarrow> True | Some (b, _) \<Rightarrow> b \<le> k)
     then Some (k, v) else floor m p)"
proof -
  note inv' = invar_insert [OF assms, of k v]
  have lk: "lookup (insert k v m) k' = (if k' = k then Some v else lookup m k')" for k'
    by (rule lookup_insert [OF assms])
  show ?thesis
  proof (cases "k \<le> p")
    case False
    then have "floor (insert k v m) p = floor m p"
      using lk by (intro floor_cong [OF inv' assms]) auto
    then show ?thesis using False by simp
  next
    case True
    show ?thesis
    proof (cases "floor m p")
      case None
      then have "\<forall>k'\<le>p. lookup m k' = None" using floor_eq_None_iff [OF assms] by blast
      then show ?thesis using True None lk floor_eq_Some_iff [OF inv', of p k v] by auto
    next
      case (Some bw)
      obtain b w where bw: "bw = (b, w)" by (cases bw)
      then have f: "lookup m b = Some w" "b \<le> p" "\<forall>k'. k' \<le> p \<longrightarrow> lookup m k' \<noteq> None \<longrightarrow> k' \<le> b"
        using floor_eq_Some_iff [OF assms, of p b w] Some by auto
      show ?thesis
      proof (cases "b \<le> k")
        case le: True
        have "\<forall>k'. k' \<le> p \<longrightarrow> lookup (insert k v m) k' \<noteq> None \<longrightarrow> k' \<le> k"
          using f(3) le lk by (metis order_refl order_trans)
        then have "floor (insert k v m) p = Some (k, v)"
          using True lk floor_eq_Some_iff [OF inv', of p k v] by auto
        then show ?thesis using Some bw le True by simp
      next
        case False
        then have "floor (insert k v m) p = Some (b, w)"
          using f lk floor_eq_Some_iff [OF inv', of p b w] by auto
        then show ?thesis using Some bw False True by simp
      qed
    qed
  qed
qed

end

subsection \<open>The sorted association list provides it\<close>

lemma bt_ok_Nil [simp]: "bt_ok []"
  by (simp add: bt_ok_def)

lemma bt_ok_Cons: "bt_ok ((k, v) # m) \<longleftrightarrow> (\<forall>k' \<in> fst ` set m. k < k') \<and> bt_ok m"
  by (simp add: bt_ok_def)

lemma bt_insert_keys: "fst ` set (bt_insert k v m) = insert k (fst ` set m)"
  by (induction k v m rule: bt_insert.induct) auto

lemma bt_ok_insert [simp]: "bt_ok m \<Longrightarrow> bt_ok (bt_insert k v m)"
  by (induction k v m rule: bt_insert.induct) (auto simp: bt_ok_Cons bt_insert_keys)

lemma bt_get_insert [btree_simps]:
  "bt_get (bt_insert k v m) k' = (if k' = k then Some v else bt_get m k')"
  by (induction k v m rule: bt_insert.induct) (auto simp: bt_get_def)

lemma bt_get_Nil [btree_simps]: "bt_get [] k = None"
  by (simp add: bt_get_def)

lemma bt_ok_distinct: "bt_ok m \<Longrightarrow> distinct (map fst m)"
  by (simp add: bt_ok_def strict_sorted_iff)

lemma bt_ok_sorted: "bt_ok m \<Longrightarrow> sorted (map fst m)"
  by (simp add: bt_ok_def strict_sorted_iff)

lemma bt_get_in_set: "bt_ok m \<Longrightarrow> bt_get m k = Some v \<longleftrightarrow> (k, v) \<in> set m"
  by (simp add: bt_get_def bt_ok_distinct)

lemma bt_ok_filter: "bt_ok m \<Longrightarrow> bt_ok (filter P m)"
  by (simp add: bt_ok_def sorted_wrt_map sorted_wrt_filter)

lemma bt_ok_remove [simp]: "bt_ok m \<Longrightarrow> bt_ok (bt_remove k m)"
  by (simp add: bt_remove_def bt_ok_filter)

lemma bt_ok_retain [simp]: "bt_ok m \<Longrightarrow> bt_ok (bt_retain P m)"
  by (simp add: bt_retain_def bt_ok_filter)

lemma bt_get_remove [btree_simps]: "bt_get (bt_remove k m) k' = (if k' = k then None else bt_get m k')"
  by (induction m) (auto simp: bt_get_def bt_remove_def)

lemma bt_get_retain [btree_simps]:
  assumes "bt_ok m"
  shows "bt_get (bt_retain P m) k =
    (case bt_get m k of None \<Rightarrow> None | Some v \<Rightarrow> if P k v then Some v else None)"
  using hm_get_retain [OF bt_ok_distinct [OF assms]]
  by (simp add: bt_get_def bt_retain_def hm_get_def hm_retain_def)

lemma bt_floor_sound: "bt_ok m \<Longrightarrow> bt_floor m p = Some (k, v) \<Longrightarrow> bt_get m k = Some v \<and> k \<le> p"
proof (induction m p rule: bt_floor.induct)
  case (2 k1 v1 xs p)
  have ok: "bt_ok xs" "\<forall>k' \<in> fst ` set xs. k1 < k'" using "2.prems" by (auto simp: bt_ok_Cons)
  show ?case
  proof (cases "bt_floor xs p")
    case None
    then show ?thesis using "2.prems" by (auto simp: bt_get_def split: if_splits)
  next
    case (Some e)
    then have "bt_get xs k = Some v \<and> k \<le> p"
      using "2.prems" "2.IH" ok by (auto split: if_splits)
    moreover have "k1 \<noteq> k"
      using ok calculation by (auto simp: bt_get_def dest!: map_of_SomeD)
    ultimately show ?thesis by (simp add: bt_get_def)
  qed
qed simp

lemma bt_floor_greatest:
  "bt_ok m \<Longrightarrow> bt_get m k = Some v \<Longrightarrow> k \<le> p \<Longrightarrow> \<exists>k' v'. bt_floor m p = Some (k', v') \<and> k \<le> k'"
proof (induction m p rule: bt_floor.induct)
  case (1 p)
  then show ?case by (simp add: bt_get_def)
next
  case (2 k1 v1 xs p)
  have ok: "bt_ok xs" "\<forall>k' \<in> fst ` set xs. k1 < k'" using "2.prems" by (auto simp: bt_ok_Cons)
  show ?case
  proof (cases "k = k1")
    case True
    have "k1 \<le> k'" if "bt_floor xs p = Some (k', v')" for k' v'
      using bt_floor_sound [OF ok(1) that] ok by (force simp: bt_get_def dest!: map_of_SomeD)
    then show ?thesis using True "2.prems" by (auto split: option.splits)
  next
    case False
    then have g: "bt_get xs k = Some v" using "2.prems" by (simp add: bt_get_def)
    then have "k1 \<le> p" using ok "2.prems" by (force simp: bt_get_def dest!: map_of_SomeD)
    moreover obtain k' v' where "bt_floor xs p = Some (k', v')" "k \<le> k'"
      using "2.IH" calculation ok g "2.prems" by blast
    ultimately show ?thesis by auto
  qed
qed

interpretation bt: floor_map bt_get bt_insert bt_floor bt_ok
  by unfold_locales (auto simp: btree_simps dest: bt_floor_sound bt_floor_greatest)

lemma fold_insert_ok: "bt_ok m \<Longrightarrow> bt_ok (fold (\<lambda>x. bt_insert (f x) (g x)) xs m)"
  by (induction xs arbitrary: m) auto

text \<open>Two ordered maps with the same lookups are the same list.\<close>

lemma bt_ok_ext:
  assumes "bt_ok m" "bt_ok m'" "\<And>k. bt_get m k = bt_get m' k"
  shows "m = m'"
proof -
  have s: "set m = set m'"
    using bt_get_in_set [OF assms(1)] bt_get_in_set [OF assms(2)] assms(3)
    by (simp add: set_eq_iff split_paired_all)
  have k: "map fst m = map fst m'"
    using assms(1,2) s by (intro sorted_distinct_set_unique) (auto simp: bt_ok_sorted bt_ok_distinct)
  show ?thesis
  proof (rule nth_equalityI)
    show l: "length m = length m'" using k map_eq_imp_length_eq by blast
    fix i assume i: "i < length m"
    have "fst (m ! i) = fst (m' ! i)" using k l i by (metis nth_map)
    moreover have "m ! i \<in> set m" "m' ! i \<in> set m"
      using nth_mem [OF i] nth_mem [of i m'] i l s by argo+
    moreover have "inj_on fst (set m)" using bt_ok_distinct [OF assms(1)] by (simp add: distinct_map)
    ultimately show "m ! i = m' ! i" by (meson inj_onD)
  qed
qed

end
