(* ===== verification/Arena_State.thy ===== *)
theory Arena_State
  imports Ordered_Map
begin

text \<open>
  The data of \<open>crates/thaw-arena/src/lib.rs\<close>: allocation identities and records, the snapshot
  types, and the thread-local state of the crate as one record, followed by the operations that
  only read or update that state: the capacity table, the pin counts of \<open>ArenaRoot\<close>, the tracing
  flag, the two side tables of references, the root slots, the table lookups and the allocator.
  Marking is in \<open>Arena_Mark\<close>, the reset in \<open>Arena_Reset\<close>.

  The bump allocator itself is the \<open>bumpalo\<close> package: its operations are the fields of
  \<open>bump_ops\<close>, an argument of the definitions that use it. \<open>RefCell\<close> borrows never overlap in
  a sequential run, so the borrow conflicts of the sources do not occur here.
\<close>

subsection \<open>Records\<close>

record allocation_id =
  id_base :: usize
  id_serial :: nat

record allocation_snapshot =
  snap_id :: allocation_id
  snap_size :: usize
  snap_generation :: usize
  snap_pointer_words :: "usize list"

record native_graph_snapshot =
  ng_epoch :: nat
  ng_allocations :: "(usize, allocation_snapshot) btree"
  ng_references :: "(usize, usize list) btree"
  ng_root_values :: "usize list"
  ng_root_slots :: "usize list"
  ng_pinned_counts :: "(usize, usize) btree"

record native_mark =
  allocation_starts :: "usize set"
  owner_nodes :: "usize set"
  retained_generations :: "usize set"

datatype snapshot_error = BorrowConflict | IdentityUnavailable

text \<open>A traced allocation; serial 0 means that no identity is available.\<close>

record alloc_record =
  rec_size :: usize
  rec_generation :: usize
  rec_serial :: nat

record pending_allocation =
  pa_base :: usize
  pa_size :: usize
  pa_serial :: nat

definition PENDING_SCAN_LIMIT :: nat where
  "PENDING_SCAN_LIMIT = 32"

definition AUTO_RESET_FLOOR :: usize where
  "AUTO_RESET_FLOOR = 2 ^ 20"

text \<open>
  Reset hooks are function pointers: the one the crate registers itself, and the ones other crates
  register, known by a number.
\<close>

datatype hook = ClearNativeErrorAliases | ForeignHook nat

record 'b bump_ops =
  bump_new :: 'b
  bump_try_alloc :: "'b \<Rightarrow> usize \<Rightarrow> usize \<Rightarrow> (usize \<times> 'b) option"
  bump_reset :: "'b \<Rightarrow> 'b"

record 'b thread_state =
  arena :: 'b
  retained :: "'b list"
  allocations :: "(usize, alloc_record) btree"
  pending_allocations :: "pending_allocation list"
  next_allocation_id :: nat
  graph_epoch :: "nat option"
  roots :: "usize list"
  reclaimed :: "(usize \<times> usize) list"
  references :: "(usize, usize list) btree"
  allocation_references :: "((allocation_id \<times> usize) \<times> usize list) list"
  tracing :: bool
  pinned :: "(usize, usize) btree"
  reset_hooks :: "hook list"
  metadata_reset_hooks :: "hook list"
  reset_active :: bool
  bytes_since_reset :: usize
  next_auto_reset :: usize
  capacities :: "(usize \<times> usize) list"
  lengths :: "(usize \<times> (usize \<times> bool)) list"
  native_error_aliases :: "(usize \<times> usize) list"
  mem :: memory

definition init_state :: "'b bump_ops \<Rightarrow> memory \<Rightarrow> 'b thread_state" where
  "init_state B m = \<lparr>arena = bump_new B, retained = [], allocations = [], pending_allocations = [],
     next_allocation_id = 0, graph_epoch = Some 0, roots = [], reclaimed = [], references = [],
     allocation_references = [], tracing = False, pinned = [], reset_hooks = [],
     metadata_reset_hooks = [], reset_active = False, bytes_since_reset = 0,
     next_auto_reset = AUTO_RESET_FLOOR, capacities = [], lengths = [],
     native_error_aliases = [], mem = m\<rparr>"

subsection \<open>Pins, tracing and side tables\<close>

text \<open>\<open>ResetGuard::acquire\<close>: the new state when the guard is free, nothing when it is taken.\<close>

definition reset_guard_acquire :: "'b thread_state \<Rightarrow> 'b thread_state option" where
  "reset_guard_acquire s = (if reset_active s then None else Some (s\<lparr>reset_active := True\<rparr>))"

definition reset_guard_drop :: "'b thread_state \<Rightarrow> 'b thread_state" where
  "reset_guard_drop s = s\<lparr>reset_active := False\<rparr>"

text \<open>\<open>ArenaRoot::new\<close> returns the pinned address, 0 when the root pins nothing.\<close>

definition arena_root_new :: "usize \<Rightarrow> 'b thread_state \<Rightarrow> usize \<times> 'b thread_state" where
  "arena_root_new pointer s =
     (let p = (if tracing s then pointer else 0) in
      if p \<noteq> 0
      then (p, s\<lparr>pinned := bt_insert p (case bt_get (pinned s) p of None \<Rightarrow> 1 | Some c \<Rightarrow> c + 1) (pinned s)\<rparr>)
      else (p, s))"

definition arena_root_clone :: "usize \<Rightarrow> 'b thread_state \<Rightarrow> usize \<times> 'b thread_state" where
  "arena_root_clone root s = arena_root_new root s"

definition arena_root_drop :: "usize \<Rightarrow> 'b thread_state \<Rightarrow> 'b thread_state" where
  "arena_root_drop root s =
     (case bt_get (pinned s) root of
        None \<Rightarrow> s
      | Some count \<Rightarrow>
          if count - 1 = 0 then s\<lparr>pinned := bt_remove root (pinned s)\<rparr>
          else s\<lparr>pinned := bt_insert root (count - 1) (pinned s)\<rparr>)"

definition thaw_arena_enable_tracing :: "'b thread_state \<Rightarrow> 'b thread_state" where
  "thaw_arena_enable_tracing s = s\<lparr>tracing := True\<rparr>"

text \<open>Removing the child at its first position and pushing the next one.\<close>

definition replace_child :: "usize \<Rightarrow> usize \<Rightarrow> usize list \<Rightarrow> usize list" where
  "replace_child previous nxt children =
     (let kept = remove1 previous children in if nxt \<noteq> 0 then kept @ [nxt] else kept)"

definition replace_reference :: "usize \<Rightarrow> usize \<Rightarrow> usize \<Rightarrow> 'b thread_state \<Rightarrow> 'b thread_state" where
  "replace_reference owner previous nxt s =
     (if \<not> tracing s then s
      else s\<lparr>references := bt_insert owner
               (replace_child previous nxt
                 (or_default (bt_get (references s) owner)))
               (references s)\<rparr>)"

definition forget_references :: "usize \<Rightarrow> 'b thread_state \<Rightarrow> 'b thread_state" where
  "forget_references owner s = s\<lparr>references := bt_remove owner (references s)\<rparr>"

definition remove_allocation_reference ::
    "allocation_id \<Rightarrow> usize \<Rightarrow> usize \<Rightarrow> 'b thread_state \<Rightarrow> 'b thread_state" where
  "remove_allocation_reference identity owner child s =
     (case hm_get (allocation_references s) (identity, owner) of
        None \<Rightarrow> s
      | Some children \<Rightarrow>
          (let kept = remove1 child children in
           s\<lparr>allocation_references :=
               (if kept = [] then hm_remove (identity, owner) (allocation_references s)
                else hm_insert (identity, owner) kept (allocation_references s))\<rparr>))"

definition thaw_arena_register_root :: "usize \<Rightarrow> 'b thread_state \<Rightarrow> 'b thread_state" where
  "thaw_arena_register_root slot s =
     (let s1 = thaw_arena_enable_tracing s in
      if slot \<in> set (roots s1) then s1 else s1\<lparr>roots := roots s1 @ [slot]\<rparr>)"

text \<open>\<open>Vec::swap_remove\<close>: the last element takes the place of the removed one.\<close>

definition swap_remove :: "nat \<Rightarrow> 'a list \<Rightarrow> 'a list" where
  "swap_remove i xs = (if i = length xs - 1 then butlast xs else butlast (xs[i := last xs]))"

fun position :: "('a \<Rightarrow> bool) \<Rightarrow> 'a list \<Rightarrow> nat option" where
  "position P [] = None"
| "position P (x # xs) = (if P x then Some 0 else map_option Suc (position P xs))"

definition thaw_arena_unregister_root :: "usize \<Rightarrow> 'b thread_state \<Rightarrow> nat \<times> 'b thread_state" where
  "thaw_arena_unregister_root slot s =
     (case position (\<lambda>root. root = slot) (roots s) of
        None \<Rightarrow> (0, s)
      | Some index \<Rightarrow> (1, forget_references slot (s\<lparr>roots := swap_remove index (roots s)\<rparr>)))"

definition was_reclaimed :: "'b thread_state \<Rightarrow> usize \<Rightarrow> bool" where
  "was_reclaimed s pointer =
     (let index = partition_point (\<lambda>(start, _). start \<le> pointer) (reclaimed s) in
      index \<noteq> 0 \<and> pointer < snd (reclaimed s ! (index - 1)))"

subsection \<open>Looking an address up\<close>

definition into_record :: "pending_allocation \<Rightarrow> usize \<Rightarrow> alloc_record" where
  "into_record p generation =
     \<lparr>rec_size = pa_size p, rec_generation = generation, rec_serial = pa_serial p\<rparr>"

definition flush_pending ::
    "usize \<Rightarrow> pending_allocation list \<Rightarrow> (usize, alloc_record) btree \<Rightarrow> (usize, alloc_record) btree" where
  "flush_pending generation pending table =
     fold (\<lambda>r. bt_insert (pa_base r) (into_record r generation)) pending table"

text \<open>The match shared by the two lookups: a pending record wins a tie, being newer.\<close>

definition choose_nearest ::
    "pending_allocation option \<Rightarrow> (usize \<times> alloc_record) option \<Rightarrow> usize \<Rightarrow>
     (usize \<times> alloc_record) option" where
  "choose_nearest from_pending from_table generation =
     (case (from_pending, from_table) of
        (Some new, Some (base, r)) \<Rightarrow>
          if base \<le> pa_base new then Some (pa_base new, into_record new generation) else Some (base, r)
      | (Some new, None) \<Rightarrow> Some (pa_base new, into_record new generation)
      | (None, table) \<Rightarrow> table)"

definition nearest_allocation ::
    "(usize, alloc_record) btree \<Rightarrow> pending_allocation list \<Rightarrow> usize \<Rightarrow> usize \<Rightarrow>
     (usize \<times> alloc_record) option" where
  "nearest_allocation table pending generation pointer =
     choose_nearest
       (map_option (\<lambda>index. pending ! index)
         (checked_sub (partition_point (\<lambda>r. pa_base r \<le> pointer) pending) 1))
       (bt_floor table pointer) generation"

text \<open>The fold over a short, unsorted pending list: the newest record with the greatest base.\<close>

definition scan_pending :: "pending_allocation list \<Rightarrow> usize \<Rightarrow> pending_allocation option" where
  "scan_pending pending pointer =
     fold (\<lambda>r best. case best of
              Some b \<Rightarrow> if pa_base r < pa_base b then Some b else Some r
            | None \<Rightarrow> Some r)
       (filter (\<lambda>r. pa_base r \<le> pointer) pending) None"

definition locate_allocation ::
    "usize \<Rightarrow> 'b thread_state \<Rightarrow> (usize \<times> alloc_record) option \<times> 'b thread_state" where
  "locate_allocation pointer s =
     (let generation = length (retained s);
          s1 = (if PENDING_SCAN_LIMIT < length (pending_allocations s)
                then s\<lparr>allocations := flush_pending generation (pending_allocations s) (allocations s),
                       pending_allocations := []\<rparr>
                else s)
      in (case choose_nearest (scan_pending (pending_allocations s1) pointer)
                 (bt_floor (allocations s1) pointer) generation of
            None \<Rightarrow> (None, s1)
          | Some (base, r) \<Rightarrow>
              (if pointer - base < rec_size r then Some (base, r) else None, s1)))"

definition contains_allocation :: "usize \<Rightarrow> 'b thread_state \<Rightarrow> bool \<times> 'b thread_state" where
  "contains_allocation pointer s =
     (if pointer = 0 \<or> \<not> tracing s then (False, s)
      else (let (found, s1) = locate_allocation pointer s in (found \<noteq> None, s1)))"

definition thaw_arena_contains_allocation :: "usize \<Rightarrow> 'b thread_state \<Rightarrow> nat \<times> 'b thread_state" where
  "thaw_arena_contains_allocation pointer s =
     (let (found, s1) = contains_allocation pointer s in (of_bool found, s1))"

definition allocation_identity :: "usize \<Rightarrow> 'b thread_state \<Rightarrow> allocation_id option \<times> 'b thread_state" where
  "allocation_identity pointer s =
     (if pointer = 0 \<or> \<not> tracing s then (None, s)
      else (case locate_allocation pointer s of
              (None, s1) \<Rightarrow> (None, s1)
            | (Some (base, r), s1) \<Rightarrow>
                (if rec_serial r \<noteq> 0 then Some \<lparr>id_base = base, id_serial = rec_serial r\<rparr> else None, s1)))"

definition allocation_span_identity ::
    "usize \<Rightarrow> usize \<Rightarrow> usize \<Rightarrow> 'b thread_state \<Rightarrow> (allocation_id \<times> usize) option \<times> 'b thread_state" where
  "allocation_span_identity pointer byte_len alignment s =
     (if pointer = 0 \<or> byte_len = 0 \<or> alignment = 0 \<or> \<not> is_power_of_two alignment
         \<or> pointer mod alignment \<noteq> 0 \<or> \<not> tracing s
      then (None, s)
      else (case locate_allocation pointer s of
              (None, s1) \<Rightarrow> (None, s1)
            | (Some (base, r), s1) \<Rightarrow>
                (case Option.bind (checked_sub pointer base) (\<lambda>off. checked_add off byte_len) of
                   None \<Rightarrow> (None, s1)
                 | Some stop \<Rightarrow>
                     if rec_size r < stop \<or> rec_serial r = 0 then (None, s1)
                     else (Some (\<lparr>id_base = base, id_serial = rec_serial r\<rparr>, pointer - base), s1))))"

definition replace_allocation_reference ::
    "allocation_id \<Rightarrow> usize \<Rightarrow> usize \<Rightarrow> usize \<Rightarrow> 'b thread_state \<Rightarrow> bool \<times> 'b thread_state" where
  "replace_allocation_reference identity owner previous nxt s =
     (let (found, s1) = allocation_identity owner s in
      if found \<noteq> Some identity then (False, s1)
      else
        (let children = replace_child previous nxt
               (or_default (hm_get (allocation_references s1) (identity, owner)))
         in (True, s1\<lparr>allocation_references :=
               (if children = [] then hm_remove (identity, owner) (allocation_references s1)
                else hm_insert (identity, owner) children (allocation_references s1))\<rparr>)))"

subsection \<open>Allocation\<close>

text \<open>\<open>Layout::from_size_align\<close> accepts a power-of-two alignment and a size that, rounded up to
  it, does not exceed \<open>isize::MAX\<close>.\<close>

definition layout_ok :: "usize \<Rightarrow> usize \<Rightarrow> bool" where
  "layout_ok sz align = (is_power_of_two align \<and> sz \<le> 2 ^ 63 - align)"

text \<open>Pointers are addresses; 0 is the null pointer.\<close>

definition thaw_arena_alloc ::
    "'b bump_ops \<Rightarrow> usize \<Rightarrow> usize \<Rightarrow> 'b thread_state \<Rightarrow> usize \<times> 'b thread_state" where
  "thaw_arena_alloc B sz align s =
     (if \<not> layout_ok sz align then (0, s)
      else (case bump_try_alloc B (arena s) sz align of
        None \<Rightarrow> (0, s)
      | Some (pointer, a) \<Rightarrow>
          (let s1 = s\<lparr>arena := a, bytes_since_reset := saturating_add (bytes_since_reset s) sz\<rparr> in
           if \<not> tracing s1 then (pointer, s1)
           else
             (let serial = (case checked_add (next_allocation_id s1) 1 of Some n \<Rightarrow> n | None \<Rightarrow> 0);
                  nxt = (case checked_add (next_allocation_id s1) 1 of
                           Some n \<Rightarrow> n | None \<Rightarrow> next_allocation_id s1)
              in (pointer,
                  s1\<lparr>mem := write_zeros (mem s1) pointer sz,
                     next_allocation_id := nxt,
                     pending_allocations := pending_allocations s1 @
                       [\<lparr>pa_base = pointer, pa_size = max sz 1, pa_serial = serial\<rparr>],
                     graph_epoch := Option.bind (graph_epoch s1) (\<lambda>e. checked_add e 1)\<rparr>)))))"

definition allocation_capacity :: "'b thread_state \<Rightarrow> usize \<Rightarrow> usize" where
  "allocation_capacity s pointer = (case hm_get (capacities s) pointer of None \<Rightarrow> 0 | Some c \<Rightarrow> c)"

definition alloc_with_capacity ::
    "'b bump_ops \<Rightarrow> usize \<Rightarrow> usize \<Rightarrow> 'b thread_state \<Rightarrow> usize \<times> 'b thread_state" where
  "alloc_with_capacity B sz align s =
     (let (pointer, s1) = thaw_arena_alloc B sz align s in
      if pointer \<noteq> 0 then (pointer, s1\<lparr>capacities := hm_insert pointer sz (capacities s1)\<rparr>)
      else (pointer, s1))"

definition register_reset_hook :: "hook \<Rightarrow> 'b thread_state \<Rightarrow> 'b thread_state" where
  "register_reset_hook h s =
     (if h \<in> set (reset_hooks s) then s else s\<lparr>reset_hooks := reset_hooks s @ [h]\<rparr>)"

definition register_metadata_reset_hook :: "hook \<Rightarrow> 'b thread_state \<Rightarrow> 'b thread_state" where
  "register_metadata_reset_hook h s =
     (if h \<in> set (metadata_reset_hooks s) then s
      else s\<lparr>metadata_reset_hooks := metadata_reset_hooks s @ [h]\<rparr>)"

end
