(* ===== verification/Arena_Lookup.thy ===== *)
theory Arena_Lookup
  imports Arena_State
begin

text \<open>
  The lookups of the arena against their specification. The traced allocations of a state are the
  ordered table with every pending record inserted, \<open>settled\<close>; the code keeps the pending records
  in an unsorted vector and consults them in three different ways (a linear scan, a flush into the
  table, a sorted and deduplicated copy). All three are shown to answer as the settled table does.
\<close>

subsection \<open>The abstract table\<close>

definition settled :: "'b thread_state \<Rightarrow> (usize, alloc_record) btree" where
  "settled s = flush_pending (length (retained s)) (pending_allocations s) (allocations s)"

definition containing :: "(usize, alloc_record) btree \<Rightarrow> usize \<Rightarrow> (usize \<times> alloc_record) option" where
  "containing t p =
     (case bt_floor t p of
        None \<Rightarrow> None
      | Some (b, r) \<Rightarrow> if p - b < rec_size r then Some (b, r) else None)"

lemma flush_pending_Nil [simp]: "flush_pending g [] t = t"
  by (simp add: flush_pending_def)

lemma flush_pending_snoc [simp]:
  "flush_pending g (ps @ [r]) t = bt_insert (pa_base r) (into_record r g) (flush_pending g ps t)"
  by (simp add: flush_pending_def)

lemma bt_ok_flush [simp]: "bt_ok t \<Longrightarrow> bt_ok (flush_pending g ps t)"
  by (induction ps rule: rev_induct) auto

text \<open>The newest pending record at a base address.\<close>

definition newest :: "pending_allocation list \<Rightarrow> usize \<Rightarrow> pending_allocation option" where
  "newest ps k =
     (let rs = filter (\<lambda>r. pa_base r = k) ps in if rs = [] then None else Some (last rs))"

lemma newest_Nil [simp]: "newest [] k = None"
  by (simp add: newest_def)

lemma newest_snoc [simp]: "newest (ps @ [r]) k = (if pa_base r = k then Some r else newest ps k)"
  by (simp add: newest_def Let_def)

lemma bt_get_flush:
  "bt_get (flush_pending g ps t) k =
     (case newest ps k of Some r \<Rightarrow> Some (into_record r g) | None \<Rightarrow> bt_get t k)"
  by (induction ps rule: rev_induct) (auto simp: btree_simps)

subsection \<open>The linear scan\<close>

lemma scan_pending_snoc:
  "scan_pending (ps @ [r]) p =
     (if pa_base r \<le> p
      then (case scan_pending ps p of
              Some b \<Rightarrow> if pa_base r < pa_base b then Some b else Some r
            | None \<Rightarrow> Some r)
      else scan_pending ps p)"
  by (simp add: scan_pending_def)

lemma scan_pending_Nil [simp]: "scan_pending [] p = None"
  by (simp add: scan_pending_def)

lemma choose_scan_floor:
  assumes "bt_ok t"
  shows "choose_nearest (scan_pending ps p) (bt_floor t p) g = bt_floor (flush_pending g ps t) p"
proof (induction ps rule: rev_induct)
  case Nil
  then show ?case by (simp add: choose_nearest_def)
next
  case (snoc r ps)
  have ok: "bt_ok (flush_pending g ps t)" using assms by simp
  show ?case
    by (cases "scan_pending ps p"; cases "bt_floor t p")
       (auto simp: scan_pending_snoc bt.floor_insert [OF ok] snoc.IH [symmetric] choose_nearest_def
             split: if_splits)
qed

subsection \<open>The sorted, deduplicated copy\<close>

fun dedup_newest :: "pending_allocation list \<Rightarrow> pending_allocation list" where
  "dedup_newest (x # y # zs) =
     (if pa_base y = pa_base x then dedup_newest (y # zs) else x # dedup_newest (y # zs))"
| "dedup_newest xs = xs"

definition sort_fresh :: "pending_allocation list \<Rightarrow> pending_allocation list" where
  "sort_fresh ps = dedup_newest (sort_key pa_base ps)"

lemma newest_Cons:
  "newest (x # xs) k = (case newest xs k of None \<Rightarrow> if pa_base x = k then Some x else None | Some r \<Rightarrow> Some r)"
  by (simp add: newest_def Let_def)

lemma newest_None_iff: "newest xs k = None \<longleftrightarrow> (\<forall>r \<in> set xs. pa_base r \<noteq> k)"
  by (auto simp: newest_def filter_empty_conv Let_def)

lemma newest_dedup [simp]: "newest (dedup_newest xs) k = newest xs k"
  by (induction xs rule: dedup_newest.induct) (auto simp: newest_Cons split: option.split)

lemma newest_sort_fresh [simp]: "newest (sort_fresh ps) k = newest ps k"
proof -
  have "filter (\<lambda>r. pa_base r = k) (sort_key pa_base ps) = filter (\<lambda>r. pa_base r = k) ps"
    by (rule sort_key_stable)
  then have "newest (sort_key pa_base ps) k = newest ps k" by (simp add: newest_def)
  then show ?thesis by (simp add: sort_fresh_def)
qed

lemma dedup_newest_hd: "xs \<noteq> [] \<Longrightarrow> \<exists>r rs. dedup_newest xs = r # rs \<and> pa_base r = pa_base (hd xs)"
  by (induction xs rule: dedup_newest.induct) auto

lemma set_dedup_newest: "set (dedup_newest xs) \<subseteq> set xs"
  by (induction xs rule: dedup_newest.induct) auto

lemma sorted_dedup_newest:
  "sorted (map pa_base xs) \<Longrightarrow> sorted_wrt (<) (map pa_base (dedup_newest xs))"
proof (induction xs rule: dedup_newest.induct)
  case (1 x y zs)
  have IH: "sorted_wrt (<) (map pa_base (dedup_newest (y # zs)))" using 1 by auto
  show ?case
  proof (cases "pa_base y = pa_base x")
    case True
    then show ?thesis using IH by simp
  next
    case False
    have "\<forall>r \<in> set (y # zs). pa_base y \<le> pa_base r" using "1.prems" by auto
    then have "\<forall>r \<in> set (dedup_newest (y # zs)). pa_base x < pa_base r"
      using set_dedup_newest [of "y # zs"] False "1.prems" by (fastforce simp: less_le)
    then show ?thesis using IH False by simp
  qed
qed auto

lemma sort_fresh_sorted: "sorted_wrt (<) (map pa_base (sort_fresh ps))"
  by (simp add: sort_fresh_def sorted_dedup_newest)

lemma flush_sort_fresh: "bt_ok t \<Longrightarrow> flush_pending g (sort_fresh ps) t = flush_pending g ps t"
  by (rule bt_ok_ext) (auto simp: bt_get_flush)

lemma takeWhile_sorted_filter:
  "sorted (map f xs) \<Longrightarrow> takeWhile (\<lambda>x. f x \<le> b) xs = filter (\<lambda>x. f x \<le> b) xs"
proof (induction xs)
  case (Cons x xs)
  show ?case
  proof (cases "f x \<le> b")
    case True
    then show ?thesis using Cons by simp
  next
    case False
    then have "\<forall>y \<in> set xs. \<not> f y \<le> b" using Cons.prems by fastforce
    then show ?thesis using False by simp
  qed
qed simp

lemma scan_pending_sorted:
  assumes "sorted (map pa_base ps)"
  shows "scan_pending ps p =
    (case filter (\<lambda>r. pa_base r \<le> p) ps of [] \<Rightarrow> None | rs \<Rightarrow> Some (last rs))"
  using assms
proof (induction ps rule: rev_induct)
  case (snoc r ps)
  have IH: "scan_pending ps p =
      (case filter (\<lambda>r. pa_base r \<le> p) ps of [] \<Rightarrow> None | rs \<Rightarrow> Some (last rs))"
    using snoc by (simp add: sorted_append)
  have le: "\<forall>q \<in> set ps. pa_base q \<le> pa_base r" using snoc.prems by (auto simp: sorted_append)
  show ?case
  proof (cases "filter (\<lambda>r. pa_base r \<le> p) ps")
    case Nil
    then show ?thesis using IH by (auto simp: scan_pending_snoc)
  next
    case (Cons a as)
    then have "last (a # as) \<in> set (filter (\<lambda>r. pa_base r \<le> p) ps)" by (metis last_in_set list.distinct(1))
    then have "pa_base (last (a # as)) \<le> pa_base r" using le by auto
    then show ?thesis using IH Cons by (auto simp: scan_pending_snoc)
  qed
qed simp

lemma partition_scan:
  assumes "sorted (map pa_base ps)"
  shows "map_option (\<lambda>index. ps ! index) (checked_sub (partition_point (\<lambda>r. pa_base r \<le> p) ps) 1)
    = scan_pending ps p"
proof -
  let ?f = "filter (\<lambda>r. pa_base r \<le> p) ps"
  have tw: "takeWhile (\<lambda>r. pa_base r \<le> p) ps = ?f" by (rule takeWhile_sorted_filter [OF assms])
  have "ps ! (length ?f - 1) = last ?f" if "?f \<noteq> []"
    using that by (metis (no_types, lifting) tw diff_less last_conv_nth length_greater_0_conv takeWhile_nth zero_less_one)
  then show ?thesis
    unfolding scan_pending_sorted [OF assms] partition_point_def tw checked_sub_def
    by (auto split: list.split)
qed

lemma nearest_floor:
  assumes "bt_ok t" "sorted (map pa_base ps)"
  shows "nearest_allocation t ps g p = bt_floor (flush_pending g ps t) p"
  using choose_scan_floor [OF assms(1)] partition_scan [OF assms(2)]
  by (simp add: nearest_allocation_def)

lemma nearest_sort_fresh:
  assumes "bt_ok t"
  shows "nearest_allocation t (sort_fresh ps) g p = bt_floor (flush_pending g ps t) p"
proof -
  have "sorted (map pa_base (sort_fresh ps))"
    using sort_fresh_sorted strict_sorted_imp_sorted by blast
  then show ?thesis using nearest_floor [OF assms] flush_sort_fresh [OF assms] by metis
qed

subsection \<open>Locating an allocation\<close>

lemma locate_result:
  assumes "bt_ok (allocations s)"
  shows "fst (locate_allocation p s) = containing (settled s) p"
  using choose_scan_floor [OF assms] choose_scan_floor [of "settled s" "[]" p] assms
  by (auto simp: locate_allocation_def Let_def containing_def settled_def split: option.splits)

lemma locate_state:
  "snd (locate_allocation p s) = s \<or>
   snd (locate_allocation p s) = s\<lparr>allocations := settled s, pending_allocations := []\<rparr>"
  by (auto simp: locate_allocation_def Let_def settled_def split: option.splits prod.splits)

lemma locate_settled [simp]: "settled (snd (locate_allocation p s)) = settled s"
  using locate_state [of p s] by (auto simp: settled_def)

lemma locate_ok: "bt_ok (allocations s) \<Longrightarrow> bt_ok (allocations (snd (locate_allocation p s)))"
  using locate_state [of p s] by (auto simp: settled_def)

lemma locate_fields [frame_simps]:
  "retained (snd (locate_allocation p s)) = retained s"
  "references (snd (locate_allocation p s)) = references s"
  "allocation_references (snd (locate_allocation p s)) = allocation_references s"
  "roots (snd (locate_allocation p s)) = roots s"
  "pinned (snd (locate_allocation p s)) = pinned s"
  "tracing (snd (locate_allocation p s)) = tracing s"
  "mem (snd (locate_allocation p s)) = mem s"
  "next_allocation_id (snd (locate_allocation p s)) = next_allocation_id s"
  "arena (snd (locate_allocation p s)) = arena s"
  "reclaimed (snd (locate_allocation p s)) = reclaimed s"
  using locate_state [of p s] by auto

lemma containing_Some_iff:
  assumes "bt_ok t"
  shows "containing t p = Some (b, r) \<longleftrightarrow>
    bt_get t b = Some r \<and> b \<le> p \<and> p < b + rec_size r \<and> (\<forall>k. b < k \<longrightarrow> k \<le> p \<longrightarrow> bt_get t k = None)"
proof -
  have "containing t p = Some (b, r) \<longleftrightarrow> bt_floor t p = Some (b, r) \<and> p - b < rec_size r"
    by (auto simp: containing_def split: option.splits if_splits)
  moreover have "(\<forall>k. k \<le> p \<longrightarrow> bt_get t k \<noteq> None \<longrightarrow> k \<le> b) \<longleftrightarrow>
      (\<forall>k. b < k \<longrightarrow> k \<le> p \<longrightarrow> bt_get t k = None)"
    by (meson linorder_not_le)
  moreover have "b \<le> p \<Longrightarrow> p - b < rec_size r \<longleftrightarrow> p < b + rec_size r" by arith
  ultimately show ?thesis
    unfolding bt.floor_eq_Some_iff [OF assms] by blast
qed

end
