(* ===== verification/Mark_Worklist.thy ===== *)
theory Mark_Worklist
  imports Thaw_Prelude
begin

text \<open>
  Reachability and the worklist loops that compute it. A pointer has side-table children, and when
  it lies inside an allocation it also reaches the pointer words of that allocation. The locale
  \<open>marker\<close> is the contract of a marking loop over such a graph: how one iteration treats a
  pointer that was seen before, a new pointer, and a new pointer into an allocation not yet live.
  Any loop with these laws computes exactly the reachable pointers and the allocations holding
  them. Both marking loops of the arena are instances.
\<close>

inductive reach :: "('a \<Rightarrow> 'a set) \<Rightarrow> 'a set \<Rightarrow> 'a \<Rightarrow> bool" for succ :: "'a \<Rightarrow> 'a set" and rts :: "'a set" where
  root: "x \<in> rts \<Longrightarrow> reach succ rts x"
| step: "reach succ rts x \<Longrightarrow> y \<in> succ x \<Longrightarrow> reach succ rts y"

lemma reach_least:
  assumes "reach succ rts x" "rts \<subseteq> X" "\<And>y. y \<in> X \<Longrightarrow> succ y \<subseteq> X"
  shows "x \<in> X"
  using assms(1) by (induction) (use assms(2,3) in blast)+

lemma reach_mono_roots: "reach succ rts x \<Longrightarrow> rts \<subseteq> rts' \<Longrightarrow> reach succ rts' x"
  by (induction rule: reach.induct) (auto intro: reach.intros)

lemma reach_cong:
  assumes "\<And>x. reach succ rts x \<Longrightarrow> succ x = succ' x"
  shows "reach succ rts = reach succ' rts"
proof
  fix x
  have "reach succ rts x \<Longrightarrow> reach succ' rts x"
    by (induction rule: reach.induct) (use assms in \<open>auto intro: reach.intros\<close>)
  moreover have "reach succ' rts x \<Longrightarrow> reach succ rts x"
    by (induction rule: reach.induct) (use assms in \<open>auto intro: reach.intros\<close>)
  ultimately show "reach succ rts x = reach succ' rts x" by blast
qed

subsection \<open>Measures of a worklist\<close>

lemma card_new_less:
  assumes "finite U" "x \<in> U" "x \<notin> V" "U' \<subseteq> U"
  shows "card (U' - insert x V) < card (U - V)"
proof -
  have "U' - insert x V \<subset> U - V" using assms by blast
  then show ?thesis using assms(1) by (simp add: psubset_card_mono)
qed

lemma card_mono_diff: "finite U \<Longrightarrow> U' \<subseteq> U \<Longrightarrow> V \<subseteq> V' \<Longrightarrow> card (U' - V') \<le> card (U - V)"
  by (rule card_mono) auto

subsection \<open>The contract of a marking loop\<close>

locale marker =
  fixes side :: "'a \<Rightarrow> 'a list"
    and start :: "'a \<Rightarrow> 'b option"
    and words :: "'b \<Rightarrow> 'a list"
    and run :: "'a list \<Rightarrow> 'b set \<Rightarrow> 'a set \<Rightarrow> 'b set \<times> 'a set"
  assumes finite_side: "finite (\<Union>p. set (side p))"
    and finite_starts: "finite {b. \<exists>p. start p = Some b}"
    and run_Nil: "run [] live owners = (live, owners)"
    and run_seen: "p \<in> owners \<Longrightarrow> (\<And>b. start p = Some b \<Longrightarrow> b \<in> live) \<Longrightarrow>
          run (p # ps) live owners = run ps live owners"
    and run_pointer: "p \<notin> owners \<Longrightarrow> (\<And>b. start p = Some b \<Longrightarrow> b \<in> live) \<Longrightarrow>
          run (p # ps) live owners = run (push_all (side p) ps) live (insert p owners)"
    and run_alloc: "p \<notin> owners \<Longrightarrow> start p = Some b \<Longrightarrow> b \<notin> live \<Longrightarrow>
          run (p # ps) live owners =
            run (push_all (words b) (push_all (side p) ps)) (insert b live) (insert p owners)"
begin

definition succ :: "'a \<Rightarrow> 'a set" where
  "succ p = set (side p) \<union> (case start p of None \<Rightarrow> {} | Some b \<Rightarrow> set (words b))"

definition universe :: "'a set" where
  "universe = (\<Union>p. set (side p)) \<union> (\<Union>b \<in> {b. \<exists>p. start p = Some b}. set (words b))"

lemma finite_universe: "finite universe"
  unfolding universe_def using finite_side finite_starts by blast

lemma succ_subset_universe: "succ p \<subseteq> universe"
proof -
  have "set (words b) \<subseteq> universe" if "start p = Some b" for b
    using that unfolding universe_def by blast
  then show ?thesis unfolding succ_def by (auto simp: universe_def split: option.split)
qed

text \<open>What holds between two iterations: everything found so far is reachable, and the
  successors of a visited pointer are visited or still on the stack.\<close>

definition mark_inv :: "'a set \<Rightarrow> 'a list \<Rightarrow> 'b set \<Rightarrow> 'a set \<Rightarrow> bool" where
  "mark_inv rts ps live owners \<longleftrightarrow>
     set ps \<union> owners \<subseteq> Collect (reach succ rts) \<and> rts \<subseteq> set ps \<union> owners \<and>
     live = {b. \<exists>p \<in> owners. start p = Some b} \<and>
     (\<forall>p \<in> owners. succ p \<subseteq> set ps \<union> owners)"

lemma mark_inv_init: "mark_inv (set ps) ps {} {}"
  by (auto simp: mark_inv_def intro: reach.root)

lemma mark_inv_visit:
  assumes "mark_inv rts (p # ps) live owners" "set qs \<subseteq> succ p \<union> set ps"
    "succ p \<union> set ps \<subseteq> set qs \<union> insert p owners" "live' = live \<union> {b. start p = Some b}"
  shows "mark_inv rts qs live' (insert p owners)"
proof -
  have r: "reach succ rts p" using assms(1) by (auto simp: mark_inv_def)
  have "set qs \<subseteq> Collect (reach succ rts)"
    using assms(1,2) r by (auto simp: mark_inv_def intro: reach.step)
  moreover have "succ q \<subseteq> set qs \<union> insert p owners" if "q \<in> insert p owners" for q
    using assms(1,3) that unfolding mark_inv_def by fastforce
  moreover have "rts \<subseteq> set qs \<union> insert p owners"
    using assms(1,3) unfolding mark_inv_def by auto
  ultimately show ?thesis using assms(1,4) r unfolding mark_inv_def by auto
qed

text \<open>One iteration on a new pointer keeps the invariant.\<close>

lemma run_visit:
  assumes inv: "mark_inv rts (p # ps) live owners" and new: "p \<notin> owners"
  shows "\<exists>qs live'. run (p # ps) live owners = run qs live' (insert p owners) \<and>
    mark_inv rts qs live' (insert p owners) \<and> set qs \<subseteq> succ p \<union> set ps"
proof (cases "\<exists>b. start p = Some b \<and> b \<notin> live")
  case True
  then obtain b where b: "start p = Some b" "b \<notin> live" by blast
  let ?qs = "push_all (words b) (push_all (side p) ps)"
  have qs: "set ?qs = succ p \<union> set ps" using b by (auto simp: succ_def)
  have "mark_inv rts ?qs (insert b live) (insert p owners)"
    by (rule mark_inv_visit [OF inv]) (use qs b in auto)
  then show ?thesis using run_alloc [OF new b] qs by blast
next
  case False
  let ?qs = "push_all (side p) ps"
  have "set (words b) \<subseteq> set ps \<union> insert p owners" if sb: "start p = Some b" for b
  proof -
    have "b \<in> live" using False sb by blast
    then obtain q where "q \<in> owners" "start q = Some b" using inv by (auto simp: mark_inv_def)
    moreover have "set (words b) \<subseteq> succ q" using calculation by (simp add: succ_def)
    ultimately show ?thesis using inv unfolding mark_inv_def by force
  qed
  then have "succ p \<union> set ps \<subseteq> set ?qs \<union> insert p owners"
    by (auto simp: succ_def split: option.splits)
  moreover have "set ?qs \<subseteq> succ p \<union> set ps" by (auto simp: succ_def)
  moreover have "live = live \<union> {b. start p = Some b}" using False by auto
  ultimately have "mark_inv rts ?qs live (insert p owners)" by (intro mark_inv_visit [OF inv])
  moreover have "run (p # ps) live owners = run ?qs live (insert p owners)"
    using False by (intro run_pointer [OF new]) blast
  ultimately show ?thesis using \<open>set ?qs \<subseteq> succ p \<union> set ps\<close> by blast
qed

lemma run_correct:
  assumes "mark_inv rts ps live owners"
  shows "run ps live owners =
    ({b. \<exists>p. reach succ rts p \<and> start p = Some b}, Collect (reach succ rts))"
  using assms
proof (induction "(card ((set ps \<union> universe) - owners), length ps)" arbitrary: ps live owners
    rule: wf_induct_rule [OF wf_lex_prod [OF wf_less_than wf_less_than]])
  case 1
  note IH = "1.hyps"
  note inv = "1.prems"
  show ?case
  proof (cases ps)
    case Nil
    have "owners = Collect (reach succ rts)"
      using inv Nil reach_least [of succ rts _ owners] unfolding mark_inv_def by fastforce
    then show ?thesis using inv Nil by (auto simp: mark_inv_def run_Nil)
  next
    case (Cons p rest)
    have fin: "finite (set ps \<union> universe)" by (simp add: finite_universe)
    show ?thesis
    proof (cases "p \<in> owners")
      case True
      have inv': "mark_inv rts rest live owners" using inv Cons True by (auto simp: mark_inv_def)
      have "card ((set rest \<union> universe) - owners) \<le> card ((set ps \<union> universe) - owners)"
        using Cons by (intro card_mono_diff [OF fin]) auto
      moreover have "run ps live owners = run rest live owners"
        unfolding Cons using inv Cons True by (intro run_seen) (auto simp: mark_inv_def)
      ultimately show ?thesis using Cons IH [OF _ inv'] by (simp add: le_eq_less_or_eq)
    next
      case False
      obtain qs live' where qs: "run ps live owners = run qs live' (insert p owners)"
          "mark_inv rts qs live' (insert p owners)" "set qs \<subseteq> succ p \<union> set rest"
        using run_visit [OF inv [unfolded Cons] False] Cons by auto
      have "card ((set qs \<union> universe) - insert p owners) < card ((set ps \<union> universe) - owners)"
        using qs(3) Cons False succ_subset_universe [of p] by (intro card_new_less [OF fin]) auto
      then show ?thesis using IH [OF _ qs(2)] qs(1) by auto
    qed
  qed
qed

lemma run_reach:
  "run ps {} {} = ({b. \<exists>p. reach succ (set ps) p \<and> start p = Some b}, Collect (reach succ (set ps)))"
  by (rule run_correct [OF mark_inv_init])

end

end
