(* ===== verification/Arena_Mark.thy ===== *)
theory Arena_Mark
  imports Arena_Lookup Mark_Worklist
begin

text \<open>
  The two marking loops of the arena. \<open>snapshot_native_graph\<close> copies the tracing metadata and
  \<open>mark_native_graph\<close> marks the copy; \<open>reset_mark\<close> is the loop inside \<open>thaw_arena_reset\<close>, which
  marks the live tables in place and consults the fresh allocations without settling them. Both
  are instances of \<open>marker\<close>, so both compute reachability, and on a well-formed state they mark
  the same allocations.
\<close>

subsection \<open>Pointer words\<close>

text \<open>\<open>(0..size.saturating_sub(7)).step_by(8)\<close>\<close>

definition word_offsets :: "usize \<Rightarrow> usize list" where
  "word_offsets sz = map (\<lambda>k. 8 * k) [0..<(sz - 7 + 7) div 8]"

definition pointer_words :: "memory \<Rightarrow> usize \<Rightarrow> usize \<Rightarrow> usize list" where
  "pointer_words m base sz = map (\<lambda>offset. read_usize m (base + offset)) (word_offsets sz)"

lemma word_offsets_bound: "off \<in> set (word_offsets sz) \<longleftrightarrow> 8 dvd off \<and> off + 8 \<le> sz"
proof -
  have "k < (sz - 7 + 7) div 8 \<longleftrightarrow> 8 * k + 8 \<le> sz" for k
  proof (cases "7 \<le> sz")
    case True
    then show ?thesis
      by (simp add: less_eq_div_iff_mult_less_eq Suc_le_eq [symmetric] mult.commute add.commute)
  qed simp
  then have "off \<in> set (word_offsets sz) \<longleftrightarrow> (\<exists>k. off = 8 * k \<and> 8 * k + 8 \<le> sz)"
    unfolding word_offsets_def set_map set_upt image_iff Bex_def atLeastLessThan_iff by blast
  then show ?thesis by (metis dvdE dvd_triv_left)
qed

subsection \<open>The snapshot\<close>

fun copy_allocations ::
    "memory \<Rightarrow> (usize, alloc_record) btree \<Rightarrow> (usize, allocation_snapshot) btree \<Rightarrow>
     snapshot_error + (usize, allocation_snapshot) btree" where
  "copy_allocations m [] copied = Inr copied"
| "copy_allocations m ((base, r) # rest) copied =
     (if rec_serial r = 0 then Inl IdentityUnavailable
      else copy_allocations m rest (bt_insert base
             \<lparr>snap_id = \<lparr>id_base = base, id_serial = rec_serial r\<rparr>, snap_size = rec_size r,
              snap_generation = rec_generation r,
              snap_pointer_words = pointer_words m base (rec_size r)\<rparr> copied))"

definition edge_is_current :: "(usize, allocation_snapshot) btree \<Rightarrow> allocation_id \<Rightarrow> bool" where
  "edge_is_current allocs identity =
     (case bt_get allocs (id_base identity) of None \<Rightarrow> False | Some a \<Rightarrow> snap_id a = identity)"

fun merge_edges ::
    "(usize, allocation_snapshot) btree \<Rightarrow> ((allocation_id \<times> usize) \<times> usize list) list \<Rightarrow>
     (usize, usize list) btree \<Rightarrow> (usize, usize list) btree" where
  "merge_edges allocs [] refs = refs"
| "merge_edges allocs (((identity, owner), children) # edges) refs =
     merge_edges allocs edges
       (if edge_is_current allocs identity
        then bt_insert owner (or_default (bt_get refs owner) @ children) refs
        else refs)"

definition snapshot_native_graph ::
    "'b thread_state \<Rightarrow> (snapshot_error + native_graph_snapshot) \<times> 'b thread_state" where
  "snapshot_native_graph s =
     (let s1 = s\<lparr>allocations := flush_pending (length (retained s)) (pending_allocations s) (allocations s),
                 pending_allocations := []\<rparr>
      in (case copy_allocations (mem s1) (allocations s1) [] of
            Inl e \<Rightarrow> (Inl e, s1)
          | Inr allocs \<Rightarrow>
              (case graph_epoch s1 of
                 None \<Rightarrow> (Inl IdentityUnavailable, s1)
               | Some epoch \<Rightarrow>
                   (Inr \<lparr>ng_epoch = epoch, ng_allocations = allocs,
                         ng_references = merge_edges allocs (allocation_references s1) (references s1),
                         ng_root_values = map (read_usize (mem s1)) (roots s1),
                         ng_root_slots = roots s1,
                         ng_pinned_counts = pinned s1\<rparr>, s1))))"

subsection \<open>Marking a snapshot\<close>

definition snap_children :: "native_graph_snapshot \<Rightarrow> usize \<Rightarrow> usize list" where
  "snap_children sn p = or_default (bt_get (ng_references sn) p)"

definition snap_universe :: "native_graph_snapshot \<Rightarrow> usize set" where
  "snap_universe sn = (\<Union>e \<in> set (ng_references sn). set (snd e))
     \<union> (\<Union>e \<in> set (ng_allocations sn). set (snap_pointer_words (snd e)))"

lemma finite_snap_universe [simp]: "finite (snap_universe sn)"
  by (auto simp: snap_universe_def)

lemma bt_floor_in_set: "bt_floor m p = Some e \<Longrightarrow> e \<in> set m"
  by (induction m p rule: bt_floor.induct) (auto split: if_splits option.splits)

lemma snap_children_universe: "set (snap_children sn p) \<subseteq> snap_universe sn"
  unfolding snap_children_def snap_universe_def bt_get_def by (intro le_supI1 set_or_default_map_of)

lemma snap_words_universe:
  "bt_floor (ng_allocations sn) p = Some (b, a) \<Longrightarrow> set (snap_pointer_words a) \<subseteq> snap_universe sn"
  using bt_floor_in_set by (fastforce simp: snap_universe_def)

function mark_loop :: "native_graph_snapshot \<Rightarrow> usize list \<Rightarrow> native_mark \<Rightarrow> native_mark" where
  "mark_loop sn [] mark = mark"
| "mark_loop sn (pointer # pending) mark =
     (if pointer \<in> owner_nodes mark then mark_loop sn pending mark
      else
        (let mark1 = mark\<lparr>owner_nodes := insert pointer (owner_nodes mark)\<rparr>;
             pending1 = push_all (snap_children sn pointer) pending
         in (case bt_floor (ng_allocations sn) pointer of
               None \<Rightarrow> mark_loop sn pending1 mark1
             | Some (base, a) \<Rightarrow>
                 if snap_size a \<le> pointer - base \<or> base \<in> allocation_starts mark1
                 then mark_loop sn pending1 mark1
                 else mark_loop sn (push_all (snap_pointer_words a) pending1)
                        (mark1\<lparr>allocation_starts := insert base (allocation_starts mark1),
                               retained_generations :=
                                 insert (snap_generation a) (retained_generations mark1)\<rparr>))))"
  by pat_completeness auto
termination
proof (relation "inv_image (less_than <*lex*> less_than)
    (\<lambda>(sn, ps, mark). (card ((set ps \<union> snap_universe sn) - owner_nodes mark), length ps))", goal_cases)
  case 1
  then show ?case by auto
next
  case (2 sn p ps mark)
  have "card ((set ps \<union> snap_universe sn) - owner_nodes mark)
      \<le> card ((set (p # ps) \<union> snap_universe sn) - owner_nodes mark)"
    by (rule card_mono_diff) auto
  then show ?case by (auto simp: le_eq_less_or_eq)
next
  case (3 sn p ps mark)
  have "card ((set (push_all (snap_children sn p) ps) \<union> snap_universe sn) - insert p (owner_nodes mark))
      < card ((set (p # ps) \<union> snap_universe sn) - owner_nodes mark)"
    using 3 snap_children_universe [of sn p] by (intro card_new_less) auto
  then show ?case using 3 by simp
next
  case (4 sn p ps mark)
  have "card ((set (push_all (snap_children sn p) ps) \<union> snap_universe sn) - insert p (owner_nodes mark))
      < card ((set (p # ps) \<union> snap_universe sn) - owner_nodes mark)"
    using 4 snap_children_universe [of sn p] by (intro card_new_less) auto
  then show ?case using 4 by simp
next
  case (5 sn p ps mark mark1 pending1 e b a)
  have "set (push_all (snap_pointer_words a) (push_all (snap_children sn p) ps)) \<union> snap_universe sn
      \<subseteq> set (p # ps) \<union> snap_universe sn"
    using 5 snap_children_universe [of sn p] snap_words_universe [of sn p b a] by auto
  then have "card ((set (push_all (snap_pointer_words a) (push_all (snap_children sn p) ps))
          \<union> snap_universe sn) - insert p (owner_nodes mark))
      < card ((set (p # ps) \<union> snap_universe sn) - owner_nodes mark)"
    using 5 by (intro card_new_less) auto
  then show ?case using 5 by simp
qed

definition mark_native_graph :: "native_graph_snapshot \<Rightarrow> usize list \<Rightarrow> native_mark" where
  "mark_native_graph sn rts =
     mark_loop sn (rev (ng_root_values sn @ ng_root_slots sn @ map fst (ng_pinned_counts sn) @ rts))
       \<lparr>allocation_starts = {}, owner_nodes = {}, retained_generations = {}\<rparr>"

subsection \<open>Marking the live tables\<close>

text \<open>What the reset loop reads: the tables, the sorted fresh records, the memory.\<close>

record mark_env =
  me_table :: "(usize, alloc_record) btree"
  me_fresh :: "pending_allocation list"
  me_generation :: usize
  me_references :: "(usize, usize list) btree"
  me_edges :: "((allocation_id \<times> usize) \<times> usize list) list"
  me_mem :: memory

definition env_nearest :: "mark_env \<Rightarrow> usize \<Rightarrow> (usize \<times> alloc_record) option" where
  "env_nearest env = nearest_allocation (me_table env) (me_fresh env) (me_generation env)"

text \<open>The children pushed when a pointer becomes an owner: its side references, then the edges of
  the allocation incarnation it lies in.\<close>

definition env_children :: "mark_env \<Rightarrow> usize \<Rightarrow> usize list" where
  "env_children env pointer =
     or_default (bt_get (me_references env) pointer) @
     (case env_nearest env pointer of
        None \<Rightarrow> []
      | Some (base, r) \<Rightarrow>
          if pointer - base < rec_size r \<and> rec_serial r \<noteq> 0
          then or_default (hm_get (me_edges env) (\<lparr>id_base = base, id_serial = rec_serial r\<rparr>, pointer))
          else [])"

definition env_records :: "mark_env \<Rightarrow> (usize \<times> alloc_record) set" where
  "env_records env = set (me_table env)
     \<union> (\<lambda>r. (pa_base r, into_record r (me_generation env))) ` set (me_fresh env)"

definition env_universe :: "mark_env \<Rightarrow> usize set" where
  "env_universe env = (\<Union>e \<in> set (me_references env). set (snd e))
     \<union> (\<Union>e \<in> set (me_edges env). set (snd e))
     \<union> (\<Union>e \<in> env_records env. set (pointer_words (me_mem env) (fst e) (rec_size (snd e))))"

lemma finite_env_records [simp]: "finite (env_records env)"
  by (simp add: env_records_def)

lemma finite_env_universe [simp]: "finite (env_universe env)"
  unfolding env_universe_def using finite_env_records [of env] by auto

lemma env_nearest_in_records: "env_nearest env p = Some e \<Longrightarrow> e \<in> env_records env"
proof -
  let ?i = "partition_point (\<lambda>r. pa_base r \<le> p) (me_fresh env)"
  have "me_fresh env ! (?i - 1) \<in> set (me_fresh env)" if "1 \<le> ?i"
    using that partition_point_le [of "\<lambda>r. pa_base r \<le> p" "me_fresh env"] by (intro nth_mem) linarith
  moreover assume "env_nearest env p = Some e"
  ultimately show ?thesis
    by (auto simp: env_nearest_def nearest_allocation_def choose_nearest_def env_records_def
        checked_sub_def split: option.splits if_splits dest: bt_floor_in_set)
qed

lemma env_children_universe: "set (env_children env p) \<subseteq> env_universe env"
proof -
  have "set (or_default (hm_get (me_edges env) k)) \<subseteq> env_universe env" for k
    unfolding env_universe_def hm_get_def by (intro le_supI1 le_supI2 set_or_default_map_of)
  moreover have "set (or_default (bt_get (me_references env) p)) \<subseteq> env_universe env"
    unfolding env_universe_def bt_get_def by (intro le_supI1 set_or_default_map_of)
  ultimately show ?thesis by (fastforce simp: env_children_def split: option.splits if_splits)
qed

lemma env_words_universe:
  assumes "env_nearest env p = Some (b, r)"
  shows "set (pointer_words (me_mem env) b (rec_size r)) \<subseteq> env_universe env"
proof -
  have "(b, r) \<in> env_records env" by (rule env_nearest_in_records [OF assms])
  then show ?thesis unfolding env_universe_def by fastforce
qed

function reset_mark :: "mark_env \<Rightarrow> usize list \<Rightarrow> usize set \<Rightarrow> usize set \<Rightarrow> usize set \<times> usize set" where
  "reset_mark env [] live owners = (live, owners)"
| "reset_mark env (pointer # pending) live owners =
     (let pending1 = (if pointer \<in> owners then pending else push_all (env_children env pointer) pending);
          owners1 = insert pointer owners
      in (case env_nearest env pointer of
            None \<Rightarrow> reset_mark env pending1 live owners1
          | Some (start, r) \<Rightarrow>
              if rec_size r \<le> pointer - start \<or> start \<in> live
              then reset_mark env pending1 live owners1
              else reset_mark env (push_all (pointer_words (me_mem env) start (rec_size r)) pending1)
                     (insert start live) owners1))"
  by pat_completeness auto

lemma reset_mark_owner_step:
  assumes "set qs \<subseteq> set (p # ps) \<union> env_universe env" "p \<in> owners \<Longrightarrow> length qs < length (p # ps)"
  shows "((card ((set qs \<union> env_universe env) - insert p owners) + k, length qs),
          (card ((set (p # ps) \<union> env_universe env) - owners) + k, length (p # ps)))
    \<in> less_than <*lex*> less_than"
proof (cases "p \<in> owners")
  case True
  have "card ((set qs \<union> env_universe env) - insert p owners)
      \<le> card ((set (p # ps) \<union> env_universe env) - owners)"
    using assms(1) by (intro card_mono_diff) auto
  then show ?thesis using True assms(2) by (auto simp: le_eq_less_or_eq)
next
  case False
  have "card ((set qs \<union> env_universe env) - insert p owners)
      < card ((set (p # ps) \<union> env_universe env) - owners)"
    using assms(1) False by (intro card_new_less) auto
  then show ?thesis by auto
qed

lemma reset_mark_live_step:
  assumes "set qs \<subseteq> set (p # ps) \<union> env_universe env" "env_nearest env p = Some (b, r)" "b \<notin> live"
  shows "card ((set qs \<union> env_universe env) - insert p owners) + card (fst ` env_records env - insert b live)
    < card ((set (p # ps) \<union> env_universe env) - owners) + card (fst ` env_records env - live)"
proof -
  have "b \<in> fst ` env_records env" using env_nearest_in_records [OF assms(2)] by force
  then have "card (fst ` env_records env - insert b live) < card (fst ` env_records env - live)"
    using assms(3) by (intro card_new_less) auto
  moreover have "card ((set qs \<union> env_universe env) - insert p owners)
      \<le> card ((set (p # ps) \<union> env_universe env) - owners)"
    using assms(1) by (intro card_mono_diff) auto
  ultimately show ?thesis by linarith
qed

termination reset_mark
proof (relation "inv_image (less_than <*lex*> less_than)
    (\<lambda>(env, ps, live, owners).
      (card ((set ps \<union> env_universe env) - owners) + card (fst ` env_records env - live), length ps))",
    goal_cases)
  case 1
  then show ?case by auto
next
  case (2 env p ps live owners)
  then show ?case
    using env_children_universe [of env p]
    by (simp only: in_inv_image prod.case, intro reset_mark_owner_step) auto
next
  case (3 env p ps live owners)
  then show ?case
    using env_children_universe [of env p]
    by (simp only: in_inv_image prod.case, intro reset_mark_owner_step) auto
next
  case (4 env p ps live owners pending1 owners1 e start r)
  have "set (push_all (pointer_words (me_mem env) start (rec_size r)) pending1)
      \<subseteq> set (p # ps) \<union> env_universe env"
    using 4 env_children_universe [of env p] env_words_universe [of env p start r] by auto
  from reset_mark_live_step [OF this, of start r live owners] 4 show ?case by auto
qed

subsection \<open>Both loops are instances of the marking contract\<close>

text \<open>The contract speaks of well-formed tables; a malformed one is replaced by the empty table,
  so that the interpretations hold without a side condition.\<close>

definition wf_snapshot :: "native_graph_snapshot \<Rightarrow> native_graph_snapshot" where
  "wf_snapshot sn = (if bt_ok (ng_allocations sn) then sn else sn\<lparr>ng_allocations := []\<rparr>)"

definition snap_start :: "native_graph_snapshot \<Rightarrow> usize \<Rightarrow> usize option" where
  "snap_start sn p =
     (case bt_floor (ng_allocations sn) p of
        None \<Rightarrow> None | Some (b, a) \<Rightarrow> if snap_size a \<le> p - b then None else Some b)"

definition snap_words :: "native_graph_snapshot \<Rightarrow> usize \<Rightarrow> usize list" where
  "snap_words sn b =
     (case bt_get (ng_allocations sn) b of None \<Rightarrow> [] | Some a \<Rightarrow> snap_pointer_words a)"

definition snap_run ::
    "native_graph_snapshot \<Rightarrow> usize list \<Rightarrow> usize set \<Rightarrow> usize set \<Rightarrow> usize set \<times> usize set" where
  "snap_run sn ps live owners =
     (let m = mark_loop sn ps \<lparr>allocation_starts = live, owner_nodes = owners, retained_generations = {}\<rparr>
      in (allocation_starts m, owner_nodes m))"

definition wf_env :: "mark_env \<Rightarrow> mark_env" where
  "wf_env env = (if bt_ok (me_table env) \<and> sorted (map pa_base (me_fresh env)) then env
                 else env\<lparr>me_table := [], me_fresh := []\<rparr>)"

definition env_table :: "mark_env \<Rightarrow> (usize, alloc_record) btree" where
  "env_table env = flush_pending (me_generation env) (me_fresh env) (me_table env)"

definition env_start :: "mark_env \<Rightarrow> usize \<Rightarrow> usize option" where
  "env_start env p =
     (case env_nearest env p of
        None \<Rightarrow> None | Some (b, r) \<Rightarrow> if rec_size r \<le> p - b then None else Some b)"

definition env_words :: "mark_env \<Rightarrow> usize \<Rightarrow> usize list" where
  "env_words env b =
     (case bt_get (env_table env) b of
        None \<Rightarrow> [] | Some r \<Rightarrow> pointer_words (me_mem env) b (rec_size r))"

lemma wf_snapshot_ok [simp]: "bt_ok (ng_allocations (wf_snapshot sn))"
  by (simp add: wf_snapshot_def)

lemma wf_env_ok [simp]: "bt_ok (me_table (wf_env env))" "sorted (map pa_base (me_fresh (wf_env env)))"
  by (auto simp: wf_env_def)

lemma mark_loop_cong:
  "allocation_starts m = allocation_starts m' \<Longrightarrow> owner_nodes m = owner_nodes m' \<Longrightarrow>
   allocation_starts (mark_loop sn ps m) = allocation_starts (mark_loop sn ps m') \<and>
   owner_nodes (mark_loop sn ps m) = owner_nodes (mark_loop sn ps m')"
proof (induction sn ps m arbitrary: m' rule: mark_loop.induct)
  case (2 sn p ps mark)
  let ?m = "m'\<lparr>owner_nodes := insert p (owner_nodes m')\<rparr>"
  show ?case
  proof (cases "p \<in> owner_nodes mark")
    case True
    then show ?thesis using "2.IH"(1) [OF True "2.prems"] "2.prems" by simp
  next
    case new: False
    show ?thesis
    proof (cases "bt_floor (ng_allocations sn) p")
      case None
      then show ?thesis
        using "2.IH"(2) [OF new refl refl None, of ?m] "2.prems" new by (simp add: Let_def)
    next
      case (Some e)
      obtain b a where e: "e = (b, a)" by (cases e)
      show ?thesis
      proof (cases "snap_size a \<le> p - b \<or> b \<in> allocation_starts mark")
        case True
        then show ?thesis
          using "2.IH"(3) [OF new refl refl Some e [symmetric], of ?m] "2.prems" new Some e by (simp add: Let_def)
      next
        case False
        then show ?thesis
          using "2.IH"(4) [OF new refl refl Some e [symmetric], of "?m\<lparr>allocation_starts := insert b (allocation_starts m'),
              retained_generations := insert (snap_generation a) (retained_generations m')\<rparr>"]
            "2.prems" new Some e by (simp add: Let_def)
      qed
    qed
  qed
qed simp

lemma snap_run_mark:
  "snap_run sn ps (allocation_starts m) (owner_nodes m) =
     (allocation_starts (mark_loop sn ps m), owner_nodes (mark_loop sn ps m))"
  unfolding snap_run_def Let_def
  using mark_loop_cong [of m "\<lparr>allocation_starts = allocation_starts m, owner_nodes = owner_nodes m,
      retained_generations = {}\<rparr>" sn ps] by simp

interpretation sm: marker "snap_children (wf_snapshot sn)" "snap_start (wf_snapshot sn)"
    "snap_words (wf_snapshot sn)" "snap_run (wf_snapshot sn)"
  for sn :: native_graph_snapshot
proof (unfold_locales, goal_cases)
  case 1
  have "(\<Union>p. set (snap_children (wf_snapshot sn) p)) \<subseteq> snap_universe (wf_snapshot sn)"
    using snap_children_universe by blast
  then show ?case by (rule finite_subset) simp
next
  case 2
  have "{b. \<exists>p. snap_start (wf_snapshot sn) p = Some b} \<subseteq> fst ` set (ng_allocations (wf_snapshot sn))"
    by (force simp: snap_start_def split: option.splits if_splits dest: bt_floor_in_set)
  then show ?case by (rule finite_subset) simp
next
  case (3 live owners)
  show ?case by (simp add: snap_run_def)
next
  case (4 p owners live ps)
  then show ?case by (simp add: snap_run_def)
next
  case (5 p owners live ps)
  let ?m = "\<lparr>allocation_starts = live, owner_nodes = insert p owners, retained_generations = {}\<rparr>"
  show ?case
    using 5 snap_run_mark [of "wf_snapshot sn" _ ?m]
    by (auto simp: snap_run_def snap_start_def Let_def split: option.splits if_splits)
next
  case (6 p owners b live ps)
  obtain a where a: "bt_floor (ng_allocations (wf_snapshot sn)) p = Some (b, a)" "\<not> snap_size a \<le> p - b"
    using 6(2) by (auto simp: snap_start_def split: option.splits if_splits)
  then have "snap_words (wf_snapshot sn) b = snap_pointer_words a"
    using bt_floor_sound [OF wf_snapshot_ok a(1)] by (simp add: snap_words_def)
  then show ?case
    using 6 a snap_run_mark [of "wf_snapshot sn" _ "\<lparr>allocation_starts = insert b live,
        owner_nodes = insert p owners, retained_generations = {snap_generation a}\<rparr>"]
    by (simp add: snap_run_def Let_def)
qed

lemma env_nearest_floor: "env_nearest (wf_env env) p = bt_floor (env_table (wf_env env)) p"
  unfolding env_nearest_def env_table_def by (rule nearest_floor) simp_all

interpretation em: marker "env_children (wf_env env)" "env_start (wf_env env)"
    "env_words (wf_env env)" "reset_mark (wf_env env)"
  for env :: mark_env
proof (unfold_locales, goal_cases)
  case 1
  have "(\<Union>p. set (env_children (wf_env env) p)) \<subseteq> env_universe (wf_env env)"
    using env_children_universe by blast
  then show ?case by (rule finite_subset) simp
next
  case 2
  have "{b. \<exists>p. env_start (wf_env env) p = Some b} \<subseteq> fst ` env_records (wf_env env)"
    by (force simp: env_start_def split: option.splits if_splits dest: env_nearest_in_records)
  then show ?case by (rule finite_subset) simp
next
  case (4 p owners live ps)
  then show ?case
    by (cases "env_nearest (wf_env env) p") (auto simp: env_start_def insert_absorb split: if_splits)
next
  case (5 p owners live ps)
  then show ?case
    by (cases "env_nearest (wf_env env) p") (auto simp: env_start_def Let_def split: if_splits)
next
  case (6 p owners b live ps)
  obtain r where r: "env_nearest (wf_env env) p = Some (b, r)" "\<not> rec_size r \<le> p - b"
    using 6(2) by (auto simp: env_start_def split: option.splits if_splits)
  then have "env_words (wf_env env) b = pointer_words (me_mem (wf_env env)) b (rec_size r)"
    using bt_floor_sound [of "env_table (wf_env env)" p b r] env_nearest_floor [of env p]
    by (simp add: env_words_def env_table_def)
  then show ?case using 6 r by simp
qed simp

end
