(* ===== verification/Arena_Reset.thy ===== *)
theory Arena_Reset
  imports Arena_Mark
begin

text \<open>
  \<open>thaw_arena_reset\<close>: mark from the roots, prune the side tables, split the records into
  survivors and reclaimed ranges, retain the bump generations that hold a survivor and renumber
  them. The indexing \<open>mapping[&record.generation]\<close> panics on a missing key, so the traced part
  returns an option whose \<open>None\<close> is that panic.
\<close>

subsection \<open>Hooks\<close>

definition run_hook ::
    "(nat \<Rightarrow> bool \<Rightarrow> 'b thread_state \<Rightarrow> 'b thread_state) \<Rightarrow> bool \<Rightarrow> hook \<Rightarrow> 'b thread_state \<Rightarrow> 'b thread_state" where
  "run_hook H t h s =
     (case h of ClearNativeErrorAliases \<Rightarrow> s\<lparr>native_error_aliases := []\<rparr> | ForeignHook n \<Rightarrow> H n t s)"

definition run_reset_hooks ::
    "(nat \<Rightarrow> bool \<Rightarrow> 'b thread_state \<Rightarrow> 'b thread_state) \<Rightarrow> bool \<Rightarrow> 'b thread_state \<Rightarrow> 'b thread_state" where
  "run_reset_hooks H t s = fold (run_hook H t) (reset_hooks s) s"

definition run_metadata_reset_hooks ::
    "(nat \<Rightarrow> bool \<Rightarrow> 'b thread_state \<Rightarrow> 'b thread_state) \<Rightarrow> bool \<Rightarrow> 'b thread_state \<Rightarrow> 'b thread_state" where
  "run_metadata_reset_hooks H t s = fold (run_hook H t) (metadata_reset_hooks s) s"

text \<open>\<open>strings::reset_lengths\<close>: literal lengths stay, the others while their string survives.\<close>

definition reset_lengths :: "bool \<Rightarrow> 'b thread_state \<Rightarrow> 'b thread_state" where
  "reset_lengths t s =
     s\<lparr>lengths := hm_retain (\<lambda>pointer (_, literal). literal \<or> (t \<and> \<not> was_reclaimed s pointer)) (lengths s)\<rparr>"

subsection \<open>Sweeping\<close>

definition classify ::
    "usize set \<Rightarrow> usize \<times> alloc_record \<Rightarrow> (usize \<times> alloc_record) list \<times> (usize \<times> usize) list \<Rightarrow>
     (usize \<times> alloc_record) list \<times> (usize \<times> usize) list" where
  "classify live e acc =
     (if fst e \<in> live then (e # fst acc, snd acc)
      else (fst acc, (fst e, fst e + rec_size (snd e)) # snd acc))"

text \<open>The merge of the table with the fresh records: a fresh record replaces the table record with
  its base; every record taken is a survivor or a reclaimed range.\<close>

fun sweep ::
    "usize set \<Rightarrow> (usize \<times> alloc_record) list \<Rightarrow> (usize \<times> alloc_record) list \<Rightarrow>
     (usize \<times> alloc_record) list \<times> (usize \<times> usize) list" where
  "sweep live [] [] = ([], [])"
| "sweep live (old # table) [] = classify live old (sweep live table [])"
| "sweep live [] (new # fresh) = classify live new (sweep live [] fresh)"
| "sweep live (old # table) (new # fresh) =
     (if fst old = fst new then sweep live table (new # fresh)
      else if fst old < fst new then classify live old (sweep live table (new # fresh))
      else classify live new (sweep live (old # table) fresh))"

text \<open>\<open>Vec::retain\<close> on the generations, recording where each kept one moves.\<close>

fun retain_indexed :: "usize set \<Rightarrow> nat \<Rightarrow> nat \<Rightarrow> 'b list \<Rightarrow> 'b list \<times> (nat, nat) btree" where
  "retain_indexed generations old_index index [] = ([], [])"
| "retain_indexed generations old_index index (x # xs) =
     (if old_index \<in> generations
      then (let (kept, mapping) = retain_indexed generations (old_index + 1) (index + 1) xs
            in (x # kept, (old_index, index) # mapping))
      else retain_indexed generations (old_index + 1) index xs)"

fun remap_generations ::
    "(nat, nat) btree \<Rightarrow> (usize \<times> alloc_record) list \<Rightarrow> (usize \<times> alloc_record) list option" where
  "remap_generations mapping [] = Some []"
| "remap_generations mapping ((base, r) # rest) =
     (case bt_get mapping (rec_generation r) of
        None \<Rightarrow> None
      | Some g \<Rightarrow> map_option (\<lambda>t. (base, r\<lparr>rec_generation := g\<rparr>) # t) (remap_generations mapping rest))"

subsection \<open>The reset\<close>

definition reset_env :: "'b thread_state \<Rightarrow> mark_env" where
  "reset_env s = \<lparr>me_table = allocations s, me_fresh = sort_fresh (pending_allocations s),
     me_generation = length (retained s), me_references = references s,
     me_edges = allocation_references s, me_mem = mem s\<rparr>"

definition reset_stack :: "'b thread_state \<Rightarrow> usize list" where
  "reset_stack s = rev (map (read_usize (mem s)) (roots s) @ roots s @ map fst (pinned s))"

definition edge_survives :: "mark_env \<Rightarrow> usize set \<Rightarrow> allocation_id \<times> usize \<Rightarrow> bool" where
  "edge_survives env live k =
     (case k of (identity, owner) \<Rightarrow>
        id_base identity \<in> live \<and>
        (case env_nearest env (id_base identity) of
           None \<Rightarrow> False
         | Some (base, r) \<Rightarrow>
             base = id_base identity \<and> rec_serial r = id_serial identity \<and>
             id_base identity \<le> owner \<and> owner - id_base identity < rec_size r))"

definition live_generations :: "mark_env \<Rightarrow> usize set \<Rightarrow> usize set" where
  "live_generations env live =
     Option.these ((\<lambda>start. map_option (\<lambda>e. rec_generation (snd e)) (env_nearest env start)) ` live)"

definition reset_traced :: "'b bump_ops \<Rightarrow> 'b thread_state \<Rightarrow> 'b thread_state option" where
  "reset_traced B s =
     (let env = reset_env s;
          (live, owners) = reset_mark env (reset_stack s) {} {};
          generations = live_generations env live;
          (survivors, ranges) = sweep live (me_table env)
             (map (\<lambda>r. (pa_base r, into_record r (me_generation env))) (me_fresh env));
          (generation_list, current) =
             (if length (retained s) \<in> generations then (retained s @ [arena s], bump_new B)
              else (retained s, bump_reset B (arena s)));
          (kept, mapping) = retain_indexed generations 0 0 generation_list
      in map_option (\<lambda>table.
           s\<lparr>arena := current, retained := kept, allocations := table, pending_allocations := [],
             reclaimed := ranges,
             references := bt_retain (\<lambda>owner _. owner \<in> live \<or> owner \<in> owners) (references s),
             allocation_references := hm_retain (\<lambda>k _. edge_survives env live k) (allocation_references s)\<rparr>)
           (remap_generations mapping survivors))"

definition thaw_arena_reset ::
    "'b bump_ops \<Rightarrow> (nat \<Rightarrow> bool \<Rightarrow> 'b thread_state \<Rightarrow> 'b thread_state) \<Rightarrow> 'b thread_state \<Rightarrow> 'b thread_state option" where
  "thaw_arena_reset B H s =
     (case reset_guard_acquire s of
        None \<Rightarrow> Some s
      | Some s0 \<Rightarrow>
          (let s1 = s0\<lparr>bytes_since_reset := 0, capacities := []\<rparr> in
           if \<not> tracing s1 then
             (let s2 = reset_lengths False s1;
                  s3 = s2\<lparr>arena := bump_reset B (arena s2), allocation_references := []\<rparr>
              in Some (reset_guard_drop (run_reset_hooks H False (run_metadata_reset_hooks H False s3))))
           else map_option (\<lambda>s2.
               reset_guard_drop (run_reset_hooks H True (run_metadata_reset_hooks H True (reset_lengths True s2))))
             (reset_traced B s1)))"

definition thaw_arena_reset_if_grown ::
    "'b bump_ops \<Rightarrow> (nat \<Rightarrow> bool \<Rightarrow> 'b thread_state \<Rightarrow> 'b thread_state) \<Rightarrow> 'b thread_state \<Rightarrow> 'b thread_state option" where
  "thaw_arena_reset_if_grown B H s =
     (if \<not> tracing s \<or> bytes_since_reset s < next_auto_reset s then Some s
      else map_option (\<lambda>s1.
             (let surviving = sum_list (map (\<lambda>(_, r). rec_size r) (allocations s1))
              in s1\<lparr>next_auto_reset := max AUTO_RESET_FLOOR (saturating_mul surviving 2)\<rparr>))
           (thaw_arena_reset B H s))"

subsection \<open>What the sweep computes\<close>

fun merge_records :: "(usize \<times> alloc_record) list \<Rightarrow> (usize \<times> alloc_record) list \<Rightarrow> (usize \<times> alloc_record) list" where
  "merge_records [] fresh = fresh"
| "merge_records table [] = table"
| "merge_records (old # table) (new # fresh) =
     (if fst old = fst new then merge_records table (new # fresh)
      else if fst old < fst new then old # merge_records table (new # fresh)
      else new # merge_records (old # table) fresh)"

lemma merge_records_Nil2 [simp]: "merge_records t [] = t"
  by (cases t) auto

lemma sweep_merge:
  "sweep live t f =
     (filter (\<lambda>e. fst e \<in> live) (merge_records t f),
      map (\<lambda>e. (fst e, fst e + rec_size (snd e))) (filter (\<lambda>e. fst e \<notin> live) (merge_records t f)))"
  by (induction live t f rule: sweep.induct) (auto simp: classify_def)

lemma merge_records_keys: "fst ` set (merge_records t f) = fst ` set t \<union> fst ` set f"
  by (induction t f rule: merge_records.induct) auto

lemma bt_ok_Cons': "bt_ok (e # m) \<longleftrightarrow> (\<forall>k \<in> fst ` set m. fst e < k) \<and> bt_ok m"
  by (cases e) (simp add: bt_ok_Cons)

lemma bt_get_Cons: "bt_get (e # m) k = (if fst e = k then Some (snd e) else bt_get m k)"
  by (cases e) (simp add: bt_get_def)

lemma bt_get_None_less: "bt_ok (e # m) \<Longrightarrow> k \<le> fst e \<Longrightarrow> bt_get m k = None"
  by (auto simp: bt_ok_Cons' bt_get_def map_of_eq_None_iff)

lemma merge_records_ok: "bt_ok t \<Longrightarrow> bt_ok f \<Longrightarrow> bt_ok (merge_records t f)"
proof (induction t f rule: merge_records.induct)
  case (3 old table new fresh)
  then show ?case
    by (cases "fst old = fst new"; cases "fst old < fst new")
       (auto simp: bt_ok_Cons' merge_records_keys)
qed auto

lemma merge_records_get:
  "bt_ok t \<Longrightarrow> bt_ok f \<Longrightarrow>
   bt_get (merge_records t f) k = (case bt_get f k of Some r \<Rightarrow> Some r | None \<Rightarrow> bt_get t k)"
proof (induction t f rule: merge_records.induct)
  case (3 old table new fresh)
  have ok: "bt_ok table" "bt_ok fresh" using "3.prems" by (auto simp: bt_ok_Cons')
  consider "fst old = fst new" | "fst old < fst new" | "fst new < fst old" by linarith
  then show ?case
  proof cases
    case 1
    then show ?thesis using 3 ok by (auto simp: bt_get_Cons split: option.split)
  next
    case 2
    have "bt_get (new # fresh) (fst old) = None"
      using bt_get_None_less [OF "3.prems"(2), of "fst old"] 2 by (simp add: bt_get_Cons)
    then show ?thesis using 3 ok 2 by (auto simp: bt_get_Cons split: option.split)
  next
    case 3
    then show ?thesis using "3.IH"(3) "3.prems" ok by (auto simp: bt_get_Cons split: option.split)
  qed
qed (auto simp: btree_simps split: option.split)

lemma fresh_records_ok:
  "sorted_wrt (<) (map pa_base fs) \<Longrightarrow> bt_ok (map (\<lambda>r. (pa_base r, into_record r g)) fs)"
  by (simp add: bt_ok_def comp_def)

lemma fresh_records_get:
  "sorted_wrt (<) (map pa_base fs) \<Longrightarrow>
   bt_get (map (\<lambda>r. (pa_base r, into_record r g)) fs) k = map_option (\<lambda>r. into_record r g) (newest fs k)"
proof (induction fs)
  case (Cons a fs)
  have "newest fs (pa_base a) = None" using Cons.prems by (force simp: newest_None_iff)
  then show ?case using Cons by (auto simp: bt_get_Cons newest_Cons split: option.split)
qed (simp add: btree_simps)

lemma merge_settled:
  assumes "bt_ok t"
  shows "merge_records t (map (\<lambda>r. (pa_base r, into_record r g)) (sort_fresh ps)) = flush_pending g ps t"
  using assms fresh_records_ok [OF sort_fresh_sorted] fresh_records_get [OF sort_fresh_sorted]
  by (intro bt_ok_ext) (auto simp: merge_records_ok merge_records_get bt_get_flush split: option.split)

end
