(* ===== verification/Arena_Safety.thy ===== *)
theory Arena_Safety
  imports Arena_Reset
begin

text \<open>
  What a reset guarantees. Reachability is stated on the settled table of a state: from the
  contents of the root slots, the slots themselves and the pinned addresses, through side
  references, through the edges of the current allocation incarnation and through every pointer
  word of an allocation that a reached address lies in. The reset is shown to keep exactly the
  allocations holding a reachable address, together with their bump generation.
\<close>

subsection \<open>Reachable addresses\<close>

definition heap_succ :: "'b thread_state \<Rightarrow> usize \<Rightarrow> usize set" where
  "heap_succ s p =
     set (or_default (bt_get (references s) p)) \<union>
     (case containing (settled s) p of
        None \<Rightarrow> {}
      | Some (b, r) \<Rightarrow>
          set (pointer_words (mem s) b (rec_size r)) \<union>
          (if rec_serial r \<noteq> 0
           then set (or_default (hm_get (allocation_references s) (\<lparr>id_base = b, id_serial = rec_serial r\<rparr>, p)))
           else {}))"

definition heap_roots :: "'b thread_state \<Rightarrow> usize set" where
  "heap_roots s = read_usize (mem s) ` set (roots s) \<union> set (roots s) \<union> fst ` set (pinned s)"

definition reachable_address :: "'b thread_state \<Rightarrow> usize \<Rightarrow> bool" where
  "reachable_address s = reach (heap_succ s) (heap_roots s)"

definition live_bases :: "'b thread_state \<Rightarrow> usize set" where
  "live_bases s = {b. \<exists>p r. reachable_address s p \<and> containing (settled s) p = Some (b, r)}"

subsection \<open>The reset loop computes them\<close>

lemma reset_env_wf: "bt_ok (allocations s) \<Longrightarrow> wf_env (reset_env s) = reset_env s"
  using strict_sorted_imp_sorted [OF sort_fresh_sorted [of "pending_allocations s"]]
  by (simp add: wf_env_def reset_env_def)

lemma reset_env_table: "bt_ok (allocations s) \<Longrightarrow> env_table (reset_env s) = settled s"
  by (simp add: env_table_def reset_env_def settled_def flush_sort_fresh)

lemma reset_env_nearest: "bt_ok (allocations s) \<Longrightarrow> env_nearest (reset_env s) p = bt_floor (settled s) p"
  by (metis env_nearest_floor reset_env_table reset_env_wf)

lemma reset_env_start:
  "bt_ok (allocations s) \<Longrightarrow> env_start (reset_env s) p = map_option fst (containing (settled s) p)"
  by (auto simp: env_start_def containing_def reset_env_nearest split: option.split)

lemma settled_ok: "bt_ok (allocations s) \<Longrightarrow> bt_ok (settled s)"
  by (simp add: settled_def)

lemma containing_get: "bt_ok t \<Longrightarrow> containing t p = Some (b, r) \<Longrightarrow> bt_get t b = Some r"
  by (simp add: containing_Some_iff)

lemma containing_base: "bt_ok t \<Longrightarrow> containing t p = Some (b, r) \<Longrightarrow> containing t b = Some (b, r)"
  by (auto simp: containing_Some_iff)

lemma reset_succ:
  assumes "bt_ok (allocations s)"
  shows "em.succ (reset_env s) p = heap_succ s p"
proof -
  have em: "em.succ (reset_env s) p = set (env_children (reset_env s) p) \<union>
      (case env_start (reset_env s) p of None \<Rightarrow> {} | Some b \<Rightarrow> set (env_words (reset_env s) b))"
    using em.succ_def [of "reset_env s" p] unfolding reset_env_wf [OF assms] .
  show ?thesis
  proof (cases "containing (settled s) p")
    case None
    then show ?thesis
      unfolding em heap_succ_def env_children_def reset_env_nearest [OF assms] reset_env_start [OF assms]
      by (auto simp: containing_def reset_env_def split: option.splits if_splits)
  next
    case (Some e)
    obtain b r where e: "e = (b, r)" by (cases e)
    have get: "bt_get (env_table (reset_env s)) b = Some r"
      using containing_get [OF settled_ok [OF assms]] Some e by (simp add: reset_env_table [OF assms])
    have "bt_floor (settled s) p = Some (b, r)" "p - b < rec_size r"
      using Some e by (auto simp: containing_def split: option.splits if_splits)
    then show ?thesis
      unfolding em heap_succ_def env_children_def reset_env_nearest [OF assms] reset_env_start [OF assms]
      using Some e get by (auto simp: env_words_def reset_env_def)
  qed
qed

lemma reset_mark_result:
  assumes "bt_ok (allocations s)"
  shows "reset_mark (reset_env s) (reset_stack s) {} {} = (live_bases s, Collect (reachable_address s))"
proof -
  have roots: "set (reset_stack s) = heap_roots s"
    by (auto simp: reset_stack_def heap_roots_def)
  have succ: "em.succ (reset_env s) = heap_succ s"
    using reset_succ [OF assms] by blast
  have "reset_mark (reset_env s) (reset_stack s) {} {} =
      ({b. \<exists>p. reach (em.succ (reset_env s)) (set (reset_stack s)) p \<and> env_start (reset_env s) p = Some b},
       Collect (reach (em.succ (reset_env s)) (set (reset_stack s))))"
    using em.run_reach [of "reset_env s"] reset_env_wf [OF assms] by simp
  then show ?thesis
    unfolding roots succ live_bases_def reachable_address_def [symmetric] reset_env_start [OF assms]
    by auto
qed

lemma live_base_record:
  assumes "bt_ok (allocations s)" "b \<in> live_bases s"
  shows "\<exists>r. bt_get (settled s) b = Some r \<and> bt_floor (settled s) b = Some (b, r)"
proof -
  obtain p r where c: "containing (settled s) p = Some (b, r)" using assms(2) by (auto simp: live_bases_def)
  have "containing (settled s) b = Some (b, r)" by (rule containing_base [OF settled_ok [OF assms(1)] c])
  then show ?thesis
    using containing_get [OF settled_ok [OF assms(1)] c]
    by (auto simp: containing_def split: option.splits if_splits)
qed

lemma live_generations_result:
  assumes "bt_ok (allocations s)"
  shows "live_generations (reset_env s) (live_bases s) =
    {rec_generation r | b r. b \<in> live_bases s \<and> bt_get (settled s) b = Some r}"
  unfolding live_generations_def reset_env_nearest [OF assms]
  using live_base_record [OF assms] by (fastforce simp: Option.these_def image_iff)

subsection \<open>Renumbering the generations\<close>

lemma retain_indexed_mapping:
  "retain_indexed gens old idx xs = (kept, mapping) \<Longrightarrow> g \<in> gens \<Longrightarrow> old \<le> g \<Longrightarrow> g < old + length xs \<Longrightarrow>
   \<exists>j. bt_get mapping g = Some j \<and> idx \<le> j \<and> j < idx + length kept \<and> kept ! (j - idx) = xs ! (g - old)"
proof (induction gens old idx xs arbitrary: kept mapping rule: retain_indexed.induct)
  case (2 gens old idx x xs)
  show ?case
  proof (cases "old \<in> gens")
    case True
    obtain ks m where km: "retain_indexed gens (old + 1) (idx + 1) xs = (ks, m)" by fastforce
    have r: "kept = x # ks" "mapping = (old, idx) # m" using "2.prems"(1) True km by auto
    show ?thesis
    proof (cases "g = old")
      case True
      then show ?thesis using r by (auto simp: bt_get_def)
    next
      case False
      then obtain j where "bt_get m g = Some j" "idx + 1 \<le> j" "j < idx + 1 + length ks"
          "ks ! (j - (idx + 1)) = xs ! (g - (old + 1))"
        using "2.IH"(1) [OF True km] "2.prems" by force
      then show ?thesis using r False "2.prems" by (auto simp: bt_get_def nth_Cons')
    qed
  next
    case False
    then have "g \<noteq> old" using "2.prems" by blast
    then show ?thesis using "2.IH"(2) [OF False] "2.prems" False by (force simp: nth_Cons')
  qed
qed simp

lemma remap_generations_result:
  assumes "\<And>b r. (b, r) \<in> set rs \<Longrightarrow> bt_get mapping (rec_generation r) = Some (f (rec_generation r))"
  shows "remap_generations mapping rs = Some (map (\<lambda>(b, r). (b, r\<lparr>rec_generation := f (rec_generation r)\<rparr>)) rs)"
  using assms
proof (induction rs)
  case (Cons e rs)
  obtain b r where e: "e = (b, r)" by (cases e)
  have "bt_get mapping (rec_generation r) = Some (f (rec_generation r))"
    using Cons.prems [of b r] e by simp
  moreover have "remap_generations mapping rs =
      Some (map (\<lambda>(b, r). (b, r\<lparr>rec_generation := f (rec_generation r)\<rparr>)) rs)"
    using Cons.IH Cons.prems list.set_intros(2) by metis
  ultimately show ?case using e by simp
qed simp

subsection \<open>The invariant\<close>

definition records_ok :: "(usize, alloc_record) btree \<Rightarrow> nat \<Rightarrow> nat \<Rightarrow> bool" where
  "records_ok t g n = (\<forall>(_, r) \<in> set t. 0 < rec_size r \<and> rec_generation r \<le> g \<and> rec_serial r \<le> n)"

definition arena_inv :: "'b thread_state \<Rightarrow> bool" where
  "arena_inv s \<longleftrightarrow>
     bt_ok (allocations s) \<and> bt_ok (references s) \<and> bt_ok (pinned s) \<and>
     distinct (map fst (allocation_references s)) \<and> distinct (map fst (lengths s)) \<and> distinct (roots s) \<and>
     records_ok (allocations s) (length (retained s)) (next_allocation_id s) \<and>
     (\<forall>r \<in> set (pending_allocations s). 0 < pa_size r \<and> pa_serial r \<le> next_allocation_id s) \<and>
     sorted (map fst (reclaimed s)) \<and> next_allocation_id s < usize_limit \<and>
     (\<forall>(p, c) \<in> set (pinned s). 0 < p \<and> 0 < c)"

lemma records_okD:
  "records_ok t g n \<Longrightarrow> bt_get t b = Some r \<Longrightarrow> 0 < rec_size r \<and> rec_generation r \<le> g \<and> rec_serial r \<le> n"
  by (auto simp: records_ok_def bt_get_def dest!: map_of_SomeD)

lemma records_ok_intro:
  "bt_ok t \<Longrightarrow> (\<And>b r. bt_get t b = Some r \<Longrightarrow> 0 < rec_size r \<and> rec_generation r \<le> g \<and> rec_serial r \<le> n)
   \<Longrightarrow> records_ok t g n"
  unfolding records_ok_def by (auto simp: bt_get_in_set [symmetric])

lemma newest_in_set: "newest ps k = Some r \<Longrightarrow> r \<in> set ps \<and> pa_base r = k"
proof -
  let ?rs = "filter (\<lambda>r. pa_base r = k) ps"
  assume "newest ps k = Some r"
  then have "?rs \<noteq> []" "r = last ?rs" by (auto simp: newest_def Let_def split: if_splits)
  then have "r \<in> set ?rs" using last_in_set by metis
  then show ?thesis by simp
qed

lemma settled_records_ok:
  "arena_inv s \<Longrightarrow> records_ok (settled s) (length (retained s)) (next_allocation_id s)"
  unfolding arena_inv_def
  by (intro records_ok_intro)
     (auto simp: settled_def bt_get_flush into_record_def split: option.splits
       dest: newest_in_set records_okD)

text \<open>The state that a traced reset builds.\<close>

definition generation_list :: "'b thread_state \<Rightarrow> 'b list" where
  "generation_list s = retained s @ [arena s]"

text \<open>What a traced reset does to a state: \<open>f\<close> renumbers the retained generations.\<close>

definition reset_outcome :: "'b thread_state \<Rightarrow> (nat \<Rightarrow> nat) \<Rightarrow> 'b thread_state \<Rightarrow> bool" where
  "reset_outcome s f s' \<longleftrightarrow>
     allocations s' = map (\<lambda>(b, r). (b, r\<lparr>rec_generation := f (rec_generation r)\<rparr>))
       (filter (\<lambda>e. fst e \<in> live_bases s) (settled s)) \<and>
     reclaimed s' = map (\<lambda>e. (fst e, fst e + rec_size (snd e)))
       (filter (\<lambda>e. fst e \<notin> live_bases s) (settled s)) \<and>
     (\<forall>b r. b \<in> live_bases s \<longrightarrow> bt_get (settled s) b = Some r \<longrightarrow>
        f (rec_generation r) < length (retained s') \<and>
        retained s' ! f (rec_generation r) = generation_list s ! rec_generation r) \<and>
     pending_allocations s' = [] \<and>
     s' = s\<lparr>arena := arena s', retained := retained s', allocations := allocations s',
       pending_allocations := [], reclaimed := reclaimed s',
       references := bt_retain (\<lambda>owner _. owner \<in> live_bases s \<or> reachable_address s owner) (references s),
       allocation_references :=
         hm_retain (\<lambda>k _. edge_survives (reset_env s) (live_bases s) k) (allocation_references s)\<rparr>"

lemma reset_traced_result:
  assumes "arena_inv s"
  shows "\<exists>f s'. reset_traced B s = Some s' \<and> reset_outcome s f s'"
proof -
  have ok: "bt_ok (allocations s)" using assms by (simp add: arena_inv_def)
  let ?gens = "live_generations (reset_env s) (live_bases s)"
  let ?gl = "if length (retained s) \<in> ?gens then retained s @ [arena s] else retained s"
  obtain kept mapping where km: "retain_indexed ?gens 0 0 ?gl = (kept, mapping)" by fastforce
  have gen: "rec_generation r \<in> ?gens \<and> rec_generation r < length ?gl
      \<and> ?gl ! rec_generation r = generation_list s ! rec_generation r"
    if "b \<in> live_bases s" "bt_get (settled s) b = Some r" for b r
  proof -
    have g: "rec_generation r \<in> ?gens" using that live_generations_result [OF ok] by blast
    moreover have "rec_generation r \<le> length (retained s)"
      using records_okD [OF settled_records_ok [OF assms] that(2)] by simp
    ultimately show ?thesis by (auto simp: generation_list_def nth_append le_less)
  qed
  define f where "f g = (case bt_get mapping g of Some j \<Rightarrow> j | None \<Rightarrow> 0)" for g
  have f: "bt_get mapping (rec_generation r) = Some (f (rec_generation r)) \<and>
      f (rec_generation r) < length kept \<and> kept ! f (rec_generation r) = generation_list s ! rec_generation r"
    if "b \<in> live_bases s" "bt_get (settled s) b = Some r" for b r
    using retain_indexed_mapping [OF km, of "rec_generation r"] gen [OF that] by (auto simp: f_def)
  let ?sv = "filter (\<lambda>e. fst e \<in> live_bases s) (settled s)"
  have "bt_get mapping (rec_generation r) = Some (f (rec_generation r))" if "(b, r) \<in> set ?sv" for b r
    using that f [of b r] by (simp add: bt_get_in_set [OF settled_ok [OF ok]])
  then have remap: "remap_generations mapping ?sv =
      Some (map (\<lambda>(b, r). (b, r\<lparr>rec_generation := f (rec_generation r)\<rparr>)) ?sv)"
    by (rule remap_generations_result)
  have sw: "sweep (live_bases s) (me_table (reset_env s))
      (map (\<lambda>r. (pa_base r, into_record r (me_generation (reset_env s)))) (me_fresh (reset_env s))) =
      (?sv, map (\<lambda>e. (fst e, fst e + rec_size (snd e))) (filter (\<lambda>e. fst e \<notin> live_bases s) (settled s)))"
    unfolding sweep_merge using merge_settled [OF ok] by (simp add: reset_env_def settled_def)
  let ?s' = "\<lambda>cur. s\<lparr>arena := cur, retained := kept,
      allocations := map (\<lambda>(b, r). (b, r\<lparr>rec_generation := f (rec_generation r)\<rparr>)) ?sv,
      pending_allocations := [],
      reclaimed := map (\<lambda>e. (fst e, fst e + rec_size (snd e))) (filter (\<lambda>e. fst e \<notin> live_bases s) (settled s)),
      references := bt_retain (\<lambda>owner _. owner \<in> live_bases s \<or> reachable_address s owner) (references s),
      allocation_references :=
        hm_retain (\<lambda>k _. edge_survives (reset_env s) (live_bases s) k) (allocation_references s)\<rparr>"
  have eq: "reset_traced B s = Some (?s' (if length (retained s) \<in> ?gens then bump_new B else bump_reset B (arena s)))"
    using km by (cases "length (retained s) \<in> ?gens")
      (simp_all add: reset_traced_def reset_mark_result [OF ok] sw Let_def remap)
  show ?thesis unfolding eq reset_outcome_def using f by (intro exI [of _ f]) auto
qed

end
