(* ===== verification/Arena_Theorems.thy ===== *)
theory Arena_Theorems
  imports Arena_Safety
begin

text \<open>
  The guarantees of the arena: the invariant and its preservation by every operation, what a
  whole reset keeps and reclaims, the agreement of the two marking loops, and the laws of pins,
  identities and spans.
\<close>

subsection \<open>Reclaimed ranges\<close>

definition disjoint_records :: "(usize, alloc_record) btree \<Rightarrow> bool" where
  "disjoint_records t = sorted_wrt (\<lambda>e1 e2. fst e1 + rec_size (snd e1) \<le> fst e2) t"

lemma was_reclaimed_sound:
  assumes "was_reclaimed s q"
  shows "\<exists>(b, e) \<in> set (reclaimed s). b \<le> q \<and> q < e"
proof -
  let ?i = "partition_point (\<lambda>(start, _). start \<le> q) (reclaimed s)"
  have i: "?i \<noteq> 0" "q < snd (reclaimed s ! (?i - 1))"
    using assms by (auto simp: was_reclaimed_def Let_def)
  have lt: "?i - 1 < length (reclaimed s)"
    using i(1) partition_point_le [of "\<lambda>(start, _). start \<le> q" "reclaimed s"] by linarith
  have "reclaimed s ! (?i - 1) \<in> set (take ?i (reclaimed s))"
    using i(1) lt by (auto simp: in_set_conv_nth intro!: exI [of _ "?i - 1"])
  from partition_point_take [OF this] have "fst (reclaimed s ! (?i - 1)) \<le> q"
    by (simp add: case_prod_beta)
  then show ?thesis using i(2) nth_mem [OF lt] by (intro bexI [of _ "reclaimed s ! (?i - 1)"]) auto
qed

lemma was_reclaimed_complete:
  assumes disj: "sorted_wrt (\<lambda>x y. snd x \<le> fst y) (reclaimed s)" and "sorted (map fst (reclaimed s))"
    and "(b, e) \<in> set (reclaimed s)" "b \<le> q" "q < e"
  shows "was_reclaimed s q"
proof -
  let ?i = "partition_point (\<lambda>(start, _). start \<le> q) (reclaimed s)"
  obtain j where j: "j < length (reclaimed s)" "reclaimed s ! j = (b, e)"
    using assms(3) by (auto simp: in_set_conv_nth)
  have pp: "k < length (reclaimed s) \<Longrightarrow> k < ?i \<longleftrightarrow> fst (reclaimed s ! k) \<le> q" for k
    using partition_point_sorted [OF assms(2), of k q] by (simp add: case_prod_beta')
  have ji: "j < ?i" using pp [OF j(1)] j(2) assms(4) by simp
  have il: "?i - 1 < length (reclaimed s)"
    using ji partition_point_le [of "\<lambda>(start, _). start \<le> q" "reclaimed s"] by linarith
  have "\<not> j < ?i - 1"
  proof
    assume "j < ?i - 1"
    then have "snd (reclaimed s ! j) \<le> fst (reclaimed s ! (?i - 1))"
      using sorted_wrt_nth_less [OF disj, of j "?i - 1"] il by simp
    moreover have "fst (reclaimed s ! (?i - 1)) \<le> q" using pp [OF il] ji by simp
    ultimately show False using j(2) assms(5) by simp
  qed
  then have "j = ?i - 1" using ji by simp
  then show ?thesis using j(2) ji assms(5) by (simp add: was_reclaimed_def Let_def)
qed

lemma reclaimed_ranges_sorted:
  assumes "bt_ok t"
  shows "sorted (map fst (map (\<lambda>e. (fst e, fst e + rec_size (snd e))) (filter P t)))"
  using bt_ok_sorted [OF bt_ok_filter [OF assms, of P]] by (simp add: comp_def)

lemma reclaimed_ranges_disjoint:
  "disjoint_records t \<Longrightarrow>
   sorted_wrt (\<lambda>x y. snd x \<le> fst y) (map (\<lambda>e. (fst e, fst e + rec_size (snd e))) (filter P t))"
  by (simp add: disjoint_records_def sorted_wrt_map sorted_wrt_filter)

subsection \<open>Hooks\<close>

text \<open>
  A nested reset is ignored, so a hook can release side-table entries and allocate, but cannot drop
  a generation, forget the reclaimed ranges or lose a record. Hooks of other crates are assumed to
  do no more than that.
\<close>

definition hooks_only_allocate :: "(nat \<Rightarrow> bool \<Rightarrow> 'b thread_state \<Rightarrow> 'b thread_state) \<Rightarrow> bool" where
  "hooks_only_allocate H \<longleftrightarrow>
     (\<forall>n t x. retained (H n t x) = retained x \<and> reclaimed (H n t x) = reclaimed x \<and>
        (\<forall>b r. bt_get (settled x) b = Some r \<longrightarrow> bt_get (settled (H n t x)) b = Some r))"

lemma settled_aliases [simp]: "settled (s\<lparr>native_error_aliases := x\<rparr>) = settled s"
  by (simp add: settled_def)

lemma run_hook_keeps:
  assumes "hooks_only_allocate H"
  shows "retained (run_hook H t h x) = retained x" "reclaimed (run_hook H t h x) = reclaimed x"
    "bt_get (settled x) b = Some r \<Longrightarrow> bt_get (settled (run_hook H t h x)) b = Some r"
  using assms by (auto simp: run_hook_def hooks_only_allocate_def split: hook.split)

lemma fold_hooks_keep:
  assumes "hooks_only_allocate H"
  shows "retained (fold (run_hook H t) hs x) = retained x \<and> reclaimed (fold (run_hook H t) hs x) = reclaimed x
    \<and> (\<forall>b r. bt_get (settled x) b = Some r \<longrightarrow> bt_get (settled (fold (run_hook H t) hs x)) b = Some r)"
  by (induction hs arbitrary: x) (auto simp: run_hook_keeps [OF assms])

text \<open>The end of a traced reset: lengths, both hook lists, the guard.\<close>

definition finish_reset ::
    "(nat \<Rightarrow> bool \<Rightarrow> 'b thread_state \<Rightarrow> 'b thread_state) \<Rightarrow> bool \<Rightarrow> 'b thread_state \<Rightarrow> 'b thread_state" where
  "finish_reset H t s = reset_guard_drop (run_reset_hooks H t (run_metadata_reset_hooks H t (reset_lengths t s)))"

lemma finish_reset_keeps:
  assumes "hooks_only_allocate H"
  shows "retained (finish_reset H t s) = retained s" "reclaimed (finish_reset H t s) = reclaimed s"
    "bt_get (settled s) b = Some r \<Longrightarrow> bt_get (settled (finish_reset H t s)) b = Some r"
    "\<not> reset_active (finish_reset H t s)"
proof -
  note k = fold_hooks_keep [OF assms]
  let ?m = "run_metadata_reset_hooks H t (reset_lengths t s)"
  have m: "retained ?m = retained s" "reclaimed ?m = reclaimed s"
      "bt_get (settled s) b = Some r \<Longrightarrow> bt_get (settled ?m) b = Some r"
    using k [of t "metadata_reset_hooks (reset_lengths t s)" "reset_lengths t s"]
    by (auto simp: run_metadata_reset_hooks_def reset_lengths_def settled_def)
  then show "retained (finish_reset H t s) = retained s" "reclaimed (finish_reset H t s) = reclaimed s"
      "bt_get (settled s) b = Some r \<Longrightarrow> bt_get (settled (finish_reset H t s)) b = Some r"
      "\<not> reset_active (finish_reset H t s)"
    using k [of t "reset_hooks ?m" ?m]
    by (auto simp: finish_reset_def reset_guard_drop_def run_reset_hooks_def settled_def)
qed

text \<open>The state in which marking starts.\<close>

definition reset_begin :: "'b thread_state \<Rightarrow> 'b thread_state" where
  "reset_begin s = s\<lparr>reset_active := True, bytes_since_reset := 0, capacities := []\<rparr>"

lemma reset_begin_fields [simp]:
  "settled (reset_begin s) = settled s" "references (reset_begin s) = references s"
  "allocation_references (reset_begin s) = allocation_references s" "mem (reset_begin s) = mem s"
  "roots (reset_begin s) = roots s" "pinned (reset_begin s) = pinned s" "tracing (reset_begin s) = tracing s"
  "retained (reset_begin s) = retained s" "arena (reset_begin s) = arena s"
  "allocations (reset_begin s) = allocations s" "arena_inv (reset_begin s) = arena_inv s"
  by (simp_all add: reset_begin_def settled_def arena_inv_def)

lemma reset_begin_reachable [simp]:
  "reachable_address (reset_begin s) = reachable_address s" "live_bases (reset_begin s) = live_bases s"
  "generation_list (reset_begin s) = generation_list s"
proof -
  have "heap_succ (reset_begin s) = heap_succ s" by (rule ext) (simp add: heap_succ_def split: option.split)
  then show "reachable_address (reset_begin s) = reachable_address s"
    by (simp add: reachable_address_def heap_roots_def)
  then show "live_bases (reset_begin s) = live_bases s" by (simp add: live_bases_def)
  show "generation_list (reset_begin s) = generation_list s" by (simp add: generation_list_def)
qed

lemma reset_traced_path:
  "tracing s \<Longrightarrow> \<not> reset_active s \<Longrightarrow>
   thaw_arena_reset B H s = map_option (finish_reset H True) (reset_traced B (reset_begin s))"
  by (simp add: thaw_arena_reset_def reset_guard_acquire_def reset_begin_def finish_reset_def
      [abs_def] Let_def)

lemma bt_get_map_records:
  "bt_get (map (\<lambda>(b, r). (b, g r)) t) b = map_option g (bt_get t b)"
  by (induction t) (auto simp: bt_get_def)

lemma bt_get_filter_key: "bt_get (filter (\<lambda>e. fst e \<in> X) t) b = (if b \<in> X then bt_get t b else None)"
  by (induction t) (auto simp: bt_get_def)

text \<open>The facts about a traced reset that the properties below share.\<close>

lemma reset_facts:
  assumes "arena_inv s" "tracing s" "\<not> reset_active s" "hooks_only_allocate H"
  obtains s' f where "thaw_arena_reset B H s = Some s'"
    "reclaimed s' = map (\<lambda>e. (fst e, fst e + rec_size (snd e))) (filter (\<lambda>e. fst e \<notin> live_bases s) (settled s))"
    "\<And>b r. b \<in> live_bases s \<Longrightarrow> bt_get (settled s) b = Some r \<Longrightarrow>
       bt_get (settled s') b = Some (r\<lparr>rec_generation := f (rec_generation r)\<rparr>) \<and>
       f (rec_generation r) < length (retained s') \<and>
       retained s' ! f (rec_generation r) = generation_list s ! rec_generation r"
    "\<not> reset_active s'"
proof -
  have inv: "arena_inv (reset_begin s)" using assms(1) by simp
  obtain f s1 where s1: "reset_traced B (reset_begin s) = Some s1"
    and out: "reset_outcome (reset_begin s) f s1"
    using reset_traced_result [OF inv] by blast
  have al: "allocations s1 = map (\<lambda>(b, r). (b, r\<lparr>rec_generation := f (rec_generation r)\<rparr>))
        (filter (\<lambda>e. fst e \<in> live_bases s) (settled s))"
    and rc: "reclaimed s1 = map (\<lambda>e. (fst e, fst e + rec_size (snd e)))
        (filter (\<lambda>e. fst e \<notin> live_bases s) (settled s))"
    and ge: "\<And>b r. b \<in> live_bases s \<Longrightarrow> bt_get (settled s) b = Some r \<Longrightarrow>
        f (rec_generation r) < length (retained s1) \<and>
        retained s1 ! f (rec_generation r) = generation_list s ! rec_generation r"
    and rest: "pending_allocations s1 = []"
    using out unfolding reset_outcome_def by simp_all
  have "settled s1 = allocations s1" using rest by (simp add: settled_def)
  then have g1: "bt_get (settled s1) b = Some (r\<lparr>rec_generation := f (rec_generation r)\<rparr>)"
    if "b \<in> live_bases s" "bt_get (settled s) b = Some r" for b r
    using that by (simp add: al bt_get_map_records bt_get_filter_key)
  note fin = finish_reset_keeps [OF assms(4), where t = True and s = s1]
  show thesis
    by (rule that [of "finish_reset H True s1" f])
       (use s1 rc ge g1 fin reset_traced_path [OF assms(2,3), of B H] in auto)
qed

subsection \<open>Every operation keeps the invariant\<close>

lemma arena_inv_init: "arena_inv (init_state B m)"
  by (simp add: arena_inv_def init_state_def records_ok_def usize_limit_def)

lemma records_ok_mono: "records_ok t g n \<Longrightarrow> g \<le> g' \<Longrightarrow> n \<le> n' \<Longrightarrow> records_ok t g' n'"
  unfolding records_ok_def by fastforce

lemma arena_inv_alloc:
  assumes "arena_inv s"
  shows "arena_inv (snd (thaw_arena_alloc B sz align s))"
proof (cases "layout_ok sz align \<and> bump_try_alloc B (arena s) sz align \<noteq> None \<and> tracing s")
  case False
  then show ?thesis using assms
    by (auto simp: thaw_arena_alloc_def arena_inv_def Let_def split: option.split)
next
  case True
  then obtain p a where b: "bump_try_alloc B (arena s) sz align = Some (p, a)" by auto
  have inv: "records_ok (allocations s) (length (retained s)) (next_allocation_id s)"
      "\<forall>r \<in> set (pending_allocations s). 0 < pa_size r \<and> pa_serial r \<le> next_allocation_id s"
    using assms by (auto simp: arena_inv_def)
  show ?thesis
  proof (cases "checked_add (next_allocation_id s) 1")
    case None
    then show ?thesis using assms True b by (auto simp: thaw_arena_alloc_def arena_inv_def Let_def)
  next
    case (Some n)
    then have n: "n = next_allocation_id s + 1" "n < usize_limit" by (auto simp: checked_add_Some_iff)
    have "records_ok (allocations s) (length (retained s)) n"
      by (rule records_ok_mono [OF inv(1)]) (use n in auto)
    then show ?thesis using assms True b Some n inv(2)
      by (auto simp: thaw_arena_alloc_def arena_inv_def Let_def)
  qed
qed

lemma arena_inv_flush:
  "arena_inv s \<Longrightarrow> arena_inv (s\<lparr>allocations := settled s, pending_allocations := []\<rparr>)"
  using settled_records_ok [of s] by (auto simp: arena_inv_def settled_ok)

lemma arena_inv_locate: "arena_inv s \<Longrightarrow> arena_inv (snd (locate_allocation p s))"
  using locate_state [of p s] arena_inv_flush [of s] by auto

lemma arena_inv_identity: "arena_inv s \<Longrightarrow> arena_inv (snd (allocation_identity p s))"
  using arena_inv_locate [of s p]
  by (cases "locate_allocation p s") (auto simp: allocation_identity_def split: option.split)

lemma arena_inv_span: "arena_inv s \<Longrightarrow> arena_inv (snd (allocation_span_identity p n al s))"
  using arena_inv_locate [of s p]
  by (cases "locate_allocation p s") (auto simp: allocation_span_identity_def split: option.split)

lemma arena_inv_replace_allocation_reference:
  assumes "arena_inv s"
  shows "arena_inv (snd (replace_allocation_reference i owner previous nxt s))"
  using arena_inv_identity [OF assms, of owner]
  by (cases "allocation_identity owner s")
     (auto simp: replace_allocation_reference_def Let_def arena_inv_def distinct_hm_insert distinct_hm_remove)

lemma arena_inv_remove_allocation_reference:
  "arena_inv s \<Longrightarrow> arena_inv (remove_allocation_reference i owner child s)"
  by (auto simp: remove_allocation_reference_def Let_def arena_inv_def distinct_hm_insert distinct_hm_remove
      split: option.split)

lemma set_bt_insert: "set (bt_insert k v m) \<subseteq> insert (k, v) (set m)"
  by (induction k v m rule: bt_insert.induct) auto

lemma arena_inv_pinned:
  assumes "arena_inv s" "bt_ok m" "\<forall>(p, c) \<in> set m. 0 < p \<and> 0 < c"
  shows "arena_inv (s\<lparr>pinned := m\<rparr>)"
  using assms by (simp add: arena_inv_def)

lemma pinned_insert_ok:
  assumes "arena_inv s" "0 < p" "0 < c"
  shows "arena_inv (s\<lparr>pinned := bt_insert p c (pinned s)\<rparr>)"
proof -
  have ok: "bt_ok (pinned s)" "\<forall>(p, c) \<in> set (pinned s). 0 < p \<and> 0 < c"
    using assms(1) by (simp_all add: arena_inv_def)
  have "\<forall>(a, b) \<in> insert (p, c) (set (pinned s)). 0 < a \<and> 0 < b" using ok(2) assms(2,3) by simp
  then have "\<forall>(a, b) \<in> set (bt_insert p c (pinned s)). 0 < a \<and> 0 < b"
    using set_bt_insert [of p c "pinned s"] by (meson subsetD)
  then show ?thesis using ok by (intro arena_inv_pinned [OF assms(1)]) (simp add: btree_simps)
qed

lemma pinned_get_pos: "arena_inv s \<Longrightarrow> bt_get (pinned s) p = Some c \<Longrightarrow> 0 < p \<and> 0 < c"
  by (auto simp: arena_inv_def bt_get_def dest!: map_of_SomeD)

lemma arena_inv_root_new: "arena_inv s \<Longrightarrow> arena_inv (snd (arena_root_new p s))"
  by (auto simp: arena_root_new_def Let_def intro!: pinned_insert_ok split: option.split)

lemma arena_inv_root_drop:
  assumes "arena_inv s"
  shows "arena_inv (arena_root_drop p s)"
proof (cases "bt_get (pinned s) p")
  case (Some c)
  have "arena_inv (s\<lparr>pinned := bt_remove p (pinned s)\<rparr>)"
    by (rule arena_inv_pinned [OF assms])
       (use assms in \<open>auto simp: arena_inv_def bt_remove_def bt_ok_filter\<close>)
  then show ?thesis
    using Some pinned_get_pos [OF assms Some] pinned_insert_ok [OF assms, of p "c - 1"]
    by (simp add: arena_root_drop_def)
qed (simp add: arena_root_drop_def assms)

lemma arena_inv_references:
  "arena_inv s \<Longrightarrow> arena_inv (replace_reference owner previous nxt s)"
  "arena_inv s \<Longrightarrow> arena_inv (forget_references owner s)"
  by (auto simp: replace_reference_def forget_references_def arena_inv_def)

lemma set_swap_remove: "i < length xs \<Longrightarrow> distinct xs \<Longrightarrow>
    set (swap_remove i xs) = set xs - {xs ! i} \<and> distinct (swap_remove i xs)"
proof (induction xs rule: rev_induct)
  case (snoc x xs)
  then show ?case
    by (auto simp: swap_remove_def list_update_append nth_append set_update_distinct distinct_list_update)
qed simp

lemma position_Some: "position P xs = Some i \<Longrightarrow> i < length xs \<and> P (xs ! i)"
  by (induction xs arbitrary: i) (auto split: if_splits)

lemma position_None: "position P xs = None \<longleftrightarrow> (\<forall>x \<in> set xs. \<not> P x)"
  by (induction xs) auto

lemma arena_inv_roots:
  "arena_inv s \<Longrightarrow> arena_inv (thaw_arena_register_root slot s)"
  "arena_inv s \<Longrightarrow> arena_inv (snd (thaw_arena_unregister_root slot s))"
proof -
  show "arena_inv s \<Longrightarrow> arena_inv (thaw_arena_register_root slot s)"
    by (auto simp: thaw_arena_register_root_def thaw_arena_enable_tracing_def arena_inv_def Let_def)
  show "arena_inv s \<Longrightarrow> arena_inv (snd (thaw_arena_unregister_root slot s))"
    using set_swap_remove [of _ "roots s"]
    by (auto simp: thaw_arena_unregister_root_def forget_references_def arena_inv_def split: option.split
        dest!: position_Some)
qed

lemma arena_inv_snapshot: "arena_inv s \<Longrightarrow> arena_inv (snd (snapshot_native_graph s))"
  using arena_inv_flush [of s]
  by (auto simp: snapshot_native_graph_def Let_def settled_def split: sum.split option.split)

lemma bt_ok_map_records: "bt_ok t \<Longrightarrow> bt_ok (map (\<lambda>(b, r). (b, g r)) t)"
  by (simp add: bt_ok_def comp_def case_prod_beta')

lemma arena_inv_reset_traced:
  assumes "arena_inv s" "reset_traced B s = Some s'"
  shows "arena_inv s'"
proof -
  have ok: "bt_ok (settled s)" using assms(1) settled_ok by (auto simp: arena_inv_def)
  obtain f where out: "reset_outcome s f s'"
    using reset_traced_result [OF assms(1), of B] assms(2) by auto
  note al = out [unfolded reset_outcome_def, THEN conjunct1]
  note rc = out [unfolded reset_outcome_def, THEN conjunct2, THEN conjunct1]
  note ge = out [unfolded reset_outcome_def, THEN conjunct2, THEN conjunct2, THEN conjunct1]
  note st = out [unfolded reset_outcome_def, THEN conjunct2, THEN conjunct2, THEN conjunct2, THEN conjunct2]
  have ok': "bt_ok (allocations s')" unfolding al by (intro bt_ok_map_records bt_ok_filter ok)
  have "records_ok (allocations s') (length (retained s')) (next_allocation_id s)"
  proof (rule records_ok_intro [OF ok'])
    fix b r assume "bt_get (allocations s') b = Some r"
    then obtain r0 where "b \<in> live_bases s" "bt_get (settled s) b = Some r0"
        "r = r0\<lparr>rec_generation := f (rec_generation r0)\<rparr>"
      unfolding al bt_get_map_records bt_get_filter_key by (auto split: if_splits)
    then show "0 < rec_size r \<and> rec_generation r \<le> length (retained s') \<and> rec_serial r \<le> next_allocation_id s"
      using ge records_okD [OF settled_records_ok [OF assms(1)]] by (simp add: less_imp_le)
  qed
  moreover have "sorted (map fst (reclaimed s'))"
    unfolding rc by (rule reclaimed_ranges_sorted [OF ok])
  ultimately show ?thesis
    using assms(1) ok' by (subst st) (simp add: arena_inv_def distinct_hm_retain)
qed

lemma arena_inv_unread_fields [simp]:
  "arena_inv (x\<lparr>native_error_aliases := a\<rparr>) = arena_inv x"
  "arena_inv (x\<lparr>reset_active := b\<rparr>) = arena_inv x"
  by (simp_all add: arena_inv_def)

definition hooks_keep_invariant :: "(nat \<Rightarrow> bool \<Rightarrow> 'b thread_state \<Rightarrow> 'b thread_state) \<Rightarrow> bool" where
  "hooks_keep_invariant H \<longleftrightarrow> (\<forall>n t x. arena_inv x \<longrightarrow> arena_inv (H n t x))"

lemma arena_inv_fold_hooks:
  assumes "hooks_keep_invariant H"
  shows "arena_inv x \<Longrightarrow> arena_inv (fold (run_hook H t) hs x)"
proof (induction hs arbitrary: x)
  case (Cons h hs)
  have "arena_inv (run_hook H t h x)"
    using Cons.prems assms by (auto simp: run_hook_def hooks_keep_invariant_def split: hook.split)
  then show ?case using Cons.IH by simp
qed simp

lemma arena_inv_reset:
  assumes "arena_inv s" "hooks_keep_invariant H" "thaw_arena_reset B H s = Some s'"
  shows "arena_inv s'"
proof -
  have fin: "arena_inv x \<Longrightarrow> arena_inv (reset_guard_drop (run_reset_hooks H t (run_metadata_reset_hooks H t x)))" for t x
    using arena_inv_fold_hooks [OF assms(2)]
    by (simp add: reset_guard_drop_def run_reset_hooks_def run_metadata_reset_hooks_def)
  have len: "arena_inv x \<Longrightarrow> arena_inv (reset_lengths t x)" for t x
    by (simp add: reset_lengths_def arena_inv_def distinct_hm_retain)
  show ?thesis
  proof (cases "tracing s \<and> \<not> reset_active s")
    case True
    then obtain s1 where "reset_traced B (reset_begin s) = Some s1" "s' = finish_reset H True s1"
      using assms(3) reset_traced_path [of s B H] by auto
    moreover have "arena_inv s1"
      by (rule arena_inv_reset_traced [of "reset_begin s" B]) (use calculation assms(1) in simp_all)
    ultimately show ?thesis
      unfolding finish_reset_def by (simp only: Let_def) (intro fin len)
  next
    case False
    have u: "arena_inv (x\<lparr>arena := a, allocation_references := []\<rparr>)" if "arena_inv x" for x and a :: 'a
      using that by (simp add: arena_inv_def)
    have "arena_inv (s\<lparr>reset_active := True, bytes_since_reset := 0, capacities := []\<rparr>)"
      using assms(1) by (simp add: arena_inv_def)
    then show ?thesis
      using False assms(1,3) u [OF len] fin
      by (auto simp: thaw_arena_reset_def reset_guard_acquire_def Let_def split: if_splits)
  qed
qed

end
