(* ===== verification/Arena_Agreement.thy ===== *)
theory Arena_Agreement
  imports Arena_Theorems
begin

text \<open>
  The agreement of the two marking loops. The snapshot copies the settled table record by record
  and merges the edges of current allocation incarnations into the side references; on a state
  whose edges belong to the allocation their owner address lies in, marking the copy gives the
  allocations, owners and generations that the reset keeps.
\<close>

subsection \<open>The copied table\<close>

definition snapshot_of :: "memory \<Rightarrow> usize \<Rightarrow> alloc_record \<Rightarrow> allocation_snapshot" where
  "snapshot_of m b r = \<lparr>snap_id = \<lparr>id_base = b, id_serial = rec_serial r\<rparr>, snap_size = rec_size r,
     snap_generation = rec_generation r, snap_pointer_words = pointer_words m b (rec_size r)\<rparr>"

lemma snapshot_generation: "snap_generation (snapshot_of m b r) = rec_generation r"
  by (simp add: snapshot_of_def)

lemma copy_allocations_Cons:
  "copy_allocations m ((b, r) # rest) copied =
     (if rec_serial r = 0 then Inl IdentityUnavailable
      else copy_allocations m rest (bt_insert b (snapshot_of m b r) copied))"
  by (simp add: snapshot_of_def)

lemma copy_allocations_result:
  "copy_allocations m t copied = Inr allocs \<Longrightarrow> bt_ok copied \<Longrightarrow> bt_ok t \<Longrightarrow>
   bt_ok allocs \<and> (\<forall>(b, r) \<in> set t. rec_serial r \<noteq> 0) \<and>
   (\<forall>k. bt_get allocs k =
     (case bt_get t k of Some r \<Rightarrow> Some (snapshot_of m k r) | None \<Rightarrow> bt_get copied k))"
proof (induction t arbitrary: copied)
  case Nil
  then show ?case by (simp add: bt_get_def)
next
  case (Cons e rest)
  obtain b r where e: "e = (b, r)" by (cases e)
  have ok: "bt_ok rest" "bt_get rest b = None"
    using Cons.prems(3) bt_get_None_less [of "(b, r)" rest b] e by (auto simp: bt_ok_Cons')
  have nz: "rec_serial r \<noteq> 0" using Cons.prems(1) e by (auto split: if_splits)
  have run: "copy_allocations m rest (bt_insert b (snapshot_of m b r) copied) = Inr allocs"
    using Cons.prems(1) nz unfolding e copy_allocations_Cons by simp
  have "bt_ok (bt_insert b (snapshot_of m b r) copied)" using Cons.prems(2) by (simp add: btree_simps)
  note IH = Cons.IH [OF run this ok(1)]
  have "bt_get allocs k =
      (case bt_get (e # rest) k of Some r \<Rightarrow> Some (snapshot_of m k r) | None \<Rightarrow> bt_get copied k)" for k
    using IH [THEN conjunct2, THEN conjunct2, rule_format, of k] ok(2)
    by (cases "b = k") (simp_all add: e bt_get_Cons btree_simps split: option.split)
  then show ?case using IH nz e by auto
qed

lemma floor_transfer:
  assumes "bt_ok t" "bt_ok u" "\<And>k. bt_get u k = map_option (g k) (bt_get t k)"
  shows "bt_floor u p = map_option (\<lambda>(b, r). (b, g b r)) (bt_floor t p)"
proof (cases "bt_floor t p")
  case None
  then have "bt_floor u p = None"
    unfolding bt.floor_eq_None_iff [OF assms(1)] bt.floor_eq_None_iff [OF assms(2)] assms(3) by simp
  then show ?thesis using None by simp
next
  case (Some e)
  obtain b r where e: "e = (b, r)" by (cases e)
  then have "bt_get t b = Some r \<and> b \<le> p \<and> (\<forall>k. k \<le> p \<longrightarrow> bt_get t k \<noteq> None \<longrightarrow> k \<le> b)"
    using Some bt.floor_eq_Some_iff [OF assms(1)] by simp
  then have "bt_floor u p = Some (b, g b r)"
    unfolding bt.floor_eq_Some_iff [OF assms(2)] using assms(3) by auto
  then show ?thesis using Some e by simp
qed

subsection \<open>The merged edges\<close>

lemma merge_edges_get:
  "set (or_default (bt_get (merge_edges allocs edges refs) p)) =
   set (or_default (bt_get refs p)) \<union>
   (\<Union>((i, q), cs) \<in> {e \<in> set edges. snd (fst e) = p \<and> edge_is_current allocs (fst (fst e))}. set cs)"
proof (induction allocs edges refs rule: merge_edges.induct)
  case (2 allocs i owner cs edges refs)
  let ?S = "\<lambda>es. {e \<in> set es. snd (fst e) = p \<and> edge_is_current allocs (fst (fst e))}"
  have "?S (((i, owner), cs) # edges) =
      (if owner = p \<and> edge_is_current allocs i then insert ((i, owner), cs) (?S edges) else ?S edges)"
    by auto
  then show ?case
    using 2 by (cases "owner = p"; cases "edge_is_current allocs i") (auto simp: btree_simps)
qed simp

text \<open>Every edge of a current incarnation is owned by an address inside its allocation.\<close>

definition edges_local :: "'b thread_state \<Rightarrow> bool" where
  "edges_local s \<longleftrightarrow>
     (\<forall>((identity, owner), _) \<in> set (allocation_references s). \<forall>r.
        bt_get (settled s) (id_base identity) = Some r \<longrightarrow> rec_serial r = id_serial identity \<longrightarrow>
        containing (settled s) owner = Some (id_base identity, r))"

subsection \<open>The two loops agree\<close>

lemma snapshot_fields:
  assumes "snapshot_native_graph s = (Inr sn, s1)" "bt_ok (allocations s)"
  shows "bt_ok (ng_allocations sn)"
    "\<And>k. bt_get (ng_allocations sn) k = map_option (snapshot_of (mem s) k) (bt_get (settled s) k)"
    "\<And>b r. bt_get (settled s) b = Some r \<Longrightarrow> rec_serial r \<noteq> 0"
    "ng_references sn = merge_edges (ng_allocations sn) (allocation_references s) (references s)"
    "set (ng_root_values sn @ ng_root_slots sn @ map fst (ng_pinned_counts sn)) = heap_roots s"
proof -
  have copy: "copy_allocations (mem s) (settled s) [] = Inr (ng_allocations sn)"
    and rest: "ng_references sn = merge_edges (ng_allocations sn) (allocation_references s) (references s)"
      "ng_root_values sn = map (read_usize (mem s)) (roots s)" "ng_root_slots sn = roots s"
      "ng_pinned_counts sn = pinned s"
    using assms(1)
    by (auto simp: snapshot_native_graph_def Let_def settled_def split: sum.splits option.splits)
  have ok: "bt_ok (settled s)" by (rule settled_ok [OF assms(2)])
  note res = copy_allocations_result [OF copy _ ok]
  show "bt_ok (ng_allocations sn)" using res by (simp add: bt_ok_def)
  show "bt_get (ng_allocations sn) k = map_option (snapshot_of (mem s) k) (bt_get (settled s) k)" for k
    using res by (auto simp: bt_ok_def bt_get_def split: option.split)
  show "bt_get (settled s) b = Some r \<Longrightarrow> rec_serial r \<noteq> 0" for b r
    using res ok by (auto simp: bt_ok_def bt_get_def dest!: map_of_SomeD)
  show "ng_references sn = merge_edges (ng_allocations sn) (allocation_references s) (references s)"
    by (rule rest(1))
  show "set (ng_root_values sn @ ng_root_slots sn @ map fst (ng_pinned_counts sn)) = heap_roots s"
    by (auto simp: rest heap_roots_def)
qed

lemma snapshot_start:
  assumes "snapshot_native_graph s = (Inr sn, s1)" "bt_ok (allocations s)"
  shows "snap_start sn p = map_option fst (containing (settled s) p)"
  using floor_transfer [OF settled_ok [OF assms(2)] snapshot_fields(1,2) [OF assms], of p]
  by (auto simp: snap_start_def containing_def snapshot_of_def split: option.split)

lemma current_edges:
  assumes "snapshot_native_graph s = (Inr sn, s1)" "arena_inv s" "edges_local s"
  shows "(\<Union>((i, q), cs) \<in> {e \<in> set (allocation_references s).
            snd (fst e) = p \<and> edge_is_current (ng_allocations sn) (fst (fst e))}. set cs) =
    (case containing (settled s) p of None \<Rightarrow> {}
     | Some (b, r) \<Rightarrow> set (or_default (hm_get (allocation_references s) (\<lparr>id_base = b, id_serial = rec_serial r\<rparr>, p))))"
    (is "?L = ?R")
proof -
  have ok: "bt_ok (allocations s)" and dis: "distinct (map fst (allocation_references s))"
    using assms(2) by (auto simp: arena_inv_def)
  have cur: "edge_is_current (ng_allocations sn) i \<longleftrightarrow>
      (\<exists>r. bt_get (settled s) (id_base i) = Some r \<and> rec_serial r = id_serial i)" for i
    using snapshot_fields(2) [OF assms(1) ok, of "id_base i"]
    by (cases i) (auto simp: edge_is_current_def snapshot_of_def split: option.split)
  have key: "containing (settled s) p = Some (id_base i, r) \<and> rec_serial r = id_serial i"
    if "((i, p), cs) \<in> set (allocation_references s)" "bt_get (settled s) (id_base i) = Some r"
      "rec_serial r = id_serial i" for i cs r
    using that assms(3) unfolding edges_local_def by fastforce
  have "c \<in> ?R" if c: "c \<in> ?L" for c
  proof -
    obtain i cs where e: "((i, p), cs) \<in> set (allocation_references s)" "c \<in> set cs"
        "edge_is_current (ng_allocations sn) i" using c by auto
    then obtain r where "containing (settled s) p = Some (id_base i, r)" "rec_serial r = id_serial i"
      using cur key by blast
    moreover have "hm_get (allocation_references s) (i, p) = Some cs"
      using e(1) dis by (simp add: hm_get_def)
    ultimately show ?thesis using e(2) by (cases i) auto
  qed
  moreover have "c \<in> ?L" if c: "c \<in> ?R" for c
  proof -
    obtain b r where br: "containing (settled s) p = Some (b, r)"
        "c \<in> set (or_default (hm_get (allocation_references s) (\<lparr>id_base = b, id_serial = rec_serial r\<rparr>, p)))"
      using c by (auto split: option.splits)
    let ?i = "\<lparr>id_base = b, id_serial = rec_serial r\<rparr>"
    obtain cs where cs: "((?i, p), cs) \<in> set (allocation_references s)" "c \<in> set cs"
      using br(2) map_of_SomeD [of "allocation_references s"]
      by (cases "hm_get (allocation_references s) (?i, p)") (auto simp: hm_get_def)
    have "edge_is_current (ng_allocations sn) ?i"
      unfolding cur using containing_get [OF settled_ok [OF ok] br(1)] by simp
    then show ?thesis using cs by fastforce
  qed
  ultimately show ?thesis by blast
qed

lemma snapshot_succ:
  assumes "snapshot_native_graph s = (Inr sn, s1)" "arena_inv s" "edges_local s"
  shows "sm.succ sn p = heap_succ s p"
proof -
  have ok: "bt_ok (allocations s)" using assms(2) by (auto simp: arena_inv_def)
  note f = snapshot_fields [OF assms(1) ok]
  have wf: "wf_snapshot sn = sn" using f(1) by (simp add: wf_snapshot_def)
  have "set (snap_children sn p) = set (or_default (bt_get (references s) p)) \<union>
      (case containing (settled s) p of None \<Rightarrow> {}
       | Some (b, r) \<Rightarrow> set (or_default (hm_get (allocation_references s) (\<lparr>id_base = b, id_serial = rec_serial r\<rparr>, p))))"
    unfolding snap_children_def f(4) merge_edges_get current_edges [OF assms] ..
  moreover have "set (snap_words sn b) = set (pointer_words (mem s) b (rec_size r)) \<and> rec_serial r \<noteq> 0"
    if "containing (settled s) p = Some (b, r)" for b r
    using f(2) [of b] f(3) [of b r] containing_get [OF settled_ok [OF ok] that]
    by (simp add: snap_words_def snapshot_of_def)
  ultimately show ?thesis
    using sm.succ_def [of sn p] unfolding wf heap_succ_def snapshot_start [OF assms(1) ok]
    by (auto split: option.split)
qed

lemma mark_loop_generations:
  "retained_generations m = {snap_generation a | b a. b \<in> allocation_starts m \<and> bt_get (ng_allocations sn) b = Some a}
   \<Longrightarrow> bt_ok (ng_allocations sn) \<Longrightarrow>
   retained_generations (mark_loop sn ps m) =
     {snap_generation a | b a. b \<in> allocation_starts (mark_loop sn ps m) \<and> bt_get (ng_allocations sn) b = Some a}"
proof (induction sn ps m rule: mark_loop.induct)
  case (2 sn p ps m)
  show ?case
  proof (cases "p \<in> owner_nodes m")
    case True
    then show ?thesis using 2 by simp
  next
    case new: False
    show ?thesis
    proof (cases "bt_floor (ng_allocations sn) p")
      case None
      then show ?thesis using "2.IH"(2) [OF new refl refl None] "2.prems" new by (simp add: Let_def)
    next
      case (Some e)
      obtain b a where e: "e = (b, a)" by (cases e)
      have get: "bt_get (ng_allocations sn) b = Some a"
        using bt_floor_sound [OF "2.prems"(2)] Some e by blast
      show ?thesis
      proof (cases "snap_size a \<le> p - b \<or> b \<in> allocation_starts m")
        case True
        then show ?thesis
          using "2.IH"(3) [OF new refl refl Some e [symmetric]] "2.prems" new Some e by (simp add: Let_def)
      next
        case False
        have "insert (snap_generation a) (retained_generations m) =
            {snap_generation a' | b' a'. b' \<in> insert b (allocation_starts m) \<and> bt_get (ng_allocations sn) b' = Some a'}"
          unfolding "2.prems"(1) using get by auto
        then show ?thesis
          using "2.IH"(4) [OF new refl refl Some e [symmetric]] "2.prems"(2) new Some e False by (simp add: Let_def)
      qed
    qed
  qed
qed simp

lemma mark_snapshot_result:
  assumes "snapshot_native_graph s = (Inr sn, s1)" "arena_inv s" "edges_local s"
  shows "allocation_starts (mark_native_graph sn []) = live_bases s"
    "owner_nodes (mark_native_graph sn []) = Collect (reachable_address s)"
    "retained_generations (mark_native_graph sn []) = live_generations (reset_env s) (live_bases s)"
proof -
  have ok: "bt_ok (allocations s)" using assms(2) by (auto simp: arena_inv_def)
  note f = snapshot_fields [OF assms(1) ok]
  have wf: "wf_snapshot sn = sn" using f(1) by (simp add: wf_snapshot_def)
  let ?st = "rev (ng_root_values sn @ ng_root_slots sn @ map fst (ng_pinned_counts sn) @ [])"
  have succ: "sm.succ sn = heap_succ s" using snapshot_succ [OF assms] by blast
  have st: "set ?st = heap_roots s" unfolding f(5) [symmetric] by auto
  have "snap_run sn ?st {} {} =
      ({b. \<exists>p. reach (sm.succ sn) (set ?st) p \<and> snap_start sn p = Some b}, Collect (reach (sm.succ sn) (set ?st)))"
    using sm.run_reach [of sn ?st] wf by simp
  then have run: "snap_run sn ?st {} {} = (live_bases s, Collect (reachable_address s))"
    unfolding succ st live_bases_def reachable_address_def [symmetric] snapshot_start [OF assms(1) ok] by auto
  then show st1: "allocation_starts (mark_native_graph sn []) = live_bases s"
    and "owner_nodes (mark_native_graph sn []) = Collect (reachable_address s)"
    by (simp_all add: snap_run_def Let_def mark_native_graph_def)
  have "retained_generations (mark_native_graph sn []) =
     {snap_generation a | b a. b \<in> live_bases s \<and> bt_get (ng_allocations sn) b = Some a}"
    using mark_loop_generations [of "\<lparr>allocation_starts = {}, owner_nodes = {}, retained_generations = {}\<rparr>" sn ?st]
      st1 f(1) by (simp add: mark_native_graph_def)
  moreover have "{snap_generation a | b a. b \<in> L \<and> map_option (snapshot_of m b) (bt_get t b) = Some a} =
      {rec_generation r | b r. b \<in> L \<and> bt_get t b = Some r}" for L m t
    using snapshot_generation by (auto, metis, metis)
  ultimately show "retained_generations (mark_native_graph sn []) = live_generations (reset_env s) (live_bases s)"
    unfolding live_generations_result [OF ok] f(2) by simp
qed

end
