(* ===== verification/Arena_Properties.thy ===== *)
theory Arena_Properties
  imports Arena_Agreement
begin

text \<open>
  The arena as a state machine, and its properties: every entry point of the crate, and the
  writes a program makes into its memory between two calls, is a step; the states reachable from
  a fresh thread satisfy \<open>arena_inv\<close>.
\<close>

subsection \<open>Steps\<close>

inductive arena_step ::
    "'b bump_ops \<Rightarrow> (nat \<Rightarrow> bool \<Rightarrow> 'b thread_state \<Rightarrow> 'b thread_state) \<Rightarrow>
     'b thread_state \<Rightarrow> 'b thread_state \<Rightarrow> bool"
  for B H where
  step_alloc: "arena_step B H s (snd (thaw_arena_alloc B sz align s))"
| step_alloc_capacity: "arena_step B H s (snd (alloc_with_capacity B sz align s))"
| step_write: "arena_step B H s (s\<lparr>mem := m\<rparr>)"
| step_enable_tracing: "arena_step B H s (thaw_arena_enable_tracing s)"
| step_root_new: "arena_step B H s (snd (arena_root_new p s))"
| step_root_drop: "arena_step B H s (arena_root_drop p s)"
| step_register_root: "arena_step B H s (thaw_arena_register_root slot s)"
| step_unregister_root: "arena_step B H s (snd (thaw_arena_unregister_root slot s))"
| step_replace_reference: "arena_step B H s (replace_reference owner previous nxt s)"
| step_forget_references: "arena_step B H s (forget_references owner s)"
| step_replace_edge: "arena_step B H s (snd (replace_allocation_reference i owner previous nxt s))"
| step_remove_edge: "arena_step B H s (remove_allocation_reference i owner child s)"
| step_contains: "arena_step B H s (snd (thaw_arena_contains_allocation p s))"
| step_identity: "arena_step B H s (snd (allocation_identity p s))"
| step_span: "arena_step B H s (snd (allocation_span_identity p n align s))"
| step_snapshot: "arena_step B H s (snd (snapshot_native_graph s))"
| step_reset_hook: "arena_step B H s (register_reset_hook h s)"
| step_metadata_hook: "arena_step B H s (register_metadata_reset_hook h s)"
| step_reset: "thaw_arena_reset B H s = Some s' \<Longrightarrow> arena_step B H s s'"
| step_reset_if_grown: "thaw_arena_reset_if_grown B H s = Some s' \<Longrightarrow> arena_step B H s s'"

inductive arena_reachable ::
    "'b bump_ops \<Rightarrow> (nat \<Rightarrow> bool \<Rightarrow> 'b thread_state \<Rightarrow> 'b thread_state) \<Rightarrow> 'b thread_state \<Rightarrow> bool"
  for B H where
  reachable_init: "arena_reachable B H (init_state B m)"
| reachable_step: "arena_reachable B H s \<Longrightarrow> arena_step B H s s' \<Longrightarrow> arena_reachable B H s'"

lemma arena_inv_frame [simp]:
  "arena_inv (s\<lparr>mem := m\<rparr>) = arena_inv s" "arena_inv (s\<lparr>tracing := b\<rparr>) = arena_inv s"
  "arena_inv (s\<lparr>capacities := c\<rparr>) = arena_inv s" "arena_inv (s\<lparr>reset_hooks := h\<rparr>) = arena_inv s"
  "arena_inv (s\<lparr>metadata_reset_hooks := h\<rparr>) = arena_inv s"
  "arena_inv (s\<lparr>next_auto_reset := n\<rparr>) = arena_inv s"
  by (simp_all add: arena_inv_def)

lemma arena_inv_contains: "arena_inv s \<Longrightarrow> arena_inv (snd (thaw_arena_contains_allocation p s))"
  using arena_inv_locate [of s p]
  by (simp add: thaw_arena_contains_allocation_def contains_allocation_def case_prod_beta)

lemma arena_inv_alloc_capacity: "arena_inv s \<Longrightarrow> arena_inv (snd (alloc_with_capacity B sz align s))"
  using arena_inv_alloc [of s B sz align] by (simp add: alloc_with_capacity_def case_prod_beta)

lemma arena_inv_reset_if_grown:
  assumes "arena_inv s" "hooks_keep_invariant H" "thaw_arena_reset_if_grown B H s = Some s'"
  shows "arena_inv s'"
  using assms(1,3) arena_inv_reset [OF assms(1,2), of B]
  by (auto simp: thaw_arena_reset_if_grown_def Let_def split: if_splits)

lemma arena_step_inv:
  assumes "hooks_keep_invariant H" "arena_step B H s s'" "arena_inv s"
  shows "arena_inv s'"
  using assms(2,3)
proof cases
  case step_reset
  then show ?thesis using arena_inv_reset assms by blast
next
  case step_reset_if_grown
  then show ?thesis using arena_inv_reset_if_grown assms by blast
qed (simp_all add: arena_inv_alloc arena_inv_alloc_capacity arena_inv_root_new arena_inv_root_drop
    arena_inv_roots arena_inv_references arena_inv_replace_allocation_reference
    arena_inv_remove_allocation_reference arena_inv_contains arena_inv_identity arena_inv_span
    arena_inv_snapshot thaw_arena_enable_tracing_def register_reset_hook_def
    register_metadata_reset_hook_def)

lemma reachable_arena_inv:
  "arena_reachable B H s \<Longrightarrow> hooks_keep_invariant H \<Longrightarrow> arena_inv s"
  by (induction rule: arena_reachable.induct) (auto simp: arena_inv_init dest: arena_step_inv)

lemma reset_total: "arena_inv s \<Longrightarrow> \<exists>s'. thaw_arena_reset B H s = Some s'"
  using reset_traced_result [of "reset_begin s" B]
  by (cases "reset_active s"; cases "tracing s")
     (auto simp: reset_traced_path, auto simp: thaw_arena_reset_def reset_guard_acquire_def Let_def)

lemma arena_inv_tables: "arena_inv s \<Longrightarrow> bt_ok (allocations s)"
  by (simp add: arena_inv_def)

lemma arena_inv_settled: "arena_inv s \<Longrightarrow> bt_ok (settled s)"
  by (simp add: arena_inv_tables settled_ok)

lemma containing_disjoint:
  assumes "disjoint_records t" "bt_ok t" "(b, r) \<in> set t" "b \<le> q" "q < b + rec_size r"
  shows "containing t q = Some (b, r)"
proof -
  have "bt_get t k = None" if k: "b < k" "k \<le> q" for k
  proof (rule ccontr)
    assume "bt_get t k \<noteq> None"
    then obtain r' where kr: "(k, r') \<in> set t" using bt_get_in_set [OF assms(2)] by auto
    obtain i j where ij: "i < length t" "t ! i = (b, r)" "j < length t" "t ! j = (k, r')"
      using assms(3) kr by (meson in_set_conv_nth)
    have "i < j"
      using sorted_wrt_nth_less [OF assms(2) [unfolded bt_ok_def], of j i] ij k(1)
      by (metis fst_conv length_map linorder_neqE_nat nth_map order_less_asym)
    then have "b + rec_size r \<le> k"
      using sorted_wrt_nth_less [OF assms(1) [unfolded disjoint_records_def], of i j] ij by simp
    then show False using k assms(5) by simp
  qed
  then show ?thesis
    using assms bt_get_in_set [OF assms(2)] by (simp add: containing_Some_iff [OF assms(2)])
qed

subsection \<open>A concrete bump allocator\<close>

text \<open>A bump allocator over one unbounded region: the state is the next free address, which a
  reset leaves, so that no address is ever handed out twice.\<close>

definition line_bump :: "usize bump_ops" where
  "line_bump = \<lparr>bump_new = 1024,
     bump_try_alloc = (\<lambda>a sz align. let p = align * ((a + align - 1) div align) in Some (p, p + max sz 1)),
     bump_reset = (\<lambda>a. a)\<rparr>"

definition no_hooks :: "nat \<Rightarrow> bool \<Rightarrow> 'b thread_state \<Rightarrow> 'b thread_state" where
  "no_hooks n t s = s"

text \<open>Two allocations of sixteen bytes, the first one pinned.\<close>

definition two_blocks :: "usize thread_state" where
  "two_blocks = snd (arena_root_new 1024 (snd (thaw_arena_alloc line_bump 16 8
     (snd (thaw_arena_alloc line_bump 16 8 (thaw_arena_enable_tracing (init_state line_bump (\<lambda>_. 0))))))))"

lemma no_hooks_ok: "hooks_only_allocate no_hooks" "hooks_keep_invariant no_hooks"
  by (simp_all add: hooks_only_allocate_def hooks_keep_invariant_def no_hooks_def)

lemma two_blocks_reachable: "arena_reachable line_bump no_hooks two_blocks"
  unfolding two_blocks_def
  by (intro reachable_step [OF _ step_root_new] reachable_step [OF _ step_alloc]
      reachable_step [OF _ step_enable_tracing] reachable_init)

lemma two_blocks_inv: "arena_inv two_blocks"
  by (rule reachable_arena_inv [OF two_blocks_reachable no_hooks_ok(2)])

lemma eight_is_power: "is_power_of_two 8"
  unfolding is_power_of_two_def list_ex_iff by (rule bexI [of _ 3]) simp_all

lemma two_blocks_settled:
  "settled two_blocks =
    [(1024, \<lparr>rec_size = 16, rec_generation = 0, rec_serial = 1\<rparr>),
     (1040, \<lparr>rec_size = 16, rec_generation = 0, rec_serial = 2\<rparr>)]"
  by (simp add: two_blocks_def settled_def flush_pending_def into_record_def thaw_arena_alloc_def
      arena_root_new_def thaw_arena_enable_tracing_def init_state_def line_bump_def layout_ok_def
      eight_is_power checked_add_def usize_limit_def Let_def)

lemma two_blocks_fields:
  "tracing two_blocks" "\<not> reset_active two_blocks" "pinned two_blocks = [(1024, 1)]" "roots two_blocks = []"
  "references two_blocks = []" "allocation_references two_blocks = []" "retained two_blocks = []"
  "next_allocation_id two_blocks = 2" "graph_epoch two_blocks = Some 2" "bytes_since_reset two_blocks = 32"
  "next_auto_reset two_blocks = 1048576"
  by (simp_all add: two_blocks_def thaw_arena_alloc_def AUTO_RESET_FLOOR_def saturating_add_def
      arena_root_new_def thaw_arena_enable_tracing_def init_state_def line_bump_def layout_ok_def
      eight_is_power checked_add_def usize_limit_def Let_def bt_get_def)

lemma two_blocks_containing:
  "containing (settled two_blocks) 1030 = Some (1024, \<lparr>rec_size = 16, rec_generation = 0, rec_serial = 1\<rparr>)"
  "containing (settled two_blocks) 1024 = Some (1024, \<lparr>rec_size = 16, rec_generation = 0, rec_serial = 1\<rparr>)"
  "containing (settled two_blocks) 1045 = Some (1040, \<lparr>rec_size = 16, rec_generation = 0, rec_serial = 2\<rparr>)"
  by (simp_all add: two_blocks_settled containing_def)

lemma two_blocks_root: "reachable_address two_blocks 1024"
  unfolding reachable_address_def
  by (rule reach.intros(1)) (simp add: heap_roots_def two_blocks_fields)

subsection \<open>Properties of the reset\<close>

text \<open>C1: A traced reset never frees a reachable value. Whatever address a program can reach from a
  root slot, a pin, a side reference, an edge of the current incarnation or a pointer word of a
  reachable allocation, the allocation holding it is still in the table after the reset, at the
  same address, with its size and its identity, and its bump generation is among the retained
  ones.\<close>

theorem reset_keeps_reachable:
  assumes "arena_inv s" "tracing s" "\<not> reset_active s" "hooks_only_allocate H"
    and "reachable_address s p" "containing (settled s) p = Some (b, r)"
  shows "\<exists>s' r'. thaw_arena_reset B H s = Some s' \<and> bt_get (settled s') b = Some r' \<and>
    rec_size r' = rec_size r \<and> rec_serial r' = rec_serial r \<and>
    rec_generation r' < length (retained s') \<and>
    retained s' ! rec_generation r' = (retained s @ [arena s]) ! rec_generation r"
proof -
  have b: "b \<in> live_bases s" using assms(5,6) by (auto simp: live_bases_def)
  have g: "bt_get (settled s) b = Some r"
    by (rule containing_get [OF arena_inv_settled [OF assms(1)] assms(6)])
  show ?thesis
    by (rule reset_facts [OF assms(1-4), of B]) (use b g in \<open>force simp: generation_list_def\<close>)
qed

theorem reset_keeps_reachable_witness:
  "\<exists>s' r'. thaw_arena_reset line_bump no_hooks two_blocks = Some s' \<and> bt_get (settled s') 1024 = Some r' \<and>
    rec_size r' = 16 \<and> rec_serial r' = 1 \<and> rec_generation r' < length (retained s') \<and>
    retained s' ! rec_generation r' = (retained two_blocks @ [arena two_blocks]) ! 0"
  using reset_keeps_reachable [OF two_blocks_inv two_blocks_fields(1,2) no_hooks_ok(1) two_blocks_root
      two_blocks_containing(2), of line_bump] by simp

text \<open>C2: A traced reset reclaims exactly the unreachable allocations. When the allocations do not
  overlap, \<open>was_reclaimed\<close> answers yes for an address after the reset exactly when it lies in an
  allocation that held no reachable address before it.\<close>

theorem reset_reclaims_exactly:
  assumes "arena_inv s" "tracing s" "\<not> reset_active s" "hooks_only_allocate H"
    and "disjoint_records (settled s)"
  shows "\<exists>s'. thaw_arena_reset B H s = Some s' \<and>
    (\<forall>q. was_reclaimed s' q = (\<exists>b r. containing (settled s) q = Some (b, r) \<and> b \<notin> live_bases s))"
proof (rule reset_facts [OF assms(1-4), of B])
  fix s' f
  assume res: "thaw_arena_reset B H s = Some s'"
    and rc: "reclaimed s' = map (\<lambda>e. (fst e, fst e + rec_size (snd e)))
        (filter (\<lambda>e. fst e \<notin> live_bases s) (settled s))"
  have ok: "bt_ok (settled s)" by (rule arena_inv_settled [OF assms(1)])
  have "was_reclaimed s' q = (\<exists>b r. containing (settled s) q = Some (b, r) \<and> b \<notin> live_bases s)" for q
  proof
    assume "was_reclaimed s' q"
    then obtain b r where "(b, r) \<in> set (settled s)" "b \<notin> live_bases s" "b \<le> q" "q < b + rec_size r"
      using was_reclaimed_sound [of s' q] by (auto simp: rc)
    then show "\<exists>b r. containing (settled s) q = Some (b, r) \<and> b \<notin> live_bases s"
      using containing_disjoint [OF assms(5) ok] by blast
  next
    assume "\<exists>b r. containing (settled s) q = Some (b, r) \<and> b \<notin> live_bases s"
    then obtain b r where "(b, r) \<in> set (settled s)" "b \<le> q" "q < b + rec_size r" "b \<notin> live_bases s"
      using bt_get_in_set [OF ok] by (auto simp: containing_Some_iff [OF ok])
    then have "(b, b + rec_size r) \<in> set (reclaimed s')" "b \<le> q" "q < b + rec_size r"
      by (auto simp: rc image_iff intro!: bexI [of _ "(b, r)"])
    then show "was_reclaimed s' q"
      using was_reclaimed_complete [of s'] reclaimed_ranges_disjoint [OF assms(5)]
        reclaimed_ranges_sorted [OF ok] unfolding rc by blast
  qed
  then show ?thesis using res by blast
qed

theorem reset_reclaims_exactly_witness:
  "\<exists>s'. thaw_arena_reset line_bump no_hooks two_blocks = Some s' \<and>
    (\<forall>q. was_reclaimed s' q = (\<exists>b r. containing (settled two_blocks) q = Some (b, r) \<and> b \<notin> live_bases two_blocks))"
  by (rule reset_reclaims_exactly [OF two_blocks_inv two_blocks_fields(1,2) no_hooks_ok(1)])
     (simp add: two_blocks_settled disjoint_records_def)

text \<open>C3: Every state a thread can reach, by any sequence of allocations, memory writes, pins,
  registrations, reference updates, lookups, snapshots and resets, satisfies the arena invariant:
  ordered tables, distinct roots and edge keys, non-empty records with a valid generation and an
  issued serial, positive pin counts, sorted reclaimed ranges.\<close>

theorem arena_invariant:
  assumes "hooks_keep_invariant H" "arena_reachable B H s"
  shows "arena_inv s"
  by (rule reachable_arena_inv [OF assms(2,1)])

theorem arena_invariant_witness: "arena_inv two_blocks"
  by (rule arena_invariant [OF no_hooks_ok(2) two_blocks_reachable])

text \<open>C10: A reset never panics: in every reachable state each generation that a surviving record
  names is present in the renumbering that \<open>mapping[&record.generation]\<close> indexes, and the marking
  loop terminates.\<close>

theorem reset_never_panics:
  assumes "hooks_keep_invariant H" "arena_reachable B H s"
  shows "(\<exists>s'. thaw_arena_reset B H s = Some s') \<and> (\<exists>s'. thaw_arena_reset_if_grown B H s = Some s')"
  using reset_total [OF reachable_arena_inv [OF assms(2,1)], of B H]
  by (auto simp: thaw_arena_reset_if_grown_def)

theorem reset_never_panics_witness:
  "(\<exists>s'. thaw_arena_reset line_bump no_hooks two_blocks = Some s') \<and>
   (\<exists>s'. thaw_arena_reset_if_grown line_bump no_hooks two_blocks = Some s')"
  using reset_never_panics [OF no_hooks_ok(2) two_blocks_reachable] by simp

text \<open>C9: Marking a snapshot agrees with the reset. On a state whose edges belong to the allocation
  their owner address lies in, \<open>mark_native_graph\<close> on the copied graph marks the same allocations,
  visits the same owner addresses and names the same bump generations as the in-place loop of
  \<open>thaw_arena_reset\<close>.\<close>

theorem snapshot_mark_agrees:
  assumes "arena_inv s" "edges_local s" "snapshot_native_graph s = (Inr sn, s1)"
  shows "(allocation_starts (mark_native_graph sn []), owner_nodes (mark_native_graph sn [])) =
      reset_mark (reset_env s) (reset_stack s) {} {} \<and>
    retained_generations (mark_native_graph sn []) =
      live_generations (reset_env s) (fst (reset_mark (reset_env s) (reset_stack s) {} {}))"
  using mark_snapshot_result [OF assms(3,1,2)] reset_mark_result [OF arena_inv_tables [OF assms(1)]] by simp

theorem snapshot_mark_agrees_witness:
  "\<exists>sn s1. snapshot_native_graph two_blocks = (Inr sn, s1) \<and>
    (allocation_starts (mark_native_graph sn []), owner_nodes (mark_native_graph sn [])) =
      reset_mark (reset_env two_blocks) (reset_stack two_blocks) {} {}"
proof -
  have "\<exists>sn s1. snapshot_native_graph two_blocks = (Inr sn, s1)"
    using two_blocks_settled two_blocks_fields(9)
    by (simp add: snapshot_native_graph_def settled_def Let_def)
  moreover have "edges_local two_blocks" by (simp add: edges_local_def two_blocks_fields)
  ultimately show ?thesis using snapshot_mark_agrees [OF two_blocks_inv] by blast
qed

subsection \<open>Properties of lookups, identities and pins\<close>

text \<open>\<open>locate_allocation\<close> answers as the settled table does, whether it scans the pending
  records or folds them into the table first, and it never changes what later lookups find.\<close>

theorem locate_refines:
  assumes "arena_inv s"
  shows "fst (locate_allocation p s) = containing (settled s) p \<and>
    settled (snd (locate_allocation p s)) = settled s"
  using locate_result [OF arena_inv_tables [OF assms]] by simp

theorem locate_refines_witness:
  "fst (locate_allocation 1030 two_blocks) = Some (1024, \<lparr>rec_size = 16, rec_generation = 0, rec_serial = 1\<rparr>)"
  using locate_refines [OF two_blocks_inv, of 1030] two_blocks_containing by simp

lemma identity_result:
  assumes "arena_inv s" "p \<noteq> 0" "tracing s"
  shows "fst (allocation_identity p s) =
    (case containing (settled s) p of
       None \<Rightarrow> None
     | Some (b, r) \<Rightarrow> if rec_serial r \<noteq> 0 then Some \<lparr>id_base = b, id_serial = rec_serial r\<rparr> else None)"
proof -
  have "fst (locate_allocation p s) = containing (settled s) p"
    by (rule locate_result [OF arena_inv_tables [OF assms(1)]])
  then show ?thesis
    using assms(2,3) by (cases "locate_allocation p s") (auto simp: allocation_identity_def split: option.split)
qed

lemma identity_serial_bound:
  assumes "arena_inv s" "fst (allocation_identity q s) = Some i"
  shows "id_serial i \<le> next_allocation_id s"
proof -
  have "q \<noteq> 0" "tracing s" using assms(2) by (auto simp: allocation_identity_def split: if_splits)
  then obtain b r where "containing (settled s) q = Some (b, r)" "i = \<lparr>id_base = b, id_serial = rec_serial r\<rparr>"
    using assms(2) identity_result [OF assms(1), of q] by (auto split: option.splits if_splits)
  then show ?thesis
    using records_okD [OF settled_records_ok [OF assms(1)]] containing_get [OF arena_inv_settled [OF assms(1)]]
    by fastforce
qed

text \<open>Identities are never reused. A traced allocation, while the serial counter is not
  exhausted, gets an identity that names its address and that differs from the identity of every
  address in the state before it, so an address handed out again after a reset is told apart from
  its earlier incarnation.\<close>

theorem alloc_identity_fresh:
  assumes "arena_inv s" "tracing s" "next_allocation_id s + 1 < 2 ^ 64"
    and "thaw_arena_alloc B sz align s = (p, s')" "p \<noteq> 0"
  shows "\<exists>i. fst (allocation_identity p s') = Some i \<and> id_base i = p \<and>
    (\<forall>q j. fst (allocation_identity q s) = Some j \<longrightarrow> id_serial j \<noteq> id_serial i)"
proof -
  let ?n = "next_allocation_id s + 1"
  have inv': "arena_inv s'" using arena_inv_alloc [OF assms(1), of B sz align] assms(4) by simp
  have s': "tracing s' \<and> settled s' =
      bt_insert p \<lparr>rec_size = max sz 1, rec_generation = length (retained s), rec_serial = ?n\<rparr> (settled s)"
    using assms by (auto simp: thaw_arena_alloc_def checked_add_def usize_limit_def settled_def into_record_def
        Let_def split: if_splits option.splits)
  then have "containing (settled s') p =
      Some (p, \<lparr>rec_size = max sz 1, rec_generation = length (retained s), rec_serial = ?n\<rparr>)"
    using containing_Some_iff [OF arena_inv_settled [OF inv'], of p p] by (simp add: btree_simps)
  then have "fst (allocation_identity p s') = Some \<lparr>id_base = p, id_serial = ?n\<rparr>"
    using identity_result [OF inv' assms(5)] s' by simp
  then show ?thesis using identity_serial_bound [OF assms(1)] by fastforce
qed

theorem alloc_identity_fresh_witness:
  "\<exists>p s' i. thaw_arena_alloc line_bump 16 8 two_blocks = (p, s') \<and>
    fst (allocation_identity p s') = Some i \<and> id_base i = p"
proof -
  obtain p s' where a: "thaw_arena_alloc line_bump 16 8 two_blocks = (p, s')" by fastforce
  then have "p \<noteq> 0"
    by (auto simp: thaw_arena_alloc_def line_bump_def layout_ok_def eight_is_power two_blocks_def
        arena_root_new_def thaw_arena_enable_tracing_def init_state_def Let_def)
  then show ?thesis
    using alloc_identity_fresh [OF two_blocks_inv two_blocks_fields(1) _ a] a two_blocks_fields(8) by auto
qed

text \<open>Dropping an \<open>ArenaRoot\<close> undoes its creation, for every address, counted or not: the
  whole state is as before, in particular every other pin keeps its count.\<close>

theorem root_drop_undoes_new:
  assumes "arena_inv s"
  shows "(case arena_root_new p s of (q, s1) \<Rightarrow> arena_root_drop q s1) = s"
proof -
  have ok: "bt_ok (pinned s)" and zero: "bt_get (pinned s) 0 = None"
    using assms pinned_get_pos [OF assms, of 0] by (cases "bt_get (pinned s) 0"; auto simp: arena_inv_def)+
  have "bt_remove p (bt_insert p c (pinned s)) = pinned s" if "bt_get (pinned s) p = None" for c
    using ok that by (intro bt_ok_ext) (auto simp: btree_simps)
  moreover have "bt_insert p c (bt_insert p d (pinned s)) = pinned s" if "bt_get (pinned s) p = Some c" for c d
    using ok that by (intro bt_ok_ext) (auto simp: btree_simps)
  ultimately show ?thesis
    using zero pinned_get_pos [OF assms, of p]
    by (auto simp: arena_root_new_def arena_root_drop_def btree_simps Let_def split: option.split)
qed

theorem root_drop_undoes_new_witness:
  "(case arena_root_new 1024 two_blocks of (q, s1) \<Rightarrow> arena_root_drop q s1) = two_blocks"
  by (rule root_drop_undoes_new [OF two_blocks_inv])

text \<open>\<open>allocation_span_identity\<close> accepts a byte range exactly when it is a non-empty, aligned
  range that starts at a non-null address, lies wholly inside one tracked allocation whose
  identity is available, and whose end does not overflow; it then returns the identity and the
  offset of the range.\<close>

theorem span_identity_exact:
  assumes "arena_inv s"
  shows "fst (allocation_span_identity p n align s) = Some (i, off) \<longleftrightarrow>
    p \<noteq> 0 \<and> n \<noteq> 0 \<and> is_power_of_two align \<and> align dvd p \<and> tracing s \<and>
    (\<exists>r. containing (settled s) p = Some (id_base i, r) \<and> rec_serial r = id_serial i \<and> id_serial i \<noteq> 0 \<and>
       p = id_base i + off \<and> off + n \<le> rec_size r \<and> off + n < 2 ^ 64)"
proof (cases "p = 0 \<or> n = 0 \<or> \<not> is_power_of_two align \<or> \<not> align dvd p \<or> \<not> tracing s")
  case True
  then show ?thesis by (auto simp: allocation_span_identity_def dvd_eq_mod_eq_0)
next
  case False
  obtain found s1 where l: "locate_allocation p s = (found, s1)" by fastforce
  have f: "found = containing (settled s) p"
    using locate_result [OF arena_inv_tables [OF assms], of p] l by simp
  have le: "b \<le> p" if "found = Some (b, r)" for b r
    using that f containing_Some_iff [OF arena_inv_settled [OF assms]] by simp
  show ?thesis
  proof (cases found)
    case None
    then show ?thesis using False l f by (simp add: allocation_span_identity_def dvd_eq_mod_eq_0)
  next
    case (Some e)
    obtain b r where e: "e = (b, r)" by (cases e)
    have bp: "b \<le> p" using le Some e by blast
    have g: "p \<noteq> 0" "n \<noteq> 0" "is_power_of_two align" "align dvd p" "tracing s" "align \<noteq> 0" "p mod align = 0"
      using False is_power_of_two_pos [of align] by auto
    have res: "fst (allocation_span_identity p n align s) =
        (if p - b + n < 2 ^ 64 \<and> p - b + n \<le> rec_size r \<and> rec_serial r \<noteq> 0
         then Some (\<lparr>id_base = b, id_serial = rec_serial r\<rparr>, p - b) else None)"
      using g l Some e bp
      by (simp add: allocation_span_identity_def checked_sub_def checked_add_def usize_limit_def)
    have c: "containing (settled s) p = Some (b, r)" using f Some e by simp
    obtain ib sn where i: "i = \<lparr>id_base = ib, id_serial = sn\<rparr>" by (cases i)
    show ?thesis unfolding res c i using g(1-5) bp by auto
  qed
qed

theorem span_identity_exact_witness:
  "fst (allocation_span_identity 1032 8 8 two_blocks) = Some (\<lparr>id_base = 1024, id_serial = 1\<rparr>, 8)"
  by (subst span_identity_exact [OF two_blocks_inv])
     (simp add: eight_is_power two_blocks_fields two_blocks_settled containing_def)

text \<open>A traced allocation is zeroed and recorded: every pointer word of the new block reads as
  zero, so a marking loop that scans it before the program writes to it keeps nothing alive
  through it, and no byte outside the block changes.\<close>

theorem alloc_zeroed:
  assumes "tracing s" "thaw_arena_alloc B sz align s = (p, s')" "layout_ok sz align"
    "bump_try_alloc B (arena s) sz align \<noteq> None"
  shows "set (pointer_words (mem s') p sz) \<subseteq> {0} \<and>
    (\<forall>a. (a < p \<or> p + sz \<le> a) \<longrightarrow> mem s' a = mem s a)"
proof -
  have m: "mem s' = write_zeros (mem s) p sz"
    using assms by (auto simp: thaw_arena_alloc_def Let_def split: option.splits)
  have "set (pointer_words (mem s') p sz) \<subseteq> {0}"
    unfolding m pointer_words_def by (auto simp: word_offsets_bound intro!: read_usize_zeros)
  moreover have "\<forall>a. (a < p \<or> p + sz \<le> a) \<longrightarrow> mem s' a = mem s a"
    unfolding m by (auto simp: write_zeros_def)
  ultimately show ?thesis ..
qed

theorem alloc_zeroed_witness:
  "\<exists>p s'. thaw_arena_alloc line_bump 16 8 two_blocks = (p, s') \<and> set (pointer_words (mem s') p 16) \<subseteq> {0}"
proof -
  obtain p s' where a: "thaw_arena_alloc line_bump 16 8 two_blocks = (p, s')" by fastforce
  have "set (pointer_words (mem s') p 16) \<subseteq> {0}"
    by (rule alloc_zeroed [OF two_blocks_fields(1) a, THEN conjunct1])
       (simp_all add: layout_ok_def eight_is_power line_bump_def Let_def)
  then show ?thesis using a by blast
qed

text \<open>\<open>thaw_arena_reset_if_grown\<close> touches nothing until tracing is on and the arena has handed
  out the threshold; once it resets, the next threshold is at least the floor of one mebibyte and
  at least twice the surviving bytes (or saturated), so that the marking cost stays proportional
  to the allocation volume.\<close>

theorem reset_if_grown_threshold:
  assumes "thaw_arena_reset_if_grown B H s = Some s'"
  shows "(\<not> tracing s \<or> bytes_since_reset s < next_auto_reset s) \<and> s' = s \<or>
    tracing s \<and> next_auto_reset s \<le> bytes_since_reset s \<and>
    next_auto_reset s' = max (2 ^ 20) (min (2 * (\<Sum>(_, r) \<leftarrow> allocations s'. rec_size r)) (2 ^ 64 - 1))"
proof (cases "\<not> tracing s \<or> bytes_since_reset s < next_auto_reset s")
  case True
  then show ?thesis using assms by (simp add: thaw_arena_reset_if_grown_def)
next
  case False
  then obtain s1 where "s' = s1\<lparr>next_auto_reset := max AUTO_RESET_FLOOR
      (saturating_mul (sum_list (map (\<lambda>(_, r). rec_size r) (allocations s1))) 2)\<rparr>"
    using assms by (auto simp: thaw_arena_reset_if_grown_def Let_def split: if_splits)
  then show ?thesis
    using False by (simp add: AUTO_RESET_FLOOR_def saturating_mul_def usize_limit_def mult.commute)
qed

theorem reset_if_grown_threshold_witness: "thaw_arena_reset_if_grown line_bump no_hooks two_blocks = Some two_blocks"
  using reset_if_grown_threshold [of line_bump no_hooks two_blocks two_blocks] two_blocks_fields(1,10,11)
  by (simp add: thaw_arena_reset_if_grown_def)

end
