(* ===== verification/Wtf8.thy ===== *)
theory Wtf8
  imports Thaw_Prelude
begin

text \<open>
  The WTF-8 codec of \<open>crates/thaw-arena/src/strings.rs\<close>: native strings are UTF-8 extended with the
  three-byte form of lone surrogates, JavaScript strings are sequences of UTF-16 code units. A loop
  over an index into the input is a recursion on the part of the input from that index on, so
  \<open>index + k < bytes.len()\<close> is the question whether \<open>k\<close> more bytes follow the first one.
\<close>

subsection \<open>Codec\<close>

definition wtf8_continuation :: "u8 \<Rightarrow> bool" where
  "wtf8_continuation byte = (byte AND 0xC0 = 0x80)"

definition wtf8_code2 :: "u8 \<Rightarrow> u8 \<Rightarrow> u32" where
  "wtf8_code2 first b1 = push_bit 6 (ucast first AND 0x1F) OR (ucast b1 AND 0x3F)"

definition wtf8_code3 :: "u8 \<Rightarrow> u8 \<Rightarrow> u8 \<Rightarrow> u32" where
  "wtf8_code3 first b1 b2 =
     (push_bit 12 (ucast first AND 0x0F) OR push_bit 6 (ucast b1 AND 0x3F)) OR (ucast b2 AND 0x3F)"

definition wtf8_code4 :: "u8 \<Rightarrow> u8 \<Rightarrow> u8 \<Rightarrow> u8 \<Rightarrow> u32" where
  "wtf8_code4 first b1 b2 b3 =
     ((push_bit 18 (ucast first AND 0x07) OR push_bit 12 (ucast b1 AND 0x3F)) OR
      push_bit 6 (ucast b2 AND 0x3F)) OR (ucast b3 AND 0x3F)"

fun wtf8_decode_utf16 :: "bytes \<Rightarrow> u16 list" where
  "wtf8_decode_utf16 [] = []"
| "wtf8_decode_utf16 (first # rest) =
     (if first < 0x80 then ucast first # wtf8_decode_utf16 rest
      else if 0xC2 \<le> first \<and> first \<le> 0xDF then
        (case rest of
           b1 # rest1 \<Rightarrow>
             if wtf8_continuation b1 then ucast (wtf8_code2 first b1) # wtf8_decode_utf16 rest1
             else 0xFFFD # wtf8_decode_utf16 rest
         | _ \<Rightarrow> 0xFFFD # wtf8_decode_utf16 rest)
      else if 0xE0 \<le> first \<and> first \<le> 0xEF then
        (case rest of
           b1 # b2 # rest2 \<Rightarrow>
             if wtf8_continuation b1 \<and> wtf8_continuation b2
             then ucast (wtf8_code3 first b1 b2) # wtf8_decode_utf16 rest2
             else 0xFFFD # wtf8_decode_utf16 rest
         | _ \<Rightarrow> 0xFFFD # wtf8_decode_utf16 rest)
      else if 0xF0 \<le> first \<and> first \<le> 0xF4 then
        (case rest of
           b1 # b2 # b3 # rest3 \<Rightarrow>
             if wtf8_continuation b1 \<and> wtf8_continuation b2 \<and> wtf8_continuation b3 then
               (let code = wtf8_code4 first b1 b2 b3 in
                if 0x10000 \<le> code \<and> code \<le> 0x10FFFF then
                  (let code = code - 0x10000 in
                   (0xD800 + ucast (drop_bit 10 code)) # (0xDC00 + ucast (code AND 0x3FF)) #
                   wtf8_decode_utf16 rest3)
                else 0xFFFD # wtf8_decode_utf16 rest)
             else 0xFFFD # wtf8_decode_utf16 rest
         | _ \<Rightarrow> 0xFFFD # wtf8_decode_utf16 rest)
      else 0xFFFD # wtf8_decode_utf16 rest)"

text \<open>The bytes that \<open>wtf8_push_code_point\<close> appends.\<close>

definition wtf8_code_point :: "u32 \<Rightarrow> bytes" where
  "wtf8_code_point code =
     (if code < 0x80 then [ucast code]
      else if code < 0x800 then [0xC0 OR ucast (drop_bit 6 code), 0x80 OR ucast (code AND 0x3F)]
      else if code < 0x10000 then
        [0xE0 OR ucast (drop_bit 12 code), 0x80 OR ucast (drop_bit 6 code AND 0x3F),
         0x80 OR ucast (code AND 0x3F)]
      else
        [0xF0 OR ucast (drop_bit 18 code), 0x80 OR ucast (drop_bit 12 code AND 0x3F),
         0x80 OR ucast (drop_bit 6 code AND 0x3F), 0x80 OR ucast (code AND 0x3F)])"

definition wtf8_push_code_point :: "bytes \<Rightarrow> u32 \<Rightarrow> bytes" where
  "wtf8_push_code_point out code = out @ wtf8_code_point code"

definition high_surrogate :: "u16 \<Rightarrow> bool" where
  "high_surrogate unit = (0xD800 \<le> unit \<and> unit \<le> 0xDBFF)"

definition low_surrogate :: "u16 \<Rightarrow> bool" where
  "low_surrogate unit = (0xDC00 \<le> unit \<and> unit \<le> 0xDFFF)"

definition wtf8_pair_code :: "u16 \<Rightarrow> u16 \<Rightarrow> u32" where
  "wtf8_pair_code unit next_unit =
     0x10000 + push_bit 10 (ucast unit - 0xD800) + (ucast next_unit - 0xDC00)"

fun wtf8_encode_loop :: "u16 list \<Rightarrow> bytes \<Rightarrow> bytes" where
  "wtf8_encode_loop [] out = out"
| "wtf8_encode_loop (unit # rest) out =
     (case rest of
        next_unit # rest1 \<Rightarrow>
          if high_surrogate unit \<and> low_surrogate next_unit
          then wtf8_encode_loop rest1 (wtf8_push_code_point out (wtf8_pair_code unit next_unit))
          else wtf8_encode_loop rest (wtf8_push_code_point out (ucast unit))
      | [] \<Rightarrow> wtf8_encode_loop rest (wtf8_push_code_point out (ucast unit)))"

definition wtf8_encode_utf16 :: "u16 list \<Rightarrow> bytes" where
  "wtf8_encode_utf16 units = wtf8_encode_loop units []"

subsection \<open>Reading words as numbers\<close>

lemma nat_or_add: "(b::nat) < 2 ^ k \<Longrightarrow> 2 ^ k dvd a \<Longrightarrow> a OR b = a + b"
proof -
  assume "b < 2 ^ k" "2 ^ k dvd a"
  then have "take_bit k b = b" "take_bit k a = 0" by (simp_all add: take_bit_eq_mod)
  then have "a AND b = 0"
    by (metis and_zero_eq bit_and_iff bit_eq_iff bit_take_bit_iff bit_0_eq bot_apply)
  then show ?thesis by (simp add: disjunctive_add_eq_or)
qed

lemma mask_numerals:
  "(0x3F::nat) = mask 6" "(0x1F::nat) = mask 5" "(0x0F::nat) = mask 4" "(0x07::nat) = mask 3" "(0x3FF::nat) = mask 10"
  by (simp_all add: mask_eq_exp_minus_1)

lemma nat_and_masks:
  "(n::nat) AND 0x3F = n mod 64" "n AND 0x1F = n mod 32" "n AND 0x0F = n mod 16" "n AND 0x07 = n mod 8"
  "n AND 0x3FF = n mod 1024"
  by (simp_all add: mask_numerals nat_and_mask)

lemma nat_and_high: "(m::nat) < 256 \<Longrightarrow> m AND 0xC0 = m div 64 * 64"
proof -
  assume "m < 256"
  then have "take_bit 2 (m div 64) = m div 64" by (simp add: take_bit_eq_mod less_mult_imp_div_less)
  moreover have "(0xC0::nat) = push_bit 6 (mask 2)" by (simp add: push_bit_eq_mult mask_eq_exp_minus_1)
  moreover have "m AND push_bit 6 (mask 2) = push_bit 6 (take_bit 2 (drop_bit 6 m))"
    by (rule bit_eqI) (auto simp: bit_simps)
  ultimately show ?thesis by (simp add: push_bit_eq_mult drop_bit_eq_div)
qed

lemma unat_u8 [simp]: "unat (x :: u8) < 256"
  using unsigned_less [of x, where ?'a = nat] by simp

lemma unat_u16 [simp]: "unat (x :: u16) < 65536"
  using unsigned_less [of x, where ?'a = nat] by simp

lemma unat_push: "unat (x :: u32) * 2 ^ k < 2 ^ 32 \<Longrightarrow> unat (push_bit k x) = unat x * 2 ^ k"
  unfolding unsigned_push_bit_eq by (simp add: push_bit_eq_mult take_bit_eq_mod)

lemma unat_widen [simp]:
  "unat (ucast (x :: u8) :: u32) = unat x" "unat (ucast (x :: u8) :: u16) = unat x" "unat (ucast (y :: u16) :: u32) = unat y"
  by (simp_all add: unsigned_ucast_eq take_bit_eq_mod less_trans [OF unat_u8] less_trans [OF unat_u16])

lemma unat_narrow:
  "unat (ucast (x :: u32) :: u8) = unat x mod 256" "unat (ucast (x :: u32) :: u16) = unat x mod 65536"
  by (simp_all add: unsigned_ucast_eq take_bit_eq_mod)

lemma unat_drop: "unat (drop_bit k (x :: 'a::len word)) = unat x div 2 ^ k"
  unfolding unat_drop_bit_eq by (simp add: drop_bit_eq_div)

lemma unat_masks [simp]:
  fixes x :: u32
  shows "unat (x AND 0x3F) = unat x mod 64" "unat (x AND 0x1F) = unat x mod 32" "unat (x AND 0x0F) = unat x mod 16"
    "unat (x AND 0x07) = unat x mod 8" "unat (x AND 0x3FF) = unat x mod 1024"
  by (simp_all add: unsigned_and_eq nat_and_masks)

lemma continuation_iff: "wtf8_continuation b \<longleftrightarrow> unat b div 64 = 2"
proof -
  have "wtf8_continuation b \<longleftrightarrow> unat b AND 0xC0 = 0x80"
    unfolding wtf8_continuation_def word_unat_eq_iff by (simp add: unsigned_and_eq)
  then show ?thesis by (simp add: nat_and_high)
qed

lemma unat_code2: "unat (wtf8_code2 a b) = unat a mod 32 * 64 + unat b mod 64"
proof -
  have "unat a mod 32 < 32" by simp
  then have "unat (push_bit 6 (ucast a AND 0x1F :: u32)) = unat a mod 32 * 64"
    by (subst unat_push) simp_all
  moreover have "unat a mod 32 * 64 OR unat b mod 64 = unat a mod 32 * 64 + unat b mod 64"
    by (rule nat_or_add [of _ 6]) simp_all
  ultimately show ?thesis by (simp add: wtf8_code2_def unsigned_or_eq)
qed

lemma unat_code3: "unat (wtf8_code3 a b c) = unat a mod 16 * 4096 + unat b mod 64 * 64 + unat c mod 64"
proof -
  have b: "unat a mod 16 < 16" "unat b mod 64 < 64" by simp_all
  then have "unat (push_bit 12 (ucast a AND 0x0F :: u32)) = unat a mod 16 * 4096"
      "unat (push_bit 6 (ucast b AND 0x3F :: u32)) = unat b mod 64 * 64"
    by (subst unat_push; simp)+
  moreover have "unat a mod 16 * 4096 OR unat b mod 64 * 64 = unat a mod 16 * 4096 + unat b mod 64 * 64"
    using b by (intro nat_or_add [of _ 12]) simp_all
  moreover have "(unat a mod 16 * 4096 + unat b mod 64 * 64) OR unat c mod 64 =
      unat a mod 16 * 4096 + unat b mod 64 * 64 + unat c mod 64"
    by (rule nat_or_add [of _ 6]) simp_all
  ultimately show ?thesis by (simp add: wtf8_code3_def unsigned_or_eq)
qed

lemma unat_code4:
  "unat (wtf8_code4 a b c d) = unat a mod 8 * 262144 + unat b mod 64 * 4096 + unat c mod 64 * 64 + unat d mod 64"
proof -
  have b: "unat a mod 8 < 8" "unat b mod 64 < 64" "unat c mod 64 < 64" by simp_all
  then have "unat (push_bit 18 (ucast a AND 0x07 :: u32)) = unat a mod 8 * 262144"
      "unat (push_bit 12 (ucast b AND 0x3F :: u32)) = unat b mod 64 * 4096"
      "unat (push_bit 6 (ucast c AND 0x3F :: u32)) = unat c mod 64 * 64"
    by (subst unat_push; simp)+
  moreover have "unat a mod 8 * 262144 OR unat b mod 64 * 4096 = unat a mod 8 * 262144 + unat b mod 64 * 4096"
    using b by (intro nat_or_add [of _ 18]) simp_all
  moreover have "(unat a mod 8 * 262144 + unat b mod 64 * 4096) OR unat c mod 64 * 64 =
      unat a mod 8 * 262144 + unat b mod 64 * 4096 + unat c mod 64 * 64"
    using b by (intro nat_or_add [of _ 12]) simp_all
  moreover have "(unat a mod 8 * 262144 + unat b mod 64 * 4096 + unat c mod 64 * 64) OR unat d mod 64 =
      unat a mod 8 * 262144 + unat b mod 64 * 4096 + unat c mod 64 * 64 + unat d mod 64"
    by (rule nat_or_add [of _ 6]) simp_all
  ultimately show ?thesis by (simp add: wtf8_code4_def unsigned_or_eq)
qed

subsection \<open>Decoding one code point\<close>

lemmas word_nat_order = word_less_nat_alt word_le_nat_alt

lemma lead_mods:
  "(192 + a) mod 32 = a mod (32::nat)" "(224 + a) mod 16 = a mod (16::nat)" "(240 + a) mod 8 = a mod (8::nat)"
  "(128 + a) mod 64 = a mod (64::nat)"
  using mod_add_left_eq [of "192::nat" 32 a] mod_add_left_eq [of "224::nat" 16 a]
    mod_add_left_eq [of "240::nat" 8 a] mod_add_left_eq [of "128::nat" 64 a] by simp_all

lemma continuation_byte: "unat b = 128 + k \<Longrightarrow> k < 64 \<Longrightarrow> wtf8_continuation b"
  unfolding continuation_iff by linarith

lemma digits64:
  "(n::nat) div 4096 * 4096 + n div 64 mod 64 * 64 + n mod 64 = n"
  "(n::nat) div 262144 * 262144 + n div 4096 mod 64 * 4096 + n div 64 mod 64 * 64 + n mod 64 = n"
proof -
  have q: "n div 4096 = n div 64 div 64" "n div 262144 = n div 64 div 64 div 64"
    by (simp_all add: div_mult2_eq [symmetric])
  show "n div 4096 * 4096 + n div 64 mod 64 * 64 + n mod 64 = n"
    unfolding q using div_mult_mod_eq [of "n div 64" 64] div_mult_mod_eq [of n 64] by linarith
  show "n div 262144 * 262144 + n div 4096 mod 64 * 4096 + n div 64 mod 64 * 64 + n mod 64 = n"
    unfolding q using div_mult_mod_eq [of "n div 64 div 64" 64] div_mult_mod_eq [of "n div 64" 64]
      div_mult_mod_eq [of n 64] by linarith
qed

lemma word_of_unat: "unat (x :: 'a::len word) = n \<Longrightarrow> x = word_of_nat n"
  by auto

lemma decode_one: "unat x < 128 \<Longrightarrow> wtf8_decode_utf16 (x # rest) = word_of_nat (unat x) # wtf8_decode_utf16 rest"
  by (simp add: word_nat_order)

lemma decode_two:
  assumes "unat x = 192 + a" "2 \<le> a" "a < 32" "unat y = 128 + b" "b < 64"
  shows "wtf8_decode_utf16 (x # y # rest) = word_of_nat (a * 64 + b) # wtf8_decode_utf16 rest"
proof -
  have "unat (wtf8_code2 x y) = a * 64 + b" using assms by (simp add: unat_code2 lead_mods)
  then have "(ucast (wtf8_code2 x y) :: u16) = word_of_nat (a * 64 + b)"
    using assms by (intro word_of_unat) (simp add: unat_narrow)
  then show ?thesis using assms by (simp add: word_nat_order continuation_byte)
qed

lemma decode_three:
  assumes "unat x = 224 + a" "a < 16" "unat y = 128 + b" "b < 64" "unat z = 128 + c" "c < 64"
  shows "wtf8_decode_utf16 (x # y # z # rest) = word_of_nat (a * 4096 + b * 64 + c) # wtf8_decode_utf16 rest"
proof -
  have "unat (wtf8_code3 x y z) = a * 4096 + b * 64 + c" using assms by (simp add: unat_code3 lead_mods)
  then have "(ucast (wtf8_code3 x y z) :: u16) = word_of_nat (a * 4096 + b * 64 + c)"
    using assms by (intro word_of_unat) (simp add: unat_narrow)
  then show ?thesis using assms by (simp add: word_nat_order continuation_byte)
qed

lemma decode_four:
  assumes "unat x = 240 + a" "a < 5" "unat y = 128 + b" "b < 64" "unat z = 128 + c" "c < 64" "unat w = 128 + d" "d < 64"
    and n: "a * 262144 + b * 4096 + c * 64 + d = 65536 + m" "m < 1048576"
  shows "wtf8_decode_utf16 (x # y # z # w # rest) =
    word_of_nat (0xD800 + m div 1024) # word_of_nat (0xDC00 + m mod 1024) # wtf8_decode_utf16 rest"
proof -
  let ?c = "wtf8_code4 x y z w"
  have c: "unat ?c = 65536 + m" using assms by (simp add: unat_code4 lead_mods)
  then have r: "0x10000 \<le> ?c" "?c \<le> 0x10FFFF" using n(2) by (simp_all add: word_nat_order)
  then have m: "unat (?c - 0x10000) = m" using c by (simp add: unat_sub word_nat_order)
  have "(ucast (drop_bit 10 (?c - 0x10000)) :: u16) = word_of_nat (m div 1024)"
    using n(2) by (intro word_of_unat) (simp add: unat_narrow unat_drop m)
  moreover have "(ucast ((?c - 0x10000) AND 0x3FF) :: u16) = word_of_nat (m mod 1024)"
    by (intro word_of_unat) (simp add: unat_narrow m)
  moreover have "0xF0 \<le> x" "x \<le> 0xF4" "\<not> x < 0x80" "\<not> x \<le> 0xEF" "\<not> x \<le> 0xDF"
    using assms(1,2) by (simp_all add: word_nat_order)
  moreover have "wtf8_continuation y" "wtf8_continuation z" "wtf8_continuation w"
    using assms by (simp_all add: continuation_byte)
  ultimately show ?thesis using r by simp
qed

lemma unat_or_add: "unat (x :: u8) < 2 ^ k \<Longrightarrow> 2 ^ k dvd unat y \<Longrightarrow> unat (y OR x) = unat y + unat x"
  by (simp add: unsigned_or_eq nat_or_add)

lemma lead_bytes:
  fixes x :: u32
  shows "unat x < 64 \<Longrightarrow> unat (0x80 OR ucast x :: u8) = 128 + unat x"
    "unat x < 64 \<Longrightarrow> unat (0xC0 OR ucast x :: u8) = 192 + unat x"
    "unat x < 32 \<Longrightarrow> unat (0xE0 OR ucast x :: u8) = 224 + unat x"
    "unat x < 16 \<Longrightarrow> unat (0xF0 OR ucast x :: u8) = 240 + unat x"
  using unat_or_add [of "ucast x" 6 "0x80"] unat_or_add [of "ucast x" 6 "0xC0"]
    unat_or_add [of "ucast x" 5 "0xE0"] unat_or_add [of "ucast x" 4 "0xF0"]
  by (simp_all add: unat_narrow)

text \<open>A code unit, read as a code point of its own.\<close>

lemma decode_unit:
  "wtf8_decode_utf16 (wtf8_code_point (ucast u) @ rest) = (u :: u16) # wtf8_decode_utf16 rest"
proof -
  let ?n = "unat u"
  have n: "?n < 65536" "word_of_nat ?n = u" by simp_all
  consider "?n < 128" | "128 \<le> ?n" "?n < 2048" | "2048 \<le> ?n" by linarith
  then show ?thesis
  proof cases
    case 1
    then show ?thesis
      using decode_one [of "ucast (ucast u :: u32)" rest]
      by (simp add: wtf8_code_point_def word_nat_order unat_narrow del: wtf8_decode_utf16.simps)
  next
    case 2
    have "?n div 64 < 32" "2 \<le> ?n div 64" using 2 by (simp_all add: less_mult_imp_div_less)
    then show ?thesis
      using 2 decode_two [of "0xC0 OR ucast (drop_bit 6 (ucast u :: u32))" "?n div 64"
          "0x80 OR ucast ((ucast u :: u32) AND 0x3F)" "?n mod 64" rest]
      by (simp add: wtf8_code_point_def word_nat_order lead_bytes unat_drop del: wtf8_decode_utf16.simps)
  next
    case 3
    have d: "?n div 4096 < 16" using n(1) by (simp add: less_mult_imp_div_less)
    show ?thesis
      using 3 d digits64(1) [of ?n] decode_three [of "0xE0 OR ucast (drop_bit 12 (ucast u :: u32))" "?n div 4096"
          "0x80 OR ucast (drop_bit 6 (ucast u :: u32) AND 0x3F)" "?n div 64 mod 64"
          "0x80 OR ucast ((ucast u :: u32) AND 0x3F)" "?n mod 64" rest]
      by (simp add: wtf8_code_point_def word_nat_order lead_bytes unat_drop del: wtf8_decode_utf16.simps)
  qed
qed

lemma unat_pair_code:
  assumes "high_surrogate h" "low_surrogate l"
  shows "unat (wtf8_pair_code h l) = 65536 + ((unat h - 0xD800) * 1024 + (unat l - 0xDC00))"
    "unat h = 0xD800 + (unat h - 0xD800)" "unat h - 0xD800 < 1024"
    "unat l = 0xDC00 + (unat l - 0xDC00)" "unat l - 0xDC00 < 1024"
proof -
  define p q where "p = unat h - 0xD800" and "q = unat l - 0xDC00"
  have h: "unat h = 0xD800 + p" "p < 1024" and l: "unat l = 0xDC00 + q" "q < 1024"
    using assms by (auto simp: high_surrogate_def low_surrogate_def word_nat_order p_def q_def)
  let ?hi = "ucast h - 0xD800 :: u32" and ?lo = "ucast l - 0xDC00 :: u32"
  have "unat ?hi = p" "unat ?lo = q" using h l by (simp_all add: unat_sub word_nat_order)
  moreover have "unat (push_bit 10 ?hi) = p * 1024"
    using calculation h(2) by (subst unat_push) simp_all
  ultimately have "unat (0x10000 + push_bit 10 ?hi + ?lo) = 65536 + (p * 1024 + q)"
    using h(2) l by (simp add: unat_word_ariths)
  then show "unat (wtf8_pair_code h l) = 65536 + ((unat h - 0xD800) * 1024 + (unat l - 0xDC00))"
    unfolding wtf8_pair_code_def p_def q_def .
  show "unat h = 0xD800 + (unat h - 0xD800)" "unat h - 0xD800 < 1024"
    "unat l = 0xDC00 + (unat l - 0xDC00)" "unat l - 0xDC00 < 1024"
    using h l unfolding p_def q_def by simp_all
qed

lemma decode_pair:
  assumes "high_surrogate h" "low_surrogate l"
  shows "wtf8_decode_utf16 (wtf8_code_point (wtf8_pair_code h l) @ rest) = h # l # wtf8_decode_utf16 rest"
proof -
  define p q where "p = unat h - 0xD800" and "q = unat l - 0xDC00"
  note pc = unat_pair_code [OF assms, folded p_def q_def]
  note h = pc(2,3) and l = pc(4,5)
  define code where "code = wtf8_pair_code h l"
  define m where "m = p * 1024 + q"
  define n where "n = 65536 + m"
  have n: "unat code = n" "m < 1048576" using pc(1) h(2) l(2) by (simp_all add: code_def n_def m_def)
  have b: "n div 262144 < 5" using n(2) by (simp add: n_def less_mult_imp_div_less)
  have "wtf8_code_point code =
      [0xF0 OR ucast (drop_bit 18 code), 0x80 OR ucast (drop_bit 12 code AND 0x3F),
       0x80 OR ucast (drop_bit 6 code AND 0x3F), 0x80 OR ucast (code AND 0x3F)]"
    using n by (simp add: wtf8_code_point_def word_nat_order n_def)
  then have "wtf8_decode_utf16 (wtf8_code_point code @ rest) =
      word_of_nat (0xD800 + m div 1024) # word_of_nat (0xDC00 + m mod 1024) # wtf8_decode_utf16 rest"
    using decode_four [of "0xF0 OR ucast (drop_bit 18 code)" "n div 262144"
        "0x80 OR ucast (drop_bit 12 code AND 0x3F)" "n div 4096 mod 64"
        "0x80 OR ucast (drop_bit 6 code AND 0x3F)" "n div 64 mod 64" "0x80 OR ucast (code AND 0x3F)" "n mod 64" m rest]
      digits64(2) [of n] b n(2)
    by (simp add: lead_bytes unat_drop n(1) n_def [symmetric] del: wtf8_decode_utf16.simps of_nat_add)
  moreover have "m div 1024 = p" "m mod 1024 = q" using l(2) by (simp_all add: m_def)
  moreover have "word_of_nat (0xD800 + p) = h" "word_of_nat (0xDC00 + q) = l"
    using h(1) l(1) word_of_unat by metis+
  ultimately show ?thesis unfolding code_def by (simp only:)
qed

lemma encode_loop_append: "wtf8_encode_loop us out = out @ wtf8_encode_loop us []"
proof (induction "length us" arbitrary: us out rule: less_induct)
  case less
  note IH = less
  show ?case
  proof (cases us)
    case (Cons u rest)
    have 1: "wtf8_encode_loop rest x = x @ wtf8_encode_loop rest []" for x by (rule IH) (simp add: Cons)
    have 2: "wtf8_encode_loop vs x = x @ wtf8_encode_loop vs []" if "rest = v # vs" for v vs x
      by (rule IH) (simp add: Cons that)
    show ?thesis
      using 1 [of "wtf8_push_code_point out (ucast u)"] 1 [of "wtf8_push_code_point [] (ucast u)"]
        2 [of _ _ "wtf8_push_code_point out (wtf8_pair_code u (hd rest))"]
        2 [of _ _ "wtf8_push_code_point [] (wtf8_pair_code u (hd rest))"]
      by (cases rest) (simp_all add: Cons wtf8_push_code_point_def)
  qed simp
qed

lemma encode_utf16_Nil: "wtf8_encode_utf16 [] = []"
  by (simp add: wtf8_encode_utf16_def)

lemma encode_utf16_Cons:
  "wtf8_encode_utf16 (u # us) =
     (case us of
        v # vs \<Rightarrow>
          if high_surrogate u \<and> low_surrogate v
          then wtf8_code_point (wtf8_pair_code u v) @ wtf8_encode_utf16 vs
          else wtf8_code_point (ucast u) @ wtf8_encode_utf16 us
      | [] \<Rightarrow> wtf8_code_point (ucast u) @ wtf8_encode_utf16 us)"
  unfolding wtf8_encode_utf16_def
  by (auto simp: wtf8_push_code_point_def encode_loop_append [of _ "wtf8_code_point x" for x] simp del: wtf8_encode_loop.simps(2)
      split: list.split) (simp_all add: wtf8_push_code_point_def encode_loop_append [of _ "wtf8_code_point x" for x])

lemma decode_encode: "wtf8_decode_utf16 (wtf8_encode_utf16 us) = us"
proof (induction "length us" arbitrary: us rule: less_induct)
  case less
  show ?case
  proof (cases us)
    case (Cons u rest)
    show ?thesis
    proof (cases "\<exists>v vs. rest = v # vs \<and> high_surrogate u \<and> low_surrogate v")
      case True
      then show ?thesis
        using less by (auto simp: Cons encode_utf16_Cons decode_pair simp del: wtf8_decode_utf16.simps)
    next
      case False
      then have "wtf8_encode_utf16 us = wtf8_code_point (ucast u) @ wtf8_encode_utf16 rest"
        unfolding Cons encode_utf16_Cons [of u rest] by (auto split: list.split)
      then show ?thesis using less by (simp add: Cons decode_unit del: wtf8_decode_utf16.simps)
    qed
  qed (simp add: encode_utf16_Nil)
qed

end
