(* ===== verification/Utf16_Text.thy ===== *)
theory Utf16_Text
  imports Wtf8
begin

text \<open>
  \<open>utf16_replace\<close> and \<open>utf16_map_segments\<close> of \<open>crates/thaw-arena/src/strings.rs\<close>, and the properties
  of the text functions. \<open>char::decode_utf16\<close> is modelled from the standard library; the closure
  passed to \<open>utf16_map_segments\<close> is a function on its own state, the segment and the output.
\<close>

subsection \<open>Substitution\<close>

text \<open>\<open>windows(n).position(|part| part == search)\<close>\<close>

fun window_position :: "u16 list \<Rightarrow> u16 list \<Rightarrow> nat option" where
  "window_position search [] = (if search = [] then Some 0 else None)"
| "window_position search (x # xs) =
     (if length search \<le> length (x # xs) \<and> take (length search) (x # xs) = search then Some 0
      else map_option Suc (window_position search xs))"

definition sub_slice :: "nat \<Rightarrow> nat \<Rightarrow> 'a list \<Rightarrow> 'a list" where
  "sub_slice a b xs = take (b - a) (drop a xs)"

fun expand_replacement :: "u16 list \<Rightarrow> nat \<Rightarrow> nat \<Rightarrow> u16 list \<Rightarrow> u16 list" where
  "expand_replacement v start stop [] = []"
| "expand_replacement v start stop [c] = [c]"
| "expand_replacement v start stop (c # d # rest) =
     (if c = 0x24 \<and> d = 0x24 then [c] @ expand_replacement v start stop rest
      else if c = 0x24 \<and> d = 0x26 then sub_slice start stop v @ expand_replacement v start stop rest
      else if c = 0x24 \<and> d = 0x60 then take start v @ expand_replacement v start stop rest
      else if c = 0x24 \<and> d = 0x27 then drop stop v @ expand_replacement v start stop rest
      else c # expand_replacement v start stop (d # rest))"

definition find_search :: "u16 list \<Rightarrow> u16 list \<Rightarrow> nat \<Rightarrow> nat option" where
  "find_search v search cursor =
     (if search = [] then Some cursor
      else map_option (\<lambda>offset. cursor + offset) (window_position search (drop cursor v)))"

text \<open>The loop returns the cursor at which it stops and the output so far.\<close>

function utf16_replace_loop ::
    "u16 list \<Rightarrow> u16 list \<Rightarrow> u16 list \<Rightarrow> bool \<Rightarrow> nat \<Rightarrow> u16 list \<Rightarrow> nat \<times> u16 list" where
  "utf16_replace_loop v search replacement every cursor output =
     (if cursor \<le> length v then
        (case find_search v search cursor of
           None \<Rightarrow> (cursor, output)
         | Some start \<Rightarrow>
             (let stop = start + length search;
                  output1 = output @ sub_slice cursor start v @ expand_replacement v start stop replacement
              in if \<not> every then (stop, output1)
                 else if search = [] then
                   (if stop = length v then (stop, output1)
                    else utf16_replace_loop v search replacement every (stop + 1) (output1 @ [v ! stop]))
                 else utf16_replace_loop v search replacement every stop output1))
      else (cursor, output))"
  by pat_completeness auto
termination
  by (relation "measure (\<lambda>(v, search, replacement, every, cursor, output). Suc (length v) - cursor)")
     (auto simp: find_search_def simp flip: length_greater_0_conv split: if_splits)

declare utf16_replace_loop.simps [simp del]

definition utf16_replace :: "u16 list \<Rightarrow> u16 list \<Rightarrow> u16 list \<Rightarrow> bool \<Rightarrow> u16 list" where
  "utf16_replace v search replacement every =
     (let (cursor, output) = utf16_replace_loop v search replacement every 0 []
      in output @ drop cursor v)"

subsection \<open>Segments\<close>

datatype decoded = Ok_char u32 | Unpaired u16

fun decode_utf16 :: "u16 list \<Rightarrow> decoded list" where
  "decode_utf16 [] = []"
| "decode_utf16 (u # us) =
     (if \<not> high_surrogate u \<and> \<not> low_surrogate u then Ok_char (ucast u) # decode_utf16 us
      else if low_surrogate u then Unpaired u # decode_utf16 us
      else (case us of
              v # vs \<Rightarrow>
                if low_surrogate v then Ok_char (wtf8_pair_code u v) # decode_utf16 vs
                else Unpaired u # decode_utf16 us
            | [] \<Rightarrow> Unpaired u # decode_utf16 us))"

fun map_segments_loop ::
    "('s \<Rightarrow> u32 list \<Rightarrow> u16 list \<Rightarrow> 's \<times> u16 list) \<Rightarrow> decoded list \<Rightarrow> 's \<Rightarrow> u32 list \<Rightarrow> u16 list \<Rightarrow>
     's \<times> u16 list" where
  "map_segments_loop f [] s segment output = f s segment output"
| "map_segments_loop f (Ok_char c # cs) s segment output =
     map_segments_loop f cs s (segment @ [c]) output"
| "map_segments_loop f (Unpaired u # cs) s segment output =
     (let (s1, output1) = f s segment output in map_segments_loop f cs s1 [] (output1 @ [u]))"

definition utf16_map_segments ::
    "u16 list \<Rightarrow> ('s \<Rightarrow> u32 list \<Rightarrow> u16 list \<Rightarrow> 's \<times> u16 list) \<Rightarrow> 's \<Rightarrow> 's \<times> u16 list" where
  "utf16_map_segments units f s = map_segments_loop f (decode_utf16 units) s [] []"

subsection \<open>Lemmas\<close>

lemma window_position_Some:
  "window_position search v = Some k \<Longrightarrow>
   k + length search \<le> length v \<and> sub_slice k (k + length search) v = search \<and>
   (\<forall>j < k. take (length search) (drop j v) \<noteq> search \<or> length v < j + length search)"
proof (induction search v arbitrary: k rule: window_position.induct)
  case (2 search x xs)
  show ?case
  proof (cases "length search \<le> length (x # xs) \<and> take (length search) (x # xs) = search")
    case True
    then show ?thesis using "2.prems" by (auto simp: sub_slice_def)
  next
    case False
    then obtain j where j: "window_position search xs = Some j" "k = Suc j" using "2.prems" by (auto split: if_splits)
    have *: "\<forall>i < k. take (length search) (drop i (x # xs)) \<noteq> search \<or> length (x # xs) < i + length search"
    proof (intro allI impI)
      fix i assume "i < k"
      then show "take (length search) (drop i (x # xs)) \<noteq> search \<or> length (x # xs) < i + length search"
        using "2.IH" [OF False j(1)] j(2) False by (cases i) auto
    qed
    then show ?thesis using "2.IH" [OF False j(1)] j(2) by (auto simp: sub_slice_def)
  qed
qed (auto simp: sub_slice_def split: if_splits)

lemma find_search_Some:
  assumes "find_search v search cursor = Some start" "cursor \<le> length v"
  shows "cursor \<le> start \<and> start + length search \<le> length v \<and> sub_slice start (start + length search) v = search"
proof (cases "search = []")
  case False
  then obtain k where "window_position search (drop cursor v) = Some k" "start = cursor + k"
    using assms(1) by (auto simp: find_search_def)
  then show ?thesis using window_position_Some [of search "drop cursor v" k] assms(2)
    by (auto simp: sub_slice_def add.commute)
qed (use assms in \<open>auto simp: find_search_def sub_slice_def\<close>)

lemma take_sub_slice: "a \<le> b \<Longrightarrow> take a xs @ sub_slice a b xs = take b xs"
  by (metis le_add_diff_inverse sub_slice_def take_add)

lemma replace_loop_identity:
  "output = take cursor v \<Longrightarrow> cursor \<le> length v \<Longrightarrow>
   utf16_replace_loop v search [0x24, 0x26] every cursor output = (c, out) \<Longrightarrow>
   out = take c v \<and> c \<le> length v"
proof (induction v search "[0x24, 0x26] :: u16 list" every cursor "output" rule: utf16_replace_loop.induct)
  case (1 v search every cursor outp)
  show ?case
  proof (cases "find_search v search cursor")
    case None
    then show ?thesis using "1.prems" by (auto simp: utf16_replace_loop.simps)
  next
    case (Some start)
    define stop where "stop = start + length search"
    have b: "cursor \<le> start" "start \<le> stop" "stop \<le> length v"
      using find_search_Some [OF Some "1.prems"(2)] by (auto simp: stop_def)
    let ?o1 = "outp @ sub_slice cursor start v @ expand_replacement v start stop [0x24, 0x26]"
    have o1: "?o1 = take stop v"
      using "1.prems"(1) take_sub_slice [OF b(1), of v] take_sub_slice [OF b(2), of v]
      by (simp flip: append_assoc)
    have step: "utf16_replace_loop v search [0x24, 0x26] every cursor outp =
        (if \<not> every then (stop, ?o1)
         else if search = [] then
           (if stop = length v then (stop, ?o1)
            else utf16_replace_loop v search [0x24, 0x26] every (stop + 1) (?o1 @ [v ! stop]))
         else utf16_replace_loop v search [0x24, 0x26] every stop ?o1)"
      using "1.prems"(2) Some by (subst utf16_replace_loop.simps) (simp add: Let_def stop_def)
    consider "\<not> every" | "every" "search = []" "stop = length v" | "every" "search = []" "stop < length v"
      | "every" "search \<noteq> []" using b(3) by linarith
    then show ?thesis
    proof cases
      case 3
      have "?o1 @ [v ! stop] = take (stop + 1) v" using o1 3 by (simp add: take_Suc_conv_app_nth)
      then show ?thesis
        using "1.hyps"(1) [OF "1.prems"(2) Some stop_def refl] "1.prems"(3) 3 step by simp
    next
      case 4
      then show ?thesis
        using "1.hyps"(2) [OF "1.prems"(2) Some stop_def refl] "1.prems"(3) step o1 b by simp
    qed (use "1.prems"(3) step o1 b in auto)
  qed
qed

text \<open>The reference for a literal replacement: leftmost, non-overlapping matches.\<close>

function replace_literal :: "u16 list \<Rightarrow> u16 list \<Rightarrow> u16 list \<Rightarrow> u16 list" where
  "replace_literal search replacement v =
     (if search = [] then v
      else (case window_position search v of
              None \<Rightarrow> v
            | Some k \<Rightarrow> take k v @ replacement @ replace_literal search replacement (drop (k + length search) v)))"
  by pat_completeness auto
termination
proof (relation "measure (\<lambda>(search, replacement, v). length v)", goal_cases)
  case (2 search replacement v k)
  then show ?case using window_position_Some [of search v k]
    by (auto simp flip: length_greater_0_conv)
qed simp

declare replace_literal.simps [simp del]

lemma expand_literal: "0x24 \<notin> set r \<Longrightarrow> expand_replacement v a b r = r"
  by (induction v a b r rule: expand_replacement.induct) auto

lemma replace_loop_literal:
  "search \<noteq> [] \<Longrightarrow> 0x24 \<notin> set r \<Longrightarrow> cursor \<le> length v \<Longrightarrow>
   utf16_replace_loop v search r True cursor outp = (c, out) \<Longrightarrow>
   out @ drop c v = outp @ replace_literal search r (drop cursor v)"
proof (induction v search r True cursor outp rule: utf16_replace_loop.induct)
  case (1 v search r cursor outp)
  show ?case
  proof (cases "window_position search (drop cursor v)")
    case None
    then have "find_search v search cursor = None" using "1.prems"(1) by (simp add: find_search_def)
    then show ?thesis using "1.prems" None by (auto simp: utf16_replace_loop.simps replace_literal.simps [of search r])
  next
    case (Some k)
    define stop where "stop = cursor + k + length search"
    have f: "find_search v search cursor = Some (cursor + k)" using "1.prems"(1) Some by (simp add: find_search_def)
    have le: "stop \<le> length v" using find_search_Some [OF f "1.prems"(3)] by (simp add: stop_def)
    let ?o1 = "outp @ take k (drop cursor v) @ r"
    have "utf16_replace_loop v search r True cursor outp = utf16_replace_loop v search r True stop ?o1"
      using "1.prems"(1-3) f
      by (subst utf16_replace_loop.simps) (simp add: Let_def stop_def sub_slice_def expand_literal)
    then have "out @ drop c v = ?o1 @ replace_literal search r (drop stop v)"
      using "1.hyps"(2) [OF "1.prems"(3) f stop_def refl _ "1.prems"(1), of] "1.prems" le
      by (simp add: sub_slice_def expand_literal)
    then show ?thesis
      using Some "1.prems"(1) by (subst replace_literal.simps) (simp add: stop_def add.commute add.left_commute)
  qed
qed

text \<open>The UTF-16 code units of a character, \<open>char::encode_utf16\<close>.\<close>

definition encode_char :: "u32 \<Rightarrow> u16 list" where
  "encode_char c =
     (if c < 0x10000 then [ucast c]
      else [0xD800 + ucast (drop_bit 10 (c - 0x10000)), 0xDC00 + ucast ((c - 0x10000) AND 0x3FF)])"

lemma encode_char_unit: "encode_char (ucast (u :: u16)) = [u]"
proof -
  have "ucast (ucast u :: u32) = u" by (rule unsigned_word_eqI [where ?'a = nat]) (simp add: unat_narrow)
  then show ?thesis by (simp add: encode_char_def word_nat_order)
qed

lemma encode_char_pair:
  assumes "high_surrogate h" "low_surrogate l"
  shows "encode_char (wtf8_pair_code h l) = [h, l]"
proof -
  define p q where "p = unat h - 0xD800" and "q = unat l - 0xDC00"
  note pc = unat_pair_code [OF assms, folded p_def q_def]
  let ?c = "wtf8_pair_code h l"
  have ge: "\<not> ?c < 0x10000" "0x10000 \<le> ?c" using pc(1) by (simp_all add: word_nat_order)
  then have m: "unat (?c - 0x10000) = p * 1024 + q" using pc(1) by (simp add: unat_sub word_nat_order)
  have "(ucast (drop_bit 10 (?c - 0x10000)) :: u16) = word_of_nat p"
    using pc(3,5) by (intro word_of_unat) (simp add: unat_narrow unat_drop m)
  moreover have "(ucast ((?c - 0x10000) AND 0x3FF) :: u16) = word_of_nat q"
    using pc(5) by (intro word_of_unat) (simp add: unat_narrow m)
  moreover have "0xD800 + word_of_nat p = h" "0xDC00 + word_of_nat q = l"
    using pc(2,4) word_of_unat [of h "0xD800 + p"] word_of_unat [of l "0xDC00 + q"] by simp_all
  ultimately show ?thesis using ge by (simp add: encode_char_def)
qed

lemma map_segments_identity:
  "map_segments_loop (\<lambda>s seg out. (s, out @ concat (map encode_char seg))) (decode_utf16 us) s seg out =
   (s, out @ concat (map encode_char seg) @ us)"
proof (induction us arbitrary: seg out rule: decode_utf16.induct)
  case (2 u us)
  consider "\<not> high_surrogate u" "\<not> low_surrogate u" | "low_surrogate u"
    | "high_surrogate u" "\<not> low_surrogate u" by blast
  then show ?case
  proof cases
    case 3
    then show ?thesis using "2.IH"(3,4,5) by (cases us) (simp_all add: encode_char_pair)
  qed (use "2.IH"(1,2) in \<open>simp_all add: encode_char_unit\<close>)
qed simp

lemma replace_first_result:
  "utf16_replace v search replacement False =
     (case find_search v search 0 of
        None \<Rightarrow> v
      | Some start \<Rightarrow> take start v @ expand_replacement v start (start + length search) replacement
          @ drop (start + length search) v)"
  by (simp add: utf16_replace_def utf16_replace_loop.simps [of v search replacement False 0] sub_slice_def Let_def
      split: option.split)

subsection \<open>Properties\<close>

text \<open>C11: Every sequence of UTF-16 code units, lone surrogates included, survives the codec: encoding
  it to WTF-8 and decoding the bytes gives the same code units.\<close>

theorem wtf8_round_trip: "wtf8_decode_utf16 (wtf8_encode_utf16 units) = units"
  by (rule decode_encode)

text \<open>Replacing every match, or the first one, by \<open>$&\<close> leaves the string as it is, for every
  string and every search string, the empty one included: the cursor never passes the end, no
  code unit is lost or repeated between matches, and the loop ends.\<close>

theorem replace_match_identity: "utf16_replace v search [0x24, 0x26] every = v"
proof -
  obtain c out where r: "utf16_replace_loop v search [0x24, 0x26] every 0 [] = (c, out)" by fastforce
  have "out = take c v \<and> c \<le> length v" by (rule replace_loop_identity [OF _ _ r]) simp_all
  then show ?thesis using r by (simp add: utf16_replace_def)
qed

text \<open>Replacing all matches of a non-empty search string by a literal text is the leftmost
  non-overlapping substitution of the reference definition.\<close>

theorem replace_all_literal:
  assumes "search \<noteq> []" "0x24 \<notin> set replacement"
  shows "utf16_replace v search replacement True = replace_literal search replacement v"
proof -
  obtain c out where r: "utf16_replace_loop v search replacement True 0 [] = (c, out)" by fastforce
  from replace_loop_literal [OF assms _ r] r show ?thesis by (simp add: utf16_replace_def)
qed

theorem replace_all_literal_witness:
  "utf16_replace [97, 98, 97, 98, 97] [97, 98] [99] True = replace_literal [97, 98] [99] [97, 98, 97, 98, 97]"
  by (rule replace_all_literal) simp_all

text \<open>Replacing the first match cuts the string at the leftmost occurrence: what is before it
  and after it stays, the replacement is expanded with the match and its context, and a string
  without a match is unchanged.\<close>

theorem replace_first_match:
  assumes "search \<noteq> []"
  shows "(window_position search v = None \<and> utf16_replace v search replacement False = v) \<or>
    (\<exists>start. window_position search v = Some start \<and> take (length search) (drop start v) = search \<and>
       (\<forall>j < start. take (length search) (drop j v) \<noteq> search) \<and>
       utf16_replace v search replacement False =
         take start v @ expand_replacement v start (start + length search) replacement
           @ drop (start + length search) v)"
proof (cases "window_position search v")
  case None
  then show ?thesis using assms by (simp add: replace_first_result find_search_def)
next
  case (Some start)
  have "take (length search) (drop j v) \<noteq> search" if "j < start" for j
    using window_position_Some [OF Some] that by fastforce
  then show ?thesis
    using window_position_Some [OF Some] Some assms
    by (simp add: replace_first_result find_search_def sub_slice_def)
qed

theorem replace_first_match_witness:
  "\<exists>start. window_position [98] [97, 98, 99] = Some start \<and>
     utf16_replace [97, 98, 99] [98] [0x24, 0x60] False =
       take start [97, 98, 99] @ expand_replacement [97, 98, 99] start (start + 1) [0x24, 0x60] @ drop (start + 1) [97, 98, 99]"
  using replace_first_match [of "[98]" "[97, 98, 99]" "[0x24, 0x60]"] by auto

text \<open>\<open>utf16_map_segments\<close> with a mapping that re-encodes each segment gives back its input: the
  segments and the lone surrogates between them are kept in order, none is dropped, doubled or
  merged with a neighbour.\<close>

theorem map_segments_preserve:
  "utf16_map_segments units (\<lambda>s segment output. (s, output @ concat (map encode_char segment))) s = (s, units)"
  unfolding utf16_map_segments_def map_segments_identity by simp

end
