(* ===== verification/Error_Wire.thy ===== *)
theory Error_Wire
  imports Wtf8
begin

text \<open>
  The tagged error frame of \<open>crates/thaw-arena/src/error_wire.rs\<close>: the encoder, the parser, their
  round trip, the exact range of the decimal reader, and the agreement of the unit counter with
  the WTF-8 decoder.
\<close>

subsection \<open>Definitions\<close>

definition HEADER :: bytes where
  "HEADER = [0x1E, 0x45, 0x31, 0x3A]"

record error_frame =
  ef_chain :: bytes
  ef_display :: bytes
  ef_original :: "bytes option"
  ef_suffix :: bytes

text \<open>\<open>bytes.get(a..b)\<close>\<close>

definition get_range :: "bytes \<Rightarrow> nat \<Rightarrow> nat \<Rightarrow> bytes option" where
  "get_range bs a b = (if a \<le> b \<and> b \<le> length bs then Some (take (b - a) (drop a bs)) else None)"

definition lead_width :: "u8 \<Rightarrow> (nat \<times> nat) option" where
  "lead_width first =
     (if 0xC2 \<le> first \<and> first \<le> 0xDF then Some (2, 1)
      else if 0xE0 \<le> first \<and> first \<le> 0xEF then Some (3, 1)
      else if 0xF0 \<le> first \<and> first \<le> 0xF4 then Some (4, 2)
      else None)"

definition encoded_width :: "bytes \<Rightarrow> nat \<Rightarrow> (nat \<times> nat) option" where
  "encoded_width bs index =
     (if index < length bs then
        (let first = bs ! index in
         if first < 0x80 then Some (1, 1)
         else (case lead_width first of
            None \<Rightarrow> None
          | Some (width, units) \<Rightarrow>
              (case get_range bs (index + 1) (index + width) of
                 None \<Rightarrow> None
               | Some tail \<Rightarrow>
                   if list_ex (\<lambda>byte. byte AND 0xC0 \<noteq> 0x80) tail then None
                   else if width = 3 \<and> first = 0xE0 \<and> tail ! 0 < 0xA0 then None
                   else if width = 4 \<and> (first = 0xF0 \<and> tail ! 0 < 0x90 \<or> first = 0xF4 \<and> 0x8F < tail ! 0)
                   then None
                   else Some (width, units))))
      else None)"

lemma encoded_width_bounds:
  "encoded_width bs i = Some (w, c) \<Longrightarrow> 0 < w \<and> 0 < c \<and> i + w \<le> length bs"
  by (auto simp: encoded_width_def lead_width_def get_range_def Let_def split: if_splits option.splits)

function utf16_units_loop :: "bytes \<Rightarrow> nat \<Rightarrow> usize \<Rightarrow> usize option" where
  "utf16_units_loop bs index units =
     (if index < length bs then
        (case encoded_width bs index of
           None \<Rightarrow> None
         | Some (width, count) \<Rightarrow>
             (case checked_add units count of
                None \<Rightarrow> None
              | Some units1 \<Rightarrow> utf16_units_loop bs (index + width) units1))
      else Some units)"
  by pat_completeness auto
termination
  by (relation "measure (\<lambda>(bs, index, units). length bs - index)") (auto dest: encoded_width_bounds)

declare utf16_units_loop.simps [simp del]

definition utf16_units :: "bytes \<Rightarrow> usize option" where
  "utf16_units bs = utf16_units_loop bs 0 0"

function boundary_loop :: "bytes \<Rightarrow> usize \<Rightarrow> nat \<Rightarrow> usize \<Rightarrow> nat option" where
  "boundary_loop bs expected index units =
     (if units < expected then
        (case encoded_width bs index of
           None \<Rightarrow> None
         | Some (width, count) \<Rightarrow>
             (case checked_add units count of
                None \<Rightarrow> None
              | Some units1 \<Rightarrow>
                  if expected < units1 then None else boundary_loop bs expected (index + width) units1))
      else Some index)"
  by pat_completeness auto
termination
proof (relation "measure (\<lambda>(bs, expected, index, units). length bs - index)", goal_cases)
  case (2 bs expected index units e width count units1)
  then have "encoded_width bs index = Some (width, count)" by simp
  from encoded_width_bounds [OF this] show ?case by auto
qed simp

declare boundary_loop.simps [simp del]

definition boundary :: "bytes \<Rightarrow> usize \<Rightarrow> nat option" where
  "boundary bs expected = boundary_loop bs expected 0 0"

definition byte_position :: "u8 \<Rightarrow> bytes \<Rightarrow> nat option" where
  "byte_position b bs =
     (let n = length (takeWhile (\<lambda>x. x \<noteq> b) bs) in if n < length bs then Some n else None)"

definition is_ascii_digit :: "u8 \<Rightarrow> bool" where
  "is_ascii_digit b = (0x30 \<le> b \<and> b \<le> 0x39)"

fun decimal_value :: "bytes \<Rightarrow> usize \<Rightarrow> usize option" where
  "decimal_value [] v = Some v"
| "decimal_value (b # bs) v =
     (case checked_mul v 10 of
        None \<Rightarrow> None
      | Some v1 \<Rightarrow>
          (case checked_add v1 (unat (b - 0x30)) of None \<Rightarrow> None | Some v2 \<Rightarrow> decimal_value bs v2))"

definition decimal :: "bytes \<Rightarrow> (usize \<times> bytes) option" where
  "decimal bs =
     (case byte_position 0x3A bs of
        None \<Rightarrow> None
      | Some stop \<Rightarrow>
          if stop = 0 \<or> \<not> list_all is_ascii_digit (take stop bs) then None
          else map_option (\<lambda>v. (v, drop (stop + 1) bs)) (decimal_value (take stop bs) 0))"

text \<open>\<open>usize::to_string\<close>\<close>

fun usize_to_string :: "usize \<Rightarrow> bytes" where
  "usize_to_string n =
     (if n < 10 then [0x30 + of_nat n] else usize_to_string (n div 10) @ [0x30 + of_nat (n mod 10)])"

declare usize_to_string.simps [simp del]

definition encode_tagged :: "bytes \<Rightarrow> bytes \<Rightarrow> bytes option \<Rightarrow> bytes option" where
  "encode_tagged chain display original =
     (case utf16_units display of
        None \<Rightarrow> None
      | Some display_units \<Rightarrow>
          (case (case original of
                   Some b \<Rightarrow> map_option Some (utf16_units b)
                 | None \<Rightarrow> Some None) of
             None \<Rightarrow> None
           | Some original_units \<Rightarrow>
               Some ([1] @ chain @ [1] @ HEADER @ usize_to_string display_units @ [0x3A] @
                 (case original_units of Some units \<Rightarrow> usize_to_string units | None \<Rightarrow> [0x2D]) @ [0x3A] @
                 display @ (case original of Some b \<Rightarrow> b | None \<Rightarrow> []))))"

definition strip_prefix :: "bytes \<Rightarrow> bytes \<Rightarrow> bytes option" where
  "strip_prefix p bs = (if take (length p) bs = p then Some (drop (length p) bs) else None)"

definition parse_original :: "bytes \<Rightarrow> (usize option \<times> bytes) option" where
  "parse_original framed =
     (case strip_prefix [0x2D, 0x3A] framed of
        Some framed1 \<Rightarrow> Some (None, framed1)
      | None \<Rightarrow> map_option (\<lambda>(units, framed1). (Some units, framed1)) (decimal framed))"

definition parse_tagged :: "bytes \<Rightarrow> error_frame option" where
  "parse_tagged bs =
     Option.bind (strip_prefix [1] bs) (\<lambda>rest.
     Option.bind (byte_position 1 rest) (\<lambda>stop.
     let chain = take stop rest in
     Option.bind (strip_prefix HEADER (drop (stop + 1) rest)) (\<lambda>framed.
     Option.bind (decimal framed) (\<lambda>(display_units, framed).
     Option.bind (parse_original framed) (\<lambda>(original_units, framed).
     Option.bind (boundary framed display_units) (\<lambda>display_end.
     let display = take display_end framed; framed = drop display_end framed in
     (case original_units of
        Some units \<Rightarrow>
          Option.bind (boundary framed units) (\<lambda>stop.
            Some \<lparr>ef_chain = chain, ef_display = display, ef_original = Some (take stop framed),
                  ef_suffix = drop stop framed\<rparr>)
      | None \<Rightarrow>
          Some \<lparr>ef_chain = chain, ef_display = display, ef_original = None, ef_suffix = framed\<rparr>)))))))"

subsection \<open>The decimal reader\<close>

definition digits_value :: "bytes \<Rightarrow> nat \<Rightarrow> nat" where
  "digits_value ds v = foldl (\<lambda>a b. a * 10 + unat (b - 0x30)) v ds"

lemma digits_value_mono: "v \<le> digits_value ds v"
  unfolding digits_value_def
proof (induction ds arbitrary: v)
  case (Cons d ds)
  have "v \<le> v * 10 + unat (d - 0x30)" by simp
  then show ?case using Cons [of "v * 10 + unat (d - 0x30)"] by simp
qed simp

lemma decimal_value_exact:
  "decimal_value ds v = (if digits_value ds v < usize_limit \<or> ds = [] then Some (digits_value ds v) else None)"
proof (induction ds arbitrary: v)
  case (Cons d ds)
  let ?w = "v * 10 + unat (d - 0x30)"
  have m: "?w \<le> digits_value ds ?w" by (rule digits_value_mono)
  have v: "digits_value (d # ds) v = digits_value ds ?w" by (simp add: digits_value_def)
  show ?case
  proof (cases "?w < usize_limit")
    case True
    then have "decimal_value (d # ds) v = decimal_value ds ?w" by (simp add: checked_mul_def checked_add_def)
    then show ?thesis using True Cons [of ?w] v by (auto simp: digits_value_def)
  next
    case False
    then show ?thesis using m v by (auto simp: checked_mul_def checked_add_def split: option.split)
  qed
qed (simp add: digits_value_def)

lemma byte_position_append: "b \<notin> set xs \<Longrightarrow> byte_position b (xs @ b # ys) = Some (length xs)"
proof -
  assume "b \<notin> set xs"
  then have "takeWhile (\<lambda>x. x \<noteq> b) (xs @ b # ys) = xs" by (induction xs) auto
  then show ?thesis by (simp add: byte_position_def)
qed

lemma byte_position_Some: "byte_position b bs = Some n \<Longrightarrow> \<exists>ys. bs = take n bs @ b # ys \<and> b \<notin> set (take n bs) \<and> n < length bs"
proof -
  assume p: "byte_position b bs = Some n"
  let ?t = "takeWhile (\<lambda>x. x \<noteq> b) bs"
  have n: "n = length ?t" "n < length bs" using p by (auto simp: byte_position_def Let_def split: if_splits)
  have t: "take n bs = ?t" unfolding n by (metis takeWhile_eq_take)
  have "bs ! n = b" using n nth_length_takeWhile [of "\<lambda>x. x \<noteq> b" bs] by simp
  then have "bs = take n bs @ b # drop (Suc n) bs" using n(2) by (metis id_take_nth_drop)
  moreover have "b \<notin> set (take n bs)" unfolding t by (auto dest: set_takeWhileD)
  ultimately show ?thesis using n(2) by blast
qed

lemma decimal_append:
  assumes "ds \<noteq> []" "list_all is_ascii_digit ds"
  shows "decimal (ds @ 0x3A # rest) = (if digits_value ds 0 < usize_limit then Some (digits_value ds 0, rest) else None)"
proof -
  have "0x3A \<notin> set ds" using assms(2) by (auto simp: list_all_iff is_ascii_digit_def)
  then show ?thesis
    using assms by (simp add: decimal_def byte_position_append decimal_value_exact)
qed

lemma usize_to_string_digits:
  "usize_to_string n \<noteq> [] \<and> list_all is_ascii_digit (usize_to_string n) \<and> digits_value (usize_to_string n) 0 = n"
proof (induction n rule: usize_to_string.induct)
  case (1 n)
  have d: "is_ascii_digit (0x30 + of_nat k)" "unat ((0x30 + of_nat k) - 0x30 :: u8) = k" if "k < 10" for k
  proof -
    have "unat (of_nat k :: u8) = k" using that by (simp add: unat_of_nat take_bit_eq_mod)
    moreover have "unat (0x30 + of_nat k :: u8) = 0x30 + k"
      using calculation that by (simp add: unat_word_ariths)
    ultimately show "is_ascii_digit (0x30 + of_nat k)" "unat ((0x30 + of_nat k) - 0x30 :: u8) = k"
      using that by (simp_all add: is_ascii_digit_def word_nat_order)
  qed
  show ?case
  proof (cases "n < 10")
    case True
    then show ?thesis using d [of n] by (simp add: usize_to_string.simps digits_value_def)
  next
    case False
    then have "usize_to_string n = usize_to_string (n div 10) @ [0x30 + of_nat (n mod 10)]"
      by (simp add: usize_to_string.simps [of n])
    then show ?thesis using 1 [OF False] d [of "n mod 10"] by (simp add: digits_value_def)
  qed
qed

lemma decimal_to_string: "n < usize_limit \<Longrightarrow> decimal (usize_to_string n @ 0x3A # rest) = Some (n, rest)"
  using decimal_append [of "usize_to_string n" rest] usize_to_string_digits [of n] by simp

subsection \<open>Boundaries\<close>

lemma encoded_width_append:
  "encoded_width bs i = Some (w, c) \<Longrightarrow> encoded_width (bs @ rest) i = Some (w, c)"
  by (auto simp: encoded_width_def get_range_def nth_append Let_def split: if_splits option.splits)

lemma units_loop_step:
  assumes "i < length bs" "utf16_units_loop bs i u = Some n"
  obtains w c u1 where "encoded_width bs i = Some (w, c)" "checked_add u c = Some u1"
    "utf16_units_loop bs (i + w) u1 = Some n"
  using assms by (auto simp: utf16_units_loop.simps [of bs i u] split: option.splits prod.splits)

lemma units_loop_mono: "utf16_units_loop bs i u = Some n \<Longrightarrow> u \<le> n"
proof (induction bs i u rule: utf16_units_loop.induct)
  case (1 bs i u)
  show ?case
  proof (cases "i < length bs")
    case True
    then obtain w c u1 where e: "encoded_width bs i = Some (w, c)" "checked_add u c = Some u1"
        "utf16_units_loop bs (i + w) u1 = Some n" using "1.prems" by (rule units_loop_step)
    have "u1 \<le> n" by (rule "1.IH" [OF True e(1) refl e(2,3)])
    then show ?thesis using e(2) by (simp add: checked_add_Some_iff)
  qed (use "1.prems" in \<open>simp add: utf16_units_loop.simps\<close>)
qed

lemma boundary_units:
  "utf16_units_loop bs i u = Some n \<Longrightarrow> i \<le> length bs \<Longrightarrow> boundary_loop (bs @ rest) n i u = Some (length bs)"
proof (induction bs i u rule: utf16_units_loop.induct)
  case (1 bs i u)
  show ?case
  proof (cases "i < length bs")
    case True
    then obtain w c u1 where e: "encoded_width bs i = Some (w, c)" "checked_add u c = Some u1"
        "utf16_units_loop bs (i + w) u1 = Some n" using "1.prems"(1) by (rule units_loop_step)
    have b: "0 < c" "i + w \<le> length bs" using encoded_width_bounds [OF e(1)] by auto
    have "u < u1" "u1 \<le> n" using e(2) b(1) units_loop_mono [OF e(3)] by (auto simp: checked_add_Some_iff)
    then have "boundary_loop (bs @ rest) n i u = boundary_loop (bs @ rest) n (i + w) u1"
      using e encoded_width_append [OF e(1)] by (subst boundary_loop.simps) simp
    then show ?thesis using "1.IH" [OF True e(1) refl e(2)] e(3) b(2) by simp
  next
    case False
    then show ?thesis using "1.prems" by (simp add: utf16_units_loop.simps boundary_loop.simps)
  qed
qed

lemma units_loop_limit: "utf16_units_loop bs i u = Some n \<Longrightarrow> u < usize_limit \<Longrightarrow> n < usize_limit"
proof (induction bs i u rule: utf16_units_loop.induct)
  case (1 bs i u)
  show ?case
  proof (cases "i < length bs")
    case True
    then obtain w c u1 where e: "encoded_width bs i = Some (w, c)" "checked_add u c = Some u1"
        "utf16_units_loop bs (i + w) u1 = Some n" using "1.prems"(1) by (rule units_loop_step)
    have "u1 < usize_limit" using e(2) by (simp add: checked_add_Some_iff)
    then show ?thesis by (rule "1.IH" [OF True e(1) refl e(2,3)])
  qed (use "1.prems" in \<open>simp add: utf16_units_loop.simps\<close>)
qed

lemma utf16_units_facts:
  assumes "utf16_units bs = Some n"
  shows "boundary (bs @ rest) n = Some (length bs)" "n < usize_limit"
  using assms boundary_units [of bs 0 0 n] units_loop_limit [of bs 0 0 n]
  by (simp_all add: utf16_units_def boundary_def usize_limit_def)

lemma strip_prefix_append [simp]: "strip_prefix p (p @ rest) = Some rest"
  by (simp add: strip_prefix_def)

lemma strip_dash_digits:
  assumes "list_all is_ascii_digit ds" "ds \<noteq> []"
  shows "strip_prefix [0x2D, 0x3A] (ds @ rest) = None"
  using assms by (cases ds) (auto simp: strip_prefix_def is_ascii_digit_def word_nat_order)

subsection \<open>Agreement with the decoder\<close>

lemma drop_index: "i < length xs \<Longrightarrow> drop i xs = xs ! i # drop (i + 1) xs"
  by (simp add: Cons_nth_drop_Suc)

lemma lead_width_cases:
  "lead_width x = Some (w, c) \<Longrightarrow>
   (0xC2 \<le> unat x \<and> unat x \<le> 0xDF \<and> w = 2 \<and> c = 1) \<or> (0xE0 \<le> unat x \<and> unat x \<le> 0xEF \<and> w = 3 \<and> c = 1) \<or>
   (0xF0 \<le> unat x \<and> unat x \<le> 0xF4 \<and> w = 4 \<and> c = 2)"
  by (auto simp: lead_width_def word_nat_order split: if_splits)

lemma continuation_parts:
  assumes "wtf8_continuation b"
  obtains k where "unat b = 128 + k" "k < 64"
  using assms that [of "unat b mod 64"] div_mult_mod_eq [of "unat b" 64] by (simp add: continuation_iff)

lemma encoded_width_decode:
  assumes "encoded_width bs i = Some (w, c)"
  shows "\<exists>us. length us = c \<and> wtf8_decode_utf16 (drop i bs) = us @ wtf8_decode_utf16 (drop (i + w) bs)"
proof -
  let ?x = "bs ! i"
  have il: "i < length bs" and iw: "i + w \<le> length bs"
    using assms encoded_width_bounds [OF assms] by auto
  have d0: "drop i bs = ?x # drop (i + 1) bs" by (rule drop_index [OF il])
  show ?thesis
  proof (cases "?x < 0x80")
    case True
    then have "w = 1" "c = 1" using assms il by (auto simp: encoded_width_def Let_def)
    then show ?thesis using True d0 by (intro exI [of _ "[ucast ?x]"]) simp
  next
    case False
    then have lead: "lead_width ?x = Some (w, c)"
      and cont: "list_all wtf8_continuation (take (w - 1) (drop (i + 1) bs))"
      and four: "w = 4 \<Longrightarrow> \<not> (?x = 0xF0 \<and> bs ! (i + 1) < 0x90 \<or> ?x = 0xF4 \<and> 0x8F < bs ! (i + 1))"
      using assms il iw
      by (auto simp: encoded_width_def get_range_def Let_def list_ex_iff list_all_iff wtf8_continuation_def
          split: if_splits option.splits)
    have nth: "k < w - 1 \<Longrightarrow> wtf8_continuation (bs ! (i + 1 + k))" for k
      using cont iw by (auto simp: list_all_length)
    from lead_width_cases [OF lead] show ?thesis
    proof (elim disjE conjE)
      assume a: "0xC2 \<le> unat ?x" "unat ?x \<le> 0xDF" "w = 2" "c = 1"
      obtain k where k: "unat (bs ! (i + 1)) = 128 + k" "k < 64" using continuation_parts nth [of 0] a by auto
      have "drop i bs = ?x # bs ! (i + 1) # drop (i + w) bs"
        using d0 drop_index [of "i + 1" bs] iw a by simp
      then show ?thesis
        using decode_two [of ?x "unat ?x - 192" "bs ! (i + 1)" k] k a
        by (intro exI [of _ "[word_of_nat ((unat ?x - 192) * 64 + k)]"]) simp
    next
      assume a: "0xE0 \<le> unat ?x" "unat ?x \<le> 0xEF" "w = 3" "c = 1"
      obtain k where k: "unat (bs ! (i + 1)) = 128 + k" "k < 64" using continuation_parts nth [of 0] a by auto
      obtain l where l: "unat (bs ! (i + 2)) = 128 + l" "l < 64" using continuation_parts nth [of 1] a by auto
      have "drop i bs = ?x # bs ! (i + 1) # bs ! (i + 2) # drop (i + w) bs"
        using d0 drop_index [of "i + 1" bs] drop_index [of "i + 2" bs] iw a by (simp add: numeral_3_eq_3)
      then show ?thesis
        using decode_three [of ?x "unat ?x - 224" "bs ! (i + 1)" k "bs ! (i + 2)" l] k l a
        by (intro exI [of _ "[word_of_nat ((unat ?x - 224) * 4096 + k * 64 + l)]"]) simp
    next
      assume a: "0xF0 \<le> unat ?x" "unat ?x \<le> 0xF4" "w = 4" "c = 2"
      obtain k where k: "unat (bs ! (i + 1)) = 128 + k" "k < 64" using continuation_parts nth [of 0] a by auto
      obtain l where l: "unat (bs ! (i + 2)) = 128 + l" "l < 64" using continuation_parts nth [of 1] a by auto
      obtain j where j: "unat (bs ! (i + 3)) = 128 + j" "j < 64" using continuation_parts nth [of 2] a
        by (auto simp: numeral_3_eq_3)
      define n where "n = (unat ?x - 240) * 262144 + k * 4096 + l * 64 + j"
      have r: "unat ?x = 240 \<Longrightarrow> 16 \<le> k" "unat ?x = 244 \<Longrightarrow> k < 16"
        using four [OF a(3)] k by (auto simp: word_nat_order word_unat_eq_iff)
      have "65536 \<le> n"
        using r(1) a(1) by (cases "unat ?x = 240") (simp_all add: n_def)
      moreover have "n < 1114112"
      proof (cases "unat ?x = 244")
        case True
        then show ?thesis using r(2) l(2) j(2) by (simp add: n_def)
      next
        case False
        then have "unat ?x - 240 \<le> 3" using a(2) by simp
        then show ?thesis using k(2) l(2) j(2) unfolding n_def by linarith
      qed
      ultimately obtain m where m: "n = 65536 + m" "m < 1048576" using le_Suc_ex by fastforce
      have "drop i bs = ?x # bs ! (i + 1) # bs ! (i + 2) # bs ! (i + 3) # drop (i + w) bs"
        using d0 drop_index [of "i + 1" bs] drop_index [of "i + 2" bs] drop_index [of "i + 3" bs] iw a
        by (simp add: numeral_eq_Suc)
      then show ?thesis
        using decode_four [of ?x "unat ?x - 240" "bs ! (i + 1)" k "bs ! (i + 2)" l "bs ! (i + 3)" j m] k l j a m
        by (intro exI [of _ "[word_of_nat (0xD800 + m div 1024), word_of_nat (0xDC00 + m mod 1024)]"])
           (simp add: n_def)
    qed
  qed
qed

lemma units_loop_decode:
  "utf16_units_loop bs i u = Some n \<Longrightarrow> n = u + length (wtf8_decode_utf16 (drop i bs))"
proof (induction bs i u rule: utf16_units_loop.induct)
  case (1 bs i u)
  show ?case
  proof (cases "i < length bs")
    case True
    then obtain w c u1 where e: "encoded_width bs i = Some (w, c)" "checked_add u c = Some u1"
        "utf16_units_loop bs (i + w) u1 = Some n" using "1.prems" by (rule units_loop_step)
    obtain us where "length us = c" "wtf8_decode_utf16 (drop i bs) = us @ wtf8_decode_utf16 (drop (i + w) bs)"
      using encoded_width_decode [OF e(1)] by blast
    then show ?thesis using "1.IH" [OF True e(1) refl e(2,3)] e(2) by (simp add: checked_add_Some_iff)
  qed (use "1.prems" in \<open>simp add: utf16_units_loop.simps\<close>)
qed

subsection \<open>Properties\<close>

text \<open>C12: A frame that \<open>encode_tagged\<close> builds is read back by \<open>parse_tagged\<close> field by field, with
  whatever follows it as the suffix, for every chain without a tag byte: the UTF-16 lengths in
  the header cut the display text and the original text at exactly their last byte, also when
  they hold tag bytes, colons or digits.\<close>

theorem error_frame_round_trip:
  assumes "encode_tagged chain display original = Some out" "1 \<notin> set chain"
  shows "parse_tagged (out @ suffix) =
    Some \<lparr>ef_chain = chain, ef_display = display, ef_original = original, ef_suffix = suffix\<rparr>"
proof -
  obtain d where d: "utf16_units display = Some d" using assms(1) by (auto simp: encode_tagged_def split: option.splits)
  note D = utf16_units_facts [OF d]
  have pre: "parse_tagged ([1] @ chain @ [1] @ HEADER @ usize_to_string d @ [0x3A] @ tail) =
      Option.bind (parse_original tail) (\<lambda>(original_units, framed).
      Option.bind (boundary framed d) (\<lambda>display_end.
      let display = take display_end framed; framed = drop display_end framed in
      (case original_units of
         Some units \<Rightarrow>
           Option.bind (boundary framed units) (\<lambda>stop.
             Some \<lparr>ef_chain = chain, ef_display = display, ef_original = Some (take stop framed),
                   ef_suffix = drop stop framed\<rparr>)
       | None \<Rightarrow>
           Some \<lparr>ef_chain = chain, ef_display = display, ef_original = None, ef_suffix = framed\<rparr>)))" for tail
    using decimal_to_string [OF D(2), of tail] byte_position_append [OF assms(2), of "HEADER @ usize_to_string d @ 0x3A # tail"]
      strip_prefix_append [of "[1]"] strip_prefix_append [of HEADER]
    by (simp add: parse_tagged_def)
  show ?thesis
  proof (cases original)
    case None
    have out: "out = [1] @ chain @ [1] @ HEADER @ usize_to_string d @ [0x3A] @ [0x2D, 0x3A] @ display"
      using assms(1) d None by (simp add: encode_tagged_def)
    show ?thesis
      using pre [of "[0x2D, 0x3A] @ display @ suffix"] D(1) [of suffix] None
        strip_prefix_append [of "[0x2D, 0x3A]" "display @ suffix"]
      by (simp add: out parse_original_def)
  next
    case (Some b)
    obtain n where n: "utf16_units b = Some n" using assms(1) d Some by (auto simp: encode_tagged_def split: option.splits)
    note N = utf16_units_facts [OF n]
    have out: "out = [1] @ chain @ [1] @ HEADER @ usize_to_string d @ [0x3A] @ usize_to_string n @ [0x3A] @ display @ b"
      using assms(1) d n Some by (simp add: encode_tagged_def)
    show ?thesis
      using pre [of "usize_to_string n @ [0x3A] @ display @ b @ suffix"] D(1) [of "b @ suffix"] N(1) [of suffix] Some
        decimal_to_string [OF N(2), of "display @ b @ suffix"] usize_to_string_digits [of n]
        strip_dash_digits [of "usize_to_string n" "0x3A # display @ b @ suffix"]
      by (simp add: out parse_original_def)
  qed
qed

theorem error_frame_round_trip_witness:
  "\<exists>out. encode_tagged [0x45] [0x41, 0xC3, 0xA9] None = Some out \<and>
    parse_tagged (out @ [1, 2]) =
      Some \<lparr>ef_chain = [0x45], ef_display = [0x41, 0xC3, 0xA9], ef_original = None, ef_suffix = [1, 2]\<rparr>"
proof -
  have "utf16_units [0x41, 0xC3, 0xA9] = Some 2"
    by (simp add: utf16_units_def utf16_units_loop.simps encoded_width_def lead_width_def get_range_def
        checked_add_def usize_limit_def)
  then obtain out where "encode_tagged [0x45] [0x41, 0xC3, 0xA9] None = Some out"
    by (simp add: encode_tagged_def)
  then show ?thesis using error_frame_round_trip [of "[0x45]" "[0x41, 0xC3, 0xA9]" None _ "[1, 2]"] by simp
qed

text \<open>The decimal reader accepts exactly a non-empty run of digits, ended by a colon, whose value
  fits in 64 bits, and returns that value; a run that would overflow is rejected, never wrapped.\<close>

theorem decimal_exact:
  "decimal bs = Some (v, rest) \<longleftrightarrow>
   (\<exists>ds. ds \<noteq> [] \<and> list_all is_ascii_digit ds \<and> bs = ds @ 0x3A # rest \<and> v = digits_value ds 0 \<and> v < 2 ^ 64)"
proof
  assume a: "decimal bs = Some (v, rest)"
  then obtain stop where p: "byte_position 0x3A bs = Some stop" "stop \<noteq> 0"
      "list_all is_ascii_digit (take stop bs)" "decimal_value (take stop bs) 0 = Some v" "rest = drop (stop + 1) bs"
    by (auto simp: decimal_def split: option.splits if_splits)
  obtain ys where y: "bs = take stop bs @ 0x3A # ys" "stop < length bs" using byte_position_Some [OF p(1)] by blast
  have "rest = ys" unfolding p(5) by (subst y(1)) (use y(2) in simp)
  moreover have "take stop bs \<noteq> []" using p(2) y(2) by auto
  ultimately show "\<exists>ds. ds \<noteq> [] \<and> list_all is_ascii_digit ds \<and> bs = ds @ 0x3A # rest \<and> v = digits_value ds 0 \<and> v < 2 ^ 64"
    using p(3,4) y(1) by (intro exI [of _ "take stop bs"]) (auto simp: decimal_value_exact usize_limit_def split: if_splits)
next
  assume "\<exists>ds. ds \<noteq> [] \<and> list_all is_ascii_digit ds \<and> bs = ds @ 0x3A # rest \<and> v = digits_value ds 0 \<and> v < 2 ^ 64"
  then show "decimal bs = Some (v, rest)" by (auto simp: decimal_append usize_limit_def)
qed

text \<open>The counter that the frame header carries counts what the decoder produces: bytes whose
  units can be counted decode to exactly that many UTF-16 code units.\<close>

theorem utf16_units_decode:
  assumes "utf16_units bs = Some n"
  shows "length (wtf8_decode_utf16 bs) = n"
  using units_loop_decode [of bs 0 0 n] assms by (simp add: utf16_units_def)

theorem utf16_units_decode_witness: "length (wtf8_decode_utf16 [0x41, 0xC3, 0xA9]) = 2"
  by (rule utf16_units_decode)
     (simp add: utf16_units_def utf16_units_loop.simps encoded_width_def lead_width_def get_range_def
        checked_add_def usize_limit_def)

end
