(* ===== verification/Exception_Packets.thy ===== *)
theory Exception_Packets
  imports Arena_Properties "HOL-Library.Multiset"
begin

text \<open>
  \<open>crates/thaw-arena/src/exception.rs\<close> and the table of owned exceptions in \<open>strings.rs\<close>: exception
  packets are reference counted, the packet table holds weak references, and an owned result
  string may carry one packet. A packet is known by its id, so a reference \<open>Rc<ExceptionPacket>\<close>
  is that id and the strong counts are a table; the leases of a packet are opaque to the crate,
  which only drops them, and have no field here.
\<close>

subsection \<open>State\<close>

record exception_packet =
  pk_id :: nat
  pk_pending :: usize
  pk_native_text :: usize
  pk_native_error_identity :: usize
  pk_object :: usize
  pk_native :: usize
  pk_aggregate :: usize
  pk_tag :: u64
  pk_number :: u64
  pk_bigint :: u64
  pk_boolean :: u64
  pk_roots :: "usize list"
  pk_owned_bytes :: "usize list"

record 'b native_state =
  thr :: "'b thread_state"
  next_packet_id :: nat
  packets :: "(nat \<times> exception_packet) list"
  strong_counts :: "(nat \<times> nat) list"
  owned_exceptions :: "(usize \<times> nat) list"
  owned_lengths :: "(usize \<times> usize) list"
  graph_transfers :: "(usize \<times> bytes) list"

definition init_native :: "'b thread_state \<Rightarrow> 'b native_state" where
  "init_native t = \<lparr>thr = t, next_packet_id = 0, packets = [], strong_counts = [], owned_exceptions = [],
     owned_lengths = [], graph_transfers = []\<rparr>"

subsection \<open>Exception bytes\<close>

definition register_exception_bytes :: "usize \<Rightarrow> usize \<Rightarrow> 'b thread_state \<Rightarrow> 'b thread_state" where
  "register_exception_bytes pointer len s =
     (if pointer \<noteq> 0 then s\<lparr>lengths := hm_insert pointer (len, True) (lengths s)\<rparr> else s)"

definition unregister_exception_bytes :: "usize \<Rightarrow> 'b thread_state \<Rightarrow> 'b thread_state" where
  "unregister_exception_bytes pointer s =
     (if pointer \<noteq> 0 then s\<lparr>lengths := hm_remove pointer (lengths s)\<rparr> else s)"

subsection \<open>Packets\<close>

definition strong_count :: "'b native_state \<Rightarrow> nat \<Rightarrow> nat" where
  "strong_count s i = (case hm_get (strong_counts s) i of None \<Rightarrow> 0 | Some c \<Rightarrow> c)"

text \<open>\<open>Drop for ExceptionPacket\<close>, then the drop of its roots.\<close>

definition drop_packet :: "exception_packet \<Rightarrow> 'b native_state \<Rightarrow> 'b native_state" where
  "drop_packet p s =
     (let s1 = s\<lparr>thr := fold unregister_exception_bytes (pk_owned_bytes p) (thr s)\<rparr>;
          s2 = (if hm_get (packets s1) (pk_id p) \<noteq> None \<and> strong_count s1 (pk_id p) = 0
                then s1\<lparr>packets := hm_remove (pk_id p) (packets s1)\<rparr> else s1)
      in s2\<lparr>thr := fold arena_root_drop (pk_roots p) (thr s2)\<rparr>)"

definition rc_clone :: "nat \<Rightarrow> 'b native_state \<Rightarrow> 'b native_state" where
  "rc_clone i s = s\<lparr>strong_counts := hm_insert i (strong_count s i + 1) (strong_counts s)\<rparr>"

definition rc_drop :: "nat \<Rightarrow> 'b native_state \<Rightarrow> 'b native_state" where
  "rc_drop i s =
     (let s1 = s\<lparr>strong_counts := hm_insert i (strong_count s i - 1) (strong_counts s)\<rparr> in
      if strong_count s i = 1
      then (case hm_get (packets s) i of None \<Rightarrow> s1 | Some p \<Rightarrow> drop_packet p s1)
      else s1)"

definition register_packet :: "exception_packet \<Rightarrow> 'b native_state \<Rightarrow> nat option \<times> 'b native_state" where
  "register_packet p s =
     (case checked_add (next_packet_id s) 1 of
        None \<Rightarrow> (None, drop_packet p s)
      | Some i \<Rightarrow>
          (Some i, s\<lparr>next_packet_id := i, packets := hm_insert i (p\<lparr>pk_id := i\<rparr>) (packets s),
                     strong_counts := hm_insert i 1 (strong_counts s)\<rparr>))"

text \<open>\<open>Weak::upgrade\<close> succeeds while the strong count is positive, and counts the new reference.\<close>

definition packet :: "nat \<Rightarrow> 'b native_state \<Rightarrow> exception_packet option \<times> 'b native_state" where
  "packet i s =
     (if i = 0 then (None, s)
      else (case hm_get (packets s) i of
              None \<Rightarrow> (None, s)
            | Some p \<Rightarrow> if 0 < strong_count s i then (Some p, rc_clone i s) else (None, s)))"

definition is_live :: "nat \<Rightarrow> 'b native_state \<Rightarrow> bool" where
  "is_live i s = (fst (packet i s) \<noteq> None)"

definition packet_field :: "exception_packet \<Rightarrow> nat \<Rightarrow> u64 option" where
  "packet_field p index =
     (if index = 0 then Some (pk_tag p)
      else if index = 1 then Some (pk_number p)
      else if index = 2 then Some (pk_bigint p)
      else if index = 3 then Some (pk_boolean p)
      else if index = 4 then Some (of_nat (pk_object p))
      else if index = 5 then Some (of_nat (pk_native p))
      else if index = 6 then Some (of_nat (pk_pending p))
      else if index = 7 then Some (of_nat (pk_native_text p))
      else if index = 8 then Some (of_nat (pk_aggregate p))
      else None)"

text \<open>\<open>field\<close> upgrades the packet for the time of the call, so the counts are as before it.\<close>

definition field :: "nat \<Rightarrow> nat \<Rightarrow> 'b native_state \<Rightarrow> u64 option" where
  "field i index s =
     (case fst (packet i s) of None \<Rightarrow> None | Some p \<Rightarrow> packet_field p index)"

subsection \<open>Packets bound to owned strings\<close>

text \<open>The reference moves into the table, or is dropped when the pointer is null or taken.\<close>

definition bind_owned_exception :: "usize \<Rightarrow> nat \<Rightarrow> 'b native_state \<Rightarrow> bool \<times> 'b native_state" where
  "bind_owned_exception pointer i s =
     (if pointer = 0 then (False, rc_drop i s)
      else if hm_get (owned_exceptions s) pointer \<noteq> None then (False, rc_drop i s)
      else (True, s\<lparr>owned_exceptions := hm_insert pointer i (owned_exceptions s)\<rparr>))"

definition take_owned_exception :: "usize \<Rightarrow> 'b native_state \<Rightarrow> nat option \<times> 'b native_state" where
  "take_owned_exception pointer s =
     (if pointer = 0 then (None, s)
      else (hm_get (owned_exceptions s) pointer,
            s\<lparr>owned_exceptions := hm_remove pointer (owned_exceptions s)\<rparr>))"

definition owned_exception :: "usize \<Rightarrow> 'b native_state \<Rightarrow> nat option \<times> 'b native_state" where
  "owned_exception pointer s =
     (if pointer = 0 then (None, s)
      else (case hm_get (owned_exceptions s) pointer of
              None \<Rightarrow> (None, s)
            | Some i \<Rightarrow> (Some i, rc_clone i s)))"

subsection \<open>Owners\<close>

text \<open>The references outside the table are a multiset of ids; together with the table entries they
  are the owners of the packets.\<close>

definition bound_packets :: "'b native_state \<Rightarrow> nat multiset" where
  "bound_packets s = mset (map snd (owned_exceptions s))"

inductive packet_step ::
    "'b native_state \<times> nat multiset \<Rightarrow> 'b native_state \<times> nat multiset \<Rightarrow> bool" where
  ps_register: "register_packet p s = (Some i, s') \<Longrightarrow> packet_step (s, hs) (s', add_mset i hs)"
| ps_register_full: "register_packet p s = (None, s') \<Longrightarrow> packet_step (s, hs) (s', hs)"
| ps_packet: "packet i s = (Some p, s') \<Longrightarrow> packet_step (s, hs) (s', add_mset i hs)"
| ps_clone: "i \<in># hs \<Longrightarrow> packet_step (s, hs) (rc_clone i s, add_mset i hs)"
| ps_drop: "packet_step (s, add_mset i hs) (rc_drop i s, hs)"
| ps_bind: "bind_owned_exception pointer i s = (b, s') \<Longrightarrow> packet_step (s, add_mset i hs) (s', hs)"
| ps_take: "take_owned_exception pointer s = (Some i, s') \<Longrightarrow> packet_step (s, hs) (s', add_mset i hs)"
| ps_take_none: "take_owned_exception pointer s = (None, s') \<Longrightarrow> packet_step (s, hs) (s', hs)"
| ps_owned: "owned_exception pointer s = (Some i, s') \<Longrightarrow> packet_step (s, hs) (s', add_mset i hs)"

inductive packet_reachable :: "'b native_state \<times> nat multiset \<Rightarrow> bool" where
  pr_init: "packet_reachable (init_native t, {#})"
| pr_step: "packet_reachable c \<Longrightarrow> packet_step c c' \<Longrightarrow> packet_reachable c'"

text \<open>The weak table holds exactly the packets with a positive count, each under its own id.\<close>

definition table_ok :: "(nat \<Rightarrow> nat) \<Rightarrow> (nat \<Rightarrow> exception_packet option) \<Rightarrow> nat \<Rightarrow> bool" where
  "table_ok sc pk n \<longleftrightarrow>
     (\<forall>i. (0 < sc i \<longleftrightarrow> pk i \<noteq> None) \<and> (\<forall>p. pk i = Some p \<longrightarrow> pk_id p = i \<and> 0 < i \<and> i \<le> n))"

definition packet_inv :: "'b native_state \<Rightarrow> nat multiset \<Rightarrow> bool" where
  "packet_inv s hs \<longleftrightarrow>
     distinct (map fst (owned_exceptions s)) \<and>
     (\<forall>i. strong_count s i = count (hs + bound_packets s) i) \<and>
     table_ok (strong_count s) (hm_get (packets s)) (next_packet_id s)"

lemma packet_invD:
  assumes "packet_inv s hs"
  shows "distinct (map fst (owned_exceptions s))" "strong_count s i = count (hs + bound_packets s) i"
    "table_ok (strong_count s) (hm_get (packets s)) (next_packet_id s)"
  using assms by (simp_all add: packet_inv_def)

lemma table_ok_pos: "table_ok sc pk n \<Longrightarrow> 0 < sc i \<longleftrightarrow> pk i \<noteq> None"
  unfolding table_ok_def by blast

lemma table_ok_packet: "table_ok sc pk n \<Longrightarrow> pk i = Some p \<Longrightarrow> pk_id p = i \<and> 0 < i \<and> i \<le> n"
  unfolding table_ok_def by blast

lemma mset_hm_insert_new:
  "hm_get m k = None \<Longrightarrow> mset (map snd (hm_insert k v m)) = add_mset v (mset (map snd m))"
  by (induction m) (auto simp: hm_get_def hm_insert_def split: if_splits)

lemma hm_remove_absent: "hm_get m k = None \<Longrightarrow> hm_remove k m = m"
  unfolding hm_get_def hm_remove_def map_of_eq_None_iff by (induction m) auto

lemma mset_hm_remove:
  "distinct (map fst m) \<Longrightarrow> hm_get m k = Some v \<Longrightarrow>
   mset (map snd m) = add_mset v (mset (map snd (hm_remove k m)))"
proof (induction m)
  case (Cons e m)
  obtain k1 v1 where e: "e = (k1, v1)" by (cases e)
  show ?case
  proof (cases "k1 = k")
    case True
    then have "hm_remove k m = m" using Cons.prems e by (intro hm_remove_absent) (simp add: hm_get_def map_of_eq_None_iff)
    then show ?thesis using True Cons.prems e by (simp add: hm_get_def hm_remove_def AList.delete_eq)
  next
    case False
    then show ?thesis using Cons e by (simp add: hm_get_def hm_remove_def AList.delete_eq)
  qed
qed (simp add: hm_get_def)

lemma strong_count_update [simp]:
  "strong_count (s\<lparr>strong_counts := hm_insert i c m\<rparr>) j =
     (if j = i then c else (case hm_get m j of None \<Rightarrow> 0 | Some c \<Rightarrow> c))"
  by (simp add: strong_count_def)

lemma strong_count_frame [simp]:
  "strong_count (s\<lparr>thr := t\<rparr>) = strong_count s" "strong_count (s\<lparr>packets := q\<rparr>) = strong_count s"
  "strong_count (s\<lparr>owned_exceptions := x\<rparr>) = strong_count s" "strong_count (s\<lparr>next_packet_id := n\<rparr>) = strong_count s"
  by (auto simp: strong_count_def fun_eq_iff)

lemma drop_packet_fields [simp]:
  "strong_count (drop_packet p s) = strong_count s" "owned_exceptions (drop_packet p s) = owned_exceptions s"
  "next_packet_id (drop_packet p s) = next_packet_id s"
  "packets (drop_packet p s) =
     (if hm_get (packets s) (pk_id p) \<noteq> None \<and> strong_count s (pk_id p) = 0
      then hm_remove (pk_id p) (packets s) else packets s)"
  by (auto simp: drop_packet_def Let_def)

lemma packet_inv_clone:
  assumes "packet_inv s hs" "0 < strong_count s i"
  shows "packet_inv (rc_clone i s) (add_mset i hs)"
proof -
  have c: "strong_count (rc_clone i s) = (strong_count s)(i := strong_count s i + 1)"
    by (rule ext) (simp add: rc_clone_def, simp add: strong_count_def)
  have f: "packets (rc_clone i s) = packets s" "owned_exceptions (rc_clone i s) = owned_exceptions s"
      "next_packet_id (rc_clone i s) = next_packet_id s" "bound_packets (rc_clone i s) = bound_packets s"
    by (simp_all add: rc_clone_def bound_packets_def)
  have "table_ok ((strong_count s)(i := strong_count s i + 1)) (hm_get (packets s)) (next_packet_id s)"
    using packet_invD(3) [OF assms(1)] assms(2) by (auto simp: table_ok_def)
  then show ?thesis using packet_invD(1,2) [OF assms(1)] unfolding packet_inv_def c f by auto
qed

lemma packet_inv_drop:
  assumes "packet_inv s (add_mset i hs)"
  shows "packet_inv (rc_drop i s) hs"
proof -
  let ?s1 = "s\<lparr>strong_counts := hm_insert i (strong_count s i - 1) (strong_counts s)\<rparr>"
  have c1: "strong_count ?s1 = (strong_count s)(i := strong_count s i - 1)"
    by (rule ext) (simp, simp add: strong_count_def)
  have pos: "0 < strong_count s i" using packet_invD(2) [OF assms, of i] by simp
  then obtain p where p: "hm_get (packets s) i = Some p" "pk_id p = i"
    using packet_invD(3) [OF assms] by (auto simp: table_ok_def)
  have one: "strong_count s i = 1 \<or> 0 < strong_count s i - 1" using pos by linarith
  have c: "strong_count (rc_drop i s) = (strong_count s)(i := strong_count s i - 1)"
    unfolding c1 [symmetric] using p by (simp add: rc_drop_def Let_def del: strong_count_update)
  have f: "owned_exceptions (rc_drop i s) = owned_exceptions s" "next_packet_id (rc_drop i s) = next_packet_id s"
    using p by (simp_all add: rc_drop_def Let_def)
  have k: "hm_get (packets (rc_drop i s)) = (hm_get (packets s))(i := if strong_count s i = 1 then None else Some p)"
    using p c1 by (auto simp: rc_drop_def Let_def fun_eq_iff simp del: strong_count_update)
  have "table_ok ((strong_count s)(i := strong_count s i - 1))
      ((hm_get (packets s))(i := if strong_count s i = 1 then None else Some p)) (next_packet_id s)"
    using table_ok_pos [OF packet_invD(3) [OF assms]] table_ok_packet [OF packet_invD(3) [OF assms]] p one
    by (auto simp: table_ok_def)
  then show ?thesis
    using packet_invD(1,2) [OF assms] unfolding packet_inv_def c f k by (auto simp: bound_packets_def f)
qed

lemma packet_inv_register:
  assumes "packet_inv s hs" "register_packet p s = (Some i, s')"
  shows "packet_inv s' (add_mset i hs)" "hm_get (packets s) i = None" "next_packet_id s < i"
proof -
  have i: "i = next_packet_id s + 1" and
    s': "s' = s\<lparr>next_packet_id := i, packets := hm_insert i (p\<lparr>pk_id := i\<rparr>) (packets s),
                strong_counts := hm_insert i 1 (strong_counts s)\<rparr>"
    using assms(2) by (auto simp: register_packet_def checked_add_Some_iff split: option.splits)
  note t = packet_invD(3) [OF assms(1)]
  show new: "hm_get (packets s) i = None" using t i unfolding table_ok_def
    by (metis Suc_eq_plus1 Suc_n_not_le_n not_None_eq)
  then have z: "strong_count s i = 0" using table_ok_pos [OF t, of i] by simp
  have c: "strong_count s' = (strong_count s)(i := 1)"
    unfolding s' by (rule ext) (simp add: strong_count_def)
  have f: "hm_get (packets s') = (hm_get (packets s))(i := Some (p\<lparr>pk_id := i\<rparr>))"
      "owned_exceptions s' = owned_exceptions s" "next_packet_id s' = i" "bound_packets s' = bound_packets s"
    unfolding s' by (auto simp: bound_packets_def)
  have "table_ok ((strong_count s)(i := 1)) ((hm_get (packets s))(i := Some (p\<lparr>pk_id := i\<rparr>))) i"
    using t i by (auto simp: table_ok_def le_SucI)
  then show "packet_inv s' (add_mset i hs)"
    using packet_invD(1,2) [OF assms(1)] z unfolding packet_inv_def c f by auto
  show "next_packet_id s < i" using i by simp
qed

lemma packet_inv_table:
  assumes "packet_inv s hs"
  shows "hm_get (owned_exceptions s) q = None \<Longrightarrow> hs = add_mset i hs' \<Longrightarrow>
      packet_inv (s\<lparr>owned_exceptions := hm_insert q i (owned_exceptions s)\<rparr>) hs'"
    "hm_get (owned_exceptions s) q = Some i \<Longrightarrow>
      packet_inv (s\<lparr>owned_exceptions := hm_remove q (owned_exceptions s)\<rparr>) (add_mset i hs)"
  using assms mset_hm_insert_new [of "owned_exceptions s" q i] mset_hm_remove [of "owned_exceptions s" q i]
  by (simp_all add: packet_inv_def bound_packets_def distinct_hm_insert distinct_hm_remove)

lemma owner_counted: "packet_inv s hs \<Longrightarrow> i \<in># hs + bound_packets s \<longleftrightarrow> 0 < strong_count s i"
  by (simp only: packet_invD(2) count_greater_zero_iff)

lemma packet_inv_step: "packet_step c c' \<Longrightarrow> packet_inv (fst c) (snd c) \<Longrightarrow> packet_inv (fst c') (snd c')"
proof (induction rule: packet_step.induct)
  case (ps_register p s i s' hs)
  then show ?case using packet_inv_register by simp
next
  case (ps_register_full p s s' hs)
  then have s': "s' = drop_packet p s" by (auto simp: register_packet_def split: option.splits)
  have "packets (drop_packet p s) = packets s"
    using table_ok_pos [OF packet_invD(3) [OF ps_register_full.prems], of "pk_id p"] by auto
  then show ?case using ps_register_full.prems unfolding s' packet_inv_def bound_packets_def by simp
next
  case (ps_packet i s p s' hs)
  then have "s' = rc_clone i s" "0 < strong_count s i" by (auto simp: packet_def split: if_splits option.splits)
  then show ?case using packet_inv_clone ps_packet.prems by simp
next
  case (ps_clone i hs s)
  then have "0 < strong_count s i" using owner_counted by fastforce
  then show ?case using packet_inv_clone ps_clone by simp
next
  case (ps_drop s i hs)
  then show ?case using packet_inv_drop by simp
next
  case (ps_bind pointer i s b s' hs)
  then show ?case using packet_inv_drop [of s i hs] packet_inv_table(1) [of s "add_mset i hs" pointer i hs]
    by (auto simp: bind_owned_exception_def split: if_splits)
next
  case (ps_take pointer s i s' hs)
  then show ?case using packet_inv_table(2) [of s hs pointer i]
    by (auto simp: take_owned_exception_def split: if_splits)
next
  case (ps_take_none pointer s s' hs)
  then show ?case using hm_remove_absent [of "owned_exceptions s" pointer]
    by (auto simp: take_owned_exception_def split: if_splits)
next
  case (ps_owned pointer s i s' hs)
  then have g: "hm_get (owned_exceptions s) pointer = Some i" "s' = rc_clone i s"
    by (auto simp: owned_exception_def split: if_splits option.splits)
  have "i \<in># bound_packets s" using g(1) by (force simp: bound_packets_def hm_get_def dest: map_of_SomeD)
  then have "0 < strong_count s i" using ps_owned.prems owner_counted by fastforce
  then show ?case using packet_inv_clone ps_owned.prems g(2) by simp
qed

lemma packet_inv_reachable: "packet_reachable c \<Longrightarrow> packet_inv (fst c) (snd c)"
proof (induction rule: packet_reachable.induct)
  case (pr_init t)
  then show ?case by (simp add: packet_inv_def table_ok_def init_native_def bound_packets_def strong_count_def)
qed (rule packet_inv_step)

lemma is_live_iff:
  assumes "packet_inv s hs"
  shows "is_live i s \<longleftrightarrow> i \<in># hs + bound_packets s"
proof -
  note t = packet_invD(3) [OF assms]
  have "is_live i s \<longleftrightarrow> 0 < strong_count s i"
    using table_ok_pos [OF t, of i] table_ok_packet [OF t, of i]
    by (auto simp: is_live_def packet_def split: option.splits)
  then show ?thesis using owner_counted [OF assms] by simp
qed

subsection \<open>Properties\<close>

text \<open>C13: A packet is readable exactly while it has an owner: in every reachable state \<open>is_live\<close> holds
  of an id exactly when some reference to it is held or it is bound to an owned string, and the
  strong count is the number of those owners, so no packet is freed under an owner or kept
  without one.\<close>

theorem packet_live_while_owned:
  assumes "packet_reachable (s, hs)"
  shows "is_live i s = (i \<in># hs \<or> i \<in> snd ` set (owned_exceptions s)) \<and>
    strong_count s i = count hs i + count (mset (map snd (owned_exceptions s))) i"
  using packet_inv_reachable [OF assms] is_live_iff [of s hs i] packet_invD(2) [of s hs i]
  by (auto simp: bound_packets_def)

definition some_packet :: exception_packet where
  "some_packet = \<lparr>pk_id = 0, pk_pending = 0, pk_native_text = 0, pk_native_error_identity = 0, pk_object = 8,
     pk_native = 0, pk_aggregate = 0, pk_tag = 2, pk_number = 0, pk_bigint = 0, pk_boolean = 0,
     pk_roots = [], pk_owned_bytes = []\<rparr>"

theorem packet_live_while_owned_witness:
  "is_live 1 (snd (register_packet some_packet (init_native two_blocks)))"
proof -
  have "register_packet some_packet (init_native two_blocks) =
      (Some 1, snd (register_packet some_packet (init_native two_blocks)))"
    by (simp add: register_packet_def init_native_def checked_add_def usize_limit_def)
  then have "packet_reachable (snd (register_packet some_packet (init_native two_blocks)), add_mset 1 {#})"
    by (intro pr_step [OF pr_init] ps_register)
  from packet_live_while_owned [OF this, of 1] show ?thesis by simp
qed

text \<open>Packet ids are never reused: a registered packet gets an id above every id handed out
  before, which names no live packet, and its fields are then readable through that id.\<close>

theorem packet_id_fresh:
  assumes "packet_reachable (s, hs)" "register_packet p s = (Some i, s')"
  shows "next_packet_id s < i \<and> next_packet_id s' = i \<and> \<not> is_live i s \<and>
    (\<forall>index. field i index s' = packet_field p index)"
proof -
  note inv = packet_inv_reachable [OF assms(1), simplified]
  note r = packet_inv_register [OF inv assms(2)]
  have s': "next_packet_id s' = i" "hm_get (packets s') i = Some (p\<lparr>pk_id := i\<rparr>)" "strong_count s' i = 1" "i \<noteq> 0"
    using assms(2) by (auto simp: register_packet_def checked_add_Some_iff split: option.splits)
  have "\<not> is_live i s" using r(2) by (simp add: is_live_def packet_def)
  moreover have "field i index s' = packet_field p index" for index
    using s' by (simp add: field_def packet_def packet_field_def)
  ultimately show ?thesis using r(3) s'(1) by blast
qed

theorem packet_id_fresh_witness:
  "field 1 4 (snd (register_packet some_packet (init_native two_blocks))) = Some 8"
proof -
  have r: "register_packet some_packet (init_native two_blocks) =
      (Some 1, snd (register_packet some_packet (init_native two_blocks)))"
    by (simp add: register_packet_def init_native_def checked_add_def usize_limit_def)
  show ?thesis using packet_id_fresh [OF pr_init r] by (simp add: packet_field_def some_packet_def)
qed

end
