(* ===== verification/Native_Strings.thy ===== *)
theory Native_Strings
  imports Exception_Packets
begin

text \<open>
  Native strings of \<open>crates/thaw-arena/src/strings.rs\<close>: NUL-terminated bytes with a side table of
  lengths for strings that hold a NUL, arena strings, the in-place append, owned strings and the
  one-shot grants over owned graph strings. A borrowed string is a slice of memory, or the static
  text that a null pointer stands for; reading a C string that no NUL ends is the value \<open>None\<close>.
  The address of an owned string is the result of the global allocator, an argument here.
\<close>

subsection \<open>Borrowed strings\<close>

datatype native_str = Static_bytes bytes | Slice usize usize

text \<open>\<open>CStr::from_ptr\<close>: the number of bytes before the first NUL.\<close>

partial_function (option) cstr_length :: "memory \<Rightarrow> usize \<Rightarrow> nat option" where
  "cstr_length m p = (if m p = 0 then Some 0 else Option.bind (cstr_length m (p + 1)) (\<lambda>n. Some (n + 1)))"

definition undefined_text :: bytes where
  "undefined_text = [0x75, 0x6E, 0x64, 0x65, 0x66, 0x69, 0x6E, 0x65, 0x64]"

definition from_ptr :: "'b native_state \<Rightarrow> usize \<Rightarrow> native_str option" where
  "from_ptr s pointer =
     (if pointer = 0 then Some (Static_bytes undefined_text)
      else (case (case hm_get (lengths (thr s)) pointer of
                    Some (len, _) \<Rightarrow> Some len
                  | None \<Rightarrow> hm_get (owned_lengths s) pointer) of
              Some len \<Rightarrow> Some (Slice pointer len)
            | None \<Rightarrow> map_option (Slice pointer) (cstr_length (mem (thr s)) pointer)))"

fun to_bytes :: "memory \<Rightarrow> native_str \<Rightarrow> bytes" where
  "to_bytes m (Static_bytes bs) = bs"
| "to_bytes m (Slice p n) = read_bytes_at m p n"

definition native_bytes :: "'b native_state \<Rightarrow> usize \<Rightarrow> bytes option" where
  "native_bytes s pointer = map_option (to_bytes (mem (thr s))) (from_ptr s pointer)"

definition thaw_string_byte_length :: "'b native_state \<Rightarrow> usize \<Rightarrow> usize option" where
  "thaw_string_byte_length s pointer = map_option length (native_bytes s pointer)"

subsection \<open>Registration\<close>

definition thaw_string_register :: "usize \<Rightarrow> usize \<Rightarrow> 'b thread_state \<Rightarrow> 'b thread_state" where
  "thaw_string_register pointer len t =
     (if 0 \<in> set (read_bytes_at (mem t) pointer len)
      then t\<lparr>lengths := hm_insert pointer (len, False) (lengths t)\<rparr> else t)"

definition thaw_string_register_literal :: "usize \<Rightarrow> usize \<Rightarrow> 'b thread_state \<Rightarrow> 'b thread_state" where
  "thaw_string_register_literal pointer len t = t\<lparr>lengths := hm_insert pointer (len, True) (lengths t)\<rparr>"

definition register_native_error_alias :: "usize \<Rightarrow> usize \<Rightarrow> 'b thread_state \<Rightarrow> 'b thread_state" where
  "register_native_error_alias copy identity t =
     (if copy = 0 \<or> identity = 0 then t
      else (let t1 = register_reset_hook ClearNativeErrorAliases t
            in t1\<lparr>native_error_aliases := hm_insert copy identity (native_error_aliases t1)\<rparr>))"

definition native_error_alias :: "usize \<Rightarrow> 'b thread_state \<Rightarrow> usize option" where
  "native_error_alias pointer t = hm_get (native_error_aliases t) pointer"

subsection \<open>Arena strings\<close>

definition write_mem :: "usize \<Rightarrow> bytes \<Rightarrow> 'b thread_state \<Rightarrow> 'b thread_state" where
  "write_mem p bs t = t\<lparr>mem := write_bytes_at (mem t) p bs\<rparr>"

definition arena_string :: "'b bump_ops \<Rightarrow> bytes \<Rightarrow> 'b native_state \<Rightarrow> usize \<times> 'b native_state" where
  "arena_string B bs s =
     (case checked_add (length bs) 1 of
        None \<Rightarrow> (0, s)
      | Some sz \<Rightarrow>
          (let (pointer, t) = thaw_arena_alloc B sz 1 (thr s) in
           if pointer \<noteq> 0
           then (pointer, s\<lparr>thr := thaw_string_register pointer (length bs)
                   (write_mem (pointer + length bs) [0] (write_mem pointer bs t))\<rparr>)
           else (pointer, s\<lparr>thr := t\<rparr>)))"

text \<open>The three words that codegen keeps for a loop-local \<open>s += right\<close>.\<close>

record append_state =
  ap_owned :: usize
  ap_length :: usize
  ap_capacity :: usize

definition thaw_string_append_owned ::
    "'b bump_ops \<Rightarrow> usize \<Rightarrow> usize \<Rightarrow> append_state \<Rightarrow> 'b native_state \<Rightarrow>
     (usize \<times> append_state \<times> 'b native_state) option" where
  "thaw_string_append_owned B left right st s =
     Option.bind (from_ptr s right) (\<lambda>right_str.
     let right_bytes = to_bytes (mem (thr s)) right_str;
         right_clean = (0 \<notin> set right_bytes);
         owned_left = (ap_owned st \<noteq> 0 \<and> ap_owned st = left);
         total = ap_length st + length right_bytes
     in if owned_left \<and> right_clean \<and> total < ap_capacity st
        then Some (left, st\<lparr>ap_length := total\<rparr>,
               s\<lparr>thr := write_mem (left + total) [0] (write_mem (left + ap_length st) right_bytes (thr s))\<rparr>)
        else
          Option.bind (from_ptr s left) (\<lambda>left_str.
          let left_bytes = to_bytes (mem (thr s)) left_str;
              total = length left_bytes + length right_bytes;
              clean = (right_clean \<and> 0 \<notin> set left_bytes);
              spare = (if \<not> clean then 0 else if owned_left then total else total div 8 + 16);
              (out, t) = thaw_arena_alloc B (total + spare + 1) 1 (thr s)
          in if out = 0 then Some (0, st, s\<lparr>thr := t\<rparr>)
             else
               (let t1 = write_mem out (to_bytes (mem t) left_str) t;
                    t2 = write_mem (out + length left_bytes) (to_bytes (mem t1) right_str) t1;
                    t3 = thaw_string_register out total (write_mem (out + total) [0] t2)
                in Some (out,
                     (if clean then \<lparr>ap_owned = out, ap_length = total, ap_capacity = total + spare + 1\<rparr>
                      else st\<lparr>ap_owned := 0\<rparr>),
                     s\<lparr>thr := t3\<rparr>))))"

subsection \<open>Owned strings\<close>

definition owned_string :: "usize \<Rightarrow> bytes \<Rightarrow> 'b native_state \<Rightarrow> usize \<times> 'b native_state" where
  "owned_string pointer bs s =
     (let s1 = s\<lparr>thr := write_mem pointer (bs @ [0]) (thr s)\<rparr> in
      if 0 \<notin> set bs then (pointer, s1)
      else (pointer, s1\<lparr>owned_lengths := hm_insert pointer (length bs) (owned_lengths s1)\<rparr>))"

definition register_owned_graph_wire :: "usize \<Rightarrow> 'b native_state \<Rightarrow> (bool \<times> 'b native_state) option" where
  "register_owned_graph_wire pointer s =
     (if pointer = 0 then Some (False, s)
      else Option.bind (native_bytes s pointer) (\<lambda>bs.
        if hm_get (graph_transfers s) pointer \<noteq> None then Some (False, s)
        else Some (True, s\<lparr>graph_transfers := hm_insert pointer bs (graph_transfers s)\<rparr>)))"

definition take_owned_graph_wire_snapshot ::
    "usize \<Rightarrow> 'b native_state \<Rightarrow> ((bytes \<times> bool) option \<times> 'b native_state) option" where
  "take_owned_graph_wire_snapshot pointer s =
     (if pointer = 0 then Some (None, s)
      else (case hm_get (graph_transfers s) pointer of
              None \<Rightarrow> Some (None, s\<lparr>graph_transfers := hm_remove pointer (graph_transfers s)\<rparr>)
            | Some bs \<Rightarrow>
                Option.bind (native_bytes s pointer) (\<lambda>live.
                  Some (Some (bs, bs = live), s\<lparr>graph_transfers := hm_remove pointer (graph_transfers s)\<rparr>))))"

definition take_owned_graph_wire :: "usize \<Rightarrow> 'b native_state \<Rightarrow> (bool \<times> 'b native_state) option" where
  "take_owned_graph_wire pointer s =
     map_option (\<lambda>(r, s1). (case r of None \<Rightarrow> False | Some (_, bytes_match) \<Rightarrow> bytes_match, s1))
       (take_owned_graph_wire_snapshot pointer s)"

text \<open>Releasing the memory itself is the allocator's; the tables forget the pointer.\<close>

definition destroy_string :: "usize \<Rightarrow> 'b native_state \<Rightarrow> 'b native_state" where
  "destroy_string pointer s =
     (if pointer = 0 then s
      else (let s1 = s\<lparr>owned_exceptions := hm_remove pointer (owned_exceptions s)\<rparr>;
                s2 = (case hm_get (owned_exceptions s) pointer of None \<Rightarrow> s1 | Some i \<Rightarrow> rc_drop i s1);
                s3 = s2\<lparr>graph_transfers := hm_remove pointer (graph_transfers s2)\<rparr>
            in s3\<lparr>owned_lengths := hm_remove pointer (owned_lengths s3)\<rparr>))"

subsection \<open>Lemmas\<close>

lemma read_after_write:
  "p \<le> a \<Longrightarrow> a + n \<le> p + length bs \<Longrightarrow> read_bytes_at (write_bytes_at m p bs) a n = take n (drop (a - p) bs)"
  by (rule nth_equalityI) (auto simp: read_bytes_at_def write_bytes_at_def)

lemma read_outside_write:
  "a + n \<le> p \<or> p + length bs \<le> a \<Longrightarrow> read_bytes_at (write_bytes_at m p bs) a n = read_bytes_at m a n"
  by (rule read_bytes_at_cong) (auto simp: write_bytes_at_def)

lemma cstr_length_terminated:
  "read_bytes_at m p n = bs \<Longrightarrow> 0 \<notin> set bs \<Longrightarrow> m (p + n) = 0 \<Longrightarrow> cstr_length m p = Some n"
proof (induction n arbitrary: p bs)
  case 0
  then show ?case by (simp add: cstr_length.simps)
next
  case (Suc n)
  have bs: "bs = m p # read_bytes_at m (p + 1) n"
    using Suc.prems(1) read_bytes_at_append [of m p 1 n] by (simp add: read_bytes_at_def)
  then have "cstr_length m (p + 1) = Some n" using Suc.prems by (intro Suc.IH [OF refl]) auto
  then show ?case using Suc.prems(2) bs by (subst cstr_length.simps) auto
qed

text \<open>A string as the tables describe it: registered with its length, or unregistered, free of NUL
  and terminated.\<close>

lemma native_bytes_unregistered:
  assumes "p \<noteq> 0" "hm_get (lengths (thr s)) p = None" "hm_get (owned_lengths s) p = None"
    and "read_bytes_at (mem (thr s)) p n = bs" "0 \<notin> set bs" "mem (thr s) (p + n) = 0"
  shows "native_bytes s p = Some bs"
  using cstr_length_terminated [OF assms(4-6)] assms by (simp add: native_bytes_def from_ptr_def)

lemma native_bytes_registered:
  assumes "p \<noteq> 0" "hm_get (lengths (thr s)) p = Some (n, l)" "read_bytes_at (mem (thr s)) p n = bs"
  shows "native_bytes s p = Some bs"
  using assms by (simp add: native_bytes_def from_ptr_def)

lemma register_written:
  assumes "p \<noteq> 0" "hm_get (lengths t) p = None" "hm_get (owned_lengths s) p = None"
    and "read_bytes_at (mem t) p (length bs) = bs" "mem t (p + length bs) = 0"
  shows "native_bytes (s\<lparr>thr := thaw_string_register p (length bs) t\<rparr>) p = Some bs"
proof (cases "0 \<in> set bs")
  case True
  then show ?thesis
    using assms by (intro native_bytes_registered [of _ _ "length bs" False]) (auto simp: thaw_string_register_def)
next
  case False
  then show ?thesis
    using assms by (intro native_bytes_unregistered [of _ _ "length bs"]) (auto simp: thaw_string_register_def)
qed

lemma alloc_lengths [simp]: "lengths (snd (thaw_arena_alloc B sz align t)) = lengths t"
  by (auto simp: thaw_arena_alloc_def Let_def split: option.split)

lemma write_mem_fields [simp]:
  "mem (write_mem p bs t) = write_bytes_at (mem t) p bs" "lengths (write_mem p bs t) = lengths t"
  by (simp_all add: write_mem_def)

lemma alloc_memory:
  assumes "thaw_arena_alloc B n align t = (q, t')" "a < q \<or> q + n \<le> a"
  shows "mem t' a = mem t a"
  using assms by (auto simp: thaw_arena_alloc_def Let_def write_zeros_def split: if_splits option.splits)

text \<open>What the allocator promises of a new block: nothing is registered at its address and it does
  not overlap the strings being read.\<close>

definition fresh_block :: "'b native_state \<Rightarrow> usize \<Rightarrow> usize \<Rightarrow> native_str set \<Rightarrow> bool" where
  "fresh_block s q n strs \<longleftrightarrow>
     hm_get (lengths (thr s)) q = None \<and> hm_get (owned_lengths s) q = None \<and>
     (\<forall>a k. Slice a k \<in> strs \<longrightarrow> a + k \<le> q \<or> q + n \<le> a)"

lemma to_bytes_cong:
  "(\<And>a k i. x = Slice a k \<Longrightarrow> i < k \<Longrightarrow> m (a + i) = m' (a + i)) \<Longrightarrow> to_bytes m x = to_bytes m' x"
  by (cases x) (auto simp: read_bytes_at_def)

lemma to_bytes_alloc:
  assumes "thaw_arena_alloc B n align t = (q, t')" "\<And>a k. x = Slice a k \<Longrightarrow> a + k \<le> q \<or> q + n \<le> a"
  shows "to_bytes (mem t') x = to_bytes (mem t) x"
  by (rule to_bytes_cong, rule alloc_memory [OF assms(1)]) (use assms(2) in fastforce)

lemma to_bytes_write:
  assumes "\<And>a k. x = Slice a k \<Longrightarrow> a + k \<le> q \<or> q + length bs \<le> a"
  shows "to_bytes (write_bytes_at m q bs) x = to_bytes m x"
  by (rule to_bytes_cong) (use assms in \<open>fastforce simp: write_bytes_at_def\<close>)

text \<open>The buffer that the append state claims to own.\<close>

definition append_inv :: "'b native_state \<Rightarrow> append_state \<Rightarrow> bool" where
  "append_inv s st \<longleftrightarrow>
     (ap_owned st \<noteq> 0 \<longrightarrow>
        hm_get (lengths (thr s)) (ap_owned st) = None \<and> hm_get (owned_lengths s) (ap_owned st) = None \<and>
        0 \<notin> set (read_bytes_at (mem (thr s)) (ap_owned st) (ap_length st)) \<and>
        mem (thr s) (ap_owned st + ap_length st) = 0 \<and> ap_length st < ap_capacity st)"

lemma concat_written:
  "read_bytes_at (write_bytes_at (write_bytes_at (write_bytes_at m p xs) (p + length xs) ys)
     (p + (length xs + length ys)) [0]) p (length xs + length ys) = xs @ ys"
  by (rule nth_equalityI) (auto simp: read_bytes_at_def write_bytes_at_def nth_append)

lemma append_in_place:
  assumes inv: "append_inv s st" and l: "native_bytes s left = Some lb"
    and own: "ap_owned st \<noteq> 0" "ap_owned st = left" and rb: "0 \<notin> set rb" "ap_length st + length rb < ap_capacity st"
    and s': "s' = s\<lparr>thr := write_mem (left + (ap_length st + length rb)) [0] (write_mem (left + ap_length st) rb (thr s))\<rparr>"
  shows "native_bytes s' left = Some (lb @ rb) \<and> append_inv s' (st\<lparr>ap_length := ap_length st + length rb\<rparr>)"
proof -
  let ?n = "ap_length st"
  have lb: "lb = read_bytes_at (mem (thr s)) left ?n" "0 \<notin> set lb"
    using native_bytes_unregistered [of left s ?n] inv own l by (auto simp: append_inv_def)
  then have len: "length lb = ?n" by simp
  have same: "write_bytes_at (mem (thr s)) left lb = mem (thr s)"
    unfolding lb(1) by (auto simp: write_bytes_at_def read_bytes_at_def fun_eq_iff)
  have r: "read_bytes_at (mem (thr s')) left (?n + length rb) = lb @ rb"
    using concat_written [of "mem (thr s)" left lb rb] by (simp add: s' same len)
  have z: "mem (thr s') (left + (?n + length rb)) = 0" unfolding s' by (simp add: write_bytes_at_def)
  have t: "hm_get (lengths (thr s')) left = None" "hm_get (owned_lengths s') left = None"
    using inv own by (auto simp: append_inv_def s')
  have "native_bytes s' left = Some (lb @ rb)"
    by (rule native_bytes_unregistered [OF _ t r _ z]) (use own lb(2) rb(1) in auto)
  then show ?thesis using t z r own lb(2) rb by (simp add: append_inv_def)
qed

lemma append_copied:
  assumes "from_ptr s left = Some ls" "from_ptr s right = Some rs"
    and al: "thaw_arena_alloc B n 1 (thr s) = (q, t)" and q: "q \<noteq> 0" "fresh_block s q n {ls, rs}"
    and n: "length lb + length rb < n"
    and lb: "lb = to_bytes (mem (thr s)) ls" and rb: "rb = to_bytes (mem (thr s)) rs"
    and t3: "t3 = thaw_string_register q (length lb + length rb) (write_mem (q + (length lb + length rb)) [0]
       (write_mem (q + length lb) (to_bytes (mem (write_mem q (to_bytes (mem t) ls) t)) rs)
         (write_mem q (to_bytes (mem t) ls) t)))"
  shows "native_bytes (s\<lparr>thr := t3\<rparr>) q = Some (lb @ rb)"
    "0 \<notin> set (lb @ rb) \<Longrightarrow> append_inv (s\<lparr>thr := t3\<rparr>)
       \<lparr>ap_owned = q, ap_length = length lb + length rb, ap_capacity = n\<rparr>"
proof -
  have free: "a + k \<le> q \<or> q + n \<le> a" if "Slice a k \<in> {ls, rs}" for a k
    using q(2) that by (auto simp: fresh_block_def)
  have l: "to_bytes (mem t) ls = lb" unfolding lb by (rule to_bytes_alloc [OF al]) (use free in auto)
  have r: "to_bytes (mem (write_mem q lb t)) rs = rb"
  proof -
    have "to_bytes (mem (write_mem q lb t)) rs = to_bytes (mem t) rs"
      unfolding write_mem_fields by (rule to_bytes_write) (use free n in force)
    also have "\<dots> = rb" unfolding rb by (rule to_bytes_alloc [OF al]) (use free in auto)
    finally show ?thesis .
  qed
  define u where "u = write_mem (q + (length lb + length rb)) [0] (write_mem (q + length lb) rb (write_mem q lb t))"
  have t3': "t3 = thaw_string_register q (length (lb @ rb)) u" unfolding t3 l r u_def by simp
  have "lengths t = lengths (thr s)" using alloc_lengths [of B n 1 "thr s"] unfolding al by simp
  then have u: "read_bytes_at (mem u) q (length (lb @ rb)) = lb @ rb" "mem u (q + length (lb @ rb)) = 0"
      "hm_get (lengths u) q = None"
    using q(2) concat_written [of "mem t" q lb rb]
    by (simp_all add: u_def fresh_block_def) (simp add: write_bytes_at_def)
  have o: "hm_get (owned_lengths s) q = None" using q(2) by (simp add: fresh_block_def)
  show "native_bytes (s\<lparr>thr := t3\<rparr>) q = Some (lb @ rb)"
    unfolding t3' by (rule register_written [OF q(1) u(3) o u(1,2)])
  show "append_inv (s\<lparr>thr := t3\<rparr>) \<lparr>ap_owned = q, ap_length = length lb + length rb, ap_capacity = n\<rparr>"
    if "0 \<notin> set (lb @ rb)"
    using that u o n unfolding t3' by (simp add: append_inv_def thaw_string_register_def)
qed

subsection \<open>Properties\<close>

lemma one_is_power: "is_power_of_two 1"
  unfolding is_power_of_two_def list_ex_iff by (rule bexI [of _ 0]) simp_all

lemma line_alloc:
  assumes "n < 2 ^ 62"
  shows "fst (thaw_arena_alloc line_bump n 1 two_blocks) = 1056"
  using assms one_is_power
  by (simp add: thaw_arena_alloc_def line_bump_def layout_ok_def two_blocks_def arena_root_new_def
      thaw_arena_enable_tracing_def init_state_def eight_is_power Let_def)

lemma two_blocks_lengths: "lengths two_blocks = []"
  by (simp add: two_blocks_def init_state_def thaw_arena_enable_tracing_def)
     (auto simp: arena_root_new_def Let_def)

text \<open>A byte string copied into the arena is read back through its pointer, embedded NUL bytes
  included, when the allocator handed out an address at which no length was registered.\<close>

theorem arena_string_round_trip:
  assumes "arena_string B bs s = (p, s')" "p \<noteq> 0"
    and "hm_get (lengths (thr s)) p = None" "hm_get (owned_lengths s) p = None"
  shows "native_bytes s' p = Some bs"
proof -
  obtain t where al: "thaw_arena_alloc B (length bs + 1) 1 (thr s) = (p, t)"
    and s': "s' = s\<lparr>thr := thaw_string_register p (length bs) (write_mem (p + length bs) [0] (write_mem p bs t))\<rparr>"
    using assms(1,2)
    by (auto simp: arena_string_def checked_add_def Let_def split: if_splits prod.splits)
  have "lengths t = lengths (thr s)" using alloc_lengths [of B "length bs + 1" 1 "thr s"] unfolding al by simp
  then show ?thesis
    unfolding s' using assms(2-4) read_write_bytes_at [of "mem t" p bs]
    by (intro register_written) (simp_all add: read_outside_write, simp add: write_bytes_at_def)
qed

theorem arena_string_round_trip_witness:
  "\<exists>p s'. arena_string line_bump [65, 0, 66] (init_native two_blocks) = (p, s') \<and> native_bytes s' p = Some [65, 0, 66]"
proof -
  obtain p s' where a: "arena_string line_bump [65, 0, 66] (init_native two_blocks) = (p, s')" by fastforce
  have "p = 1056"
    using a line_alloc [of "Suc (Suc (Suc (Suc 0)))"]
    by (auto simp: arena_string_def checked_add_def usize_limit_def init_native_def split: prod.splits if_splits)
  then show ?thesis
    using arena_string_round_trip [OF a] a two_blocks_lengths by (auto simp: init_native_def)
qed

text \<open>\<open>thaw_string_append_owned\<close> returns a string that reads as the left bytes followed by the
  right bytes, whether it grows the owned buffer in place or copies both into a new block, and it
  leaves the append state describing the buffer it owns, so the next append may grow it in
  place. NUL bytes on either side are kept.\<close>

theorem append_owned_correct:
  assumes "append_inv s st" "native_bytes s left = Some lb" "native_bytes s right = Some rb"
    and "thaw_string_append_owned B left right st s = Some (p, st', s')" "p \<noteq> 0"
    and "\<forall>n q t. thaw_arena_alloc B n 1 (thr s) = (q, t) \<longrightarrow> q \<noteq> 0 \<longrightarrow>
           fresh_block s q n {the (from_ptr s left), the (from_ptr s right)}"
  shows "native_bytes s' p = Some (lb @ rb) \<and> append_inv s' st'"
proof -
  obtain ls rs where f: "from_ptr s left = Some ls" "from_ptr s right = Some rs"
      and b: "lb = to_bytes (mem (thr s)) ls" "rb = to_bytes (mem (thr s)) rs"
    using assms(2,3) by (auto simp: native_bytes_def)
  let ?own = "ap_owned st \<noteq> 0 \<and> ap_owned st = left"
  show ?thesis
  proof (cases "?own \<and> 0 \<notin> set rb \<and> ap_length st + length rb < ap_capacity st")
    case True
    then have "p = left" "st' = st\<lparr>ap_length := ap_length st + length rb\<rparr>"
      "s' = s\<lparr>thr := write_mem (left + (ap_length st + length rb)) [0] (write_mem (left + ap_length st) rb (thr s))\<rparr>"
      using assms(4) f by (auto simp: thaw_string_append_owned_def b(2) [symmetric] Let_def)
    then show ?thesis using append_in_place [OF assms(1,2)] True by simp
  next
    case False
    define clean where "clean = (0 \<notin> set rb \<and> 0 \<notin> set lb)"
    define n where "n = length lb + length rb + (if \<not> clean then 0 else if ?own then length lb + length rb
        else (length lb + length rb) div 8 + 16) + 1"
    obtain q t where al: "thaw_arena_alloc B n 1 (thr s) = (q, t)" by fastforce
    let ?t1 = "write_mem q (to_bytes (mem t) ls) t"
    let ?t3 = "thaw_string_register q (length lb + length rb) (write_mem (q + (length lb + length rb)) [0]
       (write_mem (q + length lb) (to_bytes (mem ?t1) rs) ?t1))"
    have "thaw_string_append_owned B left right st s =
        (if q = 0 then Some (0, st, s\<lparr>thr := t\<rparr>)
         else Some (q, (if clean then \<lparr>ap_owned = q, ap_length = length lb + length rb, ap_capacity = n\<rparr>
            else st\<lparr>ap_owned := 0\<rparr>), s\<lparr>thr := ?t3\<rparr>))"
      using False f al unfolding thaw_string_append_owned_def n_def clean_def
      by (cases "0 \<in> set rb"; cases "0 \<in> set lb"; cases ?own) (auto simp: b [symmetric] Let_def)
    then have r: "p = q" "s' = s\<lparr>thr := ?t3\<rparr>" "q \<noteq> 0"
      "st' = (if clean then \<lparr>ap_owned = q, ap_length = length lb + length rb, ap_capacity = n\<rparr> else st\<lparr>ap_owned := 0\<rparr>)"
      using assms(4,5) by (auto split: if_splits)
    have "fresh_block s q n {ls, rs}" using assms(6) al r(3) f by auto
    note c = append_copied [OF f al r(3) this _ b refl]
    have "length lb + length rb < n" by (simp add: n_def)
    from c [OF this] show ?thesis
      unfolding r by (cases clean) (simp_all add: clean_def, simp add: append_inv_def)
  qed
qed

theorem append_owned_correct_witness:
  "\<exists>p st' s'. thaw_string_append_owned line_bump 0 0 \<lparr>ap_owned = 0, ap_length = 0, ap_capacity = 0\<rparr>
      (init_native two_blocks) = Some (p, st', s') \<and> native_bytes s' p = Some (undefined_text @ undefined_text)"
proof -
  let ?st = "\<lparr>ap_owned = 0, ap_length = 0, ap_capacity = 0\<rparr>" and ?s = "init_native two_blocks"
  have u: "from_ptr ?s 0 = Some (Static_bytes undefined_text)" "native_bytes ?s 0 = Some undefined_text"
    by (simp_all add: from_ptr_def native_bytes_def)
  obtain q t where al: "thaw_arena_alloc line_bump 37 1 two_blocks = (q, t)" by fastforce
  have q: "q = 1056" using line_alloc [of 37] al by simp
  obtain st' s' where r: "thaw_string_append_owned line_bump 0 0 ?st ?s = Some (q, st', s')"
    using al q u(1) by (auto simp: thaw_string_append_owned_def undefined_text_def init_native_def Let_def)
  have fresh: "\<forall>n q t. thaw_arena_alloc line_bump n 1 (thr ?s) = (q, t) \<longrightarrow> q \<noteq> 0 \<longrightarrow>
      fresh_block ?s q n {the (from_ptr ?s 0), the (from_ptr ?s 0)}"
    unfolding u by (simp add: fresh_block_def init_native_def two_blocks_lengths)
  have "native_bytes s' q = Some (undefined_text @ undefined_text)"
    using append_owned_correct [OF _ u(2) u(2) r _ fresh] q by (simp add: append_inv_def)
  then show ?thesis using r by blast
qed

text \<open>A grant over an owned graph string is one-shot and bound to pointer and bytes. After a
  registration the first take answers whether the bytes at the pointer are still the registered
  ones, and a second take, or a take after \<open>destroy_string\<close>, is refused.\<close>

theorem graph_wire_one_shot:
  assumes "register_owned_graph_wire p s = Some (True, s1)" "native_bytes s p = Some bs"
    and "graph_transfers s2 = graph_transfers s1" "native_bytes s2 p = Some live"
  shows "\<exists>s3. take_owned_graph_wire p s2 = Some (bs = live, s3) \<and>
    take_owned_graph_wire p s3 = Some (False, s3\<lparr>graph_transfers := hm_remove p (graph_transfers s3)\<rparr>) \<and>
    fst (the (take_owned_graph_wire p (destroy_string p s2))) = False"
proof -
  have p: "p \<noteq> 0" and g: "hm_get (graph_transfers s2) p = Some bs"
    using assms(1-3) by (auto simp: register_owned_graph_wire_def split: if_splits)
  have "hm_get (graph_transfers (destroy_string p s2)) p = None"
    using p by (simp add: destroy_string_def Let_def)
  then show ?thesis
    using p g assms(4) by (simp add: take_owned_graph_wire_def take_owned_graph_wire_snapshot_def)
qed

theorem graph_wire_one_shot_witness:
  "\<exists>s1 s3. register_owned_graph_wire 1024 (init_native two_blocks) = Some (True, s1) \<and>
    take_owned_graph_wire 1024 s1 = Some (True, s3)"
proof -
  let ?s = "init_native two_blocks"
  have m: "mem two_blocks 1024 = 0"
    by (simp add: two_blocks_def init_state_def thaw_arena_enable_tracing_def)
       (auto simp: arena_root_new_def thaw_arena_alloc_def write_zeros_def Let_def split: option.split)
  have b: "native_bytes ?s 1024 = Some []"
    by (rule native_bytes_unregistered [where n = 0])
       (simp_all add: init_native_def two_blocks_lengths m read_bytes_at_def)
  obtain s1 where r: "register_owned_graph_wire 1024 ?s = Some (True, s1)"
      "s1 = ?s\<lparr>graph_transfers := hm_insert 1024 [] (graph_transfers ?s)\<rparr>"
    using b by (simp add: register_owned_graph_wire_def init_native_def)
  have "native_bytes s1 1024 = Some []"
    by (rule native_bytes_unregistered [where n = 0])
       (simp_all add: r(2) init_native_def two_blocks_lengths m read_bytes_at_def)
  then show ?thesis using graph_wire_one_shot [OF r(1) b refl] r(1) by auto
qed

end
