(* ===== verification/Map_Table.thy ===== *)
theory Map_Table
  imports Native_Strings
begin

text \<open>
  The hash table behind \<open>Map\<close> and \<open>Set\<close>, \<open>crates/thaw-runtime/src/runtime/native_values/maps.rs\<close>:
  entries in insertion order with stable ordinals, and an open-addressed bucket index with linear
  probing and tombstones. A pointer with its element count is a list, so \<open>entries_cap\<close> and
  \<open>buckets_len\<close> are the lengths of the two lists; a null map is \<open>None\<close>. Whether the arena can
  serve a request of some bytes is an argument. The probing loops of the source have no bound: they
  are partial functions, and not returning is the value \<open>None\<close>.
\<close>

subsection \<open>Data\<close>

datatype entry_state = ENTRY_EMPTY | ENTRY_LIVE | ENTRY_TOMBSTONE

record map_entry =
  en_state :: entry_state
  en_ordinal :: nat
  en_hash :: u64
  en_key :: u64
  en_value :: u64

definition BUCKET_EMPTY :: int where
  "BUCKET_EMPTY = - 1"

definition BUCKET_TOMBSTONE :: int where
  "BUCKET_TOMBSTONE = - 2"

definition INITIAL_BUCKETS :: nat where
  "INITIAL_BUCKETS = 16"

definition MAX_INSERTION_ORDINAL :: nat where
  "MAX_INSERTION_ORDINAL = 2 ^ 53 - 1"

record map_header =
  mh_entries :: "map_entry list"
  mh_entries_len :: nat
  mh_next_ordinal :: nat
  mh_live :: nat
  mh_buckets :: "int list"

definition empty_entry :: map_entry where
  "empty_entry = \<lparr>en_state = ENTRY_EMPTY, en_ordinal = 0, en_hash = 0, en_key = 0, en_value = 0\<rparr>"

subsection \<open>Keys\<close>

definition mix64 :: "u64 \<Rightarrow> u64" where
  "mix64 x =
     (let x = x XOR drop_bit 30 x;
          x = x * 0xbf58476d1ce4e5b9;
          x = x XOR drop_bit 27 x;
          x = x * 0x94d049bb133111eb
      in x XOR drop_bit 31 x)"

text \<open>An \<open>f64\<close> is its bit pattern.\<close>

definition f64_is_nan :: "u64 \<Rightarrow> bool" where
  "f64_is_nan x = (x AND 0x7ff0000000000000 = 0x7ff0000000000000 \<and> x AND 0x000fffffffffffff \<noteq> 0)"

definition f64_is_zero :: "u64 \<Rightarrow> bool" where
  "f64_is_zero x = (x = 0 \<or> x = 0x8000000000000000)"

definition canonical_num_key :: "u64 \<Rightarrow> u64" where
  "canonical_num_key key =
     (if f64_is_nan key then 0x7ff8000000000000 else if f64_is_zero key then 0 else key)"

definition hash_bytes :: "bytes \<Rightarrow> u64" where
  "hash_bytes bs = fold (\<lambda>byte hash. (hash XOR ucast byte) * 0x00000100000001b3) bs 0xcbf29ce484222325"

text \<open>The trait \<open>KeyKind\<close>.\<close>

record key_kind =
  kk_hash :: "u64 \<Rightarrow> u64"
  kk_eq :: "u64 \<Rightarrow> u64 \<Rightarrow> bool"

definition NumKey :: key_kind where
  "NumKey = \<lparr>kk_hash = mix64, kk_eq = (=)\<rparr>"

definition str_key_bytes :: "'b native_state \<Rightarrow> u64 \<Rightarrow> bytes" where
  "str_key_bytes s key = (case native_bytes s (unat key) of None \<Rightarrow> [] | Some bs \<Rightarrow> bs)"

definition StrKey :: "'b native_state \<Rightarrow> key_kind" where
  "StrKey s = \<lparr>kk_hash = (\<lambda>k. hash_bytes (str_key_bytes s k)),
     kk_eq = (\<lambda>a b. str_key_bytes s a = str_key_bytes s b)\<rparr>"

subsection \<open>Probing\<close>

text \<open>\<open>hash & mask\<close> and \<open>(index + 1) & mask\<close>\<close>

definition home_bucket :: "nat \<Rightarrow> u64 \<Rightarrow> nat" where
  "home_bucket n hash = unat hash AND (n - 1)"

definition next_bucket :: "nat \<Rightarrow> nat \<Rightarrow> nat" where
  "next_bucket n index = (index + 1) AND (n - 1)"

definition entry_matches :: "key_kind \<Rightarrow> map_entry \<Rightarrow> u64 \<Rightarrow> u64 \<Rightarrow> bool" where
  "entry_matches K e key hash = (en_state e = ENTRY_LIVE \<and> en_hash e = hash \<and> kk_eq K (en_key e) key)"

partial_function (option) find_loop ::
    "key_kind \<Rightarrow> map_header \<Rightarrow> u64 \<Rightarrow> u64 \<Rightarrow> nat \<Rightarrow> nat option \<Rightarrow> (nat \<times> nat option) option" where
  "find_loop K h key hash index reusable =
     (let bucket = mh_buckets h ! index;
          step = next_bucket (length (mh_buckets h)) index
      in if bucket = BUCKET_EMPTY
         then Some (case reusable of Some r \<Rightarrow> r | None \<Rightarrow> index, None)
         else if bucket = BUCKET_TOMBSTONE
         then find_loop K h key hash step (case reusable of Some r \<Rightarrow> Some r | None \<Rightarrow> Some index)
         else if entry_matches K (mh_entries h ! nat bucket) key hash
         then Some (index, Some (nat bucket))
         else find_loop K h key hash step reusable)"

definition find_bucket :: "key_kind \<Rightarrow> map_header \<Rightarrow> u64 \<Rightarrow> u64 \<Rightarrow> (nat \<times> nat option) option" where
  "find_bucket K h key hash = find_loop K h key hash (home_bucket (length (mh_buckets h)) hash) None"

partial_function (option) place_loop :: "int list \<Rightarrow> nat \<Rightarrow> int \<Rightarrow> int list option" where
  "place_loop bs index v =
     (if bs ! index = BUCKET_EMPTY then Some (bs[index := v])
      else place_loop bs (next_bucket (length bs) index) v)"

subsection \<open>Growth and compaction\<close>

text \<open>\<open>u64::next_power_of_two\<close>\<close>

function next_power_of_two_from :: "nat \<Rightarrow> nat \<Rightarrow> nat" where
  "next_power_of_two_from p n = (if p = 0 \<or> n \<le> p then p else next_power_of_two_from (2 * p) n)"
  by pat_completeness auto
termination by (relation "measure (\<lambda>(p, n). n - p)") auto

declare next_power_of_two_from.simps [simp del]

definition next_power_of_two :: "nat \<Rightarrow> nat" where
  "next_power_of_two n = next_power_of_two_from 1 n"

fun grow_loop ::
    "map_entry list \<Rightarrow> nat list \<Rightarrow> map_entry list \<Rightarrow> int list \<Rightarrow> (map_entry list \<times> int list) option" where
  "grow_loop old [] new_entries new_buckets = Some (new_entries, new_buckets)"
| "grow_loop old (index # rest) new_entries new_buckets =
     (let e = old ! index;
          new_entries1 = new_entries[index := e]
      in if en_state e \<noteq> ENTRY_LIVE then grow_loop old rest new_entries1 new_buckets
         else Option.bind (place_loop new_buckets (home_bucket (length new_buckets) (en_hash e)) (int index))
                (\<lambda>new_buckets1. grow_loop old rest new_entries1 new_buckets1))"

definition grow :: "(nat \<Rightarrow> bool) \<Rightarrow> map_header \<Rightarrow> (bool \<times> map_header) option" where
  "grow al h =
     (let new_cap = max (length (mh_entries h)) 4 * 2;
          new_buckets_len = max (next_power_of_two (new_cap * 2)) INITIAL_BUCKETS
      in if \<not> al (new_cap * 40) then Some (False, h)
         else if \<not> al (new_buckets_len * 8) then Some (False, h)
         else map_option (\<lambda>(es, bs). (True, h\<lparr>mh_entries := es, mh_buckets := bs\<rparr>))
                (grow_loop (mh_entries h) [0..<mh_entries_len h] (replicate new_cap empty_entry)
                  (replicate new_buckets_len BUCKET_EMPTY)))"

fun compact_loop ::
    "nat list \<Rightarrow> map_entry list \<Rightarrow> int list \<Rightarrow> nat \<Rightarrow> (map_entry list \<times> int list \<times> nat) option" where
  "compact_loop [] es bs destination = Some (es, bs, destination)"
| "compact_loop (index # rest) es bs destination =
     (let e = es ! index in
      if en_state e \<noteq> ENTRY_LIVE then compact_loop rest es bs destination
      else Option.bind (place_loop bs (home_bucket (length bs) (en_hash e)) (int destination))
             (\<lambda>bs1. compact_loop rest (es[destination := e]) bs1 (destination + 1)))"

definition compact_entries :: "map_header \<Rightarrow> map_header option" where
  "compact_entries h =
     map_option (\<lambda>(es, bs, destination).
         h\<lparr>mh_entries := fold (\<lambda>index es. es[index := empty_entry]) [destination..<mh_entries_len h] es,
           mh_buckets := bs, mh_entries_len := destination\<rparr>)
       (compact_loop [0..<mh_entries_len h] (mh_entries h)
         (replicate (length (mh_buckets h)) BUCKET_EMPTY) 0)"

definition needs_growth :: "map_header \<Rightarrow> bool" where
  "needs_growth h =
     (length (mh_buckets h) = 0 \<or> length (mh_entries h) \<le> mh_entries_len h
      \<or> length (mh_buckets h) * 7 \<le> mh_entries_len h * 10)"

definition ensure_capacity_for_insert :: "(nat \<Rightarrow> bool) \<Rightarrow> map_header \<Rightarrow> (bool \<times> map_header) option" where
  "ensure_capacity_for_insert al h =
     Option.bind
       (if needs_growth h \<and> length (mh_buckets h) \<noteq> 0 \<and> mh_live h \<le> mh_entries_len h div 2
        then compact_entries h else Some h)
       (\<lambda>h1. if needs_growth h1 then grow al h1 else Some (True, h1))"

subsection \<open>Operations\<close>

definition thaw_map_new :: "(nat \<Rightarrow> bool) \<Rightarrow> map_header option" where
  "thaw_map_new al =
     (if al 56 then Some \<lparr>mh_entries = [], mh_entries_len = 0, mh_next_ordinal = 0, mh_live = 0, mh_buckets = []\<rparr>
      else None)"

definition map_get :: "key_kind \<Rightarrow> map_header option \<Rightarrow> u64 \<Rightarrow> u64 option option" where
  "map_get K m key =
     (case m of
        None \<Rightarrow> Some None
      | Some h \<Rightarrow>
          if length (mh_buckets h) = 0 then Some None
          else map_option (\<lambda>(_, entry_index). map_option (\<lambda>index. en_value (mh_entries h ! index)) entry_index)
                 (find_bucket K h key (kk_hash K key)))"

definition map_has :: "key_kind \<Rightarrow> map_header option \<Rightarrow> u64 \<Rightarrow> bool option" where
  "map_has K m key = map_option (\<lambda>v. v \<noteq> None) (map_get K m key)"

definition map_insert_new ::
    "key_kind \<Rightarrow> (nat \<Rightarrow> bool) \<Rightarrow> map_header \<Rightarrow> u64 \<Rightarrow> u64 \<Rightarrow> (bool \<times> map_header) option" where
  "map_insert_new K al h key v =
     (if MAX_INSERTION_ORDINAL \<le> mh_next_ordinal h then Some (False, h)
      else Option.bind (ensure_capacity_for_insert al h) (\<lambda>(ok, h1).
        if \<not> ok then Some (False, h1)
        else map_option (\<lambda>(bucket_index, _).
               (True, h1\<lparr>mh_entries := (mh_entries h1)[mh_entries_len h1 :=
                            \<lparr>en_state = ENTRY_LIVE, en_ordinal = mh_next_ordinal h1, en_hash = kk_hash K key,
                             en_key = key, en_value = v\<rparr>],
                          mh_buckets := (mh_buckets h1)[bucket_index := int (mh_entries_len h1)],
                          mh_entries_len := mh_entries_len h1 + 1,
                          mh_next_ordinal := mh_next_ordinal h1 + 1,
                          mh_live := mh_live h1 + 1\<rparr>))
               (find_bucket K h1 key (kk_hash K key))))"

definition map_set ::
    "key_kind \<Rightarrow> (nat \<Rightarrow> bool) \<Rightarrow> map_header \<Rightarrow> u64 \<Rightarrow> u64 \<Rightarrow> (bool \<times> map_header) option" where
  "map_set K al h key v =
     (if length (mh_buckets h) \<noteq> 0 then
        Option.bind (find_bucket K h key (kk_hash K key)) (\<lambda>(_, entry_index).
          case entry_index of
            Some index \<Rightarrow>
              Some (True, h\<lparr>mh_entries := (mh_entries h)[index := (mh_entries h ! index)\<lparr>en_value := v\<rparr>]\<rparr>)
          | None \<Rightarrow> map_insert_new K al h key v)
      else map_insert_new K al h key v)"

definition map_delete :: "key_kind \<Rightarrow> map_header \<Rightarrow> u64 \<Rightarrow> (bool \<times> map_header) option" where
  "map_delete K h key =
     (if length (mh_buckets h) = 0 then Some (False, h)
      else map_option (\<lambda>(bucket_index, entry_index).
             case entry_index of
               None \<Rightarrow> (False, h)
             | Some index \<Rightarrow>
                 (True, h\<lparr>mh_entries := (mh_entries h)[index :=
                            (mh_entries h ! index)\<lparr>en_state := ENTRY_TOMBSTONE, en_key := 0, en_value := 0\<rparr>],
                          mh_buckets := (mh_buckets h)[bucket_index := BUCKET_TOMBSTONE],
                          mh_live := mh_live h - 1\<rparr>))
             (find_bucket K h key (kk_hash K key)))"

text \<open>The null check at the head of the operations that write.\<close>

definition with_map ::
    "(map_header \<Rightarrow> (bool \<times> map_header) option) \<Rightarrow> map_header option \<Rightarrow> (bool \<times> map_header option) option" where
  "with_map f m = (case m of None \<Rightarrow> Some (False, None) | Some h \<Rightarrow> map_option (map_prod id Some) (f h))"

definition thaw_map_size :: "map_header option \<Rightarrow> nat" where
  "thaw_map_size m = (case m of None \<Rightarrow> 0 | Some h \<Rightarrow> mh_live h)"

definition thaw_map_clear :: "map_header \<Rightarrow> map_header" where
  "thaw_map_clear h =
     h\<lparr>mh_entries := fold (\<lambda>index es. es[index := (es ! index)\<lparr>en_state := ENTRY_TOMBSTONE, en_key := 0, en_value := 0\<rparr>])
                       [0..<mh_entries_len h] (mh_entries h),
       mh_buckets := fold (\<lambda>index bs. bs[index := BUCKET_EMPTY]) [0..<length (mh_buckets h)] (mh_buckets h),
       mh_live := 0\<rparr>"

text \<open>A native array: the length word, then one word per live entry; \<open>None\<close> is the null pointer.\<close>

fun snapshot_loop :: "(map_entry \<Rightarrow> u64) \<Rightarrow> map_entry list \<Rightarrow> nat \<Rightarrow> u64 list \<Rightarrow> u64 list" where
  "snapshot_loop extract [] written out = out"
| "snapshot_loop extract (e # es) written out =
     (if en_state e \<noteq> ENTRY_LIVE then snapshot_loop extract es written out
      else snapshot_loop extract es (written + 1) (out[1 + written := extract e]))"

definition map_snapshot :: "(nat \<Rightarrow> bool) \<Rightarrow> map_header option \<Rightarrow> (map_entry \<Rightarrow> u64) \<Rightarrow> u64 list option" where
  "map_snapshot al m extract =
     (let live = thaw_map_size m in
      if \<not> al ((live + 1) * 8) then None
      else (case m of
              None \<Rightarrow> Some [of_nat live]
            | Some h \<Rightarrow>
                Some (snapshot_loop extract (take (mh_entries_len h) (mh_entries h)) 0
                  (of_nat live # replicate live 0))))"

text \<open>The pair that the entry modes build is an arena tuple: its address is an argument.\<close>

datatype iterator_result = Iter_null | Iter_done | Iter_item nat u64

definition iterator_word :: "(u64 \<Rightarrow> u64 \<Rightarrow> u64) \<Rightarrow> nat \<Rightarrow> map_entry \<Rightarrow> u64 option" where
  "iterator_word pair mode e =
     (if mode = 0 then Some (en_key e)
      else if mode = 1 then Some (en_value e)
      else if mode = 2 then Some (pair (en_key e) (en_value e))
      else if mode = 3 then Some (pair (en_key e) (en_key e))
      else None)"

fun iterator_scan :: "(u64 \<Rightarrow> u64 \<Rightarrow> u64) \<Rightarrow> (nat \<Rightarrow> bool) \<Rightarrow> nat \<Rightarrow> map_entry list \<Rightarrow> iterator_result" where
  "iterator_scan pair al mode [] = (if al 8 then Iter_done else Iter_null)"
| "iterator_scan pair al mode (e # es) =
     (if en_state e \<noteq> ENTRY_LIVE then iterator_scan pair al mode es
      else (case iterator_word pair mode e of
              None \<Rightarrow> (if al 8 then Iter_done else Iter_null)
            | Some v \<Rightarrow> if al 24 then Iter_item (en_ordinal e + 1) v else Iter_null))"

definition thaw_map_iterator_next ::
    "(u64 \<Rightarrow> u64 \<Rightarrow> u64) \<Rightarrow> (nat \<Rightarrow> bool) \<Rightarrow> map_header option \<Rightarrow> nat \<Rightarrow> nat \<Rightarrow> iterator_result" where
  "thaw_map_iterator_next pair al m cursor mode =
     (case m of
        None \<Rightarrow> (if al 8 then Iter_done else Iter_null)
      | Some h \<Rightarrow>
          if mh_entries_len h = 0 then (if al 8 then Iter_done else Iter_null)
          else (let es = take (mh_entries_len h) (mh_entries h);
                    start = partition_point (\<lambda>e. en_ordinal e < cursor) es
                in iterator_scan pair al mode (drop start es)))"

subsection \<open>Exported functions\<close>

text \<open>The macro \<open>key_kind_functions\<close> instantiates the operations with a key kind and an encoding of the
  key; the getters read the value word, \<open>0\<close> when the key is absent.\<close>

definition map_get_word :: "key_kind \<Rightarrow> map_header option \<Rightarrow> u64 \<Rightarrow> u64 option" where
  "map_get_word K m key = map_option (\<lambda>w. case w of None \<Rightarrow> 0 | Some v \<Rightarrow> v) (map_get K m key)"

definition map_get_bool :: "key_kind \<Rightarrow> map_header option \<Rightarrow> u64 \<Rightarrow> bool option" where
  "map_get_bool K m key = map_option (\<lambda>w. w \<noteq> 0) (map_get_word K m key)"

definition encode_num_key :: "u64 \<Rightarrow> u64" where
  "encode_num_key key = canonical_num_key key"

definition encode_str_key :: "usize \<Rightarrow> u64" where
  "encode_str_key key = of_nat key"

definition encode_ref_key :: "usize \<Rightarrow> u64" where
  "encode_ref_key key = of_nat key"

definition thaw_map_num_has :: "map_header option \<Rightarrow> u64 \<Rightarrow> bool option" where
  "thaw_map_num_has m key = map_has NumKey m (encode_num_key key)"

definition thaw_map_num_get :: "map_header option \<Rightarrow> u64 \<Rightarrow> u64 option" where
  "thaw_map_num_get m key = map_get_word NumKey m (encode_num_key key)"

definition thaw_map_num_set ::
    "(nat \<Rightarrow> bool) \<Rightarrow> map_header option \<Rightarrow> u64 \<Rightarrow> u64 \<Rightarrow> (bool \<times> map_header option) option" where
  "thaw_map_num_set al m key v = with_map (\<lambda>h. map_set NumKey al h (encode_num_key key) v) m"

definition thaw_map_num_delete :: "map_header option \<Rightarrow> u64 \<Rightarrow> (bool \<times> map_header option) option" where
  "thaw_map_num_delete m key = with_map (\<lambda>h. map_delete NumKey h (encode_num_key key)) m"

definition thaw_map_str_has :: "'b native_state \<Rightarrow> map_header option \<Rightarrow> usize \<Rightarrow> bool option" where
  "thaw_map_str_has s m key = map_has (StrKey s) m (encode_str_key key)"

definition thaw_map_str_get :: "'b native_state \<Rightarrow> map_header option \<Rightarrow> usize \<Rightarrow> u64 option" where
  "thaw_map_str_get s m key = map_get_word (StrKey s) m (encode_str_key key)"

definition thaw_map_str_set ::
    "'b native_state \<Rightarrow> (nat \<Rightarrow> bool) \<Rightarrow> map_header option \<Rightarrow> usize \<Rightarrow> u64 \<Rightarrow> (bool \<times> map_header option) option" where
  "thaw_map_str_set s al m key v = with_map (\<lambda>h. map_set (StrKey s) al h (encode_str_key key) v) m"

definition thaw_map_str_delete :: "'b native_state \<Rightarrow> map_header option \<Rightarrow> usize \<Rightarrow> (bool \<times> map_header option) option" where
  "thaw_map_str_delete s m key = with_map (\<lambda>h. map_delete (StrKey s) h (encode_str_key key)) m"

definition thaw_map_ref_set ::
    "(nat \<Rightarrow> bool) \<Rightarrow> map_header option \<Rightarrow> usize \<Rightarrow> u64 \<Rightarrow> (bool \<times> map_header option) option" where
  "thaw_map_ref_set al m key v = with_map (\<lambda>h. map_set NumKey al h (encode_ref_key key) v) m"

definition thaw_map_ref_get :: "map_header option \<Rightarrow> usize \<Rightarrow> u64 option" where
  "thaw_map_ref_get m key = map_get_word NumKey m (encode_ref_key key)"

definition thaw_map_ref_delete :: "map_header option \<Rightarrow> usize \<Rightarrow> (bool \<times> map_header option) option" where
  "thaw_map_ref_delete m key = with_map (\<lambda>h. map_delete NumKey h (encode_ref_key key)) m"

definition thaw_map_snapshot_keys :: "(nat \<Rightarrow> bool) \<Rightarrow> map_header option \<Rightarrow> u64 list option" where
  "thaw_map_snapshot_keys al m = map_snapshot al m en_key"

definition thaw_map_snapshot_values :: "(nat \<Rightarrow> bool) \<Rightarrow> map_header option \<Rightarrow> u64 list option" where
  "thaw_map_snapshot_values al m = map_snapshot al m en_value"

definition thaw_map_snapshot_entries ::
    "(u64 \<Rightarrow> u64 \<Rightarrow> u64) \<Rightarrow> (nat \<Rightarrow> bool) \<Rightarrow> map_header option \<Rightarrow> u64 list option" where
  "thaw_map_snapshot_entries pair al m = map_snapshot al m (\<lambda>e. pair (en_key e) (en_value e))"

definition thaw_set_snapshot_entries ::
    "(u64 \<Rightarrow> u64 \<Rightarrow> u64) \<Rightarrow> (nat \<Rightarrow> bool) \<Rightarrow> map_header option \<Rightarrow> u64 list option" where
  "thaw_set_snapshot_entries pair al m = map_snapshot al m (\<lambda>e. pair (en_key e) (en_key e))"

end
