(* ===== verification/Map_Probe.thy ===== *)
theory Map_Probe
  imports Map_Table
begin

text \<open>
  Linear probing. The bucket index of a power-of-two table is correct for a set of entries when
  every entry is named by exactly one bucket, which a probe from the entry's home bucket reaches
  before any empty bucket. Placing an entry, turning its bucket into a tombstone and starting
  from an empty index keep that, and a search in an index with an empty bucket ends and finds an
  entry exactly when there is a matching one.
\<close>

subsection \<open>Slots\<close>

definition pow2 :: "nat \<Rightarrow> bool" where
  "pow2 n \<longleftrightarrow> (\<exists>k. n = 2 ^ k)"

definition slot :: "nat \<Rightarrow> nat \<Rightarrow> nat \<Rightarrow> nat" where
  "slot n a j = (a + j) mod n"

lemma pow2_pos: "pow2 n \<Longrightarrow> 0 < n"
  by (auto simp: pow2_def)

lemma pow2_and: "pow2 n \<Longrightarrow> x AND (n - Suc 0) = x mod n"
proof -
  assume "pow2 n"
  then obtain k where "n = 2 ^ k" by (auto simp: pow2_def)
  then show ?thesis using nat_and_mask [of x k] by (simp add: mask_eq_exp_minus_1)
qed

lemma home_bucket_mod: "pow2 n \<Longrightarrow> home_bucket n hash = slot n (unat hash) 0"
  by (simp add: home_bucket_def pow2_and slot_def)

lemma next_slot: "pow2 n \<Longrightarrow> next_bucket n (slot n a j) = slot n a (Suc j)"
  by (simp add: next_bucket_def pow2_and slot_def mod_Suc_eq)

lemma slot_less: "0 < n \<Longrightarrow> slot n a j < n"
  by (simp add: slot_def)

lemma slot_Suc: "slot n a (Suc j) = slot n (Suc a) j"
  by (simp add: slot_def)

lemma slot_surj: "i < n \<Longrightarrow> \<exists>j<n. slot n a j = i"
proof -
  assume i: "i < n"
  let ?j = "(i + (n - a mod n)) mod n"
  have am: "a mod n \<le> n" using i by (simp add: less_imp_le)
  have "slot n a ?j = (a mod n + (i + (n - a mod n))) mod n"
    unfolding slot_def by (metis mod_add_left_eq mod_add_right_eq)
  also have "\<dots> = (i + n) mod n" using am by simp
  also have "\<dots> = i" using i by simp
  finally show ?thesis using i by (intro exI [of _ ?j]) simp
qed

lemma first_slot:
  assumes "i < n" "P i"
  obtains d where "d < n" "P (slot n a d)" "\<And>j. j < d \<Longrightarrow> \<not> P (slot n a j)"
proof -
  obtain j where j: "j < n" "slot n a j = i" using slot_surj [OF assms(1)] by blast
  define d where "d = (LEAST j. P (slot n a j))"
  have pd: "P (slot n a d)" unfolding d_def by (rule LeastI [of _ j]) (use j assms(2) in simp)
  have "d \<le> j" unfolding d_def by (rule Least_le) (use j assms(2) in simp)
  moreover have "\<not> P (slot n a k)" if "k < d" for k
    using not_less_Least [of k "\<lambda>j. P (slot n a j)"] that unfolding d_def by simp
  ultimately show thesis using that [of d] pd j(1) by simp
qed

subsection \<open>The loops\<close>

definition stops :: "key_kind \<Rightarrow> map_header \<Rightarrow> u64 \<Rightarrow> u64 \<Rightarrow> nat \<Rightarrow> bool" where
  "stops K h key hash i \<longleftrightarrow>
     mh_buckets h ! i = BUCKET_EMPTY \<or>
     (mh_buckets h ! i \<noteq> BUCKET_TOMBSTONE \<and> entry_matches K (mh_entries h ! nat (mh_buckets h ! i)) key hash)"

lemma bucket_consts [simp]: "BUCKET_EMPTY \<noteq> BUCKET_TOMBSTONE" "BUCKET_TOMBSTONE \<noteq> BUCKET_EMPTY"
  by (simp_all add: BUCKET_EMPTY_def BUCKET_TOMBSTONE_def)

lemma find_loop_match:
  assumes "pow2 n" "n = length (mh_buckets h)"
  shows "(\<And>j. j < d \<Longrightarrow> \<not> stops K h key hash (slot n a j)) \<Longrightarrow> stops K h key hash (slot n a d) \<Longrightarrow>
    mh_buckets h ! slot n a d \<noteq> BUCKET_EMPTY \<Longrightarrow>
    find_loop K h key hash (slot n a 0) r = Some (slot n a d, Some (nat (mh_buckets h ! slot n a d)))"
proof (induction d arbitrary: a r)
  case 0
  then show ?case by (subst find_loop.simps) (auto simp: stops_def Let_def)
next
  case (Suc d)
  have s0: "\<not> stops K h key hash (slot n a 0)" using Suc.prems(1) [of 0] by simp
  have "find_loop K h key hash (slot n (Suc a) 0) r' = Some (slot n (Suc a) d, Some (nat (mh_buckets h ! slot n (Suc a) d)))" for r'
    using Suc.prems(1) [of "Suc j" for j] Suc.prems(2,3) by (intro Suc.IH) (auto simp: slot_Suc)
  then show ?case
    using s0 next_slot [OF assms(1), of a 0] assms(2)
    by (subst find_loop.simps) (auto simp: stops_def Let_def slot_Suc)
qed

lemma find_loop_empty:
  assumes "pow2 n" "n = length (mh_buckets h)"
  shows "(\<And>j. j < d \<Longrightarrow> \<not> stops K h key hash (slot n a j)) \<Longrightarrow> mh_buckets h ! slot n a d = BUCKET_EMPTY \<Longrightarrow>
    \<exists>q. find_loop K h key hash (slot n a 0) r = Some (q, None) \<and>
      (case r of Some q' \<Rightarrow> q = q'
       | None \<Rightarrow> \<exists>j\<le>d. q = slot n a j \<and> (mh_buckets h ! q = BUCKET_EMPTY \<or> mh_buckets h ! q = BUCKET_TOMBSTONE))"
proof (induction d arbitrary: a r)
  case 0
  then show ?case by (subst find_loop.simps) (auto simp: Let_def split: option.split)
next
  case (Suc d)
  have s0: "\<not> stops K h key hash (slot n a 0)" using Suc.prems(1) [of 0] by simp
  have IH: "\<exists>q. find_loop K h key hash (slot n (Suc a) 0) r' = Some (q, None) \<and>
      (case r' of Some q' \<Rightarrow> q = q'
       | None \<Rightarrow> \<exists>j\<le>d. q = slot n (Suc a) j \<and> (mh_buckets h ! q = BUCKET_EMPTY \<or> mh_buckets h ! q = BUCKET_TOMBSTONE))" for r'
    using Suc.prems(1) [of "Suc j" for j] Suc.prems(2) by (intro Suc.IH) (auto simp: slot_Suc)
  have nx: "next_bucket (length (mh_buckets h)) (slot n a 0) = slot n (Suc a) 0"
    using next_slot [OF assms(1), of a 0] assms(2) by (simp add: slot_Suc)
  show ?case
  proof (cases "mh_buckets h ! slot n a 0 = BUCKET_TOMBSTONE")
    case True
    let ?r = "case r of Some q \<Rightarrow> Some q | None \<Rightarrow> Some (slot n a 0)"
    have "find_loop K h key hash (slot n a 0) r = find_loop K h key hash (slot n (Suc a) 0) ?r"
      using True nx by (subst find_loop.simps) (simp add: Let_def)
    then show ?thesis using IH [of ?r] True by (auto split: option.splits)
  next
    case False
    then have "find_loop K h key hash (slot n a 0) r = find_loop K h key hash (slot n (Suc a) 0) r"
      using s0 nx by (subst find_loop.simps) (auto simp: stops_def Let_def)
    moreover have "\<exists>j\<le>Suc d. q = slot n a j \<and> P q" if "\<exists>j\<le>d. q = slot n (Suc a) j \<and> P q" for q P
      using that by (metis Suc_le_mono slot_Suc)
    ultimately show ?thesis using IH [of r] by (fastforce split: option.splits)
  qed
qed

lemma place_loop_result:
  assumes "pow2 n" "n = length bs"
  shows "(\<And>j. j < d \<Longrightarrow> bs ! slot n a j \<noteq> BUCKET_EMPTY) \<Longrightarrow> bs ! slot n a d = BUCKET_EMPTY \<Longrightarrow>
    place_loop bs (slot n a 0) v = Some (bs[slot n a d := v])"
proof (induction d arbitrary: a)
  case 0
  then show ?case by (subst place_loop.simps) simp
next
  case (Suc d)
  have "place_loop bs (slot n (Suc a) 0) v = Some (bs[slot n (Suc a) d := v])"
    using Suc.prems(1) [of "Suc j" for j] Suc.prems(2) by (intro Suc.IH) (auto simp: slot_Suc)
  then show ?case
    using Suc.prems(1) [of 0] next_slot [OF assms(1), of a 0] assms(2)
    by (subst place_loop.simps) (simp add: slot_Suc)
qed

subsection \<open>A correct index\<close>

definition probe_path :: "int list \<Rightarrow> u64 \<Rightarrow> nat \<Rightarrow> bool" where
  "probe_path bs hash i \<longleftrightarrow>
     (\<exists>j < length bs. i = slot (length bs) (unat hash) j \<and>
        (\<forall>k<j. bs ! slot (length bs) (unat hash) k \<noteq> BUCKET_EMPTY))"

definition bucket_inv :: "int list \<Rightarrow> (nat \<Rightarrow> u64) \<Rightarrow> nat set \<Rightarrow> bool" where
  "bucket_inv bs hf S \<longleftrightarrow>
     (\<forall>i < length bs. bs ! i = BUCKET_EMPTY \<or> bs ! i = BUCKET_TOMBSTONE \<or> (\<exists>e \<in> S. bs ! i = int e)) \<and>
     (\<forall>e \<in> S. \<exists>i < length bs. bs ! i = int e \<and> probe_path bs (hf e) i) \<and>
     (\<forall>i < length bs. \<forall>j < length bs. bs ! i = bs ! j \<longrightarrow> 0 \<le> bs ! i \<longrightarrow> i = j)"

definition used_buckets :: "int list \<Rightarrow> nat set" where
  "used_buckets bs = {i. i < length bs \<and> bs ! i \<noteq> BUCKET_EMPTY}"

lemma bucket_consts_neg [simp]: "BUCKET_EMPTY < 0" "BUCKET_TOMBSTONE < 0" "int e \<noteq> BUCKET_EMPTY"
  "int e \<noteq> BUCKET_TOMBSTONE" "BUCKET_EMPTY \<noteq> int e" "BUCKET_TOMBSTONE \<noteq> int e"
  by (simp_all add: BUCKET_EMPTY_def BUCKET_TOMBSTONE_def)

lemma bucket_inv_value:
  "bucket_inv bs hf S \<Longrightarrow> i < length bs \<Longrightarrow>
   bs ! i = BUCKET_EMPTY \<or> bs ! i = BUCKET_TOMBSTONE \<or> (\<exists>e \<in> S. bs ! i = int e)"
  by (simp add: bucket_inv_def)

lemma bucket_inv_entry:
  assumes "bucket_inv bs hf S" "e \<in> S"
  obtains i where "i < length bs" "bs ! i = int e" "probe_path bs (hf e) i"
  using assms unfolding bucket_inv_def by blast

lemma bucket_inv_inj:
  "bucket_inv bs hf S \<Longrightarrow> i < length bs \<Longrightarrow> j < length bs \<Longrightarrow> bs ! i = int e \<Longrightarrow> bs ! j = int e \<Longrightarrow> i = j"
  unfolding bucket_inv_def by (metis of_nat_0_le_iff)

lemma bucket_invI:
  assumes "\<And>i. i < length bs \<Longrightarrow> bs ! i = BUCKET_EMPTY \<or> bs ! i = BUCKET_TOMBSTONE \<or> (\<exists>e \<in> S. bs ! i = int e)"
    and "\<And>e. e \<in> S \<Longrightarrow> \<exists>i < length bs. bs ! i = int e \<and> probe_path bs (hf e) i"
    and "\<And>i j e. i < length bs \<Longrightarrow> j < length bs \<Longrightarrow> bs ! i = int e \<Longrightarrow> bs ! j = int e \<Longrightarrow> i = j"
  shows "bucket_inv bs hf S"
  unfolding bucket_inv_def
proof (intro conjI allI impI ballI)
  fix i j assume ij: "i < length bs" "j < length bs" "bs ! i = bs ! j" "0 \<le> bs ! i"
  obtain e where e: "bs ! i = int e" using nonneg_int_cases [OF ij(4)] .
  show "i = j" by (rule assms(3) [OF ij(1,2) e]) (use ij(3) e in simp)
next
  show "i < length bs \<Longrightarrow> bs ! i = BUCKET_EMPTY \<or> bs ! i = BUCKET_TOMBSTONE \<or> (\<exists>e \<in> S. bs ! i = int e)" for i
    by (rule assms(1))
  show "e \<in> S \<Longrightarrow> \<exists>i < length bs. bs ! i = int e \<and> probe_path bs (hf e) i" for e by (rule assms(2))
qed

lemma bucket_inv_empty: "bucket_inv (replicate n BUCKET_EMPTY) hf {}"
  by (rule bucket_invI) simp_all

lemma probe_path_update:
  assumes "probe_path bs hash i" "r < length bs" "v \<noteq> BUCKET_EMPTY"
  shows "probe_path (bs[r := v]) hash i"
  using assms by (auto simp: probe_path_def nth_list_update)

lemma bucket_inv_cong: "bucket_inv bs hf S \<Longrightarrow> (\<And>e. e \<in> S \<Longrightarrow> hf e = hf' e) \<Longrightarrow> bucket_inv bs hf' S"
  unfolding bucket_inv_def by simp

lemma bucket_inv_place:
  assumes inv: "bucket_inv bs hf S" and r: "r < length bs" "bs ! r < 0" "probe_path bs (hf e) r" and e: "e \<notin> S"
  shows "bucket_inv (bs[r := int e]) hf (insert e S)"
proof (rule bucket_invI)
  fix i assume "i < length (bs[r := int e])"
  then show "bs[r := int e] ! i = BUCKET_EMPTY \<or> bs[r := int e] ! i = BUCKET_TOMBSTONE \<or>
      (\<exists>x \<in> insert e S. bs[r := int e] ! i = int x)"
    using bucket_inv_value [OF inv, of i] by (cases "i = r") auto
next
  fix x assume x: "x \<in> insert e S"
  show "\<exists>i < length (bs[r := int e]). bs[r := int e] ! i = int x \<and> probe_path (bs[r := int e]) (hf x) i"
  proof (cases "x = e")
    case True
    then show ?thesis using r probe_path_update [OF r(3,1), of "int e"] by (intro exI [of _ r]) simp
  next
    case False
    then have "x \<in> S" using x by simp
    with inv obtain i where i: "i < length bs" "bs ! i = int x" "probe_path bs (hf x) i"
      by (rule bucket_inv_entry)
    then have "i \<noteq> r" using r(2) by auto
    then show ?thesis using i probe_path_update [OF i(3) r(1), of "int e"] by (intro exI [of _ i]) simp
  qed
next
  fix i j x
  assume ij: "i < length (bs[r := int e])" "j < length (bs[r := int e])"
    and x: "bs[r := int e] ! i = int x" "bs[r := int e] ! j = int x"
  have "bs ! k \<noteq> int e" if "k < length bs" for k
    using bucket_inv_value [OF inv that] e by auto
  then show "i = j"
    using ij x bucket_inv_inj [OF inv, of i j x] by (cases "i = r"; cases "j = r") auto
qed

lemma bucket_inv_tombstone:
  assumes inv: "bucket_inv bs hf S" and r: "r < length bs" "bs ! r = int e"
  shows "bucket_inv (bs[r := BUCKET_TOMBSTONE]) hf (S - {e})"
proof (rule bucket_invI)
  fix i assume i: "i < length (bs[r := BUCKET_TOMBSTONE])"
  have "bs ! i \<noteq> int e" if "i \<noteq> r" using bucket_inv_inj [OF inv, of i r e] r i that by auto
  then show "bs[r := BUCKET_TOMBSTONE] ! i = BUCKET_EMPTY \<or> bs[r := BUCKET_TOMBSTONE] ! i = BUCKET_TOMBSTONE \<or>
      (\<exists>x \<in> S - {e}. bs[r := BUCKET_TOMBSTONE] ! i = int x)"
    using bucket_inv_value [OF inv, of i] i by (cases "i = r") auto
next
  fix x assume x: "x \<in> S - {e}"
  then have "x \<in> S" by simp
  with inv obtain i where i: "i < length bs" "bs ! i = int x" "probe_path bs (hf x) i"
    by (rule bucket_inv_entry)
  then have "i \<noteq> r" using r(2) x by auto
  then show "\<exists>i < length (bs[r := BUCKET_TOMBSTONE]). bs[r := BUCKET_TOMBSTONE] ! i = int x \<and>
      probe_path (bs[r := BUCKET_TOMBSTONE]) (hf x) i"
    using i probe_path_update [OF i(3) r(1), of BUCKET_TOMBSTONE] by (intro exI [of _ i]) simp
next
  fix i j x
  assume "i < length (bs[r := BUCKET_TOMBSTONE])" "j < length (bs[r := BUCKET_TOMBSTONE])"
    "bs[r := BUCKET_TOMBSTONE] ! i = int x" "bs[r := BUCKET_TOMBSTONE] ! j = int x"
  then show "i = j" using bucket_inv_inj [OF inv, of i j x] by (cases "i = r"; cases "j = r") auto
qed

lemma used_update: "r < length bs \<Longrightarrow> v \<noteq> BUCKET_EMPTY \<Longrightarrow> used_buckets (bs[r := v]) = insert r (used_buckets bs)"
  by (auto simp: used_buckets_def nth_list_update)

lemma finite_used [simp]: "finite (used_buckets bs)"
  by (simp add: used_buckets_def)

lemma free_bucket:
  assumes "card (used_buckets bs) < length bs"
  obtains i where "i < length bs" "bs ! i = BUCKET_EMPTY"
proof -
  have "\<not> {0..<length bs} \<subseteq> used_buckets bs" using assms card_mono [of "used_buckets bs" "{0..<length bs}"] by auto
  then show thesis using that by (auto simp: used_buckets_def)
qed

subsection \<open>Searching\<close>

text \<open>What a key kind promises: equality is an equivalence that the hash respects.\<close>

locale key_laws =
  fixes K :: key_kind
  assumes eq_refl: "kk_eq K a a"
    and eq_sym: "kk_eq K a b \<Longrightarrow> kk_eq K b a"
    and eq_trans: "kk_eq K a b \<Longrightarrow> kk_eq K b c \<Longrightarrow> kk_eq K a c"
    and hash_eq: "kk_eq K a b \<Longrightarrow> kk_hash K a = kk_hash K b"

text \<open>The index of a header: the buckets name exactly the live entries, whose keys are pairwise
  different and carry their hash.\<close>

definition live_set :: "map_header \<Rightarrow> nat set" where
  "live_set h = {e. e < mh_entries_len h \<and> en_state (mh_entries h ! e) = ENTRY_LIVE}"

definition index_inv :: "key_kind \<Rightarrow> map_header \<Rightarrow> bool" where
  "index_inv K h \<longleftrightarrow>
     pow2 (length (mh_buckets h)) \<and> mh_entries_len h \<le> length (mh_entries h) \<and>
     card (used_buckets (mh_buckets h)) \<le> mh_entries_len h \<and> mh_entries_len h < length (mh_buckets h) \<and>
     bucket_inv (mh_buckets h) (\<lambda>e. en_hash (mh_entries h ! e)) (live_set h) \<and>
     (\<forall>e \<in> live_set h. en_hash (mh_entries h ! e) = kk_hash K (en_key (mh_entries h ! e))) \<and>
     (\<forall>e \<in> live_set h. \<forall>f \<in> live_set h. kk_eq K (en_key (mh_entries h ! e)) (en_key (mh_entries h ! f)) \<longrightarrow> e = f)"

lemma index_invD:
  assumes "index_inv K h"
  shows "pow2 (length (mh_buckets h))" "mh_entries_len h \<le> length (mh_entries h)"
    "card (used_buckets (mh_buckets h)) < length (mh_buckets h)"
    "bucket_inv (mh_buckets h) (\<lambda>e. en_hash (mh_entries h ! e)) (live_set h)"
    "\<And>e. e \<in> live_set h \<Longrightarrow> en_hash (mh_entries h ! e) = kk_hash K (en_key (mh_entries h ! e))"
    "\<And>e f. e \<in> live_set h \<Longrightarrow> f \<in> live_set h \<Longrightarrow>
       kk_eq K (en_key (mh_entries h ! e)) (en_key (mh_entries h ! f)) \<Longrightarrow> e = f"
  using assms by (simp_all add: index_inv_def)

context key_laws
begin

lemma stop_entry:
  assumes inv: "index_inv K h" and i: "i < length (mh_buckets h)" and st: "stops K h key hash i"
    and ne: "mh_buckets h ! i \<noteq> BUCKET_EMPTY"
  obtains e where "e \<in> live_set h" "mh_buckets h ! i = int e" "kk_eq K (en_key (mh_entries h ! e)) key"
proof -
  have m: "mh_buckets h ! i \<noteq> BUCKET_TOMBSTONE" "entry_matches K (mh_entries h ! nat (mh_buckets h ! i)) key hash"
    using st ne by (auto simp: stops_def)
  then obtain e where "e \<in> live_set h" "mh_buckets h ! i = int e"
    using bucket_inv_value [OF index_invD(4) [OF inv] i] ne by blast
  then show thesis using that m(2) by (simp add: entry_matches_def)
qed

text \<open>A present key is found in its bucket.\<close>

lemma find_present:
  assumes inv: "index_inv K h" and e: "e \<in> live_set h" "kk_eq K (en_key (mh_entries h ! e)) key"
  shows "\<exists>i < length (mh_buckets h). find_bucket K h key (kk_hash K key) = Some (i, Some e) \<and> mh_buckets h ! i = int e"
proof -
  let ?n = "length (mh_buckets h)" and ?hash = "kk_hash K key"
  note D = index_invD [OF inv]
  have pos: "0 < ?n" by (rule pow2_pos [OF D(1)])
  have hash: "en_hash (mh_entries h ! e) = ?hash" using D(5) [OF e(1)] hash_eq [OF e(2)] by simp
  obtain i where i: "i < ?n" "mh_buckets h ! i = int e" "probe_path (mh_buckets h) (en_hash (mh_entries h ! e)) i"
    by (rule bucket_inv_entry [OF D(4) e(1)])
  obtain j where j: "j < ?n" "i = slot ?n (unat ?hash) j" "\<And>k. k < j \<Longrightarrow> mh_buckets h ! slot ?n (unat ?hash) k \<noteq> BUCKET_EMPTY"
    using i(3) hash by (auto simp: probe_path_def)
  have sj: "stops K h key ?hash i"
    using i(2) e hash by (auto simp: stops_def entry_matches_def live_set_def)
  obtain d where d: "d < ?n" "stops K h key ?hash (slot ?n (unat ?hash) d)"
      "\<And>k. k < d \<Longrightarrow> \<not> stops K h key ?hash (slot ?n (unat ?hash) k)"
    using first_slot [OF i(1), of "stops K h key ?hash" "unat ?hash", OF sj] by blast
  have "d \<le> j" using d(3) [of j] sj j(2) by (meson leI)
  then have ne: "mh_buckets h ! slot ?n (unat ?hash) d \<noteq> BUCKET_EMPTY"
    using j(2) j(3) [of d] i(2) by (cases "d = j") auto
  obtain f where f: "f \<in> live_set h" "mh_buckets h ! slot ?n (unat ?hash) d = int f"
      "kk_eq K (en_key (mh_entries h ! f)) key"
    by (rule stop_entry [OF inv slot_less [OF pos] d(2) ne])
  have "f = e" by (rule D(6) [OF f(1) e(1)]) (rule eq_trans [OF f(3) eq_sym [OF e(2)]])
  moreover have "find_bucket K h key ?hash = Some (slot ?n (unat ?hash) d, Some f)"
    unfolding find_bucket_def home_bucket_mod [OF D(1)]
    using find_loop_match [OF D(1) refl d(3,2) ne] f(2) by simp
  ultimately show ?thesis using f(2) slot_less [OF pos] by blast
qed

text \<open>For an absent key the search ends at a bucket where it can be placed.\<close>

lemma find_absent:
  assumes inv: "index_inv K h" and absent: "\<And>e. e \<in> live_set h \<Longrightarrow> \<not> kk_eq K (en_key (mh_entries h ! e)) key"
  shows "\<exists>r < length (mh_buckets h). find_bucket K h key hash = Some (r, None) \<and> mh_buckets h ! r < 0 \<and>
    probe_path (mh_buckets h) hash r"
proof -
  let ?n = "length (mh_buckets h)"
  note D = index_invD [OF inv]
  have pos: "0 < ?n" by (rule pow2_pos [OF D(1)])
  obtain i where i: "i < ?n" "mh_buckets h ! i = BUCKET_EMPTY" using free_bucket [OF D(3)] .
  have "stops K h key hash i" using i(2) by (simp add: stops_def)
  then obtain d where d: "d < ?n" "stops K h key hash (slot ?n (unat hash) d)"
      "\<And>k. k < d \<Longrightarrow> \<not> stops K h key hash (slot ?n (unat hash) k)"
    using first_slot [OF i(1), of "stops K h key hash" "unat hash"] by blast
  have em: "mh_buckets h ! slot ?n (unat hash) d = BUCKET_EMPTY"
    using stop_entry [OF inv slot_less [OF pos] d(2)] absent by blast
  obtain q where q: "find_loop K h key hash (slot ?n (unat hash) 0) None = Some (q, None)"
      "\<exists>j\<le>d. q = slot ?n (unat hash) j \<and> (mh_buckets h ! q = BUCKET_EMPTY \<or> mh_buckets h ! q = BUCKET_TOMBSTONE)"
    using find_loop_empty [OF D(1) refl d(3) em, of None] by auto
  then obtain j where j: "j \<le> d" "q = slot ?n (unat hash) j" by blast
  have "probe_path (mh_buckets h) hash q"
    unfolding probe_path_def using j d(1,3) by (auto simp: stops_def intro!: exI [of _ j])
  then show ?thesis
    using q slot_less [OF pos, of "unat hash" j] j(2)
    by (auto simp: find_bucket_def home_bucket_mod [OF D(1)])
qed

end

end
