(* ===== verification/Map_Ops.thy ===== *)
theory Map_Ops
  imports Map_Refine
begin

text \<open>
  The operations of the hash table on a header that satisfies the invariant: each one returns, keeps
  the invariant, and changes the live entries as the dictionary operation does. Growth and
  compaction are invisible in the live entries, ordinals included, so an iterator that holds only an
  ordinal goes on where it stopped.
\<close>

subsection \<open>Keys of the used entries\<close>

definition live_entries :: "map_header \<Rightarrow> map_entry list" where
  "live_entries h = filter is_live_entry (used_entries h)"

definition apart :: "key_kind \<Rightarrow> map_entry \<Rightarrow> map_entry \<Rightarrow> bool" where
  "apart K a b \<longleftrightarrow> (is_live_entry a \<longrightarrow> is_live_entry b \<longrightarrow> \<not> kk_eq K (en_key a) (en_key b))"

definition keys_ok :: "key_kind \<Rightarrow> map_entry list \<Rightarrow> bool" where
  "keys_ok K es \<longleftrightarrow> (\<forall>x \<in> set es. is_live_entry x \<longrightarrow> en_hash x = kk_hash K (en_key x)) \<and> sorted_wrt (apart K) es"

lemma map_abs_live: "map_abs h = map entry_pair (live_entries h)"
  by (simp add: map_abs_def live_entries_def)

lemma find_map: "find P (map f xs) = map_option f (find (P \<circ> f) xs)"
  by (induction xs) simp_all

lemma keys_ok_Nil [simp]: "keys_ok K []"
  by (simp add: keys_ok_def)

lemma keys_ok_filter: "keys_ok K es \<Longrightarrow> keys_ok K (filter P es)"
  by (auto simp: keys_ok_def sorted_wrt_filter)

lemma keys_ok_snoc:
  "keys_ok K es \<Longrightarrow> en_hash x = kk_hash K (en_key x) \<Longrightarrow> (\<And>y. y \<in> set es \<Longrightarrow> apart K y x) \<Longrightarrow> keys_ok K (es @ [x])"
  by (auto simp: keys_ok_def sorted_wrt_append)

lemma keys_ok_map:
  assumes "keys_ok K es" "\<And>x. is_live_entry (f x) \<Longrightarrow> is_live_entry x \<and> en_key (f x) = en_key x \<and> en_hash (f x) = en_hash x"
  shows "keys_ok K (map f es)"
proof -
  have "apart K (f a) (f b)" if "apart K a b" for a b
    using that assms(2) [of a] assms(2) [of b] by (auto simp: apart_def)
  then have "sorted_wrt (apart K) (map f es)"
    using assms(1) by (auto simp: keys_ok_def sorted_wrt_map elim: sorted_wrt_mono_rel [rotated])
  moreover have "en_hash (f x) = kk_hash K (en_key (f x))" if "x \<in> set es" "is_live_entry (f x)" for x
    using assms(1) assms(2) [OF that(2)] that(1) by (auto simp: keys_ok_def)
  ultimately show ?thesis by (auto simp: keys_ok_def)
qed

definition table_inv :: "map_header \<Rightarrow> bool" where
  "table_inv h \<longleftrightarrow>
     pow2 (length (mh_buckets h)) \<and> mh_entries_len h \<le> length (mh_entries h) \<and>
     card (used_buckets (mh_buckets h)) \<le> mh_entries_len h \<and> mh_entries_len h < length (mh_buckets h) \<and>
     bucket_inv (mh_buckets h) (\<lambda>e. en_hash (mh_entries h ! e)) (live_set h) \<and> 16 \<le> length (mh_buckets h)"

context key_laws
begin

lemma keys_ok_iff:
  assumes "mh_entries_len h \<le> length (mh_entries h)"
  shows "keys_ok K (used_entries h) \<longleftrightarrow>
    (\<forall>e \<in> live_set h. en_hash (mh_entries h ! e) = kk_hash K (en_key (mh_entries h ! e))) \<and>
    (\<forall>e \<in> live_set h. \<forall>f \<in> live_set h. kk_eq K (en_key (mh_entries h ! e)) (en_key (mh_entries h ! f)) \<longrightarrow> e = f)"
    (is "_ \<longleftrightarrow> ?H \<and> ?U")
proof -
  note len = length_used_entries [OF assms]
  have H: "(\<forall>x \<in> set (used_entries h). is_live_entry x \<longrightarrow> en_hash x = kk_hash K (en_key x)) \<longleftrightarrow> ?H"
    unfolding all_set_conv_all_nth len by (simp add: live_setD Ball_def imp_conjL)
  have U: "sorted_wrt (apart K) (used_entries h) \<longleftrightarrow> ?U"
  proof
    assume s: "sorted_wrt (apart K) (used_entries h)"
    have lt: "\<not> kk_eq K (en_key (mh_entries h ! e)) (en_key (mh_entries h ! f))"
      if "e \<in> live_set h" "f \<in> live_set h" "e < f" for e f
      using sorted_wrt_nth_less [OF s that(3)] that by (simp add: live_setD len apart_def)
    show ?U
    proof (intro ballI impI)
      fix e f assume ef: "e \<in> live_set h" "f \<in> live_set h"
        and q: "kk_eq K (en_key (mh_entries h ! e)) (en_key (mh_entries h ! f))"
      show "e = f" using lt [OF ef] lt [OF ef(2,1)] q eq_sym [OF q] by (cases e f rule: linorder_cases) auto
    qed
  next
    assume u: ?U
    show "sorted_wrt (apart K) (used_entries h)"
      unfolding sorted_wrt_iff_nth_less len
    proof (intro allI impI)
      fix i j assume ij: "i < j" "j < mh_entries_len h"
      show "apart K (used_entries h ! i) (used_entries h ! j)"
        using u [THEN bspec, of i, THEN bspec, of j] ij by (simp add: apart_def live_setD)
    qed
  qed
  show ?thesis unfolding keys_ok_def H U ..
qed

lemma map_inv_iff:
  "map_inv K h \<longleftrightarrow>
     ordinals_ok (used_entries h) (mh_next_ordinal h) \<and> mh_live h = length (live_entries h) \<and> keys_ok K (used_entries h) \<and>
     (if mh_buckets h = [] then mh_entries h = [] \<and> mh_entries_len h = 0 else table_inv h)"
proof (cases "mh_buckets h = []")
  case True
  then show ?thesis by (auto simp: map_inv_def live_entries_def used_entries_def)
next
  case False
  show ?thesis
  proof (cases "mh_entries_len h \<le> length (mh_entries h)")
    case True
    then show ?thesis using False keys_ok_iff [OF True]
      by (auto simp: map_inv_def index_inv_def table_inv_def live_entries_def live_count)
  qed (use False in \<open>auto simp: map_inv_def index_inv_def table_inv_def\<close>)
qed

lemma map_invI:
  assumes "ordinals_ok (used_entries h) (mh_next_ordinal h)" "mh_live h = length (live_entries h)"
    "keys_ok K (used_entries h)" "table_inv h"
  shows "map_inv K h"
  using assms pow2_pos by (auto simp: map_inv_iff table_inv_def)

lemma map_inv_len: "map_inv K h \<Longrightarrow> mh_entries_len h \<le> length (mh_entries h)"
  by (auto simp: map_inv_iff table_inv_def split: if_splits)

lemma map_inv_index: "map_inv K h \<Longrightarrow> mh_buckets h \<noteq> [] \<Longrightarrow> index_inv K h"
  by (rule map_invD(2))

lemma live_entries_index:
  "map_inv K h \<Longrightarrow> x \<in> set (live_entries h) \<longleftrightarrow> (\<exists>e \<in> live_set h. x = mh_entries h ! e)"
  using live_entry_in [of x h] live_entry_mem map_inv_len by (metis live_entries_def)

text \<open>The entry of a key, if it has one.\<close>

lemma lookup_cases:
  assumes inv: "map_inv K h" and ne: "mh_buckets h \<noteq> []"
  obtains (present) e i where "e \<in> live_set h" "kk_eq K (en_key (mh_entries h ! e)) key"
      "i < length (mh_buckets h)" "find_bucket K h key (kk_hash K key) = Some (i, Some e)" "mh_buckets h ! i = int e"
  | (absent) r where "\<And>x. x \<in> set (live_entries h) \<Longrightarrow> \<not> kk_eq K (en_key x) key"
      "r < length (mh_buckets h)" "find_bucket K h key (kk_hash K key) = Some (r, None)" "mh_buckets h ! r < 0"
      "probe_path (mh_buckets h) (kk_hash K key) r"
proof (cases "\<exists>e \<in> live_set h. kk_eq K (en_key (mh_entries h ! e)) key")
  case True
  then obtain e where e: "e \<in> live_set h" "kk_eq K (en_key (mh_entries h ! e)) key" by blast
  from find_present [OF map_inv_index [OF inv ne] e] show ?thesis using present [OF e] by blast
next
  case False
  then have "\<not> kk_eq K (en_key (mh_entries h ! e)) key" if "e \<in> live_set h" for e using that by blast
  from find_absent [OF map_inv_index [OF inv ne] this, of "kk_hash K key"] obtain r
    where r: "r < length (mh_buckets h)" "find_bucket K h key (kk_hash K key) = Some (r, None)" "mh_buckets h ! r < 0"
      "probe_path (mh_buckets h) (kk_hash K key) r" by blast
  moreover have "\<not> kk_eq K (en_key x) key" if "x \<in> set (live_entries h)" for x
    using that False live_entries_index [OF inv, of x] by auto
  ultimately show ?thesis using absent by blast
qed

lemma unique_live:
  assumes "map_inv K h" "mh_buckets h \<noteq> []" "e \<in> live_set h" "kk_eq K (en_key (mh_entries h ! e)) key"
    "f \<in> live_set h" "kk_eq K (en_key (mh_entries h ! f)) key"
  shows "f = e"
  using index_invD(6) [OF map_inv_index [OF assms(1,2)] assms(5,3)] eq_trans [OF assms(6) eq_sym [OF assms(4)]] by blast

lemma dict_get_pair:
  "dict_get (kk_eq K) (map_abs h) key = map_option en_value (find (\<lambda>x. kk_eq K (en_key x) key) (live_entries h))"
  by (simp add: dict_get_def map_abs_live find_map entry_pair_def option.map_comp comp_def)

lemma dict_has_pair: "(\<exists>(k', _) \<in> set (map_abs h). kk_eq K k' key) \<longleftrightarrow> (\<exists>x \<in> set (live_entries h). kk_eq K (en_key x) key)"
  by (auto simp: map_abs_live entry_pair_def)

subsection \<open>Reading\<close>

lemma map_get_refines:
  assumes inv: "map_inv K h"
  shows "map_get K (Some h) key = Some (dict_get (kk_eq K) (map_abs h) key)"
proof (cases "mh_buckets h = []")
  case True
  then show ?thesis using inv
    by (simp add: map_get_def map_abs_def used_entries_def map_inv_def dict_get_def)
next
  case False
  show ?thesis
  proof (cases rule: lookup_cases [OF inv False, of key, case_names present absent])
    case (present e i)
    have "find (\<lambda>x. kk_eq K (en_key x) key) (live_entries h) = Some (mh_entries h ! e)"
    proof (rule find_unique)
      show "kk_eq K (en_key (mh_entries h ! e)) key" by (rule present(2))
      show "mh_entries h ! e \<in> set (live_entries h)" unfolding live_entries_index [OF inv] using present(1) by blast
      fix y assume y: "y \<in> set (live_entries h)" "kk_eq K (en_key y) key"
      obtain f where f: "f \<in> live_set h" "y = mh_entries h ! f" using y(1) unfolding live_entries_index [OF inv] by blast
      show "y = mh_entries h ! e" unfolding f(2) unique_live [OF inv False present(1,2) f(1) y(2) [unfolded f(2)]] ..
    qed
    then show ?thesis using present(4) False by (simp add: map_get_def dict_get_pair)
  next
    case (absent r)
    then have "find (\<lambda>x. kk_eq K (en_key x) key) (live_entries h) = None" by (auto simp: find_None_iff)
    then show ?thesis using absent(3) False by (simp add: map_get_def dict_get_pair)
  qed
qed

lemma map_size_abs: "map_inv K h \<Longrightarrow> thaw_map_size (Some h) = length (map_abs h)"
  by (simp add: thaw_map_size_def map_inv_iff map_abs_live)

subsection \<open>Changing one entry\<close>

definition hit :: "u64 \<Rightarrow> map_entry \<Rightarrow> bool" where
  "hit key x \<longleftrightarrow> is_live_entry x \<and> kk_eq K (en_key x) key"

lemma used_entries_update:
  assumes inv: "map_inv K h" "mh_buckets h \<noteq> []" and e: "e \<in> live_set h" "kk_eq K (en_key (mh_entries h ! e)) key"
    and h': "mh_entries h' = (mh_entries h)[e := f (mh_entries h ! e)]" "mh_entries_len h' = mh_entries_len h"
  shows "used_entries h' = map (\<lambda>x. if hit key x then f x else x) (used_entries h)"
proof -
  have le: "e < mh_entries_len h" using e(1) by (simp add: live_setD)
  have "used_entries h' = (used_entries h)[e := f (used_entries h ! e)]"
    using h' le by (simp add: used_entries_def take_update_swap)
  also have "\<dots> = map (\<lambda>x. if hit key x then f x else x) (used_entries h)"
  proof (rule update_is_map)
    show "e < length (used_entries h)" "hit key (used_entries h ! e)"
      using le e map_inv_len [OF inv(1)] by (simp_all add: length_used_entries hit_def live_setD)
    fix j assume j: "j < length (used_entries h)" "hit key (used_entries h ! j)"
    then have "j \<in> live_set h" "kk_eq K (en_key (mh_entries h ! j)) key"
      using map_inv_len [OF inv(1)] by (auto simp: length_used_entries hit_def live_setD)
    then show "j = e" by (rule unique_live [OF inv e])
  qed
  finally show ?thesis .
qed

lemma ordinals_map: "ordinals_ok es n \<Longrightarrow> (\<And>x. en_ordinal (f x) = en_ordinal x) \<Longrightarrow> ordinals_ok (map f es) n"
  by (rule ordinals_ok_cong) (simp_all add: comp_def)

lemma set_present:
  assumes inv: "map_inv K h" "mh_buckets h \<noteq> []" and e: "e \<in> live_set h" "kk_eq K (en_key (mh_entries h ! e)) key"
    and h'_def: "h' = h\<lparr>mh_entries := (mh_entries h)[e := (mh_entries h ! e)\<lparr>en_value := v\<rparr>]\<rparr>"
  shows "map_inv K h'" "map_abs h' = dict_set (kk_eq K) (map_abs h) key v"
    "map en_ordinal (live_entries h') = map en_ordinal (live_entries h)"
proof -
  let ?f = "\<lambda>x. if hit key x then x\<lparr>en_value := v\<rparr> else x"
  have used: "used_entries h' = map ?f (used_entries h)"
    by (rule used_entries_update [OF inv e]) (simp_all add: h'_def)
  have f: "is_live_entry (?f x) = is_live_entry x" "en_key (?f x) = en_key x" "en_hash (?f x) = en_hash x"
      "en_ordinal (?f x) = en_ordinal x" for x by (auto simp: is_live_entry_def)
  have live: "live_entries h' = map ?f (live_entries h)"
    unfolding live_entries_def used filter_map comp_def f ..
  show "map en_ordinal (live_entries h') = map en_ordinal (live_entries h)"
    unfolding live map_map comp_def f ..
  have le: "e < length (mh_entries h)" using e(1) map_inv_len [OF inv(1)] by (simp add: live_setD)
  have st: "en_state (mh_entries h' ! i) = en_state (mh_entries h ! i)" "en_hash (mh_entries h' ! i) = en_hash (mh_entries h ! i)" for i
    using le by (cases "i = e"; simp add: h'_def)+
  have ls: "live_set h' = live_set h" unfolding live_set_def st by (simp add: h'_def)
  have "table_inv h" using inv by (simp add: map_inv_iff)
  then have t: "table_inv h'" unfolding table_inv_def ls st by (simp add: h'_def)
  show "map_inv K h'"
  proof (rule map_invI [OF _ _ _ t])
    show "ordinals_ok (used_entries h') (mh_next_ordinal h')"
      unfolding used using inv(1) by (intro ordinals_map) (auto simp: map_inv_iff h'_def)
    show "mh_live h' = length (live_entries h')" unfolding live using inv(1) by (simp add: map_inv_iff h'_def)
    show "keys_ok K (used_entries h')" unfolding used
      by (rule keys_ok_map) (use inv(1) in \<open>simp_all add: map_inv_iff f del: if_split\<close>)
  qed
  have "\<exists>x \<in> set (live_entries h). kk_eq K (en_key x) key" using e live_entries_index [OF inv(1)] by blast
  then show "map_abs h' = dict_set (kk_eq K) (map_abs h) key v"
    unfolding dict_set_def dict_has_pair map_abs_live live
    by (auto simp: entry_pair_def hit_def live_entries_def)
qed

lemma delete_present:
  assumes inv: "map_inv K h" "mh_buckets h \<noteq> []" and e: "e \<in> live_set h" "kk_eq K (en_key (mh_entries h ! e)) key"
    and i: "i < length (mh_buckets h)" "mh_buckets h ! i = int e"
    and h'_def: "h' = h\<lparr>mh_entries := (mh_entries h)[e :=
          (mh_entries h ! e)\<lparr>en_state := ENTRY_TOMBSTONE, en_key := 0, en_value := 0\<rparr>],
        mh_buckets := (mh_buckets h)[i := BUCKET_TOMBSTONE], mh_live := mh_live h - 1\<rparr>"
  shows "map_inv K h'" "map_abs h' = dict_delete (kk_eq K) (map_abs h) key"
    "live_entries h' = filter (\<lambda>x. \<not> kk_eq K (en_key x) key) (live_entries h)"
proof -
  let ?g = "\<lambda>x. x\<lparr>en_state := ENTRY_TOMBSTONE, en_key := 0, en_value := 0\<rparr>"
  let ?f = "\<lambda>x. if hit key x then ?g x else x"
  have used: "used_entries h' = map ?f (used_entries h)"
    by (rule used_entries_update [OF inv e]) (simp_all add: h'_def)
  have f: "is_live_entry (?f x) \<longleftrightarrow> is_live_entry x \<and> \<not> kk_eq K (en_key x) key" "en_ordinal (?f x) = en_ordinal x" for x
    by (auto simp: is_live_entry_def hit_def)
  have filter_map_live: "filter is_live_entry (map ?f es) = filter (\<lambda>x. \<not> kk_eq K (en_key x) key) (filter is_live_entry es)" for es
    by (induction es) (auto simp: hit_def is_live_entry_def)
  show live: "live_entries h' = filter (\<lambda>x. \<not> kk_eq K (en_key x) key) (live_entries h)"
    unfolding live_entries_def used filter_map_live ..
  have le: "e < length (mh_entries h)" "e < mh_entries_len h" using e(1) map_inv_len [OF inv(1)] by (simp_all add: live_setD)
  have hs: "en_hash (mh_entries h' ! k) = en_hash (mh_entries h ! k)" for k
    using le by (cases "k = e") (simp_all add: h'_def)
  have ls: "live_set h' = live_set h - {e}"
    using le by (auto simp: live_set_def h'_def nth_list_update split: if_splits)
  have T: "table_inv h" using inv by (simp add: map_inv_iff)
  have "bucket_inv (mh_buckets h') (\<lambda>e. en_hash (mh_entries h ! e)) (live_set h - {e})"
    using bucket_inv_tombstone [OF _ i] T by (simp add: table_inv_def h'_def)
  moreover have "i \<in> used_buckets (mh_buckets h)" using i by (simp add: used_buckets_def)
  then have "used_buckets (mh_buckets h') = used_buckets (mh_buckets h)"
    using used_update [OF i(1), of BUCKET_TOMBSTONE] by (auto simp: h'_def)
  ultimately have t: "table_inv h'" using T unfolding table_inv_def ls hs by (simp add: h'_def)
  have len: "length (live_entries h') = card (live_set h')"
    using map_inv_len [OF inv(1)] unfolding live_entries_def by (intro live_count) (simp add: h'_def)
  have len0: "length (live_entries h) = card (live_set h)"
    using map_inv_len [OF inv(1)] unfolding live_entries_def by (rule live_count)
  show "map_inv K h'"
  proof (rule map_invI [OF _ _ _ t])
    show "ordinals_ok (used_entries h') (mh_next_ordinal h')"
      unfolding used using inv(1) by (intro ordinals_map) (auto simp: map_inv_iff h'_def)
    show "mh_live h' = length (live_entries h')"
      using inv(1) len0 e(1) unfolding len ls by (simp add: map_inv_iff h'_def)
    show "keys_ok K (used_entries h')" unfolding used
      by (rule keys_ok_map) (use inv(1) in \<open>auto simp: map_inv_iff hit_def is_live_entry_def split: if_splits\<close>)
  qed
  show "map_abs h' = dict_delete (kk_eq K) (map_abs h) key"
    unfolding dict_delete_def map_abs_live live by (simp add: filter_map comp_def entry_pair_def)
qed

end

end
