(* ===== verification/Map_Growth.thy ===== *)
theory Map_Growth
  imports Map_Ops
begin

text \<open>
  Making room for an insertion. Compaction moves the live entries to the front and rebuilds the
  index in place, growth copies the used entries to a larger array with a larger index. Both keep
  the invariant and the live entries, and after \<open>ensure_capacity_for_insert\<close> has returned
  \<open>true\<close> there is a free entry slot and a free bucket.
\<close>

lemma next_power_of_two_from_result:
  "pow2 p \<Longrightarrow> pow2 (next_power_of_two_from p n) \<and> n \<le> next_power_of_two_from p n"
proof (induction p n rule: next_power_of_two_from.induct)
  case (1 p n)
  have d: "pow2 (2 * p)" using "1.prems" by (auto simp: pow2_def intro: exI [of _ "Suc k" for k])
  show ?case
  proof (cases "p = 0 \<or> n \<le> p")
    case True
    then show ?thesis using "1.prems" pow2_pos [OF "1.prems"] by (simp add: next_power_of_two_from.simps [of p n])
  next
    case False
    then show ?thesis using "1.IH" [OF False d] by (simp add: next_power_of_two_from.simps [of p n])
  qed
qed

lemma next_power_of_two_result: "pow2 (next_power_of_two n)" "n \<le> next_power_of_two n"
proof -
  have "pow2 1" unfolding pow2_def by (rule exI [of _ 0]) simp
  then show "pow2 (next_power_of_two n)" "n \<le> next_power_of_two n"
    using next_power_of_two_from_result unfolding next_power_of_two_def by blast+
qed

lemma pow2_buckets: "pow2 (max (next_power_of_two n) INITIAL_BUCKETS)"
proof -
  have "pow2 INITIAL_BUCKETS" unfolding pow2_def INITIAL_BUCKETS_def by (rule exI [of _ 4]) simp
  then show ?thesis using next_power_of_two_result(1) [of n] by (simp add: max_def)
qed

lemma used_replicate [simp]: "used_buckets (replicate n BUCKET_EMPTY) = {}"
  by (simp add: used_buckets_def)

context key_laws
begin

text \<open>What one step of making room keeps.\<close>

definition same_content :: "map_header \<Rightarrow> map_header \<Rightarrow> bool" where
  "same_content h h' \<longleftrightarrow> live_entries h' = live_entries h \<and> mh_next_ordinal h' = mh_next_ordinal h \<and> mh_live h' = mh_live h"

lemma same_content_refl [simp]: "same_content h h"
  by (simp add: same_content_def)

lemma same_content_trans: "same_content h h1 \<Longrightarrow> same_content h1 h2 \<Longrightarrow> same_content h h2"
  by (simp add: same_content_def)

lemma same_content_abs: "same_content h h' \<Longrightarrow> map_abs h' = map_abs h"
  by (simp add: same_content_def map_abs_live)

lemma grow_result:
  assumes inv: "map_inv K h"
    and al: "al (max (length (mh_entries h)) 4 * 2 * 40)"
      "al (max (next_power_of_two (max (length (mh_entries h)) 4 * 2 * 2)) INITIAL_BUCKETS * 8)"
  obtains h' where "grow al h = Some (True, h')" "map_inv K h'" "same_content h h'" "\<not> needs_growth h'"
proof -
  let ?n = "mh_entries_len h" and ?cap = "max (length (mh_entries h)) 4 * 2"
  let ?nb = "max (next_power_of_two (?cap * 2)) INITIAL_BUCKETS"
  let ?S = "\<lambda>n. {e. e < n \<and> is_live_entry (mh_entries h ! e)}"
  have n: "?n \<le> length (mh_entries h)" by (rule map_inv_len [OF inv])
  have nb: "?cap * 2 \<le> ?nb" "pow2 ?nb" "16 \<le> ?nb"
    using next_power_of_two_result(2) [of "?cap * 2"] pow2_buckets [of "?cap * 2"] by (auto simp: INITIAL_BUCKETS_def)
  have nc: "?n \<le> ?cap" "?n < ?nb" using n nb(1) by linarith+
  have e0: "?S 0 = {}" by simp
  obtain ne bs where g: "grow_loop (mh_entries h) [0..<?n] (replicate ?cap empty_entry) (replicate ?nb BUCKET_EMPTY) = Some (ne, bs)"
      "length ne = ?cap" "length bs = ?nb" "bucket_inv bs (\<lambda>e. en_hash (mh_entries h ! e)) (?S ?n)"
      "card (used_buckets bs) \<le> ?n" "\<forall>k<?n. ne ! k = mh_entries h ! k"
    using grow_loop_result [of 0 ?n "replicate ?cap empty_entry" "replicate ?nb BUCKET_EMPTY" "mh_entries h"]
      bucket_inv_empty [of ?nb "\<lambda>e. en_hash (mh_entries h ! e)"] nc nb(2) unfolding e0 by auto
  let ?h = "h\<lparr>mh_entries := ne, mh_buckets := bs\<rparr>"
  have used: "used_entries ?h = used_entries h"
    using g(2,6) n by (intro nth_equalityI) (auto simp: used_entries_def)
  then have live: "live_entries ?h = live_entries h" by (simp add: live_entries_def)
  have ls: "live_set ?h = ?S ?n" using g(6) by (auto simp: live_set_def is_live_entry_def)
  have "bucket_inv bs (\<lambda>e. en_hash (ne ! e)) (?S ?n)" by (rule bucket_inv_cong [OF g(4)]) (use g(6) in simp)
  then have t: "table_inv ?h" unfolding table_inv_def ls using g(2,3,5) nc nb(2,3) by simp
  have "map_inv K ?h" using inv by (intro map_invI [OF _ _ _ t]) (auto simp: map_inv_iff used live)
  moreover have "grow al h = Some (True, ?h)" using g(1) al by (simp add: grow_def Let_def)
  moreover have "same_content h ?h" by (simp add: same_content_def live)
  moreover have "?n * 10 < length bs * 7" using g(3) n nb(1) by auto
  then have "\<not> needs_growth ?h" using g(2,3) n nb(3) by (auto simp: needs_growth_def)
  ultimately show thesis using that by blast
qed

lemma grow_fails: "\<not> (al (max (length (mh_entries h)) 4 * 2 * 40) \<and>
    al (max (next_power_of_two (max (length (mh_entries h)) 4 * 2 * 2)) INITIAL_BUCKETS * 8)) \<Longrightarrow> grow al h = Some (False, h)"
  by (auto simp: grow_def Let_def)

lemma grow_cases:
  assumes inv: "map_inv K h"
  shows "(\<exists>h'. grow al h = Some (True, h') \<and> map_inv K h' \<and> same_content h h' \<and> \<not> needs_growth h') \<or>
    (grow al h = Some (False, h) \<and> \<not> (\<forall>n. al n))"
proof (cases "al (max (length (mh_entries h)) 4 * 2 * 40) \<and>
    al (max (next_power_of_two (max (length (mh_entries h)) 4 * 2 * 2)) INITIAL_BUCKETS * 8)")
  case True
  then show ?thesis using grow_result [OF inv, of al] by blast
next
  case False
  then show ?thesis using grow_fails [OF False] by blast
qed

lemma compact_result:
  assumes inv: "map_inv K h" and ne: "mh_buckets h \<noteq> []"
  obtains h' where "compact_entries h = Some h'" "map_inv K h'" "same_content h h'"
    "mh_entries_len h' = mh_live h" "mh_buckets h' \<noteq> []"
proof -
  let ?n = "mh_entries_len h" and ?b = "length (mh_buckets h)"
  have T: "table_inv h" using inv ne by (simp add: map_inv_iff)
  then have n: "?n \<le> length (mh_entries h)" "pow2 ?b" "?n < ?b" "16 \<le> ?b" by (simp_all add: table_inv_def)
  obtain es bs d where c: "compact_loop [0..<?n] (mh_entries h) (replicate ?b BUCKET_EMPTY) 0 = Some (es, bs, d)"
      "length es = length (mh_entries h)" "d \<le> ?n" "length bs = ?b" "take d es = filter is_live_entry (take ?n (mh_entries h))"
      "bucket_inv bs (\<lambda>e. en_hash (es ! e)) {..<d}" "card (used_buckets bs) \<le> d"
    using compact_loop_result [of 0 ?n "mh_entries h" "mh_entries h" 0 "replicate ?b BUCKET_EMPTY"]
      bucket_inv_empty [of ?b] n by auto
  let ?es = "fold (\<lambda>i es. es[i := empty_entry]) [d..<?n] es"
  let ?h = "h\<lparr>mh_entries := ?es, mh_buckets := bs, mh_entries_len := d\<rparr>"
  have el: "length ?es = length es" "\<And>k. k < d \<Longrightarrow> ?es ! k = es ! k"
    using fold_clear [of empty_entry "[d..<?n]" es] c(2,3) n(1) by auto
  have used: "used_entries ?h = live_entries h"
  proof -
    have "take d ?es = take d es" using el by (intro nth_equalityI) auto
    then show ?thesis using c(5) by (simp add: used_entries_def live_entries_def)
  qed
  have all: "is_live_entry x" if "x \<in> set (live_entries h)" for x using that by (simp add: live_entries_def)
  have live: "live_entries ?h = live_entries h" unfolding live_entries_def [of ?h] used
    by (rule filter_True) (use all in blast)
  have d: "d = length (live_entries h)"
    using length_used_entries [of ?h] el(1) c(2,3) n(1) unfolding used by simp
  have "is_live_entry (?es ! k)" if "k < d" for k
  proof (rule all)
    have "live_entries h ! k = ?es ! k" unfolding used [symmetric] using that by (simp add: used_entries_def)
    then show "?es ! k \<in> set (live_entries h)" using nth_mem [of k "live_entries h"] that d by simp
  qed
  then have ls: "live_set ?h = {..<d}" by (auto simp: live_set_def is_live_entry_def)
  have "bucket_inv bs (\<lambda>e. en_hash (?es ! e)) {..<d}" by (rule bucket_inv_cong [OF c(6)]) (simp add: el(2))
  then have t: "table_inv ?h" unfolding table_inv_def ls using c n el by simp
  have "map_inv K ?h"
  proof (rule map_invI [OF _ _ _ t])
    show "ordinals_ok (used_entries ?h) (mh_next_ordinal ?h)" "keys_ok K (used_entries ?h)"
      unfolding used live_entries_def using inv by (auto simp: map_inv_iff intro: ordinals_ok_filter keys_ok_filter)
    show "mh_live ?h = length (live_entries ?h)" unfolding live using inv by (simp add: map_inv_iff)
  qed
  moreover have "compact_entries h = Some ?h" using c(1) by (simp add: compact_entries_def)
  moreover have "mh_live h = d" using inv d by (simp add: map_inv_iff)
  moreover have "bs \<noteq> []" using c(4) ne by auto
  ultimately show thesis using that [of ?h] live by (auto simp: same_content_def)
qed

lemma ensure_result:
  assumes inv: "map_inv K h"
  obtains ok h' where "ensure_capacity_for_insert al h = Some (ok, h')" "map_inv K h'" "same_content h h'"
    "ok \<longrightarrow> \<not> needs_growth h'" "(\<forall>n. al n) \<longrightarrow> ok"
proof -
  let ?c = "needs_growth h \<and> length (mh_buckets h) \<noteq> 0 \<and> mh_live h \<le> mh_entries_len h div 2"
  obtain h1 where h1: "(if ?c then compact_entries h else Some h) = Some h1" "map_inv K h1" "same_content h h1"
  proof (cases ?c)
    case True
    then have "mh_buckets h \<noteq> []" by simp
    with inv obtain h' where "compact_entries h = Some h'" "map_inv K h'" "same_content h h'" by (rule compact_result)
    then show thesis using that [of h'] True by simp
  next
    case False
    show thesis by (rule that [of h]) (use inv False in auto)
  qed
  have e: "ensure_capacity_for_insert al h = (if needs_growth h1 then grow al h1 else Some (True, h1))"
    unfolding ensure_capacity_for_insert_def h1(1) by simp
  show thesis
  proof (cases "needs_growth h1")
    case False
    then show thesis using that [of True h1] e h1(2,3) by simp
  next
    case True
    from grow_cases [OF h1(2), of al] show thesis
    proof (elim disjE exE conjE)
      fix h' assume g: "grow al h1 = Some (True, h')" "map_inv K h'" "same_content h1 h'" "\<not> needs_growth h'"
      then show thesis using that [of True h'] e True same_content_trans [OF h1(3) g(3)] by simp
    next
      assume "grow al h1 = Some (False, h1)" "\<not> (\<forall>n. al n)"
      then show thesis using that [of False h1] e True h1(2,3) by simp
    qed
  qed
qed

end

end
