(* ===== verification/Map_Contract.thy ===== *)
theory Map_Contract
  imports Map_Growth
begin

text \<open>
  The whole operations. Insertion, replacement, removal and clearing return, keep the invariant and
  act on the live entries as the dictionary operations do; a failed insertion leaves them as they
  were.
\<close>

context key_laws
begin

lemma used_entries_append:
  assumes "mh_entries_len h < length (mh_entries h)" "mh_entries h' = (mh_entries h)[mh_entries_len h := x]"
    "mh_entries_len h' = Suc (mh_entries_len h)"
  shows "used_entries h' = used_entries h @ [x]"
  using assms by (simp add: used_entries_def take_Suc_conv_app_nth)

lemma ordinals_snoc: "ordinals_ok es n \<Longrightarrow> en_ordinal x = n \<Longrightarrow> ordinals_ok (es @ [x]) (Suc n)"
  by (auto simp: ordinals_ok_def sorted_wrt_append less_Suc_eq)

lemma place_new:
  assumes inv: "map_inv K h" and room: "\<not> needs_growth h"
    and absent: "\<And>x. x \<in> set (live_entries h) \<Longrightarrow> \<not> kk_eq K (en_key x) key"
    and r: "r < length (mh_buckets h)" "mh_buckets h ! r < 0" "probe_path (mh_buckets h) (kk_hash K key) r"
    and x: "is_live_entry x" "en_ordinal x = mh_next_ordinal h" "en_hash x = kk_hash K key" "en_key x = key"
    and h': "mh_entries h' = (mh_entries h)[mh_entries_len h := x]" "mh_buckets h' = (mh_buckets h)[r := int (mh_entries_len h)]"
      "mh_entries_len h' = Suc (mh_entries_len h)" "mh_next_ordinal h' = Suc (mh_next_ordinal h)" "mh_live h' = Suc (mh_live h)"
  shows "map_inv K h'" "live_entries h' = live_entries h @ [x]"
proof -
  let ?n = "mh_entries_len h"
  have n: "?n < length (mh_entries h)" "?n * 10 < length (mh_buckets h) * 7" "mh_buckets h \<noteq> []"
    using room by (auto simp: needs_growth_def)
  have used: "used_entries h' = used_entries h @ [x]" by (rule used_entries_append [OF n(1) h'(1,3)])
  show live: "live_entries h' = live_entries h @ [x]" using x(1) by (simp add: live_entries_def used)
  have T: "table_inv h" using inv n(3) by (simp add: map_inv_iff)
  let ?hf = "\<lambda>e. en_hash (mh_entries h' ! e)"
  have old: "mh_entries h' ! e = mh_entries h ! e" if "e < ?n" for e using that h'(1) by simp
  have new: "mh_entries h' ! ?n = x" using h'(1) n(1) by simp
  have ls: "live_set h' = insert ?n (live_set h)"
    using old new x(1) h'(3) by (auto simp: live_setD less_Suc_eq)
  have "bucket_inv (mh_buckets h) ?hf (live_set h)"
    by (rule bucket_inv_cong) (use T old in \<open>auto simp: table_inv_def live_setD\<close>)
  moreover have "?n \<notin> live_set h" by (simp add: live_setD)
  ultimately have "bucket_inv (mh_buckets h') ?hf (live_set h')"
    unfolding ls h'(2) using r new x(3) by (intro bucket_inv_place) simp_all
  moreover have "card (used_buckets (mh_buckets h')) \<le> Suc ?n"
    unfolding h'(2) used_update [OF r(1) bucket_consts_neg(3)] using T by (simp add: card_insert_if table_inv_def)
  ultimately have t: "table_inv h'" using T n(1,2) h' by (simp add: table_inv_def)
  show "map_inv K h'"
  proof (rule map_invI [OF _ _ _ t])
    show "ordinals_ok (used_entries h') (mh_next_ordinal h')"
      unfolding used h'(4) by (rule ordinals_snoc) (use inv x(2) in \<open>simp_all add: map_inv_iff\<close>)
    show "mh_live h' = length (live_entries h')" using inv by (simp add: map_inv_iff live h'(5))
    show "keys_ok K (used_entries h')" unfolding used
    proof (rule keys_ok_snoc)
      show "keys_ok K (used_entries h)" using inv by (simp add: map_inv_iff)
      show "en_hash x = kk_hash K (en_key x)" using x by simp
      show "apart K y x" if "y \<in> set (used_entries h)" for y
        using absent [of y] that x(4) by (simp add: apart_def live_entries_def)
    qed
  qed
qed

lemma insert_new_result:
  assumes inv: "map_inv K h" and absent: "\<And>x. x \<in> set (live_entries h) \<Longrightarrow> \<not> kk_eq K (en_key x) key"
  obtains ok h' where "map_insert_new K al h key v = Some (ok, h')" "map_inv K h'"
    "if ok then \<exists>x. live_entries h' = live_entries h @ [x] \<and> en_ordinal x = mh_next_ordinal h \<and> entry_pair x = (key, v)
                  \<and> mh_next_ordinal h' = Suc (mh_next_ordinal h)
     else live_entries h' = live_entries h \<and> mh_next_ordinal h' = mh_next_ordinal h"
    "(\<forall>n. al n) \<longrightarrow> mh_next_ordinal h < MAX_INSERTION_ORDINAL \<longrightarrow> ok"
proof (cases "MAX_INSERTION_ORDINAL \<le> mh_next_ordinal h")
  case True
  show thesis by (rule that [of False h]) (use True inv in \<open>simp_all add: map_insert_new_def\<close>)
next
  case False
  obtain ok h1 where h1: "ensure_capacity_for_insert al h = Some (ok, h1)" "map_inv K h1" "same_content h h1"
      "ok \<longrightarrow> \<not> needs_growth h1" "(\<forall>n. al n) \<longrightarrow> ok"
    by (rule ensure_result [OF inv])
  have same: "live_entries h1 = live_entries h" "mh_next_ordinal h1 = mh_next_ordinal h"
    using h1(3) by (simp_all add: same_content_def)
  show thesis
  proof (cases ok)
    case False': False
    show thesis by (rule that [of False h1]) (use False False' h1 same in \<open>simp_all add: map_insert_new_def\<close>)
  next
    case True
    then have room: "\<not> needs_growth h1" and ne: "mh_buckets h1 \<noteq> []" using h1(4) by (auto simp: needs_growth_def)
    have abs1: "\<not> kk_eq K (en_key x) key" if "x \<in> set (live_entries h1)" for x using absent that same(1) by simp
    from abs1 obtain r where r: "r < length (mh_buckets h1)" "find_bucket K h1 key (kk_hash K key) = Some (r, None)"
        "mh_buckets h1 ! r < 0" "probe_path (mh_buckets h1) (kk_hash K key) r"
    proof (cases rule: lookup_cases [OF h1(2) ne, of key, case_names present absent])
      case (present e i)
      then show ?thesis using abs1 [of "mh_entries h1 ! e"] live_entries_index [OF h1(2)] by blast
    qed
    let ?x = "\<lparr>en_state = ENTRY_LIVE, en_ordinal = mh_next_ordinal h1, en_hash = kk_hash K key, en_key = key, en_value = v\<rparr>"
    let ?h = "h1\<lparr>mh_entries := (mh_entries h1)[mh_entries_len h1 := ?x],
        mh_buckets := (mh_buckets h1)[r := int (mh_entries_len h1)], mh_entries_len := mh_entries_len h1 + 1,
        mh_next_ordinal := mh_next_ordinal h1 + 1, mh_live := mh_live h1 + 1\<rparr>"
    have res: "map_insert_new K al h key v = Some (True, ?h)"
      using False True h1(1) r(2) by (simp add: map_insert_new_def)
    have P: "map_inv K ?h" "live_entries ?h = live_entries h1 @ [?x]"
      by (rule place_new [OF h1(2) room abs1 r(1,3,4), of ?x]; simp add: is_live_entry_def)+
    show thesis by (rule that [OF res P(1)]) (use P(2) same in \<open>simp_all add: entry_pair_def\<close>)
  qed
qed

lemma map_set_result:
  assumes inv: "map_inv K h"
  obtains ok h' where "map_set K al h key v = Some (ok, h')" "map_inv K h'"
    "map_abs h' = (if ok then dict_set (kk_eq K) (map_abs h) key v else map_abs h)"
    "\<exists>n. map en_ordinal (live_entries h') = map en_ordinal (live_entries h) @ n \<and> (\<forall>x \<in> set n. mh_next_ordinal h \<le> x)"
    "mh_next_ordinal h \<le> mh_next_ordinal h'"
    "(\<forall>n. al n) \<longrightarrow> mh_next_ordinal h < MAX_INSERTION_ORDINAL \<longrightarrow> ok"
proof -
  note result = that
  have new: thesis if absent: "\<And>x. x \<in> set (live_entries h) \<Longrightarrow> \<not> kk_eq K (en_key x) key"
    and eq: "map_set K al h key v = map_insert_new K al h key v"
  proof (rule insert_new_result [OF inv absent, of al v])
    fix ok h'
    assume r: "map_insert_new K al h key v = Some (ok, h')" "map_inv K h'"
      "if ok then \<exists>x. live_entries h' = live_entries h @ [x] \<and> en_ordinal x = mh_next_ordinal h \<and> entry_pair x = (key, v)
                    \<and> mh_next_ordinal h' = Suc (mh_next_ordinal h)
       else live_entries h' = live_entries h \<and> mh_next_ordinal h' = mh_next_ordinal h"
      "(\<forall>n. al n) \<longrightarrow> mh_next_ordinal h < MAX_INSERTION_ORDINAL \<longrightarrow> ok"
    have na: "\<not> (\<exists>x \<in> set (live_entries h). kk_eq K (en_key x) key)" using absent by blast
    show thesis
    proof (cases ok)
      case True
      then obtain x where x: "live_entries h' = live_entries h @ [x]" "en_ordinal x = mh_next_ordinal h" "entry_pair x = (key, v)"
          "mh_next_ordinal h' = Suc (mh_next_ordinal h)" using r(3) by auto
      have "map_abs h' = dict_set (kk_eq K) (map_abs h) key v"
        unfolding dict_set_def dict_has_pair using na x by (simp add: map_abs_live)
      then show thesis using result [of ok h'] r(1,2,4) eq x True by simp
    next
      case False
      then show thesis using result [of ok h'] r eq by (simp add: map_abs_live)
    qed
  qed
  show thesis
  proof (cases "mh_buckets h = []")
    case True
    then have "live_entries h = []" using inv by (simp add: live_entries_def used_entries_def map_inv_def)
    then show thesis using new True by (simp add: map_set_def)
  next
    case False
    then show thesis
    proof (cases rule: lookup_cases [OF inv False, of key, case_names present absent])
      case (present e i)
      let ?h = "h\<lparr>mh_entries := (mh_entries h)[e := (mh_entries h ! e)\<lparr>en_value := v\<rparr>]\<rparr>"
      have "map_set K al h key v = Some (True, ?h)" using False present(4) by (simp add: map_set_def)
      then show thesis using result [of True ?h] set_present [OF inv False present(1,2), of ?h v] by simp
    next
      case (absent r)
      then show thesis using new False by (simp add: map_set_def)
    qed
  qed
qed

lemma map_delete_result:
  assumes inv: "map_inv K h"
  obtains h' where "map_delete K h key = Some (dict_get (kk_eq K) (map_abs h) key \<noteq> None, h')" "map_inv K h'"
    "map_abs h' = dict_delete (kk_eq K) (map_abs h) key"
    "live_entries h' = filter (\<lambda>x. \<not> kk_eq K (en_key x) key) (live_entries h)" "mh_next_ordinal h' = mh_next_ordinal h"
proof (cases "mh_buckets h = []")
  case True
  then have "live_entries h = []" using inv by (simp add: live_entries_def used_entries_def map_inv_def)
  then show thesis using that [of h] inv True by (simp add: map_delete_def map_abs_live dict_get_def dict_delete_def)
next
  case False
  note get = map_get_refines [OF inv, of key]
  show thesis
  proof (cases rule: lookup_cases [OF inv False, of key, case_names present absent])
    case (present e i)
    let ?h = "h\<lparr>mh_entries := (mh_entries h)[e :=
          (mh_entries h ! e)\<lparr>en_state := ENTRY_TOMBSTONE, en_key := 0, en_value := 0\<rparr>],
        mh_buckets := (mh_buckets h)[i := BUCKET_TOMBSTONE], mh_live := mh_live h - 1\<rparr>"
    note d = delete_present [OF inv False present(1,2,3,5) refl]
    have "dict_get (kk_eq K) (map_abs h) key \<noteq> None" using get present(4) False by (simp add: map_get_def) (metis option.distinct(1))
    moreover have "map_delete K h key = Some (True, ?h)" using present(4) False by (simp add: map_delete_def)
    ultimately show thesis by (intro that [of ?h] d) simp_all
  next
    case (absent r)
    have "dict_get (kk_eq K) (map_abs h) key = None" using get absent(3) False by (auto simp: map_get_def)
    moreover have "map_delete K h key = Some (False, h)" using absent(3) False by (simp add: map_delete_def)
    moreover have f: "filter (\<lambda>x. \<not> kk_eq K (en_key x) key) (live_entries h) = live_entries h"
      by (rule filter_True) (use absent(1) in blast)
    moreover have "map_abs h = dict_delete (kk_eq K) (map_abs h) key"
      unfolding dict_delete_def map_abs_live by (simp add: filter_map comp_def entry_pair_def f)
    ultimately show thesis using that [of h] inv by simp
  qed
qed

end

end
