(* ===== verification/Map_Iteration.thy ===== *)
theory Map_Iteration
  imports Map_Contract
begin

text \<open>
  Creation, clearing, snapshots and iteration. An iterator holds only an ordinal: what is left for
  it are the live entries with that ordinal or a later one.
\<close>

lemma fold_update_map:
  "n \<le> length xs \<Longrightarrow> fold (\<lambda>i xs. xs[i := g (xs ! i)]) [0..<n] xs = map g (take n xs) @ drop n xs"
proof (induction n)
  case (Suc n)
  then have "fold (\<lambda>i xs. xs[i := g (xs ! i)]) [0..<Suc n] xs = (map g (take n xs) @ xs ! n # drop (Suc n) xs)[n := g (xs ! n)]"
    by (simp add: nth_append Cons_nth_drop_Suc)
  also have "\<dots> = map g (take n xs) @ g (xs ! n) # drop (Suc n) xs"
    using Suc.prems by (simp add: list_update_append)
  finally show ?case using Suc.prems by (simp add: take_Suc_conv_app_nth)
qed simp

lemma drop_partition_sorted:
  "sorted_wrt (<) (map f es) \<Longrightarrow> drop (partition_point (\<lambda>e. f e < (c::nat)) es) es = filter (\<lambda>e. c \<le> f e) es"
proof (induction es)
  case (Cons e es)
  show ?case
  proof (cases "f e < c")
    case True
    then show ?thesis using Cons by (simp add: partition_point_def)
  next
    case False
    then have "\<forall>x \<in> set es. c \<le> f x" using Cons.prems by force
    then show ?thesis using False by (simp add: partition_point_def)
  qed
qed simp

lemma snapshot_loop_result:
  "length out = Suc (w + length (filter is_live_entry es)) \<Longrightarrow>
   snapshot_loop extract es w out = take (Suc w) out @ map extract (filter is_live_entry es)"
proof (induction es arbitrary: w out)
  case (Cons e es)
  show ?case
  proof (cases "is_live_entry e")
    case True
    have "snapshot_loop extract es (Suc w) (out[Suc w := extract e]) =
        take (Suc (Suc w)) (out[Suc w := extract e]) @ map extract (filter is_live_entry es)"
      by (rule Cons.IH) (use Cons.prems True in simp)
    moreover have "take (Suc (Suc w)) (out[Suc w := extract e]) = take (Suc w) out @ [extract e]"
      using Cons.prems True by (simp add: take_Suc_conv_app_nth)
    ultimately show ?thesis using True by (simp add: is_live_entry_def [of e])
  next
    case False
    then show ?thesis using Cons by (simp add: is_live_entry_def [of e])
  qed
qed simp

lemma iterator_scan_live:
  "iterator_scan pair al mode es =
     (case filter is_live_entry es of
        [] \<Rightarrow> if al 8 then Iter_done else Iter_null
      | e # _ \<Rightarrow> (case iterator_word pair mode e of
            None \<Rightarrow> if al 8 then Iter_done else Iter_null
          | Some v \<Rightarrow> if al 24 then Iter_item (en_ordinal e + 1) v else Iter_null))"
  by (induction es) (auto simp: is_live_entry_def split: option.split)

definition remaining :: "map_header \<Rightarrow> nat \<Rightarrow> map_entry list" where
  "remaining h cursor = filter (\<lambda>e. cursor \<le> en_ordinal e) (live_entries h)"

text \<open>Calling the iterator until it is done, with a bound on the number of calls.\<close>

fun drain :: "nat \<Rightarrow> (nat \<Rightarrow> bool) \<Rightarrow> map_header \<Rightarrow> nat \<Rightarrow> nat \<Rightarrow> u64 list option" where
  "drain 0 al h cursor mode = None"
| "drain (Suc fuel) al h cursor mode =
     (case thaw_map_iterator_next (\<lambda>_ _. 0) al (Some h) cursor mode of
        Iter_null \<Rightarrow> None
      | Iter_done \<Rightarrow> Some []
      | Iter_item next w \<Rightarrow> map_option ((#) w) (drain fuel al h next mode))"

lemma sorted_remaining:
  assumes "sorted_wrt (<) (map en_ordinal es)" "filter (\<lambda>e. c \<le> en_ordinal e) es = e # rest"
  shows "filter (\<lambda>x. Suc (en_ordinal e) \<le> en_ordinal x) es = rest"
  using assms
proof (induction es)
  case (Cons x es)
  show ?case
  proof (cases "c \<le> en_ordinal x")
    case True
    then have "x = e" "filter (\<lambda>e. c \<le> en_ordinal e) es = rest" using Cons.prems(2) by simp_all
    moreover have "filter (\<lambda>e. c \<le> en_ordinal e) es = es" "filter (\<lambda>y. Suc (en_ordinal x) \<le> en_ordinal y) es = es"
      using Cons.prems(1) True by (auto intro!: filter_True)
    ultimately show ?thesis by simp
  next
    case False
    then have "filter (\<lambda>e. c \<le> en_ordinal e) es = e # rest" using Cons.prems(2) by simp
    moreover have "e \<in> set es" using calculation by (metis filter_is_subset list.set_intros(1) subsetD)
    moreover have "\<not> Suc (en_ordinal e) \<le> en_ordinal x" using Cons.prems(1) calculation(2) by fastforce
    ultimately show ?thesis using Cons.IH Cons.prems(1) by simp
  qed
qed simp

context key_laws
begin

lemma new_inv: "thaw_map_new al = Some h \<Longrightarrow> map_inv K h \<and> map_abs h = []"
  by (auto simp: thaw_map_new_def map_inv_def map_abs_def used_entries_def ordinals_ok_def split: if_splits)

lemma clear_result:
  assumes inv: "map_inv K h"
  shows "map_inv K (thaw_map_clear h)" "map_abs (thaw_map_clear h) = []"
proof -
  let ?g = "\<lambda>e. e\<lparr>en_state := ENTRY_TOMBSTONE, en_key := 0, en_value := 0\<rparr>" and ?h = "thaw_map_clear h"
  have n: "mh_entries_len h \<le> length (mh_entries h)" by (rule map_inv_len [OF inv])
  have es: "mh_entries ?h = map ?g (used_entries h) @ drop (mh_entries_len h) (mh_entries h)"
    using fold_update_map [OF n, of ?g] by (simp add: thaw_map_clear_def used_entries_def)
  have bs: "mh_buckets ?h = replicate (length (mh_buckets h)) BUCKET_EMPTY"
    using fold_update_map [of "length (mh_buckets h)" "mh_buckets h" "\<lambda>_. BUCKET_EMPTY"]
    by (simp add: thaw_map_clear_def map_replicate_const)
  have len: "mh_entries_len ?h = mh_entries_len h" "mh_live ?h = 0" "mh_next_ordinal ?h = mh_next_ordinal h"
    by (simp_all add: thaw_map_clear_def)
  have used: "used_entries ?h = map ?g (used_entries h)"
    using n by (simp add: used_entries_def [of ?h] es len length_used_entries)
  have live: "live_entries ?h = []"
    unfolding live_entries_def used by (simp add: filter_map comp_def is_live_entry_def)
  then show "map_abs ?h = []" by (simp add: map_abs_live)
  have ls: "live_set ?h = {}"
    using live_count [of ?h] n live unfolding live_entries_def by (simp add: es len length_used_entries)
  have "mh_buckets h \<noteq> [] \<Longrightarrow> table_inv ?h"
    using inv bucket_inv_empty unfolding table_inv_def ls by (simp add: map_inv_iff table_inv_def bs len es length_used_entries)
  moreover have "ordinals_ok (used_entries ?h) (mh_next_ordinal ?h)"
    unfolding used len using inv by (intro ordinals_map) (simp_all add: map_inv_iff)
  moreover have "keys_ok K (used_entries ?h)"
    unfolding used using inv by (intro keys_ok_map) (auto simp: map_inv_iff is_live_entry_def)
  ultimately show "map_inv K ?h" unfolding map_inv_iff live
    using inv by (auto simp: bs len es map_inv_iff used_entries_def)
qed

lemma snapshot_result:
  assumes inv: "map_inv K h"
  shows "map_snapshot al (Some h) extract =
    (if al ((length (map_abs h) + 1) * 8)
     then Some (of_nat (length (map_abs h)) # map extract (live_entries h)) else None)"
proof -
  have "mh_live h = length (live_entries h)" using inv by (simp add: map_inv_iff)
  then show ?thesis
    using snapshot_loop_result [of "of_nat (mh_live h) # replicate (mh_live h) 0" 0 "used_entries h" "extract"]
    by (simp add: map_snapshot_def Let_def thaw_map_size_def map_abs_live live_entries_def flip: used_entries_def)
qed

lemma live_ordinals: "map_inv K h \<Longrightarrow> sorted_wrt (<) (map en_ordinal (live_entries h))"
  using ordinals_ok_filter [of "used_entries h"] by (auto simp: map_inv_iff live_entries_def ordinals_ok_def)

lemma live_ordinal_less: "map_inv K h \<Longrightarrow> e \<in> set (live_entries h) \<Longrightarrow> en_ordinal e < mh_next_ordinal h"
  by (auto simp: map_inv_iff live_entries_def ordinals_ok_def)

lemma iterator_next_result:
  assumes inv: "map_inv K h" and al: "al 8" "al 24"
  shows "thaw_map_iterator_next pair al (Some h) c mode =
    (case remaining h c of
       [] \<Rightarrow> Iter_done
     | e # _ \<Rightarrow> (case iterator_word pair mode e of None \<Rightarrow> Iter_done | Some v \<Rightarrow> Iter_item (en_ordinal e + 1) v))"
proof (cases "mh_entries_len h = 0")
  case True
  then show ?thesis using al by (simp add: thaw_map_iterator_next_def remaining_def live_entries_def used_entries_def)
next
  case False
  have "sorted_wrt (<) (map en_ordinal (used_entries h))" using inv by (simp add: map_inv_iff ordinals_ok_def)
  note d = drop_partition_sorted [OF this, of c]
  have "filter is_live_entry (filter (\<lambda>e. c \<le> en_ordinal e) (used_entries h)) = remaining h c"
    by (simp add: remaining_def live_entries_def conj_commute)
  then show ?thesis using False al
    by (simp add: thaw_map_iterator_next_def iterator_scan_live Let_def d [unfolded used_entries_def] used_entries_def split: list.split option.split)
qed

lemma remaining_next: "map_inv K h \<Longrightarrow> remaining h c = e # rest \<Longrightarrow> remaining h (en_ordinal e + 1) = rest"
  using sorted_remaining [OF live_ordinals] by (simp add: remaining_def)

lemma drain_result:
  assumes inv: "map_inv K h" and al: "al 8" "al 24" and mode: "\<And>e. iterator_word (\<lambda>_ _. 0) mode e = Some (f e)"
  shows "length (remaining h c) < fuel \<Longrightarrow> drain fuel al h c mode = Some (map f (remaining h c))"
proof (induction fuel arbitrary: c)
  case (Suc fuel)
  show ?case
  proof (cases "remaining h c")
    case Nil
    then show ?thesis using iterator_next_result [OF inv al] by simp
  next
    case (Cons e rest)
    then show ?thesis
      using iterator_next_result [OF inv al, of "\<lambda>_ _. 0" c mode] Suc.IH [of "en_ordinal e + 1"] Suc.prems mode
        remaining_next [OF inv Cons] by simp
  qed
qed simp

end

end
