(* ===== verification/Map_Properties.thy ===== *)
theory Map_Properties
  imports Map_Iteration
begin

text \<open>
  Numbers and strings as keys satisfy the laws of a key kind, so the table refines an
  insertion-ordered dictionary for both. The interface \<open>ordered_dict\<close> states what a client of a map
  relies on; its lemmas give the laws of \<open>get\<close> after \<open>set\<close> and after \<open>delete\<close>.
\<close>

subsection \<open>The dictionary interface\<close>

lemma dict_get_Cons [simp]: "dict_get eq [] k = None" "dict_get eq ((a, w) # d) k = (if eq a k then Some w else dict_get eq d k)"
  by (simp_all add: dict_get_def)

lemma dict_get_set:
  assumes "\<And>a. eq a a" "\<And>a b. eq a b \<Longrightarrow> eq b a" "\<And>a b c. eq a b \<Longrightarrow> eq b c \<Longrightarrow> eq a c"
  shows "dict_get eq (dict_set eq d k v) k' = (if eq k k' then Some v else dict_get eq d k')"
proof (cases "\<exists>(a, _) \<in> set d. eq a k")
  case True
  have c: "eq a k' \<longleftrightarrow> eq a k" if "eq k k'" for a using that assms by metis
  have n: "\<not> (eq a k \<and> eq a k')" if "\<not> eq k k'" for a using that assms by metis
  have other: "dict_get eq (map (\<lambda>(a, w). (a, if eq a k then v else w)) d) k' = dict_get eq d k'" if "\<not> eq k k'"
    using n [OF that] by (induction d) (auto simp: dict_get_Cons)
  have same: "dict_get eq (map (\<lambda>(a, w). (a, if eq a k then v else w)) d) k' = Some v" if "eq k k'"
    using True c [OF that] by (induction d) fastforce+
  show ?thesis using True other same by (simp add: dict_set_def)
next
  case False
  have "find (\<lambda>(a, _). eq a k') d = None" if k: "eq k k'"
    unfolding find_None_iff
  proof
    assume "\<exists>x. x \<in> set d \<and> (case x of (a, _) \<Rightarrow> eq a k')"
    then obtain a w where "(a, w) \<in> set d" "eq a k'" by auto
    moreover have "eq a k" using assms(3) [OF \<open>eq a k'\<close> assms(2) [OF k]] .
    ultimately show False using False by auto
  qed
  moreover have "find P (d @ [x]) = (case find P d of None \<Rightarrow> if P x then Some x else None | Some y \<Rightarrow> Some y)" for P x
    by (induction d) auto
  ultimately show ?thesis using False by (auto simp: dict_set_def dict_get_def split: option.split)
qed

lemma dict_get_delete:
  assumes "\<And>a b. eq a b \<Longrightarrow> eq b a" "\<And>a b c. eq a b \<Longrightarrow> eq b c \<Longrightarrow> eq a c"
  shows "dict_get eq (dict_delete eq d k) k' = (if eq k k' then None else dict_get eq d k')"
proof -
  have c: "eq a k' \<longleftrightarrow> eq a k" if "eq k k'" for a using that assms by metis
  have n: "\<not> (eq a k \<and> eq a k')" if "\<not> eq k k'" for a using that assms by metis
  show ?thesis
  proof (cases "eq k k'")
    case True
    then show ?thesis using c [OF True] by (induction d) (auto simp: dict_delete_def)
  next
    case False
    then show ?thesis using n [OF False] by (induction d) (auto simp: dict_delete_def)
  qed
qed

locale ordered_dict =
  fixes eq :: "'k \<Rightarrow> 'k \<Rightarrow> bool"
    and invar :: "'m \<Rightarrow> bool"
    and abs :: "'m \<Rightarrow> ('k \<times> 'v) list"
    and get :: "'m \<Rightarrow> 'k \<Rightarrow> 'v option option"
    and set :: "'m \<Rightarrow> 'k \<Rightarrow> 'v \<Rightarrow> (bool \<times> 'm) option"
    and delete :: "'m \<Rightarrow> 'k \<Rightarrow> (bool \<times> 'm) option"
  assumes eq_refl: "eq a a" and eq_sym: "eq a b \<Longrightarrow> eq b a" and eq_trans: "eq a b \<Longrightarrow> eq b c \<Longrightarrow> eq a c"
    and get_abs: "invar h \<Longrightarrow> get h k = Some (dict_get eq (abs h) k)"
    and set_abs: "invar h \<Longrightarrow> \<exists>ok h'. set h k v = Some (ok, h') \<and> invar h' \<and>
          abs h' = (if ok then dict_set eq (abs h) k v else abs h)"
    and delete_abs: "invar h \<Longrightarrow> \<exists>h'. delete h k = Some (dict_get eq (abs h) k \<noteq> None, h') \<and> invar h' \<and>
          abs h' = dict_delete eq (abs h) k"
begin

lemma get_set_law: "dict_get eq (dict_set eq d k v) k' = (if eq k k' then Some v else dict_get eq d k')"
  by (rule dict_get_set) (erule eq_sym | rule eq_refl | erule (1) eq_trans)+

lemma get_delete_law: "dict_get eq (dict_delete eq d k) k' = (if eq k k' then None else dict_get eq d k')"
  by (rule dict_get_delete) (erule eq_sym | erule (1) eq_trans)+

lemma get_set:
  "invar h \<Longrightarrow> set h k v = Some (True, h') \<Longrightarrow> get h' k' = (if eq k k' then Some (Some v) else get h k')"
  using set_abs [of h k v] get_abs by (auto simp: get_set_law)

lemma get_set_failed: "invar h \<Longrightarrow> set h k v = Some (False, h') \<Longrightarrow> get h' k' = get h k'"
  using set_abs [of h k v] get_abs by auto

lemma get_delete:
  "invar h \<Longrightarrow> delete h k = Some (b, h') \<Longrightarrow> get h' k' = (if eq k k' then Some None else get h k')"
  using delete_abs [of h k] get_abs by (auto simp: get_delete_law)

lemma delete_reports: "invar h \<Longrightarrow> delete h k = Some (b, h') \<Longrightarrow> b \<longleftrightarrow> (\<exists>v. get h k = Some (Some v))"
  using delete_abs [of h k] get_abs by auto

end

context key_laws
begin

lemma set_ex: "map_inv K h \<Longrightarrow> \<exists>ok h'. map_set K al h k v = Some (ok, h') \<and> map_inv K h' \<and>
    map_abs h' = (if ok then dict_set (kk_eq K) (map_abs h) k v else map_abs h)"
  using map_set_result [of h al k v] by metis

lemma delete_ex: "map_inv K h \<Longrightarrow> \<exists>h'. map_delete K h k = Some (dict_get (kk_eq K) (map_abs h) k \<noteq> None, h') \<and>
    map_inv K h' \<and> map_abs h' = dict_delete (kk_eq K) (map_abs h) k"
  using map_delete_result [of h k] by metis

end

sublocale key_laws \<subseteq> table: ordered_dict "kk_eq K" "map_inv K" map_abs "\<lambda>h. map_get K (Some h)" "map_set K al" "map_delete K"
  for al
  by unfold_locales (rule eq_refl, erule eq_sym, erule (1) eq_trans, erule map_get_refines, erule set_ex, erule delete_ex)

subsection \<open>Key kinds\<close>

interpretation num: key_laws NumKey
  by unfold_locales (simp_all add: NumKey_def)

interpretation str: key_laws "StrKey s" for s :: "'b native_state"
  by unfold_locales (simp_all add: StrKey_def)

text \<open>\<open>SameValueZero\<close> on \<open>f64\<close> bit patterns.\<close>

definition f64_eq :: "u64 \<Rightarrow> u64 \<Rightarrow> bool" where
  "f64_eq a b \<longleftrightarrow> \<not> f64_is_nan a \<and> \<not> f64_is_nan b \<and> (a = b \<or> f64_is_zero a \<and> f64_is_zero b)"

definition same_value_zero :: "u64 \<Rightarrow> u64 \<Rightarrow> bool" where
  "same_value_zero a b \<longleftrightarrow> f64_is_nan a \<and> f64_is_nan b \<or> f64_eq a b"

lemma canonical_nan: "f64_is_nan 0x7ff8000000000000" "\<not> f64_is_nan 0" "f64_is_zero 0" "\<not> f64_is_nan 0x8000000000000000"
  by (simp_all add: f64_is_nan_def f64_is_zero_def)

lemma canonical_same_value_zero: "canonical_num_key a = canonical_num_key b \<longleftrightarrow> same_value_zero a b"
  using canonical_nan by (auto simp: canonical_num_key_def same_value_zero_def f64_eq_def)

subsection \<open>Reachable maps\<close>

inductive map_reachable :: "key_kind \<Rightarrow> map_header \<Rightarrow> bool" for K where
  reach_new: "thaw_map_new al = Some h \<Longrightarrow> map_reachable K h"
| reach_set: "map_reachable K h \<Longrightarrow> map_set K al h k v = Some (ok, h') \<Longrightarrow> map_reachable K h'"
| reach_delete: "map_reachable K h \<Longrightarrow> map_delete K h k = Some (ok, h') \<Longrightarrow> map_reachable K h'"
| reach_clear: "map_reachable K h \<Longrightarrow> map_reachable K (thaw_map_clear h)"

context key_laws
begin

lemma reachable_inv: "map_reachable K h \<Longrightarrow> map_inv K h"
proof (induction rule: map_reachable.induct)
  case (reach_new al h)
  then show ?case using new_inv by blast
next
  case (reach_set h al k v ok h')
  then show ?case using set_ex [of h al k v] by auto
next
  case (reach_delete h k ok h')
  then show ?case using delete_ex [of h k] by auto
next
  case (reach_clear h)
  then show ?case by (intro clear_result)
qed

text \<open>Searches end in every reachable map with an index.\<close>

lemma find_returns: "map_inv K h \<Longrightarrow> mh_buckets h \<noteq> [] \<Longrightarrow> \<exists>r. find_bucket K h key (kk_hash K key) = Some r"
  by (rule lookup_cases [of h key]) auto

lemma remaining_zip:
  "map entry_pair (remaining h c) = map snd (filter (\<lambda>p. c \<le> fst p) (zip (map en_ordinal (live_entries h)) (map_abs h)))"
  unfolding remaining_def map_abs_live zip_map_map by (induction "live_entries h") (auto simp: zip_same_conv_map filter_map comp_def)

text \<open>What is left for an iterator after a mutation.\<close>

lemma remaining_delete:
  "map_inv K h \<Longrightarrow> map_delete K h k = Some (b, h') \<Longrightarrow>
   remaining h' c = filter (\<lambda>e. \<not> kk_eq K (en_key e) k) (remaining h c)"
proof -
  assume inv: "map_inv K h" and del: "map_delete K h k = Some (b, h')"
  have "live_entries h' = filter (\<lambda>x. \<not> kk_eq K (en_key x) k) (live_entries h)"
    by (rule map_delete_result [OF inv, of k]) (use del in simp)
  then show ?thesis by (simp add: remaining_def conj_commute)
qed

lemma remaining_set:
  assumes inv: "map_inv K h" and st: "map_set K al h k v = Some (ok, h')" and c: "c \<le> mh_next_ordinal h"
  shows "map entry_pair (remaining h' c) =
    (if \<not> ok then map entry_pair (remaining h c)
     else if dict_get (kk_eq K) (map_abs h) k \<noteq> None
     then map (\<lambda>(k', v'). (k', if kk_eq K k' k then v else v')) (map entry_pair (remaining h c))
     else map entry_pair (remaining h c) @ [(k, v)])"
proof -
  obtain n where r: "map_abs h' = (if ok then dict_set (kk_eq K) (map_abs h) k v else map_abs h)"
      "map en_ordinal (live_entries h') = map en_ordinal (live_entries h) @ n" "\<forall>x \<in> set n. mh_next_ordinal h \<le> x"
    by (rule map_set_result [OF inv, of al k v]) (use st that in auto)
  have len: "length (map_abs h') = length (map_abs h) + length n"
    using r(2) by (metis length_append length_map map_abs_live)
  have le: "length (map_abs h) = length (map en_ordinal (live_entries h))" by (simp add: map_abs_live)
  have has: "(\<exists>(k', _) \<in> set (map_abs h). kk_eq K k' k) \<longleftrightarrow> dict_get (kk_eq K) (map_abs h) k \<noteq> None"
    by (auto simp: dict_get_def find_None_iff)
  consider (failed) "\<not> ok" | (present) ok "dict_get (kk_eq K) (map_abs h) k \<noteq> None"
    | (absent) ok "dict_get (kk_eq K) (map_abs h) k = None" by blast
  then show ?thesis
  proof cases
    case failed
    then have "n = []" "map_abs h' = map_abs h" using r(1) len by auto
    then show ?thesis using failed r(2) by (simp add: remaining_zip)
  next
    case present
    let ?f = "\<lambda>(k', v'). (k', if kk_eq K k' k then v else v')"
    have "map_abs h' = map ?f (map_abs h)" using r(1) present unfolding dict_set_def has by simp
    moreover have "n = []" using len calculation by simp
    ultimately show ?thesis using present r(2)
      by (simp add: remaining_zip zip_map2 filter_map map_map comp_def case_prod_unfold)
  next
    case absent
    have a: "map_abs h' = map_abs h @ [(k, v)]" using r(1) absent unfolding dict_set_def has by simp
    then obtain x where "n = [x]" using len by (cases n) auto
    then show ?thesis using absent r(2,3) a c le by (simp add: remaining_zip)
  qed
qed

end

definition new_map :: map_header where
  "new_map = \<lparr>mh_entries = [], mh_entries_len = 0, mh_next_ordinal = 0, mh_live = 0, mh_buckets = []\<rparr>"

lemma new_map_reachable: "map_reachable K new_map"
  by (rule reach_new [of "\<lambda>_. True"]) (simp add: thaw_map_new_def new_map_def)

lemma new_map_abs [simp]: "map_abs new_map = []" "mh_next_ordinal new_map = 0" "mh_buckets new_map = []" "mh_live new_map = 0"
  by (simp_all add: new_map_def map_abs_def used_entries_def)

subsection \<open>Properties\<close>

text \<open>C4. On every reachable map with numeric keys \<open>thaw_map_num_set\<close> returns, and its effect on the live
  entries in insertion order is that of the dictionary: the entry of an equal key keeps its place and gets
  the value, a new key goes to the end. When it reports failure the content is as before; it does not
  fail while the arena can serve it and ordinals are left.\<close>

theorem num_set_refines:
  assumes "map_reachable NumKey h"
  shows "\<exists>ok h'. thaw_map_num_set al (Some h) key v = Some (ok, Some h') \<and> map_reachable NumKey h' \<and>
    map_abs h' = (if ok then dict_set (=) (map_abs h) (canonical_num_key key) v else map_abs h) \<and>
    ((\<forall>n. al n) \<and> mh_next_ordinal h < MAX_INSERTION_ORDINAL \<longrightarrow> ok)"
proof -
  obtain ok h' where r: "map_set NumKey al h (encode_num_key key) v = Some (ok, h')"
      "map_abs h' = (if ok then dict_set (kk_eq NumKey) (map_abs h) (encode_num_key key) v else map_abs h)"
      "(\<forall>n. al n) \<longrightarrow> mh_next_ordinal h < MAX_INSERTION_ORDINAL \<longrightarrow> ok"
    by (rule num.map_set_result [OF num.reachable_inv [OF assms], of al "encode_num_key key" v])
  have "kk_eq NumKey = (=)" by (simp add: NumKey_def)
  then show ?thesis using r reach_set [OF assms r(1)]
    by (simp add: thaw_map_num_set_def with_map_def encode_num_key_def)
qed

theorem num_set_refines_witness:
  "\<exists>h'. thaw_map_num_set (\<lambda>_. True) (Some new_map) 0x8000000000000000 7 = Some (True, Some h') \<and>
     map_abs h' = [(0, 7)]"
  using num_set_refines [OF new_map_reachable, of "\<lambda>_. True" "0x8000000000000000" 7]
  by (auto simp: MAX_INSERTION_ORDINAL_def dict_set_def canonical_num_key_def f64_is_nan_def f64_is_zero_def)

text \<open>After a successful \<open>thaw_map_str_set\<close> on a reachable map, reading a string with the same bytes
  gives the value word that was set, and reading any other string gives what it gave before, wherever
  the entries and buckets have moved.\<close>

theorem str_get_after_set:
  assumes "map_reachable (StrKey s) h" "thaw_map_str_set s al (Some h) p v = Some (True, m')"
  shows "thaw_map_str_get s m' q =
    (if str_key_bytes s (encode_str_key p) = str_key_bytes s (encode_str_key q) then Some v
     else thaw_map_str_get s (Some h) q)"
proof -
  obtain h' where h': "map_set (StrKey s) al h (encode_str_key p) v = Some (True, h')" "m' = Some h'"
    using assms(2) by (auto simp: thaw_map_str_set_def with_map_def)
  have "kk_eq (StrKey s) a b \<longleftrightarrow> str_key_bytes s a = str_key_bytes s b" for a b by (simp add: StrKey_def)
  then show ?thesis
    using str.table.get_set [OF str.reachable_inv [OF assms(1)] h'(1), of "encode_str_key q"] h'(2)
    by (simp add: thaw_map_str_get_def map_get_word_def)
qed

theorem str_get_after_set_witness:
  "\<forall>s :: unit native_state. \<exists>m. thaw_map_str_set s (\<lambda>_. True) (Some new_map) 16 5 = Some (True, m) \<and>
    thaw_map_str_get s m 16 = Some 5"
proof
  fix s :: "unit native_state"
  obtain h' where r: "map_set (StrKey s) (\<lambda>_. True) new_map (encode_str_key 16) 5 = Some (True, h')"
    by (rule str.map_set_result [OF str.reachable_inv [OF new_map_reachable], of s "\<lambda>_. True" "encode_str_key 16" 5])
       (simp add: MAX_INSERTION_ORDINAL_def)
  then have "thaw_map_str_set s (\<lambda>_. True) (Some new_map) 16 5 = Some (True, Some h')"
    by (simp add: thaw_map_str_set_def with_map_def)
  then show "\<exists>m. thaw_map_str_set s (\<lambda>_. True) (Some new_map) 16 5 = Some (True, m) \<and> thaw_map_str_get s m 16 = Some 5"
    using str_get_after_set [OF new_map_reachable, of s "\<lambda>_. True" 16 5 "Some h'" 16] by simp
qed

text \<open>\<open>thaw_map_num_delete\<close> on a reachable map reports whether a key that is the same value by
  SameValueZero (all NaN equal, both zeros equal) was present; afterwards exactly the keys that are
  the same value are absent, and the other entries keep their order.\<close>

theorem num_delete_same_value_zero:
  assumes "map_reachable NumKey h"
  shows "\<exists>h'. thaw_map_num_delete (Some h) a = Some (thaw_map_num_has (Some h) a = Some True, Some h') \<and>
    map_reachable NumKey h' \<and> map_abs h' = filter (\<lambda>(k, _). k \<noteq> canonical_num_key a) (map_abs h) \<and>
    (\<forall>b. thaw_map_num_has (Some h') b =
       (if same_value_zero a b then Some False else thaw_map_num_has (Some h) b))"
proof -
  note inv = num.reachable_inv [OF assms]
  obtain h' where h': "map_delete NumKey h (canonical_num_key a) = Some (dict_get (kk_eq NumKey) (map_abs h) (canonical_num_key a) \<noteq> None, h')"
      "map_abs h' = dict_delete (kk_eq NumKey) (map_abs h) (canonical_num_key a)"
    using num.map_delete_result [OF inv] .
  have eq: "kk_eq NumKey = (=)" by (simp add: NumKey_def)
  have has: "thaw_map_num_has (Some g) b = Some (dict_get (=) (map_abs g) (canonical_num_key b) \<noteq> None)"
    if "map_inv NumKey g" for g b
    using num.map_get_refines [OF that] eq by (simp add: thaw_map_num_has_def map_has_def encode_num_key_def)
  have r: "map_reachable NumKey h'" by (rule reach_delete [OF assms h'(1)])
  have "dict_get (=) (map_abs h') (canonical_num_key b) =
      (if same_value_zero a b then None else dict_get (=) (map_abs h) (canonical_num_key b))" for b
    unfolding h'(2) eq canonical_same_value_zero [symmetric] by (rule num.table.get_delete_law [unfolded eq])
  then show ?thesis
    using h' r eq has [OF inv] has [OF num.reachable_inv [OF r]]
    by (auto simp: thaw_map_num_delete_def with_map_def encode_num_key_def dict_delete_def)
qed

theorem num_delete_same_value_zero_witness:
  "\<exists>h'. thaw_map_num_delete (Some new_map) 0 = Some (False, Some h') \<and> thaw_map_num_has (Some h') 0x8000000000000000 = Some False"
proof -
  have "same_value_zero 0 0x8000000000000000"
    by (simp add: same_value_zero_def f64_eq_def f64_is_nan_def f64_is_zero_def)
  moreover have "thaw_map_num_has (Some new_map) 0 \<noteq> Some True"
    by (simp add: thaw_map_num_has_def map_has_def map_get_def)
  ultimately show ?thesis using num_delete_same_value_zero [OF new_map_reachable, of 0] by auto
qed

text \<open>C15. In every reachable map with string keys the index is correct and complete: the buckets name
  exactly the live entries, each before any empty bucket of its probe sequence, the keys are pairwise
  different, ordinals increase strictly along the entries, and the size is the number of live
  entries.\<close>

theorem reachable_table_invariant:
  assumes "map_reachable (StrKey s) h"
  shows "map_inv (StrKey s) h \<and> thaw_map_size (Some h) = length (map_abs h) \<and>
    (\<forall>i j. i < j \<and> j < length (map_abs h) \<longrightarrow>
       str_key_bytes s (fst (map_abs h ! i)) \<noteq> str_key_bytes s (fst (map_abs h ! j)))"
proof -
  note inv = str.reachable_inv [OF assms]
  have k: "keys_ok (StrKey s) (live_entries h)"
    using inv unfolding live_entries_def by (intro keys_ok_filter) (simp add: str.map_inv_iff)
  have "str_key_bytes s (fst (map_abs h ! i)) \<noteq> str_key_bytes s (fst (map_abs h ! j))"
    if "i < j" "j < length (map_abs h)" for i j
  proof -
    have "apart (StrKey s) (live_entries h ! i) (live_entries h ! j)"
      using k that by (auto simp: keys_ok_def map_abs_live sorted_wrt_nth_less)
    moreover have "is_live_entry (live_entries h ! k)" if "k < length (live_entries h)" for k
      using nth_mem [OF that] by (simp add: live_entries_def)
    ultimately show ?thesis using that by (simp add: apart_def StrKey_def map_abs_live entry_pair_def)
  qed
  then show ?thesis using inv str.map_size_abs [OF inv] by blast
qed

theorem reachable_table_invariant_witness:
  "\<forall>s :: unit native_state. map_inv (StrKey s) (thaw_map_clear new_map) \<and> thaw_map_size (Some (thaw_map_clear new_map)) = 0"
proof
  fix s :: "unit native_state"
  have "thaw_map_size (Some (thaw_map_clear new_map)) = 0" by (simp add: thaw_map_size_def thaw_map_clear_def)
  then show "map_inv (StrKey s) (thaw_map_clear new_map) \<and> thaw_map_size (Some (thaw_map_clear new_map)) = 0"
    using reachable_table_invariant [OF reach_clear [OF new_map_reachable], of s] by blast
qed

text \<open>C14. The probing loop, which has no bound in the source, ends: on a reachable map that has buckets
  a search for any key returns a bucket of the table, and if it reports an entry then that entry is
  live and has an equal key.\<close>

theorem find_bucket_terminates:
  assumes "map_reachable (StrKey s) h" "mh_buckets h \<noteq> []"
  shows "\<exists>i e. find_bucket (StrKey s) h key (kk_hash (StrKey s) key) = Some (i, e) \<and> i < length (mh_buckets h) \<and>
    (case e of None \<Rightarrow> mh_buckets h ! i < 0
     | Some x \<Rightarrow> x < mh_entries_len h \<and> en_state (mh_entries h ! x) = ENTRY_LIVE \<and>
         str_key_bytes s (en_key (mh_entries h ! x)) = str_key_bytes s key)"
proof (cases rule: str.lookup_cases [OF str.reachable_inv [OF assms(1)] assms(2), of key, case_names present absent])
  case (present e i)
  then show ?thesis by (auto simp: live_set_def StrKey_def)
next
  case (absent r)
  then show ?thesis by auto
qed

theorem find_bucket_terminates_witness:
  "\<forall>s :: unit native_state. \<exists>h i. mh_buckets h \<noteq> [] \<and> find_bucket (StrKey s) h 16 (kk_hash (StrKey s) 16) = Some i"
proof
  fix s :: "unit native_state"
  obtain h where r: "map_set (StrKey s) (\<lambda>_. True) new_map 16 5 = Some (True, h)" "map_abs h \<noteq> []" "map_inv (StrKey s) h"
    by (rule str.map_set_result [OF str.reachable_inv [OF new_map_reachable], of s "\<lambda>_. True" 16 5])
       (auto simp: MAX_INSERTION_ORDINAL_def dict_set_def)
  have ne: "mh_buckets h \<noteq> []" using r(2,3) by (auto simp: map_inv_def map_abs_def used_entries_def)
  show "\<exists>h i. mh_buckets h \<noteq> [] \<and> find_bucket (StrKey s) h 16 (kk_hash (StrKey s) 16) = Some i"
    using find_bucket_terminates [OF reach_set [OF new_map_reachable r(1)] ne, of 16] ne by blast
qed



text \<open>C17. Iteration ends and is complete: calling \<open>thaw_map_iterator_next\<close> from cursor 0 until it is
  done takes at most one call more than there are entries and yields the values in insertion order, the same
  words as the snapshot of the values.\<close>

theorem iteration_complete:
  assumes "map_reachable NumKey h" "\<forall>n. al n"
  shows "drain (thaw_map_size (Some h) + 1) al h 0 1 = Some (map snd (map_abs h)) \<and>
    thaw_map_snapshot_values al (Some h) = Some (of_nat (thaw_map_size (Some h)) # map snd (map_abs h))"
proof -
  note inv = num.reachable_inv [OF assms(1)]
  have rem: "remaining h 0 = live_entries h" by (simp add: remaining_def)
  have v: "map snd (map_abs h) = map en_value (live_entries h)" by (simp add: map_abs_live entry_pair_def)
  have "iterator_word (\<lambda>_ _. 0) 1 e = Some (en_value e)" for e by (simp add: iterator_word_def)
  then have "drain (thaw_map_size (Some h) + 1) al h 0 1 = Some (map en_value (remaining h 0))"
    using assms(2) by (intro num.drain_result [OF inv]) (simp_all add: rem num.map_size_abs [OF inv] map_abs_live)
  then show ?thesis
    using num.snapshot_result [OF inv, of al en_value] assms(2)
    by (simp add: rem v thaw_map_snapshot_values_def num.map_size_abs [OF inv])
qed

theorem iteration_complete_witness:
  "drain 1 (\<lambda>_. True) new_map 0 1 = Some [] \<and> thaw_map_snapshot_values (\<lambda>_. True) (Some new_map) = Some [0]"
  using iteration_complete [OF new_map_reachable, of "\<lambda>_. True"] by (simp add: thaw_map_size_def del: drain.simps)

end
