(* ===== verification/Timers.thy ===== *)
theory Timers
  imports Complex_Main Native_Strings
begin

text \<open>
  The native timer queue, \<open>crates/thaw-runtime/src/runtime/timers.rs\<close>. A time in milliseconds is
  the rational value of an \<open>f64\<close> that is not NaN; the rounding of floating-point arithmetic is the
  argument \<open>rnd\<close>, and a delay that a caller passes may also be non-finite. The clock is the
  argument \<open>clk\<close>: its n-th reading. Callbacks are generated code: the argument \<open>fire\<close> runs the
  callback with a number on a context. The state is a record with an extension, so that the
  operations apply to the state of the whole runtime.
\<close>

subsection \<open>Data\<close>

datatype f64_value = Finite rat | Non_finite

definition TIMER_TIMEOUT :: nat where "TIMER_TIMEOUT = 0"
definition TIMER_INTERVAL :: nat where "TIMER_INTERVAL = 1"
definition TIMER_IMMEDIATE :: nat where "TIMER_IMMEDIATE = 2"
definition TIMER_MAX_MS :: rat where "TIMER_MAX_MS = 2147483647"

record native_timer =
  tm_id :: nat
  tm_kind :: nat
  tm_delay :: rat
  tm_due :: rat
  tm_seq :: nat
  tm_refed :: bool
  tm_callback :: nat
  tm_context :: usize
  tm_root :: usize

datatype timer_phase = Timers_phase | Check_phase nat

record 'b timer_state =
  ts_native :: "'b native_state"
  ts_readings :: nat
  native_timers :: "native_timer list"
  next_timer_id :: nat
  timer_phase_cell :: "timer_phase \<times> rat"

definition timer_state_start :: "'b native_state \<Rightarrow> 'b timer_state" where
  "timer_state_start n = \<lparr>ts_native = n, ts_readings = 0, native_timers = [], next_timer_id = 1,
     timer_phase_cell = (Timers_phase, - 1)\<rparr>"

text \<open>Taking and releasing a pin of the arena from the runtime.\<close>

definition root_new :: "usize \<Rightarrow> ('b, 'z) timer_state_scheme \<Rightarrow> usize \<times> ('b, 'z) timer_state_scheme" where
  "root_new p s =
     (let (r, t) = arena_root_new p (thr (ts_native s)) in (r, s\<lparr>ts_native := (ts_native s)\<lparr>thr := t\<rparr>\<rparr>))"

definition root_drop :: "usize \<Rightarrow> ('b, 'z) timer_state_scheme \<Rightarrow> ('b, 'z) timer_state_scheme" where
  "root_drop r s = s\<lparr>ts_native := (ts_native s)\<lparr>thr := arena_root_drop r (thr (ts_native s))\<rparr>\<rparr>"

subsection \<open>Operations\<close>

definition timer_now_ms :: "(nat \<Rightarrow> rat) \<Rightarrow> ('b, 'z) timer_state_scheme \<Rightarrow> rat \<times> ('b, 'z) timer_state_scheme" where
  "timer_now_ms clk s = (clk (ts_readings s), s\<lparr>ts_readings := ts_readings s + 1\<rparr>)"

definition timer_delay_ms :: "f64_value \<Rightarrow> rat" where
  "timer_delay_ms delay =
     (case delay of Finite d \<Rightarrow> if 1 \<le> d \<and> d \<le> TIMER_MAX_MS then d else 1 | Non_finite \<Rightarrow> 1)"

definition thaw_timer_set ::
    "(rat \<Rightarrow> rat) \<Rightarrow> (nat \<Rightarrow> rat) \<Rightarrow> nat \<Rightarrow> f64_value \<Rightarrow> nat \<Rightarrow> usize \<Rightarrow> ('b, 'z) timer_state_scheme \<Rightarrow>
     nat \<times> ('b, 'z) timer_state_scheme" where
  "thaw_timer_set rnd clk kind delay_ms callback context s =
     (let timer = next_timer_id s;
          s1 = s\<lparr>next_timer_id := timer + 1\<rparr>;
          delay = timer_delay_ms delay_ms;
          (now, s2) = timer_now_ms clk s1;
          (pin, s3) = root_new context s2
      in (timer, s3\<lparr>native_timers := native_timers s3 @
           [\<lparr>tm_id = timer, tm_kind = kind, tm_delay = delay, tm_due = rnd (now + delay), tm_seq = timer,
             tm_refed = True, tm_callback = callback, tm_context = context, tm_root = pin\<rparr>]\<rparr>))"

text \<open>\<open>iter_mut().find(...).map(f)\<close>: the first timer with the id is changed.\<close>

fun update_first :: "('a \<Rightarrow> bool) \<Rightarrow> ('a \<Rightarrow> 'a) \<Rightarrow> 'a list \<Rightarrow> 'a list" where
  "update_first P f [] = []"
| "update_first P f (x # xs) = (if P x then f x # xs else x # update_first P f xs)"

definition with_timer ::
    "nat \<Rightarrow> (native_timer \<Rightarrow> native_timer) \<Rightarrow> ('b, 'z) timer_state_scheme \<Rightarrow> ('b, 'z) timer_state_scheme" where
  "with_timer i f s = s\<lparr>native_timers := update_first (\<lambda>t. tm_id t = i) f (native_timers s)\<rparr>"

definition thaw_timer_clear :: "nat \<Rightarrow> ('b, 'z) timer_state_scheme \<Rightarrow> ('b, 'z) timer_state_scheme" where
  "thaw_timer_clear i s =
     fold (\<lambda>t. root_drop (tm_root t)) (filter (\<lambda>t. tm_id t = i) (native_timers s))
       (s\<lparr>native_timers := filter (\<lambda>t. tm_id t \<noteq> i) (native_timers s)\<rparr>)"

definition thaw_timer_ref :: "nat \<Rightarrow> ('b, 'z) timer_state_scheme \<Rightarrow> ('b, 'z) timer_state_scheme" where
  "thaw_timer_ref i s = with_timer i (\<lambda>t. t\<lparr>tm_refed := True\<rparr>) s"

definition thaw_timer_unref :: "nat \<Rightarrow> ('b, 'z) timer_state_scheme \<Rightarrow> ('b, 'z) timer_state_scheme" where
  "thaw_timer_unref i s = with_timer i (\<lambda>t. t\<lparr>tm_refed := False\<rparr>) s"

definition thaw_timer_has_ref :: "nat \<Rightarrow> ('b, 'z) timer_state_scheme \<Rightarrow> nat" where
  "thaw_timer_has_ref i s =
     (case find (\<lambda>t. tm_id t = i) (native_timers s) of Some t \<Rightarrow> of_bool (tm_refed t) | None \<Rightarrow> 1)"

definition thaw_timer_refresh ::
    "(rat \<Rightarrow> rat) \<Rightarrow> (nat \<Rightarrow> rat) \<Rightarrow> nat \<Rightarrow> ('b, 'z) timer_state_scheme \<Rightarrow> ('b, 'z) timer_state_scheme" where
  "thaw_timer_refresh rnd clk i s =
     (let (now, s1) = timer_now_ms clk s in
      with_timer i (\<lambda>t. if tm_kind t \<noteq> TIMER_IMMEDIATE then t\<lparr>tm_due := rnd (now + tm_delay t)\<rparr> else t) s1)"

definition native_timers_keep_alive :: "('b, 'z) timer_state_scheme \<Rightarrow> bool" where
  "native_timers_keep_alive s = list_ex tm_refed (native_timers s)"

definition native_timers_pending :: "('b, 'z) timer_state_scheme \<Rightarrow> bool" where
  "native_timers_pending s = (native_timers s \<noteq> [])"

text \<open>\<open>Duration::from_secs_f64\<close>, in nanoseconds, is the argument \<open>dur\<close>.\<close>

definition next_native_timer_delay ::
    "(rat \<Rightarrow> rat) \<Rightarrow> (rat \<Rightarrow> nat) \<Rightarrow> (nat \<Rightarrow> rat) \<Rightarrow> ('b, 'z) timer_state_scheme \<Rightarrow> nat option \<times> ('b, 'z) timer_state_scheme" where
  "next_native_timer_delay rnd dur clk s =
     (let (now, s1) = timer_now_ms clk s;
          delays = map (\<lambda>t. if tm_kind t = TIMER_IMMEDIATE then 0
                            else dur (rnd (max (rnd (tm_due t - now)) 0 / 1000))) (native_timers s1)
      in (if delays = [] then None else Some (Min (set delays)), s1))"

subsection \<open>Running\<close>

text \<open>\<open>Iterator::min_by\<close>: of several least elements the first.\<close>

fun min_by :: "('a \<Rightarrow> 'a \<Rightarrow> bool) \<Rightarrow> 'a list \<Rightarrow> 'a option" where
  "min_by lt [] = None"
| "min_by lt (x # xs) = Some (fold (\<lambda>y best. if lt y best then y else best) xs x)"

definition due_before :: "native_timer \<Rightarrow> native_timer \<Rightarrow> bool" where
  "due_before a b = (tm_due a < tm_due b \<or> tm_due a = tm_due b \<and> tm_seq a < tm_seq b)"

definition pick_timer :: "timer_phase \<Rightarrow> rat \<Rightarrow> native_timer list \<Rightarrow> native_timer option" where
  "pick_timer phase snapshot timers =
     (case phase of
        Timers_phase \<Rightarrow> min_by due_before (filter (\<lambda>t. tm_kind t \<noteq> TIMER_IMMEDIATE \<and> tm_due t \<le> snapshot) timers)
      | Check_phase limit \<Rightarrow>
          min_by (\<lambda>a b. tm_seq a < tm_seq b) (filter (\<lambda>t. tm_kind t = TIMER_IMMEDIATE \<and> tm_seq t < limit) timers))"

text \<open>An interval that its own callback did not clear is scheduled again, behind every timer so far.\<close>

definition reschedule ::
    "(rat \<Rightarrow> rat) \<Rightarrow> (nat \<Rightarrow> rat) \<Rightarrow> nat \<Rightarrow> ('b, 'z) timer_state_scheme \<Rightarrow> ('b, 'z) timer_state_scheme" where
  "reschedule rnd clk i s =
     (let (now, s1) = timer_now_ms clk s in
      if list_ex (\<lambda>t. tm_id t = i) (native_timers s1)
      then with_timer i (\<lambda>t. t\<lparr>tm_due := rnd (now + tm_delay t), tm_seq := next_timer_id s1\<rparr>)
             (s1\<lparr>next_timer_id := next_timer_id s1 + 1\<rparr>)
      else s1)"

definition run_timer ::
    "(rat \<Rightarrow> rat) \<Rightarrow> (nat \<Rightarrow> rat) \<Rightarrow> (nat \<Rightarrow> usize \<Rightarrow> ('b, 'z) timer_state_scheme \<Rightarrow> ('b, 'z) timer_state_scheme) \<Rightarrow>
     native_timer \<Rightarrow> ('b, 'z) timer_state_scheme \<Rightarrow> ('b, 'z) timer_state_scheme" where
  "run_timer rnd clk fire t s =
     (let s1 = (if tm_kind t = TIMER_IMMEDIATE \<or> tm_kind t = TIMER_TIMEOUT then thaw_timer_clear (tm_id t) s else s);
          s2 = fire (tm_callback t) (tm_context t) s1
      in if tm_kind t = TIMER_INTERVAL then reschedule rnd clk (tm_id t) s2 else s2)"

text \<open>The clock snapshot of the phase, taken when there is none.\<close>

definition phase_snapshot ::
    "(nat \<Rightarrow> rat) \<Rightarrow> ('b, 'z) timer_state_scheme \<Rightarrow> (timer_phase \<times> rat) \<times> ('b, 'z) timer_state_scheme" where
  "phase_snapshot clk s =
     (let (phase, snapshot) = timer_phase_cell s in
      if snapshot < 0
      then (let (now, s1) = timer_now_ms clk s in ((phase, now), s1\<lparr>timer_phase_cell := (phase, now)\<rparr>))
      else ((phase, snapshot), s))"

definition next_phase ::
    "(nat \<Rightarrow> rat) \<Rightarrow> timer_phase \<Rightarrow> rat \<Rightarrow> ('b, 'z) timer_state_scheme \<Rightarrow> ('b, 'z) timer_state_scheme" where
  "next_phase clk phase snapshot s =
     (case phase of
        Timers_phase \<Rightarrow> s\<lparr>timer_phase_cell := (Check_phase (next_timer_id s), snapshot)\<rparr>
      | Check_phase _ \<Rightarrow> (let (now, s1) = timer_now_ms clk s in s1\<lparr>timer_phase_cell := (Timers_phase, now)\<rparr>))"

fun run_phases ::
    "nat \<Rightarrow> (rat \<Rightarrow> rat) \<Rightarrow> (nat \<Rightarrow> rat) \<Rightarrow> (nat \<Rightarrow> usize \<Rightarrow> ('b, 'z) timer_state_scheme \<Rightarrow> ('b, 'z) timer_state_scheme) \<Rightarrow>
     ('b, 'z) timer_state_scheme \<Rightarrow> bool \<times> ('b, 'z) timer_state_scheme" where
  "run_phases 0 rnd clk fire s = (False, s)"
| "run_phases (Suc n) rnd clk fire s =
     (let ((phase, snapshot), s1) = phase_snapshot clk s in
      case pick_timer phase snapshot (native_timers s1) of
        None \<Rightarrow> run_phases n rnd clk fire (next_phase clk phase snapshot s1)
      | Some t \<Rightarrow> (True, run_timer rnd clk fire t s1))"

definition run_one_native_timer ::
    "(rat \<Rightarrow> rat) \<Rightarrow> (nat \<Rightarrow> rat) \<Rightarrow> (nat \<Rightarrow> usize \<Rightarrow> ('b, 'z) timer_state_scheme \<Rightarrow> ('b, 'z) timer_state_scheme) \<Rightarrow>
     ('b, 'z) timer_state_scheme \<Rightarrow> bool \<times> ('b, 'z) timer_state_scheme" where
  "run_one_native_timer rnd clk fire s =
     (if \<not> native_timers_pending s then (False, s) else run_phases 3 rnd clk fire s)"

end
