(* ===== verification/Timer_Properties.thy ===== *)
theory Timer_Properties
  imports Timers
begin

text \<open>
  Correctness of the timer queue. Callbacks are any code that reaches its effect through the
  exported operations, running other timers included: \<open>timer_steps\<close> is that relation. Ids are never
  given twice, so a timer that is gone stays gone, and within three phases a timer that is ready
  runs.
\<close>

subsection \<open>Steps of generated code\<close>

inductive timer_steps ::
    "(rat \<Rightarrow> rat) \<Rightarrow> (nat \<Rightarrow> rat) \<Rightarrow> ('b, 'z) timer_state_scheme \<Rightarrow> ('b, 'z) timer_state_scheme \<Rightarrow> bool"
  for rnd clk where
  steps_refl: "timer_steps rnd clk s s"
| steps_set: "timer_steps rnd clk s s' \<Longrightarrow> timer_steps rnd clk s (snd (thaw_timer_set rnd clk kind delay callback context s'))"
| steps_clear: "timer_steps rnd clk s s' \<Longrightarrow> timer_steps rnd clk s (thaw_timer_clear i s')"
| steps_ref: "timer_steps rnd clk s s' \<Longrightarrow> timer_steps rnd clk s (thaw_timer_ref i s')"
| steps_unref: "timer_steps rnd clk s s' \<Longrightarrow> timer_steps rnd clk s (thaw_timer_unref i s')"
| steps_refresh: "timer_steps rnd clk s s' \<Longrightarrow> timer_steps rnd clk s (thaw_timer_refresh rnd clk i s')"
| steps_phase: "timer_steps rnd clk s s' \<Longrightarrow> timer_steps rnd clk s (s'\<lparr>timer_phase_cell := c\<rparr>)"
| steps_clock: "timer_steps rnd clk s s' \<Longrightarrow> timer_steps rnd clk s (s'\<lparr>ts_readings := r\<rparr>)"
| steps_other: "timer_steps rnd clk s s' \<Longrightarrow> timer_steps rnd clk s (timer_state.more_update f (s'\<lparr>ts_native := n\<rparr>))"
| steps_trans: "timer_steps rnd clk s s' \<Longrightarrow> timer_steps rnd clk s' s'' \<Longrightarrow> timer_steps rnd clk s s''"
| steps_repeat: "timer_steps rnd clk s s' \<Longrightarrow> timer_steps rnd clk s (reschedule rnd clk i s')"

definition fire_ok ::
    "(rat \<Rightarrow> rat) \<Rightarrow> (nat \<Rightarrow> rat) \<Rightarrow> (nat \<Rightarrow> usize \<Rightarrow> ('b, 'z) timer_state_scheme \<Rightarrow> ('b, 'z) timer_state_scheme) \<Rightarrow> bool" where
  "fire_ok rnd clk fire \<longleftrightarrow> (\<forall>c x s. timer_steps rnd clk s (fire c x s))"

subsection \<open>Fields\<close>

abbreviation timer_ids :: "('b, 'z) timer_state_scheme \<Rightarrow> nat list" where
  "timer_ids s \<equiv> map tm_id (native_timers s)"

definition timers_inv :: "('b, 'z) timer_state_scheme \<Rightarrow> bool" where
  "timers_inv s \<longleftrightarrow> distinct (timer_ids s) \<and> distinct (map tm_seq (native_timers s)) \<and> 1 \<le> next_timer_id s \<and>
     (\<forall>t \<in> set (native_timers s). 1 \<le> tm_id t \<and> tm_id t < next_timer_id s \<and> tm_seq t < next_timer_id s)"

lemma root_frame [frame_simps]:
  "native_timers (root_drop r s) = native_timers s" "next_timer_id (root_drop r s) = next_timer_id s"
  "native_timers (snd (root_new r s)) = native_timers s" "next_timer_id (snd (root_new r s)) = next_timer_id s"
  by (simp_all add: root_drop_def root_new_def split_beta Let_def)

lemma fold_drop_frame [frame_simps]:
  "native_timers (fold (\<lambda>t. root_drop (f t)) ts s) = native_timers s"
  "next_timer_id (fold (\<lambda>t. root_drop (f t)) ts s) = next_timer_id s"
  by (induction ts arbitrary: s) (simp_all add: frame_simps)

lemma clear_frame [frame_simps]:
  "native_timers (thaw_timer_clear i s) = filter (\<lambda>t. tm_id t \<noteq> i) (native_timers s)"
  "next_timer_id (thaw_timer_clear i s) = next_timer_id s"
  by (simp_all add: thaw_timer_clear_def frame_simps)

lemma now_frame [frame_simps]:
  "native_timers (snd (timer_now_ms clk s)) = native_timers s" "next_timer_id (snd (timer_now_ms clk s)) = next_timer_id s"
  by (simp_all add: timer_now_ms_def)

lemma set_frame [frame_simps]:
  "next_timer_id (snd (thaw_timer_set rnd clk kind delay callback context s)) = Suc (next_timer_id s)"
  "timer_ids (snd (thaw_timer_set rnd clk kind delay callback context s)) = timer_ids s @ [next_timer_id s]"
  "map tm_seq (native_timers (snd (thaw_timer_set rnd clk kind delay callback context s))) =
     map tm_seq (native_timers s) @ [next_timer_id s]"
  by (simp_all add: thaw_timer_set_def timer_now_ms_def split_beta Let_def frame_simps)

lemma map_update_first: "(\<And>x. g (f x) = g x) \<Longrightarrow> map g (update_first P f xs) = map g xs"
  by (induction xs) auto

text \<open>The invariant as properties of the two lists of numbers.\<close>

lemma timers_inv_lists:
  "timers_inv s \<longleftrightarrow> distinct (timer_ids s) \<and> distinct (map tm_seq (native_timers s)) \<and> 1 \<le> next_timer_id s \<and>
     (\<forall>x \<in> set (timer_ids s). 1 \<le> x \<and> x < next_timer_id s) \<and> (\<forall>x \<in> set (map tm_seq (native_timers s)). x < next_timer_id s)"
  by (auto simp: timers_inv_def)

definition timers_follow :: "('b, 'z) timer_state_scheme \<Rightarrow> ('b, 'z) timer_state_scheme \<Rightarrow> bool" where
  "timers_follow s s' \<longleftrightarrow> timers_inv s' \<and> next_timer_id s \<le> next_timer_id s' \<and>
     (\<forall>x \<in> set (timer_ids s'). x < next_timer_id s \<longrightarrow> x \<in> set (timer_ids s))"

lemma follow_same:
  "timers_follow s s' \<Longrightarrow> timer_ids s'' = timer_ids s' \<Longrightarrow> map tm_seq (native_timers s'') = map tm_seq (native_timers s') \<Longrightarrow>
   next_timer_id s'' = next_timer_id s' \<Longrightarrow> timers_follow s s''"
  unfolding timers_follow_def timers_inv_lists by simp

lemma follow_clear: "timers_follow s s' \<Longrightarrow> timers_follow s (thaw_timer_clear i s')"
  by (auto simp: timers_follow_def timers_inv_def frame_simps distinct_map inj_on_def)

lemma follow_set: "timers_follow s s' \<Longrightarrow> timers_follow s (snd (thaw_timer_set rnd clk kind delay callback context s'))"
  unfolding timers_follow_def timers_inv_lists frame_simps by (auto simp: less_Suc_eq)

lemma follow_trans: "timers_follow s s' \<Longrightarrow> timers_follow s' s'' \<Longrightarrow> timers_follow s s''"
  unfolding timers_follow_def by (meson order_less_le_trans order_trans)

lemma update_first_seq:
  assumes "distinct (map tm_id ts)" "distinct (map tm_seq ts)" "n \<notin> set (map tm_seq ts)" "\<And>t. tm_seq (f t) = n"
  shows "distinct (map tm_seq (update_first P f ts)) \<and> set (map tm_seq (update_first P f ts)) \<subseteq> insert n (set (map tm_seq ts))"
  using assms(2,3) by (induction ts) (auto simp: assms(4))

lemma follow_reschedule: "timers_follow s s' \<Longrightarrow> timers_follow s (reschedule rnd clk i s')"
proof -
  assume f: "timers_follow s s'"
  let ?f = "\<lambda>now t. t\<lparr>tm_due := rnd (now + tm_delay t), tm_seq := next_timer_id s'\<rparr>"
  have u: "distinct (map tm_seq (update_first P (?f now) (native_timers s'))) \<and>
      set (map tm_seq (update_first P (?f now) (native_timers s'))) \<subseteq> insert (next_timer_id s') (set (map tm_seq (native_timers s')))"
    for now P
    using f unfolding timers_follow_def timers_inv_lists by (intro update_first_seq) auto
  have i: "map tm_id (update_first P (?f now) (native_timers s')) = timer_ids s'" for now P
    by (rule map_update_first) simp
  show ?thesis
  proof (cases "list_ex (\<lambda>t. tm_id t = i) (native_timers s')")
    case True
    then show ?thesis using f u i unfolding timers_follow_def timers_inv_lists
      by (fastforce simp: reschedule_def timer_now_ms_def Let_def with_timer_def)
  next
    case False
    then show ?thesis by (intro follow_same [OF f]) (simp_all add: reschedule_def timer_now_ms_def Let_def)
  qed
qed

lemma steps_follow: "timer_steps rnd clk s s' \<Longrightarrow> timers_inv s \<Longrightarrow> timers_follow s s'"
proof (induction rule: timer_steps.induct)
  case (steps_refl s)
  then show ?case by (simp add: timers_follow_def)
next
  case (steps_set s s' kind delay cb x)
  then show ?case by (intro follow_set)
next
  case (steps_clear s s' i)
  then show ?case by (intro follow_clear)
next
  case (steps_ref s s' i)
  show ?case by (rule follow_same [OF steps_ref.IH [OF steps_ref.prems]])
      (simp_all add: thaw_timer_ref_def with_timer_def map_update_first)
next
  case (steps_unref s s' i)
  show ?case by (rule follow_same [OF steps_unref.IH [OF steps_unref.prems]])
      (simp_all add: thaw_timer_unref_def with_timer_def map_update_first)
next
  case (steps_refresh s s' i)
  show ?case by (rule follow_same [OF steps_refresh.IH [OF steps_refresh.prems]])
      (simp_all add: thaw_timer_refresh_def with_timer_def map_update_first timer_now_ms_def)
next
  case (steps_phase s s' c)
  show ?case by (rule follow_same [OF steps_phase.IH [OF steps_phase.prems]]) simp_all
next
  case (steps_clock s s' r)
  show ?case by (rule follow_same [OF steps_clock.IH [OF steps_clock.prems]]) simp_all
next
  case (steps_other s s' f n)
  show ?case by (rule follow_same [OF steps_other.IH [OF steps_other.prems]]) simp_all
next
  case (steps_trans s s' s'')
  note c = steps_trans.IH(1) [OF steps_trans.prems]
  then have "timers_inv s'" by (simp add: timers_follow_def)
  then show ?case by (rule follow_trans [OF c steps_trans.IH(2)])
next
  case (steps_repeat s s' i)
  then show ?case by (intro follow_reschedule)
qed

lemma run_timer_steps:
  assumes "fire_ok rnd clk fire"
  shows "timer_steps rnd clk s (run_timer rnd clk fire t s)"
proof -
  let ?s1 = "if tm_kind t = TIMER_IMMEDIATE \<or> tm_kind t = TIMER_TIMEOUT then thaw_timer_clear (tm_id t) s else s"
  let ?s2 = "fire (tm_callback t) (tm_context t) ?s1"
  have "timer_steps rnd clk s ?s1" by (simp add: steps_refl steps_clear)
  moreover have "timer_steps rnd clk ?s1 ?s2" using assms unfolding fire_ok_def by blast
  ultimately have s2: "timer_steps rnd clk s ?s2" by (rule steps_trans)
  show ?thesis
  proof (cases "tm_kind t = TIMER_INTERVAL")
    case True
    show ?thesis unfolding run_timer_def Let_def if_P [OF True] by (rule steps_repeat [OF s2])
  next
    case False
    show ?thesis unfolding run_timer_def Let_def if_not_P [OF False] by (rule s2)
  qed
qed

lemma phase_snapshot_steps: "timer_steps rnd clk s (snd (phase_snapshot clk s))"
  by (simp add: phase_snapshot_def timer_now_ms_def split_beta Let_def steps_refl steps_phase steps_clock)

lemma next_phase_steps: "timer_steps rnd clk s (next_phase clk phase snapshot s)"
  by (cases phase) (simp_all add: next_phase_def timer_now_ms_def Let_def steps_refl steps_phase steps_clock)

lemma run_phases_steps: "fire_ok rnd clk fire \<Longrightarrow> timer_steps rnd clk s (snd (run_phases n rnd clk fire s))"
proof (induction n arbitrary: s)
  case 0
  show ?case by (simp add: steps_refl)
next
  case (Suc n)
  obtain phase snapshot s1 where p: "phase_snapshot clk s = ((phase, snapshot), s1)" by (metis prod.exhaust)
  have "timer_steps rnd clk s s1" using phase_snapshot_steps [of rnd clk s] p by simp
  moreover have "timer_steps rnd clk s1 (snd (run_phases n rnd clk fire (next_phase clk phase snapshot s1)))"
    by (rule steps_trans [OF next_phase_steps Suc.IH [OF Suc.prems]])
  ultimately show ?case
    using p steps_trans [of rnd clk s s1] run_timer_steps [OF Suc.prems, of s1] by (simp split: option.split)
qed

lemma run_one_steps: "fire_ok rnd clk fire \<Longrightarrow> timer_steps rnd clk s (snd (run_one_native_timer rnd clk fire s))"
  by (simp add: run_one_native_timer_def run_phases_steps steps_refl)

subsection \<open>Picking\<close>

lemma min_by_eq_None [simp]: "min_by lt xs = None \<longleftrightarrow> xs = []"
  by (cases xs) simp_all

lemma fold_min_least:
  assumes tr: "\<And>a b c. lt a b \<Longrightarrow> lt b c \<Longrightarrow> lt a c" and tot: "\<And>a b c. lt a b \<Longrightarrow> \<not> lt c b \<Longrightarrow> lt a c" and irr: "\<And>a. \<not> lt a a"
  shows "(let m = fold (\<lambda>y best. if lt y best then y else best) xs x in m \<in> insert x (set xs) \<and> (\<forall>y \<in> insert x (set xs). \<not> lt y m))"
proof (induction xs arbitrary: x)
  case (Cons a xs)
  let ?x = "if lt a x then a else x"
  have IH: "fold (\<lambda>y best. if lt y best then y else best) xs ?x \<in> insert ?x (set xs)"
    "\<And>y. y \<in> insert ?x (set xs) \<Longrightarrow> \<not> lt y (fold (\<lambda>y best. if lt y best then y else best) xs ?x)"
    using Cons.IH [of ?x, unfolded Let_def] by blast+
  let ?m = "fold (\<lambda>y best. if lt y best then y else best) xs ?x"
  have nx: "\<not> lt ?x ?m" by (rule IH(2)) simp
  have "\<not> lt a ?m \<and> \<not> lt x ?m"
  proof (cases "lt a x")
    case True
    then show ?thesis using nx tr [OF True, of ?m] by auto
  next
    case False
    then show ?thesis using nx tot [of a ?m x] by auto
  qed
  moreover have "?m \<in> insert x (set (a # xs))" using IH(1) by (cases "lt a x") auto
  moreover have "\<not> lt y ?m" if "y \<in> set xs" for y using IH(2) that by simp
  ultimately show ?case by (simp add: Let_def)
qed (simp add: irr)

lemma min_by_least:
  assumes tr: "\<And>a b c. lt a b \<Longrightarrow> lt b c \<Longrightarrow> lt a c" and tot: "\<And>a b c. lt a b \<Longrightarrow> \<not> lt c b \<Longrightarrow> lt a c" and irr: "\<And>a. \<not> lt a a"
    and m: "min_by lt xs = Some m"
  shows "m \<in> set xs" "\<And>y. y \<in> set xs \<Longrightarrow> \<not> lt y m"
proof -
  obtain x ys where xs: "xs = x # ys" using m by (cases xs) simp_all
  then have "m = fold (\<lambda>y best. if lt y best then y else best) ys x" using m by simp
  then show "m \<in> set xs" "\<And>y. y \<in> set xs \<Longrightarrow> \<not> lt y m"
    using fold_min_least [of lt ys x, OF tr tot irr, unfolded Let_def] xs by auto
qed

lemma pick_None: "pick_timer phase snapshot ts = None \<longleftrightarrow>
    (case phase of Timers_phase \<Rightarrow> \<forall>t \<in> set ts. tm_kind t = TIMER_IMMEDIATE \<or> snapshot < tm_due t
     | Check_phase limit \<Rightarrow> \<forall>t \<in> set ts. tm_kind t = TIMER_IMMEDIATE \<longrightarrow> limit \<le> tm_seq t)"
  by (auto simp: pick_timer_def filter_empty_conv split: timer_phase.split)

subsection \<open>Progress\<close>

lemma phase_snapshot_result:
  assumes "phase_snapshot clk s = ((phase, snapshot), s1)"
  shows "native_timers s1 = native_timers s" "next_timer_id s1 = next_timer_id s" "ts_readings s \<le> ts_readings s1"
    "phase = fst (timer_phase_cell s)" "snapshot = snd (timer_phase_cell s) \<or> (\<exists>n \<ge> ts_readings s. snapshot = clk n)"
  using assms by (auto simp: phase_snapshot_def timer_now_ms_def Let_def split_beta split: if_splits)

lemma next_phase_result:
  fixes clk phase snapshot s
  defines "s' \<equiv> next_phase clk phase snapshot s"
  shows "native_timers s' = native_timers s" "next_timer_id s' = next_timer_id s" "ts_readings s \<le> ts_readings s'"
  unfolding s'_def by (cases phase; simp add: next_phase_def timer_now_ms_def Let_def)+

lemma next_phase_cell:
  "timer_phase_cell (next_phase clk Timers_phase snapshot s) = (Check_phase (next_timer_id s), snapshot)"
  "timer_phase_cell (next_phase clk (Check_phase l) snapshot s) = (Timers_phase, clk (ts_readings s))"
  by (simp_all add: next_phase_def timer_now_ms_def Let_def)

lemma phase_snapshot_form:
  "phase_snapshot clk s = ((phase, snapshot), s1) \<Longrightarrow>
   \<exists>r. ts_readings s \<le> r \<and> s1 = s\<lparr>ts_readings := r, timer_phase_cell := (phase, snapshot)\<rparr>"
  by (cases s) (auto simp: phase_snapshot_def timer_now_ms_def Let_def split_beta split: if_splits)

lemma next_phase_form:
  "\<exists>c r. ts_readings s \<le> r \<and> next_phase clk phase snapshot s = s\<lparr>ts_readings := r, timer_phase_cell := c\<rparr>"
  by (cases phase; cases s) (auto simp: next_phase_def timer_now_ms_def Let_def)

lemma run_phases_form:
  "fst (run_phases n rnd clk fire s) \<Longrightarrow>
   \<exists>u c r. ts_readings s \<le> r \<and> pick_timer (fst c) (snd c) (native_timers s) = Some u \<and>
     run_phases n rnd clk fire s = (True, run_timer rnd clk fire u (s\<lparr>ts_readings := r, timer_phase_cell := c\<rparr>))"
proof (induction n arbitrary: s)
  case (Suc n)
  obtain phase snapshot s1 where p: "phase_snapshot clk s = ((phase, snapshot), s1)" by (metis prod.exhaust)
  obtain r where r: "ts_readings s \<le> r" "s1 = s\<lparr>ts_readings := r, timer_phase_cell := (phase, snapshot)\<rparr>"
    using phase_snapshot_form [OF p] by blast
  show ?case
  proof (cases "pick_timer phase snapshot (native_timers s1)")
    case None
    let ?s2 = "next_phase clk phase snapshot s1"
    obtain c r' where c: "r \<le> r'" "?s2 = s\<lparr>ts_readings := r', timer_phase_cell := c\<rparr>"
      using next_phase_form [of s1 clk phase snapshot] r by auto
    have "fst (run_phases n rnd clk fire ?s2)" using Suc.prems p None by simp
    from Suc.IH [OF this] obtain u d r'' where "r' \<le> r''" "pick_timer (fst d) (snd d) (native_timers s) = Some u"
        "run_phases n rnd clk fire ?s2 = (True, run_timer rnd clk fire u (s\<lparr>ts_readings := r'', timer_phase_cell := d\<rparr>))"
      by (auto simp: c(2))
    then show ?thesis using p None r(1) c(1) by (intro exI [of _ u] exI [of _ d] exI [of _ r'']) simp
  next
    case (Some u)
    then show ?thesis using p r by (intro exI [of _ u] exI [of _ "(phase, snapshot)"] exI [of _ r]) simp
  qed
qed simp

lemma run_phases_unfold:
  "phase_snapshot clk s = ((phase, snapshot), s1) \<Longrightarrow>
   fst (run_phases (Suc n) rnd clk fire s) \<longleftrightarrow>
     pick_timer phase snapshot (native_timers s1) \<noteq> None \<or> fst (run_phases n rnd clk fire (next_phase clk phase snapshot s1))"
  by (auto split: option.split)

lemma run_fresh_timers:
  assumes "timer_phase_cell s = (Timers_phase, clk r)" "r0 \<le> r" "r0 \<le> ts_readings s"
    "t \<in> set (native_timers s)" "tm_kind t \<noteq> TIMER_IMMEDIATE" "\<And>n. r0 \<le> n \<Longrightarrow> tm_due t \<le> clk n"
  shows "fst (run_phases (Suc n) rnd clk fire s)"
proof -
  obtain phase snapshot s1 where p: "phase_snapshot clk s = ((phase, snapshot), s1)" by (metis prod.exhaust)
  note P = phase_snapshot_result [OF p]
  have "tm_due t \<le> snapshot" using P(5) assms(1-3,6) by (auto simp: order_trans)
  then have "pick_timer phase snapshot (native_timers s1) \<noteq> None"
    using P(1,4) assms(1,4,5) by (auto simp: pick_None)
  then show ?thesis unfolding run_phases_unfold [OF p] by blast
qed

lemma run_fresh_check:
  assumes "timer_phase_cell s = (Check_phase (next_timer_id s), x)" "timers_inv s"
    "t \<in> set (native_timers s)" "tm_kind t = TIMER_IMMEDIATE"
  shows "fst (run_phases (Suc n) rnd clk fire s)"
proof -
  obtain phase snapshot s1 where p: "phase_snapshot clk s = ((phase, snapshot), s1)" by (metis prod.exhaust)
  note P = phase_snapshot_result [OF p]
  have "tm_seq t < next_timer_id s" using assms(2,3) by (simp add: timers_inv_def)
  then have "pick_timer phase snapshot (native_timers s1) \<noteq> None"
    using P(1,4) assms(1,3,4) by (auto simp: pick_None)
  then show ?thesis unfolding run_phases_unfold [OF p] by blast
qed

lemma timers_inv_cong:
  "native_timers s' = native_timers s \<Longrightarrow> next_timer_id s' = next_timer_id s \<Longrightarrow> timers_inv s \<Longrightarrow> timers_inv s'"
  by (simp add: timers_inv_def)

lemma run_from_check:
  assumes "fst (timer_phase_cell s) = Check_phase l" "t \<in> set (native_timers s)" "tm_kind t \<noteq> TIMER_IMMEDIATE"
    "\<And>n. ts_readings s \<le> n \<Longrightarrow> tm_due t \<le> clk n"
  shows "fst (run_phases (Suc (Suc n)) rnd clk fire s)"
proof -
  obtain phase snapshot s1 where p: "phase_snapshot clk s = ((phase, snapshot), s1)" by (metis prod.exhaust)
  note P = phase_snapshot_result [OF p] and N = next_phase_result [where clk = clk and phase = "Check_phase l" and snapshot = snapshot and s = s1]
  have "fst (run_phases (Suc n) rnd clk fire (next_phase clk (Check_phase l) snapshot s1))"
    by (rule run_fresh_timers [of _ clk "ts_readings s1" "ts_readings s" t]) (use P N assms in \<open>auto simp: next_phase_cell\<close>)
  then show ?thesis unfolding run_phases_unfold [OF p] using P(4) assms(1) by simp
qed

lemma run_from_timers:
  assumes "fst (timer_phase_cell s) = Timers_phase" "timers_inv s" "t \<in> set (native_timers s)" "tm_kind t = TIMER_IMMEDIATE"
  shows "fst (run_phases (Suc (Suc n)) rnd clk fire s)"
proof -
  obtain phase snapshot s1 where p: "phase_snapshot clk s = ((phase, snapshot), s1)" by (metis prod.exhaust)
  note P = phase_snapshot_result [OF p] and N = next_phase_result [where clk = clk and phase = Timers_phase and snapshot = snapshot and s = s1]
  have "timers_inv (next_phase clk Timers_phase snapshot s1)" by (rule timers_inv_cong [OF _ _ assms(2)]) (simp_all add: N P)
  then have "fst (run_phases (Suc n) rnd clk fire (next_phase clk Timers_phase snapshot s1))"
    by (rule run_fresh_check [rotated, of _ t]) (use P N assms in \<open>auto simp: next_phase_cell\<close>)
  then show ?thesis unfolding run_phases_unfold [OF p] using P(4) assms(1) by simp
qed

lemma run_three:
  assumes inv: "timers_inv s" and t: "t \<in> set (native_timers s)"
    and ready: "tm_kind t = TIMER_IMMEDIATE \<or> (\<forall>n \<ge> ts_readings s. tm_due t \<le> clk n)"
  shows "fst (run_phases 3 rnd clk fire s)"
proof -
  obtain phase snapshot s1 where p: "phase_snapshot clk s = ((phase, snapshot), s1)" by (metis prod.exhaust)
  note P = phase_snapshot_result [OF p]
  let ?s2 = "next_phase clk phase snapshot s1"
  note N = next_phase_result [where clk = clk and phase = phase and snapshot = snapshot and s = s1]
  have inv2: "timers_inv ?s2" by (rule timers_inv_cong [OF _ _ inv]) (simp_all add: N P(1,2))
  have t2: "t \<in> set (native_timers ?s2)" using t N P by simp
  have three: "(3::nat) = Suc (Suc (Suc 0))" by simp
  consider (imm) "tm_kind t = TIMER_IMMEDIATE" | (due) "tm_kind t \<noteq> TIMER_IMMEDIATE" "\<And>n. ts_readings s \<le> n \<Longrightarrow> tm_due t \<le> clk n"
    using ready by blast
  then show ?thesis
  proof cases
    case imm
    show ?thesis
    proof (cases phase)
      case Timers_phase
      then show ?thesis unfolding three using P(4) inv t imm by (intro run_from_timers) auto
    next
      case (Check_phase l)
      then have "fst (run_phases (Suc (Suc 0)) rnd clk fire ?s2)"
        using inv2 t2 imm by (intro run_from_timers) (simp_all add: next_phase_cell)
      then show ?thesis unfolding three run_phases_unfold [OF p] by blast
    qed
  next
    case due
    show ?thesis
    proof (cases phase)
      case Timers_phase
      then have "fst (run_phases (Suc (Suc 0)) rnd clk fire ?s2)"
        using t2 due P(3) N(3) by (intro run_from_check [of _ _ t]) (auto simp: next_phase_cell)
      then show ?thesis unfolding three run_phases_unfold [OF p] by blast
    next
      case (Check_phase l)
      then show ?thesis unfolding three using P(4) t due by (intro run_from_check) auto
    qed
  qed
qed

subsection \<open>Properties\<close>

definition idle_fire :: "nat \<Rightarrow> usize \<Rightarrow> ('b, 'z) timer_state_scheme \<Rightarrow> ('b, 'z) timer_state_scheme" where
  "idle_fire c x s = s"

lemma idle_fire_ok: "fire_ok rnd clk idle_fire"
  by (simp add: fire_ok_def idle_fire_def steps_refl)

lemma start_inv: "timers_inv (timer_state_start n)"
  by (simp add: timers_inv_def timer_state_start_def)

text \<open>The callbacks of the examples register a timeout of their own, numbered after them, so that a run shows
  in the queue it leaves.\<close>

definition echo_fire :: "nat \<Rightarrow> usize \<Rightarrow> ('b, 'z) timer_state_scheme \<Rightarrow> ('b, 'z) timer_state_scheme" where
  "echo_fire c x s = snd (thaw_timer_set id of_nat TIMER_TIMEOUT Non_finite (c + 100) x s)"

lemma echo_fire_ok: "fire_ok id of_nat echo_fire"
  by (simp add: fire_ok_def echo_fire_def steps_set steps_refl)

lemma run_timer_kinds:
  "run_timer rnd clk fire t s =
     (if tm_kind t = TIMER_TIMEOUT \<or> tm_kind t = TIMER_IMMEDIATE
      then fire (tm_callback t) (tm_context t) (thaw_timer_clear (tm_id t) s)
      else if tm_kind t = TIMER_INTERVAL then reschedule rnd clk (tm_id t) (fire (tm_callback t) (tm_context t) s)
      else fire (tm_callback t) (tm_context t) s)"
  by (auto simp: run_timer_def TIMER_TIMEOUT_def TIMER_IMMEDIATE_def TIMER_INTERVAL_def)

text \<open>The order in which callbacks run: in the timer phase the picked timer is due and strictly
  before every other due timer by due time and then by registration; in the check phase it is the
  oldest immediate that was queued before the phase began, so an immediate queued by an immediate
  waits for the next round.\<close>

theorem timer_order:
  assumes "timers_inv s" "pick_timer phase snapshot (native_timers s) = Some t"
  shows "t \<in> set (native_timers s) \<and>
    (case phase of
       Timers_phase \<Rightarrow> tm_kind t \<noteq> TIMER_IMMEDIATE \<and> tm_due t \<le> snapshot \<and>
         (\<forall>u \<in> set (native_timers s) - {t}. tm_kind u \<noteq> TIMER_IMMEDIATE \<and> tm_due u \<le> snapshot \<longrightarrow> due_before t u)
     | Check_phase limit \<Rightarrow> tm_kind t = TIMER_IMMEDIATE \<and> tm_seq t < limit \<and>
         (\<forall>u \<in> set (native_timers s) - {t}. tm_kind u = TIMER_IMMEDIATE \<longrightarrow> tm_seq t < tm_seq u))"
proof -
  have seq: "tm_seq u \<noteq> tm_seq v" if "u \<in> set (native_timers s)" "v \<in> set (native_timers s)" "u \<noteq> v" for u v
    using assms(1) that by (auto simp: timers_inv_def distinct_map inj_on_def)
  show ?thesis
  proof (cases phase)
    case Timers_phase
    let ?ts = "filter (\<lambda>t. tm_kind t \<noteq> TIMER_IMMEDIATE \<and> tm_due t \<le> snapshot) (native_timers s)"
    have m: "min_by due_before ?ts = Some t" using assms(2) Timers_phase by (simp add: pick_timer_def)
    have L: "t \<in> set ?ts" "\<And>u. u \<in> set ?ts \<Longrightarrow> \<not> due_before u t"
      by (rule min_by_least [OF _ _ _ m]; auto simp: due_before_def)+
    have "due_before t u" if "u \<in> set ?ts" "u \<noteq> t" for u
      using L(2) [OF that(1)] seq [of u t] L(1) that by (auto simp: due_before_def)
    then show ?thesis using L(1) Timers_phase by auto
  next
    case (Check_phase limit)
    let ?ts = "filter (\<lambda>t. tm_kind t = TIMER_IMMEDIATE \<and> tm_seq t < limit) (native_timers s)"
    have m: "min_by (\<lambda>a b. tm_seq a < tm_seq b) ?ts = Some t" using assms(2) Check_phase by (simp add: pick_timer_def)
    have L: "t \<in> set ?ts" "\<And>u. u \<in> set ?ts \<Longrightarrow> \<not> tm_seq u < tm_seq t"
      by (rule min_by_least [OF _ _ _ m]; simp)+
    have "tm_seq t < tm_seq u" if "u \<in> set (native_timers s)" "u \<noteq> t" "tm_kind u = TIMER_IMMEDIATE" for u
      using L(2) [of u] seq [of u t] L(1) that by (cases "tm_seq u < limit") auto
    then show ?thesis using L(1) Check_phase by auto
  qed
qed

text \<open>C18. Progress: in every state that generated code can reach, if an immediate is queued, or if the clock
  never goes back and a timer is due at its next reading, then \<open>run_one_native_timer\<close> runs exactly one
  callback and says so. Only the clock has been read and the phase changed before, at most three times.
  The callback is that of a registered timer: a timer due at the snapshot of the phase and before
  every other due one, or the oldest immediate. It is called once, with its context, on the
  state from which a timeout or immediate has just been cleared; an interval is rescheduled after it.\<close>

theorem ready_timer_runs:
  assumes "timer_steps rnd clk (timer_state_start n) s" "t \<in> set (native_timers s)"
    "tm_kind t = TIMER_IMMEDIATE \<or> mono clk \<and> tm_due t \<le> clk (ts_readings s)"
  shows "\<exists>u c r s1. u \<in> set (native_timers s) \<and> ts_readings s \<le> r \<and> s1 = s\<lparr>ts_readings := r, timer_phase_cell := c\<rparr> \<and>
    (if tm_kind u = TIMER_IMMEDIATE
     then \<forall>v \<in> set (native_timers s) - {u}. tm_kind v = TIMER_IMMEDIATE \<longrightarrow> tm_seq u < tm_seq v
     else tm_due u \<le> snd c \<and>
       (\<forall>v \<in> set (native_timers s) - {u}. tm_kind v \<noteq> TIMER_IMMEDIATE \<and> tm_due v \<le> snd c \<longrightarrow> due_before u v)) \<and>
    run_one_native_timer rnd clk fire s =
      (True,
       if tm_kind u = TIMER_TIMEOUT \<or> tm_kind u = TIMER_IMMEDIATE
       then fire (tm_callback u) (tm_context u) (thaw_timer_clear (tm_id u) s1)
       else if tm_kind u = TIMER_INTERVAL then reschedule rnd clk (tm_id u) (fire (tm_callback u) (tm_context u) s1)
       else fire (tm_callback u) (tm_context u) s1)"
proof -
  have inv: "timers_inv s" using steps_follow [OF assms(1) start_inv] by (simp add: timers_follow_def)
  have "tm_kind t = TIMER_IMMEDIATE \<or> (\<forall>i \<ge> ts_readings s. tm_due t \<le> clk i)"
    using assms(3) by (meson monoD order_trans)
  from run_phases_form [OF run_three [OF inv assms(2) this]]
  obtain u c r where u: "ts_readings s \<le> r" "pick_timer (fst c) (snd c) (native_timers s) = Some u"
      "run_phases 3 rnd clk fire s = (True, run_timer rnd clk fire u (s\<lparr>ts_readings := r, timer_phase_cell := c\<rparr>))"
    by blast
  have "native_timers_pending s" using assms(2) by (auto simp: native_timers_pending_def)
  then have run: "run_one_native_timer rnd clk fire s = (True, run_timer rnd clk fire u (s\<lparr>ts_readings := r, timer_phase_cell := c\<rparr>))"
    using u(3) by (simp add: run_one_native_timer_def)
  show ?thesis using timer_order [OF inv u(2)] u(1) run unfolding run_timer_kinds
    by (intro exI [of _ u] exI [of _ c] exI [of _ r] exI [of _ "s\<lparr>ts_readings := r, timer_phase_cell := c\<rparr>"])
       (cases "fst c"; simp)
qed

definition one_immediate :: "unit timer_state" where
  "one_immediate = snd (thaw_timer_set id of_nat TIMER_IMMEDIATE Non_finite 4 0
     (timer_state_start (init_native (init_state \<lparr>bump_new = (), bump_try_alloc = \<lambda>_ _ _. None, bump_reset = id\<rparr> (\<lambda>_. 0)))))"

lemma one_immediate_reached:
  "timer_steps id of_nat
     (timer_state_start (init_native (init_state \<lparr>bump_new = (), bump_try_alloc = \<lambda>_ _ _. None, bump_reset = id\<rparr> (\<lambda>_. 0)))) one_immediate"
  unfolding one_immediate_def by (rule steps_set [OF steps_refl])

lemma set_timer_entry:
  "native_timers (snd (thaw_timer_set rnd clk kind delay callback context s)) = native_timers s @
     [\<lparr>tm_id = next_timer_id s, tm_kind = kind, tm_delay = timer_delay_ms delay,
       tm_due = rnd (clk (ts_readings s) + timer_delay_ms delay), tm_seq = next_timer_id s, tm_refed = True,
       tm_callback = callback, tm_context = context,
       tm_root = fst (root_new context (s\<lparr>next_timer_id := next_timer_id s + 1, ts_readings := ts_readings s + 1\<rparr>))\<rparr>]"
  by (simp add: thaw_timer_set_def timer_now_ms_def split_beta Let_def frame_simps)

theorem ready_timer_runs_witness:
  "fst (run_one_native_timer id of_nat echo_fire one_immediate) \<and>
   map tm_callback (native_timers one_immediate) = [4] \<and>
   map tm_callback (native_timers (snd (run_one_native_timer id of_nat echo_fire one_immediate))) = [104]"
proof -
  obtain t where t: "native_timers one_immediate = [t]" "tm_kind t = TIMER_IMMEDIATE" "tm_callback t = 4"
    by (simp add: one_immediate_def set_timer_entry timer_state_start_def)
  then have "t \<in> set (native_timers one_immediate)" by simp
  from ready_timer_runs [OF one_immediate_reached this, of echo_fire] t show ?thesis
    by (auto simp: echo_fire_def set_timer_entry frame_simps)
qed

definition two_timers :: "unit timer_state" where
  "two_timers = (timer_state_start (init_native (init_state \<lparr>bump_new = (), bump_try_alloc = \<lambda>_ _ _. None, bump_reset = id\<rparr> (\<lambda>_. 0))))
     \<lparr>native_timers := [\<lparr>tm_id = 1, tm_kind = 0, tm_delay = 9, tm_due = 9, tm_seq = 1, tm_refed = True, tm_callback = 0, tm_context = 0, tm_root = 0\<rparr>,
        \<lparr>tm_id = 2, tm_kind = 0, tm_delay = 5, tm_due = 5, tm_seq = 2, tm_refed = True, tm_callback = 0, tm_context = 0, tm_root = 0\<rparr>],
      next_timer_id := 3\<rparr>"

lemma two_timers_inv: "timers_inv two_timers"
  by (simp add: timers_inv_def two_timers_def)

theorem timer_order_witness:
  "\<exists>t. pick_timer Timers_phase 9 (native_timers two_timers) = Some t \<and> tm_id t = 2 \<and> due_before t (hd (native_timers two_timers))"
proof -
  have "pick_timer Timers_phase 9 (native_timers two_timers) = Some (native_timers two_timers ! 1)"
    by (simp add: pick_timer_def two_timers_def due_before_def TIMER_IMMEDIATE_def)
  from timer_order [OF two_timers_inv this] show ?thesis
    by (simp add: pick_timer_def two_timers_def due_before_def TIMER_IMMEDIATE_def)
qed

text \<open>C19. A timeout or an immediate runs once. Its run is one call of its callback, on the state from which it
  has already been unregistered while every other timer is kept. In every state that generated code can
  reach from there, within the callback or after it, no timer has its id, so no phase picks it
  again; and the state the run leaves is one of these.\<close>

theorem one_shot_runs_once:
  assumes "timers_inv s" "t \<in> set (native_timers s)" "tm_kind t = TIMER_TIMEOUT \<or> tm_kind t = TIMER_IMMEDIATE"
    "fire_ok rnd clk fire"
  shows "\<exists>s1. s1 = thaw_timer_clear (tm_id t) s \<and> native_timers s1 = filter (\<lambda>u. u \<noteq> t) (native_timers s) \<and>
    run_timer rnd clk fire t s = fire (tm_callback t) (tm_context t) s1 \<and>
    timer_steps rnd clk s1 (run_timer rnd clk fire t s) \<and>
    (\<forall>s'. timer_steps rnd clk s1 s' \<longrightarrow> timers_inv s' \<and> tm_id t \<notin> set (timer_ids s') \<and>
       (\<forall>phase snapshot u. pick_timer phase snapshot (native_timers s') = Some u \<longrightarrow> tm_id u \<noteq> tm_id t))"
proof -
  let ?s1 = "thaw_timer_clear (tm_id t) s" and ?s2 = "run_timer rnd clk fire t s"
  have s2: "?s2 = fire (tm_callback t) (tm_context t) ?s1" using assms(3) by (simp add: run_timer_kinds)
  have i1: "timers_inv ?s1" using follow_clear [of s s] assms(1) by (simp add: timers_follow_def)
  have "tm_id u \<noteq> tm_id t \<longleftrightarrow> u \<noteq> t" if "u \<in> set (native_timers s)" for u
    using assms(1,2) that by (auto simp: timers_inv_def distinct_map inj_on_def)
  then have others: "native_timers ?s1 = filter (\<lambda>u. u \<noteq> t) (native_timers s)" by (simp add: frame_simps cong: filter_cong)
  have "tm_id t \<notin> set (timer_ids ?s1)" "tm_id t < next_timer_id ?s1"
    using assms(1,2) by (auto simp: frame_simps timers_inv_def)
  then have gone: "timers_inv s' \<and> tm_id t \<notin> set (timer_ids s')" if "timer_steps rnd clk ?s1 s'" for s'
    using steps_follow [OF that i1] unfolding timers_follow_def by blast
  have unpicked: "tm_id u \<noteq> tm_id t"
    if "timer_steps rnd clk ?s1 s'" "pick_timer phase snapshot (native_timers s') = Some u" for s' phase snapshot u
    using gone [OF that(1)] timer_order [OF _ that(2)] by (metis image_eqI set_map)
  have "timer_steps rnd clk ?s1 ?s2" using assms(4) unfolding s2 fire_ok_def by blast
  then show ?thesis using s2 others gone unpicked by blast
qed

theorem one_shot_runs_once_witness:
  "map tm_id (native_timers (run_timer id of_nat echo_fire (native_timers two_timers ! 1) two_timers)) = [1, 3] \<and>
   map tm_callback (native_timers (run_timer id of_nat echo_fire (native_timers two_timers ! 1) two_timers)) = [0, 100] \<and>
   2 \<notin> set (timer_ids (run_timer id of_nat echo_fire (native_timers two_timers ! 1) two_timers))"
  using one_shot_runs_once [OF two_timers_inv _ _ echo_fire_ok, of "native_timers two_timers ! 1"]
  by (auto simp: two_timers_def TIMER_TIMEOUT_def echo_fire_def set_timer_entry frame_simps)

end
