(* ===== verification/Word_Memory.thy ===== *)
theory Word_Memory
  imports Native_Strings
begin

text \<open>Little-endian words of eight bytes: writing, reading back, and what a write leaves alone.\<close>

definition usize_bytes :: "usize \<Rightarrow> bytes" where
  "usize_bytes n = map (\<lambda>k. word_of_nat (n div 256 ^ k)) [0, 1, 2, 3, 4, 5, 6, 7]"

definition write_usize :: "memory \<Rightarrow> usize \<Rightarrow> usize \<Rightarrow> memory" where
  "write_usize m a n = write_bytes_at m a (usize_bytes n)"

lemma length_usize_bytes [simp]: "length (usize_bytes n) = 8"
  by (simp add: usize_bytes_def)

lemma byte_sum:
  fixes n :: nat
  assumes "n < 2 ^ 64"
  shows "((((((n div 256 ^ 7 mod 256 * 256 + n div 256 ^ 6 mod 256) * 256 + n div 256 ^ 5 mod 256) * 256 +
    n div 256 ^ 4 mod 256) * 256 + n div 256 ^ 3 mod 256) * 256 + n div 256 ^ 2 mod 256) * 256 + n div 256 mod 256) * 256 + n mod 256 = n"
proof -
  define d where "d k = n div 256 ^ k" for k
  have step: "d j * 256 + d k mod 256 = d k" if "j = Suc k" for j k
    using that by (simp add: d_def div_mult2_eq mult.commute [of 256] div_mult_mod_eq)
  have "d 8 = 0" using assms by (simp add: d_def)
  then have top: "d 7 mod 256 = d 7" using step [of 8 7] by simp
  have e: "d 7 * 256 + d 6 mod 256 = d 6" "d 6 * 256 + d 5 mod 256 = d 5" "d 5 * 256 + d 4 mod 256 = d 4" "d 4 * 256 + d 3 mod 256 = d 3"
      "d 3 * 256 + d 2 mod 256 = d 2" "d 2 * 256 + d 1 mod 256 = d 1" "d 1 * 256 + d 0 mod 256 = d 0"
    by (rule step, simp)+
  have "((((((d 7 mod 256 * 256 + d 6 mod 256) * 256 + d 5 mod 256) * 256 + d 4 mod 256) * 256 + d 3 mod 256) * 256 + d 2 mod 256) * 256 +
      d 1 mod 256) * 256 + d 0 mod 256 = d 0"
    unfolding top e ..
  then show ?thesis by (simp only: d_def power_0 power_one_right div_by_1)
qed

lemma read_write_usize: "n < 2 ^ 64 \<Longrightarrow> read_usize (write_usize m a n) a = n"
  using byte_sum [of n] by (simp add: read_usize_def write_usize_def write_bytes_at_def usize_bytes_def unat_of_nat)

lemma read_usize_copied:
  assumes "\<And>k. k < 8 \<Longrightarrow> m (a + k) = m' (b + k)"
  shows "read_usize m a = read_usize m' b"
  using assms [of 0] assms [of 1] assms [of 2] by (simp add: read_usize_def assms)

lemma read_usize_cong: "(\<And>k. k < 8 \<Longrightarrow> m (a + k) = m' (a + k)) \<Longrightarrow> read_usize m a = read_usize m' a"
  by (rule read_usize_copied)

text \<open>A write to a range and a read of a word outside it.\<close>

lemma read_usize_outside: "a + 8 \<le> p \<or> p + length bs \<le> a \<Longrightarrow> read_usize (write_bytes_at m p bs) a = read_usize m a"
  by (rule read_usize_cong) (auto simp: write_bytes_at_def)

lemma read_write_usize_other: "a + 8 \<le> p \<or> p + 8 \<le> a \<Longrightarrow> read_usize (write_usize m p n) a = read_usize m a"
  by (simp add: write_usize_def read_usize_outside)

lemma read_usize_zeros_outside: "a + 8 \<le> p \<or> p + n \<le> a \<Longrightarrow> read_usize (write_zeros m p n) a = read_usize m a"
  by (rule read_usize_cong) (auto simp: write_zeros_def)

lemma write_bytes_nth: "k < length bs \<Longrightarrow> write_bytes_at m p bs (p + k) = bs ! k"
  by (simp add: write_bytes_at_def)

lemma read_bytes_nth: "k < n \<Longrightarrow> read_bytes_at m p n ! k = m (p + k)"
  by (simp add: read_bytes_at_def)

definition put_usize :: "usize \<Rightarrow> usize \<Rightarrow> 'b thread_state \<Rightarrow> 'b thread_state" where
  "put_usize a n t = t\<lparr>mem := write_usize (mem t) a n\<rparr>"

definition put_zeros :: "usize \<Rightarrow> usize \<Rightarrow> 'b thread_state \<Rightarrow> 'b thread_state" where
  "put_zeros p n t = t\<lparr>mem := write_zeros (mem t) p n\<rparr>"

text \<open>\<open>ptr::copy_nonoverlapping\<close>.\<close>

definition copy_bytes :: "usize \<Rightarrow> usize \<Rightarrow> nat \<Rightarrow> 'b thread_state \<Rightarrow> 'b thread_state" where
  "copy_bytes src dst n t = write_mem dst (read_bytes_at (mem t) src n) t"

lemma put_fields [simp]:
  "mem (put_usize a n t) = write_usize (mem t) a n" "mem (put_zeros p k t) = write_zeros (mem t) p k"
  "mem (copy_bytes src dst k t) = write_bytes_at (mem t) dst (read_bytes_at (mem t) src k)"
  by (simp_all add: put_usize_def put_zeros_def copy_bytes_def)

end
