(* ===== verification/Array_Provenance.thy ===== *)
theory Array_Provenance
  imports Word_Memory
begin

text \<open>
  The provenance sidecars of arrays, \<open>crates/thaw-runtime/src/runtime/native_values/array_provenance.rs\<close>:
  a table from the 16-byte array handle to an arena block that holds a capacity word and one record
  pointer per index. The handle holds the address of the buffer, whose first word is the length, and
  the address of the presence mask, 0 when there are no holes. The table is the argument \<open>entries\<close>;
  whether the hash table can grow by one entry is the argument \<open>reserve\<close>.
\<close>

subsection \<open>Operations\<close>

type_synonym sidecars = "(usize \<times> usize) list"

definition array_provenance_hook :: nat where
  "array_provenance_hook = 1"

definition reset_array_provenance :: "bool \<Rightarrow> 'b thread_state \<Rightarrow> sidecars \<Rightarrow> sidecars" where
  "reset_array_provenance traced t entries =
     (if traced then hm_retain (\<lambda>handle _. \<not> was_reclaimed t handle) entries else [])"

definition array_handle_length :: "memory \<Rightarrow> usize \<Rightarrow> usize option" where
  "array_handle_length m handle =
     (if handle = 0 then None
      else (let buffer = read_usize m handle in if buffer = 0 then None else Some (read_usize m buffer)))"

definition array_handle_index_present :: "memory \<Rightarrow> usize \<Rightarrow> nat \<Rightarrow> bool" where
  "array_handle_index_present m handle index =
     (case array_handle_length m handle of
        None \<Rightarrow> False
      | Some len \<Rightarrow>
          if len \<le> index then False
          else (let presence = read_usize m (handle + 8) in
                if presence = 0 then True else read_usize m presence \<le> index \<or> m (presence + 8 + index) = 1))"

definition thaw_array_provenance_get :: "memory \<Rightarrow> sidecars \<Rightarrow> usize \<Rightarrow> nat \<Rightarrow> usize" where
  "thaw_array_provenance_get m entries handle index =
     (if \<not> array_handle_index_present m handle index then 0
      else (case hm_get entries handle of
              None \<Rightarrow> 0
            | Some sidecar \<Rightarrow>
                if read_usize m sidecar \<le> index then 0 else read_usize m (sidecar + 8 + index * 8)))"

definition sidecar_capacity :: "memory \<Rightarrow> usize \<Rightarrow> nat" where
  "sidecar_capacity m previous = (if previous = 0 then 0 else read_usize m previous)"

definition thaw_array_provenance_prepare ::
    "'b bump_ops \<Rightarrow> bool \<Rightarrow> usize \<Rightarrow> nat \<Rightarrow> 'b thread_state \<Rightarrow> sidecars \<Rightarrow> bool \<times> 'b thread_state \<times> sidecars" where
  "thaw_array_provenance_prepare B reserve handle required_capacity t entries =
     (if handle = 0 then (False, t, entries)
      else
        (let t0 = register_metadata_reset_hook (ForeignHook array_provenance_hook) t;
             previous = (case hm_get entries handle of None \<Rightarrow> 0 | Some p \<Rightarrow> p);
             old_capacity = sidecar_capacity (mem t0) previous
         in if required_capacity \<le> old_capacity then (True, t0, entries)
            else (case Option.bind (checked_mul required_capacity 8) (\<lambda>n. checked_add n 8) of
                    None \<Rightarrow> (False, t0, entries)
                  | Some bytes \<Rightarrow>
                      if previous = 0 \<and> \<not> reserve then (False, t0, entries)
                      else
                        (let (nxt, t1) = thaw_arena_alloc B bytes 8 t0 in
                         if nxt = 0 then (False, t1, entries)
                         else
                           (let t2 = put_zeros (nxt + 8) (required_capacity * 8) (put_usize nxt required_capacity t1);
                                t3 = (if previous \<noteq> 0 then copy_bytes (previous + 8) (nxt + 8) (old_capacity * 8) t2 else t2)
                            in (True, replace_reference handle previous nxt t3, hm_insert handle nxt entries))))))"

definition thaw_array_provenance_set :: "usize \<Rightarrow> nat \<Rightarrow> usize \<Rightarrow> sidecars \<Rightarrow> 'b thread_state \<Rightarrow> bool \<times> 'b thread_state" where
  "thaw_array_provenance_set handle index rec entries t =
     (case array_handle_length (mem t) handle of
        None \<Rightarrow> (False, t)
      | Some len \<Rightarrow>
          if len \<le> index then (False, t)
          else if \<not> array_handle_index_present (mem t) handle index \<and> rec \<noteq> 0 then (False, t)
          else
            (let sidecar = (case hm_get entries handle of None \<Rightarrow> 0 | Some p \<Rightarrow> p) in
             if sidecar = 0 then (rec = 0, t)
             else if read_usize (mem t) sidecar \<le> index then (rec = 0, t)
             else (True, put_usize (sidecar + 8 + index * 8) rec t)))"

definition thaw_array_provenance_truncate :: "usize \<Rightarrow> nat \<Rightarrow> sidecars \<Rightarrow> 'b thread_state \<Rightarrow> 'b thread_state" where
  "thaw_array_provenance_truncate handle new_length entries t =
     (if handle = 0 then t
      else (case hm_get entries handle of
              None \<Rightarrow> t
            | Some sidecar \<Rightarrow>
                (let stored = read_usize (mem t) sidecar in
                 if stored \<le> new_length then t
                 else put_zeros (sidecar + 8 + new_length * 8) ((stored - new_length) * 8) t)))"

text \<open>\<open>wrap_array_handle\<close> of \<open>regex.rs\<close>: a handle over a buffer without holes.\<close>

definition wrap_array_handle :: "'b bump_ops \<Rightarrow> usize \<Rightarrow> 'b thread_state \<Rightarrow> usize \<times> 'b thread_state" where
  "wrap_array_handle B buffer t =
     (if buffer = 0 then (0, t)
      else (let (handle, t1) = thaw_arena_alloc B 16 8 t in
            if handle = 0 then (0, t1) else (handle, put_usize (handle + 8) 0 (put_usize handle buffer t1))))"

subsection \<open>Layout\<close>

text \<open>The addresses a reader of one array looks at besides its sidecar, and the addresses of a sidecar.\<close>

definition view_region :: "memory \<Rightarrow> usize \<Rightarrow> usize set" where
  "view_region m h = {h..<h + 16} \<union> {read_usize m h..<read_usize m h + 8} \<union>
     (if read_usize m (h + 8) = 0 then {}
      else {read_usize m (h + 8)..<read_usize m (h + 8) + 8 + read_usize m (read_usize m (h + 8))})"

definition side_region :: "memory \<Rightarrow> usize \<Rightarrow> usize set" where
  "side_region m p = {p..<p + 8 + 8 * read_usize m p}"

text \<open>Sidecars overlap neither each other nor what describes the arrays in \<open>A\<close>.\<close>

definition sidecar_layout :: "memory \<Rightarrow> usize set \<Rightarrow> sidecars \<Rightarrow> bool" where
  "sidecar_layout m A entries \<longleftrightarrow>
     (\<forall>h \<in> A. \<forall>h' \<in> A. \<forall>p'. hm_get entries h' = Some p' \<longrightarrow>
        p' \<noteq> 0 \<and> view_region m h \<inter> side_region m p' = {} \<and>
        (\<forall>p. hm_get entries h = Some p \<and> h \<noteq> h' \<longrightarrow> side_region m p \<inter> side_region m p' = {}))"

lemma layoutD:
  assumes "sidecar_layout m A entries" "h \<in> A" "h' \<in> A" "hm_get entries h' = Some p'"
  shows "p' \<noteq> 0" "view_region m h \<inter> side_region m p' = {}"
    "hm_get entries h = Some p \<Longrightarrow> h \<noteq> h' \<Longrightarrow> side_region m p \<inter> side_region m p' = {}"
  using assms unfolding sidecar_layout_def by blast+

lemma word_agrees:
  assumes "{a..<a + 8} \<subseteq> R" "\<And>x. x \<in> R \<Longrightarrow> m' x = m x"
  shows "read_usize m' a = read_usize m a"
proof (rule read_usize_cong)
  fix k :: nat assume "k < 8"
  then have "a + k \<in> R" using assms(1) by auto
  then show "m' (a + k) = m (a + k)" by (rule assms(2))
qed

lemma view_agrees:
  assumes agree: "\<And>x. x \<in> view_region m h \<Longrightarrow> m' x = m x"
  shows "array_handle_length m' h = array_handle_length m h" "array_handle_index_present m' h i = array_handle_index_present m h i"
    "view_region m' h = view_region m h"
proof -
  let ?b = "read_usize m h" and ?p = "read_usize m (h + 8)"
  have b: "read_usize m' h = ?b" by (rule word_agrees [OF _ agree]) (auto simp: view_region_def)
  have p: "read_usize m' (h + 8) = ?p" by (rule word_agrees [OF _ agree]) (auto simp: view_region_def)
  have len: "read_usize m' ?b = read_usize m ?b" by (rule word_agrees [OF _ agree]) (auto simp: view_region_def)
  have mask: "read_usize m' ?p = read_usize m ?p" if "?p \<noteq> 0"
    by (rule word_agrees [OF _ agree]) (use that in \<open>auto simp: view_region_def\<close>)
  have bit: "m' (?p + 8 + i) = m (?p + 8 + i)" if "?p \<noteq> 0" "i < read_usize m ?p"
    by (rule agree) (use that in \<open>auto simp: view_region_def\<close>)
  show l: "array_handle_length m' h = array_handle_length m h" by (simp add: array_handle_length_def b len Let_def)
  show "array_handle_index_present m' h i = array_handle_index_present m h i"
  proof (cases "?p \<noteq> 0 \<and> i < read_usize m ?p")
    case True
    then show ?thesis by (simp add: array_handle_index_present_def l p mask bit Let_def split: option.split)
  next
    case False
    then show ?thesis using mask by (cases "?p = 0") (simp_all add: array_handle_index_present_def l p Let_def split: option.split)
  qed
  show "view_region m' h = view_region m h" using mask by (simp add: view_region_def b p)
qed

lemma side_agrees:
  assumes "\<And>x. x \<in> side_region m p \<Longrightarrow> m' x = m x"
  shows "read_usize m' p = read_usize m p" "j < read_usize m p \<Longrightarrow> read_usize m' (p + 8 + j * 8) = read_usize m (p + 8 + j * 8)"
    "side_region m' p = side_region m p"
proof -
  show c: "read_usize m' p = read_usize m p" by (rule word_agrees [OF _ assms]) (auto simp: side_region_def)
  show "read_usize m' (p + 8 + j * 8) = read_usize m (p + 8 + j * 8)" if "j < read_usize m p"
    by (rule word_agrees [OF _ assms]) (use that in \<open>auto simp: side_region_def\<close>)
  show "side_region m' p = side_region m p" by (simp add: side_region_def c)
qed

lemma get_agrees:
  assumes "\<And>x. x \<in> view_region m h \<Longrightarrow> m' x = m x"
    and "\<And>p x. hm_get entries h = Some p \<Longrightarrow> x \<in> side_region m p \<Longrightarrow> m' x = m x"
  shows "thaw_array_provenance_get m' entries h j = thaw_array_provenance_get m entries h j"
proof (cases "hm_get entries h")
  case None
  then show ?thesis by (simp add: thaw_array_provenance_get_def view_agrees [OF assms(1)])
next
  case (Some p)
  note S = side_agrees [of m p m', OF assms(2) [OF Some]]
  show ?thesis using S(2) [of j] by (simp add: thaw_array_provenance_get_def view_agrees [OF assms(1)] Some S(1))
qed

subsection \<open>Properties\<close>

lemma slot_inside: "i < read_usize m p \<Longrightarrow> {p + 8 + i * 8..<p + 8 + i * 8 + 8} \<subseteq> side_region m p"
  by (auto simp: side_region_def)

lemma write_slot:
  assumes lay: "sidecar_layout m A entries" and h: "h \<in> A" "hm_get entries h = Some p" "i < read_usize m p" and r: "rec < 2 ^ 64"
    and h': "h' \<in> A" and m': "m' = write_usize m (p + 8 + i * 8) rec"
  shows "thaw_array_provenance_get m' entries h' j =
    (if h' = h \<and> j = i then (if array_handle_index_present m h i then rec else 0) else thaw_array_provenance_get m entries h' j)"
proof -
  have out: "m' x = m x" if "x \<notin> {p + 8 + i * 8..<p + 8 + i * 8 + 8}" for x
    using that by (auto simp: m' write_usize_def write_bytes_at_def)
  have view: "m' x = m x" if "x \<in> view_region m h'" for x
    using that layoutD(2) [OF lay h' h(1,2)] slot_inside [OF h(3)] by (intro out) blast
  show ?thesis
  proof (cases "h' = h")
    case False
    have "m' x = m x" if "hm_get entries h' = Some q" "x \<in> side_region m q" for q x
      using that layoutD(3) [OF lay h' h(1,2) that(1) False] slot_inside [OF h(3)] by (intro out) blast
    then show ?thesis using get_agrees [OF view] False by simp
  next
    case True
    have cap: "read_usize m' p = read_usize m p" unfolding m' by (rule read_write_usize_other) simp
    have slot: "read_usize m' (p + 8 + k * 8) = (if k = i then rec else read_usize m (p + 8 + k * 8))" for k
      unfolding m' using r by (cases k i rule: linorder_cases) (simp_all add: read_write_usize read_write_usize_other)
    have same: "array_handle_index_present m' h k = array_handle_index_present m h k" for k
      by (rule view_agrees(2)) (use view True in simp)
    show ?thesis using True h(2,3) by (cases "j = i") (simp_all add: thaw_array_provenance_get_def same cap slot)
  qed
qed

text \<open>Recording provenance behaves as an update. When \<open>thaw_array_provenance_set\<close> reports success, the index
  reads back the record, and every other index, and every index of every other array, reads what it
  read before.\<close>

theorem provenance_get_set:
  assumes "sidecar_layout (mem t) A entries" "h \<in> A" "rec < 2 ^ 64" "thaw_array_provenance_set h i rec entries t = (True, t')"
  shows "\<forall>h' \<in> A. \<forall>j. thaw_array_provenance_get (mem t') entries h' j =
    (if h' = h \<and> j = i then rec else thaw_array_provenance_get (mem t) entries h' j)"
proof (intro ballI allI)
  fix h' j assume h': "h' \<in> A"
  have absent: "\<not> array_handle_index_present (mem t) h i \<Longrightarrow> rec = 0"
    using assms(4) by (auto simp: thaw_array_provenance_set_def split: option.splits if_splits)
  show "thaw_array_provenance_get (mem t') entries h' j = (if h' = h \<and> j = i then rec else thaw_array_provenance_get (mem t) entries h' j)"
  proof (cases "\<exists>p. hm_get entries h = Some p \<and> i < read_usize (mem t) p")
    case True
    then obtain p where p: "hm_get entries h = Some p" "i < read_usize (mem t) p" by blast
    then have "mem t' = write_usize (mem t) (p + 8 + i * 8) rec"
      using assms(4) layoutD(1) [OF assms(1,2,2) p(1)] by (auto simp: thaw_array_provenance_set_def split: option.splits if_splits)
    from write_slot [OF assms(1,2) p assms(3) h' this] show ?thesis using absent by simp
  next
    case False
    then have "t' = t" "rec = 0" using assms(4)
      by (auto simp: thaw_array_provenance_set_def not_less split: option.splits if_splits)
    then show ?thesis using False by (auto simp: thaw_array_provenance_get_def not_less split: option.split)
  qed
qed

text \<open>The allocator hands out memory that no array or sidecar in use occupies.\<close>

definition block_fresh :: "'b bump_ops \<Rightarrow> 'b thread_state \<Rightarrow> usize set \<Rightarrow> sidecars \<Rightarrow> bool" where
  "block_fresh B t A entries \<longleftrightarrow>
     (\<forall>n q a. bump_try_alloc B (arena t) n 8 = Some (q, a) \<longrightarrow>
        (\<forall>h \<in> A. {q..<q + n} \<inter> view_region (mem t) h = {} \<and>
           (\<forall>p. hm_get entries h = Some p \<longrightarrow> {q..<q + n} \<inter> side_region (mem t) p = {})))"

lemma alloc_bump: "thaw_arena_alloc B n align t = (q, t1) \<Longrightarrow> q \<noteq> 0 \<Longrightarrow> \<exists>a. bump_try_alloc B (arena t) n align = Some (q, a)"
  by (auto simp: thaw_arena_alloc_def Let_def split: if_splits option.splits)

text \<open>The new sidecar: its capacity word, its slots, and the memory outside it.\<close>

definition sidecar_filled :: "memory \<Rightarrow> memory \<Rightarrow> usize \<Rightarrow> usize \<Rightarrow> nat \<Rightarrow> bool" where
  "sidecar_filled m m' previous nxt n \<longleftrightarrow> sidecar_capacity m previous \<le> n \<and>
     (\<forall>x. x \<notin> {nxt..<nxt + 8 + 8 * n} \<longrightarrow> m' x = m x) \<and> read_usize m' nxt = n \<and>
     (\<forall>j < n. read_usize m' (nxt + 8 + j * 8) = (if j < sidecar_capacity m previous then read_usize m (previous + 8 + j * 8) else 0))"

lemma fill_zeros:
  assumes "n < 2 ^ 64" "m' = write_zeros (write_usize m nxt n) (nxt + 8) (n * 8)"
  shows "\<forall>x. x \<notin> {nxt..<nxt + 8 + 8 * n} \<longrightarrow> m' x = m x" "read_usize m' nxt = n" "\<forall>j < n. read_usize m' (nxt + 8 + j * 8) = 0"
proof -
  show "\<forall>x. x \<notin> {nxt..<nxt + 8 + 8 * n} \<longrightarrow> m' x = m x" by (auto simp: assms(2) write_zeros_def write_usize_def write_bytes_at_def)
  show "read_usize m' nxt = n" unfolding assms(2) using assms(1) by (simp add: read_usize_zeros_outside read_write_usize)
  show "\<forall>j < n. read_usize m' (nxt + 8 + j * 8) = 0" unfolding assms(2) by (auto intro!: read_usize_zeros)
qed

lemma fill_copy:
  assumes z: "\<forall>x. x \<notin> {nxt..<nxt + 8 + 8 * n} \<longrightarrow> m2 x = m x" "read_usize m2 nxt = n" "\<forall>j < n. read_usize m2 (nxt + 8 + j * 8) = 0"
    and c: "c \<le> n" "{nxt..<nxt + 8 + 8 * n} \<inter> {previous..<previous + 8 + 8 * c} = {}"
    and m3: "m3 = write_bytes_at m2 (nxt + 8) (read_bytes_at m2 (previous + 8) (c * 8))"
  shows "\<forall>x. x \<notin> {nxt..<nxt + 8 + 8 * n} \<longrightarrow> m3 x = m x" "read_usize m3 nxt = n"
    "\<forall>j < n. read_usize m3 (nxt + 8 + j * 8) = (if j < c then read_usize m (previous + 8 + j * 8) else 0)"
proof -
  show "\<forall>x. x \<notin> {nxt..<nxt + 8 + 8 * n} \<longrightarrow> m3 x = m x" using z(1) c(1) by (auto simp: m3 write_bytes_at_def)
  show "read_usize m3 nxt = n" unfolding m3 using z(2) by (simp add: read_usize_outside)
  show "\<forall>j < n. read_usize m3 (nxt + 8 + j * 8) = (if j < c then read_usize m (previous + 8 + j * 8) else 0)"
  proof (intro allI impI)
    fix j assume j: "j < n"
    show "read_usize m3 (nxt + 8 + j * 8) = (if j < c then read_usize m (previous + 8 + j * 8) else 0)"
    proof (cases "j < c")
      case True
      have "m3 (nxt + 8 + j * 8 + k) = m (previous + 8 + j * 8 + k)" if k: "k < 8" for k
      proof -
        have idx: "j * 8 + k < c * 8" using True k by linarith
        have "m3 (nxt + 8 + (j * 8 + k)) = read_bytes_at m2 (previous + 8) (c * 8) ! (j * 8 + k)"
          unfolding m3 by (rule write_bytes_nth) (use idx in simp)
        also have "\<dots> = m2 (previous + 8 + (j * 8 + k))" by (rule read_bytes_nth [OF idx])
        also have "\<dots> = m (previous + 8 + (j * 8 + k))"
        proof -
          have "previous + 8 + (j * 8 + k) \<in> {previous..<previous + 8 + 8 * c}" using idx by simp
          then have "previous + 8 + (j * 8 + k) \<notin> {nxt..<nxt + 8 + 8 * n}" using c(2) by blast
          then show ?thesis using z(1) by blast
        qed
        finally show ?thesis by (simp only: add.assoc)
      qed
      from read_usize_copied [of m3 "nxt + 8 + j * 8" m "previous + 8 + j * 8", OF this] True show ?thesis by simp
    next
      case False
      then have "read_usize m3 (nxt + 8 + j * 8) = read_usize m2 (nxt + 8 + j * 8)"
        unfolding m3 by (intro read_usize_outside) simp
      then show ?thesis using False z(3) j by simp
    qed
  qed
qed

lemma prepare_cases:
  assumes lay: "sidecar_layout (mem t) A entries" and h: "h \<in> A" and fresh: "block_fresh B t A entries"
    and p: "thaw_array_provenance_prepare B reserve h n t entries = (True, t', entries')"
  obtains (kept) "mem t' = mem t" "entries' = entries" "n \<le> sidecar_capacity (mem t) (case hm_get entries h of None \<Rightarrow> 0 | Some q \<Rightarrow> q)"
  | (grown) nxt where "nxt \<noteq> 0" "entries' = hm_insert h nxt entries"
      "sidecar_filled (mem t) (mem t') (case hm_get entries h of None \<Rightarrow> 0 | Some q \<Rightarrow> q) nxt n"
      "\<forall>h' \<in> A. {nxt..<nxt + 8 + 8 * n} \<inter> view_region (mem t) h' = {} \<and>
         (\<forall>p. hm_get entries h' = Some p \<longrightarrow> {nxt..<nxt + 8 + 8 * n} \<inter> side_region (mem t) p = {})"
proof -
  let ?t0 = "register_metadata_reset_hook (ForeignHook array_provenance_hook) t"
  let ?prev = "case hm_get entries h of None \<Rightarrow> 0 | Some q \<Rightarrow> q"
  let ?c = "sidecar_capacity (mem t) ?prev"
  have t0: "mem ?t0 = mem t" "arena ?t0 = arena t" by (simp_all add: register_metadata_reset_hook_def)
  show ?thesis
  proof (cases "n \<le> ?c")
    case True
    then show ?thesis using p kept by (auto simp: thaw_array_provenance_prepare_def Let_def t0 split: if_splits)
  next
    case False
    let ?bytes = "n * 8 + 8"
    obtain nxt t1 where a: "thaw_arena_alloc B ?bytes 8 ?t0 = (nxt, t1)" by (metis prod.exhaust)
    let ?t2 = "put_zeros (nxt + 8) (n * 8) (put_usize nxt n t1)"
    let ?t3 = "if ?prev \<noteq> 0 then copy_bytes (?prev + 8) (nxt + 8) (?c * 8) ?t2 else ?t2"
    have facts: "nxt \<noteq> 0" "entries' = hm_insert h nxt entries" "t' = replace_reference h ?prev nxt ?t3" "n * 8 < usize_limit"
      using p False a by (auto simp: thaw_array_provenance_prepare_def Let_def t0 checked_mul_def checked_add_def
          split: if_splits option.splits)
    have n: "n < 2 ^ 64" using facts(4) by (simp add: usize_limit_def)
    obtain a' where "bump_try_alloc B (arena t) ?bytes 8 = Some (nxt, a')" using alloc_bump [OF a facts(1)] t0 by auto
    then have disj: "\<forall>h' \<in> A. {nxt..<nxt + 8 + 8 * n} \<inter> view_region (mem t) h' = {} \<and>
         (\<forall>p. hm_get entries h' = Some p \<longrightarrow> {nxt..<nxt + 8 + 8 * n} \<inter> side_region (mem t) p = {})"
      using fresh by (fastforce simp: block_fresh_def ac_simps)
    have m1: "mem t1 x = mem t x" if "x \<notin> {nxt..<nxt + 8 + 8 * n}" for x
      using alloc_memory [OF a, of x] that t0 by auto
    note Z = fill_zeros [OF n, of "mem ?t2" "mem t1" nxt]
    have z1: "\<forall>x. x \<notin> {nxt..<nxt + 8 + 8 * n} \<longrightarrow> mem ?t2 x = mem t x" using Z(1) m1 by simp
    have z: "read_usize (mem ?t2) nxt = n" "\<forall>j < n. read_usize (mem ?t2) (nxt + 8 + j * 8) = 0" using Z(2,3) by simp_all
    have mt': "mem t' = mem ?t3" using facts(3) by (simp add: replace_reference_def Let_def)
    have "sidecar_filled (mem t) (mem t') ?prev nxt n"
    proof (cases "?prev = 0")
      case True
      then show ?thesis using z1 z by (simp add: sidecar_filled_def mt' sidecar_capacity_def)
    next
      case prev: False
      then have "hm_get entries h = Some ?prev" by (auto split: option.splits)
      then have "{nxt..<nxt + 8 + 8 * n} \<inter> {?prev..<?prev + 8 + 8 * ?c} = {}"
        using disj h prev by (auto simp: side_region_def sidecar_capacity_def)
      from fill_copy [OF z1 z _ this] show ?thesis using False prev by (simp add: sidecar_filled_def mt')
    qed
    then show ?thesis using grown facts(1,2) disj by blast
  qed
qed

lemma grown_get:
  assumes "sidecar_filled m m' (case hm_get entries h of None \<Rightarrow> 0 | Some q \<Rightarrow> q) nxt n"
    and view: "\<And>x. x \<in> view_region m h \<Longrightarrow> m' x = m x" and lay: "\<And>p. hm_get entries h = Some p \<Longrightarrow> p \<noteq> 0"
  shows "thaw_array_provenance_get m' (hm_insert h nxt entries) h j = thaw_array_provenance_get m entries h j"
proof (cases "hm_get entries h")
  case None
  then show ?thesis using assms(1)
    by (auto simp: thaw_array_provenance_get_def view_agrees [OF view] sidecar_filled_def sidecar_capacity_def)
next
  case (Some p)
  then show ?thesis using assms(1) lay
    by (auto simp: thaw_array_provenance_get_def view_agrees [OF view] sidecar_filled_def sidecar_capacity_def)
qed

lemma grown_layout:
  assumes lay: "sidecar_layout m A entries" and nz: "nxt \<noteq> 0"
    and vr: "\<And>h'. h' \<in> A \<Longrightarrow> view_region m' h' = view_region m h'"
    and old: "\<And>h' q. h' \<in> A \<Longrightarrow> hm_get entries h' = Some q \<Longrightarrow> side_region m' q = side_region m q"
    and new: "side_region m' nxt = R"
    and disj: "\<forall>h' \<in> A. R \<inter> view_region m h' = {} \<and> (\<forall>p. hm_get entries h' = Some p \<longrightarrow> R \<inter> side_region m p = {})"
  shows "sidecar_layout m' A (hm_insert h nxt entries)"
  unfolding sidecar_layout_def
proof (intro ballI allI impI)
  fix h1 h2 p2 assume A: "h1 \<in> A" "h2 \<in> A" and p2: "hm_get (hm_insert h nxt entries) h2 = Some p2"
  have R: "R \<inter> view_region m h1 = {}" "R \<inter> side_region m q = {}" if "h' \<in> A" "hm_get entries h' = Some q" for h' q
    using disj A that by blast+
  have sides: "side_region m' p \<inter> side_region m' p2 = {}" if p1: "hm_get (hm_insert h nxt entries) h1 = Some p" and ne: "h1 \<noteq> h2" for p
  proof -
    consider "h1 = h" "p = nxt" "hm_get entries h2 = Some p2" | "h2 = h" "p2 = nxt" "hm_get entries h1 = Some p"
      | "hm_get entries h1 = Some p" "hm_get entries h2 = Some p2"
      using p1 ne p2 by (cases "h1 = h"; cases "h2 = h") simp_all
    then show ?thesis
    proof cases
      case 1
      then show ?thesis using R(2) [OF A(2)] old [OF A(2)] new by simp
    next
      case 2
      then show ?thesis using R(2) [OF A(1)] old [OF A(1)] new by (simp add: Int_commute)
    next
      case 3
      then show ?thesis using layoutD(3) [OF lay A 3(2) 3(1) ne] old [OF A(1)] old [OF A(2)] by simp
    qed
  qed
  have "p2 \<noteq> 0 \<and> view_region m' h1 \<inter> side_region m' p2 = {}"
  proof (cases "h2 = h")
    case True
    then show ?thesis using p2 nz vr [OF A(1)] new disj A(1) by (auto simp: Int_commute)
  next
    case False
    then have e: "hm_get entries h2 = Some p2" using p2 by simp
    show ?thesis using layoutD(1,2) [OF lay A e] vr [OF A(1)] old [OF A(2) e] by simp
  qed
  then show "p2 \<noteq> 0 \<and> view_region m' h1 \<inter> side_region m' p2 = {} \<and>
      (\<forall>p. hm_get (hm_insert h nxt entries) h1 = Some p \<and> h1 \<noteq> h2 \<longrightarrow> side_region m' p \<inter> side_region m' p2 = {})"
    using sides by blast
qed

text \<open>Reserving provenance is invisible and sufficient: a successful \<open>thaw_array_provenance_prepare\<close> changes no record
  of any array, keeps the sidecars apart, and afterwards recording any record at any present index
  below the reserved capacity succeeds.\<close>

theorem provenance_prepare:
  assumes lay: "sidecar_layout (mem t) A entries" and h: "h \<in> A" and fresh: "block_fresh B t A entries"
    and p: "thaw_array_provenance_prepare B reserve h n t entries = (True, t', entries')"
  shows "(\<forall>h' \<in> A. \<forall>j. thaw_array_provenance_get (mem t') entries' h' j = thaw_array_provenance_get (mem t) entries h' j) \<and>
    sidecar_layout (mem t') A entries' \<and>
    (\<forall>i rec. i < n \<and> array_handle_index_present (mem t) h i \<longrightarrow> fst (thaw_array_provenance_set h i rec entries' t'))"
proof (cases rule: prepare_cases [OF assms, case_names kept grown])
  case kept
  then show ?thesis using lay layoutD(1) [OF lay h h]
    by (auto simp: thaw_array_provenance_set_def array_handle_index_present_def sidecar_capacity_def Let_def
        split: option.splits if_splits)
next
  case (grown nxt)
  let ?prev = "case hm_get entries h of None \<Rightarrow> 0 | Some q \<Rightarrow> q"
  let ?R = "{nxt..<nxt + 8 + 8 * n}"
  have out: "mem t' x = mem t x" if "x \<notin> ?R" for x using grown(3) that by (simp add: sidecar_filled_def)
  have view: "mem t' x = mem t x" if "h' \<in> A" "x \<in> view_region (mem t) h'" for h' x using that grown(4) by (intro out) blast
  have side: "mem t' x = mem t x" if "h' \<in> A" "hm_get entries h' = Some q" "x \<in> side_region (mem t) q" for h' q x
    using that grown(4) by (intro out) blast
  have new: "side_region (mem t') nxt = ?R" using grown(3) by (simp add: side_region_def sidecar_filled_def)
  have old: "side_region (mem t') q = side_region (mem t) q" if "h' \<in> A" "hm_get entries h' = Some q" for h' q
    by (rule side_agrees(3)) (rule side [OF that])
  have vr: "view_region (mem t') h' = view_region (mem t) h'" if "h' \<in> A" for h' by (rule view_agrees(3)) (rule view [OF that])
  show ?thesis
  proof (intro conjI ballI allI impI)
    fix h' j assume h': "h' \<in> A"
    show "thaw_array_provenance_get (mem t') entries' h' j = thaw_array_provenance_get (mem t) entries h' j"
    proof (cases "h' = h")
      case True
      show ?thesis unfolding True grown(2)
        by (rule grown_get [OF grown(3) view [OF h] layoutD(1) [OF lay h h]])
    next
      case False
      have "thaw_array_provenance_get (mem t') entries' h' j = thaw_array_provenance_get (mem t') entries h' j"
        using False by (simp add: thaw_array_provenance_get_def grown(2))
      also have "\<dots> = thaw_array_provenance_get (mem t) entries h' j" by (rule get_agrees [OF view [OF h'] side [OF h']])
      finally show ?thesis .
    qed
  next
    show "sidecar_layout (mem t') A entries'"
      unfolding grown(2) by (rule grown_layout [OF lay grown(1) vr old new grown(4)])
  next
    fix i rec assume i: "i < n \<and> array_handle_index_present (mem t) h i"
    have "array_handle_index_present (mem t') h i" using i view_agrees(2) [OF view [OF h]] by simp
    then show "fst (thaw_array_provenance_set h i rec entries' t')" using i grown(1,2,3)
      by (auto simp: thaw_array_provenance_set_def array_handle_index_present_def sidecar_filled_def Let_def split: option.splits if_splits)
  qed
qed

subsection \<open>An array with two elements\<close>

text \<open>The handle at 16 points at the buffer at 32, whose length is 2; there is no mask. The allocator starts at 64.\<close>

definition line_bump :: "nat bump_ops" where
  "line_bump = \<lparr>bump_new = 64, bump_try_alloc = (\<lambda>a n align. Some (64 + a, a + n)), bump_reset = id\<rparr>"

definition two_elements :: "nat thread_state" where
  "two_elements = (init_state line_bump (write_usize (write_usize (\<lambda>_. 0) 16 32) 32 2))"

lemma two_elements_words: "read_usize (mem two_elements) 16 = 32" "read_usize (mem two_elements) 24 = 0" "read_usize (mem two_elements) 32 = 2"
  by (simp_all add: two_elements_def init_state_def read_write_usize_other read_write_usize, simp_all add: read_usize_def)

lemma two_elements_view: "view_region (mem two_elements) 16 = {16..<40}"
  by (auto simp: view_region_def two_elements_words)

lemma two_elements_layout: "sidecar_layout (mem two_elements) {16} []"
  by (simp add: sidecar_layout_def)

lemma two_elements_fresh: "block_fresh line_bump two_elements {16} []"
  by (simp add: block_fresh_def two_elements_view) (auto simp: line_bump_def)

lemma word_alignment: "is_power_of_two 8"
  unfolding is_power_of_two_def list_ex_iff by (rule bexI [of _ 3]) simp_all

lemma two_elements_prepared:
  obtains t entries where "thaw_array_provenance_prepare line_bump True 16 2 two_elements [] = (True, t, entries)"
proof -
  have "fst (thaw_array_provenance_prepare line_bump True 16 2 two_elements [])"
    by (simp add: thaw_array_provenance_prepare_def sidecar_capacity_def checked_mul_def checked_add_def usize_limit_def
        thaw_arena_alloc_def layout_ok_def line_bump_def Let_def word_alignment register_metadata_reset_hook_def two_elements_def
        init_state_def)
  then show ?thesis using that by (metis prod.collapse)
qed

theorem provenance_prepare_witness:
  "\<exists>t entries. thaw_array_provenance_prepare line_bump True 16 2 two_elements [] = (True, t, entries) \<and>
     fst (thaw_array_provenance_set 16 1 99 entries t)"
proof -
  obtain t entries where p: "thaw_array_provenance_prepare line_bump True 16 2 two_elements [] = (True, t, entries)"
    by (rule two_elements_prepared)
  have "array_handle_index_present (mem two_elements) 16 1"
    by (simp add: array_handle_index_present_def array_handle_length_def two_elements_words)
  then show ?thesis using provenance_prepare [OF two_elements_layout _ two_elements_fresh p] p by auto
qed

text \<open>The same array with a sidecar of capacity 2 at 64.\<close>

definition with_sidecar :: "nat thread_state" where
  "with_sidecar = two_elements\<lparr>mem := write_usize (mem two_elements) 64 2\<rparr>"

lemma with_sidecar_words:
  "read_usize (mem with_sidecar) 16 = 32" "read_usize (mem with_sidecar) 24 = 0" "read_usize (mem with_sidecar) 32 = 2"
  "read_usize (mem with_sidecar) 64 = 2"
  using two_elements_words by (simp_all add: with_sidecar_def read_write_usize_other read_write_usize)

lemma with_sidecar_layout: "sidecar_layout (mem with_sidecar) {16} [(16, 64)]"
  by (auto simp: sidecar_layout_def view_region_def side_region_def with_sidecar_words hm_get_def split: if_splits)

theorem provenance_get_set_witness:
  "\<exists>t. thaw_array_provenance_set 16 1 99 [(16, 64)] with_sidecar = (True, t) \<and> thaw_array_provenance_get (mem t) [(16, 64)] 16 1 = 99"
proof -
  obtain t where t: "thaw_array_provenance_set 16 1 99 [(16, 64)] with_sidecar = (True, t)"
    by (simp add: thaw_array_provenance_set_def array_handle_length_def array_handle_index_present_def with_sidecar_words hm_get_def)
  from provenance_get_set [OF with_sidecar_layout _ _ this] have "thaw_array_provenance_get (mem t) [(16, 64)] 16 1 = 99" by simp
  with t show ?thesis by blast
qed

end
