(* ===== verification/Promise_State.thy ===== *)
theory Promise_State
  imports Timers Array_Provenance Error_Wire
begin

text \<open>
  Promises, \<open>crates/thaw-runtime/src/runtime/promises.rs\<close>, and the queue of ready continuations of
  \<open>crates/thaw-runtime/src/lib.rs\<close>. The runtime state extends the timer state, which holds the
  arena and the native strings, so pins and reference edges are the arena's own operations. Promise
  boxes and callback frames live in two heaps from addresses; dereferencing an address that holds
  no box is outside the contract of the exported functions and takes the branch of a null pointer.
  A result of type \<open>u8\<close> that is 0 or 1 is a \<^typ>\<open>bool\<close>.

  What the runtime gets from outside is a record \<open>host\<close>: the address of a new box, the job barrier
  of the JavaScript engine, generated callbacks, the number formatting of the runtime and the
  addresses of the static error texts, the bump allocator and whether a hash table can grow.
\<close>

subsection \<open>Data\<close>

record exception_provenance =
  pv_original :: usize
  pv_native_text :: usize
  pv_aggregate_errors :: usize
  pv_tag :: nat
  pv_f64 :: u64
  pv_i64 :: u64
  pv_bool :: nat
  pv_object :: usize
  pv_native_layout :: usize

datatype resume_fn =
    Resume_code nat
  | Resume_detached
  | Resume_chain
  | Resume_adopt
  | Resume_finally
  | Resume_finally_adopt
  | Resume_race
  | Resume_all
  | Resume_any
  | Resume_all_settled

record promise_subscription =
  sb_resume :: resume_fn
  sb_frame :: usize
  sb_frame_root :: usize
  sb_payload_roots :: "usize list"

record thaw_promise =
  pr_result :: "usize option"
  pr_fulfilled_provenance :: usize
  pr_rejection_text :: "bytes option"
  pr_rejected :: bool
  pr_tag :: nat
  pr_f64 :: u64
  pr_i64 :: u64
  pr_bool :: bool
  pr_object :: usize
  pr_native :: usize
  pr_aggregate_errors :: usize
  pr_handled :: bool
  pr_reported_unhandled :: bool
  pr_subscribers :: "promise_subscription list"
  pr_internal_references :: nat
  pr_references :: nat
  pr_external_root :: "usize option"

record ready_continuation =
  rc_subscription :: promise_subscription
  rc_result :: usize
  rc_result_root :: usize
  rc_js_barrier :: nat

record finally_adopt_state =
  fa_output :: usize
  fa_input :: usize
  fa_original :: usize
  fa_original_rejected :: bool
  fa_tag :: nat
  fa_f64 :: u64
  fa_i64 :: u64
  fa_bool :: bool
  fa_object :: usize
  fa_native :: usize
  fa_aggregate_errors :: usize
  fa_provenance :: usize
  fa_text :: "bytes option"
  fa_roots :: "(usize \<times> usize) list"
  fa_cancelled :: bool

record promise_race_state =
  ra_output :: usize
  ra_remaining :: nat
  ra_settled :: bool
  ra_join_counted :: bool

record detached_promise =
  dt_promise :: usize
  dt_pending_exception :: usize
  dt_owned_report :: bool
  dt_queue_unhandled :: bool

record promise_all_state =
  al_output :: usize
  al_remaining :: nat
  al_rejected :: bool
  al_result :: usize
  al_result_slot :: usize
  al_result_handle :: usize
  al_result_root :: "usize option"
  al_join_counted :: bool
  al_sizes :: "nat list"
  al_offsets :: "nat list"

record any_reason =
  an_tag :: nat
  an_payload :: usize

record promise_any_state =
  ay_output :: usize
  ay_remaining :: nat
  ay_fulfilled :: bool
  ay_reasons :: "any_reason option list"
  ay_reason_roots :: "(usize \<times> usize) list"
  ay_output_root :: "usize option"
  ay_cancelled :: bool

record promise_all_settled_state =
  se_output :: usize
  se_remaining :: nat
  se_result_slot :: usize
  se_result :: usize
  se_objects :: usize
  se_element_size :: nat
  se_object_stride :: nat
  se_cancelled :: bool

datatype boxed =
    Detached_box detached_promise
  | Chain_box usize usize "(nat \<times> usize) option" "(nat \<times> usize) option"
  | Adopt_box usize usize
  | Finally_box usize usize nat usize
  | Finally_adopt_box finally_adopt_state
  | Race_box promise_race_state
  | Race_child_box usize usize
  | All_box promise_all_state
  | All_child_box usize usize "nat list"
  | Any_box promise_any_state
  | Any_child_box usize usize "nat list"
  | Settled_box promise_all_settled_state
  | Settled_child_box usize usize "nat list"

record unhandled_rejection =
  uh_error :: usize
  uh_text :: "bytes option"
  uh_diagnostic :: bytes
  uh_root :: "usize option"

record promise_fd_wait =
  fw_fd :: int
  fw_interests :: nat
  fw_promise :: usize
  fw_deadline :: "nat option"

record fd_watcher =
  wa_id :: nat
  wa_fd :: int
  wa_interests :: nat
  wa_callback :: nat
  wa_context :: usize
  wa_root :: usize

text \<open>What goes to standard error: an uncaught error by its pointer, which the inspector of thaw-std renders, or the
  description of an unhandled rejection with its reason.\<close>

datatype report_line = Uncaught_line usize | Rejection_line bytes

text \<open>The cells of the event loop: watchers, reporters (numbers name generated code), the latch of a failed report, the
  count of reports, the deadline of the invocation with its budget, and what was written to standard error.\<close>

record loop_cells =
  lc_watchers :: "fd_watcher list"
  lc_next_watcher :: nat
  lc_reporter :: "nat option"
  lc_reporter_result :: "nat option"
  lc_reporter_text :: "nat option"
  lc_handled_reporter :: "nat option"
  lc_handled_result :: "nat option"
  lc_failure :: bool
  lc_activity :: nat
  lc_deadline :: "(nat \<times> nat) option"
  lc_reported :: "report_line list"

record 'b runtime = "'b timer_state" +
  rt_promises :: "usize \<rightharpoonup> thaw_promise"
  rt_boxes :: "usize \<rightharpoonup> boxed"
  rt_slots :: "usize \<Rightarrow> usize"
  rt_reason_owners :: "(usize \<times> usize) list"
  rt_slot_owners :: "(usize \<times> (usize \<times> usize)) list"
  rt_ready :: "ready_continuation list"
  rt_promise_timers :: "(nat \<times> usize) list"
  rt_fd_waits :: "promise_fd_wait list"
  rt_active :: "usize list"
  rt_active_joins :: nat
  rt_pending_handled :: nat
  rt_orphaned :: "unhandled_rejection list"
  rt_detached_report_text :: "usize set"
  rt_finally_adopt_states :: "usize list"
  rt_race_states :: "usize list"
  rt_all_states :: "usize list"
  rt_any_states :: "usize list"
  rt_settled_states :: "usize list"
  rt_sidecars :: sidecars
  rt_cells :: loop_cells

datatype static_text =
    PROMISE_ALL_INVALID_ERROR
  | PROMISE_RACE_INVALID_ERROR
  | PROMISE_CYCLE_ERROR
  | INVALID_FD_ERROR
  | FD_TIMEOUT_ERROR
  | INVOCATION_TIMEOUT_ERROR
  | PROMISE_ANY_REJECTED_ERROR
  | PROMISE_SETTLED_FULFILLED
  | PROMISE_SETTLED_REJECTED
  | PROMISE_SETTLED_EMPTY_REASON
  | UNHANDLED_OPAQUE_TEXT

record 'b host =
  ho_box :: "'b runtime \<Rightarrow> usize"
  ho_barrier :: "'b runtime \<Rightarrow> nat"
  ho_drain :: "nat \<Rightarrow> 'b runtime \<Rightarrow> 'b runtime"
  ho_resume :: "nat \<Rightarrow> usize \<Rightarrow> usize \<Rightarrow> 'b runtime \<Rightarrow> 'b runtime"
  ho_transform :: "nat \<Rightarrow> usize \<Rightarrow> usize \<Rightarrow> usize \<Rightarrow> usize \<Rightarrow> 'b runtime \<Rightarrow> 'b runtime"
  ho_finally :: "nat \<Rightarrow> usize \<Rightarrow> usize \<Rightarrow> usize \<Rightarrow> usize \<Rightarrow> bool \<Rightarrow> 'b runtime \<Rightarrow> 'b runtime"
  ho_number_text :: "u64 \<Rightarrow> bytes"
  ho_bigint_text :: "u64 \<Rightarrow> bytes"
  ho_number_display :: "usize \<Rightarrow> bytes"
  ho_static :: "static_text \<Rightarrow> usize"
  ho_bump :: "'b bump_ops"
  ho_reserve :: "'b runtime \<Rightarrow> bool"

subsection \<open>Access\<close>

definition on_thread :: "('b thread_state \<Rightarrow> 'b thread_state) \<Rightarrow> 'b runtime \<Rightarrow> 'b runtime" where
  "on_thread f s = s\<lparr>ts_native := (ts_native s)\<lparr>thr := f (thr (ts_native s))\<rparr>\<rparr>"

definition arena_alloc :: "'b host \<Rightarrow> nat \<Rightarrow> nat \<Rightarrow> 'b runtime \<Rightarrow> usize \<times> 'b runtime" where
  "arena_alloc H n align s = (let (p, t) = thaw_arena_alloc (ho_bump H) n align (thr (ts_native s)) in (p, on_thread (\<lambda>_. t) s))"

definition memory_of :: "'b runtime \<Rightarrow> memory" where
  "memory_of s = mem (thr (ts_native s))"

definition replace_ref :: "usize \<Rightarrow> usize \<Rightarrow> usize \<Rightarrow> 'b runtime \<Rightarrow> 'b runtime" where
  "replace_ref owner previous nxt s =
     s\<lparr>ts_native := (ts_native s)\<lparr>thr := replace_reference owner previous nxt (thr (ts_native s))\<rparr>\<rparr>"

definition forget_refs :: "usize \<Rightarrow> 'b runtime \<Rightarrow> 'b runtime" where
  "forget_refs owner s = s\<lparr>ts_native := (ts_native s)\<lparr>thr := forget_references owner (thr (ts_native s))\<rparr>\<rparr>"

definition put_promise :: "usize \<Rightarrow> thaw_promise \<Rightarrow> 'b runtime \<Rightarrow> 'b runtime" where
  "put_promise p pr s = s\<lparr>rt_promises := (rt_promises s)(p \<mapsto> pr)\<rparr>"

text \<open>Writing a field of a promise that is known to be live.\<close>

definition update_promise :: "usize \<Rightarrow> (thaw_promise \<Rightarrow> thaw_promise) \<Rightarrow> 'b runtime \<Rightarrow> 'b runtime" where
  "update_promise p f s = (case rt_promises s p of None \<Rightarrow> s | Some pr \<Rightarrow> put_promise p (f pr) s)"

definition native_text :: "'b runtime \<Rightarrow> usize \<Rightarrow> bytes" where
  "native_text s p = (case native_bytes (ts_native s) p of None \<Rightarrow> [] | Some bs \<Rightarrow> bs)"

text \<open>Dropping a subscription releases its pins in field order.\<close>

definition drop_subscription :: "promise_subscription \<Rightarrow> 'b runtime \<Rightarrow> 'b runtime" where
  "drop_subscription sb s = fold root_drop (sb_frame_root sb # sb_payload_roots sb) s"

subsection \<open>Creation and observation\<close>

definition new_promise :: thaw_promise where
  "new_promise = \<lparr>pr_result = None, pr_fulfilled_provenance = 0, pr_rejection_text = None, pr_rejected = False, pr_tag = 0,
     pr_f64 = 0, pr_i64 = 0, pr_bool = False, pr_object = 0, pr_native = 0, pr_aggregate_errors = 0, pr_handled = False,
     pr_reported_unhandled = False, pr_subscribers = [], pr_internal_references = 0, pr_references = 1, pr_external_root = None\<rparr>"

definition thaw_promise_new :: "'b host \<Rightarrow> 'b runtime \<Rightarrow> usize \<times> 'b runtime" where
  "thaw_promise_new H s =
     (let p = ho_box H s;
          (pin, s1) = (if tracing (thr (ts_native s)) then (let (r, t) = root_new p s in (Some r, t)) else (None, s));
          s2 = put_promise p (new_promise\<lparr>pr_external_root := pin\<rparr>) s1
      in (p, s2\<lparr>rt_active := rt_active s2 @ [p]\<rparr>))"

definition thaw_promise_state :: "'b runtime \<Rightarrow> usize \<Rightarrow> nat" where
  "thaw_promise_state s p =
     (case rt_promises s p of
        None \<Rightarrow> 255
      | Some pr \<Rightarrow> if pr_result pr = None then 0 else if pr_rejected pr then 2 else 1)"

definition thaw_promise_result_ptr :: "'b runtime \<Rightarrow> usize \<Rightarrow> usize" where
  "thaw_promise_result_ptr s p =
     (case Option.bind (rt_promises s p) pr_result of None \<Rightarrow> 0 | Some r \<Rightarrow> r)"

definition thaw_promise_mark_handled :: "usize \<Rightarrow> 'b runtime \<Rightarrow> bool \<times> 'b runtime" where
  "thaw_promise_mark_handled p s =
     (case rt_promises s p of
        None \<Rightarrow> (False, s)
      | Some pr \<Rightarrow>
          (let s1 = (if pr_reported_unhandled pr \<and> \<not> pr_handled pr
                     then s\<lparr>rt_pending_handled := rt_pending_handled s + 1\<rparr> else s)
           in (True, put_promise p (pr\<lparr>pr_handled := True\<rparr>) s1)))"

definition enqueue_continuation :: "'b host \<Rightarrow> usize \<Rightarrow> promise_subscription \<Rightarrow> 'b runtime \<Rightarrow> 'b runtime" where
  "enqueue_continuation H result sb s =
     (let js_barrier = ho_barrier H s;
          (pin, s1) = root_new result s
      in s1\<lparr>rt_ready := rt_ready s1 @
           [\<lparr>rc_subscription = sb, rc_result = result, rc_result_root = pin, rc_js_barrier = js_barrier\<rparr>]\<rparr>)"

definition subscribe_with_roots ::
    "'b host \<Rightarrow> usize \<Rightarrow> resume_fn \<Rightarrow> usize \<Rightarrow> usize list \<Rightarrow> 'b runtime \<Rightarrow> bool \<times> 'b runtime" where
  "subscribe_with_roots H p resume frame payload_roots s =
     (case rt_promises s p of
        None \<Rightarrow> (False, fold root_drop payload_roots s)
      | Some pr \<Rightarrow>
          (let s1 = snd (thaw_promise_mark_handled p s);
               (pin, s2) = root_new frame s1;
               sb = \<lparr>sb_resume = resume, sb_frame = frame, sb_frame_root = pin, sb_payload_roots = payload_roots\<rparr>
           in (True,
               case pr_result pr of
                 Some result \<Rightarrow> enqueue_continuation H result sb s2
               | None \<Rightarrow> update_promise p (\<lambda>pr. pr\<lparr>pr_subscribers := pr_subscribers pr @ [sb]\<rparr>) s2)))"

definition thaw_promise_subscribe :: "'b host \<Rightarrow> usize \<Rightarrow> resume_fn \<Rightarrow> usize \<Rightarrow> 'b runtime \<Rightarrow> bool \<times> 'b runtime" where
  "thaw_promise_subscribe H p resume frame s = subscribe_with_roots H p resume frame [] s"

subsection \<open>Settlement\<close>

definition settle_promise :: "'b host \<Rightarrow> usize \<Rightarrow> usize \<Rightarrow> bool \<Rightarrow> usize \<Rightarrow> 'b runtime \<Rightarrow> bool \<times> 'b runtime" where
  "settle_promise H p result rejected provenance s =
     (case rt_promises s p of
        None \<Rightarrow> (False, s)
      | Some pr \<Rightarrow>
          if pr_result pr \<noteq> None then (False, s)
          else
            (let attach = \<not> rejected \<and> provenance \<noteq> 0;
                 s1 = replace_ref p 0 result s;
                 s2 = (if attach then replace_ref p 0 provenance s1 else s1);
                 pr1 = pr\<lparr>pr_result := Some result,
                          pr_fulfilled_provenance := (if attach then provenance else pr_fulfilled_provenance pr),
                          pr_rejected := rejected, pr_subscribers := []\<rparr>
             in (True, fold (enqueue_continuation H result) (pr_subscribers pr) (put_promise p pr1 s2))))"

definition thaw_promise_resolve :: "'b host \<Rightarrow> usize \<Rightarrow> usize \<Rightarrow> 'b runtime \<Rightarrow> bool \<times> 'b runtime" where
  "thaw_promise_resolve H p result s = settle_promise H p result False 0 s"

definition thaw_promise_resolve_with_provenance ::
    "'b host \<Rightarrow> usize \<Rightarrow> usize \<Rightarrow> usize \<Rightarrow> 'b runtime \<Rightarrow> bool \<times> 'b runtime" where
  "thaw_promise_resolve_with_provenance H p result provenance s = settle_promise H p result False provenance s"

definition thaw_promise_fulfilled_provenance :: "'b runtime \<Rightarrow> usize \<Rightarrow> usize" where
  "thaw_promise_fulfilled_provenance s p =
     (case rt_promises s p of
        None \<Rightarrow> 0
      | Some pr \<Rightarrow> if pr_result pr = None \<or> pr_rejected pr then 0 else pr_fulfilled_provenance pr)"

definition forward_promise_fulfillment :: "'b host \<Rightarrow> usize \<Rightarrow> usize \<Rightarrow> usize \<Rightarrow> 'b runtime \<Rightarrow> bool \<times> 'b runtime" where
  "forward_promise_fulfillment H out inp result s =
     thaw_promise_resolve_with_provenance H out result (thaw_promise_fulfilled_provenance s inp) s"

definition thaw_promise_reject :: "'b host \<Rightarrow> usize \<Rightarrow> usize \<Rightarrow> 'b runtime \<Rightarrow> bool \<times> 'b runtime" where
  "thaw_promise_reject H p error s = settle_promise H p error True 0 s"

definition reject_native_text :: "'b host \<Rightarrow> usize \<Rightarrow> usize \<Rightarrow> 'b runtime \<Rightarrow> bool \<times> 'b runtime" where
  "reject_native_text H p error s =
     (let text = (if error \<noteq> 0 then Some (native_text s error) else None);
          (settled, s1) = settle_promise H p error True 0 s
      in if \<not> settled then (False, s1)
         else (True, update_promise p (\<lambda>pr. pr\<lparr>pr_rejection_text := text\<rparr>) s1))"

definition thaw_promise_reject_native_text :: "'b host \<Rightarrow> usize \<Rightarrow> usize \<Rightarrow> 'b runtime \<Rightarrow> bool \<times> 'b runtime" where
  "thaw_promise_reject_native_text H p error s = reject_native_text H p error s"

definition generic_error_text :: bytes where
  "generic_error_text = [1, 69, 114, 114, 111, 114, 1, 114, 101, 106, 101, 99, 116, 101, 100]"

definition thaw_promise_reject_text_copy ::
    "'b host \<Rightarrow> 'b bump_ops \<Rightarrow> usize \<Rightarrow> usize \<Rightarrow> 'b runtime \<Rightarrow> bool \<times> 'b runtime" where
  "thaw_promise_reject_text_copy H B p text s =
     (let bs = (if text = 0 then generic_error_text else native_text s text);
          (copy, n) = arena_string B bs (ts_native s);
          s1 = s\<lparr>ts_native := n\<rparr>
      in if copy = 0 then (False, s1) else reject_native_text H p copy s1)"

definition thaw_promise_reject_typed ::
    "'b host \<Rightarrow> usize \<Rightarrow> usize \<Rightarrow> nat \<Rightarrow> u64 \<Rightarrow> u64 \<Rightarrow> bool \<Rightarrow> usize \<Rightarrow> 'b runtime \<Rightarrow> bool \<times> 'b runtime" where
  "thaw_promise_reject_typed H p error tag f i b object s =
     (let (settled, s1) = settle_promise H p error True 0 s in
      if \<not> settled then (False, s1)
      else
        (let previous = (case rt_promises s1 p of None \<Rightarrow> 0 | Some pr \<Rightarrow> pr_object pr);
             s2 = update_promise p (\<lambda>pr. pr\<lparr>pr_tag := tag, pr_f64 := f, pr_i64 := i, pr_bool := b\<rparr>) s1;
             s3 = replace_ref p previous object s2
         in (True, update_promise p (\<lambda>pr. pr\<lparr>pr_object := object\<rparr>) s3)))"

definition thaw_promise_reject_typed_with_native_text ::
    "'b host \<Rightarrow> usize \<Rightarrow> usize \<Rightarrow> nat \<Rightarrow> u64 \<Rightarrow> u64 \<Rightarrow> bool \<Rightarrow> usize \<Rightarrow> usize \<Rightarrow> 'b runtime \<Rightarrow> bool \<times> 'b runtime" where
  "thaw_promise_reject_typed_with_native_text H p error tag f i b object native s =
     (let (settled, s1) = thaw_promise_reject_typed H p error tag f i b object s in
      if settled \<and> error \<noteq> 0 \<and> error = native
      then (settled, update_promise p (\<lambda>pr. pr\<lparr>pr_rejection_text := Some (native_text s1 error)\<rparr>) s1)
      else (settled, s1))"

definition set_promise_aggregate_errors :: "usize \<Rightarrow> usize \<Rightarrow> 'b runtime \<Rightarrow> 'b runtime" where
  "set_promise_aggregate_errors p errors s =
     (case rt_promises s p of
        None \<Rightarrow> s
      | Some pr \<Rightarrow> update_promise p (\<lambda>pr. pr\<lparr>pr_aggregate_errors := errors\<rparr>) (replace_ref p (pr_aggregate_errors pr) errors s))"

definition thaw_promise_reject_typed_with_aggregate ::
    "'b host \<Rightarrow> usize \<Rightarrow> usize \<Rightarrow> nat \<Rightarrow> u64 \<Rightarrow> u64 \<Rightarrow> bool \<Rightarrow> usize \<Rightarrow> usize \<Rightarrow> usize \<Rightarrow> 'b runtime \<Rightarrow> bool \<times> 'b runtime" where
  "thaw_promise_reject_typed_with_aggregate H p error tag f i b object native aggregate s =
     (let (settled, s1) = thaw_promise_reject_typed_with_native_text H p error tag f i b object native s in
      (settled, if settled then set_promise_aggregate_errors p aggregate s1 else s1))"

definition thaw_promise_set_exception_native :: "usize \<Rightarrow> usize \<Rightarrow> 'b runtime \<Rightarrow> bool \<times> 'b runtime" where
  "thaw_promise_set_exception_native p provenance s =
     (case rt_promises s p of
        None \<Rightarrow> (False, s)
      | Some pr \<Rightarrow>
          (True, update_promise p (\<lambda>pr. pr\<lparr>pr_native := provenance\<rparr>) (replace_ref p (pr_native pr) provenance s)))"

definition thaw_promise_reject_typed_with_native_provenance ::
    "'b host \<Rightarrow> usize \<Rightarrow> usize \<Rightarrow> nat \<Rightarrow> u64 \<Rightarrow> u64 \<Rightarrow> bool \<Rightarrow> usize \<Rightarrow> usize \<Rightarrow> usize \<Rightarrow> usize \<Rightarrow> 'b runtime \<Rightarrow> bool \<times> 'b runtime" where
  "thaw_promise_reject_typed_with_native_provenance H p error tag f i b object native aggregate provenance s =
     (let (settled, s1) = thaw_promise_reject_typed_with_aggregate H p error tag f i b object native aggregate s in
      (settled, if settled then snd (thaw_promise_set_exception_native p provenance s1) else s1))"

text \<open>The getters of the macro \<open>promise_exception_getter\<close>: a field, or the default for a null handle.\<close>

definition promise_exception_getter :: "(thaw_promise \<Rightarrow> 'v) \<Rightarrow> 'v \<Rightarrow> 'b runtime \<Rightarrow> usize \<Rightarrow> 'v" where
  "promise_exception_getter sel dflt s p = (case rt_promises s p of None \<Rightarrow> dflt | Some pr \<Rightarrow> sel pr)"

definition thaw_promise_exception_native_text_copy :: "'b bump_ops \<Rightarrow> usize \<Rightarrow> 'b runtime \<Rightarrow> usize \<times> 'b runtime" where
  "thaw_promise_exception_native_text_copy B p s =
     (case Option.bind (rt_promises s p) pr_rejection_text of
        None \<Rightarrow> (0, s)
      | Some text \<Rightarrow> (let (copy, n) = arena_string B text (ts_native s) in (copy, s\<lparr>ts_native := n\<rparr>)))"

text \<open>What a typed rejection copies besides the fields of \<open>thaw_promise_reject_typed\<close>.\<close>

definition attach_rejection :: "usize \<Rightarrow> bytes option \<Rightarrow> usize \<Rightarrow> usize \<Rightarrow> 'b runtime \<Rightarrow> 'b runtime" where
  "attach_rejection out text aggregate native s =
     snd (thaw_promise_set_exception_native out native
       (set_promise_aggregate_errors out aggregate (update_promise out (\<lambda>pr. pr\<lparr>pr_rejection_text := text\<rparr>) s)))"

definition forward_promise_rejection :: "'b host \<Rightarrow> usize \<Rightarrow> usize \<Rightarrow> usize \<Rightarrow> 'b runtime \<Rightarrow> bool \<times> 'b runtime" where
  "forward_promise_rejection H out inp error s =
     (case rt_promises s inp of
        None \<Rightarrow> thaw_promise_reject H out error s
      | Some i \<Rightarrow>
          (let (settled, s1) = thaw_promise_reject_typed H out error (pr_tag i) (pr_f64 i) (pr_i64 i) (pr_bool i) (pr_object i) s
           in (settled,
               if settled then attach_rejection out (pr_rejection_text i) (pr_aggregate_errors i) (pr_native i) s1 else s1)))"

definition thaw_promise_forward_rejection :: "'b host \<Rightarrow> usize \<Rightarrow> usize \<Rightarrow> usize \<Rightarrow> 'b runtime \<Rightarrow> bool \<times> 'b runtime" where
  "thaw_promise_forward_rejection H out source error s =
     (if out = source then (False, s) else forward_promise_rejection H out source error s)"

end
