(* ===== verification/Promise_Frames.thy ===== *)
theory Promise_Frames
  imports Promise_State
begin

text \<open>
  Ownership of promises and the callbacks that the runtime itself subscribes: chaining, adoption,
  \<open>finally\<close>, racing and detaching. A callback frame is a box that its resume function takes and
  drops; while it exists it holds an internal reference to its output promise.
\<close>

subsection \<open>References\<close>

definition retain_native_promise_internal :: "usize \<Rightarrow> 'b runtime \<Rightarrow> bool \<times> 'b runtime" where
  "retain_native_promise_internal p s =
     (case rt_promises s p of
        None \<Rightarrow> (False, s)
      | Some pr \<Rightarrow>
          (case (checked_add (pr_references pr) 1, checked_add (pr_internal_references pr) 1) of
             (Some r, Some i) \<Rightarrow> (True, put_promise p (pr\<lparr>pr_references := r, pr_internal_references := i\<rparr>) s)
           | _ \<Rightarrow> (False, s)))"

definition destroy_promise_box :: "usize \<Rightarrow> 'b runtime \<Rightarrow> 'b runtime" where
  "destroy_promise_box p s =
     (let s1 = s\<lparr>rt_active := filter (\<lambda>c. c \<noteq> p) (rt_active s),
                 rt_promise_timers := filter (\<lambda>t. snd t \<noteq> p) (rt_promise_timers s),
                 rt_fd_waits := filter (\<lambda>w. fw_promise w \<noteq> p) (rt_fd_waits s)\<rparr>;
          s2 = forget_refs p s1
      in (case rt_promises s2 p of
            None \<Rightarrow> s2
          | Some pr \<Rightarrow>
              (let s3 = fold drop_subscription (pr_subscribers pr) (s2\<lparr>rt_promises := (rt_promises s2)(p := None)\<rparr>)
               in case pr_external_root pr of None \<Rightarrow> s3 | Some r \<Rightarrow> root_drop r s3)))"

definition release_native_promise_internal :: "usize \<Rightarrow> 'b runtime \<Rightarrow> 'b runtime" where
  "release_native_promise_internal p s =
     (case rt_promises s p of
        None \<Rightarrow> s
      | Some pr \<Rightarrow>
          if pr_internal_references pr = 0 \<or> pr_references pr = 0 then s
          else
            (let s1 = put_promise p (pr\<lparr>pr_internal_references := pr_internal_references pr - 1,
                                       pr_references := pr_references pr - 1\<rparr>) s
             in if pr_references pr - 1 = 0 then destroy_promise_box p s1 else s1))"

definition thaw_promise_destroy :: "usize \<Rightarrow> 'b runtime \<Rightarrow> 'b runtime" where
  "thaw_promise_destroy p s =
     (if p = 0 then s
      else (case rt_promises s p of
              None \<Rightarrow> s
            | Some pr \<Rightarrow>
                if pr_references pr \<le> pr_internal_references pr then s
                else
                  (let n = pr_references pr - 1;
                       last_external = (n = pr_internal_references pr);
                       s1 = put_promise p (pr\<lparr>pr_references := n,
                              pr_external_root := (if last_external then None else pr_external_root pr)\<rparr>) s;
                       s2 = (case (last_external, pr_external_root pr) of (True, Some r) \<Rightarrow> root_drop r s1 | _ \<Rightarrow> s1)
                   in if n = 0 then destroy_promise_box p s2 else s2)))"

definition thaw_promise_retain :: "usize \<Rightarrow> 'b runtime \<Rightarrow> bool \<times> 'b runtime" where
  "thaw_promise_retain p s =
     (case rt_promises s p of
        None \<Rightarrow> (False, s)
      | Some pr \<Rightarrow>
          (case checked_add (pr_references pr) 1 of
             None \<Rightarrow> (False, s)
           | Some r \<Rightarrow>
               (let (pin, s1) = (if pr_references pr = pr_internal_references pr \<and> tracing (thr (ts_native s))
                                 then (let (q, t) = root_new p s
                                       in (Some q, case pr_external_root pr of None \<Rightarrow> t | Some old \<Rightarrow> root_drop old t))
                                 else (pr_external_root pr, s))
                in (True, put_promise p (pr\<lparr>pr_references := r, pr_external_root := pin\<rparr>) s1))))"

definition output_ref_new :: "usize \<Rightarrow> 'b runtime \<Rightarrow> 'b runtime" where
  "output_ref_new out s = (if out \<noteq> 0 then snd (retain_native_promise_internal out s) else s)"

definition output_ref_drop :: "usize \<Rightarrow> 'b runtime \<Rightarrow> 'b runtime" where
  "output_ref_drop out s = (if out \<noteq> 0 then release_native_promise_internal out s else s)"

subsection \<open>Boxes\<close>

definition box_new :: "'b host \<Rightarrow> boxed \<Rightarrow> 'b runtime \<Rightarrow> usize \<times> 'b runtime" where
  "box_new H b s = (let a = ho_box H s in (a, s\<lparr>rt_boxes := (rt_boxes s)(a \<mapsto> b)\<rparr>))"

definition box_take :: "usize \<Rightarrow> 'b runtime \<Rightarrow> 'b runtime" where
  "box_take a s = s\<lparr>rt_boxes := (rt_boxes s)(a := None)\<rparr>"

definition roots_new :: "usize list \<Rightarrow> 'b runtime \<Rightarrow> usize list \<times> 'b runtime" where
  "roots_new ps s = fold (\<lambda>p (rs, s). let (r, s1) = root_new p s in (rs @ [r], s1)) ps ([], s)"

text \<open>Forwarding the settlement of the input, shared by the callbacks.\<close>

definition forward_settlement :: "'b host \<Rightarrow> usize \<Rightarrow> usize \<Rightarrow> usize \<Rightarrow> 'b runtime \<Rightarrow> 'b runtime" where
  "forward_settlement H out inp result s =
     snd (if thaw_promise_state s inp = 2 then forward_promise_rejection H out inp result s
          else forward_promise_fulfillment H out inp result s)"

subsection \<open>Chaining and adoption\<close>

definition resume_promise_chain :: "'b host \<Rightarrow> usize \<Rightarrow> usize \<Rightarrow> 'b runtime \<Rightarrow> 'b runtime" where
  "resume_promise_chain H frame result s =
     (case rt_boxes s frame of
        Some (Chain_box out inp fulfilled rejected) \<Rightarrow>
          (let s1 = box_take frame s;
               s2 = (case (if thaw_promise_state s1 inp = 2 then rejected else fulfilled) of
                       Some (callback, ctx) \<Rightarrow> ho_transform H callback ctx out inp result s1
                     | None \<Rightarrow> forward_settlement H out inp result s1)
           in output_ref_drop out (thaw_promise_destroy inp s2))
      | _ \<Rightarrow> s)"

definition promise_chain_with_handlers ::
    "'b host \<Rightarrow> usize \<Rightarrow> (nat \<times> usize) option \<Rightarrow> (nat \<times> usize) option \<Rightarrow> 'b runtime \<Rightarrow> usize \<times> 'b runtime" where
  "promise_chain_with_handlers H inp fulfilled rejected s =
     (let (out, s1) = thaw_promise_new H s in
      if inp = 0 then (out, snd (reject_native_text H out (ho_static H PROMISE_ALL_INVALID_ERROR) s1))
      else
        (let handlers = (case fulfilled of None \<Rightarrow> [] | Some h \<Rightarrow> [h]) @ (case rejected of None \<Rightarrow> [] | Some h \<Rightarrow> [h]);
             (payload_roots, s2) = roots_new (map snd handlers) s1;
             (frame, s3) = box_new H (Chain_box out inp fulfilled rejected) (output_ref_new out s2)
         in (out, snd (subscribe_with_roots H inp Resume_chain frame payload_roots s3))))"

definition thaw_promise_chain :: "'b host \<Rightarrow> usize \<Rightarrow> nat \<Rightarrow> usize \<Rightarrow> bool \<Rightarrow> 'b runtime \<Rightarrow> usize \<times> 'b runtime" where
  "thaw_promise_chain H inp callback ctx on_rejected s =
     (if on_rejected then promise_chain_with_handlers H inp None (Some (callback, ctx)) s
      else promise_chain_with_handlers H inp (Some (callback, ctx)) None s)"

definition thaw_promise_chain_both ::
    "'b host \<Rightarrow> usize \<Rightarrow> nat option \<Rightarrow> usize \<Rightarrow> nat \<Rightarrow> usize \<Rightarrow> 'b runtime \<Rightarrow> usize \<times> 'b runtime" where
  "thaw_promise_chain_both H inp on_fulfilled fulfilled_ctx on_rejected rejected_ctx s =
     promise_chain_with_handlers H inp (map_option (\<lambda>c. (c, fulfilled_ctx)) on_fulfilled) (Some (on_rejected, rejected_ctx)) s"

definition resume_promise_adopt :: "'b host \<Rightarrow> usize \<Rightarrow> usize \<Rightarrow> 'b runtime \<Rightarrow> 'b runtime" where
  "resume_promise_adopt H frame result s =
     (case rt_boxes s frame of
        Some (Adopt_box out inp) \<Rightarrow>
          output_ref_drop out (thaw_promise_destroy inp (forward_settlement H out inp result (box_take frame s)))
      | _ \<Rightarrow> s)"

definition thaw_promise_adopt :: "'b host \<Rightarrow> usize \<Rightarrow> usize \<Rightarrow> 'b runtime \<Rightarrow> bool \<times> 'b runtime" where
  "thaw_promise_adopt H out inp s =
     (if out = 0 \<or> inp = 0 then (False, s)
      else if out = inp then (False, snd (reject_native_text H out (ho_static H PROMISE_CYCLE_ERROR) s))
      else
        (let (frame, s1) = box_new H (Adopt_box out inp) (output_ref_new out s)
         in (True, snd (thaw_promise_subscribe H inp Resume_adopt frame s1))))"

subsection \<open>Finally\<close>

definition resume_promise_finally :: "'b host \<Rightarrow> usize \<Rightarrow> usize \<Rightarrow> 'b runtime \<Rightarrow> 'b runtime" where
  "resume_promise_finally H frame result s =
     (case rt_boxes s frame of
        Some (Finally_box out inp callback ctx) \<Rightarrow>
          (let s1 = box_take frame s
           in output_ref_drop out (thaw_promise_destroy inp
                (ho_finally H callback ctx out inp result (thaw_promise_state s1 inp = 2) s1)))
      | _ \<Rightarrow> s)"

definition thaw_promise_finally :: "'b host \<Rightarrow> usize \<Rightarrow> nat \<Rightarrow> usize \<Rightarrow> 'b runtime \<Rightarrow> usize \<times> 'b runtime" where
  "thaw_promise_finally H inp callback ctx s =
     (let (out, s1) = thaw_promise_new H s in
      if inp = 0 then (out, snd (reject_native_text H out (ho_static H PROMISE_ALL_INVALID_ERROR) s1))
      else
        (let (frame, s2) = box_new H (Finally_box out inp callback ctx) (output_ref_new out s1);
             (payload_roots, s3) = roots_new [ctx] s2
         in (out, snd (subscribe_with_roots H inp Resume_finally frame payload_roots s3))))"

definition pin_promise_pointer_once ::
    "usize \<Rightarrow> (usize \<times> usize) list \<times> 'b runtime \<Rightarrow> (usize \<times> usize) list \<times> 'b runtime" where
  "pin_promise_pointer_once pointer rs =
     (if pointer \<noteq> 0 \<and> \<not> list_ex (\<lambda>(current, _). current = pointer) (fst rs)
      then (let (r, s1) = root_new pointer (snd rs) in (fst rs @ [(pointer, r)], s1)) else rs)"

definition drop_finally_adopt :: "finally_adopt_state \<Rightarrow> 'b runtime \<Rightarrow> 'b runtime" where
  "drop_finally_adopt st s = fold root_drop (map snd (fa_roots st)) (output_ref_drop (fa_output st) s)"

text \<open>The settlement of the output: the rejection of the input, or else the original outcome.\<close>

definition finally_adopt_settle :: "'b host \<Rightarrow> finally_adopt_state \<Rightarrow> usize \<Rightarrow> 'b runtime \<Rightarrow> 'b runtime" where
  "finally_adopt_settle H st result s =
     (if thaw_promise_state s (fa_input st) = 2
      then snd (forward_promise_rejection H (fa_output st) (fa_input st) result s)
      else if fa_original_rejected st
      then (let (settled, t) = thaw_promise_reject_typed H (fa_output st) (fa_original st) (fa_tag st) (fa_f64 st)
                                 (fa_i64 st) (fa_bool st) (fa_object st) s
            in if settled then attach_rejection (fa_output st) (fa_text st) (fa_aggregate_errors st) (fa_native st) t else t)
      else snd (thaw_promise_resolve_with_provenance H (fa_output st) (fa_original st) (fa_provenance st) s))"

definition resume_promise_finally_adopt :: "'b host \<Rightarrow> usize \<Rightarrow> usize \<Rightarrow> 'b runtime \<Rightarrow> 'b runtime" where
  "resume_promise_finally_adopt H frame result s =
     (let s0 = s\<lparr>rt_finally_adopt_states := filter (\<lambda>a. a \<noteq> frame) (rt_finally_adopt_states s)\<rparr> in
      case rt_boxes s0 frame of
        Some (Finally_adopt_box st) \<Rightarrow>
          (let s1 = box_take frame s0;
               s2 = (if fa_cancelled st then s1 else finally_adopt_settle H st result s1)
           in drop_finally_adopt st (thaw_promise_destroy (fa_input st) s2))
      | _ \<Rightarrow> s0)"

definition finally_adopt_with_source ::
    "'b host \<Rightarrow> usize \<Rightarrow> usize \<Rightarrow> usize \<Rightarrow> bool \<Rightarrow> nat \<Rightarrow> u64 \<Rightarrow> u64 \<Rightarrow> bool \<Rightarrow> usize \<Rightarrow> usize \<Rightarrow> 'b runtime \<Rightarrow> bool \<times> 'b runtime" where
  "finally_adopt_with_source H out inp original original_rejected tag f i b object source s =
     (if out = 0 \<or> inp = 0 \<or> out = inp then (False, s)
      else
        (let aggregate = (case rt_promises s source of None \<Rightarrow> 0 | Some pr \<Rightarrow> pr_aggregate_errors pr);
             native = (case rt_promises s source of None \<Rightarrow> 0 | Some pr \<Rightarrow> pr_native pr);
             provenance = (if \<not> original_rejected then thaw_promise_fulfilled_provenance s source else 0);
             text = Option.bind (rt_promises s source) pr_rejection_text;
             (pins, s1) = fold pin_promise_pointer_once [original, object, aggregate, provenance, native] ([], s);
             (frame, s2) = box_new H (Finally_adopt_box
               \<lparr>fa_output = out, fa_input = inp, fa_original = original, fa_original_rejected = original_rejected,
                fa_tag = tag, fa_f64 = f, fa_i64 = i, fa_bool = b, fa_object = object, fa_native = native,
                fa_aggregate_errors = aggregate, fa_provenance = provenance, fa_text = text, fa_roots = pins,
                fa_cancelled = False\<rparr>) (output_ref_new out s1);
             s3 = s2\<lparr>rt_finally_adopt_states := rt_finally_adopt_states s2 @ [frame]\<rparr>
         in (True, snd (thaw_promise_subscribe H inp Resume_finally_adopt frame s3))))"

definition thaw_promise_finally_adopt ::
    "'b host \<Rightarrow> usize \<Rightarrow> usize \<Rightarrow> usize \<Rightarrow> bool \<Rightarrow> nat \<Rightarrow> u64 \<Rightarrow> u64 \<Rightarrow> bool \<Rightarrow> usize \<Rightarrow> 'b runtime \<Rightarrow> bool \<times> 'b runtime" where
  "thaw_promise_finally_adopt H out inp original original_rejected tag f i b object s =
     finally_adopt_with_source H out inp original original_rejected tag f i b object 0 s"

definition thaw_promise_finally_adopt_with_source ::
    "'b host \<Rightarrow> usize \<Rightarrow> usize \<Rightarrow> usize \<Rightarrow> bool \<Rightarrow> nat \<Rightarrow> u64 \<Rightarrow> u64 \<Rightarrow> bool \<Rightarrow> usize \<Rightarrow> usize \<Rightarrow> 'b runtime \<Rightarrow> bool \<times> 'b runtime" where
  "thaw_promise_finally_adopt_with_source H out inp original original_rejected tag f i b object source s =
     finally_adopt_with_source H out inp original original_rejected tag f i b object source s"

end
