(* ===== verification/Promise_Join.thy ===== *)
theory Promise_Join
  imports Promise_Frames
begin

text \<open>
  \<open>Promise.all\<close>, \<open>Promise.any\<close> and \<open>Promise.allSettled\<close> of \<open>promises.rs\<close>. Each call groups the input
  handles, subscribes one child callback per distinct handle, and keeps a state box that the children
  share; the child that brings the counter to zero settles the output and frees the box.
\<close>

subsection \<open>Inputs\<close>

text \<open>Handles in the order of their first occurrence, each with the indices where it occurs; null handles are skipped.\<close>

fun group_add :: "usize \<Rightarrow> nat \<Rightarrow> (usize \<times> nat list) list \<Rightarrow> (usize \<times> nat list) list" where
  "group_add p i [] = [(p, [i])]"
| "group_add p i ((q, is) # rest) = (if q = p then (q, is @ [i]) # rest else (q, is) # group_add p i rest)"

definition group_handles :: "usize list \<Rightarrow> (usize \<times> nat list) list" where
  "group_handles ps = fold (\<lambda>(i, p) groups. if p = 0 then groups else group_add p i groups) (enumerate 0 ps) []"

definition reject_static :: "'b host \<Rightarrow> usize \<Rightarrow> static_text \<Rightarrow> 'b runtime \<Rightarrow> 'b runtime" where
  "reject_static H out text s = snd (reject_native_text H out (ho_static H text) s)"

definition drop_root_option :: "usize option \<Rightarrow> 'b runtime \<Rightarrow> 'b runtime" where
  "drop_root_option pin s = (case pin of None \<Rightarrow> s | Some r \<Rightarrow> root_drop r s)"

definition set_box :: "usize \<Rightarrow> boxed \<Rightarrow> 'b runtime \<Rightarrow> 'b runtime" where
  "set_box a b s = s\<lparr>rt_boxes := (rt_boxes s)(a \<mapsto> b)\<rparr>"

definition leave_join :: "bool \<Rightarrow> 'b runtime \<Rightarrow> 'b runtime" where
  "leave_join counted s = (if counted then s\<lparr>rt_active_joins := rt_active_joins s - 1\<rparr> else s)"

subsection \<open>Promise.all\<close>

text \<open>The copy of one fulfilled child into its result slots, until recording its provenance fails.\<close>

fun all_write :: "'b host \<Rightarrow> usize \<Rightarrow> usize \<Rightarrow> nat list \<Rightarrow> promise_all_state \<times> 'b runtime \<Rightarrow> promise_all_state \<times> 'b runtime" where
  "all_write H rec result [] acc = acc"
| "all_write H rec result (i # rest) (st, s) =
     (let dest = al_result st + al_offsets st ! i;
          s1 = on_thread (put_zeros dest (max (al_sizes st ! i) 8)) s;
          s2 = (if result \<noteq> 0 then on_thread (copy_bytes result dest (al_sizes st ! i)) s1 else s1);
          (ok, t) = thaw_array_provenance_set (al_result_handle st) i rec (rt_sidecars s2) (thr (ts_native s2));
          s3 = on_thread (\<lambda>_. t) s2
      in if ok then all_write H rec result rest (st, s3)
         else (st\<lparr>al_rejected := True, al_result_root := None\<rparr>,
               drop_root_option (al_result_root st) (reject_static H (al_output st) PROMISE_ALL_INVALID_ERROR s3)))"

definition all_child_settle ::
    "'b host \<Rightarrow> usize \<Rightarrow> nat list \<Rightarrow> usize \<Rightarrow> promise_all_state \<Rightarrow> 'b runtime \<Rightarrow> promise_all_state \<times> 'b runtime" where
  "all_child_settle H promise indices result st s =
     (if thaw_promise_state s promise = 2
      then (if \<not> al_rejected st
            then (st\<lparr>al_rejected := True, al_result_root := None\<rparr>,
                  drop_root_option (al_result_root st) (snd (forward_promise_rejection H (al_output st) promise result s)))
            else (st, s))
      else if \<not> al_rejected st then all_write H (thaw_promise_fulfilled_provenance s promise) result indices (st, s)
      else (st, s))"

definition all_finish :: "'b host \<Rightarrow> usize \<Rightarrow> promise_all_state \<Rightarrow> 'b runtime \<Rightarrow> 'b runtime" where
  "all_finish H state st s =
     (let s1 = (if \<not> al_rejected st then snd (thaw_promise_resolve H (al_output st) (al_result_slot st) s) else s);
          s2 = drop_root_option (al_result_root st) s1;
          s3 = s2\<lparr>rt_all_states := filter (\<lambda>a. a \<noteq> state) (rt_all_states s2)\<rparr>
      in output_ref_drop (al_output st) (box_take state (leave_join (al_join_counted st) s3)))"

definition resume_promise_all_child :: "'b host \<Rightarrow> usize \<Rightarrow> usize \<Rightarrow> 'b runtime \<Rightarrow> 'b runtime" where
  "resume_promise_all_child H frame result s =
     (case rt_boxes s frame of
        Some (All_child_box state promise indices) \<Rightarrow>
          (let s1 = box_take frame s in
           case rt_boxes s1 state of
             Some (All_box st) \<Rightarrow>
               (let (st1, s2) = all_child_settle H promise indices result st s1;
                    s3 = thaw_promise_destroy promise s2;
                    st2 = st1\<lparr>al_remaining := al_remaining st1 - 1\<rparr>
                in if al_remaining st2 = 0 then all_finish H state st2 s3 else set_box state (All_box st2) s3)
           | _ \<Rightarrow> s1)
      | _ \<Rightarrow> s)"

text \<open>The offset of every element and the end of the last one; \<open>None\<close> when the sum overflows.\<close>

fun all_offsets :: "nat \<Rightarrow> nat list \<Rightarrow> (nat list \<times> nat) option" where
  "all_offsets bytes [] = Some ([], bytes)"
| "all_offsets bytes (sz # rest) =
     Option.bind (checked_add bytes (max sz 8)) (\<lambda>nxt. map_option (\<lambda>(os, e). (bytes # os, e)) (all_offsets nxt rest))"

definition all_subscribe :: "'b host \<Rightarrow> usize \<Rightarrow> usize \<times> nat list \<Rightarrow> 'b runtime \<Rightarrow> 'b runtime" where
  "all_subscribe H state grp s =
     (let (child, s1) = box_new H (All_child_box state (fst grp) (snd grp)) s
      in snd (thaw_promise_subscribe H (fst grp) Resume_all child s1))"

text \<open>The part of the call after the result array exists.\<close>

definition all_start ::
    "'b host \<Rightarrow> usize \<Rightarrow> usize list option \<Rightarrow> nat \<Rightarrow> nat list \<Rightarrow> nat list \<Rightarrow> usize \<Rightarrow> usize \<Rightarrow> usize \<Rightarrow> 'b runtime \<Rightarrow> 'b runtime" where
  "all_start H out promises len sizes offsets result result_slot result_handle s =
     (if len = 0 then snd (thaw_promise_resolve H out result_slot s)
      else (case promises of
        None \<Rightarrow> reject_static H out PROMISE_ALL_INVALID_ERROR s
      | Some ps \<Rightarrow>
          (let grouped = group_handles (take len ps);
               invalid = (0 \<in> set (take len ps));
               (pin, s1) = root_new result_slot (output_ref_new out s);
               st = \<lparr>al_output = out, al_remaining = length grouped, al_rejected = invalid, al_result = result,
                     al_result_slot = result_slot, al_result_handle = result_handle,
                     al_result_root = (if invalid then None else Some pin), al_join_counted = (grouped \<noteq> []),
                     al_sizes = sizes, al_offsets = offsets\<rparr>;
               (state, s2) = box_new H (All_box st) s1;
               s3 = (if grouped \<noteq> []
                     then s2\<lparr>rt_all_states := rt_all_states s2 @ [state], rt_active_joins := rt_active_joins s2 + 1\<rparr> else s2);
               s4 = (if invalid then root_drop pin (reject_static H out PROMISE_ALL_INVALID_ERROR s3) else s3)
           in if grouped = [] then drop_root_option (al_result_root st) (output_ref_drop out (box_take state s4))
              else fold (all_subscribe H state) grouped s4)))"

definition thaw_promise_all_typed ::
    "'b host \<Rightarrow> usize list option \<Rightarrow> nat list option \<Rightarrow> nat \<Rightarrow> 'b runtime \<Rightarrow> usize \<times> 'b runtime" where
  "thaw_promise_all_typed H promises element_sizes len s =
     (let (out, s0) = thaw_promise_new H s;
          sizes = (if len = 0 then [] else case element_sizes of None \<Rightarrow> [] | Some zs \<Rightarrow> take len zs)
      in (out,
          if len \<noteq> 0 \<and> element_sizes = None then reject_static H out PROMISE_ALL_INVALID_ERROR s0
          else if 0 \<in> set sizes then reject_static H out PROMISE_ALL_INVALID_ERROR s0
          else (case Option.bind (all_offsets 8 sizes) (\<lambda>(os, e). map_option (\<lambda>n. (os, n)) (checked_add e 8)) of
                  None \<Rightarrow> reject_static H out PROMISE_ALL_INVALID_ERROR s0
                | Some (offsets, allocation_bytes) \<Rightarrow>
                    (let (allocation, s1) = arena_alloc H allocation_bytes 8 s0 in
                     if allocation = 0 then reject_static H out PROMISE_ALL_INVALID_ERROR s1
                     else
                       (let result = allocation + 8;
                            (result_handle, t) = wrap_array_handle (ho_bump H) result (thr (ts_native s1));
                            s2 = on_thread (\<lambda>_. t) s1
                        in if result_handle = 0 then reject_static H out PROMISE_ALL_INVALID_ERROR s2
                           else
                             (let s3 = on_thread (put_usize result len) (on_thread (put_usize allocation result_handle) s2);
                                  (ok, t1, entries) = thaw_array_provenance_prepare (ho_bump H) (ho_reserve H s3) result_handle len
                                                        (thr (ts_native s3)) (rt_sidecars s3);
                                  s4 = (on_thread (\<lambda>_. t1) s3)\<lparr>rt_sidecars := entries\<rparr>
                              in if \<not> ok then reject_static H out PROMISE_ALL_INVALID_ERROR s4
                                 else all_start H out promises len sizes offsets result allocation result_handle s4))))))"

definition thaw_promise_all_slots :: "'b host \<Rightarrow> usize list option \<Rightarrow> nat \<Rightarrow> nat \<Rightarrow> 'b runtime \<Rightarrow> usize \<times> 'b runtime" where
  "thaw_promise_all_slots H promises len element_size s =
     thaw_promise_all_typed H promises (Some (replicate len element_size)) len s"

definition thaw_promise_all_f64 :: "'b host \<Rightarrow> usize list option \<Rightarrow> nat \<Rightarrow> 'b runtime \<Rightarrow> usize \<times> 'b runtime" where
  "thaw_promise_all_f64 H promises len s = thaw_promise_all_slots H promises len 8 s"

subsection \<open>Promise.any\<close>

text \<open>\<open>String::from_utf8_lossy\<close> of the standard library: code points, with one replacement character for every maximal
  part of an ill-formed sequence.\<close>

definition utf8_second_ok :: "nat \<Rightarrow> nat \<Rightarrow> bool" where
  "utf8_second_ok a b =
     (if a = 0xE0 then 0xA0 \<le> b \<and> b \<le> 0xBF
      else if a = 0xED then 0x80 \<le> b \<and> b \<le> 0x9F
      else if a = 0xF0 then 0x90 \<le> b \<and> b \<le> 0xBF
      else if a = 0xF4 then 0x80 \<le> b \<and> b \<le> 0x8F
      else 0x80 \<le> b \<and> b \<le> 0xBF)"

definition utf8_tail :: "nat \<Rightarrow> bool" where
  "utf8_tail b \<longleftrightarrow> 0x80 \<le> b \<and> b \<le> 0xBF"

fun utf8_lossy :: "nat list \<Rightarrow> nat list" where
  "utf8_lossy [] = []"
| "utf8_lossy (a # rest) =
     (if a < 0x80 then a # utf8_lossy rest
      else if 0xC2 \<le> a \<and> a \<le> 0xDF
      then (case rest of
              b # r1 \<Rightarrow> if utf8_tail b then ((a mod 32) * 64 + b mod 64) # utf8_lossy r1 else 0xFFFD # utf8_lossy rest
            | [] \<Rightarrow> [0xFFFD])
      else if 0xE0 \<le> a \<and> a \<le> 0xEF
      then (case rest of
              b # r1 \<Rightarrow>
                if \<not> utf8_second_ok a b then 0xFFFD # utf8_lossy rest
                else (case r1 of
                        c # r2 \<Rightarrow> if utf8_tail c then ((a mod 16) * 4096 + (b mod 64) * 64 + c mod 64) # utf8_lossy r2
                                   else 0xFFFD # utf8_lossy r1
                      | [] \<Rightarrow> [0xFFFD])
            | [] \<Rightarrow> [0xFFFD])
      else if 0xF0 \<le> a \<and> a \<le> 0xF4
      then (case rest of
              b # r1 \<Rightarrow>
                if \<not> utf8_second_ok a b then 0xFFFD # utf8_lossy rest
                else (case r1 of
                        c # r2 \<Rightarrow>
                          if \<not> utf8_tail c then 0xFFFD # utf8_lossy r1
                          else (case r2 of
                                  d # r3 \<Rightarrow>
                                    if utf8_tail d
                                    then ((a mod 8) * 262144 + (b mod 64) * 4096 + (c mod 64) * 64 + d mod 64) # utf8_lossy r3
                                    else 0xFFFD # utf8_lossy r2
                                | [] \<Rightarrow> [0xFFFD])
                      | [] \<Rightarrow> [0xFFFD])
            | [] \<Rightarrow> [0xFFFD])
      else 0xFFFD # utf8_lossy rest)"

definition utf8_encode :: "nat \<Rightarrow> bytes" where
  "utf8_encode c =
     map word_of_nat
       (if c < 0x80 then [c]
        else if c < 0x800 then [0xC0 + c div 64, 0x80 + c mod 64]
        else if c < 0x10000 then [0xE0 + c div 4096, 0x80 + c div 64 mod 64, 0x80 + c mod 64]
        else [0xF0 + c div 262144, 0x80 + c div 4096 mod 64, 0x80 + c div 64 mod 64, 0x80 + c mod 64])"

definition hex_digit :: "nat \<Rightarrow> u8" where
  "hex_digit d = word_of_nat (if d < 10 then 48 + d else 87 + d)"

definition json_char :: "nat \<Rightarrow> bytes" where
  "json_char c =
     (if c = 34 then [92, 34]
      else if c = 92 then [92, 92]
      else if c < 0x20 then [92, 117, 48, 48, hex_digit (c div 16), hex_digit (c mod 16)]
      else utf8_encode c)"

definition push_json_string :: "bytes \<Rightarrow> bytes" where
  "push_json_string bs = [34] @ concat (map json_char (utf8_lossy (map unat bs))) @ [34]"

definition json_null :: bytes where
  "json_null = [110, 117, 108, 108]"

definition f64_finite :: "usize \<Rightarrow> bool" where
  "f64_finite bits \<longleftrightarrow> bits div 2 ^ 52 mod 2 ^ 11 \<noteq> 2047"

definition i64_text :: "usize \<Rightarrow> bytes" where
  "i64_text bits = (if bits < 2 ^ 63 then usize_to_string bits else [45] @ usize_to_string (2 ^ 64 - bits))"

definition json_text :: "'b runtime \<Rightarrow> usize \<Rightarrow> bytes" where
  "json_text s p = (if p \<noteq> 0 then push_json_string (native_text s p) else json_null)"

text \<open>\<open>ho_number_display\<close> is the \<open>Display\<close> format of an \<open>f64\<close>.\<close>

definition push_aggregate_reason_json :: "'b host \<Rightarrow> 'b runtime \<Rightarrow> any_reason \<Rightarrow> bytes" where
  "push_aggregate_reason_json H s reason =
     (if an_tag reason = 0
      then (if f64_finite (an_payload reason) then ho_number_display H (an_payload reason) else json_null)
      else if an_tag reason = 1 then i64_text (an_payload reason)
      else if an_tag reason = 2
      then (if an_payload reason \<noteq> 0 then [116, 114, 117, 101] else [102, 97, 108, 115, 101])
      else if an_tag reason = 3 then json_text s (an_payload reason)
      else if an_tag reason = 7 \<or> an_tag reason = 9
      then (if an_payload reason \<noteq> 0 then json_text s (read_usize (memory_of s) (an_payload reason)) else json_null)
      else json_null)"

definition join_comma :: "bytes list \<Rightarrow> bytes" where
  "join_comma parts = concat (map (\<lambda>(i, part). (if i \<noteq> 0 then [44] else []) @ part) (enumerate (0 :: nat) parts))"

definition aggregate_json :: "'b host \<Rightarrow> 'b runtime \<Rightarrow> any_reason option list \<Rightarrow> bytes" where
  "aggregate_json H s reasons =
     [123, 34, 101, 114, 114, 111, 114, 115, 34, 58, 91] @
     join_comma (map (\<lambda>r. case r of Some reason \<Rightarrow> push_aggregate_reason_json H s reason | None \<Rightarrow> json_null) reasons) @
     [93, 125]"

definition aggregate_name :: bytes where
  "aggregate_name = [65, 103, 103, 114, 101, 103, 97, 116, 101, 69, 114, 114, 111, 114]"

definition all_rejected_text :: bytes where
  "all_rejected_text = [65, 108, 108, 32, 112, 114, 111, 109, 105, 115, 101, 115, 32, 119, 101, 114, 101, 32, 114, 101, 106, 101, 99, 116, 101, 100]"

definition promise_any_rejection_text :: "'b host \<Rightarrow> any_reason option list \<Rightarrow> 'b runtime \<Rightarrow> usize \<times> 'b runtime" where
  "promise_any_rejection_text H reasons s =
     (case encode_tagged aggregate_name all_rejected_text None of
        None \<Rightarrow> (ho_static H PROMISE_ANY_REJECTED_ERROR, s)
      | Some bs \<Rightarrow>
          (let (p, n) = arena_string (ho_bump H) (bs @ [5] @ aggregate_json H s reasons) (ts_native s) in (p, s\<lparr>ts_native := n\<rparr>)))"

text \<open>The reason of a rejected child; \<open>None\<close> when an allocation fails or an aggregate carries no text.\<close>

definition any_error_record ::
    "'b host \<Rightarrow> thaw_promise \<Rightarrow> 'b runtime \<Rightarrow> any_reason option \<times> 'b runtime" where
  "any_error_record H pr s =
     (case pr_rejection_text pr of
        None \<Rightarrow> (None, s)
      | Some bs \<Rightarrow>
          (let (text, n) = arena_string (ho_bump H) bs (ts_native s);
               s1 = s\<lparr>ts_native := n\<rparr>
           in if text = 0 then (None, s1)
              else
                (let (record, s2) = arena_alloc H 24 8 s1 in
                 if record = 0 then (None, s2)
                 else (Some \<lparr>an_tag = (if pr_aggregate_errors pr = 0 then 9 else 7), an_payload = record\<rparr>,
                       on_thread (put_usize (record + 16) (pr_object pr)) (on_thread (put_usize (record + 8) (pr_aggregate_errors pr))
                         (on_thread (put_usize record text) s2))))))"

definition promise_any_reason ::
    "'b host \<Rightarrow> thaw_promise \<Rightarrow> usize \<Rightarrow> 'b runtime \<Rightarrow> any_reason option \<times> 'b runtime" where
  "promise_any_reason H pr result s =
     (if pr_aggregate_errors pr \<noteq> 0 \<or> (pr_tag pr = 0 \<and> pr_object pr = 0 \<and> pr_rejection_text pr \<noteq> None)
      then any_error_record H pr s
      else if pr_tag pr = 1 then (Some \<lparr>an_tag = 0, an_payload = unat (pr_f64 pr)\<rparr>, s)
      else if pr_tag pr = 2 then (Some \<lparr>an_tag = 1, an_payload = unat (pr_i64 pr)\<rparr>, s)
      else if pr_tag pr = 3 then (Some \<lparr>an_tag = 2, an_payload = (if pr_bool pr then 1 else 0)\<rparr>, s)
      else if pr_tag pr = 4
      then (let (text, s1) = (case pr_rejection_text pr of
                                Some bs \<Rightarrow> (let (p, n) = arena_string (ho_bump H) bs (ts_native s) in (p, s\<lparr>ts_native := n\<rparr>))
                              | None \<Rightarrow> (result, s))
            in if text = 0 then (None, s1) else (Some \<lparr>an_tag = 3, an_payload = text\<rparr>, s1))
      else if pr_tag pr = 5 then (Some \<lparr>an_tag = 4, an_payload = 0\<rparr>, s)
      else if pr_tag pr = 6 then (Some \<lparr>an_tag = 5, an_payload = 0\<rparr>, s)
      else if pr_tag pr = 0 \<and> pr_object pr \<noteq> 0 then (Some \<lparr>an_tag = 6, an_payload = pr_object pr\<rparr>, s)
      else (Some \<lparr>an_tag = 8, an_payload = result\<rparr>, s))"

text \<open>The reason slots of 16 bytes: a tag byte and a payload word. \<open>None\<close> stops at a missing reason.\<close>

fun any_write :: "usize \<Rightarrow> nat \<Rightarrow> any_reason option list \<Rightarrow> 'b runtime \<Rightarrow> bool \<times> 'b runtime" where
  "any_write buffer index [] s = (True, s)"
| "any_write buffer index (None # rest) s = (False, s)"
| "any_write buffer index (Some reason # rest) s =
     any_write buffer (index + 1) rest
       (on_thread (put_usize (buffer + 8 + index * 16 + 8) (an_payload reason))
         (on_thread (write_mem (buffer + 8 + index * 16) [word_of_nat (an_tag reason)]) s))"

definition promise_any_errors :: "'b host \<Rightarrow> any_reason option list \<Rightarrow> 'b runtime \<Rightarrow> usize \<times> 'b runtime" where
  "promise_any_errors H reasons s =
     (case Option.bind (checked_mul (length reasons) 16) (\<lambda>n. checked_add n 8) of
        None \<Rightarrow> (0, s)
      | Some bytes \<Rightarrow>
          (let (buffer, s1) = arena_alloc H bytes 8 s in
           if buffer = 0 then (0, s1)
           else
             (let (complete, s2) = any_write buffer 0 reasons (on_thread (put_usize buffer (length reasons)) s1) in
              if \<not> complete then (0, s2)
              else (let (handle, t) = wrap_array_handle (ho_bump H) buffer (thr (ts_native s2)) in (handle, on_thread (\<lambda>_. t) s2)))))"

definition any_reject :: "'b host \<Rightarrow> usize \<Rightarrow> any_reason option list \<Rightarrow> 'b runtime \<Rightarrow> 'b runtime" where
  "any_reject H out reasons s =
     (let (errors, s1) = promise_any_errors H reasons s;
          (text, s2) = promise_any_rejection_text H reasons s1;
          (settled, s3) = reject_native_text H out text s2
      in if settled then set_promise_aggregate_errors out errors s3 else s3)"

definition drop_reason_roots :: "(usize \<times> usize) list \<Rightarrow> 'b runtime \<Rightarrow> 'b runtime" where
  "drop_reason_roots pins s = fold root_drop (map snd pins) s"

definition set_reasons :: "nat list \<Rightarrow> any_reason option \<Rightarrow> any_reason option list \<Rightarrow> any_reason option list" where
  "set_reasons indices reason reasons = fold (\<lambda>i rs. rs[i := reason]) indices reasons"

definition any_child_settle ::
    "'b host \<Rightarrow> usize \<Rightarrow> nat list \<Rightarrow> usize \<Rightarrow> promise_any_state \<Rightarrow> 'b runtime \<Rightarrow> promise_any_state \<times> 'b runtime" where
  "any_child_settle H promise indices result st s =
     (if ay_fulfilled st then (st, s)
      else if thaw_promise_state s promise = 1
      then (st\<lparr>ay_fulfilled := True, ay_reason_roots := []\<rparr>,
            snd (forward_promise_fulfillment H (ay_output st) promise result (drop_reason_roots (ay_reason_roots st) s)))
      else
        (let source = (case rt_promises s promise of None \<Rightarrow> new_promise | Some pr \<Rightarrow> pr);
             (reason, s1) = promise_any_reason H source result s;
             (pins, s2) = (case reason of
                             Some r \<Rightarrow> if an_tag r \<in> {3, 6, 7, 8, 9} then pin_promise_pointer_once (an_payload r) (ay_reason_roots st, s1)
                                        else (ay_reason_roots st, s1)
                           | None \<Rightarrow> (ay_reason_roots st, s1))
         in (st\<lparr>ay_reason_roots := pins, ay_reasons := set_reasons indices reason (ay_reasons st)\<rparr>, s2)))"

definition drop_any_state :: "usize \<Rightarrow> promise_any_state \<Rightarrow> 'b runtime \<Rightarrow> 'b runtime" where
  "drop_any_state state st s =
     drop_root_option (ay_output_root st) (drop_reason_roots (ay_reason_roots st) (output_ref_drop (ay_output st) (box_take state s)))"

definition resume_promise_any_child :: "'b host \<Rightarrow> usize \<Rightarrow> usize \<Rightarrow> 'b runtime \<Rightarrow> 'b runtime" where
  "resume_promise_any_child H frame result s =
     (case rt_boxes s frame of
        Some (Any_child_box state promise indices) \<Rightarrow>
          (let s1 = box_take frame s in
           case rt_boxes s1 state of
             Some (Any_box st) \<Rightarrow>
               if ay_cancelled st
               then (let s2 = thaw_promise_destroy promise s1;
                         st1 = st\<lparr>ay_remaining := ay_remaining st - 1\<rparr>
                     in if ay_remaining st1 = 0 then drop_any_state state st1 s2 else set_box state (Any_box st1) s2)
               else
                 (let (st1, s2) = any_child_settle H promise indices result st s1;
                      s3 = thaw_promise_destroy promise s2;
                      st2 = st1\<lparr>ay_remaining := ay_remaining st1 - 1\<rparr>
                  in if ay_remaining st2 = 0
                     then (let s4 = s3\<lparr>rt_any_states := filter (\<lambda>a. a \<noteq> state) (rt_any_states s3)\<rparr>;
                               s5 = (if \<not> ay_fulfilled st2 then any_reject H (ay_output st2) (ay_reasons st2) s4 else s4);
                               s6 = leave_join True (drop_reason_roots (ay_reason_roots st2) s5)
                           in drop_any_state state (st2\<lparr>ay_reason_roots := []\<rparr>) s6)
                     else set_box state (Any_box st2) s3)
           | _ \<Rightarrow> s1)
      | _ \<Rightarrow> s)"

definition any_subscribe :: "'b host \<Rightarrow> usize \<Rightarrow> usize \<times> nat list \<Rightarrow> 'b runtime \<Rightarrow> 'b runtime" where
  "any_subscribe H state grp s =
     (let (child, s1) = box_new H (Any_child_box state (fst grp) (snd grp)) s
      in snd (thaw_promise_subscribe H (fst grp) Resume_any child s1))"

definition thaw_promise_any :: "'b host \<Rightarrow> usize list option \<Rightarrow> nat \<Rightarrow> 'b runtime \<Rightarrow> usize \<times> 'b runtime" where
  "thaw_promise_any H promises len s =
     (let (out, s1) = thaw_promise_new H s in
      (out,
       if len = 0 then any_reject H out [] s1
       else (case promises of
         None \<Rightarrow> reject_static H out PROMISE_ANY_REJECTED_ERROR s1
       | Some ps \<Rightarrow>
           (let grouped = group_handles (take len ps) in
            if grouped = [] then reject_static H out PROMISE_ANY_REJECTED_ERROR s1
            else
              (let (pin, s2) = root_new out (output_ref_new out s1);
                   (state, s3) = box_new H (Any_box \<lparr>ay_output = out, ay_remaining = length grouped, ay_fulfilled = False,
                     ay_reasons = replicate len None, ay_reason_roots = [], ay_output_root = Some pin, ay_cancelled = False\<rparr>) s2;
                   s4 = s3\<lparr>rt_any_states := rt_any_states s3 @ [state], rt_active_joins := rt_active_joins s3 + 1\<rparr>
               in fold (any_subscribe H state) grouped s4)))))"

subsection \<open>Promise.allSettled\<close>

text \<open>One result object: the status text, the value or zeros, and the reason.\<close>

definition settled_object :: "'b host \<Rightarrow> bool \<Rightarrow> usize \<Rightarrow> promise_all_settled_state \<Rightarrow> nat \<Rightarrow> 'b runtime \<Rightarrow> 'b runtime" where
  "settled_object H rejected v st index s =
     (let object = se_objects st + index * se_object_stride st;
          value_slot = object + 8;
          width = max (se_element_size st) 8;
          reason_slot = value_slot + width;
          s1 = on_thread (put_usize object (ho_static H (if rejected then PROMISE_SETTLED_REJECTED else PROMISE_SETTLED_FULFILLED))) s;
          s2 = on_thread (put_zeros value_slot width) s1;
          s3 = (if \<not> rejected then on_thread (copy_bytes v value_slot (se_element_size st)) s2 else s2);
          s4 = on_thread (put_usize reason_slot (if rejected then v else ho_static H PROMISE_SETTLED_EMPTY_REASON)) s3
      in on_thread (put_usize (se_result st + (index + 1) * 8) object) s4)"

definition drop_settled_state :: "usize \<Rightarrow> promise_all_settled_state \<Rightarrow> 'b runtime \<Rightarrow> 'b runtime" where
  "drop_settled_state state st s = output_ref_drop (se_output st) (box_take state s)"

definition resume_promise_all_settled_child :: "'b host \<Rightarrow> usize \<Rightarrow> usize \<Rightarrow> 'b runtime \<Rightarrow> 'b runtime" where
  "resume_promise_all_settled_child H frame v s =
     (case rt_boxes s frame of
        Some (Settled_child_box state promise indices) \<Rightarrow>
          (let s1 = box_take frame s in
           case rt_boxes s1 state of
             Some (Settled_box st) \<Rightarrow>
               (let st1 = st\<lparr>se_remaining := se_remaining st - 1\<rparr> in
                if se_cancelled st
                then (let s2 = thaw_promise_destroy promise s1
                      in if se_remaining st1 = 0 then drop_settled_state state st1 s2 else set_box state (Settled_box st1) s2)
                else
                  (let rejected = (thaw_promise_state s1 promise = 2);
                       s2 = thaw_promise_destroy promise (fold (settled_object H rejected v st) indices s1)
                   in if se_remaining st1 = 0
                      then (let s3 = snd (thaw_promise_resolve H (se_output st) (se_result_slot st) s2);
                                s4 = s3\<lparr>rt_settled_states := filter (\<lambda>a. a \<noteq> state) (rt_settled_states s3)\<rparr>
                            in drop_settled_state state st1 (leave_join True s4))
                      else set_box state (Settled_box st1) s2))
           | _ \<Rightarrow> s1)
      | _ \<Rightarrow> s)"

text \<open>The handles in first-input order, destroyed once each.\<close>

definition consume_distinct_promise_inputs :: "usize list option \<Rightarrow> nat \<Rightarrow> 'b runtime \<Rightarrow> 'b runtime" where
  "consume_distinct_promise_inputs promises len s =
     (case promises of
        None \<Rightarrow> s
      | Some ps \<Rightarrow> fold thaw_promise_destroy (fold (\<lambda>p ds. if p \<noteq> 0 \<and> p \<notin> set ds then ds @ [p] else ds) (take len ps) []) s)"

definition settled_fail :: "'b host \<Rightarrow> usize \<Rightarrow> usize list option \<Rightarrow> nat \<Rightarrow> 'b runtime \<Rightarrow> 'b runtime" where
  "settled_fail H out promises len s =
     consume_distinct_promise_inputs promises len (reject_static H out PROMISE_ALL_INVALID_ERROR s)"

definition settled_subscribe :: "'b host \<Rightarrow> usize \<Rightarrow> usize \<Rightarrow> usize \<Rightarrow> usize \<times> nat list \<Rightarrow> 'b runtime \<Rightarrow> 'b runtime" where
  "settled_subscribe H state result_slot objects grp s =
     (let (child, s1) = box_new H (Settled_child_box state (fst grp) (snd grp)) s;
          (payload_roots, s2) = roots_new [result_slot, objects] s1
      in snd (subscribe_with_roots H (fst grp) Resume_all_settled child payload_roots s2))"

text \<open>The part of the call after the result array exists.\<close>

definition settled_start ::
    "'b host \<Rightarrow> usize \<Rightarrow> usize list option \<Rightarrow> nat \<Rightarrow> nat \<Rightarrow> nat \<Rightarrow> usize \<Rightarrow> usize \<Rightarrow> 'b runtime \<Rightarrow> 'b runtime" where
  "settled_start H out promises len element_size stride allocation objects s =
     (let ps = (case promises of None \<Rightarrow> [] | Some ps \<Rightarrow> take len ps) in
      if len = 0 then snd (thaw_promise_resolve H out allocation s)
      else if 0 \<in> set ps then settled_fail H out promises len s
      else
        (let grouped = group_handles ps;
             (slot_pin, s1) = root_new allocation s;
             (objects_pin, s2) = root_new objects s1;
             (state, s3) = box_new H (Settled_box \<lparr>se_output = out, se_remaining = length grouped, se_result_slot = allocation,
               se_result = allocation + 8, se_objects = objects, se_element_size = element_size, se_object_stride = stride,
               se_cancelled = False\<rparr>) (output_ref_new out s2);
             s4 = s3\<lparr>rt_settled_states := rt_settled_states s3 @ [state], rt_active_joins := rt_active_joins s3 + 1\<rparr>
         in root_drop objects_pin (root_drop slot_pin (fold (settled_subscribe H state allocation objects) grouped s4))))"

definition thaw_promise_all_settled :: "'b host \<Rightarrow> usize list option \<Rightarrow> nat \<Rightarrow> nat \<Rightarrow> 'b runtime \<Rightarrow> usize \<times> 'b runtime" where
  "thaw_promise_all_settled H promises len element_size s =
     (let (out, s0) = thaw_promise_new H s in
      (out,
       if element_size = 0 \<or> (len \<noteq> 0 \<and> promises = None) then settled_fail H out promises len s0
       else (case Option.bind (checked_add len 2) (\<lambda>words. checked_mul words 8) of
         None \<Rightarrow> settled_fail H out promises len s0
       | Some allocation_size \<Rightarrow>
           (let (allocation, s1) = arena_alloc H allocation_size 8 s0 in
            case Option.bind (checked_add 8 (max element_size 8)) (\<lambda>n. checked_add n 8) of
              None \<Rightarrow> settled_fail H out promises len s1
            | Some stride \<Rightarrow>
                (case checked_mul len stride of
                   None \<Rightarrow> settled_fail H out promises len s1
                 | Some objects_size \<Rightarrow>
                     (let (objects, s2) = arena_alloc H objects_size 8 s1 in
                      if allocation = 0 \<or> (len \<noteq> 0 \<and> objects = 0) then settled_fail H out promises len s2
                      else
                        (let s3 = on_thread (put_zeros allocation allocation_size) s2;
                             s4 = (if len \<noteq> 0 then on_thread (put_zeros objects objects_size) s3 else s3);
                             (handle, t) = wrap_array_handle (ho_bump H) (allocation + 8) (thr (ts_native s4));
                             s5 = on_thread (\<lambda>_. t) s4
                         in if handle = 0 then settled_fail H out promises len s5
                            else settled_start H out promises len element_size stride allocation objects
                                   (on_thread (put_usize (allocation + 8) len) (on_thread (put_usize allocation handle) s5))))))))) "

subsection \<open>Purging\<close>

text \<open>The states that a purge makes inert, and the joins it uncounts.\<close>

definition cancel_finally :: "usize \<Rightarrow> 'b runtime \<Rightarrow> 'b runtime" where
  "cancel_finally a s =
     (case rt_boxes s a of
        Some (Finally_adopt_box st) \<Rightarrow>
          set_box a (Finally_adopt_box (st\<lparr>fa_cancelled := True, fa_roots := []\<rparr>)) (fold root_drop (map snd (fa_roots st)) s)
      | _ \<Rightarrow> s)"

definition cancel_any :: "usize \<Rightarrow> 'b runtime \<Rightarrow> 'b runtime" where
  "cancel_any a s =
     (case rt_boxes s a of
        Some (Any_box st) \<Rightarrow>
          set_box a (Any_box (st\<lparr>ay_cancelled := True, ay_reason_roots := [], ay_output_root := None\<rparr>))
            (drop_root_option (ay_output_root st) (drop_reason_roots (ay_reason_roots st) s))
      | _ \<Rightarrow> s)"

definition cancel_settled :: "usize \<Rightarrow> 'b runtime \<Rightarrow> 'b runtime" where
  "cancel_settled a s =
     (case rt_boxes s a of Some (Settled_box st) \<Rightarrow> set_box a (Settled_box (st\<lparr>se_cancelled := True\<rparr>)) s | _ \<Rightarrow> s)"

definition cancel_pending_aggregate_states :: "'b runtime \<Rightarrow> 'b runtime" where
  "cancel_pending_aggregate_states s =
     (let s1 = fold cancel_finally (rt_finally_adopt_states s) (s\<lparr>rt_finally_adopt_states := []\<rparr>);
          s2 = fold cancel_any (rt_any_states s1) (s1\<lparr>rt_any_states := []\<rparr>)
      in fold cancel_settled (rt_settled_states s2) (s2\<lparr>rt_settled_states := []\<rparr>))"

definition uncount_all :: "usize \<Rightarrow> 'b runtime \<Rightarrow> 'b runtime" where
  "uncount_all a s =
     (case rt_boxes s a of Some (All_box st) \<Rightarrow> set_box a (All_box (st\<lparr>al_join_counted := False\<rparr>)) s | _ \<Rightarrow> s)"

definition uncount_race :: "usize \<Rightarrow> 'b runtime \<Rightarrow> 'b runtime" where
  "uncount_race a s =
     (case rt_boxes s a of Some (Race_box st) \<Rightarrow> set_box a (Race_box (st\<lparr>ra_join_counted := False\<rparr>)) s | _ \<Rightarrow> s)"

definition uncount_pending_promise_all_states_for_invocation :: "'b runtime \<Rightarrow> 'b runtime" where
  "uncount_pending_promise_all_states_for_invocation s =
     fold uncount_race (rt_race_states s) (fold uncount_all (rt_all_states s) s)"

end
