(* ===== verification/Promise_Loop.thy ===== *)
theory Promise_Loop
  imports Promise_Join
begin

text \<open>
  Racing, detaching, the collection of unhandled rejections, timers that resolve promises, and the
  queue: one step takes the oldest ready continuation and runs it.
\<close>

subsection \<open>Racing\<close>

definition distinct_handles :: "usize list \<Rightarrow> usize list" where
  "distinct_handles ps = fold (\<lambda>p u. if p = 0 \<or> p \<in> set u then u else u @ [p]) ps []"

definition drop_race_state :: "usize \<Rightarrow> promise_race_state \<Rightarrow> 'b runtime \<Rightarrow> 'b runtime" where
  "drop_race_state a st s = output_ref_drop (ra_output st) (box_take a s)"

definition resume_promise_race_child :: "'b host \<Rightarrow> usize \<Rightarrow> usize \<Rightarrow> 'b runtime \<Rightarrow> 'b runtime" where
  "resume_promise_race_child H frame result s =
     (case rt_boxes s frame of
        Some (Race_child_box state promise) \<Rightarrow>
          (let s1 = box_take frame s in
           case rt_boxes s1 state of
             Some (Race_box st) \<Rightarrow>
               (let s2 = (if \<not> ra_settled st
                          then forward_settlement H (ra_output st) promise result
                                 (s1\<lparr>rt_boxes := (rt_boxes s1)(state \<mapsto> Race_box (st\<lparr>ra_settled := True\<rparr>))\<rparr>)
                          else s1);
                    s3 = thaw_promise_destroy promise s2;
                    st1 = st\<lparr>ra_settled := True, ra_remaining := ra_remaining st - 1\<rparr>;
                    s4 = s3\<lparr>rt_boxes := (rt_boxes s3)(state \<mapsto> Race_box st1)\<rparr>
                in if ra_remaining st1 = 0
                   then drop_race_state state st1
                          (s4\<lparr>rt_race_states := filter (\<lambda>a. a \<noteq> state) (rt_race_states s4),
                              rt_active_joins := (if ra_join_counted st then rt_active_joins s4 - 1 else rt_active_joins s4)\<rparr>)
                   else s4)
           | _ \<Rightarrow> s1)
      | _ \<Rightarrow> s)"

definition race_subscribe :: "'b host \<Rightarrow> usize \<Rightarrow> usize \<Rightarrow> 'b runtime \<Rightarrow> 'b runtime" where
  "race_subscribe H state promise s =
     (let (child, s1) = box_new H (Race_child_box state promise) s
      in snd (thaw_promise_subscribe H promise Resume_race child s1))"

text \<open>\<open>None\<close> is the null array.\<close>

definition thaw_promise_race :: "'b host \<Rightarrow> usize list option \<Rightarrow> nat \<Rightarrow> 'b runtime \<Rightarrow> usize \<times> 'b runtime" where
  "thaw_promise_race H promises len s =
     (let (out, s1) = thaw_promise_new H s in
      if len = 0 then (out, s1)
      else (case promises of
        None \<Rightarrow> (out, snd (reject_native_text H out (ho_static H PROMISE_RACE_INVALID_ERROR) s1))
      | Some ps \<Rightarrow>
          (let unique = distinct_handles (take len ps);
               invalid = (0 \<in> set (take len ps));
               st = \<lparr>ra_output = out, ra_remaining = length unique, ra_settled = invalid, ra_join_counted = (unique \<noteq> [])\<rparr>;
               (state, s2) = box_new H (Race_box st) (output_ref_new out s1);
               s3 = (if unique \<noteq> []
                     then s2\<lparr>rt_race_states := rt_race_states s2 @ [state], rt_active_joins := rt_active_joins s2 + 1\<rparr> else s2);
               s4 = (if invalid then snd (reject_native_text H out (ho_static H PROMISE_RACE_INVALID_ERROR) s3) else s3);
               s5 = fold (race_subscribe H state) unique s4
           in (out, if unique = [] then drop_race_state state st s5 else s5))))"

subsection \<open>Unhandled rejections\<close>

definition bool_text :: "bool \<Rightarrow> bytes" where
  "bool_text b = (if b then [116, 114, 117, 101] else [102, 97, 108, 115, 101])"

definition ascii :: "string \<Rightarrow> bytes" where
  "ascii cs = map (\<lambda>c. of_nat (of_char c)) cs"

definition promise_report_bytes :: "'b host \<Rightarrow> thaw_promise \<Rightarrow> bytes" where
  "promise_report_bytes H source =
     (case pr_rejection_text source of
        Some text \<Rightarrow> text
      | None \<Rightarrow>
          if pr_tag source = 1 then ho_number_text H (pr_f64 source)
          else if pr_tag source = 2 then ho_bigint_text H (pr_i64 source)
          else if pr_tag source = 3 then bool_text (pr_bool source)
          else if pr_tag source = 5 then ascii ''undefined''
          else if pr_tag source = 6 then ascii ''null''
          else if pr_tag source = 4 then ascii ''Unhandled opaque string Promise rejection''
          else ascii ''Unhandled opaque Promise rejection'')"

definition destroy_detached_promise :: "'b host \<Rightarrow> usize \<Rightarrow> usize \<Rightarrow> 'b runtime \<Rightarrow> 'b runtime" where
  "destroy_detached_promise H frame result s =
     (case rt_boxes s frame of
        Some (Detached_box st) \<Rightarrow>
          (let s1 = box_take frame s;
               p = dt_promise st;
               source = (case rt_promises s1 p of None \<Rightarrow> new_promise | Some pr \<Rightarrow> pr);
               rejected = (thaw_promise_state s1 p = 2);
               s2 = (if dt_queue_unhandled st
                     then (if rejected
                           then (let (pin, t) = (if result \<noteq> 0 then (let (r, u) = root_new result s1 in (Some r, u)) else (None, s1))
                                 in update_promise p (\<lambda>pr. pr\<lparr>pr_reported_unhandled := True\<rparr>)
                                      (t\<lparr>rt_orphaned := rt_orphaned t @
                                         [\<lparr>uh_error = result, uh_text = pr_rejection_text source,
                                           uh_diagnostic = promise_report_bytes H source, uh_root = pin\<rparr>]\<rparr>))
                           else s1)
                     else if rejected \<and> dt_pending_exception st \<noteq> 0 \<and> rt_slots s1 (dt_pending_exception st) = 0
                     then (let t = (if \<not> dt_owned_report st \<and> result \<noteq> 0 \<and> pr_rejection_text source \<noteq> None
                                    then s1\<lparr>rt_detached_report_text := insert result (rt_detached_report_text s1)\<rparr> else s1);
                               (v, n) = (if dt_owned_report st
                                         then owned_string (ho_box H t) (promise_report_bytes H source) (ts_native t)
                                         else (result, ts_native t))
                           in t\<lparr>ts_native := n, rt_slots := (rt_slots t)(dt_pending_exception st := v)\<rparr>)
                     else s1)
           in thaw_promise_destroy p s2)
      | _ \<Rightarrow> s)"

definition detach_promise :: "'b host \<Rightarrow> usize \<Rightarrow> usize \<Rightarrow> bool \<Rightarrow> bool \<Rightarrow> 'b runtime \<Rightarrow> bool \<times> 'b runtime" where
  "detach_promise H p pending_exception owned_report queue_unhandled s =
     (if p = 0 then (False, s)
      else
        (let (frame, s1) = box_new H (Detached_box \<lparr>dt_promise = p, dt_pending_exception = pending_exception,
               dt_owned_report = owned_report, dt_queue_unhandled = queue_unhandled\<rparr>) s;
             (subscribed, s2) = thaw_promise_subscribe H p Resume_detached frame s1
         in (subscribed, if subscribed then s2 else box_take frame s2)))"

definition thaw_promise_detach :: "'b host \<Rightarrow> usize \<Rightarrow> usize \<Rightarrow> 'b runtime \<Rightarrow> bool \<times> 'b runtime" where
  "thaw_promise_detach H p pending_exception s = detach_promise H p pending_exception False False s"

definition thaw_promise_detach_for_report :: "'b host \<Rightarrow> usize \<Rightarrow> usize \<Rightarrow> 'b runtime \<Rightarrow> bool \<times> 'b runtime" where
  "thaw_promise_detach_for_report H p pending_rejection s = detach_promise H p pending_rejection True False s"

definition thaw_promise_detach_unhandled :: "'b host \<Rightarrow> usize \<Rightarrow> 'b runtime \<Rightarrow> bool \<times> 'b runtime" where
  "thaw_promise_detach_unhandled H p s = detach_promise H p 0 True True s"

definition unhandled_now :: "thaw_promise \<Rightarrow> bool" where
  "unhandled_now pr \<longleftrightarrow> pr_rejected pr \<and> \<not> pr_handled pr \<and> \<not> pr_reported_unhandled pr"

text \<open>The closure of \<open>filter_map\<close> over the active promises.\<close>

definition collect_one ::
    "'b host \<Rightarrow> usize \<Rightarrow> unhandled_rejection list \<times> 'b runtime \<Rightarrow> unhandled_rejection list \<times> 'b runtime" where
  "collect_one H p acc =
     (case rt_promises (snd acc) p of
        None \<Rightarrow> acc
      | Some pr \<Rightarrow>
          if unhandled_now pr
          then (fst acc @ [\<lparr>uh_error = (case pr_result pr of None \<Rightarrow> 0 | Some r \<Rightarrow> r), uh_text = pr_rejection_text pr,
                   uh_diagnostic = promise_report_bytes H pr, uh_root = None\<rparr>],
                put_promise p (pr\<lparr>pr_reported_unhandled := True\<rparr>) (snd acc))
          else acc)"

definition collect_unhandled_rejections :: "'b host \<Rightarrow> 'b runtime \<Rightarrow> unhandled_rejection list \<times> 'b runtime" where
  "collect_unhandled_rejections H s =
     fold (collect_one H) (rt_active s) (rt_orphaned s, s\<lparr>rt_orphaned := []\<rparr>)"

subsection \<open>Event sources\<close>

text \<open>Times of \<open>Instant\<close> are numbers of nanoseconds.\<close>

definition thaw_sleep_ms :: "'b host \<Rightarrow> nat \<Rightarrow> nat \<Rightarrow> 'b runtime \<Rightarrow> usize \<times> 'b runtime" where
  "thaw_sleep_ms H now milliseconds s =
     (let (p, s1) = thaw_promise_new H s
      in (p, s1\<lparr>rt_promise_timers := rt_promise_timers s1 @ [(now + milliseconds * 1000000, p)]\<rparr>))"

definition thaw_runtime_wait_fd_until :: "'b host \<Rightarrow> int \<Rightarrow> nat \<Rightarrow> nat option \<Rightarrow> 'b runtime \<Rightarrow> usize \<times> 'b runtime" where
  "thaw_runtime_wait_fd_until H fd interests deadline s =
     (let (p, s1) = thaw_promise_new H s in
      if fd < 0 \<or> interests = 0 \<or> 3 < interests
      then (p, snd (reject_native_text H p (ho_static H INVALID_FD_ERROR) s1))
      else (p, s1\<lparr>rt_fd_waits := rt_fd_waits s1 @
             [\<lparr>fw_fd = fd, fw_interests = interests, fw_promise = p, fw_deadline = deadline\<rparr>]\<rparr>))"

text \<open>The loop that removes due timers with \<open>swap_remove\<close>: the last timer takes the place of a due one.\<close>

function take_due :: "nat \<Rightarrow> (nat \<times> usize) list \<Rightarrow> nat \<Rightarrow> usize list \<Rightarrow> (nat \<times> usize) list \<times> usize list" where
  "take_due now timers i due =
     (if i < length timers
      then (if fst (timers ! i) \<le> now then take_due now (swap_remove i timers) i (due @ [snd (timers ! i)])
            else take_due now timers (i + 1) due)
      else (timers, due))"
  by pat_completeness auto
termination
  by (relation "measure (\<lambda>(now, timers, i, due). length timers - i)") (auto simp: swap_remove_def)

declare take_due.simps [simp del]

definition DANGLING :: usize where
  "DANGLING = 1"

definition promote_due_timers :: "'b host \<Rightarrow> nat \<Rightarrow> 'b runtime \<Rightarrow> 'b runtime" where
  "promote_due_timers H now s =
     (let (rest, due) = take_due now (rt_promise_timers s) 0 []
      in fold (\<lambda>p s. snd (thaw_promise_resolve H p DANGLING s)) due (s\<lparr>rt_promise_timers := rest\<rparr>))"

subsection \<open>The queue\<close>

definition resume_continuation :: "'b host \<Rightarrow> resume_fn \<Rightarrow> usize \<Rightarrow> usize \<Rightarrow> 'b runtime \<Rightarrow> 'b runtime" where
  "resume_continuation H resume frame result s =
     (case resume of
        Resume_code f \<Rightarrow> ho_resume H f frame result s
      | Resume_detached \<Rightarrow> destroy_detached_promise H frame result s
      | Resume_chain \<Rightarrow> resume_promise_chain H frame result s
      | Resume_adopt \<Rightarrow> resume_promise_adopt H frame result s
      | Resume_finally \<Rightarrow> resume_promise_finally H frame result s
      | Resume_finally_adopt \<Rightarrow> resume_promise_finally_adopt H frame result s
      | Resume_race \<Rightarrow> resume_promise_race_child H frame result s
      | Resume_all \<Rightarrow> resume_promise_all_child H frame result s
      | Resume_any \<Rightarrow> resume_promise_any_child H frame result s
      | Resume_all_settled \<Rightarrow> resume_promise_all_settled_child H frame result s)"

definition run_ready_continuation :: "'b host \<Rightarrow> 'b runtime \<Rightarrow> bool \<times> 'b runtime" where
  "run_ready_continuation H s =
     (case rt_ready s of
        [] \<Rightarrow> (False, s)
      | c # rest \<Rightarrow>
          (let s1 = s\<lparr>rt_ready := rest\<rparr>;
               s2 = (if rc_js_barrier c \<noteq> 0 then ho_drain H (rc_js_barrier c) s1 else s1);
               sb = rc_subscription c;
               s3 = resume_continuation H (sb_resume sb) (sb_frame sb) (rc_result c) s2
           in (True, root_drop (rc_result_root c) (drop_subscription sb s3))))"

end
