(* ===== verification/Promise_Lemmas.thy ===== *)
theory Promise_Lemmas
  imports Promise_Loop
begin

text \<open>
  What the operations on promises do to the promise heap and to the queue, and the invariant of a
  promise: a settled promise has no subscribers left, a pending one carries no outcome, and the
  reference counts bound the internal references.
\<close>

subsection \<open>Fields an operation does not write\<close>

definition queue_view :: "'b runtime \<Rightarrow> (promise_subscription \<times> usize) list" where
  "queue_view s = map (\<lambda>c. (rc_subscription c, rc_result c)) (rt_ready s)"

lemma root_new_runtime [frame_simps]:
  "rt_promises (snd (root_new r s)) = rt_promises s" "rt_ready (snd (root_new r s)) = rt_ready s"
  "rt_boxes (snd (root_new r s)) = rt_boxes s" "rt_active (snd (root_new r s)) = rt_active s"
  by (simp_all add: root_new_def split_beta Let_def)

lemma root_drop_runtime [frame_simps]:
  "rt_promises (root_drop r s) = rt_promises s" "rt_ready (root_drop r s) = rt_ready s"
  "rt_boxes (root_drop r s) = rt_boxes s" "rt_active (root_drop r s) = rt_active s"
  by (simp_all add: root_drop_def)

lemma fold_root_drop_runtime [frame_simps]:
  "rt_promises (fold root_drop rs s) = rt_promises s" "rt_ready (fold root_drop rs s) = rt_ready s"
  "rt_boxes (fold root_drop rs s) = rt_boxes s" "rt_active (fold root_drop rs s) = rt_active s"
  by (induction rs arbitrary: s) (simp_all add: frame_simps)

lemma drop_subscription_runtime [frame_simps]:
  "rt_promises (drop_subscription sb s) = rt_promises s" "rt_ready (drop_subscription sb s) = rt_ready s"
  "rt_boxes (drop_subscription sb s) = rt_boxes s" "rt_active (drop_subscription sb s) = rt_active s"
  by (simp_all add: drop_subscription_def frame_simps)

lemma fold_drop_subscription_runtime [frame_simps]:
  "rt_promises (fold drop_subscription sbs s) = rt_promises s" "rt_ready (fold drop_subscription sbs s) = rt_ready s"
  "rt_boxes (fold drop_subscription sbs s) = rt_boxes s" "rt_active (fold drop_subscription sbs s) = rt_active s"
  by (induction sbs arbitrary: s) (simp_all add: frame_simps)

lemma replace_ref_runtime [frame_simps]:
  "rt_promises (replace_ref a b c s) = rt_promises s" "rt_ready (replace_ref a b c s) = rt_ready s"
  "rt_boxes (replace_ref a b c s) = rt_boxes s" "rt_active (replace_ref a b c s) = rt_active s"
  by (simp_all add: replace_ref_def)

lemma put_promise_runtime [frame_simps]:
  "rt_promises (put_promise p pr s) = (rt_promises s)(p \<mapsto> pr)" "rt_ready (put_promise p pr s) = rt_ready s"
  "rt_boxes (put_promise p pr s) = rt_boxes s" "rt_active (put_promise p pr s) = rt_active s"
  by (simp_all add: put_promise_def)

lemma update_promise_runtime [frame_simps]:
  "rt_promises (update_promise p f s) = (rt_promises s)(p := map_option f (rt_promises s p))"
  "rt_ready (update_promise p f s) = rt_ready s"
  "rt_boxes (update_promise p f s) = rt_boxes s" "rt_active (update_promise p f s) = rt_active s"
  by (auto simp: update_promise_def frame_simps split: option.split)

lemma enqueue_runtime [frame_simps]:
  "rt_promises (enqueue_continuation H r sb s) = rt_promises s" "rt_boxes (enqueue_continuation H r sb s) = rt_boxes s"
  "rt_active (enqueue_continuation H r sb s) = rt_active s"
  "queue_view (enqueue_continuation H r sb s) = queue_view s @ [(sb, r)]"
  by (simp_all add: enqueue_continuation_def split_beta Let_def frame_simps queue_view_def)

lemma fold_enqueue_runtime [frame_simps]:
  "rt_promises (fold (enqueue_continuation H r) sbs s) = rt_promises s"
  "rt_boxes (fold (enqueue_continuation H r) sbs s) = rt_boxes s"
  "rt_active (fold (enqueue_continuation H r) sbs s) = rt_active s"
  "queue_view (fold (enqueue_continuation H r) sbs s) = queue_view s @ map (\<lambda>sb. (sb, r)) sbs"
  by (induction sbs arbitrary: s) (simp_all add: frame_simps)

lemma queue_view_cong: "rt_ready s = rt_ready s' \<Longrightarrow> queue_view s = queue_view s'"
  by (simp add: queue_view_def)

lemma queue_view_frame [frame_simps]:
  "queue_view (put_promise p pr s) = queue_view s" "queue_view (replace_ref a b c s) = queue_view s"
  "queue_view (update_promise p f s) = queue_view s" "queue_view (root_drop r s) = queue_view s"
  "queue_view (snd (root_new r s)) = queue_view s"
  by (rule queue_view_cong; simp add: frame_simps)+

subsection \<open>Arena memory\<close>

lemma root_drop_memory [frame_simps]: "memory_of (root_drop r s) = memory_of s"
  by (simp add: memory_of_def root_drop_def arena_root_drop_def split: option.split)

lemma fold_root_drop_memory [frame_simps]: "memory_of (fold root_drop rs s) = memory_of s"
  by (induction rs arbitrary: s) (simp_all add: frame_simps)

lemma drop_steps_memory [frame_simps]:
  "memory_of (drop_subscription sb s) = memory_of s" "memory_of (drop_root_option pin s) = memory_of s"
  "rt_boxes (drop_root_option pin s) = rt_boxes s" "rt_boxes (drop_reason_roots pins s) = rt_boxes s"
  by (auto simp: drop_subscription_def drop_root_option_def drop_reason_roots_def frame_simps split: option.split)

lemma fold_drop_subscription_memory [frame_simps]: "memory_of (fold drop_subscription sbs s) = memory_of s"
  by (induction sbs arbitrary: s) (simp_all add: frame_simps)

lemma put_promise_memory [frame_simps]: "memory_of (put_promise p pr s) = memory_of s" "memory_of (box_take a s) = memory_of s"
  "memory_of (set_box a b s) = memory_of s"
  by (simp_all add: put_promise_def box_take_def set_box_def memory_of_def)

lemma destroy_box_memory [frame_simps]: "memory_of (destroy_promise_box p s) = memory_of s"
proof -
  have f: "memory_of (forget_refs p u) = memory_of u" for u :: "'a runtime" by (simp add: memory_of_def forget_refs_def forget_references_def)
  have g: "memory_of (u\<lparr>rt_promises := m\<rparr>) = memory_of u"
    "memory_of (u\<lparr>rt_active := l, rt_promise_timers := ts, rt_fd_waits := ws\<rparr>) = memory_of u"
    for u :: "'a runtime" and m l ts ws by (simp_all add: memory_of_def)
  show ?thesis by (auto simp: destroy_promise_box_def Let_def frame_simps f g split: option.split)
qed

lemma destroy_memory [frame_simps]: "memory_of (thaw_promise_destroy p s) = memory_of s"
  by (auto simp: thaw_promise_destroy_def Let_def frame_simps split: option.split bool.split)

lemma output_ref_memory [frame_simps]:
  "memory_of (release_native_promise_internal p s) = memory_of s" "memory_of (output_ref_drop p s) = memory_of s"
  by (auto simp: output_ref_drop_def release_native_promise_internal_def Let_def frame_simps split: option.split)

subsection \<open>Settlement\<close>

definition settled_promise :: "thaw_promise \<Rightarrow> usize \<Rightarrow> bool \<Rightarrow> usize \<Rightarrow> thaw_promise" where
  "settled_promise pr result rejected provenance =
     pr\<lparr>pr_result := Some result,
        pr_fulfilled_provenance := (if \<not> rejected \<and> provenance \<noteq> 0 then provenance else pr_fulfilled_provenance pr),
        pr_rejected := rejected, pr_subscribers := []\<rparr>"

lemma settle_pending:
  assumes "rt_promises s p = Some pr" "pr_result pr = None"
  shows "fst (settle_promise H p result rejected provenance s)"
    "rt_promises (snd (settle_promise H p result rejected provenance s)) =
       (rt_promises s)(p \<mapsto> settled_promise pr result rejected provenance)"
    "rt_boxes (snd (settle_promise H p result rejected provenance s)) = rt_boxes s"
    "rt_active (snd (settle_promise H p result rejected provenance s)) = rt_active s"
    "queue_view (snd (settle_promise H p result rejected provenance s)) =
       queue_view s @ map (\<lambda>sb. (sb, result)) (pr_subscribers pr)"
  using assms by (simp_all add: settle_promise_def Let_def frame_simps settled_promise_def)

lemma settle_refused:
  "rt_promises s p = None \<or> (\<exists>pr. rt_promises s p = Some pr \<and> pr_result pr \<noteq> None) \<Longrightarrow>
   settle_promise H p result rejected provenance s = (False, s)"
  by (auto simp: settle_promise_def)

lemma settle_cases:
  obtains (refused) "settle_promise H p result rejected provenance s = (False, s)"
  | (settled) pr s' where "rt_promises s p = Some pr" "pr_result pr = None"
      "settle_promise H p result rejected provenance s = (True, s')"
      "rt_promises s' = (rt_promises s)(p \<mapsto> settled_promise pr result rejected provenance)"
      "rt_active s' = rt_active s" "rt_boxes s' = rt_boxes s"
proof (cases "\<exists>pr. rt_promises s p = Some pr \<and> pr_result pr = None")
  case True
  then obtain pr where pr: "rt_promises s p = Some pr" "pr_result pr = None" by blast
  note S = settle_pending [OF pr, of H result rejected provenance]
  show ?thesis
    by (rule settled [OF pr, of "snd (settle_promise H p result rejected provenance s)"]) (use S in \<open>simp_all add: prod_eq_iff\<close>)
next
  case False
  then show ?thesis by (intro refused settle_refused) (cases "rt_promises s p"; auto)
qed

subsection \<open>The invariant of one promise\<close>

definition promise_ok :: "thaw_promise \<Rightarrow> bool" where
  "promise_ok pr \<longleftrightarrow>
     (pr_result pr \<noteq> None \<longrightarrow> pr_subscribers pr = []) \<and>
     (pr_result pr = None \<longrightarrow> \<not> pr_rejected pr \<and> pr_fulfilled_provenance pr = 0 \<and> pr_rejection_text pr = None) \<and>
     pr_internal_references pr \<le> pr_references pr \<and> 0 < pr_references pr"

definition runtime_inv :: "'b runtime \<Rightarrow> bool" where
  "runtime_inv s \<longleftrightarrow>
     rt_promises s 0 = None \<and> (\<forall>p pr. rt_promises s p = Some pr \<longrightarrow> promise_ok pr) \<and>
     distinct (rt_active s) \<and> set (rt_active s) = dom (rt_promises s)"

lemma live_not_null: "runtime_inv s \<Longrightarrow> rt_promises s p = Some pr \<Longrightarrow> p \<noteq> 0"
  by (cases "p = 0") (simp_all add: runtime_inv_def)

lemma runtime_invD:
  "runtime_inv s \<Longrightarrow> rt_promises s p = Some pr \<Longrightarrow> promise_ok pr \<and> p \<noteq> 0 \<and> p \<in> set (rt_active s)"
  using live_not_null [of s p pr] unfolding runtime_inv_def by blast

lemma inv_same: "runtime_inv s \<Longrightarrow> rt_promises s' = rt_promises s \<Longrightarrow> rt_active s' = rt_active s \<Longrightarrow> runtime_inv s'"
  by (simp add: runtime_inv_def)

lemma inv_write:
  assumes "runtime_inv s" "rt_promises s p = Some pr" "promise_ok pr'" "rt_promises s' = (rt_promises s)(p \<mapsto> pr')" "rt_active s' = rt_active s"
  shows "runtime_inv s'"
  using assms live_not_null [OF assms(1,2)] by (auto simp: runtime_inv_def)

lemma inv_update:
  "runtime_inv s \<Longrightarrow> (\<And>pr. rt_promises s p = Some pr \<Longrightarrow> promise_ok pr \<Longrightarrow> promise_ok (f pr)) \<Longrightarrow> runtime_inv (update_promise p f s)"
  by (auto simp: runtime_inv_def frame_simps)

lemma settled_promise_ok: "promise_ok pr \<Longrightarrow> promise_ok (settled_promise pr result rejected provenance)"
  by (simp add: promise_ok_def settled_promise_def)

lemma inv_settle: "runtime_inv s \<Longrightarrow> runtime_inv (snd (settle_promise H p result rejected provenance s))"
proof (cases rule: settle_cases [of H p result rejected provenance s, case_names refused settled])
  case refused
  then show "runtime_inv s \<Longrightarrow> ?thesis" by simp
next
  case (settled pr s')
  assume inv: "runtime_inv s"
  have "runtime_inv s'"
    by (rule inv_write [OF inv settled(1) _ settled(4,5)]) (use runtime_invD [OF inv settled(1)] settled_promise_ok in blast)
  then show ?thesis using settled(3) by simp
qed

lemma settle_result:
  "settle_promise H p result rejected provenance s = (True, s') \<Longrightarrow>
   \<exists>pr. rt_promises s' p = Some pr \<and> pr_result pr = Some result \<and> pr_rejected pr = rejected"
  by (cases rule: settle_cases [of H p result rejected provenance s, case_names refused settled])
     (auto simp: settled_promise_def)

subsection \<open>Every operation keeps the invariant\<close>

named_theorems inv_rules \<open>operations that keep the runtime invariant\<close>

declare inv_settle [inv_rules]

lemma inv_root [inv_rules]:
  "runtime_inv s \<Longrightarrow> runtime_inv (snd (root_new r s))" "runtime_inv s \<Longrightarrow> runtime_inv (root_drop r s)"
  "runtime_inv s \<Longrightarrow> runtime_inv (fold root_drop rs s)" "runtime_inv s \<Longrightarrow> runtime_inv (replace_ref a b c s)"
  "runtime_inv s \<Longrightarrow> runtime_inv (drop_subscription sb s)" "runtime_inv s \<Longrightarrow> runtime_inv (enqueue_continuation H r' sb s)"
  by (erule inv_same; simp add: frame_simps)+

lemma inv_native [inv_rules]:
  fixes s :: "'b runtime"
  shows "runtime_inv s \<Longrightarrow> runtime_inv (s\<lparr>ts_native := n\<rparr>)" "runtime_inv s \<Longrightarrow> runtime_inv (s\<lparr>rt_ready := q\<rparr>)"
    "runtime_inv s \<Longrightarrow> runtime_inv (s\<lparr>rt_boxes := bx\<rparr>)" "runtime_inv s \<Longrightarrow> runtime_inv (s\<lparr>rt_finally_adopt_states := l\<rparr>)"
    "runtime_inv s \<Longrightarrow> runtime_inv (s\<lparr>rt_orphaned := us\<rparr>)"
    "runtime_inv s \<Longrightarrow> runtime_inv (s\<lparr>rt_promise_timers := ts\<rparr>)" "runtime_inv s \<Longrightarrow> runtime_inv (s\<lparr>rt_fd_waits := ws\<rparr>)"
    "runtime_inv s \<Longrightarrow> runtime_inv (s\<lparr>rt_pending_handled := n'\<rparr>)" "runtime_inv s \<Longrightarrow> runtime_inv (s\<lparr>rt_detached_report_text := x\<rparr>)"
    "runtime_inv s \<Longrightarrow> runtime_inv (s\<lparr>rt_slots := y\<rparr>)" "runtime_inv s \<Longrightarrow> runtime_inv (s\<lparr>rt_race_states := l\<rparr>)"
    "runtime_inv s \<Longrightarrow> runtime_inv (s\<lparr>rt_active_joins := n'\<rparr>)" "runtime_inv s \<Longrightarrow> runtime_inv (s\<lparr>rt_all_states := l\<rparr>)"
    "runtime_inv s \<Longrightarrow> runtime_inv (s\<lparr>rt_any_states := l\<rparr>)" "runtime_inv s \<Longrightarrow> runtime_inv (s\<lparr>rt_settled_states := l\<rparr>)"
    "runtime_inv s \<Longrightarrow> runtime_inv (s\<lparr>rt_sidecars := sc\<rparr>)" "runtime_inv s \<Longrightarrow> runtime_inv (s\<lparr>rt_cells := lc\<rparr>)"
    "runtime_inv s \<Longrightarrow> runtime_inv (on_thread g s)"
  by (erule inv_same; simp add: on_thread_def)+

lemma inv_box [inv_rules]:
  "runtime_inv s \<Longrightarrow> runtime_inv (snd (box_new H b s))" "runtime_inv s \<Longrightarrow> runtime_inv (box_take a s)"
  by (simp_all add: box_new_def box_take_def Let_def inv_rules)

lemma inv_mark_handled [inv_rules]: "runtime_inv s \<Longrightarrow> runtime_inv (snd (thaw_promise_mark_handled p s))"
proof (cases "rt_promises s p")
  case (Some pr)
  assume inv: "runtime_inv s"
  then have "promise_ok (pr\<lparr>pr_handled := True\<rparr>)" using runtime_invD [OF inv Some] by (simp add: promise_ok_def)
  then show ?thesis
    by (rule inv_write [OF inv Some]) (simp_all add: thaw_promise_mark_handled_def Some Let_def frame_simps)
qed (simp add: thaw_promise_mark_handled_def)

lemma mark_handled_runtime [frame_simps]:
  "rt_promises (snd (thaw_promise_mark_handled p s)) = (rt_promises s)(p := map_option (\<lambda>pr. pr\<lparr>pr_handled := True\<rparr>) (rt_promises s p))"
  "rt_active (snd (thaw_promise_mark_handled p s)) = rt_active s" "rt_ready (snd (thaw_promise_mark_handled p s)) = rt_ready s"
  "rt_boxes (snd (thaw_promise_mark_handled p s)) = rt_boxes s"
  by (auto simp: thaw_promise_mark_handled_def Let_def frame_simps split: option.split)

lemma subscribe_pending:
  assumes "rt_promises s p = Some pr" "pr_result pr = None"
  shows "\<exists>sb. sb_resume sb = resume \<and> sb_frame sb = frame \<and> sb_payload_roots sb = pins \<and>
    fst (subscribe_with_roots H p resume frame pins s) \<and>
    rt_promises (snd (subscribe_with_roots H p resume frame pins s)) =
      (rt_promises s)(p \<mapsto> pr\<lparr>pr_handled := True, pr_subscribers := pr_subscribers pr @ [sb]\<rparr>) \<and>
    queue_view (snd (subscribe_with_roots H p resume frame pins s)) = queue_view s \<and>
    rt_active (snd (subscribe_with_roots H p resume frame pins s)) = rt_active s"
proof -
  let ?s1 = "snd (thaw_promise_mark_handled p s)"
  let ?sb = "\<lparr>sb_resume = resume, sb_frame = frame, sb_frame_root = fst (root_new frame ?s1), sb_payload_roots = pins\<rparr>"
  have "queue_view ?s1 = queue_view s" by (rule queue_view_cong) (simp add: frame_simps)
  then show ?thesis using assms
    by (intro exI [of _ ?sb]) (simp add: subscribe_with_roots_def split_beta Let_def frame_simps)
qed

lemma subscribe_settled:
  assumes "rt_promises s p = Some pr" "pr_result pr = Some result"
  shows "\<exists>sb. sb_resume sb = resume \<and> sb_frame sb = frame \<and> sb_payload_roots sb = pins \<and>
    fst (subscribe_with_roots H p resume frame pins s) \<and>
    rt_promises (snd (subscribe_with_roots H p resume frame pins s)) = (rt_promises s)(p \<mapsto> pr\<lparr>pr_handled := True\<rparr>) \<and>
    queue_view (snd (subscribe_with_roots H p resume frame pins s)) = queue_view s @ [(sb, result)] \<and>
    rt_active (snd (subscribe_with_roots H p resume frame pins s)) = rt_active s"
proof -
  let ?s1 = "snd (thaw_promise_mark_handled p s)"
  let ?sb = "\<lparr>sb_resume = resume, sb_frame = frame, sb_frame_root = fst (root_new frame ?s1), sb_payload_roots = pins\<rparr>"
  have "queue_view ?s1 = queue_view s" by (rule queue_view_cong) (simp add: frame_simps)
  then show ?thesis using assms
    by (intro exI [of _ ?sb]) (simp add: subscribe_with_roots_def split_beta Let_def frame_simps)
qed

lemma inv_subscribe [inv_rules]: "runtime_inv s \<Longrightarrow> runtime_inv (snd (subscribe_with_roots H p resume frame pins s))"
proof (cases "rt_promises s p")
  case None
  then show "runtime_inv s \<Longrightarrow> ?thesis" by (simp add: subscribe_with_roots_def inv_rules)
next
  case (Some pr)
  assume inv: "runtime_inv s"
  note ok = runtime_invD [OF inv Some, THEN conjunct1]
  show ?thesis
  proof (cases "pr_result pr")
    case None
    obtain sb where "rt_promises (snd (subscribe_with_roots H p resume frame pins s)) =
          (rt_promises s)(p \<mapsto> pr\<lparr>pr_handled := True, pr_subscribers := pr_subscribers pr @ [sb]\<rparr>)"
        "rt_active (snd (subscribe_with_roots H p resume frame pins s)) = rt_active s"
      using subscribe_pending [OF Some None] by blast
    then show ?thesis by (rule inv_write [OF inv Some, rotated]) (use ok None in \<open>simp add: promise_ok_def\<close>)
  next
    case (Some result)
    obtain sb where "rt_promises (snd (subscribe_with_roots H p resume frame pins s)) = (rt_promises s)(p \<mapsto> pr\<lparr>pr_handled := True\<rparr>)"
        "rt_active (snd (subscribe_with_roots H p resume frame pins s)) = rt_active s"
      using subscribe_settled [OF \<open>rt_promises s p = Some pr\<close> Some] by blast
    then show ?thesis by (rule inv_write [OF inv \<open>rt_promises s p = Some pr\<close>, rotated]) (use ok in \<open>simp add: promise_ok_def\<close>)
  qed
qed

lemma inv_subscribe_plain [inv_rules]: "runtime_inv s \<Longrightarrow> runtime_inv (snd (thaw_promise_subscribe H p resume frame s))"
  by (simp add: thaw_promise_subscribe_def inv_rules)

end
