(* ===== verification/Promise_Invariant.thy ===== *)
theory Promise_Invariant
  imports Promise_Lemmas
begin

text \<open>
  The invariant for the rest of the operations: rejections with their metadata, ownership, the
  callbacks of the runtime, and one step of the queue when generated code keeps the invariant.
\<close>

definition settled_at :: "'b runtime \<Rightarrow> usize \<Rightarrow> bool" where
  "settled_at s p \<longleftrightarrow> (\<exists>pr. rt_promises s p = Some pr \<and> pr_result pr \<noteq> None)"

lemma settled_at_settle: "settle_promise H p result rejected provenance s = (True, s') \<Longrightarrow> settled_at s' p"
  using settle_result [of H p result rejected provenance s s'] by (auto simp: settled_at_def)

lemma settled_at_frame [frame_simps]:
  "settled_at (replace_ref a b c s) p = settled_at s p"
  "(\<And>pr. pr_result (f pr) = pr_result pr) \<Longrightarrow> settled_at (update_promise q f s) p = settled_at s p"
  by (auto simp: settled_at_def frame_simps)

lemma inv_text: "runtime_inv s \<Longrightarrow> settled_at s p \<Longrightarrow> runtime_inv (update_promise p (\<lambda>pr. pr\<lparr>pr_rejection_text := t\<rparr>) s)"
  by (rule inv_update) (auto simp: settled_at_def promise_ok_def)

lemma inv_meta [inv_rules]:
  "runtime_inv s \<Longrightarrow> runtime_inv (update_promise p (\<lambda>pr. pr\<lparr>pr_tag := tag, pr_f64 := f, pr_i64 := i, pr_bool := b\<rparr>) s)"
  "runtime_inv s \<Longrightarrow> runtime_inv (update_promise p (\<lambda>pr. pr\<lparr>pr_object := x\<rparr>) s)"
  "runtime_inv s \<Longrightarrow> runtime_inv (update_promise p (\<lambda>pr. pr\<lparr>pr_native := x\<rparr>) s)"
  "runtime_inv s \<Longrightarrow> runtime_inv (update_promise p (\<lambda>pr. pr\<lparr>pr_aggregate_errors := x\<rparr>) s)"
  "runtime_inv s \<Longrightarrow> runtime_inv (update_promise p (\<lambda>pr. pr\<lparr>pr_reported_unhandled := w\<rparr>) s)"
  by (rule inv_update; simp add: promise_ok_def)+

subsection \<open>Rejections\<close>

lemma settle_step:
  "runtime_inv s \<Longrightarrow> settle_promise H p result rejected provenance s = (b, s1) \<Longrightarrow> runtime_inv s1 \<and> (b \<longrightarrow> settled_at s1 p)"
  using inv_settle [of s H p result rejected provenance] settled_at_settle by fastforce

lemma inv_reject_native_text [inv_rules]: "runtime_inv s \<Longrightarrow> runtime_inv (snd (reject_native_text H p error s))"
  using settle_step [of s H p error True 0] by (auto simp: reject_native_text_def Let_def split: prod.split intro: inv_text)

lemma reject_typed_step:
  assumes "runtime_inv s" "thaw_promise_reject_typed H p error tag f i b x s = (r, s1)"
  shows "runtime_inv s1 \<and> (r \<longrightarrow> settled_at s1 p)"
proof -
  obtain c s2 where c: "settle_promise H p error True 0 s = (c, s2)" by (metis prod.exhaust)
  show ?thesis
    using settle_step [OF assms(1) c] assms(2) c
    by (auto simp: thaw_promise_reject_typed_def Let_def inv_rules frame_simps split: if_splits)
qed

lemma inv_aggregate [inv_rules]: "runtime_inv s \<Longrightarrow> runtime_inv (set_promise_aggregate_errors p e s)"
  by (auto simp: set_promise_aggregate_errors_def inv_rules split: option.split)

lemma inv_set_native [inv_rules]: "runtime_inv s \<Longrightarrow> runtime_inv (snd (thaw_promise_set_exception_native p e s))"
  by (auto simp: thaw_promise_set_exception_native_def inv_rules split: option.split)

lemma inv_attach: "runtime_inv s \<Longrightarrow> settled_at s out \<Longrightarrow> runtime_inv (attach_rejection out text aggregate native s)"
  by (simp add: attach_rejection_def inv_rules inv_text)

lemma inv_forward_rejection [inv_rules]: "runtime_inv s \<Longrightarrow> runtime_inv (snd (forward_promise_rejection H out inp error s))"
proof (cases "rt_promises s inp")
  case None
  then show "runtime_inv s \<Longrightarrow> ?thesis" by (simp add: forward_promise_rejection_def thaw_promise_reject_def inv_rules)
next
  case (Some i)
  assume inv: "runtime_inv s"
  obtain r s1 where r: "thaw_promise_reject_typed H out error (pr_tag i) (pr_f64 i) (pr_i64 i) (pr_bool i) (pr_object i) s = (r, s1)"
    by (metis prod.exhaust)
  show ?thesis using reject_typed_step [OF inv r] r Some by (simp add: forward_promise_rejection_def inv_attach)
qed

lemma inv_forward_fulfillment [inv_rules]: "runtime_inv s \<Longrightarrow> runtime_inv (snd (forward_promise_fulfillment H out inp r s))"
  by (simp add: forward_promise_fulfillment_def thaw_promise_resolve_with_provenance_def inv_rules)

lemma inv_forward_settlement [inv_rules]: "runtime_inv s \<Longrightarrow> runtime_inv (forward_settlement H out inp r s)"
  by (simp add: forward_settlement_def inv_rules)

subsection \<open>Ownership\<close>

lemma inv_free:
  assumes "runtime_inv s" "rt_promises s' = (rt_promises s)(p := None)" "rt_active s' = filter (\<lambda>c. c \<noteq> p) (rt_active s)"
  shows "runtime_inv s'"
  using assms by (auto simp: runtime_inv_def split: if_splits)

lemma destroy_box_runtime:
  "rt_promises (destroy_promise_box p s) = (rt_promises s)(p := None)"
  "rt_active (destroy_promise_box p s) = filter (\<lambda>c. c \<noteq> p) (rt_active s)"
  by (auto simp: destroy_promise_box_def Let_def frame_simps forget_refs_def fun_upd_idem split: option.split)

lemma inv_retain_internal [inv_rules]: "runtime_inv s \<Longrightarrow> runtime_inv (snd (retain_native_promise_internal p s))"
proof (cases "rt_promises s p")
  case (Some pr)
  assume inv: "runtime_inv s"
  have "promise_ok (pr\<lparr>pr_references := Suc (pr_references pr), pr_internal_references := Suc (pr_internal_references pr)\<rparr>)"
    using runtime_invD [OF inv Some] by (simp add: promise_ok_def)
  from inv_write [OF inv Some this, of "put_promise p _ s"] show ?thesis
    using inv by (auto simp: retain_native_promise_internal_def Some checked_add_def frame_simps)
qed (simp add: retain_native_promise_internal_def)

lemma inv_release_internal [inv_rules]: "runtime_inv s \<Longrightarrow> runtime_inv (release_native_promise_internal p s)"
proof (cases "rt_promises s p")
  case (Some pr)
  assume inv: "runtime_inv s"
  note ok = runtime_invD [OF inv Some, THEN conjunct1]
  let ?pr = "pr\<lparr>pr_internal_references := pr_internal_references pr - 1, pr_references := pr_references pr - 1\<rparr>"
  consider "pr_internal_references pr = 0" | (last) "pr_internal_references pr \<noteq> 0" "pr_references pr = 1"
    | (more) "pr_internal_references pr \<noteq> 0" "1 < pr_references pr"
    using ok by (fastforce simp: promise_ok_def)
  then show ?thesis
  proof cases
    case 1
    then show ?thesis using inv by (simp add: release_native_promise_internal_def Some)
  next
    case last
    then have e: "release_native_promise_internal p s = destroy_promise_box p (put_promise p ?pr s)"
      by (simp add: release_native_promise_internal_def Some)
    show ?thesis unfolding e by (rule inv_free [OF inv, of _ p]) (simp_all add: destroy_box_runtime frame_simps)
  next
    case more
    then have e: "release_native_promise_internal p s = put_promise p ?pr s"
      by (simp add: release_native_promise_internal_def Some)
    have "promise_ok ?pr" using ok more by (simp add: promise_ok_def diff_le_mono)
    then show ?thesis unfolding e by (rule inv_write [OF inv Some]) (simp_all add: frame_simps)
  qed
qed (simp add: release_native_promise_internal_def)

text \<open>Destroying an external handle: what it does when the promise is live.\<close>

lemma destroy_cases:
  assumes "rt_promises s p = Some pr" "p \<noteq> 0"
  obtains (kept) "pr_references pr \<le> pr_internal_references pr" "thaw_promise_destroy p s = s"
  | (last) "pr_references pr = 1" "pr_internal_references pr = 0"
      "rt_promises (thaw_promise_destroy p s) = (rt_promises s)(p := None)"
      "rt_active (thaw_promise_destroy p s) = filter (\<lambda>c. c \<noteq> p) (rt_active s)"
  | (more) x where "pr_internal_references pr < pr_references pr" "1 < pr_references pr"
      "rt_promises (thaw_promise_destroy p s) = (rt_promises s)(p \<mapsto> pr\<lparr>pr_references := pr_references pr - 1, pr_external_root := x\<rparr>)"
      "rt_active (thaw_promise_destroy p s) = rt_active s"
proof -
  let ?n = "pr_references pr - 1"
  let ?x = "if ?n = pr_internal_references pr then None else pr_external_root pr"
  show ?thesis
  proof (cases "pr_references pr \<le> pr_internal_references pr")
    case True
    then show ?thesis using kept assms by (simp add: thaw_promise_destroy_def)
  next
    case False
    show ?thesis
    proof (cases "?n = 0")
      case True
      then show ?thesis using False assms
        by (intro last) (auto simp: thaw_promise_destroy_def Let_def destroy_box_runtime frame_simps split: option.split bool.split)
    next
      case no: False
      then show ?thesis using False assms
        by (intro more [of ?x]) (auto simp: thaw_promise_destroy_def Let_def frame_simps split: option.split bool.split)
    qed
  qed
qed

lemma inv_destroy [inv_rules]: "runtime_inv s \<Longrightarrow> runtime_inv (thaw_promise_destroy p s)"
proof (cases "rt_promises s p")
  case None
  then show "runtime_inv s \<Longrightarrow> ?thesis" by (simp add: thaw_promise_destroy_def)
next
  case (Some pr)
  assume inv: "runtime_inv s"
  note ok = runtime_invD [OF inv Some]
  then have nz: "p \<noteq> 0" by simp
  show ?thesis
  proof (cases rule: destroy_cases [OF Some nz, case_names kept last more])
    case kept
    then show ?thesis using inv by simp
  next
    case last
    then show ?thesis by (intro inv_free [OF inv])
  next
    case (more x)
    have "promise_ok (pr\<lparr>pr_references := pr_references pr - 1, pr_external_root := x\<rparr>)" using ok more(1,2) by (simp add: promise_ok_def)
    then show ?thesis by (rule inv_write [OF inv Some _ more(3,4)])
  qed
qed

lemma retain_live:
  assumes "rt_promises s p = Some pr" "pr_references pr + 1 < usize_limit"
  shows "\<exists>x. fst (thaw_promise_retain p s) \<and>
    rt_promises (snd (thaw_promise_retain p s)) = (rt_promises s)(p \<mapsto> pr\<lparr>pr_references := Suc (pr_references pr), pr_external_root := x\<rparr>) \<and>
    rt_active (snd (thaw_promise_retain p s)) = rt_active s"
proof (cases "pr_references pr = pr_internal_references pr \<and> tracing (thr (ts_native s))")
  case True
  then show ?thesis using assms
    by (intro exI [of _ "Some (fst (root_new p s))"])
       (auto simp: thaw_promise_retain_def checked_add_def split_beta frame_simps split: option.split)
next
  case False
  then show ?thesis using assms
    by (intro exI [of _ "pr_external_root pr"]) (auto simp: thaw_promise_retain_def checked_add_def frame_simps)
qed

lemma retain_refused:
  "rt_promises s p = Some pr \<Longrightarrow> \<not> pr_references pr + 1 < usize_limit \<Longrightarrow> thaw_promise_retain p s = (False, s)"
  by (simp add: thaw_promise_retain_def checked_add_def)

lemma inv_retain [inv_rules]: "runtime_inv s \<Longrightarrow> runtime_inv (snd (thaw_promise_retain p s))"
proof (cases "rt_promises s p")
  case (Some pr)
  assume inv: "runtime_inv s"
  have ok: "promise_ok (pr\<lparr>pr_references := Suc (pr_references pr), pr_external_root := x\<rparr>)" for x
    using runtime_invD [OF inv Some] by (simp add: promise_ok_def)
  show ?thesis
  proof (cases "pr_references pr + 1 < usize_limit")
    case True
    then show ?thesis using retain_live [OF Some True] inv_write [OF inv Some ok] by blast
  next
    case False
    then show ?thesis using inv by (simp add: retain_refused [OF Some])
  qed
qed (simp add: thaw_promise_retain_def)

lemma inv_output_ref [inv_rules]:
  "runtime_inv s \<Longrightarrow> runtime_inv (output_ref_new out s)" "runtime_inv s \<Longrightarrow> runtime_inv (output_ref_drop out s)"
  by (simp_all add: output_ref_new_def output_ref_drop_def inv_rules)

subsection \<open>Creation and callbacks\<close>

text \<open>The allocator gives a new box an address where no promise lives.\<close>

definition host_fresh :: "'b host \<Rightarrow> bool" where
  "host_fresh H \<longleftrightarrow> (\<forall>s. runtime_inv s \<longrightarrow> ho_box H s \<noteq> 0 \<and> rt_promises s (ho_box H s) = None)"

lemma new_runtime:
  "\<exists>x. fst (thaw_promise_new H s) = ho_box H s \<and>
    rt_promises (snd (thaw_promise_new H s)) = (rt_promises s)(ho_box H s \<mapsto> new_promise\<lparr>pr_external_root := x\<rparr>) \<and>
    rt_active (snd (thaw_promise_new H s)) = rt_active s @ [ho_box H s] \<and>
    rt_ready (snd (thaw_promise_new H s)) = rt_ready s"
  by (cases "tracing (thr (ts_native s))") (auto simp: thaw_promise_new_def split_beta Let_def frame_simps)

lemma inv_new [inv_rules]: "host_fresh H \<Longrightarrow> runtime_inv s \<Longrightarrow> runtime_inv (snd (thaw_promise_new H s))"
proof -
  assume H: "host_fresh H" and inv: "runtime_inv s"
  let ?a = "ho_box H s"
  have a: "?a \<noteq> 0" "rt_promises s ?a = None" using H inv unfolding host_fresh_def by blast+
  obtain x where n: "rt_promises (snd (thaw_promise_new H s)) = (rt_promises s)(?a \<mapsto> new_promise\<lparr>pr_external_root := x\<rparr>)"
      "rt_active (snd (thaw_promise_new H s)) = rt_active s @ [?a]" using new_runtime [of H s] by blast
  have "promise_ok (new_promise\<lparr>pr_external_root := x\<rparr>)" by (simp add: promise_ok_def new_promise_def)
  then show ?thesis using inv a by (auto simp: runtime_inv_def n domIff)
qed

lemma inv_fold_roots:
  "runtime_inv (snd acc) \<Longrightarrow> runtime_inv (snd (fold (\<lambda>p (rs, s). let (r, s1) = root_new p s in (rs @ [r], s1)) ps acc))"
  by (induction ps arbitrary: acc) (auto simp: split_beta Let_def inv_rules)

lemma inv_roots_new [inv_rules]: "runtime_inv s \<Longrightarrow> runtime_inv (snd (roots_new ps s))"
  unfolding roots_new_def by (rule inv_fold_roots) simp

lemma inv_pin_once: "runtime_inv (snd rs) \<Longrightarrow> runtime_inv (snd (pin_promise_pointer_once p rs))"
  by (simp add: pin_promise_pointer_once_def split_beta Let_def inv_rules)

lemma inv_chain [inv_rules]:
  "host_fresh H \<Longrightarrow> runtime_inv s \<Longrightarrow> runtime_inv (snd (promise_chain_with_handlers H inp fulfilled rejected s))"
  by (auto simp: promise_chain_with_handlers_def split_beta Let_def intro!: inv_rules)

lemma inv_adopt [inv_rules]: "runtime_inv s \<Longrightarrow> runtime_inv (snd (thaw_promise_adopt H out inp s))"
  by (auto simp: thaw_promise_adopt_def split_beta Let_def intro!: inv_rules)

lemma inv_finally [inv_rules]: "host_fresh H \<Longrightarrow> runtime_inv s \<Longrightarrow> runtime_inv (snd (thaw_promise_finally H inp callback ctx s))"
  by (auto simp: thaw_promise_finally_def split_beta Let_def intro!: inv_rules)

lemma inv_finally_adopt [inv_rules]:
  "runtime_inv s \<Longrightarrow> runtime_inv (snd (finally_adopt_with_source H out inp original rej tag f i b object source s))"
  by (auto simp: finally_adopt_with_source_def split_beta Let_def intro!: inv_rules inv_pin_once)

lemma inv_detach [inv_rules]: "runtime_inv s \<Longrightarrow> runtime_inv (snd (detach_promise H p e o' q s))"
  by (auto simp: detach_promise_def split_beta Let_def intro!: inv_rules)

lemma inv_race_subscribe: "runtime_inv s \<Longrightarrow> runtime_inv (fold (race_subscribe H state) ps s)"
  by (induction ps arbitrary: s) (simp_all add: race_subscribe_def split_beta Let_def inv_rules)

lemma inv_race [inv_rules]: "host_fresh H \<Longrightarrow> runtime_inv s \<Longrightarrow> runtime_inv (snd (thaw_promise_race H promises len s))"
  by (auto simp: thaw_promise_race_def drop_race_state_def split_beta Let_def split: option.split intro!: inv_rules inv_race_subscribe)

lemma inv_sleep [inv_rules]: "host_fresh H \<Longrightarrow> runtime_inv s \<Longrightarrow> runtime_inv (snd (thaw_sleep_ms H now ms s))"
  by (auto simp: thaw_sleep_ms_def split_beta Let_def intro!: inv_rules)

lemma inv_wait_fd [inv_rules]: "host_fresh H \<Longrightarrow> runtime_inv s \<Longrightarrow> runtime_inv (snd (thaw_runtime_wait_fd_until H fd i d s))"
  by (auto simp: thaw_runtime_wait_fd_until_def split_beta Let_def intro!: inv_rules)

lemma inv_promote [inv_rules]: "runtime_inv s \<Longrightarrow> runtime_inv (promote_due_timers H now s)"
proof -
  have "runtime_inv s \<Longrightarrow> runtime_inv (fold (\<lambda>p s. snd (thaw_promise_resolve H p DANGLING s)) ps s)" for ps s
    by (induction ps arbitrary: s) (simp_all add: thaw_promise_resolve_def inv_rules)
  then show "runtime_inv s \<Longrightarrow> ?thesis" by (simp add: promote_due_timers_def split_beta Let_def inv_rules)
qed

lemma inv_collect [inv_rules]: "runtime_inv s \<Longrightarrow> runtime_inv (snd (collect_unhandled_rejections H s))"
proof -
  have one: "runtime_inv (snd (collect_one H p acc))" if inv: "runtime_inv (snd acc)" for p acc
  proof (cases "rt_promises (snd acc) p")
    case (Some pr)
    have "promise_ok (pr\<lparr>pr_reported_unhandled := True\<rparr>)" using runtime_invD [OF inv Some] by (simp add: promise_ok_def)
    from inv_write [OF inv Some this, of "put_promise p _ (snd acc)"] show ?thesis
      using inv by (simp add: collect_one_def Some frame_simps)
  qed (simp add: collect_one_def that)
  have "runtime_inv (snd acc) \<Longrightarrow> runtime_inv (snd (fold (collect_one H) ps acc))" for ps acc
    by (induction ps arbitrary: acc) (simp_all add: one)
  then show "runtime_inv s \<Longrightarrow> ?thesis" by (simp add: collect_unhandled_rejections_def inv_rules)
qed

subsection \<open>Joins\<close>

lemma inv_join_steps [inv_rules]:
  "runtime_inv s \<Longrightarrow> runtime_inv (set_box a b s)" "runtime_inv s \<Longrightarrow> runtime_inv (leave_join c s)"
  "runtime_inv s \<Longrightarrow> runtime_inv (drop_root_option pin s)" "runtime_inv s \<Longrightarrow> runtime_inv (reject_static H out tx s)"
  "runtime_inv s \<Longrightarrow> runtime_inv (drop_reason_roots pins s)" "runtime_inv s \<Longrightarrow> runtime_inv (snd (arena_alloc H n al s))"
  by (auto simp: set_box_def leave_join_def drop_root_option_def reject_static_def drop_reason_roots_def arena_alloc_def split_beta
      Let_def inv_rules split: option.split)

lemma inv_fold: "(\<And>x t. runtime_inv t \<Longrightarrow> runtime_inv (f x t)) \<Longrightarrow> runtime_inv s \<Longrightarrow> runtime_inv (fold f xs s)"
  by (induction xs arbitrary: s) auto

lemma inv_all_write: "runtime_inv (snd acc) \<Longrightarrow> runtime_inv (snd (all_write H rec result is acc))"
proof (induction H rec result "is" acc rule: all_write.induct)
  case (2 H rec result i rest st s)
  then show ?case by (auto simp: Let_def inv_rules split: prod.split)
qed simp

lemma inv_all_settle: "runtime_inv s \<Longrightarrow> runtime_inv (snd (all_child_settle H p is r st s))"
  by (auto simp: all_child_settle_def inv_rules intro!: inv_all_write)

lemma inv_all_finish: "runtime_inv s \<Longrightarrow> runtime_inv (all_finish H a st s)"
  by (simp add: all_finish_def Let_def thaw_promise_resolve_def inv_rules)

lemma inv_resume_all: "runtime_inv s \<Longrightarrow> runtime_inv (resume_promise_all_child H frame r s)"
  using inv_all_settle [of "box_take frame s"]
  by (auto simp: resume_promise_all_child_def Let_def split_beta inv_rules inv_all_finish split: option.split boxed.split)

lemma inv_all_subscribe: "runtime_inv s \<Longrightarrow> runtime_inv (all_subscribe H a g s)"
  by (simp add: all_subscribe_def split_beta Let_def inv_rules)

lemma inv_all_start: "runtime_inv s \<Longrightarrow> runtime_inv (all_start H out ps len zs os r rs rh s)"
  by (auto simp: all_start_def Let_def split_beta thaw_promise_resolve_def inv_rules intro!: inv_fold inv_all_subscribe split: option.split)

lemma inv_all [inv_rules]: "host_fresh H \<Longrightarrow> runtime_inv s \<Longrightarrow> runtime_inv (snd (thaw_promise_all_typed H ps zs len s))"
  by (auto simp: thaw_promise_all_typed_def Let_def split_beta inv_rules inv_all_start split: option.split)

lemma inv_any_record: "runtime_inv s \<Longrightarrow> runtime_inv (snd (any_error_record H pr s))"
  by (auto simp: any_error_record_def Let_def split_beta inv_rules split: option.split)

lemma inv_any_reason: "runtime_inv s \<Longrightarrow> runtime_inv (snd (promise_any_reason H pr r s))"
  by (auto simp: promise_any_reason_def Let_def split_beta inv_rules inv_any_record split: option.split)

lemma inv_any_write: "runtime_inv s \<Longrightarrow> runtime_inv (snd (any_write b i rs s))"
  by (induction b i rs s rule: any_write.induct) (simp_all add: inv_rules)

lemma inv_any_errors: "runtime_inv s \<Longrightarrow> runtime_inv (snd (promise_any_errors H rs s))"
  by (auto simp: promise_any_errors_def Let_def split_beta inv_rules inv_any_write split: option.split)

lemma inv_any_reject [inv_rules]: "runtime_inv s \<Longrightarrow> runtime_inv (any_reject H out rs s)"
  using inv_any_errors [of s H rs]
  by (auto simp: any_reject_def promise_any_rejection_text_def Let_def split_beta inv_rules split: option.split)

lemma inv_any_settle: "runtime_inv s \<Longrightarrow> runtime_inv (snd (any_child_settle H p is r st s))"
  using inv_any_reason
  by (auto simp: any_child_settle_def Let_def split_beta inv_rules intro!: inv_pin_once split: option.split)

lemma inv_resume_any: "runtime_inv s \<Longrightarrow> runtime_inv (resume_promise_any_child H frame r s)"
  using inv_any_settle [of "box_take frame s"]
  by (auto simp: resume_promise_any_child_def drop_any_state_def Let_def split_beta inv_rules split: option.split boxed.split)

lemma inv_any_subscribe: "runtime_inv s \<Longrightarrow> runtime_inv (any_subscribe H a g s)"
  by (simp add: any_subscribe_def split_beta Let_def inv_rules)

lemma inv_any [inv_rules]: "host_fresh H \<Longrightarrow> runtime_inv s \<Longrightarrow> runtime_inv (snd (thaw_promise_any H ps len s))"
  by (auto simp: thaw_promise_any_def Let_def split_beta inv_rules intro!: inv_fold inv_any_subscribe split: option.split)

lemma inv_settled_object: "runtime_inv s \<Longrightarrow> runtime_inv (settled_object H rej v st i s)"
  by (simp add: settled_object_def Let_def inv_rules)

lemma inv_resume_settled: "runtime_inv s \<Longrightarrow> runtime_inv (resume_promise_all_settled_child H frame v s)"
  by (auto simp: resume_promise_all_settled_child_def drop_settled_state_def thaw_promise_resolve_def Let_def inv_rules
      intro!: inv_rules inv_fold [OF inv_settled_object] split: option.split boxed.split)

lemma inv_settled_fail [inv_rules]: "runtime_inv s \<Longrightarrow> runtime_inv (settled_fail H out ps len s)"
  by (auto simp: settled_fail_def consume_distinct_promise_inputs_def inv_rules intro!: inv_fold split: option.split)

lemma inv_settled_subscribe: "runtime_inv s \<Longrightarrow> runtime_inv (settled_subscribe H a x y g s)"
  by (simp add: settled_subscribe_def split_beta Let_def inv_rules)

lemma inv_settled_start [inv_rules]: "runtime_inv s \<Longrightarrow> runtime_inv (settled_start H out ps len z w al ob s)"
  by (auto simp: settled_start_def Let_def split_beta thaw_promise_resolve_def inv_rules intro!: inv_rules inv_fold inv_settled_subscribe)

lemma inv_all_settled [inv_rules]: "host_fresh H \<Longrightarrow> runtime_inv s \<Longrightarrow> runtime_inv (snd (thaw_promise_all_settled H ps len z s))"
  by (auto simp: thaw_promise_all_settled_def Let_def split_beta inv_rules split: option.split)

lemma inv_cancel [inv_rules]: "runtime_inv s \<Longrightarrow> runtime_inv (cancel_pending_aggregate_states s)"
  by (auto simp: cancel_pending_aggregate_states_def cancel_finally_def cancel_any_def cancel_settled_def Let_def
      intro!: inv_rules inv_fold split: option.split boxed.split)

lemma inv_uncount [inv_rules]: "runtime_inv s \<Longrightarrow> runtime_inv (uncount_pending_promise_all_states_for_invocation s)"
  by (auto simp: uncount_pending_promise_all_states_for_invocation_def uncount_all_def uncount_race_def
      intro!: inv_rules inv_fold split: option.split boxed.split)

subsection \<open>The queue\<close>

text \<open>Generated code keeps the invariant when it acts through the exported functions.\<close>

definition host_keeps :: "'b host \<Rightarrow> bool" where
  "host_keeps H \<longleftrightarrow> host_fresh H \<and>
     (\<forall>s. runtime_inv s \<longrightarrow>
        (\<forall>n. runtime_inv (ho_drain H n s)) \<and> (\<forall>f a r. runtime_inv (ho_resume H f a r s)) \<and>
        (\<forall>f c out inp r. runtime_inv (ho_transform H f c out inp r s)) \<and>
        (\<forall>f c out inp r b. runtime_inv (ho_finally H f c out inp r b s)))"

lemma host_keepsD:
  assumes "host_keeps H" "runtime_inv s"
  shows "runtime_inv (ho_drain H n s)" "runtime_inv (ho_resume H f a r s)" "runtime_inv (ho_transform H f c out inp r s)"
    "runtime_inv (ho_finally H f c out inp r b s)"
  using assms unfolding host_keeps_def by blast+

lemma inv_resume_chain: "host_keeps H \<Longrightarrow> runtime_inv s \<Longrightarrow> runtime_inv (resume_promise_chain H frame r s)"
  by (auto simp: resume_promise_chain_def Let_def split: option.split boxed.split intro!: inv_rules host_keepsD)

lemma inv_resume_adopt: "runtime_inv s \<Longrightarrow> runtime_inv (resume_promise_adopt H frame r s)"
  by (auto simp: resume_promise_adopt_def split: option.split boxed.split intro!: inv_rules)

lemma inv_resume_finally: "host_keeps H \<Longrightarrow> runtime_inv s \<Longrightarrow> runtime_inv (resume_promise_finally H frame r s)"
  by (auto simp: resume_promise_finally_def Let_def split: option.split boxed.split intro!: inv_rules host_keepsD)

lemma inv_finally_settle [inv_rules]:
  assumes "runtime_inv s"
  shows "runtime_inv (finally_adopt_settle H st result s)"
proof -
  obtain r t where r: "thaw_promise_reject_typed H (fa_output st) (fa_original st) (fa_tag st) (fa_f64 st)
      (fa_i64 st) (fa_bool st) (fa_object st) s = (r, t)" by (metis prod.exhaust)
  show ?thesis using assms reject_typed_step [OF assms r]
    by (simp add: finally_adopt_settle_def r inv_attach inv_rules thaw_promise_resolve_with_provenance_def)
qed

lemma inv_resume_finally_adopt: "runtime_inv s \<Longrightarrow> runtime_inv (resume_promise_finally_adopt H frame r s)"
  by (auto simp: resume_promise_finally_adopt_def drop_finally_adopt_def Let_def split: option.split boxed.split intro!: inv_rules)

lemma inv_resume_race: "runtime_inv s \<Longrightarrow> runtime_inv (resume_promise_race_child H frame r s)"
  by (auto simp: resume_promise_race_child_def drop_race_state_def Let_def split: option.split boxed.split intro!: inv_rules)

lemma inv_resume_detached: "runtime_inv s \<Longrightarrow> runtime_inv (destroy_detached_promise H frame r s)"
  by (auto simp: destroy_detached_promise_def Let_def split_beta split: option.split boxed.split intro!: inv_rules)

lemma inv_resume: "host_keeps H \<Longrightarrow> runtime_inv s \<Longrightarrow> runtime_inv (resume_continuation H f frame r s)"
  by (simp add: resume_continuation_def inv_resume_chain inv_resume_adopt inv_resume_finally inv_resume_finally_adopt
      inv_resume_race inv_resume_detached inv_resume_all inv_resume_any inv_resume_settled host_keepsD split: resume_fn.split)

lemma inv_run_ready: "host_keeps H \<Longrightarrow> runtime_inv s \<Longrightarrow> runtime_inv (snd (run_ready_continuation H s))"
  by (auto simp: run_ready_continuation_def Let_def split: list.split intro!: inv_rules inv_resume host_keepsD)

end
