(* ===== verification/Event_Loop.thy ===== *)
theory Event_Loop
  imports Promise_Loop
begin

text \<open>
  The event loop of \<open>crates/thaw-runtime/src/lib.rs\<close> and the reports of unhandled rejections of
  \<open>promises.rs\<close>: descriptors, watchers, deadlines, one poll, the drains, and the hand-over of ready
  continuations between threads. Durations and instants are numbers of nanoseconds.

  What the loop gets from outside is a record \<open>loop_host\<close>: generated code, the clock by reading,
  \<open>libc::poll\<close>, the callbacks of watchers and reporters, the server hook, and number formatting.
  The text of a report is the business of thaw-std; here a report is the pointer that it is given.
\<close>

record 'b loop_host =
  lh_host :: "'b host"
  lh_clock :: "nat \<Rightarrow> nat"
  lh_ms :: "nat \<Rightarrow> rat"
  lh_round :: "rat \<Rightarrow> rat"
  lh_duration :: "rat \<Rightarrow> nat"
  lh_fire :: "nat \<Rightarrow> usize \<Rightarrow> 'b runtime \<Rightarrow> 'b runtime"
  lh_poll :: "(int \<times> nat) list \<Rightarrow> int \<Rightarrow> 'b runtime \<Rightarrow> int \<times> nat list"
  lh_watch :: "nat \<Rightarrow> usize \<Rightarrow> nat \<Rightarrow> 'b runtime \<Rightarrow> 'b runtime"
  lh_report :: "nat \<Rightarrow> usize \<Rightarrow> 'b runtime \<Rightarrow> bool \<times> 'b runtime"
  lh_report_result :: "nat \<Rightarrow> usize \<Rightarrow> 'b runtime \<Rightarrow> (nat \<times> usize) \<times> 'b runtime"
  lh_handled :: "nat \<Rightarrow> 'b runtime \<Rightarrow> 'b runtime"
  lh_handled_result :: "nat \<Rightarrow> 'b runtime \<Rightarrow> usize \<times> 'b runtime"
  lh_servers :: "'b runtime \<Rightarrow> nat \<times> 'b runtime"
  lh_seconds :: "nat \<Rightarrow> bytes"
  lh_error_with_props :: "usize \<Rightarrow> 'b runtime \<Rightarrow> bytes"

definition instant_now :: "'b loop_host \<Rightarrow> 'b runtime \<Rightarrow> nat \<times> 'b runtime" where
  "instant_now L s = (lh_clock L (ts_readings s), s\<lparr>ts_readings := ts_readings s + 1\<rparr>)"

definition on_cells :: "(loop_cells \<Rightarrow> loop_cells) \<Rightarrow> 'b runtime \<Rightarrow> 'b runtime" where
  "on_cells f s = s\<lparr>rt_cells := f (rt_cells s)\<rparr>"

subsection \<open>Descriptors\<close>

definition THAW_FD_READABLE :: nat where "THAW_FD_READABLE = 1"
definition THAW_FD_WRITABLE :: nat where "THAW_FD_WRITABLE = 2"
definition POLLIN :: nat where "POLLIN = 1"
definition POLLOUT :: nat where "POLLOUT = 4"
definition POLLNVAL :: nat where "POLLNVAL = 32"

definition bit_set :: "nat \<Rightarrow> nat \<Rightarrow> bool" where
  "bit_set flags flag \<longleftrightarrow> flags div flag mod 2 = 1"

definition poll_events :: "nat \<Rightarrow> nat" where
  "poll_events interests =
     (if bit_set interests THAW_FD_READABLE then POLLIN else 0) + (if bit_set interests THAW_FD_WRITABLE then POLLOUT else 0)"

definition fd_poll_timeout_ms :: "nat option \<Rightarrow> int" where
  "fd_poll_timeout_ms timeout =
     (case timeout of Some duration \<Rightarrow> int (min ((duration + 999999) div 1000000) (2 ^ 31 - 1)) | None \<Rightarrow> - 1)"

definition least_delay :: "nat list \<Rightarrow> nat option" where
  "least_delay ds = (if ds = [] then None else Some (Min (set ds)))"

definition min_delay :: "nat option \<Rightarrow> nat option \<Rightarrow> nat option" where
  "min_delay a b =
     (case (a, b) of (Some x, Some y) \<Rightarrow> Some (min x y) | (Some x, None) \<Rightarrow> Some x | (None, y) \<Rightarrow> y)"

text \<open>The waits from the last index to the first: a ready or expired one is removed with \<open>swap_remove\<close>.\<close>

fun complete_waits ::
    "nat \<Rightarrow> nat list \<Rightarrow> nat \<Rightarrow> promise_fd_wait list \<Rightarrow> promise_fd_wait list \<times> (usize \<times> nat \<times> bool) list" where
  "complete_waits now revents 0 waits = (waits, [])"
| "complete_waits now revents (Suc index) waits =
     (let timed_out = (case fw_deadline (waits ! index) of Some d \<Rightarrow> d \<le> now | None \<Rightarrow> False) in
      if revents ! index \<noteq> 0 \<or> timed_out
      then (let (rest, completed) = complete_waits now revents index (swap_remove index waits)
            in (rest, (fw_promise (waits ! index), revents ! index, timed_out) # completed))
      else complete_waits now revents index waits)"

definition settle_wait :: "'b host \<Rightarrow> usize \<times> nat \<times> bool \<Rightarrow> 'b runtime \<Rightarrow> 'b runtime" where
  "settle_wait H w s =
     (case w of (p, events, timed_out) \<Rightarrow>
        if timed_out \<and> events = 0 then snd (reject_native_text H p (ho_static H FD_TIMEOUT_ERROR) s)
        else if bit_set events POLLNVAL then snd (reject_native_text H p (ho_static H INVALID_FD_ERROR) s)
        else snd (thaw_promise_resolve H p DANGLING s))"

text \<open>A watcher runs when it is still registered; the clone that the loop holds is dropped after it.\<close>

definition run_watcher :: "'b loop_host \<Rightarrow> fd_watcher \<times> nat \<times> usize \<Rightarrow> nat \<times> 'b runtime \<Rightarrow> nat \<times> 'b runtime" where
  "run_watcher L ready acc =
     (case (ready, acc) of ((w, events, pin), (ran_so_far, s)) \<Rightarrow>
        if list_ex (\<lambda>c. wa_id c = wa_id w) (lc_watchers (rt_cells s))
        then (ran_so_far + 1, root_drop pin (lh_watch L (wa_callback w) (wa_context w) events s))
        else (ran_so_far, root_drop pin s))"

definition clone_watchers :: "(fd_watcher \<times> nat) list \<Rightarrow> 'b runtime \<Rightarrow> (fd_watcher \<times> nat \<times> usize) list \<times> 'b runtime" where
  "clone_watchers ws s =
     fold (\<lambda>(w, events) (acc, s). let (pin, s1) = root_new (wa_root w) s in (acc @ [(w, events, pin)], s1)) ws ([], s)"

definition poll_fd_waits :: "'b loop_host \<Rightarrow> nat option \<Rightarrow> 'b runtime \<Rightarrow> nat \<times> 'b runtime" where
  "poll_fd_waits L timeout s =
     (let waits = rt_fd_waits s;
          pollfds = map (\<lambda>w. (fw_fd w, poll_events (fw_interests w))) waits @
                    map (\<lambda>w. (wa_fd w, poll_events (wa_interests w))) (lc_watchers (rt_cells s))
      in if pollfds = [] then (0, s)
         else
           (let (now, s1) = instant_now L s;
                fd_delay = least_delay (map (\<lambda>d. d - now) (List.map_filter fw_deadline waits));
                (ready, revents) = lh_poll L pollfds (fd_poll_timeout_ms (min_delay timeout fd_delay)) s1
            in if ready < 0 then (0, s1)
               else
                 (let (now2, s2) = instant_now L s1;
                      (rest, completed) = complete_waits now2 revents (length waits) waits;
                      s3 = fold (settle_wait (lh_host L)) completed (s2\<lparr>rt_fd_waits := rest\<rparr>);
                      ready_watchers = filter (\<lambda>(_, events). events \<noteq> 0)
                                         (zip (lc_watchers (rt_cells s3)) (drop (length waits) revents));
                      (cloned, s4) = clone_watchers ready_watchers s3;
                      (watcher_count, s5) = fold (run_watcher L) cloned (0, s4)
                  in (length completed + watcher_count, s5))))"

definition has_fd_waits :: "'b runtime \<Rightarrow> bool" where
  "has_fd_waits s \<longleftrightarrow> rt_fd_waits s \<noteq> [] \<or> lc_watchers (rt_cells s) \<noteq> []"

definition thaw_runtime_watch_fd :: "int \<Rightarrow> nat \<Rightarrow> nat \<Rightarrow> usize \<Rightarrow> 'b runtime \<Rightarrow> nat \<times> 'b runtime" where
  "thaw_runtime_watch_fd fd interests callback ctx s =
     (if fd < 0 \<or> interests = 0 \<or> 3 < interests then (0, s)
      else
        (let w = lc_next_watcher (rt_cells s);
             (pin, s1) = root_new ctx (on_cells (\<lambda>c. c\<lparr>lc_next_watcher := w + 1\<rparr>) s)
         in (w, on_cells (\<lambda>c. c\<lparr>lc_watchers := lc_watchers c @
               [\<lparr>wa_id = w, wa_fd = fd, wa_interests = interests, wa_callback = callback, wa_context = ctx, wa_root = pin\<rparr>]\<rparr>) s1)))"

definition thaw_runtime_unwatch_fd :: "nat \<Rightarrow> 'b runtime \<Rightarrow> bool \<times> 'b runtime" where
  "thaw_runtime_unwatch_fd w s =
     (case position (\<lambda>c. wa_id c = w) (lc_watchers (rt_cells s)) of
        None \<Rightarrow> (False, s)
      | Some index \<Rightarrow>
          (True, root_drop (wa_root (lc_watchers (rt_cells s) ! index))
                   (on_cells (\<lambda>c. c\<lparr>lc_watchers := swap_remove index (lc_watchers c)\<rparr>) s)))"

definition thaw_runtime_wait_fd :: "'b host \<Rightarrow> int \<Rightarrow> nat \<Rightarrow> 'b runtime \<Rightarrow> usize \<times> 'b runtime" where
  "thaw_runtime_wait_fd H fd interests s = thaw_runtime_wait_fd_until H fd interests None s"

definition thaw_runtime_wait_fd_timeout :: "'b loop_host \<Rightarrow> int \<Rightarrow> nat \<Rightarrow> nat \<Rightarrow> 'b runtime \<Rightarrow> usize \<times> 'b runtime" where
  "thaw_runtime_wait_fd_timeout L fd interests milliseconds s =
     (let (now, s1) = instant_now L s
      in thaw_runtime_wait_fd_until (lh_host L) fd interests (Some (now + milliseconds * 1000000)) s1)"

subsection \<open>Reports\<close>

text \<open>The bytes of a C string; they are printed with invalid UTF-8 replaced.\<close>

definition c_string :: "'b runtime \<Rightarrow> usize \<Rightarrow> bytes" where
  "c_string s p = (case cstr_length (memory_of s) p of None \<Rightarrow> [] | Some n \<Rightarrow> read_bytes_at (memory_of s) p n)"

definition report_line_out :: "report_line \<Rightarrow> 'b runtime \<Rightarrow> 'b runtime" where
  "report_line_out l s = on_cells (\<lambda>c. c\<lparr>lc_reported := lc_reported c @ [l]\<rparr>) s"

definition thaw_runtime_report_uncaught :: "usize \<Rightarrow> 'b runtime \<Rightarrow> 'b runtime" where
  "thaw_runtime_report_uncaught error s = (if error \<noteq> 0 then report_line_out (Uncaught_line error) s else s)"

definition rejection_reason :: "bytes \<Rightarrow> bytes" where
  "rejection_reason text = (if take 1 text = [123] then ascii ''#<Object>'' else text)"

definition thaw_runtime_report_unhandled_rejection :: "usize \<Rightarrow> 'b runtime \<Rightarrow> 'b runtime" where
  "thaw_runtime_report_unhandled_rejection error s =
     (let s1 = thaw_runtime_report_uncaught error s in
      if error = 0 then s1
      else
        (let text = c_string s1 error in
         if take 1 text = [1] \<or> text = ascii ''Unhandled opaque Promise rejection'' then s1
         else report_line_out (Rejection_line (rejection_reason text)) s1))"

definition is_detached_report_text :: "'b runtime \<Rightarrow> usize \<Rightarrow> bool" where
  "is_detached_report_text s text \<longleftrightarrow> text \<in> rt_detached_report_text s"

definition exception_report_bytes :: "'b host \<Rightarrow> nat \<Rightarrow> u64 \<Rightarrow> u64 \<Rightarrow> bool \<Rightarrow> bytes" where
  "exception_report_bytes H tag f64_value i64_value bool_value =
     (if tag = 1 then ho_number_text H f64_value
      else if tag = 2 then ho_bigint_text H i64_value
      else if tag = 3 then bool_text bool_value
      else if tag = 5 then ascii ''undefined''
      else if tag = 6 then ascii ''null''
      else if tag = 4 then ascii ''Uncaught opaque string exception''
      else ascii ''Uncaught opaque exception'')"

definition thaw_runtime_exception_report_text ::
    "'b loop_host \<Rightarrow> usize \<Rightarrow> usize \<Rightarrow> nat \<Rightarrow> u64 \<Rightarrow> u64 \<Rightarrow> bool \<Rightarrow> 'b runtime \<Rightarrow> usize \<times> 'b runtime" where
  "thaw_runtime_exception_report_text L error native tag f64_value i64_value bool_value s =
     (if error = 0 then (0, s)
      else
        (let text = (if error = native \<or> is_detached_report_text s error then lh_error_with_props L error s
                     else exception_report_bytes (lh_host L) tag f64_value i64_value bool_value);
             (p, n) = owned_string (ho_box (lh_host L) s) text (ts_native s)
         in (p, s\<lparr>ts_native := n\<rparr>)))"

definition release_string :: "usize \<Rightarrow> 'b runtime \<Rightarrow> 'b runtime" where
  "release_string p s = s\<lparr>ts_native := destroy_string p (ts_native s)\<rparr>"

definition report_listener_error :: "usize \<Rightarrow> 'b runtime \<Rightarrow> bool \<times> 'b runtime" where
  "report_listener_error error s =
     (if error = 0 then (False, s)
      else (True, on_cells (\<lambda>c. c\<lparr>lc_failure := True\<rparr>) (release_string error (thaw_runtime_report_uncaught error s))))"

definition thaw_promise_set_unhandled_reporter_result :: "nat option \<Rightarrow> 'b runtime \<Rightarrow> 'b runtime" where
  "thaw_promise_set_unhandled_reporter_result r s =
     on_cells (\<lambda>c. c\<lparr>lc_reporter_result := r, lc_reporter_text := None, lc_reporter := None\<rparr>) s"

definition thaw_promise_set_unhandled_reporter_text_result :: "nat option \<Rightarrow> 'b runtime \<Rightarrow> 'b runtime" where
  "thaw_promise_set_unhandled_reporter_text_result r s =
     on_cells (\<lambda>c. c\<lparr>lc_reporter_text := r, lc_reporter_result := None, lc_reporter := None\<rparr>) s"

definition thaw_promise_set_unhandled_reporter :: "nat option \<Rightarrow> 'b runtime \<Rightarrow> 'b runtime" where
  "thaw_promise_set_unhandled_reporter r s =
     on_cells (\<lambda>c. c\<lparr>lc_reporter := r, lc_reporter_result := None, lc_reporter_text := None\<rparr>) s"

definition thaw_promise_set_rejection_handled_reporter_result :: "nat option \<Rightarrow> 'b runtime \<Rightarrow> 'b runtime" where
  "thaw_promise_set_rejection_handled_reporter_result r s =
     on_cells (\<lambda>c. c\<lparr>lc_handled_result := r, lc_handled_reporter := None\<rparr>) s"

definition thaw_promise_set_rejection_handled_reporter :: "nat option \<Rightarrow> 'b runtime \<Rightarrow> 'b runtime" where
  "thaw_promise_set_rejection_handled_reporter r s =
     on_cells (\<lambda>c. c\<lparr>lc_handled_reporter := r, lc_handled_result := None\<rparr>) s"

definition add_activity :: "nat \<Rightarrow> 'b runtime \<Rightarrow> 'b runtime" where
  "add_activity n s = on_cells (\<lambda>c. c\<lparr>lc_activity := saturating_add (lc_activity c) n\<rparr>) s"

definition unhandled_rejection_report_text :: "'b host \<Rightarrow> usize \<Rightarrow> bool \<Rightarrow> usize" where
  "unhandled_rejection_report_text H error trusted_text = (if trusted_text then error else ho_static H UNHANDLED_OPAQUE_TEXT)"

definition drop_record_root :: "unhandled_rejection \<Rightarrow> 'b runtime \<Rightarrow> 'b runtime" where
  "drop_record_root u s = (case uh_root u of None \<Rightarrow> s | Some r \<Rightarrow> root_drop r s)"

text \<open>The pointer that a reporter gets: an owned copy of the trusted text, or the opaque error.\<close>

definition report_pointer :: "'b host \<Rightarrow> unhandled_rejection \<Rightarrow> 'b runtime \<Rightarrow> usize \<times> 'b runtime" where
  "report_pointer H u s =
     (case uh_text u of
        None \<Rightarrow> (uh_error u, s)
      | Some text \<Rightarrow> (let (p, n) = owned_string (ho_box H s) text (ts_native s) in (p, s\<lparr>ts_native := n\<rparr>)))"

definition report_result_one :: "'b loop_host \<Rightarrow> nat option \<Rightarrow> unhandled_rejection \<Rightarrow> bool \<times> 'b runtime \<Rightarrow> bool \<times> 'b runtime" where
  "report_result_one L reporter u acc =
     (let (failed, s) = acc;
          trusted = (uh_text u \<noteq> None);
          (p, s1) = report_pointer (lh_host L) u s;
          (result, s2) = (case reporter of
                            None \<Rightarrow> (None, s1)
                          | Some f \<Rightarrow> (let (r, t) = lh_report_result L f p s1 in (Some r, t)));
          handled = (case result of None \<Rightarrow> False | Some (v, error) \<Rightarrow> v \<noteq> 0 \<and> error = 0);
          s3 = (if handled then s2 else thaw_runtime_report_unhandled_rejection (unhandled_rejection_report_text (lh_host L) p trusted) s2);
          (listener_failed, s4) = (case result of None \<Rightarrow> (False, s3) | Some (v, error) \<Rightarrow> report_listener_error error s3);
          s5 = (if trusted then release_string p s4 else s4)
      in (failed \<or> \<not> handled \<or> listener_failed, drop_record_root u s5))"

definition thaw_promise_drain_unhandled_result :: "'b loop_host \<Rightarrow> nat option \<Rightarrow> 'b runtime \<Rightarrow> bool \<times> 'b runtime" where
  "thaw_promise_drain_unhandled_result L reporter s =
     (let (rejected, s1) = collect_unhandled_rejections (lh_host L) s
      in fold (report_result_one L reporter) rejected (False, add_activity (length rejected) s1))"

definition report_text_one :: "'b loop_host \<Rightarrow> nat option \<Rightarrow> unhandled_rejection \<Rightarrow> bool \<times> 'b runtime \<Rightarrow> bool \<times> 'b runtime" where
  "report_text_one L reporter u acc =
     (let (failed, s) = acc;
          (p, n) = owned_string (ho_box (lh_host L) s) (uh_diagnostic u) (ts_native s);
          s1 = s\<lparr>ts_native := n\<rparr>;
          (result, s2) = (case reporter of
                            None \<Rightarrow> (None, s1)
                          | Some f \<Rightarrow> (let (r, t) = lh_report_result L f p s1 in (Some r, t)));
          handled = (case result of None \<Rightarrow> False | Some (v, error) \<Rightarrow> v \<noteq> 0 \<and> error = 0);
          s3 = (if handled then s2 else thaw_runtime_report_unhandled_rejection p s2);
          (listener_failed, s4) = (case result of None \<Rightarrow> (False, s3) | Some (v, error) \<Rightarrow> report_listener_error error s3)
      in (failed \<or> \<not> handled \<or> listener_failed, drop_record_root u (release_string p s4)))"

definition thaw_promise_drain_unhandled_text_result :: "'b loop_host \<Rightarrow> nat option \<Rightarrow> 'b runtime \<Rightarrow> bool \<times> 'b runtime" where
  "thaw_promise_drain_unhandled_text_result L reporter s =
     (let (rejected, s1) = collect_unhandled_rejections (lh_host L) s
      in fold (report_text_one L reporter) rejected (False, add_activity (length rejected) s1))"

definition report_one :: "'b loop_host \<Rightarrow> nat option \<Rightarrow> unhandled_rejection \<Rightarrow> bool \<times> 'b runtime \<Rightarrow> bool \<times> 'b runtime" where
  "report_one L reporter u acc =
     (let (failed, s) = acc;
          trusted = (uh_text u \<noteq> None);
          (p, s1) = report_pointer (lh_host L) u s;
          (handled, s2) = (case reporter of None \<Rightarrow> (False, s1) | Some f \<Rightarrow> lh_report L f p s1);
          s3 = (if handled then s2 else thaw_runtime_report_unhandled_rejection (unhandled_rejection_report_text (lh_host L) p trusted) s2);
          s4 = (if trusted then release_string p s3 else s3)
      in (failed \<or> \<not> handled, drop_record_root u s4))"

definition thaw_promise_drain_unhandled :: "'b loop_host \<Rightarrow> nat option \<Rightarrow> 'b runtime \<Rightarrow> bool \<times> 'b runtime" where
  "thaw_promise_drain_unhandled L reporter s =
     (let (rejected, s1) = collect_unhandled_rejections (lh_host L) s
      in fold (report_one L reporter) rejected (False, add_activity (length rejected) s1))"

text \<open>The number of late handlers is taken, then one notification is sent per handler.\<close>

definition report_pending_rejection_handled :: "'b loop_host \<Rightarrow> 'b runtime \<Rightarrow> 'b runtime" where
  "report_pending_rejection_handled L s =
     (let ran_so_far = rt_pending_handled s;
          s1 = s\<lparr>rt_pending_handled := 0\<rparr>
      in case lc_handled_result (rt_cells s1) of
           Some f \<Rightarrow> ((\<lambda>t. let (error, u) = lh_handled_result L f t in snd (report_listener_error error u)) ^^ ran_so_far) (add_activity ran_so_far s1)
         | None \<Rightarrow>
             (case lc_handled_reporter (rt_cells s1) of
                Some f \<Rightarrow> (lh_handled L f ^^ ran_so_far) (add_activity ran_so_far s1)
              | None \<Rightarrow> s1))"

definition report_registered_unhandled_rejections :: "'b loop_host \<Rightarrow> 'b runtime \<Rightarrow> 'b runtime" where
  "report_registered_unhandled_rejections L s =
     (let c = rt_cells s;
          (failed, s1) = (if lc_reporter_text c \<noteq> None then thaw_promise_drain_unhandled_text_result L (lc_reporter_text c) s
                          else if lc_reporter_result c \<noteq> None then thaw_promise_drain_unhandled_result L (lc_reporter_result c) s
                          else thaw_promise_drain_unhandled L (lc_reporter c) s);
          s2 = (if failed then on_cells (\<lambda>c. c\<lparr>lc_failure := True\<rparr>) s1 else s1)
      in report_pending_rejection_handled L s2)"

definition thaw_runtime_report_unhandled :: "'b loop_host \<Rightarrow> 'b runtime \<Rightarrow> 'b runtime" where
  "thaw_runtime_report_unhandled L s = report_registered_unhandled_rejections L s"

definition thaw_promise_take_unhandled_failure :: "'b runtime \<Rightarrow> bool \<times> 'b runtime" where
  "thaw_promise_take_unhandled_failure s = (lc_failure (rt_cells s), on_cells (\<lambda>c. c\<lparr>lc_failure := False\<rparr>) s)"

definition thaw_promise_take_report_activity :: "'b runtime \<Rightarrow> nat \<times> 'b runtime" where
  "thaw_promise_take_report_activity s = (lc_activity (rt_cells s), on_cells (\<lambda>c. c\<lparr>lc_activity := 0\<rparr>) s)"

subsection \<open>Deadlines and purging\<close>

definition set_invocation_deadline :: "'b loop_host \<Rightarrow> nat option \<Rightarrow> 'b runtime \<Rightarrow> 'b runtime" where
  "set_invocation_deadline L remaining_ms s =
     (case remaining_ms of
        None \<Rightarrow> on_cells (\<lambda>c. c\<lparr>lc_deadline := None\<rparr>) s
      | Some ms \<Rightarrow>
          (let budget = ms * 1000000;
               (now, s1) = instant_now L s
           in on_cells (\<lambda>c. c\<lparr>lc_deadline := Some (now + budget, budget)\<rparr>) s1))"

definition invocation_deadline_remaining :: "'b loop_host \<Rightarrow> 'b runtime \<Rightarrow> nat option \<times> 'b runtime" where
  "invocation_deadline_remaining L s =
     (case lc_deadline (rt_cells s) of
        None \<Rightarrow> (None, s)
      | Some (deadline, _) \<Rightarrow> (let (now, s1) = instant_now L s in (Some (deadline - now), s1)))"

text \<open>\<open>lh_seconds\<close> is the message with the budget in seconds to two decimals.\<close>

definition reject_for_invocation_deadline :: "'b loop_host \<Rightarrow> usize \<Rightarrow> 'b runtime \<Rightarrow> 'b runtime" where
  "reject_for_invocation_deadline L p s =
     (let budget = (case lc_deadline (rt_cells s) of None \<Rightarrow> 0 | Some (_, b) \<Rightarrow> b);
          (text, n) = arena_string (ho_bump (lh_host L)) (lh_seconds L budget) (ts_native s);
          s1 = s\<lparr>ts_native := n\<rparr>
      in snd (reject_native_text (lh_host L) p (if text \<noteq> 0 then text else ho_static (lh_host L) INVOCATION_TIMEOUT_ERROR) s1))"

definition drop_continuation :: "ready_continuation \<Rightarrow> 'b runtime \<Rightarrow> 'b runtime" where
  "drop_continuation c s = root_drop (rc_result_root c) (drop_subscription (rc_subscription c) s)"

definition purge_pending_async_state :: "'b loop_host \<Rightarrow> 'b runtime \<Rightarrow> 'b runtime" where
  "purge_pending_async_state L s =
     (let s1 = uncount_pending_promise_all_states_for_invocation (cancel_pending_aggregate_states s);
          s2 = fold drop_continuation (rt_ready s1) (s1\<lparr>rt_ready := []\<rparr>);
          s3 = s2\<lparr>rt_promise_timers := []\<rparr>;
          s4 = fold (\<lambda>t. root_drop (tm_root t)) (native_timers s3) (s3\<lparr>native_timers := []\<rparr>);
          s5 = s4\<lparr>rt_fd_waits := [], rt_active_joins := 0\<rparr>;
          s6 = on_cells (\<lambda>c. c\<lparr>lc_activity := 0\<rparr>) s5
      in set_invocation_deadline L None s6)"

definition thaw_runtime_abort_pending_work :: "'b loop_host \<Rightarrow> 'b runtime \<Rightarrow> 'b runtime" where
  "thaw_runtime_abort_pending_work L s =
     (let s1 = purge_pending_async_state L s
      in fold (\<lambda>w. root_drop (wa_root w)) (lc_watchers (rt_cells s1)) (on_cells (\<lambda>c. c\<lparr>lc_watchers := []\<rparr>) s1))"

subsection \<open>Polling\<close>

definition promote_due :: "'b loop_host \<Rightarrow> 'b runtime \<Rightarrow> 'b runtime" where
  "promote_due L s = (let (now, s1) = instant_now L s in promote_due_timers (lh_host L) now s1)"

definition next_timer_delay :: "'b loop_host \<Rightarrow> 'b runtime \<Rightarrow> nat option \<times> 'b runtime" where
  "next_timer_delay L s =
     (let (now, s1) = instant_now L s;
          promise_timer = least_delay (map (\<lambda>t. fst t - now) (rt_promise_timers s1));
          (native, s2) = next_native_timer_delay (lh_round L) (lh_duration L) (lh_ms L) s1
      in (min_delay promise_timer native, s2))"

definition reporting_work :: "'b runtime \<Rightarrow> bool" where
  "reporting_work s \<longleftrightarrow> rt_pending_handled s \<noteq> 0 \<or>
     list_ex (\<lambda>p. case rt_promises s p of None \<Rightarrow> False | Some pr \<Rightarrow> unhandled_now pr) (rt_active s)"

definition run_native_timer :: "'b loop_host \<Rightarrow> 'b runtime \<Rightarrow> bool \<times> 'b runtime" where
  "run_native_timer L s = run_one_native_timer (lh_round L) (lh_ms L) (lh_fire L) s"

definition poll_idle :: "'b loop_host \<Rightarrow> nat \<Rightarrow> 'b runtime \<Rightarrow> bool \<times> 'b runtime" where
  "poll_idle L io_events s =
     (let s1 = report_registered_unhandled_rejections L s;
          work = reporting_work s1;
          (ran, s2) = (if io_events = 0 \<and> \<not> work \<and> \<not> lc_failure (rt_cells s1) then run_native_timer L s1 else (False, s1))
      in if ran then (True, s2) else (io_events \<noteq> 0 \<or> rt_ready s2 \<noteq> [] \<or> work, s2))"

definition thaw_runtime_poll_one :: "'b loop_host \<Rightarrow> 'b runtime \<Rightarrow> bool \<times> 'b runtime" where
  "thaw_runtime_poll_one L s =
     (let s1 = (if rt_ready s = [] then report_pending_rejection_handled L s else s);
          s2 = promote_due L s1;
          (io_events, s3) = poll_fd_waits L (Some 0) s2
      in if rt_ready s3 = [] then poll_idle L io_events s3 else run_ready_continuation (lh_host L) s3)"

text \<open>Drains run as long as there is work: not returning is \<open>None\<close>.\<close>

partial_function (option) run_until_idle_from :: "'b loop_host \<Rightarrow> nat \<Rightarrow> 'b runtime \<Rightarrow> (nat \<times> 'b runtime) option" where
  "run_until_idle_from L ran_so_far s =
     (let (progress, s1) = thaw_runtime_poll_one L s
      in if progress then run_until_idle_from L (ran_so_far + 1) s1 else Some (ran_so_far, s1))"

definition thaw_runtime_run_until_idle :: "'b loop_host \<Rightarrow> 'b runtime \<Rightarrow> (nat \<times> 'b runtime) option" where
  "thaw_runtime_run_until_idle L s = run_until_idle_from L 0 s"

definition thaw_runtime_run_one_event :: "'b loop_host \<Rightarrow> 'b runtime \<Rightarrow> bool \<times> 'b runtime" where
  "thaw_runtime_run_one_event L s =
     (let (progressed, s1) = thaw_runtime_poll_one L (promote_due L s) in
      if lc_failure (rt_cells s1) then (False, s1)
      else if progressed then (True, s1)
      else
        (let (delay, s2) = next_timer_delay L s1 in
         if has_fd_waits s2 then (True, snd (thaw_runtime_poll_one L (snd (poll_fd_waits L delay s2))))
         else if delay \<noteq> None then (True, snd (thaw_runtime_poll_one L (promote_due L s2)))
         else (False, s2)))"

definition thaw_runtime_async_work_pending :: "'b runtime \<Rightarrow> bool" where
  "thaw_runtime_async_work_pending s \<longleftrightarrow>
     rt_ready s \<noteq> [] \<or> rt_promise_timers s \<noteq> [] \<or> native_timers_keep_alive s \<or> has_fd_waits s"

text \<open>The sleep of the terminal loop, in nanoseconds.\<close>

definition thaw_runtime_shutdown_wait :: "'b loop_host \<Rightarrow> 'b runtime \<Rightarrow> nat \<times> 'b runtime" where
  "thaw_runtime_shutdown_wait L s =
     (let only_timers = (native_timers_pending s \<and> \<not> has_fd_waits s \<and> rt_ready s = [] \<and> rt_promise_timers s = []);
          (nap, s1) = (if only_timers
                       then (let (delay, t) = next_native_timer_delay (lh_round L) (lh_duration L) (lh_ms L) s
                             in (min (case delay of None \<Rightarrow> 0 | Some d \<Rightarrow> d) 25000000, t))
                       else (0, s))
      in (max nap 1000000, s1))"

partial_function (option) drain_detached_from :: "'b loop_host \<Rightarrow> nat \<Rightarrow> 'b runtime \<Rightarrow> (nat \<times> 'b runtime) option" where
  "drain_detached_from L ran_so_far s =
     (if rt_active_joins s = 0 then Some (ran_so_far, s)
      else
        (let (remaining, s1) = invocation_deadline_remaining L s in
         if remaining = Some 0 then Some (ran_so_far, s1)
         else
           (let (progress, s2) = thaw_runtime_poll_one L s1 in
            if progress then drain_detached_from L (ran_so_far + 1) s2
            else
              (let (delay, s3) = next_timer_delay L s2 in
               if has_fd_waits s3 then drain_detached_from L ran_so_far (snd (poll_fd_waits L delay s3))
               else if delay \<noteq> None then drain_detached_from L ran_so_far s3
               else Some (ran_so_far, s3)))))"

definition thaw_runtime_drain_detached :: "'b loop_host \<Rightarrow> 'b runtime \<Rightarrow> (nat \<times> 'b runtime) option" where
  "thaw_runtime_drain_detached L s = drain_detached_from L 0 s"

partial_function (option) thaw_runtime_run_until_resolved :: "'b loop_host \<Rightarrow> usize \<Rightarrow> 'b runtime \<Rightarrow> (usize \<times> 'b runtime) option" where
  "thaw_runtime_run_until_resolved L p s =
     (case rt_promises s p of
        None \<Rightarrow> Some (0, s)
      | Some pr \<Rightarrow>
          (case pr_result pr of
             Some result \<Rightarrow> Some (result, s)
           | None \<Rightarrow>
               (let (remaining, s1) = invocation_deadline_remaining L s in
                if remaining = Some 0 then thaw_runtime_run_until_resolved L p (reject_for_invocation_deadline L p s1)
                else
                  (let (progress, s2) = thaw_runtime_poll_one L s1 in
                   if progress then thaw_runtime_run_until_resolved L p s2
                   else
                     (let (servers, s3) = lh_servers L s2 in
                      if bit_set servers 2 then thaw_runtime_run_until_resolved L p s3
                      else if thaw_promise_state s3 p \<noteq> 0 then thaw_runtime_run_until_resolved L p s3
                      else
                        (let (timer, s4) = next_timer_delay L s3;
                             (deadline, s5) = invocation_deadline_remaining L s4;
                             delay = min_delay timer deadline
                         in if has_fd_waits s5 then thaw_runtime_run_until_resolved L p (snd (poll_fd_waits L delay s5))
                            else if delay \<noteq> None then thaw_runtime_run_until_resolved L p s5
                            else Some (0, s5)))))))"

definition thaw_runtime_await_blocking :: "'b loop_host \<Rightarrow> usize \<Rightarrow> 'b runtime \<Rightarrow> (usize \<times> 'b runtime) option" where
  "thaw_runtime_await_blocking L p s = thaw_runtime_run_until_resolved L p (snd (thaw_promise_mark_handled p s))"

subsection \<open>Handing continuations between threads\<close>

record parked_continuation =
  pk_resume :: resume_fn
  pk_frame :: usize
  pk_payload_roots :: "usize list"
  pk_result :: usize
  pk_js_barrier :: nat

text \<open>The parking thread gives up its pins; the queue of parked continuations belongs to the process.\<close>

definition park_one :: "ready_continuation \<Rightarrow> parked_continuation list \<times> 'b runtime \<Rightarrow> parked_continuation list \<times> 'b runtime" where
  "park_one c acc =
     (let sb = rc_subscription c;
          entry = \<lparr>pk_resume = sb_resume sb, pk_frame = sb_frame sb, pk_payload_roots = sb_payload_roots sb,
                   pk_result = rc_result c, pk_js_barrier = rc_js_barrier c\<rparr>
      in (fst acc @ [entry],
          fold root_drop (sb_payload_roots sb) (root_drop (rc_result_root c) (root_drop (sb_frame_root sb) (snd acc)))))"

definition thaw_runtime_park_ready :: "parked_continuation list \<Rightarrow> 'b runtime \<Rightarrow> parked_continuation list \<times> 'b runtime" where
  "thaw_runtime_park_ready parked s = fold park_one (rt_ready s) (parked, s\<lparr>rt_ready := []\<rparr>)"

definition adopt_one :: "parked_continuation \<Rightarrow> 'b runtime \<Rightarrow> 'b runtime" where
  "adopt_one k s =
     (let (frame_pin, s1) = root_new (pk_frame k) s;
          (payload_pins, s2) = roots_new (pk_payload_roots k) s1;
          (result_pin, s3) = root_new (pk_result k) s2
      in s3\<lparr>rt_ready := rt_ready s3 @
           [\<lparr>rc_subscription = \<lparr>sb_resume = pk_resume k, sb_frame = pk_frame k, sb_frame_root = frame_pin, sb_payload_roots = payload_pins\<rparr>,
             rc_result = pk_result k, rc_result_root = result_pin, rc_js_barrier = pk_js_barrier k\<rparr>]\<rparr>)"

definition thaw_runtime_adopt_ready :: "parked_continuation list \<Rightarrow> 'b runtime \<Rightarrow> parked_continuation list \<times> 'b runtime" where
  "thaw_runtime_adopt_ready parked s = ([], fold adopt_one parked s)"

end
