(* ===== verification/Exception_Provenance.thy ===== *)
theory Exception_Provenance
  imports Promise_Loop
begin

text \<open>
  Exception descriptors and arena slots that own promises, \<open>runtime/promises.rs\<close>: a descriptor is a record of
  nine words in the arena; a native one remembers the category and the layout token of its owner, so
  that a cast can be checked. A descriptor of a promise and an arena slot that holds one keep an
  internal reference, which a reset hook gives back when their allocation is reclaimed. The two owner
  tables are hash maps; the order in which the hook releases is the order of the list here.
\<close>

subsection \<open>Descriptors\<close>

text \<open>The layout of \<open>ExceptionProvenance\<close>: nine words, 72 bytes.\<close>

definition provenance_words :: "exception_provenance \<Rightarrow> usize list" where
  "provenance_words pv =
     [pv_original pv, pv_native_text pv, pv_aggregate_errors pv, pv_tag pv, unat (pv_f64 pv), unat (pv_i64 pv), pv_bool pv, pv_object pv,
      pv_native_layout pv]"

fun put_words :: "usize \<Rightarrow> usize list \<Rightarrow> 'b thread_state \<Rightarrow> 'b thread_state" where
  "put_words a [] t = t"
| "put_words a (w # ws) t = put_words (a + 8) ws (put_usize a w t)"

definition read_provenance :: "memory \<Rightarrow> usize \<Rightarrow> exception_provenance" where
  "read_provenance m a =
     \<lparr>pv_original = read_usize m a, pv_native_text = read_usize m (a + 8), pv_aggregate_errors = read_usize m (a + 16),
      pv_tag = read_usize m (a + 24), pv_f64 = of_nat (read_usize m (a + 32)), pv_i64 = of_nat (read_usize m (a + 40)),
      pv_bool = read_usize m (a + 48), pv_object = read_usize m (a + 56), pv_native_layout = read_usize m (a + 64)\<rparr>"

definition write_provenance :: "usize \<Rightarrow> exception_provenance \<Rightarrow> 'b runtime \<Rightarrow> 'b runtime" where
  "write_provenance a pv s = on_thread (put_words a (provenance_words pv)) s"

definition thaw_exception_provenance_new ::
    "'b host \<Rightarrow> usize \<Rightarrow> usize \<Rightarrow> usize \<Rightarrow> nat \<Rightarrow> u64 \<Rightarrow> u64 \<Rightarrow> nat \<Rightarrow> usize \<Rightarrow> 'b runtime \<Rightarrow> usize \<times> 'b runtime" where
  "thaw_exception_provenance_new H original native aggregate_errors tag f64_value i64_value bool_value object s =
     (let (allocation, s1) = arena_alloc H 72 8 s in
      if allocation = 0 then (0, s1)
      else (allocation, write_provenance allocation
              \<lparr>pv_original = original, pv_native_text = native, pv_aggregate_errors = aggregate_errors, pv_tag = tag, pv_f64 = f64_value,
               pv_i64 = i64_value, pv_bool = bool_value, pv_object = object, pv_native_layout = 0\<rparr> s1))"

definition release_hook_id :: nat where "release_hook_id = 2"

definition register_release_hook :: "'b runtime \<Rightarrow> 'b runtime" where
  "register_release_hook s = on_thread (register_reset_hook (ForeignHook release_hook_id)) s"

text \<open>The category of promises is 29.\<close>

definition thaw_exception_native_provenance_new ::
    "'b host \<Rightarrow> nat \<Rightarrow> usize \<Rightarrow> usize \<Rightarrow> 'b runtime \<Rightarrow> usize \<times> 'b runtime" where
  "thaw_exception_native_provenance_new H tag owner layout s =
     (if owner = 0 \<or> layout = 0 then (0, s)
      else
        (let (allocation, s1) = arena_alloc H 72 8 s in
         if allocation = 0 then (0, s1)
         else
           (let s2 = write_provenance allocation
                       \<lparr>pv_original = 0, pv_native_text = 0, pv_aggregate_errors = 0, pv_tag = tag, pv_f64 = 0, pv_i64 = 0, pv_bool = 0,
                        pv_object = owner, pv_native_layout = layout\<rparr> s1
            in if tag = 29
               then (let (retained, s3) = retain_native_promise_internal owner s2 in
                     if \<not> retained then (0, s3)
                     else (allocation, (register_release_hook s3)\<lparr>rt_reason_owners := hm_insert allocation owner (rt_reason_owners s3)\<rparr>))
               else (allocation, s2))))"

definition layout_text :: "memory \<Rightarrow> usize \<Rightarrow> bytes option" where
  "layout_text m p = map_option (read_bytes_at m p) (cstr_length m p)"

definition thaw_exception_native_owner :: "'b runtime \<Rightarrow> usize \<Rightarrow> nat \<Rightarrow> usize \<Rightarrow> usize" where
  "thaw_exception_native_owner s provenance tag layout =
     (if provenance = 0 then 0
      else
        (let pv = read_provenance (memory_of s) provenance in
         if layout = 0 \<or> pv_native_layout pv = 0 \<or> pv_tag pv \<noteq> tag then 0
         else if layout_text (memory_of s) layout = layout_text (memory_of s) (pv_native_layout pv) then pv_object pv else 0))"

definition thaw_exception_native_same :: "'b runtime \<Rightarrow> usize \<Rightarrow> usize \<Rightarrow> bool" where
  "thaw_exception_native_same s left right \<longleftrightarrow>
     left \<noteq> 0 \<and> right \<noteq> 0 \<and>
     pv_tag (read_provenance (memory_of s) left) = pv_tag (read_provenance (memory_of s) right) \<and>
     pv_object (read_provenance (memory_of s) left) = pv_object (read_provenance (memory_of s) right)"

definition thaw_exception_native_tag :: "'b runtime \<Rightarrow> usize \<Rightarrow> nat" where
  "thaw_exception_native_tag s provenance = (if provenance = 0 then 0 else pv_tag (read_provenance (memory_of s) provenance))"

subsection \<open>Slots that own promises\<close>

text \<open>The entries whose record is reclaimed, or all without tracing, leave both tables; then each gives its reference back.\<close>

definition reclaimed_record :: "bool \<Rightarrow> 'b runtime \<Rightarrow> usize \<Rightarrow> bool" where
  "reclaimed_record tracing_on s a \<longleftrightarrow> \<not> tracing_on \<or> was_reclaimed (thr (ts_native s)) a"

definition release_reclaimed_native_promise_internal_owners :: "bool \<Rightarrow> 'b runtime \<Rightarrow> 'b runtime" where
  "release_reclaimed_native_promise_internal_owners tracing_on s =
     (let gone = reclaimed_record tracing_on s;
          released = filter (\<lambda>e. gone (fst e)) (rt_reason_owners s);
          released_slots = filter (\<lambda>e. gone (fst e)) (rt_slot_owners s);
          s1 = s\<lparr>rt_reason_owners := fold (\<lambda>e. hm_remove (fst e)) released (rt_reason_owners s),
                 rt_slot_owners := fold (\<lambda>e. hm_remove (fst e)) released_slots (rt_slot_owners s)\<rparr>
      in fold release_native_promise_internal (map snd released @ map (\<lambda>e. snd (snd e)) released_slots) s1)"

text \<open>Both lookups happen only while tracing, the second only when the first succeeds.\<close>

definition slot_in_arena :: "usize \<Rightarrow> usize \<Rightarrow> 'b runtime \<Rightarrow> bool \<times> 'b runtime" where
  "slot_in_arena owner slot s =
     (if \<not> tracing (thr (ts_native s)) then (True, s)
      else
        (let (a, t1) = contains_allocation owner (thr (ts_native s)) in
         if \<not> a then (False, on_thread (\<lambda>_. t1) s)
         else (let (b, t2) = contains_allocation slot t1 in (b, on_thread (\<lambda>_. t2) s))))"

definition slot_entry_ok :: "usize \<Rightarrow> usize \<Rightarrow> (usize \<times> usize) option \<Rightarrow> bool" where
  "slot_entry_ok owner previous current \<longleftrightarrow>
     (case current of None \<Rightarrow> previous = 0 | Some (current_owner, current_promise) \<Rightarrow>
        current_owner = owner \<and> current_promise = previous \<and> previous \<noteq> 0)"

definition thaw_promise_arena_slot_replace :: "usize \<Rightarrow> usize \<Rightarrow> usize \<Rightarrow> 'b runtime \<Rightarrow> bool \<times> 'b runtime" where
  "thaw_promise_arena_slot_replace owner slot replacement s =
     (if owner = 0 \<or> slot = 0 then (False, s)
      else
        (let (inside, s1) = slot_in_arena owner slot s in
         if \<not> inside then (False, s1)
         else
           (let previous = read_usize (memory_of s1) slot in
            if \<not> slot_entry_ok owner previous (hm_get (rt_slot_owners s1) slot) then (False, s1)
            else if previous = replacement then (True, s1)
            else
              (let (retained, s2) = (if replacement \<noteq> 0 then retain_native_promise_internal replacement s1 else (True, s1)) in
               if \<not> retained then (False, s2)
               else
                 (let s3 = on_thread (replace_reference owner previous replacement) s2;
                      removed = hm_remove slot (rt_slot_owners s3);
                      s4 = s3\<lparr>rt_slot_owners := (if replacement \<noteq> 0 then hm_insert slot (owner, replacement) removed else removed)\<rparr>;
                      s5 = on_thread (put_usize slot replacement) s4;
                      s6 = (if previous \<noteq> 0 then release_native_promise_internal previous s5 else s5)
                  in (True, register_release_hook s6))))))"

end
