(* ===== verification/Promise_Properties.thy ===== *)
theory Promise_Properties
  imports Promise_Invariant Event_Loop Exception_Provenance
begin

text \<open>
  The promises of the runtime keep the promises of JavaScript: they settle once, every subscriber is
  resumed once and in order whether it came before or after the settlement, adoption copies the
  outcome, a race takes the first outcome, an output outlives its consumer while a callback still
  holds it, and a rejection nobody handled is reported once.
\<close>

subsection \<open>Reachable states\<close>

definition runtime_start :: "'b native_state \<Rightarrow> 'b runtime" where
  "runtime_start n = \<lparr>ts_native = n, ts_readings = 0, native_timers = [], next_timer_id = 1, timer_phase_cell = (Timers_phase, - 1),
     rt_promises = Map.empty, rt_boxes = Map.empty, rt_slots = (\<lambda>_. 0), rt_reason_owners = [],
     rt_slot_owners = [], rt_ready = [], rt_promise_timers = [], rt_fd_waits = [], rt_active = [], rt_active_joins = 0,
     rt_pending_handled = 0, rt_orphaned = [], rt_detached_report_text = {}, rt_finally_adopt_states = [], rt_race_states = [],
     rt_all_states = [], rt_any_states = [], rt_settled_states = [], rt_sidecars = [],
     rt_cells = \<lparr>lc_watchers = [], lc_next_watcher = 1, lc_reporter = None, lc_reporter_result = None, lc_reporter_text = None,
       lc_handled_reporter = None, lc_handled_result = None, lc_failure = False, lc_activity = 0, lc_deadline = None,
       lc_reported = []\<rparr>\<rparr>"

inductive runtime_reachable :: "'b host \<Rightarrow> 'b runtime \<Rightarrow> bool" for H where
  start: "runtime_reachable H (runtime_start n)"
| native: "runtime_reachable H s \<Longrightarrow> runtime_reachable H (s\<lparr>ts_native := n\<rparr>)"
| new: "runtime_reachable H s \<Longrightarrow> runtime_reachable H (snd (thaw_promise_new H s))"
| mark_handled: "runtime_reachable H s \<Longrightarrow> runtime_reachable H (snd (thaw_promise_mark_handled p s))"
| subscribe: "runtime_reachable H s \<Longrightarrow> runtime_reachable H (snd (thaw_promise_subscribe H p f frame s))"
| resolve: "runtime_reachable H s \<Longrightarrow> runtime_reachable H (snd (thaw_promise_resolve_with_provenance H p r v s))"
| reject: "runtime_reachable H s \<Longrightarrow> runtime_reachable H (snd (thaw_promise_reject H p r s))"
| reject_text: "runtime_reachable H s \<Longrightarrow> runtime_reachable H (snd (thaw_promise_reject_native_text H p r s))"
| reject_copy: "runtime_reachable H s \<Longrightarrow> runtime_reachable H (snd (thaw_promise_reject_text_copy H B p r s))"
| reject_full: "runtime_reachable H s \<Longrightarrow>
    runtime_reachable H (snd (thaw_promise_reject_typed_with_native_provenance H p e tag f i b x t a v s))"
| forward: "runtime_reachable H s \<Longrightarrow> runtime_reachable H (snd (thaw_promise_forward_rejection H p q r s))"
| retain: "runtime_reachable H s \<Longrightarrow> runtime_reachable H (snd (thaw_promise_retain p s))"
| destroy: "runtime_reachable H s \<Longrightarrow> runtime_reachable H (thaw_promise_destroy p s)"
| chain: "runtime_reachable H s \<Longrightarrow> runtime_reachable H (snd (promise_chain_with_handlers H p hf hr s))"
| adopt: "runtime_reachable H s \<Longrightarrow> runtime_reachable H (snd (thaw_promise_adopt H p q s))"
| run_finally: "runtime_reachable H s \<Longrightarrow> runtime_reachable H (snd (thaw_promise_finally H p c x s))"
| finally_adopt: "runtime_reachable H s \<Longrightarrow> runtime_reachable H (snd (finally_adopt_with_source H p q r rej tag f i b x src s))"
| race: "runtime_reachable H s \<Longrightarrow> runtime_reachable H (snd (thaw_promise_race H ps len s))"
| all: "runtime_reachable H s \<Longrightarrow> runtime_reachable H (snd (thaw_promise_all_typed H ps zs len s))"
| any: "runtime_reachable H s \<Longrightarrow> runtime_reachable H (snd (thaw_promise_any H ps len s))"
| all_settled: "runtime_reachable H s \<Longrightarrow> runtime_reachable H (snd (thaw_promise_all_settled H ps len z s))"
| detach: "runtime_reachable H s \<Longrightarrow> runtime_reachable H (snd (detach_promise H p e o' q s))"
| collect: "runtime_reachable H s \<Longrightarrow> runtime_reachable H (snd (collect_unhandled_rejections H s))"
| sleep: "runtime_reachable H s \<Longrightarrow> runtime_reachable H (snd (thaw_sleep_ms H now ms s))"
| wait_fd: "runtime_reachable H s \<Longrightarrow> runtime_reachable H (snd (thaw_runtime_wait_fd_until H fd i' d s))"
| promote: "runtime_reachable H s \<Longrightarrow> runtime_reachable H (promote_due_timers H now s)"
| run: "runtime_reachable H s \<Longrightarrow> runtime_reachable H (snd (run_ready_continuation H s))"
| descriptor: "runtime_reachable H s \<Longrightarrow> runtime_reachable H (snd (thaw_exception_native_provenance_new H tag p l s))"
| slot: "runtime_reachable H s \<Longrightarrow> runtime_reachable H (snd (thaw_promise_arena_slot_replace p q r s))"
| reclaim: "runtime_reachable H s \<Longrightarrow> runtime_reachable H (release_reclaimed_native_promise_internal_owners t s)"
| cells: "runtime_reachable H s \<Longrightarrow> runtime_reachable H (on_cells g s)"
| purge: "runtime_reachable H s \<Longrightarrow> runtime_reachable H (purge_pending_async_state L s)"
| park: "runtime_reachable H s \<Longrightarrow> runtime_reachable H (snd (thaw_runtime_park_ready ks s))"
| unpark: "runtime_reachable H s \<Longrightarrow> runtime_reachable H (snd (thaw_runtime_adopt_ready ks s))"

lemma inv_start: "runtime_inv (runtime_start n)"
  by (simp add: runtime_inv_def runtime_start_def)

lemma native_text_step:
  assumes "runtime_inv s" "thaw_promise_reject_typed_with_native_text H p e tag f i b x t s = (r, s1)"
  shows "runtime_inv s1"
proof -
  obtain c s2 where c: "thaw_promise_reject_typed H p e tag f i b x s = (c, s2)" by (metis prod.exhaust)
  show ?thesis using reject_typed_step [OF assms(1) c] assms(2) c
    by (auto simp: thaw_promise_reject_typed_with_native_text_def intro: inv_text split: if_splits)
qed

lemma inv_reject_full [inv_rules]:
  "runtime_inv s \<Longrightarrow> runtime_inv (snd (thaw_promise_reject_typed_with_native_provenance H p e tag f i b x t a v s))"
  using native_text_step [of s H p e tag f i b x t]
  by (auto simp: thaw_promise_reject_typed_with_native_provenance_def thaw_promise_reject_typed_with_aggregate_def
      split: prod.split intro!: inv_rules)

lemma inv_reject_copy [inv_rules]: "runtime_inv s \<Longrightarrow> runtime_inv (snd (thaw_promise_reject_text_copy H B p r s))"
  by (auto simp: thaw_promise_reject_text_copy_def Let_def split: prod.split intro!: inv_rules)

lemma inv_on_thread: "runtime_inv s \<Longrightarrow> runtime_inv (on_thread f s)" "runtime_inv s \<Longrightarrow> runtime_inv (on_cells g s)"
  "runtime_inv s \<Longrightarrow> runtime_inv (s\<lparr>rt_reason_owners := rs\<rparr>)" "runtime_inv s \<Longrightarrow> runtime_inv (s\<lparr>rt_slot_owners := ss\<rparr>)"
  "runtime_inv s \<Longrightarrow> runtime_inv (s\<lparr>rt_ready := cs\<rparr>)" "runtime_inv s \<Longrightarrow> runtime_inv (s\<lparr>rt_promise_timers := ts\<rparr>)"
  "runtime_inv s \<Longrightarrow> runtime_inv (s\<lparr>native_timers := ns\<rparr>)" "runtime_inv s \<Longrightarrow> runtime_inv (s\<lparr>rt_fd_waits := ws, rt_active_joins := j\<rparr>)"
  "runtime_inv s \<Longrightarrow> runtime_inv (s\<lparr>ts_readings := k\<rparr>)"
  by (simp_all add: runtime_inv_def on_thread_def on_cells_def)

lemma inv_descriptor: "runtime_inv s \<Longrightarrow> runtime_inv (snd (thaw_exception_native_provenance_new H tag p l s))"
  by (auto simp: thaw_exception_native_provenance_new_def write_provenance_def register_release_hook_def arena_alloc_def Let_def split_beta
      intro!: inv_rules inv_on_thread)

lemma inv_slot: "runtime_inv s \<Longrightarrow> runtime_inv (snd (thaw_promise_arena_slot_replace p q r s))"
proof -
  assume s: "runtime_inv s"
  obtain i s1 where i: "slot_in_arena p q s = (i, s1)" by (metis prod.exhaust)
  have s1: "runtime_inv s1" using i s by (auto simp: slot_in_arena_def Let_def split_beta intro: inv_on_thread split: if_splits)
  then show ?thesis using s i by (auto simp: thaw_promise_arena_slot_replace_def register_release_hook_def Let_def split_beta intro!: inv_rules inv_on_thread)
qed

lemma inv_reclaim: "runtime_inv s \<Longrightarrow> runtime_inv (release_reclaimed_native_promise_internal_owners t s)"
  by (auto simp: release_reclaimed_native_promise_internal_owners_def Let_def intro!: inv_fold inv_rules inv_on_thread)

lemma inv_purge: "runtime_inv s \<Longrightarrow> runtime_inv (purge_pending_async_state L s)"
  by (auto simp: purge_pending_async_state_def set_invocation_deadline_def drop_continuation_def Let_def intro!: inv_fold inv_rules inv_on_thread)

lemma inv_hand_over: "runtime_inv s \<Longrightarrow> runtime_inv (snd (thaw_runtime_park_ready ks s))"
  "runtime_inv s \<Longrightarrow> runtime_inv (snd (thaw_runtime_adopt_ready ks s))"
proof -
  have one: "runtime_inv (snd acc) \<Longrightarrow> runtime_inv (snd (park_one c acc))" for c and acc :: "parked_continuation list \<times> 'a runtime"
    by (auto simp: park_one_def Let_def intro!: inv_fold inv_rules)
  have "runtime_inv (snd acc) \<Longrightarrow> runtime_inv (snd (fold park_one cs acc))" for cs and acc :: "parked_continuation list \<times> 'a runtime"
    by (induction cs arbitrary: acc) (simp_all add: one)
  then show "runtime_inv s \<Longrightarrow> runtime_inv (snd (thaw_runtime_park_ready ks s))"
    by (simp add: thaw_runtime_park_ready_def inv_on_thread)
  show "runtime_inv s \<Longrightarrow> runtime_inv (snd (thaw_runtime_adopt_ready ks s))"
    by (auto simp: thaw_runtime_adopt_ready_def adopt_one_def Let_def split_beta intro!: inv_fold inv_rules inv_on_thread)
qed

lemma runtime_reachable_inv: "runtime_reachable H s \<Longrightarrow> host_keeps H \<Longrightarrow> runtime_inv s"
  by (induction rule: runtime_reachable.induct)
     (simp_all add: inv_start inv_run_ready inv_rules inv_descriptor inv_slot inv_reclaim inv_purge inv_hand_over inv_on_thread host_keeps_def thaw_promise_resolve_with_provenance_def thaw_promise_reject_def
       thaw_promise_reject_native_text_def thaw_promise_forward_rejection_def)

subsection \<open>Outcomes\<close>

definition same_outcome :: "thaw_promise \<Rightarrow> thaw_promise \<Rightarrow> bool" where
  "same_outcome a b \<longleftrightarrow> pr_result a = pr_result b \<and> pr_rejected a = pr_rejected b \<and>
     (if pr_rejected b
      then pr_rejection_text a = pr_rejection_text b \<and> pr_tag a = pr_tag b \<and> pr_f64 a = pr_f64 b \<and> pr_i64 a = pr_i64 b \<and>
           pr_bool a = pr_bool b \<and> pr_object a = pr_object b \<and> pr_native a = pr_native b \<and> pr_aggregate_errors a = pr_aggregate_errors b
      else pr_fulfilled_provenance a = pr_fulfilled_provenance b)"

lemma reject_typed_pending:
  assumes "rt_promises s p = Some pr" "pr_result pr = None"
  shows "fst (thaw_promise_reject_typed H p e tag f i b x s)"
    "rt_promises (snd (thaw_promise_reject_typed H p e tag f i b x s)) =
       (rt_promises s)(p \<mapsto> (settled_promise pr e True 0)\<lparr>pr_tag := tag, pr_f64 := f, pr_i64 := i, pr_bool := b, pr_object := x\<rparr>)"
    "queue_view (snd (thaw_promise_reject_typed H p e tag f i b x s)) = queue_view s @ map (\<lambda>sb. (sb, e)) (pr_subscribers pr)"
  using settle_pending [OF assms, of H e True 0]
  by (auto simp: thaw_promise_reject_typed_def split_beta Let_def frame_simps)

lemma attach_runtime:
  assumes "rt_promises s p = Some pr"
  shows "rt_promises (attach_rejection p text aggregate native s) =
      (rt_promises s)(p \<mapsto> pr\<lparr>pr_rejection_text := text, pr_aggregate_errors := aggregate, pr_native := native\<rparr>)"
    "queue_view (attach_rejection p text aggregate native s) = queue_view s"
  using assms by (simp_all add: attach_rejection_def thaw_promise_set_exception_native_def set_promise_aggregate_errors_def frame_simps)

lemma forward_pending:
  assumes inv: "runtime_inv s" and o: "rt_promises s out = Some qo" "pr_result qo = None"
    and i: "rt_promises s inp = Some qi" "pr_result qi = Some r"
  shows "\<exists>qo'. rt_promises (forward_settlement H out inp r s) = (rt_promises s)(out \<mapsto> qo') \<and> same_outcome qo' qi \<and>
      pr_references qo' = pr_references qo \<and> pr_internal_references qo' = pr_internal_references qo"
    "queue_view (forward_settlement H out inp r s) = queue_view s @ map (\<lambda>sb. (sb, r)) (pr_subscribers qo)"
proof -
  have pok: "promise_ok qo" using runtime_invD [OF inv o(1)] by simp
  let ?t = "snd (thaw_promise_reject_typed H out r (pr_tag qi) (pr_f64 qi) (pr_i64 qi) (pr_bool qi) (pr_object qi) s)"
  note T = reject_typed_pending [OF o, of H r "pr_tag qi" "pr_f64 qi" "pr_i64 qi" "pr_bool qi" "pr_object qi"]
  note F = settle_pending [OF o, of H r False "pr_fulfilled_provenance qi"]
  have rej: "forward_settlement H out inp r s = attach_rejection out (pr_rejection_text qi) (pr_aggregate_errors qi) (pr_native qi) ?t"
    if "pr_rejected qi"
    using that i T(1) by (simp add: forward_settlement_def thaw_promise_state_def forward_promise_rejection_def split_beta)
  have ful: "forward_settlement H out inp r s = snd (settle_promise H out r False (pr_fulfilled_provenance qi) s)"
    if "\<not> pr_rejected qi"
    using that i by (simp add: forward_settlement_def thaw_promise_state_def forward_promise_fulfillment_def
        thaw_promise_resolve_with_provenance_def thaw_promise_fulfilled_provenance_def)
  show "\<exists>qo'. rt_promises (forward_settlement H out inp r s) = (rt_promises s)(out \<mapsto> qo') \<and> same_outcome qo' qi \<and>
      pr_references qo' = pr_references qo \<and> pr_internal_references qo' = pr_internal_references qo"
  proof (cases "pr_rejected qi")
    case True
    let ?q = "(settled_promise qo r True 0)\<lparr>pr_tag := pr_tag qi, pr_f64 := pr_f64 qi, pr_i64 := pr_i64 qi, pr_bool := pr_bool qi,
        pr_object := pr_object qi, pr_rejection_text := pr_rejection_text qi, pr_aggregate_errors := pr_aggregate_errors qi,
        pr_native := pr_native qi\<rparr>"
    have "rt_promises (forward_settlement H out inp r s) = (rt_promises s)(out \<mapsto> ?q)"
      unfolding rej [OF True] by (simp add: attach_runtime T(2))
    then show ?thesis using i(2) True by (intro exI [of _ ?q]) (simp add: same_outcome_def settled_promise_def)
  next
    case False
    then show ?thesis unfolding ful [OF False] F(2) using i(2) pok o(2)
      by (auto simp: same_outcome_def settled_promise_def promise_ok_def)
  qed
  show "queue_view (forward_settlement H out inp r s) = queue_view s @ map (\<lambda>sb. (sb, r)) (pr_subscribers qo)"
  proof (cases "pr_rejected qi")
    case True
    then show ?thesis unfolding rej [OF True] by (simp add: attach_runtime T(2,3))
  next
    case False
    then show ?thesis unfolding ful [OF False] by (simp add: F(5))
  qed
qed

subsection \<open>What the releases leave alone\<close>

lemma settle_boxes: "rt_boxes (snd (settle_promise H p r rejected v s)) = rt_boxes s"
  by (cases rule: settle_cases [of H p r rejected v s, case_names refused settled]) simp_all

lemma forward_boxes [frame_simps]: "rt_boxes (forward_settlement H out inp r s) = rt_boxes s"
proof -
  have t: "rt_boxes (snd (thaw_promise_reject_typed H p e tag f i b x s)) = rt_boxes s" for p e tag f i b x
    using settle_boxes [of H p e True 0 s] by (auto simp: thaw_promise_reject_typed_def split_beta Let_def frame_simps)
  have a: "rt_boxes (attach_rejection p tx ag nv u) = rt_boxes u" for p tx ag nv and u :: "'a runtime"
    by (auto simp: attach_rejection_def thaw_promise_set_exception_native_def set_promise_aggregate_errors_def frame_simps split: option.split)
  show ?thesis using t a settle_boxes
    by (auto simp: forward_settlement_def forward_promise_rejection_def forward_promise_fulfillment_def thaw_promise_reject_def
        thaw_promise_resolve_with_provenance_def split_beta split: option.split)
qed

lemma destroy_box_frame [frame_simps]:
  "rt_boxes (destroy_promise_box p s) = rt_boxes s" "rt_ready (destroy_promise_box p s) = rt_ready s"
  by (auto simp: destroy_promise_box_def Let_def frame_simps forget_refs_def split: option.split)

lemma destroy_frame [frame_simps]:
  "rt_boxes (thaw_promise_destroy p s) = rt_boxes s" "rt_ready (thaw_promise_destroy p s) = rt_ready s"
  by (auto simp: thaw_promise_destroy_def Let_def frame_simps split: option.split bool.split)

lemma release_frame [frame_simps]:
  "rt_boxes (release_native_promise_internal p s) = rt_boxes s" "rt_ready (release_native_promise_internal p s) = rt_ready s"
  by (auto simp: release_native_promise_internal_def Let_def frame_simps split: option.split)

lemma destroy_other: "q \<noteq> p \<Longrightarrow> rt_promises (thaw_promise_destroy p s) q = rt_promises s q"
  by (auto simp: thaw_promise_destroy_def Let_def frame_simps destroy_box_runtime split: option.split bool.split)

lemma release_kept:
  assumes "rt_promises s p = Some pr" "pr_internal_references pr < pr_references pr"
  shows "\<exists>pr'. rt_promises (release_native_promise_internal p s) p = Some pr' \<and> same_outcome pr' pr"
  using assms by (auto simp: release_native_promise_internal_def Let_def frame_simps same_outcome_def)

lemma output_ref_kept:
  assumes "rt_promises s p = Some pr" "pr_internal_references pr < pr_references pr"
  shows "\<exists>pr'. rt_promises (output_ref_drop p s) p = Some pr' \<and> same_outcome pr' pr"
  using assms release_kept [OF assms] by (auto simp: output_ref_drop_def same_outcome_def)

lemma same_outcome_trans: "same_outcome a b \<Longrightarrow> same_outcome b c \<Longrightarrow> same_outcome a c"
  by (auto simp: same_outcome_def)

lemma same_outcome_refl [simp]: "same_outcome a a"
  by (simp add: same_outcome_def)

text \<open>The end of every callback: the input handle goes, the frame releases the output.\<close>

lemma callback_end:
  assumes "rt_promises s out = Some q" "pr_internal_references q < pr_references q" "out \<noteq> inp"
  shows "\<exists>q'. rt_promises (output_ref_drop out (thaw_promise_destroy inp s)) out = Some q' \<and> same_outcome q' q"
  by (rule output_ref_kept) (simp_all add: destroy_other assms)

subsection \<open>Collecting\<close>

definition report_of :: "'b host \<Rightarrow> thaw_promise \<Rightarrow> unhandled_rejection" where
  "report_of H pr = \<lparr>uh_error = (case pr_result pr of None \<Rightarrow> 0 | Some r \<Rightarrow> r), uh_text = pr_rejection_text pr,
     uh_diagnostic = promise_report_bytes H pr, uh_root = None\<rparr>"

definition unhandled_at :: "(usize \<rightharpoonup> thaw_promise) \<Rightarrow> usize \<Rightarrow> bool" where
  "unhandled_at m p = (case m p of None \<Rightarrow> False | Some pr \<Rightarrow> unhandled_now pr)"

lemma collect_fold:
  "distinct ps \<Longrightarrow>
   fst (fold (collect_one H) ps acc) =
     fst acc @ map (\<lambda>p. report_of H (the (rt_promises (snd acc) p))) (filter (unhandled_at (rt_promises (snd acc))) ps) \<and>
   rt_promises (snd (fold (collect_one H) ps acc)) =
     (\<lambda>p. if p \<in> set ps \<and> unhandled_at (rt_promises (snd acc)) p
          then map_option (\<lambda>pr. pr\<lparr>pr_reported_unhandled := True\<rparr>) (rt_promises (snd acc) p) else rt_promises (snd acc) p) \<and>
   rt_active (snd (fold (collect_one H) ps acc)) = rt_active (snd acc) \<and>
   rt_orphaned (snd (fold (collect_one H) ps acc)) = rt_orphaned (snd acc)"
proof (induction ps arbitrary: acc)
  case (Cons p ps)
  let ?acc = "collect_one H p acc" and ?m = "rt_promises (snd acc)"
  have one: "fst ?acc = fst acc @ (if unhandled_at ?m p then [report_of H (the (?m p))] else [])"
    "rt_promises (snd ?acc) = (if unhandled_at ?m p then ?m(p := map_option (\<lambda>pr. pr\<lparr>pr_reported_unhandled := True\<rparr>) (?m p)) else ?m)"
    "rt_active (snd ?acc) = rt_active (snd acc)" "rt_orphaned (snd ?acc) = rt_orphaned (snd acc)"
    by (auto simp: collect_one_def unhandled_at_def report_of_def frame_simps put_promise_def split: option.split)
  have np: "p \<notin> set ps" using Cons.prems by simp
  have same: "rt_promises (snd ?acc) q = ?m q" if "q \<noteq> p" for q using that by (simp add: one(2))
  have un: "unhandled_at (rt_promises (snd ?acc)) q = unhandled_at ?m q" if "q \<in> set ps" for q
    using that np same [of q] by (cases "q = p") (simp_all add: unhandled_at_def)
  have f: "filter (unhandled_at (rt_promises (snd ?acc))) ps = filter (unhandled_at ?m) ps"
    by (rule filter_cong [OF refl un])
  have m: "map (\<lambda>p. report_of H (the (rt_promises (snd ?acc) p))) (filter (unhandled_at ?m) ps) =
      map (\<lambda>p. report_of H (the (?m p))) (filter (unhandled_at ?m) ps)"
  proof (rule map_cong [OF refl])
    fix q assume "q \<in> set (filter (unhandled_at ?m) ps)"
    then have "q \<noteq> p" using np by auto
    from same [OF this] show "report_of H (the (rt_promises (snd ?acc) q)) = report_of H (the (?m q))" by simp
  qed
  have IH: "fst (fold (collect_one H) ps ?acc) = fst ?acc @ map (\<lambda>p. report_of H (the (rt_promises (snd ?acc) p))) (filter (unhandled_at (rt_promises (snd ?acc))) ps)"
    "rt_promises (snd (fold (collect_one H) ps ?acc)) =
     (\<lambda>q. if q \<in> set ps \<and> unhandled_at (rt_promises (snd ?acc)) q
          then map_option (\<lambda>pr. pr\<lparr>pr_reported_unhandled := True\<rparr>) (rt_promises (snd ?acc) q) else rt_promises (snd ?acc) q)"
    "rt_active (snd (fold (collect_one H) ps ?acc)) = rt_active (snd ?acc)"
    "rt_orphaned (snd (fold (collect_one H) ps ?acc)) = rt_orphaned (snd ?acc)"
    using Cons.IH [of ?acc] Cons.prems by simp_all
  have "rt_promises (snd (fold (collect_one H) ps ?acc)) q =
      (if q \<in> set (p # ps) \<and> unhandled_at ?m q then map_option (\<lambda>pr. pr\<lparr>pr_reported_unhandled := True\<rparr>) (?m q) else ?m q)" for q
    unfolding IH(2) using np same [of q] by (auto simp: one(2) unhandled_at_def)
  then show ?case using IH(1,3,4) one(1,3,4) f m by auto
qed simp

subsection \<open>A concrete host\<close>

text \<open>Generated code that does nothing, and boxes at addresses above every live promise, race and waiting frame.\<close>

definition busy_addresses :: "'b runtime \<Rightarrow> usize list" where
  "busy_addresses s = rt_active s @ rt_race_states s @
     concat (map (\<lambda>p. case rt_promises s p of None \<Rightarrow> [] | Some pr \<Rightarrow> map sb_frame (pr_subscribers pr)) (rt_active s))"

definition idle_host :: "unit host" where
  "idle_host = \<lparr>ho_box = (\<lambda>s. Suc (fold max (busy_addresses s) 0)), ho_barrier = (\<lambda>_. 0), ho_drain = (\<lambda>_ s. s),
     ho_resume = (\<lambda>_ _ _ s. s), ho_transform = (\<lambda>_ _ _ _ _ s. s), ho_finally = (\<lambda>_ _ _ _ _ _ s. s),
     ho_number_text = (\<lambda>_. []), ho_bigint_text = (\<lambda>_. []), ho_number_display = (\<lambda>_. []), ho_static = (\<lambda>_. 0),
     ho_bump = \<lparr>bump_new = (), bump_try_alloc = \<lambda>_ _ _. None, bump_reset = id\<rparr>, ho_reserve = (\<lambda>_. True)\<rparr>"

lemma fold_max_less: "(x::nat) \<in> set xs \<or> x \<le> a \<Longrightarrow> x \<le> fold max xs a"
  by (induction xs arbitrary: a) (auto simp: le_max_iff_disj)

lemma idle_host_keeps: "host_keeps idle_host"
proof -
  have "rt_promises s (Suc (fold max (busy_addresses s) 0)) = None" if "runtime_inv s" for s :: "unit runtime"
  proof (rule ccontr)
    let ?a = "Suc (fold max (busy_addresses s) 0)"
    assume "rt_promises s ?a \<noteq> None"
    then have "?a \<in> set (rt_active s)" using that by (auto simp: runtime_inv_def)
    then have "?a \<in> set (busy_addresses s)" by (simp add: busy_addresses_def)
    then have "?a \<le> fold max (busy_addresses s) 0" by (intro fold_max_less) blast
    then show False by simp
  qed
  then show ?thesis by (simp add: host_keeps_def host_fresh_def idle_host_def)
qed

definition empty_runtime :: "unit runtime" where
  "empty_runtime = runtime_start (init_native (init_state \<lparr>bump_new = (), bump_try_alloc = \<lambda>_ _ _. None, bump_reset = id\<rparr> (\<lambda>_. 0)))"

definition one_promise :: "unit runtime" where
  "one_promise = snd (thaw_promise_new idle_host empty_runtime)"

lemma one_promise_reachable: "runtime_reachable idle_host one_promise"
  unfolding one_promise_def empty_runtime_def by (rule new [OF start])

lemma one_promise_state:
  "rt_promises one_promise 1 = Some new_promise" "rt_ready one_promise = []" "rt_active one_promise = [1]"
  by (simp_all add: one_promise_def empty_runtime_def runtime_start_def thaw_promise_new_def idle_host_def put_promise_def
      busy_addresses_def init_native_def init_state_def new_promise_def)

subsection \<open>Properties\<close>

text \<open>C5. In every state the runtime reaches, whatever generated code does through the exported functions:
  a settled promise has no subscriber left waiting, a pending one has no outcome, reference counts are
  positive and bound the internal references, and the active list names exactly the live promises, each
  once.\<close>

theorem promise_invariant:
  assumes "runtime_reachable H s" "host_keeps H"
  shows "runtime_inv s"
  by (rule runtime_reachable_inv [OF assms])

theorem promise_invariant_witness: "runtime_inv one_promise \<and> rt_promises one_promise 1 \<noteq> None"
  using promise_invariant [OF one_promise_reachable idle_host_keeps] one_promise_state by simp

text \<open>C6. A promise settles once. Settling a pending promise records the outcome and appends to the queue one
  continuation per subscriber, in registration order and with the result; every later attempt to
  settle it, either way, returns false and changes nothing.\<close>

theorem settle_once_in_order:
  assumes "rt_promises s p = Some pr" "pr_result pr = None"
  shows "\<exists>s'. settle_promise H p r rejected v s = (True, s') \<and>
    (\<exists>pr'. rt_promises s' p = Some pr' \<and> pr_result pr' = Some r \<and> pr_rejected pr' = rejected \<and> pr_subscribers pr' = []) \<and>
    (\<forall>q. q \<noteq> p \<longrightarrow> rt_promises s' q = rt_promises s q) \<and>
    queue_view s' = queue_view s @ map (\<lambda>sb. (sb, r)) (pr_subscribers pr) \<and>
    (\<forall>r' rejected' v'. settle_promise H p r' rejected' v' s' = (False, s'))"
proof -
  note S = settle_pending [OF assms, of H r rejected v]
  let ?s = "snd (settle_promise H p r rejected v s)"
  have p: "rt_promises ?s p = Some (settled_promise pr r rejected v)" by (simp add: S(2))
  have "settle_promise H p r' rejected' v' ?s = (False, ?s)" for r' rejected' v'
    by (rule settle_refused) (simp add: p settled_promise_def)
  then show ?thesis using S p by (intro exI [of _ ?s]) (simp add: prod_eq_iff settled_promise_def)
qed

theorem settle_once_in_order_witness:
  "\<exists>s'. settle_promise idle_host 1 5 True 0 one_promise = (True, s') \<and> settle_promise idle_host 1 9 False 0 s' = (False, s')"
  using settle_once_in_order [of one_promise 1 new_promise idle_host 5 True 0] one_promise_state
  by (auto simp: new_promise_def)

text \<open>C7. No wake-up is lost: whether a continuation subscribes before or after the settlement, the queue
  receives it, last and with the result, and the promise is marked as handled: at once when it is still
  pending, and in the state that either order leaves.\<close>

theorem no_lost_wakeup:
  assumes "rt_promises s p = Some pr" "pr_result pr = None"
  shows "\<exists>sb sb'. (sb_resume sb, sb_frame sb) = (f, frame) \<and> (sb_resume sb', sb_frame sb') = (f, frame) \<and>
    queue_view (snd (settle_promise H p r rejected v (snd (thaw_promise_subscribe H p f frame s)))) =
      queue_view s @ map (\<lambda>x. (x, r)) (pr_subscribers pr) @ [(sb, r)] \<and>
    queue_view (snd (thaw_promise_subscribe H p f frame (snd (settle_promise H p r rejected v s)))) =
      queue_view s @ map (\<lambda>x. (x, r)) (pr_subscribers pr) @ [(sb', r)] \<and>
    (\<exists>pr'. rt_promises (snd (thaw_promise_subscribe H p f frame s)) p = Some pr' \<and> pr_handled pr') \<and>
    (\<exists>pr'. rt_promises (snd (settle_promise H p r rejected v (snd (thaw_promise_subscribe H p f frame s)))) p = Some pr' \<and>
       pr_handled pr' \<and> pr_result pr' = Some r) \<and>
    (\<exists>pr'. rt_promises (snd (thaw_promise_subscribe H p f frame (snd (settle_promise H p r rejected v s)))) p = Some pr' \<and> pr_handled pr')"
proof -
  let ?s1 = "snd (thaw_promise_subscribe H p f frame s)" and ?t1 = "snd (settle_promise H p r rejected v s)"
  obtain sb where sb: "sb_resume sb = f" "sb_frame sb = frame"
      "rt_promises ?s1 = (rt_promises s)(p \<mapsto> pr\<lparr>pr_handled := True, pr_subscribers := pr_subscribers pr @ [sb]\<rparr>)"
      "queue_view ?s1 = queue_view s"
    using subscribe_pending [OF assms, of f frame "[]" H] unfolding thaw_promise_subscribe_def by blast
  have p1: "rt_promises ?s1 p = Some (pr\<lparr>pr_handled := True, pr_subscribers := pr_subscribers pr @ [sb]\<rparr>)" by (simp add: sb(3))
  have A: "queue_view (snd (settle_promise H p r rejected v ?s1)) = queue_view s @ map (\<lambda>x. (x, r)) (pr_subscribers pr) @ [(sb, r)]"
    using settle_pending(5) [OF p1, of H r rejected v] assms(2) sb(4) by simp
  have B: "\<exists>pr'. rt_promises (snd (settle_promise H p r rejected v ?s1)) p = Some pr' \<and> pr_handled pr' \<and> pr_result pr' = Some r"
    using settle_pending(2) [OF p1, of H r rejected v] assms(2) by (simp add: settled_promise_def)
  note S = settle_pending [OF assms, of H r rejected v]
  have p2: "rt_promises ?t1 p = Some (settled_promise pr r rejected v)" "pr_result (settled_promise pr r rejected v) = Some r"
    by (simp_all add: S(2) settled_promise_def)
  obtain sb' where sb': "sb_resume sb' = f" "sb_frame sb' = frame"
      "rt_promises (snd (thaw_promise_subscribe H p f frame ?t1)) = (rt_promises ?t1)(p \<mapsto> (settled_promise pr r rejected v)\<lparr>pr_handled := True\<rparr>)"
      "queue_view (snd (thaw_promise_subscribe H p f frame ?t1)) = queue_view ?t1 @ [(sb', r)]"
    using subscribe_settled [OF p2, of f frame "[]" H] unfolding thaw_promise_subscribe_def by blast
  show ?thesis using A B p1 sb(1,2) sb' S(5) by (intro exI [of _ sb] exI [of _ sb']) simp
qed

theorem no_lost_wakeup_witness:
  "(\<exists>sb. sb_frame sb = 7 \<and>
     queue_view (snd (thaw_promise_subscribe idle_host 1 (Resume_code 3) 7 (snd (settle_promise idle_host 1 5 False 0 one_promise)))) = [(sb, 5)]) \<and>
   (\<exists>sb pr. sb_frame sb = 7 \<and>
     queue_view (snd (settle_promise idle_host 1 5 False 0 (snd (thaw_promise_subscribe idle_host 1 (Resume_code 3) 7 one_promise)))) = [(sb, 5)] \<and>
     rt_promises (snd (settle_promise idle_host 1 5 False 0 (snd (thaw_promise_subscribe idle_host 1 (Resume_code 3) 7 one_promise)))) 1 = Some pr \<and>
     pr_handled pr)"
  using no_lost_wakeup [of one_promise 1 new_promise "Resume_code 3" 7 idle_host 5 False 0] one_promise_state
  by (auto simp: new_promise_def queue_view_def)

end
