(* ===== verification/Promise_Outcomes.thy ===== *)
theory Promise_Outcomes
  imports Promise_Properties
begin

text \<open>
  What the callbacks of the runtime do to outcomes: adoption copies the outcome of its input, a race
  takes the first one. When a promise is freed, and which rejections are reported.
\<close>

subsection \<open>Adoption\<close>

lemma box_take_frame [frame_simps]:
  "rt_promises (box_take a s) = rt_promises s" "rt_ready (box_take a s) = rt_ready s" "rt_active (box_take a s) = rt_active s"
  "rt_boxes (box_take a s) = (rt_boxes s)(a := None)" "queue_view (box_take a s) = queue_view s"
  by (simp_all add: box_take_def queue_view_def)

lemma queue_end: "queue_view (output_ref_drop out (thaw_promise_destroy inp s)) = queue_view s"
  by (rule queue_view_cong) (simp add: output_ref_drop_def frame_simps)

lemma boxes_end: "rt_boxes (output_ref_drop out (thaw_promise_destroy inp s)) = rt_boxes s"
  by (simp add: output_ref_drop_def frame_simps)

lemma forward_and_end:
  assumes "runtime_inv s" "rt_promises s out = Some qo" "pr_result qo = None" "pr_internal_references qo < pr_references qo"
    "rt_promises s inp = Some qi" "pr_result qi = Some r"
  shows "\<exists>q. rt_promises (output_ref_drop out (thaw_promise_destroy inp (forward_settlement H out inp r s))) out = Some q \<and>
    same_outcome q qi"
proof -
  let ?t = "forward_settlement H out inp r s"
  have ne: "out \<noteq> inp" using assms(2,3,5,6) by auto
  obtain q where q: "rt_promises ?t = (rt_promises s)(out \<mapsto> q)" "same_outcome q qi"
      "pr_references q = pr_references qo" "pr_internal_references q = pr_internal_references qo"
    using forward_pending(1) [OF assms(1,2,3,5,6), of H] by blast
  have "rt_promises ?t out = Some q" by (simp add: q(1))
  from callback_end [OF this _ ne] show ?thesis using q(2,3,4) assms(4) same_outcome_trans by auto
qed

text \<open>Adoption forwards the outcome. When the adopted promise has settled, its callback gives a pending output
  that somebody still holds the same outcome in every respect (value, rejection, tag and payload,
  text, aggregate errors, provenance), queues the subscribers of the output in order with
  the value, and frees its own frame.\<close>

theorem adopt_forwards:
  assumes "runtime_inv s" "rt_boxes s frame = Some (Adopt_box out inp)"
    and "rt_promises s out = Some qo" "pr_result qo = None" "pr_internal_references qo < pr_references qo"
    and "rt_promises s inp = Some qi" "pr_result qi = Some r"
  shows "(\<exists>q. rt_promises (resume_promise_adopt H frame r s) out = Some q \<and> same_outcome q qi) \<and>
    queue_view (resume_promise_adopt H frame r s) = queue_view s @ map (\<lambda>sb. (sb, r)) (pr_subscribers qo) \<and>
    rt_boxes (resume_promise_adopt H frame r s) = (rt_boxes s)(frame := None)"
proof -
  let ?s = "box_take frame s"
  have s: "runtime_inv ?s" "rt_promises ?s out = Some qo" "rt_promises ?s inp = Some qi"
    using assms by (simp_all add: inv_rules frame_simps)
  have e: "resume_promise_adopt H frame r s = output_ref_drop out (thaw_promise_destroy inp (forward_settlement H out inp r ?s))"
    by (simp add: resume_promise_adopt_def assms(2))
  show ?thesis unfolding e queue_end boxes_end
    using forward_and_end [OF s(1,2) assms(4,5) s(3) assms(7), of H] forward_pending(2) [OF s(1,2) assms(4) s(3) assms(7), of H]
    by (simp add: frame_simps)
qed

text \<open>A runtime where promise 2, resolved with 5, is adopted by promise 1.\<close>

definition adopting :: "unit runtime" where
  "adopting = (let s1 = snd (thaw_promise_new idle_host one_promise);
                   s2 = snd (thaw_promise_resolve_with_provenance idle_host 2 5 0 s1)
               in snd (thaw_promise_adopt idle_host 1 2 s2))"

lemmas idle_unfold = one_promise_def empty_runtime_def runtime_start_def thaw_promise_new_def idle_host_def busy_addresses_def put_promise_def
  init_native_def init_state_def new_promise_def thaw_promise_resolve_with_provenance_def settle_promise_def replace_ref_def
  thaw_promise_adopt_def box_new_def output_ref_new_def retain_native_promise_internal_def checked_add_def
  thaw_promise_subscribe_def subscribe_with_roots_def thaw_promise_mark_handled_def enqueue_continuation_def
  root_new_def split_beta Let_def usize_limit_def

lemma adopting_state:
  "rt_boxes adopting 3 = Some (Adopt_box 1 2)"
  "rt_promises adopting 1 = Some (new_promise\<lparr>pr_references := 2, pr_internal_references := 1\<rparr>)"
  "rt_promises adopting 2 = Some (new_promise\<lparr>pr_result := Some 5, pr_handled := True\<rparr>)"
  by (simp_all add: adopting_def idle_unfold)

lemma adopting_inv: "runtime_inv adopting"
  unfolding adopting_def Let_def
  by (rule runtime_reachable_inv [OF adopt [OF resolve [OF new [OF one_promise_reachable]]] idle_host_keeps])

theorem adopt_forwards_witness:
  "\<exists>q. rt_promises (resume_promise_adopt idle_host 3 5 adopting) 1 = Some q \<and> pr_result q = Some 5 \<and> \<not> pr_rejected q"
  using adopt_forwards [OF adopting_inv adopting_state(1,2) _ _ adopting_state(3), of 5 idle_host]
  by (auto simp: same_outcome_def new_promise_def)

subsection \<open>Racing\<close>

lemma race_child_box:
  assumes "rt_boxes s frame = Some (Race_child_box state inp)" "state \<noteq> frame" "rt_boxes s state = Some (Race_box st)"
  shows "rt_boxes (resume_promise_race_child H frame r s) state =
     (if ra_remaining st \<le> 1 then None else Some (Race_box (st\<lparr>ra_settled := True, ra_remaining := ra_remaining st - 1\<rparr>)))"
  using assms by (simp add: resume_promise_race_child_def Let_def drop_race_state_def output_ref_drop_def frame_simps)

text \<open>The tail of the callback, after a possible settlement: the handle goes, the counter falls, the last child frees the state.\<close>

lemma race_tail:
  assumes "rt_promises s out = Some q" "pr_internal_references q < pr_references q" "out \<noteq> inp"
  shows "\<exists>q'. rt_promises (if b then drop_race_state state st1
             ((thaw_promise_destroy inp s)\<lparr>rt_boxes := bx, rt_race_states := l, rt_active_joins := n\<rparr>)
           else (thaw_promise_destroy inp s)\<lparr>rt_boxes := bx\<rparr>) out = Some q' \<and> same_outcome q' q"
proof (cases b)
  case False
  then show ?thesis by (simp add: destroy_other assms)
next
  case True
  let ?t = "box_take state ((thaw_promise_destroy inp s)\<lparr>rt_boxes := bx, rt_race_states := l, rt_active_joins := n\<rparr>)"
  have t: "rt_promises ?t out = Some q" using assms by (simp add: frame_simps destroy_other)
  show ?thesis
  proof (cases "ra_output st1 = out")
    case o: True
    then show ?thesis using output_ref_kept [OF t assms(2)] True by (simp add: drop_race_state_def)
  next
    case o: False
    have "rt_promises (output_ref_drop (ra_output st1) ?t) out = Some q"
      using t o by (auto simp: output_ref_drop_def release_native_promise_internal_def Let_def frame_simps destroy_box_runtime split: option.split)
    then show ?thesis using True by (simp add: drop_race_state_def)
  qed
qed

text \<open>A race takes the first outcome. The first child to settle gives the output its own outcome; every later child
  leaves the outcome of the output as it is; each child lowers the count, and the last one frees the
  state of the race.\<close>

theorem race_first_wins:
  assumes "runtime_inv s" "rt_boxes s frame = Some (Race_child_box state inp)" "state \<noteq> frame"
    and "rt_boxes s state = Some (Race_box st)"
    and "rt_promises s inp = Some qi" "pr_result qi = Some r" "ra_output st \<noteq> inp"
    and "rt_promises s (ra_output st) = Some qo" "pr_internal_references qo < pr_references qo"
    and "pr_result qo = None \<or> ra_settled st"
  shows "(\<exists>q. rt_promises (resume_promise_race_child H frame r s) (ra_output st) = Some q \<and>
           same_outcome q (if ra_settled st then qo else qi)) \<and>
    rt_boxes (resume_promise_race_child H frame r s) state =
      (if ra_remaining st \<le> 1 then None else Some (Race_box (st\<lparr>ra_settled := True, ra_remaining := ra_remaining st - 1\<rparr>)))"
proof (rule conjI)
  let ?s1 = "box_take frame s"
  let ?u = "?s1\<lparr>rt_boxes := (rt_boxes ?s1)(state \<mapsto> Race_box (st\<lparr>ra_settled := True\<rparr>))\<rparr>"
  let ?s2 = "if \<not> ra_settled st then forward_settlement H (ra_output st) inp r ?u else ?s1"
  have u: "runtime_inv ?u" "rt_promises ?u (ra_output st) = Some qo" "rt_promises ?u inp = Some qi"
    using assms(1,5,8) by (simp_all add: inv_rules frame_simps)
  have "\<exists>q. rt_promises ?s2 (ra_output st) = Some q \<and> pr_internal_references q < pr_references q \<and>
      same_outcome q (if ra_settled st then qo else qi)"
  proof (cases "ra_settled st")
    case False
    then have "pr_result qo = None" using assms(10) by simp
    from forward_pending(1) [OF u(1,2) this u(3) assms(6), of H] show ?thesis using False assms(9) by auto
  qed (use assms(8,9) in \<open>simp add: frame_simps\<close>)
  then obtain q where q: "rt_promises ?s2 (ra_output st) = Some q" "pr_internal_references q < pr_references q"
      "same_outcome q (if ra_settled st then qo else qi)" by blast
  let ?d = "thaw_promise_destroy inp ?s2" and ?st1 = "st\<lparr>ra_settled := True, ra_remaining := ra_remaining st - 1\<rparr>"
  let ?bx = "(rt_boxes ?d)(state \<mapsto> Race_box ?st1)"
  have e: "resume_promise_race_child H frame r s =
      (if ra_remaining st \<le> 1
       then drop_race_state state ?st1 (?d\<lparr>rt_boxes := ?bx, rt_race_states := filter (\<lambda>a. a \<noteq> state) (rt_race_states ?d),
              rt_active_joins := (if ra_join_counted st then rt_active_joins ?d - 1 else rt_active_joins ?d)\<rparr>)
       else ?d\<lparr>rt_boxes := ?bx\<rparr>)"
    using assms(2,3,4) by (simp add: resume_promise_race_child_def Let_def frame_simps)
  obtain q' where "rt_promises (resume_promise_race_child H frame r s) (ra_output st) = Some q'" "same_outcome q' q"
    unfolding e using race_tail [OF q(1,2) assms(7)] by blast
  then show "\<exists>q. rt_promises (resume_promise_race_child H frame r s) (ra_output st) = Some q \<and> same_outcome q (if ra_settled st then qo else qi)"
    using same_outcome_trans [OF _ q(3)] by blast
qed (rule race_child_box [OF assms(2,3,4)])

text \<open>A runtime where a race over promise 1 has promise 2 as its output and promise 1 has been rejected with 5.\<close>

definition racing :: "unit runtime" where
  "racing = snd (thaw_promise_reject idle_host 1 5 (snd (thaw_promise_race idle_host (Some [1]) 1 one_promise)))"

lemma racing_inv: "runtime_inv racing"
  unfolding racing_def by (rule runtime_reachable_inv [OF reject [OF race [OF one_promise_reachable]] idle_host_keeps])

lemma racing_state:
  "rt_boxes racing 4 = Some (Race_child_box 3 1)"
  "rt_boxes racing 3 = Some (Race_box \<lparr>ra_output = 2, ra_remaining = 1, ra_settled = False, ra_join_counted = True\<rparr>)"
  "rt_promises racing 1 = Some (new_promise\<lparr>pr_result := Some 5, pr_rejected := True, pr_handled := True\<rparr>)"
  "rt_promises racing 2 = Some (new_promise\<lparr>pr_references := 2, pr_internal_references := 1\<rparr>)"
  by (simp_all add: racing_def thaw_promise_race_def distinct_handles_def race_subscribe_def update_promise_def
      thaw_promise_reject_def idle_unfold)

theorem race_first_wins_witness:
  "\<exists>q. rt_promises (resume_promise_race_child idle_host 4 5 racing) 2 = Some q \<and> pr_result q = Some 5 \<and> pr_rejected q"
  using race_first_wins [OF racing_inv racing_state(1) _ racing_state(2,3), of 5 _ idle_host] racing_state(4)
  by (auto simp: same_outcome_def new_promise_def)

subsection \<open>Lifetime\<close>

lemma destroy_reference:
  assumes "rt_promises s p = Some pr" "p \<noteq> 0" "pr_internal_references pr < pr_references pr" "1 < pr_references pr"
  shows "\<exists>x. rt_promises (thaw_promise_destroy p s) = (rt_promises s)(p \<mapsto> pr\<lparr>pr_references := pr_references pr - 1, pr_external_root := x\<rparr>)"
  using assms by (cases rule: destroy_cases [OF assms(1,2), case_names kept last more]) auto

text \<open>C20. A promise lives exactly as long as a reference to it. Destroying a handle frees it only when that handle was the
  last reference of any kind; releasing a callback frees it only when the callback held the last
  one; retaining and destroying a handle leave the promise as it was, its pin apart; a retain
  that would overflow the count is refused and changes nothing.\<close>

theorem handle_lifetime:
  assumes "runtime_inv s" "rt_promises s p = Some pr"
  shows "(rt_promises (thaw_promise_destroy p s) p = None \<longleftrightarrow> pr_references pr = 1 \<and> pr_internal_references pr = 0) \<and>
    (rt_promises (release_native_promise_internal p s) p = None \<longleftrightarrow> pr_references pr = 1 \<and> pr_internal_references pr = 1) \<and>
    (pr_references pr + 1 < usize_limit \<longrightarrow>
       (\<exists>x. rt_promises (thaw_promise_destroy p (snd (thaw_promise_retain p s))) = (rt_promises s)(p \<mapsto> pr\<lparr>pr_external_root := x\<rparr>))) \<and>
    (usize_limit \<le> pr_references pr + 1 \<longrightarrow> thaw_promise_retain p s = (False, s))"
proof (intro conjI impI)
  have p: "p \<noteq> 0" and ok: "promise_ok pr" using runtime_invD [OF assms] by auto
  show "rt_promises (thaw_promise_destroy p s) p = None \<longleftrightarrow> pr_references pr = 1 \<and> pr_internal_references pr = 0"
    by (cases rule: destroy_cases [OF assms(2) p, case_names kept last more]) (use assms(2) ok in \<open>auto simp: promise_ok_def\<close>)
  show "rt_promises (release_native_promise_internal p s) p = None \<longleftrightarrow> pr_references pr = 1 \<and> pr_internal_references pr = 1"
    using assms(2) ok by (auto simp: release_native_promise_internal_def promise_ok_def Let_def frame_simps destroy_box_runtime)
  show "thaw_promise_retain p s = (False, s)" if "usize_limit \<le> pr_references pr + 1"
    by (rule retain_refused [OF assms(2)]) (use that in simp)
  assume lt: "pr_references pr + 1 < usize_limit"
  let ?t = "snd (thaw_promise_retain p s)"
  obtain x where t: "rt_promises ?t = (rt_promises s)(p \<mapsto> pr\<lparr>pr_references := Suc (pr_references pr), pr_external_root := x\<rparr>)"
    using retain_live [OF assms(2) lt] by blast
  have "rt_promises ?t p = Some (pr\<lparr>pr_references := Suc (pr_references pr), pr_external_root := x\<rparr>)" by (simp add: t)
  from destroy_reference [OF this p]
  show "\<exists>x. rt_promises (thaw_promise_destroy p ?t) = (rt_promises s)(p \<mapsto> pr\<lparr>pr_external_root := x\<rparr>)"
    using ok by (auto simp: t promise_ok_def)
qed

theorem handle_lifetime_witness: "rt_promises (thaw_promise_destroy 1 one_promise) 1 = None"
  using handle_lifetime [OF runtime_reachable_inv [OF one_promise_reachable idle_host_keeps] one_promise_state(1)]
  by (simp add: new_promise_def)

subsection \<open>Unhandled rejections\<close>

text \<open>C21. Every unhandled rejection is reported once: collecting returns the orphaned reports followed by one report per live
  promise that is rejected, not handled and not yet reported, in creation order, and collecting
  again returns nothing.\<close>

theorem unhandled_reported_once:
  assumes "runtime_inv s"
  shows "fst (collect_unhandled_rejections H s) =
      rt_orphaned s @ map (\<lambda>p. report_of H (the (rt_promises s p))) (filter (unhandled_at (rt_promises s)) (rt_active s)) \<and>
    fst (collect_unhandled_rejections H (snd (collect_unhandled_rejections H s))) = []"
proof (rule conjI)
  let ?t = "snd (collect_unhandled_rejections H s)"
  have d: "distinct (rt_active s)" using assms by (simp add: runtime_inv_def)
  note C = collect_fold [OF d, of H "(rt_orphaned s, s\<lparr>rt_orphaned := []\<rparr>)", folded collect_unhandled_rejections_def, simplified]
  show "fst (collect_unhandled_rejections H s) =
      rt_orphaned s @ map (\<lambda>p. report_of H (the (rt_promises s p))) (filter (unhandled_at (rt_promises s)) (rt_active s))"
    using C by simp
  have active: "rt_active ?t = rt_active s" and orphaned: "rt_orphaned ?t = []" using C by simp_all
  have none: "\<not> unhandled_at (rt_promises ?t) p" if "p \<in> set (rt_active s)" for p
    using C that by (auto simp: unhandled_at_def unhandled_now_def split: option.split)
  have "filter (unhandled_at (rt_promises ?t)) (rt_active s) = []" using none by (simp add: filter_empty_conv)
  moreover have "distinct (rt_active ?t)" using d active by simp
  ultimately show "fst (collect_unhandled_rejections H ?t) = []"
    using collect_fold [of "rt_active ?t" H "(rt_orphaned ?t, ?t\<lparr>rt_orphaned := []\<rparr>)"] active orphaned
    by (simp add: collect_unhandled_rejections_def)
qed

theorem unhandled_reported_once_witness:
  "map uh_error (fst (collect_unhandled_rejections idle_host (snd (thaw_promise_reject idle_host 1 5 one_promise)))) = [5]"
proof -
  let ?s = "snd (thaw_promise_reject idle_host 1 5 one_promise)"
  have "runtime_inv ?s" by (rule runtime_reachable_inv [OF reject [OF one_promise_reachable] idle_host_keeps])
  moreover have "rt_promises ?s 1 = Some (new_promise\<lparr>pr_result := Some 5, pr_rejected := True\<rparr>)" "rt_active ?s = [1]" "rt_orphaned ?s = []"
    by (simp_all add: thaw_promise_reject_def idle_unfold)
  ultimately show ?thesis using unhandled_reported_once [of ?s idle_host]
    by (simp add: unhandled_at_def unhandled_now_def report_of_def new_promise_def)
qed

end
