(* ===== verification/Event_Properties.thy ===== *)
theory Event_Properties
  imports Event_Loop Promise_Outcomes Timer_Properties
begin

text \<open>
  The event loop: a poll that reports no progress leaves nothing to do, descriptor waits complete
  exactly when they are ready or expired, continuations keep their order when they move between
  threads, and a purge makes the callbacks of abandoned joins inert.
\<close>

subsection \<open>Idle polls\<close>

lemma phase_step_fields:
  "\<exists>r c. snd (phase_snapshot clk s) = s\<lparr>ts_readings := r, timer_phase_cell := c\<rparr> \<and> ts_readings s \<le> r \<and> r \<le> ts_readings s + 1"
  "\<exists>r c. next_phase clk ph sn s = s\<lparr>ts_readings := r, timer_phase_cell := c\<rparr> \<and> ts_readings s \<le> r \<and> r \<le> ts_readings s + 1"
proof -
  show "\<exists>r c. snd (phase_snapshot clk s) = s\<lparr>ts_readings := r, timer_phase_cell := c\<rparr> \<and> ts_readings s \<le> r \<and> r \<le> ts_readings s + 1"
    by (cases "snd (timer_phase_cell s) < 0"; intro exI [of _ "ts_readings (snd (phase_snapshot clk s))"]
          exI [of _ "timer_phase_cell (snd (phase_snapshot clk s))"])
       (simp_all add: phase_snapshot_def timer_now_ms_def Let_def split_beta)
  show "\<exists>r c. next_phase clk ph sn s = s\<lparr>ts_readings := r, timer_phase_cell := c\<rparr> \<and> ts_readings s \<le> r \<and> r \<le> ts_readings s + 1"
    by (intro exI [of _ "ts_readings (next_phase clk ph sn s)"] exI [of _ "timer_phase_cell (next_phase clk ph sn s)"], cases ph)
       (simp_all add: next_phase_def timer_now_ms_def Let_def)
qed

lemma run_phases_idle:
  "run_phases n rnd clk fire s = (False, s') \<Longrightarrow>
   \<exists>r c. s' = s\<lparr>ts_readings := r, timer_phase_cell := c\<rparr> \<and> ts_readings s \<le> r \<and> r \<le> ts_readings s + 2 * n"
proof (induction n arbitrary: s)
  case 0
  then show ?case by (intro exI [of _ "ts_readings s"] exI [of _ "timer_phase_cell s"]) simp
next
  case (Suc n)
  obtain ph sn s1 where p: "phase_snapshot clk s = ((ph, sn), s1)" by (metis prod.exhaust)
  have step: "run_phases n rnd clk fire (next_phase clk ph sn s1) = (False, s')"
    using Suc.prems p by (auto split: option.splits)
  obtain r1 c1 where a: "s1 = s\<lparr>ts_readings := r1, timer_phase_cell := c1\<rparr>" "ts_readings s \<le> r1" "r1 \<le> ts_readings s + 1"
    using phase_step_fields(1) [of clk s] p by auto
  obtain r2 c2 where b: "next_phase clk ph sn s1 = s1\<lparr>ts_readings := r2, timer_phase_cell := c2\<rparr>" "ts_readings s1 \<le> r2" "r2 \<le> ts_readings s1 + 1"
    using phase_step_fields(2) [of clk ph sn s1] by auto
  from Suc.IH [OF step] obtain r c where c: "s' = (next_phase clk ph sn s1)\<lparr>ts_readings := r, timer_phase_cell := c\<rparr>"
      "ts_readings (next_phase clk ph sn s1) \<le> r" "r \<le> ts_readings (next_phase clk ph sn s1) + 2 * n" by blast
  show ?case using a b c by (intro exI [of _ r] exI [of _ c]) simp
qed

lemma native_timer_idle:
  assumes "run_native_timer L s = (False, s')"
  shows "\<exists>r c. s' = s\<lparr>ts_readings := r, timer_phase_cell := c\<rparr> \<and> ts_readings s \<le> r \<and> r \<le> ts_readings s + 6"
proof (cases "native_timers_pending s")
  case True
  then show ?thesis using run_phases_idle [of 3 "lh_round L" "lh_ms L" "lh_fire L" s s'] assms
    by (simp add: run_native_timer_def run_one_native_timer_def)
next
  case False
  then have "s' = s" using assms by (simp add: run_native_timer_def run_one_native_timer_def)
  then show ?thesis by (intro exI [of _ "ts_readings s"] exI [of _ "timer_phase_cell s"]) simp
qed

lemma native_timer_none_ready:
  assumes "run_native_timer L s = (False, s')" "timers_inv s" "mono (lh_ms L)" "t \<in> set (native_timers s)"
  shows "tm_kind t \<noteq> TIMER_IMMEDIATE \<and> lh_ms L (ts_readings s) < tm_due t"
proof (rule ccontr)
  assume "\<not> ?thesis"
  then have "tm_kind t = TIMER_IMMEDIATE \<or> (\<forall>n \<ge> ts_readings s. tm_due t \<le> lh_ms L n)"
    using monoD [OF assms(3)] by (auto simp: not_less intro: order_trans)
  from run_three [OF assms(2,4) this] have "fst (run_phases 3 (lh_round L) (lh_ms L) (lh_fire L) s)" .
  moreover have "native_timers_pending s" using assms(4) by (auto simp: native_timers_pending_def)
  ultimately show False using assms(1) by (simp add: run_native_timer_def run_one_native_timer_def)
qed

lemma poll_one_idle:
  assumes "thaw_runtime_poll_one L s = (False, s')"
  obtains t where "rt_ready t = []" "\<not> reporting_work t" "lc_failure (rt_cells t) \<and> s' = t \<or> run_native_timer L t = (False, s')"
proof -
  let ?s1 = "if rt_ready s = [] then report_pending_rejection_handled L s else s"
  obtain io s3 where p: "poll_fd_waits L (Some 0) (promote_due L ?s1) = (io, s3)" by (metis prod.exhaust)
  have e: "rt_ready s3 = []" using assms p by (auto simp: thaw_runtime_poll_one_def Let_def run_ready_continuation_def split: list.splits if_splits)
  let ?t = "report_registered_unhandled_rejections L s3"
  have pi: "poll_idle L io s3 = (False, s')" using assms p e by (simp add: thaw_runtime_poll_one_def Let_def)
  obtain b u where r: "run_native_timer L ?t = (b, u)" by (metis prod.exhaust)
  have "\<not> reporting_work ?t" "io = 0" using pi r by (auto simp: poll_idle_def Let_def split: if_splits)
  moreover have "lc_failure (rt_cells ?t) \<and> s' = ?t \<or> (b = False \<and> u = s')"
    using pi r calculation by (auto simp: poll_idle_def Let_def split: if_splits)
  moreover have "rt_ready ?t = []"
    using pi r calculation native_timer_idle [of L ?t u] by (auto simp: poll_idle_def Let_def split: if_splits)
  ultimately show ?thesis using that r by blast
qed

lemma reporting_frame: "reporting_work (s\<lparr>ts_readings := r, timer_phase_cell := c\<rparr>) = reporting_work s"
  by (simp add: reporting_work_def)

text \<open>C22. A poll that reports no progress leaves nothing to do: no continuation is ready, no unhandled rejection waits to
  be reported, no late handler waits to be announced, and, unless a failed report has stopped the
  loop, no immediate is queued and every timer is due after the clock reading at which the timers were
  examined, one of the last six readings.\<close>

theorem idle_poll_leaves_nothing:
  assumes "thaw_runtime_poll_one L s = (False, s')" "mono (lh_ms L)" "timers_inv s'"
  shows "rt_ready s' = [] \<and> \<not> reporting_work s' \<and>
    (lc_failure (rt_cells s') \<or>
      (\<exists>r \<le> ts_readings s'. ts_readings s' \<le> r + 6 \<and>
         (\<forall>t \<in> set (native_timers s'). tm_kind t \<noteq> TIMER_IMMEDIATE \<and> lh_ms L r < tm_due t)))"
proof -
  obtain u where u: "rt_ready u = []" "\<not> reporting_work u" "lc_failure (rt_cells u) \<and> s' = u \<or> run_native_timer L u = (False, s')"
    by (rule poll_one_idle [OF assms(1)])
  show ?thesis
  proof (cases "lc_failure (rt_cells u) \<and> s' = u")
    case True
    then show ?thesis using u by simp
  next
    case False
    then have run: "run_native_timer L u = (False, s')" using u(3) by blast
    obtain r c where s': "s' = u\<lparr>ts_readings := r, timer_phase_cell := c\<rparr>" "ts_readings u \<le> r" "r \<le> ts_readings u + 6"
      using native_timer_idle [OF run] by blast
    have "timers_inv u" by (rule timers_inv_cong [OF _ _ assms(3)]) (simp_all add: s'(1))
    then have "\<forall>t \<in> set (native_timers u). tm_kind t \<noteq> TIMER_IMMEDIATE \<and> lh_ms L (ts_readings u) < tm_due t"
      using native_timer_none_ready [OF run _ assms(2)] by blast
    then show ?thesis using u(1,2) s' by (auto simp: reporting_frame)
  qed
qed

text \<open>A loop whose outside world does nothing: the clock counts its readings, no descriptor becomes ready.\<close>

definition idle_loop :: "unit loop_host" where
  "idle_loop = \<lparr>lh_host = idle_host, lh_clock = id, lh_ms = of_nat, lh_round = id, lh_duration = (\<lambda>_. 0), lh_fire = (\<lambda>_ _ s. s),
     lh_poll = (\<lambda>fds _ _. (0, replicate (length fds) 0)), lh_watch = (\<lambda>_ _ _ s. s), lh_report = (\<lambda>_ _ s. (True, s)),
     lh_report_result = (\<lambda>_ _ s. ((1, 0), s)), lh_handled = (\<lambda>_ s. s), lh_handled_result = (\<lambda>_ s. (0, s)),
     lh_servers = (\<lambda>s. (0, s)), lh_seconds = (\<lambda>_. []),
     lh_error_with_props = (\<lambda>_ _. [])\<rparr>"

lemmas idle_poll_unfold = thaw_runtime_poll_one_def poll_idle_def report_pending_rejection_handled_def promote_due_def instant_now_def
  promote_due_timers_def poll_fd_waits_def report_registered_unhandled_rejections_def thaw_promise_drain_unhandled_def
  collect_unhandled_rejections_def add_activity_def on_cells_def reporting_work_def run_native_timer_def run_one_native_timer_def
  native_timers_pending_def idle_loop_def empty_runtime_def runtime_start_def take_due.simps Let_def

theorem idle_poll_leaves_nothing_witness:
  "\<exists>s'. thaw_runtime_poll_one idle_loop empty_runtime = (False, s') \<and> rt_ready s' = [] \<and> \<not> reporting_work s'"
proof -
  obtain b s' where p: "thaw_runtime_poll_one idle_loop empty_runtime = (b, s')" by (metis prod.exhaust)
  have b: "b = False" and t: "native_timers s' = []" "next_timer_id s' = 1" using p by (auto simp: idle_poll_unfold)
  have inv: "timers_inv s'" using t by (simp add: timers_inv_def)
  have m: "mono (lh_ms idle_loop)" by (rule monoI) (simp add: idle_loop_def)
  show ?thesis using idle_poll_leaves_nothing [OF _ m inv, of empty_runtime] p b by blast
qed

subsection \<open>Descriptor waits\<close>

definition expired :: "nat \<Rightarrow> promise_fd_wait \<Rightarrow> bool" where
  "expired now w \<longleftrightarrow> (case fw_deadline w of Some d \<Rightarrow> d \<le> now | None \<Rightarrow> False)"

lemma swap_remove_below: "j < i \<Longrightarrow> i < length xs \<Longrightarrow> swap_remove i xs ! j = xs ! j"
  by (auto simp: swap_remove_def nth_butlast)

lemma swap_remove_length [simp]: "i < length xs \<Longrightarrow> length (swap_remove i xs) = length xs - 1"
  by (simp add: swap_remove_def)

lemma swap_remove_mset:
  assumes "i < length xs"
  shows "mset (swap_remove i xs) = mset xs - {#xs ! i#}"
proof (cases "i = length xs - 1")
  case True
  then show ?thesis using assms by (cases xs rule: rev_cases) (simp_all add: swap_remove_def)
next
  case False
  obtain ys y where xs: "xs = ys @ [y]" using assms by (cases xs rule: rev_cases) auto
  then have i: "i < length ys" using assms False by auto
  then have "swap_remove i xs = ys[i := y]" using False xs by (simp add: swap_remove_def list_update_append)
  moreover have "mset (ys[i := y]) = add_mset y (mset ys - {#ys ! i#})" by (rule mset_update [OF i])
  ultimately show ?thesis using xs i by (simp add: nth_append)
qed

lemma complete_waits_result:
  assumes "n \<le> length ws"
  shows "snd (complete_waits now rv n ws) =
      map (\<lambda>i. (fw_promise (ws ! i), rv ! i, expired now (ws ! i))) (rev (filter (\<lambda>i. rv ! i \<noteq> 0 \<or> expired now (ws ! i)) [0..<n])) \<and>
    mset (fst (complete_waits now rv n ws)) + mset (map ((!) ws) (filter (\<lambda>i. rv ! i \<noteq> 0 \<or> expired now (ws ! i)) [0..<n])) = mset ws"
  using assms
proof (induction n arbitrary: ws)
  case (Suc n)
  let ?ready = "\<lambda>ws i. rv ! i \<noteq> 0 \<or> expired now (ws ! i)"
  show ?case
  proof (cases "?ready ws n")
    case False
    then show ?thesis using Suc.IH [of ws] Suc.prems by (simp add: expired_def Let_def)
  next
    case True
    let ?us = "swap_remove n ws"
    have n: "n < length ws" using Suc.prems by simp
    have le: "n \<le> length ?us" using n by simp
    have same: "?us ! i = ws ! i" if "i \<in> set [0..<n]" for i using that n by (simp add: swap_remove_below)
    have f: "filter (?ready ?us) [0..<n] = filter (?ready ws) [0..<n]" by (rule filter_cong [OF refl]) (simp only: same)
    define R where "R = filter (?ready ws) [0..<n]"
    have fR: "filter (?ready ws) [0..<Suc n] = R @ [n]" using True by (simp add: R_def)
    have m: "map g R = map h R" if "\<And>i. i < n \<Longrightarrow> g i = h i" for g h :: "nat \<Rightarrow> 'x"
      using that by (intro map_cong [OF refl]) (auto simp: R_def)
    have e: "complete_waits now rv (Suc n) ws =
        (fst (complete_waits now rv n ?us), (fw_promise (ws ! n), rv ! n, expired now (ws ! n)) # snd (complete_waits now rv n ?us))"
      using True by (simp add: expired_def Let_def split_beta)
    note IH = Suc.IH [OF le, unfolded f, folded R_def]
    have a: "map (\<lambda>i. (fw_promise (?us ! i), rv ! i, expired now (?us ! i))) (rev R) =
        map (\<lambda>i. (fw_promise (ws ! i), rv ! i, expired now (ws ! i))) (rev R)"
      unfolding rev_map [symmetric] by (rule arg_cong [of _ _ rev], rule m) (simp add: same)
    have b: "map ((!) ?us) R = map ((!) ws) R" by (rule m) (simp add: same)
    have c: "mset ?us = mset ws - {#ws ! n#}" "ws ! n \<in># mset ws" using n by (simp_all add: swap_remove_mset)
    have first: "snd (complete_waits now rv n ?us) = map (\<lambda>i. (fw_promise (ws ! i), rv ! i, expired now (ws ! i))) (rev R)"
      using IH a by simp
    have "mset (fst (complete_waits now rv n ?us)) + mset (map ((!) ws) R) = mset ws - {#ws ! n#}" using IH b c(1) by simp
    then have "mset (fst (complete_waits now rv n ?us)) + mset (map ((!) ws) (R @ [n])) = mset ws"
      using c(2) by (simp del: mset_map)
    then show ?thesis unfolding fR e using first by simp
  qed
qed simp

definition ready_waits :: "nat \<Rightarrow> nat list \<Rightarrow> promise_fd_wait list \<Rightarrow> nat list" where
  "ready_waits now revents waits = filter (\<lambda>i. revents ! i \<noteq> 0 \<or> expired now (waits ! i)) [0..<length waits]"

text \<open>A descriptor wait completes exactly when its descriptor has events or its deadline has passed: the completed
  waits are those, from the last to the first, each with its events and whether it expired, and
  with the waits that stay they make up the waits that were there. \<open>swap_remove\<close> inside the
  loop loses none and takes none twice.\<close>

theorem fd_waits_complete_exactly:
  "snd (complete_waits now revents (length waits) waits) =
     map (\<lambda>i. (fw_promise (waits ! i), revents ! i, expired now (waits ! i))) (rev (ready_waits now revents waits)) \<and>
   mset (fst (complete_waits now revents (length waits) waits)) + mset (map ((!) waits) (ready_waits now revents waits)) = mset waits"
  unfolding ready_waits_def by (rule complete_waits_result) simp

subsection \<open>Moving continuations between threads\<close>

text \<open>What a continuation is apart from its pins.\<close>

definition continuation_key :: "ready_continuation \<Rightarrow> resume_fn \<times> usize \<times> usize list \<times> usize \<times> nat" where
  "continuation_key c = (sb_resume (rc_subscription c), sb_frame (rc_subscription c), sb_payload_roots (rc_subscription c),
     rc_result c, rc_js_barrier c)"

definition parked_key :: "parked_continuation \<Rightarrow> resume_fn \<times> usize \<times> usize list \<times> usize \<times> nat" where
  "parked_key k = (pk_resume k, pk_frame k, pk_payload_roots k, pk_result k, pk_js_barrier k)"

lemma park_fold:
  "map parked_key (fst (fold park_one cs acc)) = map parked_key (fst acc) @ map continuation_key cs"
  "rt_ready (snd (fold park_one cs acc)) = rt_ready (snd acc)"
  by (induction cs arbitrary: acc) (simp_all add: park_one_def Let_def parked_key_def continuation_key_def frame_simps)

definition traced :: "'b runtime \<Rightarrow> bool" where
  "traced s \<longleftrightarrow> tracing (thr (ts_native s))"

lemma root_new_traced: "traced s \<Longrightarrow> fst (root_new p s) = p" "traced (snd (root_new p s)) = traced s"
  by (simp_all add: traced_def root_new_def arena_root_new_def Let_def)

lemma traced_ready: "traced (s\<lparr>rt_ready := q\<rparr>) = traced s"
  by (simp add: traced_def)

lemma roots_fold_traced:
  "traced (snd acc) \<Longrightarrow>
   fst (fold (\<lambda>p (rs, s). let (r, s1) = root_new p s in (rs @ [r], s1)) ps acc) = fst acc @ ps \<and>
   traced (snd (fold (\<lambda>p (rs, s). let (r, s1) = root_new p s in (rs @ [r], s1)) ps acc)) \<and>
   rt_ready (snd (fold (\<lambda>p (rs, s). let (r, s1) = root_new p s in (rs @ [r], s1)) ps acc)) = rt_ready (snd acc)"
proof (induction ps arbitrary: acc)
  case (Cons p ps)
  obtain rs s where acc: "acc = (rs, s)" by (cases acc)
  have t: "traced s" using Cons.prems acc by simp
  show ?case using Cons.IH [of "(rs @ [fst (root_new p s)], snd (root_new p s))"] t
    by (simp add: acc split_beta Let_def root_new_traced frame_simps)
qed simp

lemma roots_new_traced:
  assumes "traced s"
  shows "fst (roots_new ps s) = ps" "traced (snd (roots_new ps s))" "rt_ready (snd (roots_new ps s)) = rt_ready s"
  using roots_fold_traced [of "([], s)" ps] assms by (simp_all add: roots_new_def)

lemma adopt_one_traced:
  assumes "traced s"
  shows "map continuation_key (rt_ready (adopt_one k s)) = map continuation_key (rt_ready s) @ [parked_key k]" "traced (adopt_one k s)"
proof -
  have t1: "traced (snd (root_new (pk_frame k) s))" using assms by (simp add: root_new_traced)
  note R = roots_new_traced [OF t1, of "pk_payload_roots k"]
  show "map continuation_key (rt_ready (adopt_one k s)) = map continuation_key (rt_ready s) @ [parked_key k]"
    by (simp add: adopt_one_def Let_def split_beta R frame_simps continuation_key_def parked_key_def)
  show "traced (adopt_one k s)" using R(2) by (simp add: adopt_one_def Let_def split_beta root_new_traced traced_ready)
qed

lemma adopt_fold:
  "traced s \<Longrightarrow> map continuation_key (rt_ready (fold adopt_one ks s)) = map continuation_key (rt_ready s) @ map parked_key ks"
  by (induction ks arbitrary: s) (simp_all add: adopt_one_traced)

text \<open>Ready continuations survive the hand-over between threads. After one thread parks its queue and another adopts
  what is parked, the first queue and the parked queue are empty, and the second thread has its own
  continuations, then those parked before, then those of the first thread, in order, each with its
  function, frame, result, barrier and pinned payloads.\<close>

theorem park_adopt_keeps_order:
  assumes "traced host" "thaw_runtime_park_ready parked coroutine = (parked1, coroutine1)"
    and "thaw_runtime_adopt_ready parked1 host = (parked2, host1)"
  shows "rt_ready coroutine1 = [] \<and> parked2 = [] \<and>
    map continuation_key (rt_ready host1) =
      map continuation_key (rt_ready host) @ map parked_key parked @ map continuation_key (rt_ready coroutine)"
  using assms adopt_fold [OF assms(1), of parked1]
    park_fold [of "rt_ready coroutine" "(parked, coroutine\<lparr>rt_ready := []\<rparr>)"]
  by (auto simp: thaw_runtime_park_ready_def thaw_runtime_adopt_ready_def)

theorem park_adopt_keeps_order_witness:
  "\<exists>parked1 coroutine1 host1.
     thaw_runtime_park_ready [] (snd (thaw_promise_resolve idle_host 1 5 (snd (thaw_promise_subscribe idle_host 1 (Resume_code 3) 7 one_promise)))) =
       (parked1, coroutine1) \<and>
     thaw_runtime_adopt_ready parked1 (on_thread thaw_arena_enable_tracing empty_runtime) = ([], host1) \<and>
     map continuation_key (rt_ready host1) = [(Resume_code 3, 7, [], 5, 0)]"
proof -
  let ?s = "snd (thaw_promise_resolve idle_host 1 5 (snd (thaw_promise_subscribe idle_host 1 (Resume_code 3) 7 one_promise)))"
  let ?h = "on_thread thaw_arena_enable_tracing empty_runtime"
  obtain parked1 coroutine1 where p: "thaw_runtime_park_ready [] ?s = (parked1, coroutine1)" by (metis prod.exhaust)
  obtain parked2 host1 where a: "thaw_runtime_adopt_ready parked1 ?h = (parked2, host1)" by (metis prod.exhaust)
  have t: "traced ?h" by (simp add: traced_def on_thread_def thaw_arena_enable_tracing_def)
  have e: "rt_ready ?h = []" by (simp add: on_thread_def empty_runtime_def runtime_start_def)
  have q: "map continuation_key (rt_ready ?s) = [(Resume_code 3, 7, [], 5, 0)]"
    by (simp add: continuation_key_def thaw_promise_resolve_def update_promise_def idle_unfold)
  show ?thesis using park_adopt_keeps_order [OF t p a] p a e q by simp
qed

subsection \<open>Purging\<close>

text \<open>The states a purge touches keep their kind and their child frames; the cancelled flag of a settled-join is set.\<close>

lemma joins_frame [frame_simps]:
  "rt_active_joins (root_drop r s) = rt_active_joins s" "rt_active_joins (put_promise p pr s) = rt_active_joins s"
  "rt_active_joins (box_take a s) = rt_active_joins s" "rt_active_joins (forget_refs p s) = rt_active_joins s"
  "rt_active_joins (set_box a b s) = rt_active_joins s"
  by (simp_all add: root_drop_def put_promise_def box_take_def forget_refs_def set_box_def)

lemma fold_root_joins [frame_simps]: "rt_active_joins (fold root_drop rs (s :: 'b runtime)) = rt_active_joins s"
  by (induction rs arbitrary: s) (simp_all add: frame_simps)

lemma fold_subscription_joins [frame_simps]: "rt_active_joins (fold drop_subscription sbs s) = rt_active_joins s"
  by (induction sbs arbitrary: s) (simp_all add: drop_subscription_def frame_simps)

lemma destroy_joins [frame_simps]: "rt_active_joins (thaw_promise_destroy p s) = rt_active_joins s"
  "rt_active_joins (output_ref_drop p s) = rt_active_joins s"
  by (auto simp: thaw_promise_destroy_def output_ref_drop_def release_native_promise_internal_def destroy_promise_box_def Let_def frame_simps
      split: option.split bool.split)

definition inert :: "boxed \<Rightarrow> bool" where
  "inert b \<longleftrightarrow> (case b of Settled_box st \<Rightarrow> se_cancelled st | _ \<Rightarrow> False)"

text \<open>Following the box of a settled-join and of a child frame through the steps of the purge.\<close>

definition keeps_boxes :: "('b runtime \<Rightarrow> 'b runtime) \<Rightarrow> bool" where
  "keeps_boxes f \<longleftrightarrow> (\<forall>s a.
     (\<forall>st. rt_boxes s a = Some (Settled_box st) \<longrightarrow>
        (\<exists>st'. rt_boxes (f s) a = Some (Settled_box st') \<and> (se_cancelled st \<longrightarrow> se_cancelled st') \<and> se_output st' = se_output st)) \<and>
     (\<forall>state p is. rt_boxes s a = Some (Settled_child_box state p is) \<longrightarrow> rt_boxes (f s) a = Some (Settled_child_box state p is)))"

lemma keeps_boxes_fold: "(\<And>x. keeps_boxes (f x)) \<Longrightarrow> keeps_boxes (fold f xs)"
proof (induction xs)
  case (Cons x xs)
  then have "keeps_boxes (f x)" "keeps_boxes (fold f xs)" by blast+
  then show ?case unfolding keeps_boxes_def by simp (metis (no_types, opaque_lifting))
qed (simp add: keeps_boxes_def)

lemma keeps_boxes_same: "(\<And>s. rt_boxes (f s) = rt_boxes s) \<Longrightarrow> keeps_boxes f"
  by (simp add: keeps_boxes_def)

lemma keeps_boxes_steps:
  "keeps_boxes (cancel_finally a)" "keeps_boxes (cancel_any a)" "keeps_boxes (cancel_settled a)" "keeps_boxes (uncount_all a)"
  "keeps_boxes (uncount_race a)"
  by (auto simp: keeps_boxes_def cancel_finally_def cancel_any_def cancel_settled_def uncount_all_def uncount_race_def set_box_def
      frame_simps split: option.split boxed.split)

lemma keeps_boxes_folds:
  "keeps_boxes (fold cancel_finally xs)" "keeps_boxes (fold cancel_any xs)" "keeps_boxes (fold cancel_settled xs)"
  "keeps_boxes (fold uncount_all xs)" "keeps_boxes (fold uncount_race xs)"
  by (rule keeps_boxes_fold, rule keeps_boxes_steps)+

definition cancelled_at :: "usize \<Rightarrow> 'b runtime \<Rightarrow> bool" where
  "cancelled_at a s \<longleftrightarrow> (\<exists>st. rt_boxes s a = Some (Settled_box st) \<and> se_cancelled st)"

lemma keeps_cancelled: "keeps_boxes f \<Longrightarrow> cancelled_at a s \<Longrightarrow> cancelled_at a (f s)"
  unfolding keeps_boxes_def cancelled_at_def by metis

lemma fold_cancel_settled:
  assumes "a \<in> set as" "rt_boxes s a = Some (Settled_box st)"
  shows "cancelled_at a (fold cancel_settled as s)"
  using assms
proof (induction as arbitrary: s st)
  case (Cons x xs)
  show ?case
  proof (cases "x = a")
    case True
    then have "cancelled_at a (cancel_settled x s)" using Cons.prems by (simp add: cancelled_at_def cancel_settled_def set_box_def)
    then have "cancelled_at a (fold cancel_settled xs (cancel_settled x s))"
      by (rule keeps_cancelled [OF keeps_boxes_folds(3)])
    then show ?thesis by simp
  next
    case False
    then obtain st' where "rt_boxes (cancel_settled x s) a = Some (Settled_box st')"
      using Cons.prems(2) keeps_boxes_steps(3) [of x] unfolding keeps_boxes_def by blast
    then show ?thesis using Cons.IH [of "cancel_settled x s" st'] Cons.prems(1) False by simp
  qed
qed simp

lemma cancel_states_frame:
  "rt_settled_states (fold cancel_finally as s) = rt_settled_states s" "rt_settled_states (fold cancel_any as s) = rt_settled_states s"
proof -
  have r: "rt_settled_states (fold root_drop rs u) = rt_settled_states u" for rs and u :: "'a runtime"
    by (induction rs arbitrary: u) (simp_all add: root_drop_def)
  have "rt_settled_states (cancel_finally a u) = rt_settled_states u" for a and u :: "'a runtime"
    by (auto simp: cancel_finally_def set_box_def r split: option.split boxed.split)
  then show "rt_settled_states (fold cancel_finally as s) = rt_settled_states s" by (induction as arbitrary: s) simp_all
  have "rt_settled_states (cancel_any a u) = rt_settled_states u" for a and u :: "'a runtime"
    by (auto simp: cancel_any_def set_box_def drop_root_option_def drop_reason_roots_def r root_drop_def split: option.split boxed.split)
  then show "rt_settled_states (fold cancel_any as s) = rt_settled_states s" by (induction as arbitrary: s) simp_all
qed

lemma keeps_boxes_child: "keeps_boxes f \<Longrightarrow> rt_boxes s x = Some (Settled_child_box a p is) \<Longrightarrow> rt_boxes (f s) x = Some (Settled_child_box a p is)"
  unfolding keeps_boxes_def by blast

lemma keeps_boxes_settled: "keeps_boxes f \<Longrightarrow> rt_boxes s x = Some (Settled_box st) \<Longrightarrow> \<exists>st'. rt_boxes (f s) x = Some (Settled_box st')"
  unfolding keeps_boxes_def by blast

lemma cancel_result:
  assumes "a \<in> set (rt_settled_states s)" "rt_boxes s a = Some (Settled_box st)" "rt_boxes s x = Some (Settled_child_box a p is)"
  shows "cancelled_at a (cancel_pending_aggregate_states s)"
    "rt_boxes (cancel_pending_aggregate_states s) x = Some (Settled_child_box a p is)"
proof -
  let ?s1 = "fold cancel_finally (rt_finally_adopt_states s) (s\<lparr>rt_finally_adopt_states := []\<rparr>)"
  let ?s2 = "fold cancel_any (rt_any_states ?s1) (?s1\<lparr>rt_any_states := []\<rparr>)"
  note K = keeps_boxes_folds
  obtain st1 where s1: "rt_boxes ?s1 a = Some (Settled_box st1)"
    using keeps_boxes_settled [OF K(1), of "s\<lparr>rt_finally_adopt_states := []\<rparr>" a st] assms(2) by auto
  obtain st2 where s2: "rt_boxes ?s2 a = Some (Settled_box st2)"
    using keeps_boxes_settled [OF K(2), of "?s1\<lparr>rt_any_states := []\<rparr>" a st1] s1 by auto
  have states: "rt_settled_states ?s2 = rt_settled_states s" by (simp add: cancel_states_frame)
  have e: "cancel_pending_aggregate_states s = fold cancel_settled (rt_settled_states s) (?s2\<lparr>rt_settled_states := []\<rparr>)"
    by (simp add: cancel_pending_aggregate_states_def Let_def states)
  show "cancelled_at a (cancel_pending_aggregate_states s)"
    unfolding e by (rule fold_cancel_settled [OF assms(1)]) (simp add: s2)
  have "rt_boxes ?s1 x = Some (Settled_child_box a p is)" by (rule keeps_boxes_child [OF K(1)]) (simp add: assms(3))
  then have "rt_boxes ?s2 x = Some (Settled_child_box a p is)" by (intro keeps_boxes_child [OF K(2)]) simp
  then show "rt_boxes (cancel_pending_aggregate_states s) x = Some (Settled_child_box a p is)"
    unfolding e by (intro keeps_boxes_child [OF K(3)]) simp
qed

lemma purge_fields:
  "rt_boxes (purge_pending_async_state L s) = rt_boxes (uncount_pending_promise_all_states_for_invocation (cancel_pending_aggregate_states s))"
  "rt_ready (purge_pending_async_state L s) = []" "rt_promise_timers (purge_pending_async_state L s) = []"
  "native_timers (purge_pending_async_state L s) = []" "rt_fd_waits (purge_pending_async_state L s) = []"
  "rt_active_joins (purge_pending_async_state L s) = 0"
proof -
  have d: "rt_boxes (fold drop_continuation cs u) = rt_boxes u" "rt_ready (fold drop_continuation cs u) = rt_ready u" for cs and u :: "'a runtime"
    by (induction cs arbitrary: u) (simp_all add: drop_continuation_def frame_simps)
  have t: "rt_boxes (fold (\<lambda>t. root_drop (tm_root t)) ts u) = rt_boxes u" "rt_ready (fold (\<lambda>t. root_drop (tm_root t)) ts u) = rt_ready u"
    "native_timers (fold (\<lambda>t. root_drop (tm_root t)) ts u) = native_timers u"
    "rt_promise_timers (fold (\<lambda>t. root_drop (tm_root t)) ts u) = rt_promise_timers u" for ts and u :: "'a runtime"
    by (induction ts arbitrary: u) (simp_all add: frame_simps, simp_all add: root_drop_def)
  show "rt_boxes (purge_pending_async_state L s) = rt_boxes (uncount_pending_promise_all_states_for_invocation (cancel_pending_aggregate_states s))"
    "rt_ready (purge_pending_async_state L s) = []" "rt_promise_timers (purge_pending_async_state L s) = []"
    "native_timers (purge_pending_async_state L s) = []" "rt_fd_waits (purge_pending_async_state L s) = []"
    "rt_active_joins (purge_pending_async_state L s) = 0"
    by (simp_all add: purge_pending_async_state_def Let_def set_invocation_deadline_def on_cells_def d t)
qed

lemma late_child_frame:
  assumes "cancelled_at a u" "rt_boxes u x = Some (Settled_child_box a p is)"
  shows "memory_of (resume_promise_all_settled_child H x v u) = memory_of u"
    "rt_active_joins (resume_promise_all_settled_child H x v u) = rt_active_joins u"
    "rt_ready (resume_promise_all_settled_child H x v u) = rt_ready u"
proof -
  obtain st where st: "rt_boxes u a = Some (Settled_box st)" "se_cancelled st" using assms(1) by (auto simp: cancelled_at_def)
  then have "a \<noteq> x" using assms(2) by auto
  then show "memory_of (resume_promise_all_settled_child H x v u) = memory_of u"
    "rt_active_joins (resume_promise_all_settled_child H x v u) = rt_active_joins u"
    "rt_ready (resume_promise_all_settled_child H x v u) = rt_ready u"
    using st assms(2) by (simp_all add: resume_promise_all_settled_child_def drop_settled_state_def Let_def frame_simps)
      (simp_all add: set_box_def output_ref_drop_def frame_simps)
qed

text \<open>C23. A purge abandons the work of an invocation safely: the queues are empty and no join is counted, and when an
  input of an abandoned \<open>Promise.allSettled\<close> settles later, its callback writes no byte of the arena,
  which another invocation may own by then, queues nothing and leaves the count of joins alone.\<close>

theorem purged_join_is_inert:
  assumes "a \<in> set (rt_settled_states s)" "rt_boxes s a = Some (Settled_box st)" "rt_boxes s frame = Some (Settled_child_box a p is)"
    and "u = purge_pending_async_state L s"
  shows "rt_ready u = [] \<and> rt_promise_timers u = [] \<and> native_timers u = [] \<and> rt_fd_waits u = [] \<and> rt_active_joins u = 0 \<and>
    memory_of (resume_promise_all_settled_child H frame v u) = memory_of u \<and>
    rt_active_joins (resume_promise_all_settled_child H frame v u) = 0 \<and>
    rt_ready (resume_promise_all_settled_child H frame v u) = []"
proof -
  let ?c = "cancel_pending_aggregate_states s"
  note C = cancel_result [OF assms(1,2,3)]
  have K: "keeps_boxes (\<lambda>s. fold uncount_race (rt_race_states ?c) (fold uncount_all (rt_all_states ?c) s))"
    using keeps_boxes_folds(4) [of "rt_all_states ?c"] keeps_boxes_folds(5) [of "rt_race_states ?c"]
    unfolding keeps_boxes_def by (metis (no_types, lifting))
  have U: "uncount_pending_promise_all_states_for_invocation ?c = fold uncount_race (rt_race_states ?c) (fold uncount_all (rt_all_states ?c) ?c)"
    by (simp add: uncount_pending_promise_all_states_for_invocation_def)
  have "cancelled_at a u" using keeps_cancelled [OF K C(1)] by (simp add: cancelled_at_def assms(4) purge_fields(1) U)
  moreover have "rt_boxes u frame = Some (Settled_child_box a p is)"
    using keeps_boxes_child [OF K C(2)] by (simp add: assms(4) purge_fields(1) U)
  ultimately show ?thesis using late_child_frame [of a u frame p "is" H v] purge_fields [of L s] assms(4) by simp
qed

text \<open>Two inputs of a settled-join still pending: the state at address 3, the child frame of the first input at 4.\<close>

definition pending_join :: "promise_all_settled_state \<Rightarrow> unit runtime" where
  "pending_join st = one_promise\<lparr>rt_boxes := [3 \<mapsto> Settled_box st, 4 \<mapsto> Settled_child_box 3 1 [0]], rt_settled_states := [3]\<rparr>"

theorem purged_join_is_inert_witness:
  "\<forall>st. memory_of (resume_promise_all_settled_child idle_host 4 5 (purge_pending_async_state idle_loop (pending_join st))) =
     memory_of (purge_pending_async_state idle_loop (pending_join st))"
proof
  fix st :: promise_all_settled_state
  have "3 \<in> set (rt_settled_states (pending_join st))" "rt_boxes (pending_join st) 3 = Some (Settled_box st)"
    "rt_boxes (pending_join st) 4 = Some (Settled_child_box 3 1 [0])" by (simp_all add: pending_join_def)
  from purged_join_is_inert [OF this refl, of idle_loop idle_host 5]
  show "memory_of (resume_promise_all_settled_child idle_host 4 5 (purge_pending_async_state idle_loop (pending_join st))) =
     memory_of (purge_pending_async_state idle_loop (pending_join st))" by blast
qed

end
