(* ===== verification/Provenance_Properties.thy ===== *)
theory Provenance_Properties
  imports Exception_Provenance Promise_Outcomes
begin

text \<open>
  Descriptors answer a cast only at their own category and layout, and the references that descriptors
  and slots hold on promises are accounted for: every entry of the two owner tables is one internal
  reference, moved by a replacement and given back by the reset hook.
\<close>

subsection \<open>Words of a descriptor\<close>

lemma read_put_words_other:
  "a + 8 \<le> p \<or> p + 8 * length ws \<le> a \<Longrightarrow> read_usize (mem (put_words p ws t)) a = read_usize (mem t) a"
  by (induction p ws t rule: put_words.induct) (auto simp: read_write_usize_other)

lemma mem_put_words_outside: "a < p \<or> p + 8 * length ws \<le> a \<Longrightarrow> mem (put_words p ws t) a = mem t a"
proof (induction p ws t rule: put_words.induct)
  case (2 p w ws t)
  then have "a < p \<or> p + 8 \<le> a" by auto
  then have "mem (put_usize p w t) a = mem t a" by (auto simp: write_usize_def write_bytes_at_def)
  then show ?case using 2 by auto
qed simp

lemma read_put_words:
  "k < length ws \<Longrightarrow> ws ! k < 2 ^ 64 \<Longrightarrow> read_usize (mem (put_words p ws t)) (p + 8 * k) = ws ! k"
proof (induction p ws t arbitrary: k rule: put_words.induct)
  case (2 p w ws t)
  show ?case
  proof (cases k)
    case 0
    then show ?thesis using 2(3) by (simp add: read_put_words_other read_write_usize)
  next
    case (Suc j)
    then show ?thesis using 2(1) [of j] 2(2,3) by (simp add: add.assoc [symmetric])
  qed
qed simp

lemma read_provenance_written:
  assumes "\<forall>w \<in> set (provenance_words pv). w < 2 ^ 64"
  shows "read_provenance (mem (put_words p (provenance_words pv) t)) p = pv"
proof -
  let ?m = "mem (put_words p (provenance_words pv) t)"
  have r: "read_usize ?m (p + 8 * k) = provenance_words pv ! k" if "k < 9" for k
    using that bspec [OF assms nth_mem] by (intro read_put_words) (simp_all add: provenance_words_def)
  show ?thesis
    using r [of 0] r [of 1] r [of 2] r [of 3] r [of 4] r [of 5] r [of 6] r [of 7] r [of 8]
    by (simp add: read_provenance_def provenance_words_def)
qed

subsection \<open>Strings a write leaves alone\<close>

lemma cstr_length_cong:
  assumes "cstr_length m p = Some n" "\<And>k. k \<le> n \<Longrightarrow> m' (p + k) = m (p + k)"
  shows "cstr_length m' p = Some n"
  using assms
proof (induction n arbitrary: p)
  case 0
  have "m p = 0"
  proof (rule ccontr)
    assume "m p \<noteq> 0"
    then have "Option.bind (cstr_length m (p + 1)) (\<lambda>n. Some (n + 1)) = Some 0" using 0 by (simp add: cstr_length.simps [of m p])
    then show False by (cases "cstr_length m (p + 1)") simp_all
  qed
  then show ?case using 0(2) [of 0] by (simp add: cstr_length.simps [of m' p])
next
  case (Suc n)
  have nz: "m p \<noteq> 0" using Suc.prems(1) by (auto simp: cstr_length.simps [of m p])
  then have "cstr_length m (p + 1) = Some n" using Suc.prems(1)
    by (cases "cstr_length m (p + 1)") (simp_all add: cstr_length.simps [of m p])
  moreover have "m' (p + 1 + k) = m (p + 1 + k)" if "k \<le> n" for k using Suc.prems(2) [of "Suc k"] that by simp
  ultimately have "cstr_length m' (p + 1) = Some n" using Suc.IH by blast
  then show ?case using nz Suc.prems(2) [of 0] by (simp add: cstr_length.simps [of m' p])
qed

lemma layout_text_cong:
  assumes "layout_text m p = Some bs" "\<And>k. k \<le> length bs \<Longrightarrow> m' (p + k) = m (p + k)"
  shows "layout_text m' p = Some bs"
proof -
  obtain n where n: "cstr_length m p = Some n" "bs = read_bytes_at m p n" using assms(1) by (auto simp: layout_text_def)
  have len: "length bs = n" by (simp add: n(2) read_bytes_at_def)
  have "cstr_length m' p = Some n" by (rule cstr_length_cong [OF n(1)]) (use assms(2) len in simp)
  moreover have "read_bytes_at m' p n = bs" using assms(2) len by (simp add: n(2) read_bytes_at_def)
  ultimately show ?thesis by (simp add: layout_text_def)
qed

lemma alloc_mem_outside: "thaw_arena_alloc B n align t = (q, t1) \<Longrightarrow> a < q \<or> q + n \<le> a \<Longrightarrow> mem t1 a = mem t a"
  by (auto simp: thaw_arena_alloc_def Let_def write_zeros_def split: if_splits option.splits)

subsection \<open>Checked casts\<close>

lemma thread_memory [simp]: "memory_of (on_thread f s) = mem (f (thr (ts_native s)))" "thr (ts_native (on_thread f s)) = f (thr (ts_native s))"
  by (simp_all add: memory_of_def on_thread_def)

lemma register_hook_mem [simp]: "mem (register_reset_hook h t) = mem t"
  by (simp add: register_reset_hook_def)

lemma retain_memory: "retain_native_promise_internal p s = (b, s') \<Longrightarrow> memory_of s' = memory_of s"
  by (auto simp: retain_native_promise_internal_def memory_of_def put_promise_def split: option.splits)

lemma native_new_memory:
  assumes "thaw_exception_native_provenance_new H tag owner layout s = (p, s')" "p \<noteq> 0"
  obtains t1 where "owner \<noteq> 0" "layout \<noteq> 0" "thaw_arena_alloc (ho_bump H) 72 8 (thr (ts_native s)) = (p, t1)"
    "memory_of s' = mem (put_words p (provenance_words \<lparr>pv_original = 0, pv_native_text = 0, pv_aggregate_errors = 0, pv_tag = tag,
       pv_f64 = 0, pv_i64 = 0, pv_bool = 0, pv_object = owner, pv_native_layout = layout\<rparr>) t1)"
proof -
  obtain q t1 where a: "thaw_arena_alloc (ho_bump H) 72 8 (thr (ts_native s)) = (q, t1)" by (metis prod.exhaust)
  let ?pv = "\<lparr>pv_original = 0, pv_native_text = 0, pv_aggregate_errors = 0, pv_tag = tag, pv_f64 = 0, pv_i64 = 0, pv_bool = 0,
    pv_object = owner, pv_native_layout = layout\<rparr>"
  let ?s2 = "write_provenance q ?pv (on_thread (\<lambda>_. t1) s)"
  obtain b s3 where r: "retain_native_promise_internal owner ?s2 = (b, s3)" by (metis prod.exhaust)
  have n: "owner \<noteq> 0" "layout \<noteq> 0" "q \<noteq> 0" "p = q"
    using assms a r by (auto simp: thaw_exception_native_provenance_new_def arena_alloc_def Let_def split: if_splits)
  have m2: "memory_of ?s2 = mem (put_words q (provenance_words ?pv) t1)" by (simp add: write_provenance_def)
  have "memory_of s' = memory_of ?s2"
  proof (cases "tag = 29")
    case True
    then have "s' = (register_release_hook s3)\<lparr>rt_reason_owners := hm_insert q owner (rt_reason_owners s3)\<rparr>"
      using assms a n r by (auto simp: thaw_exception_native_provenance_new_def arena_alloc_def Let_def split: if_splits)
    then have "memory_of s' = memory_of s3" by (simp add: memory_of_def register_release_hook_def on_thread_def)
    then show ?thesis using retain_memory [OF r] by simp
  next
    case False
    then show ?thesis using assms a n by (simp add: thaw_exception_native_provenance_new_def arena_alloc_def)
  qed
  then show ?thesis using that a n m2 by simp
qed

text \<open>Layout tokens are static strings: a block that the allocator hands out never covers one.\<close>

definition tokens_static :: "'b bump_ops \<Rightarrow> 'b thread_state \<Rightarrow> usize set \<Rightarrow> bool" where
  "tokens_static B t ls \<longleftrightarrow>
     (\<forall>q a. bump_try_alloc B (arena t) 72 8 = Some (q, a) \<longrightarrow>
        (\<forall>l \<in> ls. \<exists>bs. layout_text (mem t) l = Some bs \<and> (l + length bs < q \<or> q + 72 \<le> l)))"

lemma token_survives:
  assumes "tokens_static B t ls" "l \<in> ls" "thaw_arena_alloc B 72 8 t = (p, t1)" "p \<noteq> 0"
  shows "layout_text (mem (put_words p (provenance_words pv) t1)) l = layout_text (mem t) l"
proof -
  obtain a where "bump_try_alloc B (arena t) 72 8 = Some (p, a)" using alloc_bump [OF assms(3,4)] by blast
  then obtain bs where bs: "layout_text (mem t) l = Some bs" "l + length bs < p \<or> p + 72 \<le> l"
    using assms(1,2) by (auto simp: tokens_static_def)
  have "mem (put_words p (provenance_words pv) t1) (l + k) = mem t (l + k)" if "k \<le> length bs" for k
    using bs(2) that alloc_mem_outside [OF assms(3)] by (subst mem_put_words_outside) (auto simp: provenance_words_def)
  then have "layout_text (mem (put_words p (provenance_words pv) t1)) l = Some bs" by (rule layout_text_cong [OF bs(1)])
  then show ?thesis using bs(1) by simp
qed

lemma native_cast_result:
  assumes "thaw_exception_native_provenance_new H tag owner layout s = (p, s')" "p \<noteq> 0"
    and "tag < 2 ^ 64" "owner < 2 ^ 64" "layout < 2 ^ 64"
    and "tokens_static (ho_bump H) (thr (ts_native s)) {layout, asked}"
  shows "thaw_exception_native_tag s' p = tag \<and>
    thaw_exception_native_owner s' p tag' asked =
      (if asked \<noteq> 0 \<and> tag' = tag \<and> layout_text (memory_of s) asked = layout_text (memory_of s) layout then owner else 0)"
proof -
  obtain t1 where n: "owner \<noteq> 0" "layout \<noteq> 0" and a: "thaw_arena_alloc (ho_bump H) 72 8 (thr (ts_native s)) = (p, t1)" and
    m: "memory_of s' = mem (put_words p (provenance_words \<lparr>pv_original = 0, pv_native_text = 0, pv_aggregate_errors = 0, pv_tag = tag,
       pv_f64 = 0, pv_i64 = 0, pv_bool = 0, pv_object = owner, pv_native_layout = layout\<rparr>) t1)" (is "_ = mem (put_words p (provenance_words ?pv) t1)")
    by (rule native_new_memory [OF assms(1,2)])
  have pv: "read_provenance (memory_of s') p = ?pv"
    unfolding m by (rule read_provenance_written) (use assms(3-5) in \<open>simp add: provenance_words_def\<close>)
  have t: "layout_text (memory_of s') l = layout_text (memory_of s) l" if "l \<in> {layout, asked}" for l
    unfolding m using token_survives [OF assms(6) that a assms(2)] by (simp add: memory_of_def)
  show ?thesis
    using assms(2) n t by (simp add: thaw_exception_native_tag_def thaw_exception_native_owner_def pv Let_def eq_commute [of tag])
qed

text \<open>Casts of caught values are checked: a descriptor built for a value of one category and layout token gives the
  value back exactly when it is asked for that category and for a token with the same text, and null
  for every other category or token.\<close>

theorem native_cast_checked:
  assumes "thaw_exception_native_provenance_new H tag owner layout s = (p, s')" "p \<noteq> 0"
    and "tag < 2 ^ 64" "owner < 2 ^ 64" "layout < 2 ^ 64"
    and "tokens_static (ho_bump H) (thr (ts_native s)) {layout, asked}"
  shows "thaw_exception_native_tag s' p = tag \<and>
    thaw_exception_native_owner s' p tag' asked =
      (if asked \<noteq> 0 \<and> tag' = tag \<and> layout_text (memory_of s) asked = layout_text (memory_of s) layout then owner else 0)"
  by (rule native_cast_result [OF assms])

text \<open>The tokens \<open>A\<close> at 16 and \<open>B\<close> at 24; a string at 4096 is described as category 28 with the first token.\<close>

definition token_host :: "nat host" where
  "token_host = \<lparr>ho_box = (\<lambda>_. 1), ho_barrier = (\<lambda>_. 0), ho_drain = (\<lambda>_ s. s), ho_resume = (\<lambda>_ _ _ s. s), ho_transform = (\<lambda>_ _ _ _ _ s. s),
     ho_finally = (\<lambda>_ _ _ _ _ _ s. s), ho_number_text = (\<lambda>_. []), ho_bigint_text = (\<lambda>_. []), ho_number_display = (\<lambda>_. []),
     ho_static = (\<lambda>_. 1), ho_bump = line_bump, ho_reserve = (\<lambda>_. True)\<rparr>"

definition token_runtime :: "nat runtime" where
  "token_runtime = runtime_start (init_native (init_state line_bump ((\<lambda>_. 0)(16 := 65, 24 := 66))))"

lemma token_texts:
  "layout_text (memory_of token_runtime) 16 = Some [65]" "layout_text (memory_of token_runtime) 24 = Some [66]"
  by (simp_all add: layout_text_def token_runtime_def runtime_start_def memory_of_def init_native_def init_state_def cstr_length.simps read_bytes_at_def)

lemma token_fresh: "tokens_static (ho_bump token_host) (thr (ts_native token_runtime)) {16, l}" if "l = 16 \<or> l = 24"
  using that token_texts by (auto simp: tokens_static_def token_host_def line_bump_def memory_of_def)

lemma token_descriptor: "fst (thaw_exception_native_provenance_new token_host 28 4096 16 token_runtime) \<noteq> 0"
  by (simp add: thaw_exception_native_provenance_new_def arena_alloc_def token_host_def thaw_arena_alloc_def layout_ok_def line_bump_def
      word_alignment Let_def token_runtime_def runtime_start_def init_native_def init_state_def split_beta)

theorem native_cast_checked_witness:
  "\<exists>p s'. thaw_exception_native_provenance_new token_host 28 4096 16 token_runtime = (p, s') \<and>
     thaw_exception_native_owner s' p 28 16 = 4096 \<and> thaw_exception_native_owner s' p 28 24 = 0 \<and>
     thaw_exception_native_owner s' p 29 16 = 0"
proof -
  obtain p s' where n: "thaw_exception_native_provenance_new token_host 28 4096 16 token_runtime = (p, s')" by (metis prod.exhaust)
  then have p: "p \<noteq> 0" using token_descriptor by simp
  have c: "thaw_exception_native_owner s' p tag l = (if tag = 28 \<and> l = 16 then 4096 else 0)" if "l = 16 \<or> l = 24" for tag l
    using native_cast_checked [OF n p _ _ _ token_fresh [OF that], of tag] that token_texts by auto
  show ?thesis using n by (simp add: c)
qed

subsection \<open>References of the owner tables\<close>

text \<open>The internal references of a promise, and the entries of the two tables that name it.\<close>

definition tokens :: "usize \<Rightarrow> 'b runtime \<Rightarrow> nat" where
  "tokens p s = (case rt_promises s p of None \<Rightarrow> 0 | Some pr \<Rightarrow> pr_internal_references pr)"

definition owned_promises :: "(usize \<times> usize) list \<Rightarrow> (usize \<times> usize \<times> usize) list \<Rightarrow> usize list" where
  "owned_promises reasons slots = map snd reasons @ map (\<lambda>e. snd (snd e)) slots"

definition held :: "usize \<Rightarrow> 'b runtime \<Rightarrow> nat" where
  "held p s = count_list (owned_promises (rt_reason_owners s) (rt_slot_owners s)) p"

definition references_ok :: "'b runtime \<Rightarrow> bool" where
  "references_ok s \<longleftrightarrow> (\<forall>p pr. rt_promises s p = Some pr \<longrightarrow> pr_internal_references pr \<le> pr_references pr)"

definition owners_inv :: "'b runtime \<Rightarrow> bool" where
  "owners_inv s \<longleftrightarrow> references_ok s \<and> (\<forall>p. held p s \<le> tokens p s) \<and> distinct (map fst (rt_slot_owners s))"

lemma root_drop_owners [frame_simps]:
  "rt_reason_owners (root_drop r s) = rt_reason_owners s" "rt_slot_owners (root_drop r s) = rt_slot_owners s"
  by (simp_all add: root_drop_def)

lemma fold_root_drop_owners [frame_simps]:
  "rt_reason_owners (fold root_drop rs s) = rt_reason_owners s" "rt_slot_owners (fold root_drop rs s) = rt_slot_owners s"
  by (induction rs arbitrary: s) (simp_all add: frame_simps)

lemma fold_drop_subscription_owners [frame_simps]:
  "rt_reason_owners (fold drop_subscription sbs s) = rt_reason_owners s" "rt_slot_owners (fold drop_subscription sbs s) = rt_slot_owners s"
  by (induction sbs arbitrary: s) (simp_all add: drop_subscription_def frame_simps)

lemma put_forget_owners [frame_simps]:
  "rt_reason_owners (put_promise p pr s) = rt_reason_owners s" "rt_slot_owners (put_promise p pr s) = rt_slot_owners s"
  "rt_reason_owners (forget_refs p s) = rt_reason_owners s" "rt_slot_owners (forget_refs p s) = rt_slot_owners s"
  "rt_promises (forget_refs p s) = rt_promises s"
  by (simp_all add: put_promise_def forget_refs_def)

lemma destroy_box_owners:
  "rt_reason_owners (destroy_promise_box p s) = rt_reason_owners s" "rt_slot_owners (destroy_promise_box p s) = rt_slot_owners s"
  "rt_promises (destroy_promise_box p s) = (rt_promises s)(p := None)"
  by (auto simp: destroy_promise_box_def Let_def frame_simps split: option.split)

lemma release_owners [frame_simps]:
  "rt_reason_owners (release_native_promise_internal p s) = rt_reason_owners s"
  "rt_slot_owners (release_native_promise_internal p s) = rt_slot_owners s"
  by (auto simp: release_native_promise_internal_def Let_def destroy_box_owners frame_simps split: option.split)

lemma release_tokens:
  assumes "references_ok s" "0 < tokens p s"
  shows "references_ok (release_native_promise_internal p s)"
    "tokens q (release_native_promise_internal p s) = tokens q s - (if q = p then 1 else 0)"
proof -
  obtain pr where pr: "rt_promises s p = Some pr" "0 < pr_internal_references pr"
    using assms(2) by (auto simp: tokens_def split: option.splits)
  then have le: "pr_internal_references pr \<le> pr_references pr" using assms(1) by (simp add: references_ok_def)
  have e: "rt_promises (release_native_promise_internal p s) =
      (rt_promises s)(p := (if pr_references pr = 1 then None
         else Some (pr\<lparr>pr_internal_references := pr_internal_references pr - 1, pr_references := pr_references pr - 1\<rparr>)))"
    using pr le by (auto simp: release_native_promise_internal_def Let_def destroy_box_owners frame_simps)
  show "references_ok (release_native_promise_internal p s)"
    using assms(1) le by (auto simp: references_ok_def e split: if_splits)
  show "tokens q (release_native_promise_internal p s) = tokens q s - (if q = p then 1 else 0)"
    using pr le by (auto simp: tokens_def e)
qed

lemma fold_release:
  assumes "references_ok s" "\<And>q. count_list ps q \<le> tokens q s"
  shows "references_ok (fold release_native_promise_internal ps s) \<and>
    tokens q (fold release_native_promise_internal ps s) = tokens q s - count_list ps q"
  using assms
proof (induction ps arbitrary: s)
  case (Cons p ps)
  let ?u = "release_native_promise_internal p s"
  have pos: "0 < tokens p s" using Cons.prems(2) [of p] by simp
  note r = release_tokens [OF Cons.prems(1) pos]
  have "count_list ps q \<le> tokens q ?u" for q using Cons.prems(2) [of q] by (simp add: r(2) split: if_splits)
  then show ?case using Cons.IH [OF r(1)] by (auto simp: r(2))
qed simp

lemma fold_release_owners [frame_simps]:
  "rt_reason_owners (fold release_native_promise_internal ps s) = rt_reason_owners s"
  "rt_slot_owners (fold release_native_promise_internal ps s) = rt_slot_owners s"
  by (induction ps arbitrary: s) (simp_all add: frame_simps)

lemma fold_remove_keys: "fold (\<lambda>e. hm_remove (fst e)) es m = filter (\<lambda>e. fst e \<notin> fst ` set es) m"
proof (induction es arbitrary: m)
  case (Cons e es)
  then show ?case by (simp add: hm_remove_def AList.delete_eq) (rule filter_cong, auto)
qed simp

lemma remove_reclaimed: "fold (\<lambda>e. hm_remove (fst e)) (filter (\<lambda>e. gone (fst e)) m) m = filter (\<lambda>e. \<not> gone (fst e)) m"
  unfolding fold_remove_keys by (rule filter_cong) auto

lemma count_partition: "count_list (map f (filter P xs)) q + count_list (map f (filter (\<lambda>x. \<not> P x) xs)) q = count_list (map f xs) q"
  by (induction xs) auto

lemma count_owned_partition:
  "count_list (owned_promises (filter (\<lambda>e. g (fst e)) rs) (filter (\<lambda>e. g (fst e)) ss)) q +
   count_list (owned_promises (filter (\<lambda>e. \<not> g (fst e)) rs) (filter (\<lambda>e. \<not> g (fst e)) ss)) q = count_list (owned_promises rs ss) q"
  using count_partition [of snd "\<lambda>e. g (fst e)" rs q] count_partition [of "\<lambda>e. snd (snd e)" "\<lambda>e. g (fst e)" ss q]
  by (simp add: owned_promises_def)

text \<open>C24. Every entry of the owner tables is an internal reference, and the reset hook settles the account: the entries
  whose record was reclaimed leave the tables, exactly those, and each gives one internal reference of
  its promise back, so the references that are not the tables' own stay what they were and every
  promise the tables still name is alive.\<close>

theorem reclaim_returns_references:
  assumes "owners_inv s" "s' = release_reclaimed_native_promise_internal_owners tracing_on s"
  shows "rt_reason_owners s' = filter (\<lambda>e. \<not> reclaimed_record tracing_on s (fst e)) (rt_reason_owners s) \<and>
    rt_slot_owners s' = filter (\<lambda>e. \<not> reclaimed_record tracing_on s (fst e)) (rt_slot_owners s) \<and>
    owners_inv s' \<and> (\<forall>p. tokens p s' + held p s = tokens p s + held p s') \<and>
    (\<forall>p. 0 < held p s' \<longrightarrow> rt_promises s' p \<noteq> None)"
proof -
  let ?gone = "reclaimed_record tracing_on s"
  let ?rs = "filter (\<lambda>e. ?gone (fst e)) (rt_reason_owners s)" and ?ss = "filter (\<lambda>e. ?gone (fst e)) (rt_slot_owners s)"
  let ?s1 = "s\<lparr>rt_reason_owners := filter (\<lambda>e. \<not> ?gone (fst e)) (rt_reason_owners s),
    rt_slot_owners := filter (\<lambda>e. \<not> ?gone (fst e)) (rt_slot_owners s)\<rparr>"
  have e: "s' = fold release_native_promise_internal (owned_promises ?rs ?ss) ?s1"
    by (simp add: assms(2) release_reclaimed_native_promise_internal_owners_def Let_def remove_reclaimed owned_promises_def)
  have t1: "references_ok ?s1" "tokens q ?s1 = tokens q s" for q using assms(1) by (simp_all add: owners_inv_def references_ok_def tokens_def)
  have part: "count_list (owned_promises ?rs ?ss) q + held q ?s1 = held q s" for q
    using count_owned_partition [of ?gone "rt_reason_owners s" "rt_slot_owners s" q] by (simp add: held_def)
  have le: "held q s \<le> tokens q s" for q using assms(1) by (simp add: owners_inv_def)
  have b: "count_list (owned_promises ?rs ?ss) q \<le> tokens q ?s1" for q using part [of q] le [of q] t1(2) [of q] by simp
  note f = fold_release [OF t1(1) b, folded e]
  have tables: "rt_reason_owners s' = rt_reason_owners ?s1" "rt_slot_owners s' = rt_slot_owners ?s1" by (simp_all add: e frame_simps)
  have h: "held q s' = held q ?s1" for q by (simp add: held_def tables)
  have bal: "tokens q s' + held q s = tokens q s + held q s'" for q
    using f [of q] part [of q] le [of q] by (simp add: h t1(2))
  have inv: "held q s' \<le> tokens q s'" for q using bal [of q] le [of q] by simp
  have alive: "rt_promises s' q \<noteq> None" if "0 < held q s'" for q using inv [of q] that by (auto simp: tokens_def split: option.splits)
  have "distinct (map fst (rt_slot_owners s'))" using assms(1) by (simp add: tables owners_inv_def distinct_map_filter)
  then show ?thesis using f inv bal alive tables by (simp add: owners_inv_def)
qed

subsection \<open>Replacing the promise in a slot\<close>

text \<open>Balance: what an operation changes in the tables it changes in the internal references.\<close>

definition balanced :: "'b runtime \<Rightarrow> 'b runtime \<Rightarrow> bool" where
  "balanced s s' \<longleftrightarrow> (\<forall>p. tokens p s' + held p s = tokens p s + held p s')"

lemma balanced_alive:
  assumes "\<And>p. held p s \<le> tokens p s" "balanced s s'"
  shows "held p s' \<le> tokens p s'" "0 < held p s' \<Longrightarrow> rt_promises s' p \<noteq> None"
proof -
  show le: "held p s' \<le> tokens p s'" using assms(1) [of p] assms(2) [unfolded balanced_def, rule_format, of p] by simp
  show "0 < held p s' \<Longrightarrow> rt_promises s' p \<noteq> None" using le by (auto simp: tokens_def split: option.splits)
qed

lemma slot_in_arena_frame:
  assumes "slot_in_arena owner slot s = (b, s1)"
  shows "rt_promises s1 = rt_promises s" "rt_slot_owners s1 = rt_slot_owners s" "rt_reason_owners s1 = rt_reason_owners s"
  using assms by (auto simp: slot_in_arena_def on_thread_def Let_def split_beta split: if_splits)

lemma retain_tokens:
  assumes "retain_native_promise_internal p s = (True, s')"
  shows "references_ok s \<Longrightarrow> references_ok s'" "tokens q s' = tokens q s + (if q = p then 1 else 0)"
    "rt_reason_owners s' = rt_reason_owners s" "rt_slot_owners s' = rt_slot_owners s"
  using assms by (auto simp: retain_native_promise_internal_def references_ok_def tokens_def frame_simps checked_add_def split: option.splits if_splits)

lemma count_remove:
  assumes "distinct (map fst m)"
  shows "count_list (map f (hm_remove k m)) q + (case hm_get m k of None \<Rightarrow> 0 | Some v \<Rightarrow> if f (k, v) = q then 1 else 0) = count_list (map f m) q"
  using assms
proof (induction m)
  case (Cons e m)
  have same: "hm_remove k m = m" if "k \<notin> fst ` set m" using that by (simp add: hm_remove_def)
  show ?case using Cons same by (cases e) (auto simp: hm_remove_def hm_get_def)
qed (simp add: hm_remove_def hm_get_def)

lemma count_insert_new:
  "k \<notin> fst ` set m \<Longrightarrow> count_list (map f (hm_insert k v m)) q = count_list (map f m) q + (if f (k, v) = q then 1 else 0)"
  by (induction m) (auto simp: hm_insert_def)

lemma removed_absent: "k \<notin> fst ` set (hm_remove k m)"
  by (auto simp: hm_remove_def AList.delete_eq)

lemma held_tables:
  "held q s = count_list (map snd (rt_reason_owners s)) q + count_list (map (\<lambda>e. snd (snd e)) (rt_slot_owners s)) q"
  by (simp add: held_def owned_promises_def)

text \<open>The table after a replacement: the entry of the slot is exchanged.\<close>

definition exchange_entry :: "usize \<Rightarrow> usize \<Rightarrow> usize \<Rightarrow> (usize \<times> usize \<times> usize) list \<Rightarrow> (usize \<times> usize \<times> usize) list" where
  "exchange_entry owner slot p m = (let r = hm_remove slot m in if p \<noteq> 0 then hm_insert slot (owner, p) r else r)"

lemma exchange_count:
  assumes "distinct (map fst m)" "slot_entry_ok owner previous (hm_get m slot)"
  shows "count_list (map (\<lambda>e. snd (snd e)) (exchange_entry owner slot p m)) q + (if previous \<noteq> 0 \<and> previous = q then 1 else 0) =
    count_list (map (\<lambda>e. snd (snd e)) m) q + (if p \<noteq> 0 \<and> p = q then 1 else 0)"
  using count_remove [OF assms(1), of "\<lambda>e. snd (snd e)" slot q] assms(2) count_insert_new [of slot "hm_remove slot m" "\<lambda>e. snd (snd e)" "(owner, p)" q, OF removed_absent]
  by (auto simp: exchange_entry_def Let_def slot_entry_ok_def split: option.splits if_splits)

lemma exchange_table:
  "hm_get (exchange_entry owner slot p m) k = (if k = slot then (if p = 0 then None else Some (owner, p)) else hm_get m k)"
  "distinct (map fst m) \<Longrightarrow> distinct (map fst (exchange_entry owner slot p m))"
  by (simp_all add: exchange_entry_def Let_def distinct_hm_insert distinct_hm_remove)

lemma replace_parts:
  assumes "thaw_promise_arena_slot_replace owner slot p s = (True, s')" "slot_in_arena owner slot s = (b, s1)"
    and "previous = read_usize (memory_of s1) slot"
  shows "slot_entry_ok owner previous (hm_get (rt_slot_owners s1) slot)"
    and "previous = p \<and> s' = s1 \<or> previous \<noteq> p \<and>
      (\<exists>s2. (if p \<noteq> 0 then retain_native_promise_internal p s1 = (True, s2) else s2 = s1) \<and>
        s' = register_release_hook ((if previous \<noteq> 0 then release_native_promise_internal previous else id)
          (on_thread (put_usize slot p) ((on_thread (replace_reference owner previous p) s2)
             \<lparr>rt_slot_owners := exchange_entry owner slot p (rt_slot_owners s2)\<rparr>))))"
proof -
  have f: "rt_slot_owners (on_thread g u) = rt_slot_owners u" for g and u :: "'a runtime" by (simp add: on_thread_def)
  show "slot_entry_ok owner previous (hm_get (rt_slot_owners s1) slot)"
    using assms by (auto simp: thaw_promise_arena_slot_replace_def Let_def split: if_splits)
  show "previous = p \<and> s' = s1 \<or> previous \<noteq> p \<and>
      (\<exists>s2. (if p \<noteq> 0 then retain_native_promise_internal p s1 = (True, s2) else s2 = s1) \<and>
        s' = register_release_hook ((if previous \<noteq> 0 then release_native_promise_internal previous else id)
          (on_thread (put_usize slot p) ((on_thread (replace_reference owner previous p) s2)
             \<lparr>rt_slot_owners := exchange_entry owner slot p (rt_slot_owners s2)\<rparr>))))"
    using assms by (auto simp: thaw_promise_arena_slot_replace_def exchange_entry_def f Let_def split: if_splits prod.splits)
qed

lemma hook_frame:
  "tokens q (register_release_hook s) = tokens q s" "held q (register_release_hook s) = held q s"
  "rt_slot_owners (register_release_hook s) = rt_slot_owners s" "references_ok (register_release_hook s) = references_ok s"
  "memory_of (register_release_hook s) = memory_of s"
  by (simp_all add: register_release_hook_def tokens_def held_def references_ok_def memory_of_def on_thread_def)

text \<open>Writing the slot and its entry, then dropping the reference that the slot held.\<close>

lemma exchange_step:
  assumes "references_ok s2" "\<And>q. held q s2 \<le> tokens q s2" "distinct (map fst (rt_slot_owners s2))"
    and "slot_entry_ok owner previous (hm_get (rt_slot_owners s2) slot)" "previous \<noteq> p"
    and "u = (on_thread g s2)\<lparr>rt_slot_owners := exchange_entry owner slot p (rt_slot_owners s2)\<rparr>"
    and "s' = (if previous \<noteq> 0 then release_native_promise_internal previous else id) (on_thread (put_usize slot p) u)"
  shows "references_ok s'" "rt_slot_owners s' = exchange_entry owner slot p (rt_slot_owners s2)"
    "tokens q s' + (if previous \<noteq> 0 \<and> previous = q then 1 else 0) = tokens q s2"
    "held q s' + (if previous \<noteq> 0 \<and> previous = q then 1 else 0) = held q s2 + (if p \<noteq> 0 \<and> p = q then 1 else 0)"
    "memory_of s' = write_usize (memory_of u) slot p"
proof -
  let ?v = "on_thread (put_usize slot p) u"
  have v: "references_ok ?v" "tokens q ?v = tokens q s2" "rt_slot_owners ?v = exchange_entry owner slot p (rt_slot_owners s2)"
    "rt_reason_owners ?v = rt_reason_owners s2" for q
    using assms(1) by (simp_all add: assms(6) references_ok_def tokens_def on_thread_def)
  note c = exchange_count [OF assms(3,4), of p]
  have pos: "0 < tokens previous ?v" if "previous \<noteq> 0"
    using c [of previous] that assms(2) [of previous] assms(5) by (auto simp: v(2) held_tables)
  have tables: "rt_slot_owners s' = rt_slot_owners ?v" "rt_reason_owners s' = rt_reason_owners ?v" by (simp_all add: assms(7) frame_simps)
  show "rt_slot_owners s' = exchange_entry owner slot p (rt_slot_owners s2)" using tables(1) v(3) by simp
  show "references_ok s'" using release_tokens(1) [OF v(1) pos] v(1) by (simp add: assms(7))
  show "tokens q s' + (if previous \<noteq> 0 \<and> previous = q then 1 else 0) = tokens q s2"
    using release_tokens(2) [OF v(1) pos, of q] pos by (auto simp: assms(7) v(2))
  show "held q s' + (if previous \<noteq> 0 \<and> previous = q then 1 else 0) = held q s2 + (if p \<noteq> 0 \<and> p = q then 1 else 0)"
    using c [of q] by (simp add: held_tables tables v(3,4))
  show "memory_of s' = write_usize (memory_of u) slot p" by (simp add: assms(7) frame_simps) (simp add: memory_of_def)
qed

text \<open>C25. Replacing the promise in an arena slot moves one reference: the slot then holds the new promise and its entry
  names the owner, no other entry changes, and the internal references of every promise change exactly
  as the entries do, so the promise that was replaced loses one, the new one gains one, and every
  promise a slot or a descriptor names is alive.\<close>

theorem slot_replace_moves_reference:
  assumes "owners_inv s" "thaw_promise_arena_slot_replace owner slot p s = (True, s')" "p < 2 ^ 64"
  shows "read_usize (memory_of s') slot = p \<and>
    hm_get (rt_slot_owners s') slot = (if p = 0 then None else Some (owner, p)) \<and>
    (\<forall>k. k \<noteq> slot \<longrightarrow> hm_get (rt_slot_owners s') k = hm_get (rt_slot_owners s) k) \<and>
    owners_inv s' \<and> balanced s s' \<and> (\<forall>q. 0 < held q s' \<longrightarrow> rt_promises s' q \<noteq> None)"
proof -
  obtain b s1 where b: "slot_in_arena owner slot s = (b, s1)" by (metis prod.exhaust)
  define previous where "previous = read_usize (memory_of s1) slot"
  note r = replace_parts [OF assms(2) b previous_def]
  note f = slot_in_arena_frame [OF b]
  have s1: "references_ok s1" "tokens q s1 = tokens q s" "held q s1 = held q s" "held q s \<le> tokens q s"
    "distinct (map fst (rt_slot_owners s1))" for q
    using assms(1) by (simp_all add: owners_inv_def references_ok_def tokens_def held_def f)
  have main: "read_usize (memory_of s') slot = p \<and> references_ok s' \<and> balanced s s' \<and> distinct (map fst (rt_slot_owners s')) \<and>
      (\<forall>k. hm_get (rt_slot_owners s') k = (if k = slot then (if p = 0 then None else Some (owner, p)) else hm_get (rt_slot_owners s) k))"
  proof (cases "previous = p")
    case True
    then have "s' = s1" using r(2) by blast
    moreover have "hm_get (rt_slot_owners s1) slot = (if p = 0 then None else Some (owner, p))"
      using r(1) True by (auto simp: slot_entry_ok_def split: option.splits)
    ultimately show ?thesis using True s1 f previous_def by (auto simp: balanced_def)
  next
    case False
    then obtain s2 where s2: "if p \<noteq> 0 then retain_native_promise_internal p s1 = (True, s2) else s2 = s1" and
      s': "s' = register_release_hook ((if previous \<noteq> 0 then release_native_promise_internal previous else id)
          (on_thread (put_usize slot p) ((on_thread (replace_reference owner previous p) s2)
             \<lparr>rt_slot_owners := exchange_entry owner slot p (rt_slot_owners s2)\<rparr>)))" using r(2) by blast
    have t2: "references_ok s2" "tokens q s2 = tokens q s + (if p \<noteq> 0 \<and> p = q then 1 else 0)" "held q s2 = held q s"
      "rt_slot_owners s2 = rt_slot_owners s" for q
      using s2 s1 f retain_tokens [of p s1 s2] by (auto simp: held_def split: if_splits)
    have le: "held q s2 \<le> tokens q s2" for q using s1(4) [of q] by (simp add: t2)
    have d2: "distinct (map fst (rt_slot_owners s2))" "slot_entry_ok owner previous (hm_get (rt_slot_owners s2) slot)"
      using s1(5) r(1) by (simp_all add: t2(4) f)
    note e = exchange_step [where g = "replace_reference owner previous p", OF t2(1) le d2 False refl refl]
    have "balanced s s'" unfolding balanced_def
    proof
      fix q
      show "tokens q s' + held q s = tokens q s + held q s'" using e(3,4) [of q] t2(2,3) [of q] by (simp add: s' hook_frame)
    qed
    then show ?thesis using e(1,2,5) s1(5) assms(3)
      by (simp add: s' hook_frame exchange_table f t2(4) read_write_usize)
  qed
  have inv: "held q s' \<le> tokens q s'" "0 < held q s' \<Longrightarrow> rt_promises s' q \<noteq> None" for q
    using balanced_alive [OF s1(4)] main by blast+
  show ?thesis using main inv by (simp add: owners_inv_def)
qed

subsection \<open>One slot\<close>

text \<open>The slot at 4096 of a thread that does not trace gets the promise at 1.\<close>

definition slotted :: "unit runtime" where
  "slotted = snd (thaw_promise_arena_slot_replace 4096 4096 1 one_promise)"

lemma one_promise_owners:
  "rt_slot_owners one_promise = []" "rt_reason_owners one_promise = []" "rt_promises one_promise q = (if q = 1 then Some new_promise else None)"
  "\<not> tracing (thr (ts_native one_promise))" "memory_of one_promise = (\<lambda>_. 0)"
  by (simp_all add: one_promise_def empty_runtime_def runtime_start_def thaw_promise_new_def idle_host_def put_promise_def memory_of_def
      busy_addresses_def init_native_def init_state_def new_promise_def)

lemma new_promise_references: "pr_internal_references new_promise = 0" "pr_references new_promise = 1"
  by (simp_all add: new_promise_def)

lemma one_promise_inv: "owners_inv one_promise"
  by (simp add: owners_inv_def references_ok_def held_def owned_promises_def one_promise_owners new_promise_references)

lemma slotted_replace: "thaw_promise_arena_slot_replace 4096 4096 1 one_promise = (True, slotted)"
  by (simp add: slotted_def thaw_promise_arena_slot_replace_def slot_in_arena_def one_promise_owners slot_entry_ok_def
      retain_native_promise_internal_def new_promise_references checked_add_def usize_limit_def Let_def read_usize_def)

lemma slotted_fields:
  "rt_slot_owners slotted = [(4096, 4096, 1)]" "rt_reason_owners slotted = []"
  "rt_promises slotted q = (if q = 1 then Some (new_promise\<lparr>pr_references := Suc 1, pr_internal_references := 1\<rparr>) else None)"
  by (simp_all add: slotted_def thaw_promise_arena_slot_replace_def slot_in_arena_def one_promise_owners slot_entry_ok_def hm_remove_def hm_insert_def
      retain_native_promise_internal_def new_promise_references checked_add_def usize_limit_def Let_def read_usize_def
      register_release_hook_def on_thread_def put_promise_def)

theorem slot_replace_moves_reference_witness:
  "\<exists>s'. thaw_promise_arena_slot_replace 4096 4096 1 one_promise = (True, s') \<and> read_usize (memory_of s') 4096 = 1 \<and>
     hm_get (rt_slot_owners s') 4096 = Some (4096, 1) \<and> balanced one_promise s'"
  using slot_replace_moves_reference [OF one_promise_inv slotted_replace] slotted_replace by auto

lemma slotted_inv: "owners_inv slotted"
  by (auto simp: owners_inv_def references_ok_def held_def owned_promises_def tokens_def slotted_fields)

theorem reclaim_returns_references_witness:
  "rt_slot_owners (release_reclaimed_native_promise_internal_owners False slotted) = [] \<and>
   tokens 1 (release_reclaimed_native_promise_internal_owners False slotted) + 1 = tokens 1 slotted"
proof -
  let ?s = "release_reclaimed_native_promise_internal_owners False slotted"
  have h: "held 1 slotted = 1" by (simp add: held_def owned_promises_def slotted_fields)
  note r = reclaim_returns_references [OF slotted_inv refl, of False]
  have e: "rt_slot_owners ?s = []" "rt_reason_owners ?s = []" using r by (simp_all add: reclaimed_record_def slotted_fields)
  then have "held 1 ?s = 0" by (simp add: held_def owned_promises_def)
  moreover have "tokens 1 ?s + held 1 slotted = tokens 1 slotted + held 1 ?s" using r by blast
  ultimately show ?thesis using h e by simp
qed

end
