(* ===== verification/Hir_Types.thy ===== *)
theory Hir_Types
  imports Error_Wire
begin

text \<open>
  The native types of the compiler, \<open>crates/thaw-hir/src/hir/types.rs\<close>, and the relations between them that the
  lowering checks, from \<open>lower/inference/types.rs\<close> and \<open>lower/bytes_erasure.rs\<close>: masks of omittable parameters,
  layout tokens, recursive layouts, erasure of byte buffers, and compatibility of callbacks, callables
  and classes. A \<open>Symbol\<close> is a string of UTF-8 bytes.
\<close>

type_synonym symbol = bytes

definition ascii_text :: "string \<Rightarrow> bytes" where
  "ascii_text cs = map (\<lambda>c. of_nat (of_char c)) cs"

subsection \<open>Masks of omittable parameters\<close>

datatype optional_mask = Inline u64 | Extended "u64 list"

definition bit_at :: "usize \<Rightarrow> u64" where
  "bit_at index = push_bit index 1"

definition default_mask :: optional_mask where
  "default_mask = Inline 0"

text \<open>\<open>words[index / 64] |= 1 << (index % 64)\<close>.\<close>

definition set_bit_word :: "usize \<Rightarrow> u64 list \<Rightarrow> u64 list" where
  "set_bit_word index words = words[index div 64 := (words ! (index div 64)) OR bit_at (index mod 64)]"

fun pop_zeros :: "u64 list \<Rightarrow> u64 list" where
  "pop_zeros words = (if words \<noteq> [] \<and> last words = 0 then pop_zeros (butlast words) else words)"

declare pop_zeros.simps [simp del]

definition from_bools :: "bool list \<Rightarrow> optional_mask" where
  "from_bools optional =
     (if length optional \<le> 64
      then Inline (fold (\<lambda>(index, v) bits. bits OR push_bit index (of_bool v)) (enumerate 0 optional) 0)
      else Extended (pop_zeros (fold (\<lambda>(index, v) words. if v then set_bit_word index words else words) (enumerate 0 optional)
             (replicate ((length optional + 63) div 64) 0))))"

text \<open>\<open>Vec::resize\<close> to a length that is not smaller.\<close>

definition resize_up :: "usize \<Rightarrow> u64 list \<Rightarrow> u64 list" where
  "resize_up n words = words @ replicate (n - length words) 0"

fun mask_insert :: "usize \<Rightarrow> optional_mask \<Rightarrow> optional_mask" where
  "mask_insert index (Inline bits) =
     (if index < 64 then Inline (bits OR bit_at index)
      else Extended (set_bit_word index ((replicate (index div 64 + 1) 0)[0 := bits])))"
| "mask_insert index (Extended words) = Extended (set_bit_word index (resize_up (index div 64 + 1) words))"

fun mask_contains :: "optional_mask \<Rightarrow> usize \<Rightarrow> bool" where
  "mask_contains (Inline bits) index \<longleftrightarrow> index < 64 \<and> bits AND bit_at index \<noteq> 0"
| "mask_contains (Extended words) index \<longleftrightarrow>
     index div 64 < length words \<and> (words ! (index div 64)) AND bit_at (index mod 64) \<noteq> 0"

fun mask_is_empty :: "optional_mask \<Rightarrow> bool" where
  "mask_is_empty (Inline bits) \<longleftrightarrow> bits = 0"
| "mask_is_empty (Extended words) \<longleftrightarrow> words = []"

text \<open>\<open>u64::count_ones\<close>.\<close>

definition count_ones :: "u64 \<Rightarrow> nat" where
  "count_ones w = length (filter (bit w) [0..<64])"

fun mask_count :: "optional_mask \<Rightarrow> nat" where
  "mask_count (Inline bits) = count_ones bits"
| "mask_count (Extended words) = sum_list (map count_ones words)"

fun mask_bit_len :: "optional_mask \<Rightarrow> usize" where
  "mask_bit_len (Inline _) = 64"
| "mask_bit_len (Extended words) = length words * 64"

definition first_at_or_after :: "optional_mask \<Rightarrow> usize \<Rightarrow> usize option" where
  "first_at_or_after bits start = find (mask_contains bits) [start..<mask_bit_len bits]"

text \<open>An offset that does not fit 32 bits or exceeds the word shifts everything out.\<close>

fun shifted :: "optional_mask \<Rightarrow> usize \<Rightarrow> optional_mask" where
  "shifted (Inline bits) offset = Inline (if offset < 2 ^ 32 \<and> offset < 64 then drop_bit offset bits else 0)"
| "shifted (Extended words) offset = from_bools (map (mask_contains (Extended words)) [offset..<length words * 64])"

lemma first_at_or_after_ge: "first_at_or_after bits start = Some index \<Longrightarrow> start \<le> index \<and> index < mask_bit_len bits \<and> mask_contains bits index"
  by (auto simp: first_at_or_after_def find_Some_iff less_diff_conv)

function offset_from :: "optional_mask \<Rightarrow> usize \<Rightarrow> usize option \<Rightarrow> optional_mask \<Rightarrow> optional_mask" where
  "offset_from bits offset nxt out =
     (case nxt of
        None \<Rightarrow> out
      | Some index \<Rightarrow> offset_from bits offset (first_at_or_after bits (index + 1)) (mask_insert (index + offset) out))"
  by pat_completeness auto
termination
proof (relation "measure (\<lambda>(bits, offset, nxt, out). case nxt of None \<Rightarrow> 0 | Some i \<Rightarrow> Suc (mask_bit_len bits - i))")
  fix bits offset and nxt :: "usize option" and out index
  assume "nxt = Some index"
  then show "((bits, offset, first_at_or_after bits (index + 1), mask_insert (index + offset) out), bits, offset, nxt, out)
      \<in> measure (\<lambda>(bits, offset, nxt, out). case nxt of None \<Rightarrow> 0 | Some i \<Rightarrow> Suc (mask_bit_len bits - i))"
    using first_at_or_after_ge [of bits "index + 1"] by (auto split: option.split)
qed simp

declare offset_from.simps [simp del]

definition offset_by :: "optional_mask \<Rightarrow> usize \<Rightarrow> optional_mask" where
  "offset_by bits offset = offset_from bits offset (first_at_or_after bits 0) default_mask"

subsection \<open>Types\<close>

datatype hir_type =
    T_F64 | T_I64 | T_BigInt | T_Bool | T_Undefined | T_Null | T_Void | T_Str | T_Symbol
  | T_StrLiteral symbol
  | T_Json
  | T_Dictionary hir_type
  | T_JsValue
  | T_Promise hir_type
  | T_Array hir_type
  | T_Bytes
  | T_Map hir_type hir_type
  | T_WeakMap hir_type hir_type
  | T_Set hir_type
  | T_WeakSet hir_type
  | T_Tuple "hir_type list"
  | T_Object "(symbol \<times> hir_type) list"
  | T_NativeException
  | T_NonArrowReceiver hir_type
  | T_Function "hir_type list" hir_type
  | T_FunctionWithThis hir_type hir_type
  | T_CallableFunction "hir_type list" optional_mask "hir_type option" hir_type
  | T_OverloadedFunction "hir_type list" hir_type
  | T_Union "hir_type list"
  | T_Recursive symbol
  | T_Optional hir_type
  | T_Nullable hir_type
  | T_Nullish hir_type
  | T_Dynamic

definition caught_exception_carrier_type :: hir_type where
  "caught_exception_carrier_type =
     T_Union [T_F64, T_BigInt, T_Bool, T_Str, T_Undefined, T_Null, T_Object [], T_Json, T_JsValue, T_NativeException]"

fun native_exception_tag :: "hir_type \<Rightarrow> nat option" where
  "native_exception_tag T_Symbol = Some 20"
| "native_exception_tag (T_Array _) = Some 21"
| "native_exception_tag T_Bytes = Some 22"
| "native_exception_tag (T_Map _ _) = Some 23"
| "native_exception_tag (T_WeakMap _ _) = Some 24"
| "native_exception_tag (T_Set _) = Some 25"
| "native_exception_tag (T_WeakSet _) = Some 26"
| "native_exception_tag (T_Tuple _) = Some 27"
| "native_exception_tag (T_Function _ _) = Some 28"
| "native_exception_tag (T_FunctionWithThis _ _) = Some 28"
| "native_exception_tag (T_CallableFunction _ _ _ _) = Some 28"
| "native_exception_tag (T_OverloadedFunction _ _) = Some 28"
| "native_exception_tag (T_Promise _) = Some 29"
| "native_exception_tag _ = None"

subsection \<open>The derived \<open>Debug\<close> text\<close>

text \<open>The shape that \<open>derive(Debug)\<close> prints: variants with their fields, tuples, lists, strings and numbers.\<close>

datatype debug_tree =
    D_Variant bytes "debug_tree list"
  | D_Tuple "debug_tree list"
  | D_List "debug_tree list"
  | D_Text bytes
  | D_Number nat

fun mask_tree :: "optional_mask \<Rightarrow> debug_tree" where
  "mask_tree (Inline w) = D_Variant (ascii_text ''Inline'') [D_Number (unat w)]"
| "mask_tree (Extended ws) = D_Variant (ascii_text ''Extended'') [D_List (map (\<lambda>w. D_Number (unat w)) ws)]"

definition option_tree :: "debug_tree option \<Rightarrow> debug_tree" where
  "option_tree t = (case t of None \<Rightarrow> D_Variant (ascii_text ''None'') [] | Some u \<Rightarrow> D_Variant (ascii_text ''Some'') [u])"

primrec type_tree :: "hir_type \<Rightarrow> debug_tree" where
  "type_tree T_F64 = D_Variant (ascii_text ''F64'') []"
| "type_tree T_I64 = D_Variant (ascii_text ''I64'') []"
| "type_tree T_BigInt = D_Variant (ascii_text ''BigInt'') []"
| "type_tree T_Bool = D_Variant (ascii_text ''Bool'') []"
| "type_tree T_Undefined = D_Variant (ascii_text ''Undefined'') []"
| "type_tree T_Null = D_Variant (ascii_text ''Null'') []"
| "type_tree T_Void = D_Variant (ascii_text ''Void'') []"
| "type_tree T_Str = D_Variant (ascii_text ''Str'') []"
| "type_tree T_Symbol = D_Variant (ascii_text ''Symbol'') []"
| "type_tree (T_StrLiteral name) = D_Variant (ascii_text ''StrLiteral'') [D_Text name]"
| "type_tree T_Json = D_Variant (ascii_text ''Json'') []"
| "type_tree (T_Dictionary t) = D_Variant (ascii_text ''Dictionary'') [type_tree t]"
| "type_tree T_JsValue = D_Variant (ascii_text ''JsValue'') []"
| "type_tree (T_Promise t) = D_Variant (ascii_text ''Promise'') [type_tree t]"
| "type_tree (T_Array t) = D_Variant (ascii_text ''Array'') [type_tree t]"
| "type_tree T_Bytes = D_Variant (ascii_text ''Bytes'') []"
| "type_tree (T_Map k v) = D_Variant (ascii_text ''Map'') [type_tree k, type_tree v]"
| "type_tree (T_WeakMap k v) = D_Variant (ascii_text ''WeakMap'') [type_tree k, type_tree v]"
| "type_tree (T_Set t) = D_Variant (ascii_text ''Set'') [type_tree t]"
| "type_tree (T_WeakSet t) = D_Variant (ascii_text ''WeakSet'') [type_tree t]"
| "type_tree (T_Tuple ts) = D_Variant (ascii_text ''Tuple'') [D_List (map type_tree ts)]"
| "type_tree (T_Object fs) =
     D_Variant (ascii_text ''Object'') [D_List (map (\<lambda>(n, t). D_Tuple [D_Text n, t]) (map (map_prod id type_tree) fs))]"
| "type_tree T_NativeException = D_Variant (ascii_text ''NativeException'') []"
| "type_tree (T_NonArrowReceiver t) = D_Variant (ascii_text ''NonArrowReceiver'') [type_tree t]"
| "type_tree (T_Function ps r) = D_Variant (ascii_text ''Function'') [D_List (map type_tree ps), type_tree r]"
| "type_tree (T_FunctionWithThis t v) = D_Variant (ascii_text ''FunctionWithThis'') [type_tree t, type_tree v]"
| "type_tree (T_CallableFunction ps m rest r) =
     D_Variant (ascii_text ''CallableFunction'') [D_List (map type_tree ps), mask_tree m, option_tree (map_option type_tree rest), type_tree r]"
| "type_tree (T_OverloadedFunction ss p) = D_Variant (ascii_text ''OverloadedFunction'') [D_List (map type_tree ss), type_tree p]"
| "type_tree (T_Union ts) = D_Variant (ascii_text ''Union'') [D_List (map type_tree ts)]"
| "type_tree (T_Recursive key) = D_Variant (ascii_text ''Recursive'') [D_Text key]"
| "type_tree (T_Optional t) = D_Variant (ascii_text ''Optional'') [type_tree t]"
| "type_tree (T_Nullable t) = D_Variant (ascii_text ''Nullable'') [type_tree t]"
| "type_tree (T_Nullish t) = D_Variant (ascii_text ''Nullish'') [type_tree t]"
| "type_tree T_Dynamic = D_Variant (ascii_text ''Dynamic'') []"

fun join_comma :: "bytes list \<Rightarrow> bytes" where
  "join_comma [] = []"
| "join_comma [b] = b"
| "join_comma (b # bs) = b @ [0x2C, 0x20] @ join_comma bs"

text \<open>\<open>quote\<close> is the \<open>Debug\<close> text of a string, quoted and escaped by the Unicode tables.\<close>

primrec show_tree :: "(bytes \<Rightarrow> bytes) \<Rightarrow> debug_tree \<Rightarrow> bytes" where
  "show_tree quote (D_Variant name ts) =
     (if ts = [] then name else name @ [0x28] @ join_comma (map (show_tree quote) ts) @ [0x29])"
| "show_tree quote (D_Tuple ts) = [0x28] @ join_comma (map (show_tree quote) ts) @ [0x29]"
| "show_tree quote (D_List ts) = [0x5B] @ join_comma (map (show_tree quote) ts) @ [0x5D]"
| "show_tree quote (D_Text b) = quote b"
| "show_tree quote (D_Number n) = usize_to_string n"

definition debug_text :: "(bytes \<Rightarrow> bytes) \<Rightarrow> hir_type \<Rightarrow> bytes" where
  "debug_text quote t = show_tree quote (type_tree t)"

subsection \<open>Layout tokens\<close>

definition physical_type :: "hir_type \<Rightarrow> hir_type" where
  "physical_type ty = (case ty of T_OverloadedFunction _ physical \<Rightarrow> physical | other \<Rightarrow> other)"

definition native_exception_layout_token :: "(bytes \<Rightarrow> bytes) \<Rightarrow> hir_type \<Rightarrow> bytes option" where
  "native_exception_layout_token quote ty =
     map_option (\<lambda>_. debug_text quote (physical_type ty)) (native_exception_tag (physical_type ty))"

definition hex_digit :: "u8 \<Rightarrow> u8" where
  "hex_digit d = (if d < 10 then 0x30 + d else 0x57 + d)"

definition hex_byte :: "u8 \<Rightarrow> bytes" where
  "hex_byte b = [hex_digit (b div 16), hex_digit (b mod 16)]"

definition token_part :: "bytes \<Rightarrow> bytes" where
  "token_part part = usize_to_string (length part) @ [0x3A] @ concat (map hex_byte part)"

definition native_object_layout_token :: "(bytes \<Rightarrow> bytes) \<Rightarrow> (symbol \<times> hir_type) list \<Rightarrow> bytes" where
  "native_object_layout_token quote fs =
     concat (map (\<lambda>(name, ty). token_part name @ token_part (debug_text quote ty)) fs)"

definition is_error_family_name :: "symbol \<Rightarrow> bool" where
  "is_error_family_name name \<longleftrightarrow>
     name \<in> set (map ascii_text [''Error'', ''TypeError'', ''RangeError'', ''SyntaxError'', ''ReferenceError'', ''EvalError'', ''URIError'',
       ''AggregateError'', ''SuppressedError''])"

subsection \<open>Recursive layouts\<close>

text \<open>The process-wide table of layouts and the counter of keys.\<close>

record recursive_table =
  rl_layouts :: "(symbol \<times> hir_type) list"
  rl_keys :: nat

definition new_recursive_key :: "symbol \<Rightarrow> recursive_table \<Rightarrow> symbol \<times> recursive_table" where
  "new_recursive_key name s = (name @ [0x1E] @ usize_to_string (rl_keys s), s\<lparr>rl_keys := rl_keys s + 1\<rparr>)"

definition register_recursive_layout :: "symbol \<Rightarrow> hir_type \<Rightarrow> recursive_table \<Rightarrow> recursive_table" where
  "register_recursive_layout key layout s = s\<lparr>rl_layouts := hm_insert key layout (rl_layouts s)\<rparr>"

definition recursive_key_for_layout :: "hir_type \<Rightarrow> recursive_table \<Rightarrow> symbol option" where
  "recursive_key_for_layout ty s = map_option fst (find (\<lambda>e. snd e = ty) (rl_layouts s))"

primrec expand :: "recursive_table \<Rightarrow> hir_type \<Rightarrow> hir_type" where
  "expand s (T_Recursive key) = (case hm_get (rl_layouts s) key of None \<Rightarrow> T_Recursive key | Some layout \<Rightarrow> layout)"
| "expand s (T_Optional t) = T_Optional (expand s t)"
| "expand s (T_Nullable t) = T_Nullable (expand s t)"
| "expand s (T_Nullish t) = T_Nullish (expand s t)"
| "expand s (T_Array t) = T_Array (expand s t)"
| "expand s (T_Promise t) = T_Promise (expand s t)"
| "expand s (T_Tuple ts) = T_Tuple (map (expand s) ts)"
| "expand s (T_Union ts) = T_Union (map (expand s) ts)"
| "expand s T_F64 = T_F64" | "expand s T_I64 = T_I64" | "expand s T_BigInt = T_BigInt" | "expand s T_Bool = T_Bool"
| "expand s T_Undefined = T_Undefined" | "expand s T_Null = T_Null" | "expand s T_Void = T_Void" | "expand s T_Str = T_Str"
| "expand s T_Symbol = T_Symbol" | "expand s (T_StrLiteral n) = T_StrLiteral n" | "expand s T_Json = T_Json"
| "expand s (T_Dictionary t) = T_Dictionary t" | "expand s T_JsValue = T_JsValue" | "expand s T_Bytes = T_Bytes"
| "expand s (T_Map k v) = T_Map k v" | "expand s (T_WeakMap k v) = T_WeakMap k v" | "expand s (T_Set t) = T_Set t"
| "expand s (T_WeakSet t) = T_WeakSet t" | "expand s (T_Object fs) = T_Object fs" | "expand s T_NativeException = T_NativeException"
| "expand s (T_NonArrowReceiver t) = T_NonArrowReceiver t" | "expand s (T_Function ps r) = T_Function ps r"
| "expand s (T_FunctionWithThis t v) = T_FunctionWithThis t v" | "expand s (T_CallableFunction ps m rest r) = T_CallableFunction ps m rest r"
| "expand s (T_OverloadedFunction ss p) = T_OverloadedFunction ss p" | "expand s T_Dynamic = T_Dynamic"

fun contains_recursive :: "hir_type \<Rightarrow> bool" where
  "contains_recursive (T_Recursive _) = True"
| "contains_recursive (T_Optional t) = contains_recursive t"
| "contains_recursive (T_Nullable t) = contains_recursive t"
| "contains_recursive (T_Nullish t) = contains_recursive t"
| "contains_recursive (T_Array t) = contains_recursive t"
| "contains_recursive (T_Promise t) = contains_recursive t"
| "contains_recursive (T_Tuple ts) = list_ex contains_recursive ts"
| "contains_recursive (T_Union ts) = list_ex contains_recursive ts"
| "contains_recursive _ = False"

subsection \<open>Byte buffers\<close>

primrec erase_ty :: "hir_type \<Rightarrow> hir_type" where
  "erase_ty T_Bytes = T_Array T_F64"
| "erase_ty (T_Array t) = T_Array (erase_ty t)"
| "erase_ty (T_Promise t) = T_Promise (erase_ty t)"
| "erase_ty (T_Dictionary t) = T_Dictionary (erase_ty t)"
| "erase_ty (T_Set t) = T_Set (erase_ty t)"
| "erase_ty (T_WeakSet t) = T_WeakSet (erase_ty t)"
| "erase_ty (T_Optional t) = T_Optional (erase_ty t)"
| "erase_ty (T_Nullable t) = T_Nullable (erase_ty t)"
| "erase_ty (T_Nullish t) = T_Nullish (erase_ty t)"
| "erase_ty (T_Map k v) = T_Map (erase_ty k) (erase_ty v)"
| "erase_ty (T_WeakMap k v) = T_WeakMap (erase_ty k) (erase_ty v)"
| "erase_ty (T_Tuple ts) = T_Tuple (map erase_ty ts)"
| "erase_ty (T_Union ts) = T_Union (map erase_ty ts)"
| "erase_ty (T_Object fs) = T_Object (map (map_prod id erase_ty) fs)"
| "erase_ty (T_Function ps r) = T_Function (map erase_ty ps) (erase_ty r)"
| "erase_ty (T_FunctionWithThis t v) = T_FunctionWithThis (erase_ty t) (erase_ty v)"
| "erase_ty (T_NonArrowReceiver t) = T_NonArrowReceiver (erase_ty t)"
| "erase_ty (T_CallableFunction ps m rest r) = T_CallableFunction (map erase_ty ps) m (map_option erase_ty rest) (erase_ty r)"
| "erase_ty (T_OverloadedFunction ss p) = T_OverloadedFunction (map erase_ty ss) (erase_ty p)"
| "erase_ty (T_Recursive key) = T_Recursive key" | "erase_ty T_F64 = T_F64" | "erase_ty T_I64 = T_I64" | "erase_ty T_BigInt = T_BigInt"
| "erase_ty T_Bool = T_Bool" | "erase_ty T_Undefined = T_Undefined" | "erase_ty T_Null = T_Null" | "erase_ty T_Void = T_Void"
| "erase_ty T_Str = T_Str" | "erase_ty T_Symbol = T_Symbol" | "erase_ty (T_StrLiteral n) = T_StrLiteral n" | "erase_ty T_Json = T_Json"
| "erase_ty T_JsValue = T_JsValue" | "erase_ty T_NativeException = T_NativeException" | "erase_ty T_Dynamic = T_Dynamic"

fun type_contains_bytes :: "hir_type \<Rightarrow> bool" where
  "type_contains_bytes T_Bytes = True"
| "type_contains_bytes (T_Array t) = type_contains_bytes t"
| "type_contains_bytes (T_Optional t) = type_contains_bytes t"
| "type_contains_bytes (T_Nullable t) = type_contains_bytes t"
| "type_contains_bytes (T_Nullish t) = type_contains_bytes t"
| "type_contains_bytes (T_Set t) = type_contains_bytes t"
| "type_contains_bytes (T_Promise t) = type_contains_bytes t"
| "type_contains_bytes (T_Dictionary t) = type_contains_bytes t"
| "type_contains_bytes (T_Map k v) = (type_contains_bytes k \<or> type_contains_bytes v)"
| "type_contains_bytes (T_Tuple ts) = list_ex type_contains_bytes ts"
| "type_contains_bytes (T_Union ts) = list_ex type_contains_bytes ts"
| "type_contains_bytes (T_Object fs) = list_ex (\<lambda>f. type_contains_bytes (snd f)) fs"
| "type_contains_bytes _ = False"

definition bytes_layout_eq :: "hir_type \<Rightarrow> hir_type \<Rightarrow> bool" where
  "bytes_layout_eq a b \<longleftrightarrow> a = b \<or> ((type_contains_bytes a \<or> type_contains_bytes b) \<and> erase_ty a = erase_ty b)"

text \<open>The erasure of dynamic signatures keeps the marker; only the types below it are visited.\<close>

primrec erase_dynamic_ty :: "hir_type \<Rightarrow> hir_type" where
  "erase_dynamic_ty T_Bytes = T_Bytes"
| "erase_dynamic_ty (T_Array t) = T_Array (erase_dynamic_ty t)"
| "erase_dynamic_ty (T_Promise t) = T_Promise (erase_dynamic_ty t)"
| "erase_dynamic_ty (T_Dictionary t) = T_Dictionary (erase_dynamic_ty t)"
| "erase_dynamic_ty (T_Set t) = T_Set (erase_dynamic_ty t)"
| "erase_dynamic_ty (T_WeakSet t) = T_WeakSet (erase_dynamic_ty t)"
| "erase_dynamic_ty (T_Optional t) = T_Optional (erase_dynamic_ty t)"
| "erase_dynamic_ty (T_Nullable t) = T_Nullable (erase_dynamic_ty t)"
| "erase_dynamic_ty (T_Nullish t) = T_Nullish (erase_dynamic_ty t)"
| "erase_dynamic_ty (T_Map k v) = T_Map (erase_dynamic_ty k) (erase_dynamic_ty v)"
| "erase_dynamic_ty (T_WeakMap k v) = T_WeakMap (erase_dynamic_ty k) (erase_dynamic_ty v)"
| "erase_dynamic_ty (T_Tuple ts) = T_Tuple (map erase_dynamic_ty ts)"
| "erase_dynamic_ty (T_Union ts) = T_Union (map erase_dynamic_ty ts)"
| "erase_dynamic_ty (T_Object fs) = T_Object (map (map_prod id erase_dynamic_ty) fs)"
| "erase_dynamic_ty (T_Function ps r) = T_Function (map erase_dynamic_ty ps) (erase_dynamic_ty r)"
| "erase_dynamic_ty (T_CallableFunction ps m rest r) =
     T_CallableFunction (map erase_dynamic_ty ps) m (map_option erase_dynamic_ty rest) (erase_dynamic_ty r)"
| "erase_dynamic_ty (T_OverloadedFunction ss p) = T_OverloadedFunction (map erase_dynamic_ty ss) (erase_dynamic_ty p)"
| "erase_dynamic_ty (T_FunctionWithThis t v) = T_FunctionWithThis t v" | "erase_dynamic_ty (T_NonArrowReceiver t) = T_NonArrowReceiver t"
| "erase_dynamic_ty (T_Recursive key) = T_Recursive key" | "erase_dynamic_ty T_F64 = T_F64" | "erase_dynamic_ty T_I64 = T_I64"
| "erase_dynamic_ty T_BigInt = T_BigInt" | "erase_dynamic_ty T_Bool = T_Bool" | "erase_dynamic_ty T_Undefined = T_Undefined"
| "erase_dynamic_ty T_Null = T_Null" | "erase_dynamic_ty T_Void = T_Void" | "erase_dynamic_ty T_Str = T_Str"
| "erase_dynamic_ty T_Symbol = T_Symbol" | "erase_dynamic_ty (T_StrLiteral n) = T_StrLiteral n" | "erase_dynamic_ty T_Json = T_Json"
| "erase_dynamic_ty T_JsValue = T_JsValue" | "erase_dynamic_ty T_NativeException = T_NativeException"
| "erase_dynamic_ty T_Dynamic = T_Dynamic"

subsection \<open>Compatibility\<close>

lemma field_type_size: "(n, t) \<in> set fs \<Longrightarrow> size t < Suc (size_list (size_prod (\<lambda>_. 0) size) fs)"
  by (induction fs) auto

definition json_absorbs :: "hir_type \<Rightarrow> bool" where
  "json_absorbs t \<longleftrightarrow>
     (case t of T_F64 \<Rightarrow> True | T_I64 \<Rightarrow> True | T_BigInt \<Rightarrow> True | T_Bool \<Rightarrow> True | T_Undefined \<Rightarrow> True | T_Null \<Rightarrow> True | T_Str \<Rightarrow> True
      | T_StrLiteral _ \<Rightarrow> True | T_Dictionary _ \<Rightarrow> True | T_Array _ \<Rightarrow> True | T_Tuple _ \<Rightarrow> True | T_Object _ \<Rightarrow> True | T_Union _ \<Rightarrow> True
      | T_Optional _ \<Rightarrow> True | T_Nullable _ \<Rightarrow> True | T_Nullish _ \<Rightarrow> True | T_JsValue \<Rightarrow> True | _ \<Rightarrow> False)"

function callback_param_compatible :: "hir_type \<Rightarrow> hir_type \<Rightarrow> bool" where
  "callback_param_compatible expected actual \<longleftrightarrow>
     expected = actual \<or>
     (expected = caught_exception_carrier_type \<and> actual = T_Json) \<or>
     (case expected of T_Optional inner \<Rightarrow> callback_param_compatible inner actual
      | T_Nullish inner \<Rightarrow> callback_param_compatible inner actual | _ \<Rightarrow> False) \<or>
     (case (expected, actual) of
        (T_Object expected_fields, T_Object actual_fields) \<Rightarrow>
          length actual_fields \<le> length expected_fields \<and>
          list_all (\<lambda>p. fst (fst p) = fst (snd p) \<and> callback_param_compatible (snd (snd p)) (snd (fst p))) (zip actual_fields expected_fields)
      | (T_Json, t) \<Rightarrow> json_absorbs t
      | (T_JsValue, t) \<Rightarrow> t = T_Json
      | _ \<Rightarrow> False)"
  by pat_completeness auto
termination
  by (relation "measure (\<lambda>(e, a). size e)") (auto dest!: set_zip_rightD intro: field_type_size)

declare callback_param_compatible.simps [simp del]

definition object_width_subset :: "hir_type \<Rightarrow> hir_type \<Rightarrow> bool" where
  "object_width_subset narrow wide \<longleftrightarrow>
     (case (narrow, wide) of
        (T_Object narrow_fields, T_Object wide_fields) \<Rightarrow>
          narrow \<noteq> wide \<and> length narrow_fields \<le> length wide_fields \<and> list_all (\<lambda>f. list_ex (\<lambda>w. w = f) wide_fields) narrow_fields
      | _ \<Rightarrow> False)"

definition callable_return_compatible :: "hir_type \<Rightarrow> hir_type \<Rightarrow> bool" where
  "callable_return_compatible expected_ret ret \<longleftrightarrow> expected_ret = ret \<or> expected_ret = T_Void \<or> expected_ret = T_JsValue"

definition abi_param_ok :: "hir_type \<Rightarrow> hir_type \<Rightarrow> bool" where
  "abi_param_ok declared actual \<longleftrightarrow>
     declared = actual \<or>
     (case (declared, actual) of
        (T_Object declared_fields, T_Object actual_fields) \<Rightarrow>
          length actual_fields \<le> length declared_fields \<and> list_all (\<lambda>(a, d). fst a = fst d \<and> snd a = snd d) (zip actual_fields declared_fields)
      | _ \<Rightarrow> False)"

definition callable_abi_compatible :: "hir_type \<Rightarrow> hir_type \<Rightarrow> bool" where
  "callable_abi_compatible declared actual \<longleftrightarrow>
     (case (declared, actual) of
        (T_Function declared_params declared_ret, T_Function params ret) \<Rightarrow>
          (declared_ret = ret \<or> declared_ret = T_Void) \<and> length declared_params = length params \<and>
          list_all (\<lambda>(d, a). abi_param_ok d a) (zip declared_params params)
      | _ \<Rightarrow> False)"

definition params_compatible :: "hir_type list \<Rightarrow> hir_type list \<Rightarrow> bool" where
  "params_compatible expected actual \<longleftrightarrow> list_all (\<lambda>(e, a). callback_param_compatible e a) (zip expected actual)"

definition callable_value_compatible :: "hir_type \<Rightarrow> hir_type \<Rightarrow> bool" where
  "callable_value_compatible expected actual0 \<longleftrightarrow>
     (let actual = (case actual0 of T_FunctionWithThis _ visible \<Rightarrow> visible | other \<Rightarrow> other) in
      case (expected, actual) of
        (T_Function expected_params expected_ret, T_Function params ret) \<Rightarrow>
          callable_return_compatible expected_ret ret \<and> length expected_params = length params \<and> params_compatible expected_params params
      | (T_CallableFunction fixed _ rest expected_ret, T_Function params ret) \<Rightarrow>
          callable_return_compatible expected_ret ret \<and> length fixed \<le> length params \<and> params_compatible fixed params \<and>
          (case rest of
             Some r \<Rightarrow> (let tail = drop (length fixed) params in tail = [T_Array r] \<or> list_all (callback_param_compatible r) tail)
           | None \<Rightarrow> length params = length fixed)
      | (T_CallableFunction expected_fixed expected_optional (Some expected_rest) expected_ret,
         T_CallableFunction actual_fixed actual_optional (Some actual_rest) ret) \<Rightarrow>
          mask_is_empty expected_optional \<and> mask_is_empty actual_optional \<and> expected_rest = actual_rest \<and>
          callable_return_compatible expected_ret ret \<and> length expected_fixed \<le> length actual_fixed \<and>
          params_compatible expected_fixed actual_fixed \<and>
          list_all (callback_param_compatible expected_rest) (drop (length expected_fixed) actual_fixed)
      | _ \<Rightarrow> False)"

fun split_on :: "u8 \<Rightarrow> bytes \<Rightarrow> bytes list" where
  "split_on c [] = [[]]"
| "split_on c (b # bs) = (if b = c then [] # split_on c bs else (b # hd (split_on c bs)) # tl (split_on c bs))"

definition identity_prefix :: bytes where
  "identity_prefix = ascii_text ''__thaw_class_identity_'' @ [0x1E]"

definition class_identity :: "(symbol \<times> hir_type) list \<Rightarrow> bytes option" where
  "class_identity fs = (case fs of [] \<Rightarrow> None | f # _ \<Rightarrow> strip_prefix identity_prefix (fst f))"

definition class_identity_subtype :: "hir_type \<Rightarrow> hir_type \<Rightarrow> bool" where
  "class_identity_subtype expected actual \<longleftrightarrow>
     (case (expected, actual) of
        (T_Object expected_fields, T_Object actual_fields) \<Rightarrow>
          (case (class_identity expected_fields, class_identity actual_fields) of
             (Some expected_identity, Some actual_identity) \<Rightarrow>
               list_ex (\<lambda>name. name = hd (split_on 0x1F expected_identity)) (split_on 0x1F actual_identity) \<and>
               length expected_fields \<le> length actual_fields \<and>
               list_all (\<lambda>(e, a). e = a) (zip (drop 1 expected_fields) (drop 1 actual_fields))
           | _ \<Rightarrow> False)
      | _ \<Rightarrow> False)"

end
