(* ===== verification/Hir_Masks.thy ===== *)
theory Hir_Masks
  imports Hir_Types
begin

text \<open>Masks of omittable parameters are finite sets of positions, however many machine words they take.\<close>

definition words_bit :: "u64 list \<Rightarrow> nat \<Rightarrow> bool" where
  "words_bit ws j \<longleftrightarrow> j div 64 < length ws \<and> bit (ws ! (j div 64)) (j mod 64)"

definition mask_set :: "optional_mask \<Rightarrow> nat set" where
  "mask_set m = {j. mask_contains m j}"

lemma bit_at_and: "w AND bit_at k \<noteq> 0 \<longleftrightarrow> bit w k"
  by (simp add: bit_at_def bit_iff_and_push_bit_not_eq_0)

lemma u64_bit_less: "bit (w :: u64) k \<Longrightarrow> k < 64"
  using bit_imp_le_length [of w k] by simp

lemma contains_bits [simp]: "mask_contains (Inline w) j \<longleftrightarrow> bit w j" "mask_contains (Extended ws) j \<longleftrightarrow> words_bit ws j"
  using u64_bit_less by (auto simp: bit_at_and words_bit_def)

declare mask_contains.simps [simp del]

lemma bit_bit_at: "bit (bit_at k) j \<longleftrightarrow> j = k \<and> k < 64"
  by (auto simp: bit_at_def bit_simps)

lemma words_bit_set:
  assumes "i div 64 < length ws"
  shows "words_bit (set_bit_word i ws) j \<longleftrightarrow> j = i \<or> words_bit ws j"
proof (cases "j div 64 = i div 64")
  case True
  have "j = i \<longleftrightarrow> j mod 64 = i mod 64" using True div_mult_mod_eq [of j 64] div_mult_mod_eq [of i 64] by metis
  then show ?thesis using assms True by (auto simp: words_bit_def set_bit_word_def bit_or_iff bit_bit_at)
next
  case False
  then show ?thesis by (auto simp: words_bit_def set_bit_word_def)
qed

lemma words_bit_zeros: "words_bit (ws @ replicate n 0) j = words_bit ws j"
  by (auto simp: words_bit_def nth_append)

lemma words_bit_first: "words_bit ((replicate (Suc n) 0)[0 := w]) j = bit w j"
proof (cases "j div 64 = 0")
  case True
  then have "j < 64" by simp
  then show ?thesis by (simp add: words_bit_def)
next
  case False
  then have "\<not> bit w j" using u64_bit_less [of w j] by auto
  then show ?thesis using False by (auto simp: words_bit_def nth_list_update)
qed

lemma mask_set_insert: "mask_set (mask_insert i m) = insert i (mask_set m)"
proof (cases m)
  case (Inline w)
  show ?thesis
  proof (cases "i < 64")
    case True
    then show ?thesis using Inline by (auto simp: mask_set_def bit_or_iff bit_bit_at)
  next
    case False
    then show ?thesis using Inline words_bit_set [of i "(replicate (Suc (i div 64)) 0)[0 := w]"]
      by (auto simp: mask_set_def words_bit_first simp del: replicate_Suc)
  qed
next
  case (Extended ws)
  then show ?thesis using words_bit_set [of i "resize_up (i div 64 + 1) ws"]
    by (auto simp: mask_set_def resize_up_def words_bit_zeros)
qed

lemma pop_zeros_bits: "words_bit (pop_zeros ws) j = words_bit ws j"
proof (induction ws rule: pop_zeros.induct)
  case (1 ws)
  show ?case
  proof (cases "ws \<noteq> [] \<and> last ws = 0")
    case True
    then have "words_bit (butlast ws) j = words_bit ws j"
      using words_bit_zeros [of "butlast ws" 1 j] append_butlast_last_id [of ws] by simp
    then show ?thesis using 1 True by (simp add: pop_zeros.simps [of ws])
  qed (auto simp: pop_zeros.simps [of ws])
qed

lemma pop_zeros_last: "pop_zeros ws = [] \<or> last (pop_zeros ws) \<noteq> 0"
  by (induction ws rule: pop_zeros.induct) (subst (1 2) pop_zeros.simps, auto)

lemma fold_inline_bits:
  "bit (fold (\<lambda>(i, v) w. w OR push_bit i (of_bool v)) (enumerate n bs) (w :: u64)) j \<longleftrightarrow>
   bit w j \<or> (n \<le> j \<and> j < n + length bs \<and> bs ! (j - n) \<and> j < 64)"
proof (induction bs arbitrary: n w)
  case (Cons b bs)
  have "n \<le> j \<and> j < n + length (b # bs) \<and> (b # bs) ! (j - n) \<longleftrightarrow> (j = n \<and> b) \<or> (Suc n \<le> j \<and> j < Suc n + length bs \<and> bs ! (j - Suc n))"
    by (cases "j = n") (auto simp: nth_Cons' Suc_le_eq)
  then show ?case using Cons [of "Suc n" "w OR push_bit n (of_bool b)"] by (auto simp: bit_simps)
qed auto

lemma fold_words_bits:
  "n + length bs \<le> 64 * length ws \<Longrightarrow>
   length (fold (\<lambda>(i, v) ws. if v then set_bit_word i ws else ws) (enumerate n bs) ws) = length ws \<and>
   (words_bit (fold (\<lambda>(i, v) ws. if v then set_bit_word i ws else ws) (enumerate n bs) ws) j \<longleftrightarrow>
    words_bit ws j \<or> (n \<le> j \<and> j < n + length bs \<and> bs ! (j - n)))"
proof (induction bs arbitrary: n ws)
  case (Cons b bs)
  let ?ws = "if b then set_bit_word n ws else ws"
  have l: "length ?ws = length ws" by (simp add: set_bit_word_def)
  have "n div 64 < length ws" using Cons.prems by (simp add: less_mult_imp_div_less)
  then have w: "words_bit ?ws j \<longleftrightarrow> words_bit ws j \<or> (j = n \<and> b)" using words_bit_set by auto
  have "n \<le> j \<and> j < n + length (b # bs) \<and> (b # bs) ! (j - n) \<longleftrightarrow> (j = n \<and> b) \<or> (Suc n \<le> j \<and> j < Suc n + length bs \<and> bs ! (j - Suc n))"
    by (cases "j = n") (auto simp: nth_Cons' Suc_le_eq)
  then show ?case using Cons.IH [of "Suc n" ?ws] Cons.prems l w by auto
qed auto

lemma mask_set_from_bools: "mask_set (from_bools bs) = {j. j < length bs \<and> bs ! j}"
proof (cases "length bs \<le> 64")
  case True
  have "mask_contains (from_bools bs) j \<longleftrightarrow> bit (0 :: u64) j \<or> 0 \<le> j \<and> j < 0 + length bs \<and> bs ! (j - 0) \<and> j < 64" for j
    unfolding from_bools_def if_P [OF True] contains_bits by (rule fold_inline_bits)
  then have "mask_set (from_bools bs) = {j. j < length bs \<and> bs ! j \<and> j < 64}" unfolding mask_set_def by auto
  moreover have "j < 64" if "j < length bs" for j using that True by (rule less_le_trans)
  ultimately show ?thesis by blast
next
  case False
  let ?z = "replicate ((length bs + 63) div 64) (0 :: u64)"
  have "length bs \<le> 64 * length ?z" by simp
  have "\<not> words_bit ?z j" for j by (auto simp: words_bit_def)
  moreover have "mask_contains (from_bools bs) j \<longleftrightarrow> words_bit ?z j \<or> (0 \<le> j \<and> j < 0 + length bs \<and> bs ! (j - 0))" for j
    unfolding from_bools_def if_not_P [OF False] contains_bits pop_zeros_bits
    using fold_words_bits [of 0 bs ?z j] \<open>length bs \<le> 64 * length ?z\<close> by (simp only: add_0)
  ultimately show ?thesis unfolding mask_set_def by auto
qed

lemma mask_set_bound: "j \<in> mask_set m \<Longrightarrow> j < mask_bit_len m"
  by (cases m) (auto simp: mask_set_def words_bit_def u64_bit_less less_mult_imp_div_less dest: div_less_iff_less_mult [of 64, THEN iffD1, rotated])

lemma first_least:
  "first_at_or_after m start = (if \<exists>j \<in> mask_set m. start \<le> j then Some (LEAST j. j \<in> mask_set m \<and> start \<le> j) else None)"
proof (cases "\<exists>j \<in> mask_set m. start \<le> j")
  case False
  then show ?thesis by (auto simp: first_at_or_after_def find_None_iff mask_set_def)
next
  case True
  let ?k = "LEAST j. j \<in> mask_set m \<and> start \<le> j"
  have k: "?k \<in> mask_set m" "start \<le> ?k" using LeastI_ex [of "\<lambda>j. j \<in> mask_set m \<and> start \<le> j"] True by blast+
  have below: "\<not> mask_contains m j" if "start \<le> j" "j < ?k" for j
    using not_less_Least [of j "\<lambda>j. j \<in> mask_set m \<and> start \<le> j"] that by (auto simp: mask_set_def)
  have "?k < mask_bit_len m" by (rule mask_set_bound [OF k(1)])
  then have split: "[start..<mask_bit_len m] = [start..<?k] @ ?k # [Suc ?k..<mask_bit_len m]"
    using k(2) upt_add_eq_append [of start ?k "mask_bit_len m - ?k"] by (simp add: upt_conv_Cons)
  have "find (mask_contains m) ([start..<?k] @ ?k # xs) = Some ?k" for xs
  proof -
    have "find (mask_contains m) (ys @ ?k # xs) = Some ?k" if "\<forall>j \<in> set ys. \<not> mask_contains m j" for ys
      using that k(1) by (induction ys) (auto simp: mask_set_def)
    then show ?thesis using below by auto
  qed
  then show ?thesis using True split by (simp add: first_at_or_after_def)
qed

lemma mask_set_shifted: "mask_set (shifted m k) = {j. j + k \<in> mask_set m}"
proof (cases m)
  case (Inline w)
  show ?thesis
  proof (cases "k < 64")
    case True
    then show ?thesis using Inline by (auto simp: mask_set_def bit_drop_bit_eq add.commute)
  next
    case False
    then have "\<not> bit w (j + k)" for j using u64_bit_less [of w "j + k"] by auto
    then show ?thesis using Inline False by (auto simp: mask_set_def)
  qed
next
  case (Extended ws)
  have b: "j < length ws * 64 - k" if "words_bit ws (k + j)" for j
    using mask_set_bound [of "k + j" "Extended ws"] that by (simp add: mask_set_def less_diff_conv add.commute)
  have "mask_set (shifted m k) = {j. j < length ws * 64 - k \<and> words_bit ws (k + j)}"
    using Extended by (simp add: mask_set_from_bools cong: conj_cong)
  also have "\<dots> = {j. j + k \<in> mask_set m}" using b Extended by (auto simp: mask_set_def add.commute [of _ k])
  finally show ?thesis .
qed

lemma offset_from_set:
  "mask_set (offset_from m k nxt out) =
   mask_set out \<union> (case nxt of None \<Rightarrow> {} | Some i \<Rightarrow> (\<lambda>j. j + k) ` (insert i {j \<in> mask_set m. i < j}))"
proof (induction m k nxt out rule: offset_from.induct)
  case (1 m k nxt out)
  show ?case
  proof (cases nxt)
    case None
    then show ?thesis by (simp add: offset_from.simps [of m k None out])
  next
    case (Some i)
    let ?n = "first_at_or_after m (i + 1)"
    have "{j \<in> mask_set m. i < j} = (case ?n of None \<Rightarrow> {} | Some n \<Rightarrow> insert n {j \<in> mask_set m. n < j})"
    proof (cases "\<exists>j \<in> mask_set m. i + 1 \<le> j")
      case True
      let ?k = "LEAST j. j \<in> mask_set m \<and> i + 1 \<le> j"
      have k: "?k \<in> mask_set m" "i + 1 \<le> ?k" using LeastI_ex [of "\<lambda>j. j \<in> mask_set m \<and> i + 1 \<le> j"] True by blast+
      have "?k \<le> j" if "j \<in> mask_set m" "i < j" for j using that by (intro Least_le) simp
      then have "{j \<in> mask_set m. i < j} = insert ?k {j \<in> mask_set m. ?k < j}" using k by (auto simp: order_le_less)
      then show ?thesis using True by (simp add: first_least)
    next
      case False
      then show ?thesis by (auto simp: first_least)
    qed
    then show ?thesis using 1 [OF Some] Some by (auto simp: offset_from.simps [of m k "Some i" out] mask_set_insert split: option.splits)
  qed
qed

lemma mask_set_offset: "mask_set (offset_by m k) = (\<lambda>j. j + k) ` mask_set m"
proof (cases "\<exists>j. j \<in> mask_set m")
  case True
  let ?k = "LEAST j. j \<in> mask_set m"
  have "?k \<in> mask_set m" using LeastI_ex [of "\<lambda>j. j \<in> mask_set m"] True by blast
  moreover have "?k \<le> j" if "j \<in> mask_set m" for j using that by (rule Least_le)
  ultimately have "mask_set m = insert ?k {j \<in> mask_set m. ?k < j}" by (auto simp: order_le_less)
  moreover have "first_at_or_after m 0 = Some ?k" using True by (auto simp: first_least)
  ultimately show ?thesis by (simp add: offset_by_def offset_from_set default_mask_def) (simp add: mask_set_def)
next
  case False
  then show ?thesis by (auto simp: offset_by_def offset_from_set first_least default_mask_def) (auto simp: mask_set_def)
qed

subsection \<open>Counting\<close>

lemma words_bit_Cons: "{j. words_bit (w # ws) j} = {j. bit w j} \<union> (\<lambda>j. j + 64) ` {j. words_bit ws j}"
proof -
  have low: "words_bit (w # ws) j \<longleftrightarrow> bit w j" if "j < 64" for j using that by (simp add: words_bit_def)
  have high: "words_bit (w # ws) (j + 64) \<longleftrightarrow> words_bit ws j" for j
  proof -
    have "(j + 64) div 64 = Suc (j div 64)" "(j + 64) mod 64 = j mod 64" by simp_all
    then show ?thesis by (simp only: words_bit_def nth_Cons_Suc length_Cons Suc_less_eq)
  qed
  show ?thesis
  proof (intro set_eqI iffI)
    fix j assume "j \<in> {j. words_bit (w # ws) j}"
    then show "j \<in> {j. bit w j} \<union> (\<lambda>j. j + 64) ` {j. words_bit ws j}"
      using low [of j] high [of "j - 64"] by (cases "j < 64") (auto intro!: image_eqI [of j _ "j - 64"])
  next
    fix j assume "j \<in> {j. bit w j} \<union> (\<lambda>j. j + 64) ` {j. words_bit ws j}"
    then show "j \<in> {j. words_bit (w # ws) j}" using low [of j] high u64_bit_less [of w j] by auto
  qed
qed

lemma count_ones_card: "count_ones w = card {j. bit w j}"
proof -
  have "{j. bit w j} = set (filter (bit w) [0..<64])" using u64_bit_less [of w] by auto
  then show ?thesis unfolding count_ones_def using distinct_card [of "filter (bit w) [0..<64]"] by simp
qed

lemma finite_bits: "finite {j. bit (w :: u64) j}"
  by (rule finite_subset [of _ "{..<64}"]) (auto simp: u64_bit_less)

lemma words_count: "finite {j. words_bit ws j} \<and> card {j. words_bit ws j} = sum_list (map count_ones ws)"
proof (induction ws)
  case (Cons w ws)
  have "{j. bit w j} \<inter> (\<lambda>j. j + 64) ` {j. words_bit ws j} = {}" using u64_bit_less [of w] by force
  then show ?case using Cons finite_bits [of w]
    by (simp add: words_bit_Cons card_Un_disjoint count_ones_card card_image)
qed (simp add: words_bit_def)

lemma mask_set_count: "mask_count m = card (mask_set m)"
  using words_count by (cases m) (simp_all add: mask_set_def count_ones_card)

subsection \<open>Canonical masks\<close>

text \<open>The words of a mask end in a word that is not zero.\<close>

fun mask_ok :: "optional_mask \<Rightarrow> bool" where
  "mask_ok (Inline _) \<longleftrightarrow> True"
| "mask_ok (Extended ws) \<longleftrightarrow> ws = [] \<or> last ws \<noteq> 0"

lemma or_nonzero: "(w :: u64) \<noteq> 0 \<Longrightarrow> w OR v \<noteq> 0" "k < 64 \<Longrightarrow> w OR bit_at k \<noteq> 0"
  by (auto simp: bit_eq_iff bit_or_iff bit_bit_at)

lemma set_bit_last:
  assumes "i div 64 < length ws" "i div 64 = length ws - 1 \<or> last ws \<noteq> 0"
  shows "set_bit_word i ws \<noteq> [] \<and> last (set_bit_word i ws) \<noteq> 0"
proof -
  have ne: "ws \<noteq> []" using assms(1) by auto
  then show ?thesis using assms
    by (cases "i div 64 = length ws - 1") (simp_all add: set_bit_word_def last_conv_nth nth_list_update or_nonzero)
qed

lemma mask_ok_insert: "mask_ok m \<Longrightarrow> mask_ok (mask_insert i m)"
proof (cases m)
  case (Inline w)
  then show ?thesis using set_bit_last [of i "(replicate (i div 64 + 1) 0)[0 := w]"] by simp
next
  case (Extended ws)
  assume ok: "mask_ok m"
  let ?r = "resize_up (i div 64 + 1) ws"
  have "i div 64 < length ?r" by (simp add: resize_up_def)
  moreover have "i div 64 = length ?r - 1 \<or> last ?r \<noteq> 0"
    using ok Extended by (cases "i div 64 + 1 \<le> length ws") (auto simp: resize_up_def)
  ultimately show ?thesis using Extended set_bit_last [of i ?r] by simp
qed

lemma mask_ok_from_bools: "mask_ok (from_bools bs)"
  using pop_zeros_last by (auto simp: from_bools_def)

lemma mask_ok_shifted: "mask_ok (shifted m k)"
  by (cases m) (simp_all add: mask_ok_from_bools)

lemma mask_ok_offset_from: "mask_ok out \<Longrightarrow> mask_ok (offset_from m k nxt out)"
proof (induction m k nxt out rule: offset_from.induct)
  case (1 m k nxt out)
  then show ?case by (cases nxt) (simp_all add: offset_from.simps [of m k _ out] mask_ok_insert)
qed

lemma mask_empty_set: "mask_ok m \<Longrightarrow> mask_is_empty m \<longleftrightarrow> mask_set m = {}"
proof (cases m)
  case (Inline w)
  then show ?thesis using bit_eqI [of w 0] by (auto simp: mask_set_def)
next
  case (Extended ws)
  assume ok: "mask_ok m"
  show ?thesis
  proof (cases "ws = []")
    case False
    then have "last ws \<noteq> 0" using ok Extended by simp
    then obtain k where k: "bit (last ws) k" by (auto simp: bit_eq_iff)
    then have "k < 64" by (rule u64_bit_less)
    then have "words_bit ws ((length ws - 1) * 64 + k)" using k False by (simp add: words_bit_def last_conv_nth)
    then show ?thesis using Extended False by (auto simp: mask_set_def)
  qed (simp add: Extended mask_set_def words_bit_def)
qed

text \<open>C26. A mask of omittable parameters behaves as the finite set of its positions, across the boundary of a machine word:
  building it from flags, inserting, moving it up past bound arguments and down past consumed ones,
  testing for emptiness, counting and searching are the operations of sets, and every operation
  leaves the words canonical.\<close>

theorem mask_refines_set:
  assumes "mask_ok m"
  shows "mask_set (from_bools bs) = {j. j < length bs \<and> bs ! j} \<and> mask_ok (from_bools bs) \<and>
    mask_set (mask_insert i m) = insert i (mask_set m) \<and> mask_ok (mask_insert i m) \<and>
    mask_set (offset_by m k) = (\<lambda>j. j + k) ` mask_set m \<and> mask_ok (offset_by m k) \<and>
    mask_set (shifted m k) = {j. j + k \<in> mask_set m} \<and> mask_ok (shifted m k) \<and>
    (mask_is_empty m \<longleftrightarrow> mask_set m = {}) \<and> mask_count m = card (mask_set m) \<and>
    first_at_or_after m start =
      (if \<exists>j \<in> mask_set m. start \<le> j then Some (LEAST j. j \<in> mask_set m \<and> start \<le> j) else None)"
proof (intro conjI)
  have "mask_ok default_mask" by (simp add: default_mask_def)
  then show "mask_ok (offset_by m k)" unfolding offset_by_def by (rule mask_ok_offset_from)
qed (rule mask_set_from_bools mask_ok_from_bools mask_set_insert mask_ok_insert [OF assms] mask_set_offset mask_set_shifted
      mask_ok_shifted mask_empty_set [OF assms] mask_set_count first_least)+

theorem mask_refines_set_witness:
  "mask_set (mask_insert 64 (Inline 1)) = {0, 64} \<and> mask_ok (mask_insert 64 (Inline 1))"
proof -
  have "mask_set (Inline 1) = {0}" by (auto simp: mask_set_def bit_1_iff)
  then show ?thesis using mask_refines_set [of "Inline 1" "[]" 64 0 0] by auto
qed

end
