(* ===== verification/Hir_Tokens.thy ===== *)
theory Hir_Tokens
  imports Hir_Types
begin

text \<open>
  Layout tokens identify layouts: the derived \<open>Debug\<close> text of a type can be read back in only one way, and the
  token of an object is a prefix of another exactly when its fields are.
\<close>

subsection \<open>Reading a \<open>Debug\<close> text\<close>

text \<open>What the \<open>Debug\<close> text of a string promises: it begins with a quotation mark and shows where it ends.\<close>

definition quote_ok :: "(bytes \<Rightarrow> bytes) \<Rightarrow> bool" where
  "quote_ok quote \<longleftrightarrow>
     (\<forall>s. take 1 (quote s) = [0x22]) \<and> (\<forall>s t x y. quote s @ x = quote t @ y \<longrightarrow> s = t \<and> x = y)"

definition upper :: "u8 \<Rightarrow> bool" where "upper c \<longleftrightarrow> 0x41 \<le> c \<and> c \<le> 0x5A"

definition alnum :: "u8 \<Rightarrow> bool" where
  "alnum c \<longleftrightarrow> is_ascii_digit c \<or> upper c \<or> (0x61 \<le> c \<and> c \<le> 0x7A)"

definition name_ok :: "bytes \<Rightarrow> bool" where
  "name_ok n \<longleftrightarrow> n \<noteq> [] \<and> upper (hd n) \<and> list_all alnum n"

primrec tree_ok :: "debug_tree \<Rightarrow> bool" where
  "tree_ok (D_Variant n ts) \<longleftrightarrow> name_ok n \<and> list_all id (map tree_ok ts)"
| "tree_ok (D_Tuple ts) \<longleftrightarrow> list_all id (map tree_ok ts)"
| "tree_ok (D_List ts) \<longleftrightarrow> list_all id (map tree_ok ts)"
| "tree_ok (D_Text _) \<longleftrightarrow> True"
| "tree_ok (D_Number _) \<longleftrightarrow> True"

definition delimited :: "bytes \<Rightarrow> bool" where
  "delimited x \<longleftrightarrow> x = [] \<or> hd x = 0x2C \<or> hd x = 0x29 \<or> hd x = 0x5D"

text \<open>The first byte tells the kind of a tree.\<close>

fun head_ok :: "debug_tree \<Rightarrow> u8 \<Rightarrow> bool" where
  "head_ok (D_Variant _ _) c \<longleftrightarrow> upper c"
| "head_ok (D_Tuple _) c \<longleftrightarrow> c = 0x28"
| "head_ok (D_List _) c \<longleftrightarrow> c = 0x5B"
| "head_ok (D_Text _) c \<longleftrightarrow> c = 0x22"
| "head_ok (D_Number _) c \<longleftrightarrow> is_ascii_digit c"

lemma show_head:
  assumes "quote_ok quote" "tree_ok t"
  shows "\<exists>c r. show_tree quote t = c # r \<and> head_ok t c"
proof (cases t)
  case (D_Variant n ts)
  then show ?thesis using assms(2) by (cases n) (auto simp: name_ok_def)
next
  case (D_Text b)
  have "take 1 (quote b) = [0x22]" using assms(1) unfolding quote_ok_def by blast
  then show ?thesis using D_Text by (cases "quote b") simp_all
next
  case (D_Number n)
  then show ?thesis using usize_to_string_digits [of n] by (cases "usize_to_string n") auto
qed auto

lemma head_kind: "head_ok t c \<Longrightarrow> c \<noteq> 0x2C \<and> c \<noteq> 0x29 \<and> c \<noteq> 0x5D"
  by (cases t) (auto simp: upper_def is_ascii_digit_def)

lemma takeWhile_name:
  assumes "list_all P n" "x = [] \<or> \<not> P (hd x)"
  shows "takeWhile P (n @ x) = n"
  using assms by (cases x) (auto simp: list_all_iff takeWhile_append)

lemma span_unique:
  assumes "n @ x = m @ y" "list_all P n" "list_all P m" "x = [] \<or> \<not> P (hd x)" "y = [] \<or> \<not> P (hd y)"
  shows "n = m \<and> x = y"
  using takeWhile_name [OF assms(2,4)] takeWhile_name [OF assms(3,5)] assms(1) by auto

lemma delimiters: "\<not> alnum 0x2C" "\<not> alnum 0x29" "\<not> alnum 0x5D" "\<not> alnum 0x28" "\<not> is_ascii_digit 0x2C" "\<not> is_ascii_digit 0x29"
  "\<not> is_ascii_digit 0x5D"
  by (simp_all add: alnum_def upper_def is_ascii_digit_def)

lemma number_unique:
  assumes "usize_to_string n @ x = usize_to_string m @ y" "delimited x" "delimited y"
  shows "n = m \<and> x = y"
proof -
  have "usize_to_string n = usize_to_string m \<and> x = y"
    using assms usize_to_string_digits [of n] usize_to_string_digits [of m] delimiters
    by (intro span_unique [where P = is_ascii_digit]) (auto simp: delimited_def)
  then show ?thesis using usize_to_string_digits [of n] usize_to_string_digits [of m] by metis
qed

definition readable :: "(bytes \<Rightarrow> bytes) \<Rightarrow> debug_tree \<Rightarrow> debug_tree \<Rightarrow> bool" where
  "readable quote t u \<longleftrightarrow>
     (\<forall>x y. show_tree quote t @ x = show_tree quote u @ y \<longrightarrow> delimited x \<longrightarrow> delimited y \<longrightarrow> t = u \<and> x = y)"

lemma readableD:
  assumes "readable quote t u" "show_tree quote t @ x = show_tree quote u @ y" "delimited x" "delimited y"
  shows "t = u \<and> x = y"
  using assms(1) [unfolded readable_def, rule_format, OF assms(2-4)] .

text \<open>A list between brackets, when its elements are readable.\<close>

lemma join_unique:
  assumes "\<forall>t \<in> set ts. \<forall>u \<in> set us. readable quote t u"
    and "\<forall>t \<in> set ts \<union> set us. \<exists>c r. show_tree quote t = c # r \<and> head_ok t c"
    and "close = 0x29 \<or> close = 0x5D"
    and "join_comma (map (show_tree quote) ts) @ close # x = join_comma (map (show_tree quote) us) @ close # y"
  shows "ts = us \<and> x = y"
  using assms
proof (induction ts arbitrary: us)
  case Nil
  then show ?case
  proof (cases us)
    case (Cons u us')
    then obtain c r where "show_tree quote u = c # r" "head_ok u c" using Nil.prems(2) by auto
    then have False using Nil.prems(3,4) Cons head_kind [of u c] by (cases us') auto
    then show ?thesis ..
  qed simp
next
  case (Cons t ts)
  obtain c r where t: "show_tree quote t = c # r" "head_ok t c" using Cons.prems(2) by auto
  show ?case
  proof (cases us)
    case Nil
    then have False using Cons.prems(3,4) t head_kind [of t c] by (cases ts) auto
    then show ?thesis ..
  next
    case (Cons u us')
    let ?rest = "\<lambda>l z. if l = [] then close # z else [0x2C, 0x20] @ join_comma (map (show_tree quote) l) @ close # z"
    have j: "join_comma (map (show_tree quote) (v # l)) @ close # z = show_tree quote v @ ?rest l z" for v l z by (cases l) simp_all
    have d: "delimited (?rest l z)" for l z using Cons.prems(3) by (auto simp: delimited_def)
    have "show_tree quote t @ ?rest ts x = show_tree quote u @ ?rest us' y" using Cons.prems(4) unfolding Cons j .
    then have eq: "t = u \<and> ?rest ts x = ?rest us' y"
      using readableD [OF Cons.prems(1) [rule_format, of t u] _ d d] Cons by simp
    then have both: "ts = [] \<longleftrightarrow> us' = []" using Cons.prems(3) by (auto split: if_splits)
    show ?thesis
    proof (cases "ts = []")
      case True
      then show ?thesis using eq both Cons by simp
    next
      case False
      then have "join_comma (map (show_tree quote) ts) @ close # x = join_comma (map (show_tree quote) us') @ close # y" using eq both by simp
      moreover have "\<forall>t \<in> set ts. \<forall>u \<in> set us'. readable quote t u"
      proof (intro ballI)
        fix a b
        assume "a \<in> set ts" "b \<in> set us'"
        then have "a \<in> set (t # ts)" "b \<in> set us" using Cons by simp_all
        then show "readable quote a b"
          by (rule bspec [OF bspec [OF Cons.prems(1)]])
      qed
      moreover have "\<forall>t \<in> set ts \<union> set us'. \<exists>c r. show_tree quote t = c # r \<and> head_ok t c" using Cons.prems(2) Cons by simp
      ultimately have "ts = us' \<and> x = y" using Cons.IH [OF _ _ Cons.prems(3)] by blast
      then show ?thesis using eq Cons by simp
    qed
  qed
qed

lemma show_same_kind:
  assumes "quote_ok quote" "tree_ok t" "tree_ok u" "show_tree quote t @ x = show_tree quote u @ y"
  shows "\<exists>c. head_ok t c \<and> head_ok u c"
  using show_head [OF assms(1,2)] show_head [OF assms(1,3)] assms(4) by auto

lemma lists_unique:
  assumes "quote_ok quote" "list_all id (map tree_ok ts)" "list_all id (map tree_ok us)" "close = 0x29 \<or> close = 0x5D"
    and "\<And>t u. t \<in> set ts \<Longrightarrow> tree_ok t \<Longrightarrow> tree_ok u \<Longrightarrow> readable quote t u"
    and "join_comma (map (show_tree quote) ts) @ close # x = join_comma (map (show_tree quote) us) @ close # y"
  shows "ts = us \<and> x = y"
proof (rule join_unique [OF _ _ assms(4,6)])
  show "\<forall>t \<in> set ts. \<forall>u \<in> set us. readable quote t u" using assms(2,3,5) by (simp add: list_all_iff)
  show "\<forall>t \<in> set ts \<union> set us. \<exists>c r. show_tree quote t = c # r \<and> head_ok t c" using assms(2,3) show_head [OF assms(1)] by (auto simp: list_all_iff)
qed

text \<open>The first byte fixes the constructor.\<close>

lemma show_constructor:
  assumes "quote_ok quote" "tree_ok t" "tree_ok u" "show_tree quote t @ x = show_tree quote u @ y"
  shows "(\<exists>n ts m us. t = D_Variant n ts \<and> u = D_Variant m us) \<or> (\<exists>ts us. t = D_Tuple ts \<and> u = D_Tuple us) \<or>
    (\<exists>ts us. t = D_List ts \<and> u = D_List us) \<or> (\<exists>b c. t = D_Text b \<and> u = D_Text c) \<or> (\<exists>n m. t = D_Number n \<and> u = D_Number m)"
proof -
  obtain c where c: "head_ok t c" "head_ok u c" using show_same_kind [OF assms] by blast
  have v: "\<not> upper 0x28" "\<not> upper 0x5B" "\<not> upper 0x22" "\<not> is_ascii_digit 0x28" "\<not> is_ascii_digit 0x5B" "\<not> is_ascii_digit 0x22"
    by (simp_all add: upper_def is_ascii_digit_def)
  have w: "\<not> (upper c \<and> is_ascii_digit c)" by (auto simp: upper_def is_ascii_digit_def word_le_nat_alt)
  show ?thesis using c v w by (cases t; cases u) auto
qed

lemma variant_unique:
  assumes "show_tree quote (D_Variant n ts) @ x = show_tree quote (D_Variant m us) @ y" "name_ok n" "name_ok m" "delimited x" "delimited y"
  shows "n = m \<and> (ts = [] \<and> us = [] \<and> x = y \<or>
    join_comma (map (show_tree quote) ts) @ 0x29 # x = join_comma (map (show_tree quote) us) @ 0x29 # y \<and> ts \<noteq> [] \<and> us \<noteq> [])"
proof -
  let ?args = "\<lambda>l z. if l = [] then z else [0x28] @ join_comma (map (show_tree quote) l) @ 0x29 # z"
  have "n @ ?args ts x = m @ ?args us y" using assms(1) by (auto split: if_splits)
  then have e: "n = m \<and> ?args ts x = ?args us y"
    using assms delimiters by (intro span_unique [where P = alnum]) (auto simp: name_ok_def delimited_def)
  then show ?thesis using assms(4,5) by (auto simp: delimited_def split: if_splits)
qed

lemma show_unique:
  assumes "quote_ok quote"
  shows "tree_ok t \<Longrightarrow> tree_ok u \<Longrightarrow> readable quote t u"
proof (induction t arbitrary: u)
  case (D_Variant n ts)
  show ?case unfolding readable_def
  proof (intro allI impI)
    fix x y
    assume p: "show_tree quote (D_Variant n ts) @ x = show_tree quote u @ y" "delimited x" "delimited y"
    obtain m us where u: "u = D_Variant m us" using show_constructor [OF assms D_Variant.prems p(1)] by blast
    have ok: "name_ok n" "name_ok m" "list_all id (map tree_ok ts)" "list_all id (map tree_ok us)" using D_Variant.prems u by simp_all
    show "D_Variant n ts = u \<and> x = y"
      using variant_unique [OF p(1) [unfolded u] ok(1,2) p(2,3)] lists_unique [where close = "0x29" and x = x and y = y, OF assms ok(3,4) _ D_Variant.IH] u by auto
  qed
next
  case (D_Tuple ts)
  show ?case unfolding readable_def
  proof (intro allI impI)
    fix x y
    assume p: "show_tree quote (D_Tuple ts) @ x = show_tree quote u @ y" "delimited x" "delimited y"
    obtain us where u: "u = D_Tuple us" using show_constructor [OF assms D_Tuple.prems p(1)] by blast
    show "D_Tuple ts = u \<and> x = y" using lists_unique [where us = us and close = "0x29" and x = x and y = y, OF assms _ _ _ D_Tuple.IH] D_Tuple.prems p(1) u by simp
  qed
next
  case (D_List ts)
  show ?case unfolding readable_def
  proof (intro allI impI)
    fix x y
    assume p: "show_tree quote (D_List ts) @ x = show_tree quote u @ y" "delimited x" "delimited y"
    obtain us where u: "u = D_List us" using show_constructor [OF assms D_List.prems p(1)] by blast
    show "D_List ts = u \<and> x = y" using lists_unique [where us = us and close = "0x5D" and x = x and y = y, OF assms _ _ _ D_List.IH] D_List.prems p(1) u by simp
  qed
next
  case (D_Text b)
  show ?case unfolding readable_def
  proof (intro allI impI)
    fix x y
    assume p: "show_tree quote (D_Text b) @ x = show_tree quote u @ y"
    obtain c where u: "u = D_Text c" using show_constructor [OF assms D_Text.prems p] by blast
    have "quote b @ x = quote c @ y" using p u by simp
    then have "b = c \<and> x = y" using assms unfolding quote_ok_def by blast
    then show "D_Text b = u \<and> x = y" using u by simp
  qed
next
  case (D_Number n)
  show ?case unfolding readable_def
  proof (intro allI impI)
    fix x y
    assume p: "show_tree quote (D_Number n) @ x = show_tree quote u @ y" "delimited x" "delimited y"
    obtain m where u: "u = D_Number m" using show_constructor [OF assms D_Number.prems p(1)] by blast
    then show "D_Number n = u \<and> x = y" using number_unique [of n x m y] p by simp
  qed
qed

subsection \<open>Types from their trees\<close>

lemma ascii_text_eq [simp]: "ascii_text a = ascii_text b \<longleftrightarrow> a = b"
proof
  assume e: "ascii_text a = ascii_text b"
  have "inj (\<lambda>c :: char. of_nat (of_char c) :: u8)"
  proof (rule injI)
    fix c d :: char
    assume "(of_nat (of_char c) :: u8) = of_nat (of_char d)"
    then have "unat (of_nat (of_char c) :: u8) = unat (of_nat (of_char d) :: u8)" by simp
    moreover have "of_char x < (256 :: nat)" for x :: char by (rule nat_of_char_less_256)
    ultimately have "of_char c = (of_char d :: nat)" by (simp add: unat_of_nat)
    then show "c = d" by simp
  qed
  then show "a = b" using e unfolding ascii_text_def by (metis inj_map_eq_map)
qed simp

lemma name_ok_ascii: "name_ok (ascii_text n) \<longleftrightarrow> n \<noteq> [] \<and> upper (of_nat (of_char (hd n))) \<and> list_all (\<lambda>c. alnum (of_nat (of_char c))) n"
  by (auto simp: name_ok_def ascii_text_def list.pred_map o_def hd_map)

lemma mask_tree_ok: "tree_ok (mask_tree m)"
  by (cases m) (auto simp: name_ok_ascii alnum_def upper_def is_ascii_digit_def list_all_iff)

lemma mask_tree_inj: "mask_tree m = mask_tree m' \<Longrightarrow> m = m'"
proof (cases m; cases m')
  fix ws vs
  assume e: "mask_tree m = mask_tree m'" "m = Extended ws" "m' = Extended vs"
  have "inj (\<lambda>w :: u64. D_Number (unat w))" by (rule injI) (simp add: word_unat_eq_iff)
  then show "m = m'" using e inj_map_eq_map [of "\<lambda>w :: u64. D_Number (unat w)" ws vs] by simp
qed (simp_all add: word_unat_eq_iff)

lemma option_tree_inj: "option_tree (map_option f r) = option_tree (map_option f r') \<Longrightarrow> (\<And>a b. r = Some a \<Longrightarrow> f a = f b \<Longrightarrow> a = b) \<Longrightarrow> r = r'"
  by (cases r; cases r') (auto simp: option_tree_def)

lemma map_inj_on_left: "map f xs = map f ys \<Longrightarrow> (\<And>x y. x \<in> set xs \<Longrightarrow> f x = f y \<Longrightarrow> x = y) \<Longrightarrow> xs = ys"
  by (rule list.inj_map_strong) auto

lemma type_tree_inj: "type_tree t = type_tree u \<Longrightarrow> t = u"
proof (induction t arbitrary: u)
  case (T_Tuple ts)
  then show ?case by (cases u) (auto intro: map_inj_on_left)
next
  case (T_Union ts)
  then show ?case by (cases u) (auto intro: map_inj_on_left)
next
  case (T_Object fs)
  obtain gs where u: "u = T_Object gs" using T_Object.prems by (cases u) simp_all
  let ?f = "\<lambda>f. D_Tuple [D_Text (fst f), type_tree (snd f)]"
  have m: "map ?f fs = map ?f gs" using T_Object.prems u by (simp add: o_def split_beta)
  have "f = g" if "f \<in> set fs" "?f f = ?f g" for f g
    using T_Object.IH [of f "snd f" "snd g"] that by (cases f) (auto intro: prod_eqI)
  then show ?case using map_inj_on_left [OF m] u by blast
next
  case (T_Function ps r)
  then show ?case by (cases u) (auto intro: map_inj_on_left)
next
  case (T_OverloadedFunction ss p)
  then show ?case by (cases u) (auto intro: map_inj_on_left)
next
  case (T_CallableFunction ps m rest r)
  obtain ps' m' rest' r' where u: "u = T_CallableFunction ps' m' rest' r'" using T_CallableFunction.prems by (cases u) simp_all
  have "ps = ps'" using T_CallableFunction u by (auto intro: map_inj_on_left)
  moreover have "m = m'" using T_CallableFunction.prems u by (auto intro: mask_tree_inj)
  moreover have "rest = rest'" using T_CallableFunction u by (auto intro!: option_tree_inj [of type_tree rest rest'])
  ultimately show ?case using T_CallableFunction u by auto
qed (case_tac u; simp)+

lemma type_tree_ok: "tree_ok (type_tree t)"
  by (induction t) (auto simp: mask_tree_ok option_tree_def name_ok_ascii alnum_def upper_def is_ascii_digit_def list_all_iff split: option.split)

lemma debug_text_inj: "quote_ok quote \<Longrightarrow> debug_text quote t = debug_text quote u \<Longrightarrow> t = u"
  using readableD [OF show_unique [OF _ type_tree_ok [of t] type_tree_ok [of u]], of quote "[]" "[]"] type_tree_inj [of t u]
  by (simp add: debug_text_def delimited_def)

subsection \<open>Tokens\<close>

lemma hex_digit_inj: "a < 16 \<Longrightarrow> b < 16 \<Longrightarrow> hex_digit a = hex_digit b \<Longrightarrow> a = b"
  by (simp add: hex_digit_def word_less_nat_alt word_unat_eq_iff unat_word_ariths split: if_splits)

lemma hex_byte_inj: "hex_byte a = hex_byte b \<Longrightarrow> a = b"
proof -
  assume e: "hex_byte a = hex_byte b"
  have r: "c div 16 < 16" "c mod 16 < 16" for c :: u8
  proof -
    have "unat c < 256" using unsigned_less [of c] by simp
    then show "c div 16 < 16" "c mod 16 < 16" by (simp_all add: word_less_nat_alt unat_div unat_mod less_mult_imp_div_less)
  qed
  have "a div 16 = b div 16" "a mod 16 = b mod 16" using e r hex_digit_inj by (auto simp: hex_byte_def)
  then show ?thesis by (metis word_mod_div_equality)
qed

lemma hex_bytes_unique: "length p = length q \<Longrightarrow> concat (map hex_byte p) @ x = concat (map hex_byte q) @ y \<Longrightarrow> p = q \<and> x = y"
proof (induction p q rule: list_induct2)
  case (Cons a p b q)
  have l: "length (hex_byte c) = 2" for c by (simp add: hex_byte_def)
  have "hex_byte a = hex_byte b \<and> concat (map hex_byte p) @ x = concat (map hex_byte q) @ y"
    using Cons.prems l by (simp add: append_eq_append_conv)
  then show ?case using Cons.IH hex_byte_inj by simp
qed simp

lemma token_part_unique:
  assumes "token_part p @ x = token_part q @ y"
  shows "p = q \<and> x = y"
proof -
  let ?h = "\<lambda>r. concat (map hex_byte r)"
  have "usize_to_string (length p) @ 0x3A # ?h p @ x = usize_to_string (length q) @ 0x3A # ?h q @ y" using assms by (simp add: token_part_def)
  then have e: "usize_to_string (length p) = usize_to_string (length q) \<and> 0x3A # ?h p @ x = 0x3A # ?h q @ y"
    using usize_to_string_digits [of "length p"] usize_to_string_digits [of "length q"]
    by (intro span_unique [where P = is_ascii_digit]) (simp_all add: is_ascii_digit_def)
  then have "length p = length q" using usize_to_string_digits [of "length p"] usize_to_string_digits [of "length q"] by metis
  then show ?thesis using hex_bytes_unique [of p q x y] e by simp
qed

lemma token_part_nonempty: "token_part p \<noteq> []"
  by (simp add: token_part_def)

text \<open>C27. Layout tokens are unambiguous: the token of one object layout is a prefix of the token of another exactly when its
  fields, names and types in order, are a prefix of the other's, so the byte comparison that the
  runtime makes decides the width relation of layouts; equal tokens mean equal layouts. This holds
  for every type, down to the names of nested fields.\<close>

theorem layout_token_prefix:
  assumes "quote_ok quote"
  shows "(\<exists>rest. native_object_layout_token quote wide = native_object_layout_token quote narrow @ rest) \<longleftrightarrow>
    (\<exists>more. wide = narrow @ more)"
proof
  assume "\<exists>rest. native_object_layout_token quote wide = native_object_layout_token quote narrow @ rest"
  then obtain rest where "native_object_layout_token quote wide = native_object_layout_token quote narrow @ rest" ..
  then show "\<exists>more. wide = narrow @ more"
  proof (induction narrow arbitrary: wide)
    case (Cons f fs)
    obtain n t where f: "f = (n, t)" by (cases f)
    have "wide \<noteq> []" using Cons.prems f by (auto simp: native_object_layout_token_def token_part_nonempty)
    then obtain m u gs where w: "wide = (m, u) # gs" by (cases wide) auto
    have "token_part m @ (token_part (debug_text quote u) @ native_object_layout_token quote gs) =
        token_part n @ (token_part (debug_text quote t) @ native_object_layout_token quote fs @ rest)"
      using Cons.prems f w by (simp add: native_object_layout_token_def)
    from token_part_unique [OF this] have a: "m = n"
      "token_part (debug_text quote u) @ native_object_layout_token quote gs = token_part (debug_text quote t) @ native_object_layout_token quote fs @ rest"
      by blast+
    from token_part_unique [OF a(2)] have b: "debug_text quote u = debug_text quote t"
      "native_object_layout_token quote gs = native_object_layout_token quote fs @ rest" by blast+
    obtain more where "gs = fs @ more" using Cons.IH [OF b(2)] by blast
    then show ?case using a(1) debug_text_inj [OF assms b(1)] f w by simp
  qed simp
next
  assume "\<exists>more. wide = narrow @ more"
  then show "\<exists>rest. native_object_layout_token quote wide = native_object_layout_token quote narrow @ rest"
    by (auto simp: native_object_layout_token_def)
qed

lemma exception_token_type:
  assumes "quote_ok quote" "native_exception_layout_token quote a = Some s" "native_exception_layout_token quote b = Some t"
  shows "s = t \<longleftrightarrow> physical_type a = physical_type b"
  using assms debug_text_inj [OF assms(1)] by (auto simp: native_exception_layout_token_def)

subsection \<open>Quoting\<close>

text \<open>The quoting of ASCII strings without control characters: quotation marks and backslashes are escaped.\<close>

definition ascii_quote :: "bytes \<Rightarrow> bytes" where
  "ascii_quote s = [0x22] @ concat (map (\<lambda>c. if c = 0x22 \<or> c = 0x5C then [0x5C, c] else [c]) s) @ [0x22]"

lemma escape_unique:
  "concat (map (\<lambda>c. if c = 0x22 \<or> c = 0x5C then [0x5C, c] else [c :: u8]) s) @ 0x22 # x =
   concat (map (\<lambda>c. if c = 0x22 \<or> c = 0x5C then [0x5C, c] else [c]) t) @ 0x22 # y \<Longrightarrow> s = t \<and> x = y"
proof (induction s arbitrary: t)
  case Nil
  then show ?case by (cases t) (auto split: if_splits)
next
  case (Cons c s)
  then show ?case by (cases t) (auto split: if_splits)
qed

lemma ascii_quote_ok: "quote_ok ascii_quote"
  unfolding quote_ok_def
proof (intro conjI allI impI)
  fix s t x y
  assume "ascii_quote s @ x = ascii_quote t @ y"
  then have "s = t \<and> x = y" using escape_unique [of s x t y] by (simp add: ascii_quote_def)
  then show "s = t" "x = y" by blast+
qed (simp add: ascii_quote_def)

theorem layout_token_prefix_witness:
  "\<not> (\<exists>rest. native_object_layout_token ascii_quote [([97], T_Nullable T_F64)] = native_object_layout_token ascii_quote [([97], T_Null)] @ rest)"
  using layout_token_prefix [OF ascii_quote_ok, of "[([97], T_Nullable T_F64)]" "[([97], T_Null)]"] by simp

end
