(* ===== verification/Hir_Compat.thy ===== *)
theory Hir_Compat
  imports Hir_Types
begin

text \<open>
  Relations between types: recursive layouts unfold completely, byte buffers compare as arrays of numbers, and a
  function value that is passed without an adapter reads its arguments at the declared offsets.
\<close>

subsection \<open>Recursive layouts\<close>

text \<open>The back-edges of a type that are reachable through value wrappers.\<close>

fun open_keys :: "hir_type \<Rightarrow> symbol set" where
  "open_keys (T_Recursive key) = {key}"
| "open_keys (T_Optional t) = open_keys t"
| "open_keys (T_Nullable t) = open_keys t"
| "open_keys (T_Nullish t) = open_keys t"
| "open_keys (T_Array t) = open_keys t"
| "open_keys (T_Promise t) = open_keys t"
| "open_keys (T_Tuple ts) = (\<Union>t \<in> set ts. open_keys t)"
| "open_keys (T_Union ts) = (\<Union>t \<in> set ts. open_keys t)"
| "open_keys _ = {}"

definition layouts_closed :: "recursive_table \<Rightarrow> bool" where
  "layouts_closed s \<longleftrightarrow> (\<forall>key layout. hm_get (rl_layouts s) key = Some layout \<longrightarrow> \<not> contains_recursive layout)"

lemma contains_open: "contains_recursive t \<longleftrightarrow> open_keys t \<noteq> {}"
  by (induction t) (auto simp: list_ex_iff)

lemma expand_id: "\<not> contains_recursive t \<Longrightarrow> expand s t = t"
  by (induction t) (auto simp: list_ex_iff intro: map_idI)

lemma expand_open:
  "layouts_closed s \<Longrightarrow> open_keys (expand s t) = {key \<in> open_keys t. hm_get (rl_layouts s) key = None}"
proof (induction t)
  case (T_Recursive key)
  then show ?case using contains_open by (cases "hm_get (rl_layouts s) key") (auto simp: layouts_closed_def)
qed auto

text \<open>Unfolding recursive class layouts is complete and stable: a type without back-edges is unchanged, unfolding removes
  every back-edge whose layout is registered and leaves exactly the others, and unfolding twice is
  unfolding once. Registering an object layout keeps the table closed.\<close>

theorem expand_complete:
  assumes "layouts_closed s"
  shows "open_keys (expand s t) = {key \<in> open_keys t. hm_get (rl_layouts s) key = None} \<and>
    (contains_recursive (expand s t) \<longleftrightarrow> (\<exists>key \<in> open_keys t. hm_get (rl_layouts s) key = None)) \<and>
    expand s (expand s t) = expand s t \<and> (\<not> contains_recursive t \<longrightarrow> expand s t = t) \<and>
    layouts_closed (register_recursive_layout key (T_Object fs) s)"
proof (intro conjI impI)
  show o1: "open_keys (expand s t) = {key \<in> open_keys t. hm_get (rl_layouts s) key = None}" by (rule expand_open [OF assms])
  then show "contains_recursive (expand s t) \<longleftrightarrow> (\<exists>key \<in> open_keys t. hm_get (rl_layouts s) key = None)" by (auto simp: contains_open)
  have "expand s u = u" if "\<forall>key \<in> open_keys u. hm_get (rl_layouts s) key = None" for u
    using that by (induction u) (auto intro: map_idI)
  then show "expand s (expand s t) = expand s t" using o1 by auto
  show "expand s t = t" if "\<not> contains_recursive t" using that by (rule expand_id)
  show "layouts_closed (register_recursive_layout key (T_Object fs) s)"
    using assms by (auto simp: layouts_closed_def register_recursive_layout_def)
qed

text \<open>A linked node: \<open>N\<close> has a field of type \<open>N | null\<close>.\<close>

theorem expand_complete_witness:
  "expand \<lparr>rl_layouts = [([78], T_Object [([110], T_Nullable (T_Recursive [78]))])], rl_keys = 1\<rparr> (T_Nullable (T_Recursive [78])) =
     T_Nullable (T_Object [([110], T_Nullable (T_Recursive [78]))]) \<and>
   \<not> contains_recursive (expand \<lparr>rl_layouts = [([78], T_Object [([110], T_Nullable (T_Recursive [78]))])], rl_keys = 1\<rparr> (T_Nullable (T_Recursive [78])))"
proof -
  let ?s = "\<lparr>rl_layouts = [([78], T_Object [([110], T_Nullable (T_Recursive [78]))])], rl_keys = 1\<rparr>"
  have "layouts_closed ?s" by (simp add: layouts_closed_def hm_get_def)
  from expand_complete [OF this, of "T_Nullable (T_Recursive [78])"] show ?thesis by (simp add: hm_get_def)
qed

subsection \<open>Byte buffers\<close>

lemma erase_idem: "erase_ty (erase_ty t) = erase_ty t"
  by (induction t) (auto simp: option.map_comp o_def intro: option.map_cong)

lemma erase_dynamic_id: "erase_dynamic_ty t = t"
  by (induction t) (auto intro!: map_idI option.map_ident_strong)

text \<open>Every byte buffer of the type is in a position that the search for byte buffers visits.\<close>

fun bytes_visible :: "hir_type \<Rightarrow> bool" where
  "bytes_visible (T_Array t) = bytes_visible t"
| "bytes_visible (T_Optional t) = bytes_visible t"
| "bytes_visible (T_Nullable t) = bytes_visible t"
| "bytes_visible (T_Nullish t) = bytes_visible t"
| "bytes_visible (T_Set t) = bytes_visible t"
| "bytes_visible (T_Promise t) = bytes_visible t"
| "bytes_visible (T_Dictionary t) = bytes_visible t"
| "bytes_visible (T_Map k v) = (bytes_visible k \<and> bytes_visible v)"
| "bytes_visible (T_Tuple ts) = list_all bytes_visible ts"
| "bytes_visible (T_Union ts) = list_all bytes_visible ts"
| "bytes_visible (T_Object fs) = list_all (\<lambda>f. bytes_visible (snd f)) fs"
| "bytes_visible T_Bytes = True"
| "bytes_visible t = (erase_ty t = t)"

lemma erase_visible_id: "bytes_visible t \<Longrightarrow> \<not> type_contains_bytes t \<Longrightarrow> erase_ty t = t"
proof (induction t)
  case (T_Object fs)
  have "map_prod id erase_ty f = f" if f: "f \<in> set fs" for f
  proof -
    have "bytes_visible (snd f)" "\<not> type_contains_bytes (snd f)" using T_Object.prems f by (auto simp: list_all_iff list_ex_iff)
    then have "erase_ty (snd f) = snd f" using T_Object.IH [OF f, of "snd f"] by (cases f) simp
    then show ?thesis by (cases f) simp
  qed
  then show ?case by (simp add: map_idI)
qed (auto simp: list_all_iff list_ex_iff intro!: map_idI)

text \<open>Layout equality of types with byte buffers is equality after erasing them to arrays of numbers, for types whose
  byte buffers are outside function signatures and weak collections; there it is an equivalence
  relation. Erasing twice is erasing once, and the erasure of dynamic signatures changes nothing.\<close>

theorem bytes_layout_exact:
  assumes "bytes_visible a" "bytes_visible b"
  shows "bytes_layout_eq a b \<longleftrightarrow> erase_ty a = erase_ty b"
proof
  assume "erase_ty a = erase_ty b"
  then show "bytes_layout_eq a b" using erase_visible_id [OF assms(1)] erase_visible_id [OF assms(2)] by (auto simp: bytes_layout_eq_def)
qed (auto simp: bytes_layout_eq_def)

theorem bytes_layout_exact_witness:
  "bytes_layout_eq (T_Tuple [T_Bytes, T_Array T_F64]) (T_Tuple [T_Array T_F64, T_Bytes]) \<and> \<not> bytes_layout_eq T_Bytes (T_Array T_Str)"
  using bytes_layout_exact [of "T_Tuple [T_Bytes, T_Array T_F64]" "T_Tuple [T_Array T_F64, T_Bytes]"]
    bytes_layout_exact [of T_Bytes "T_Array T_Str"] by simp

text \<open>Inside a weak collection or a signature the search does not look: equal after erasure, yet not layout-equal, and not
  even transitively.\<close>

lemma bytes_layout_hidden:
  "erase_ty (T_WeakSet T_Bytes) = erase_ty (T_WeakSet (T_Array T_F64)) \<and> \<not> bytes_layout_eq (T_WeakSet T_Bytes) (T_WeakSet (T_Array T_F64)) \<and>
   bytes_layout_eq (T_Tuple [T_Array T_F64, T_WeakSet T_Bytes]) (T_Tuple [T_Bytes, T_WeakSet T_Bytes]) \<and>
   bytes_layout_eq (T_Tuple [T_Bytes, T_WeakSet T_Bytes]) (T_Tuple [T_Array T_F64, T_WeakSet (T_Array T_F64)]) \<and>
   \<not> bytes_layout_eq (T_Tuple [T_Array T_F64, T_WeakSet T_Bytes]) (T_Tuple [T_Array T_F64, T_WeakSet (T_Array T_F64)])"
  by (simp add: bytes_layout_eq_def)

subsection \<open>Callables\<close>

text \<open>The position of a field is its offset; a reader of a narrower object finds its fields at the same positions.\<close>

definition field_at :: "(symbol \<times> hir_type) list \<Rightarrow> symbol \<Rightarrow> nat option" where
  "field_at fs name = map_option fst (find (\<lambda>p. fst (snd p) = name) (enumerate 0 fs))"

lemma compatible_refl: "callback_param_compatible t t"
  by (subst callback_param_compatible.simps) simp

lemma compatible_object:
  "callback_param_compatible (T_Object es) (T_Object as) \<longleftrightarrow>
   length as \<le> length es \<and> (\<forall>i < length as. fst (as ! i) = fst (es ! i) \<and> callback_param_compatible (snd (es ! i)) (snd (as ! i)))"
proof -
  have e: "callback_param_compatible (T_Object es) (T_Object as) \<longleftrightarrow>
      es = as \<or> (length as \<le> length es \<and>
        list_all (\<lambda>p. fst (fst p) = fst (snd p) \<and> callback_param_compatible (snd (snd p)) (snd (fst p))) (zip as es))"
    by (subst callback_param_compatible.simps) (simp add: caught_exception_carrier_type_def)
  show ?thesis unfolding e by (auto simp: list_all_length compatible_refl)
qed

lemma find_enumerate_prefix:
  "find (\<lambda>p. fst (snd p) = name) (enumerate n as) = Some (i, f) \<Longrightarrow> length as \<le> length es \<Longrightarrow>
   (\<And>j. j < length as \<Longrightarrow> fst (as ! j) = fst (es ! j)) \<Longrightarrow>
   find (\<lambda>p. fst (snd p) = name) (enumerate n es) = Some (i, es ! (i - n)) \<and> n \<le> i"
proof (induction as arbitrary: n es)
  case (Cons a as)
  obtain e es' where es: "es = e # es'" using Cons.prems(2) by (cases es) auto
  have h: "fst a = fst e" using Cons.prems(3) [of 0] es by simp
  show ?case
  proof (cases "fst a = name")
    case True
    then show ?thesis using Cons.prems(1) es h by simp
  next
    case False
    have "find (\<lambda>p. fst (snd p) = name) (enumerate (Suc n) es') = Some (i, es' ! (i - Suc n)) \<and> Suc n \<le> i"
    proof (rule Cons.IH)
      show "find (\<lambda>p. fst (snd p) = name) (enumerate (Suc n) as) = Some (i, f)" using Cons.prems(1) False by simp
      show "length as \<le> length es'" using Cons.prems(2) es by simp
      show "fst (as ! j) = fst (es' ! j)" if "j < length as" for j using Cons.prems(3) [of "Suc j"] that es by simp
    qed
    then show ?thesis using False h es by (auto simp: nth_Cons')
  qed
qed simp

lemma field_at_prefix:
  assumes "callback_param_compatible (T_Object es) (T_Object as)" "field_at as name = Some i"
  shows "field_at es name = Some i"
proof -
  obtain f where "find (\<lambda>p. fst (snd p) = name) (enumerate 0 as) = Some (i, f)" using assms(2) by (auto simp: field_at_def)
  then show ?thesis using find_enumerate_prefix [of name 0 as i f es] assms(1) by (auto simp: compatible_object field_at_def)
qed

lemma abi_param_compatible: "abi_param_ok d a \<Longrightarrow> callback_param_compatible d a"
  by (cases d; cases a) (auto simp: abi_param_ok_def compatible_refl compatible_object list_all_length split_beta)

lemma abi_param_prefix: "abi_param_ok d a \<Longrightarrow> d = a \<or> (\<exists>ds k. d = T_Object ds \<and> a = T_Object (take k ds))"
proof -
  assume ok: "abi_param_ok d a"
  show ?thesis
  proof (cases "d = a")
    case False
    then obtain ds as where o: "d = T_Object ds" "a = T_Object as" "length as \<le> length ds"
      "\<forall>i < length as. fst (as ! i) = fst (ds ! i) \<and> snd (as ! i) = snd (ds ! i)"
      using ok by (cases d; cases a) (auto simp: abi_param_ok_def list_all_length split_beta)
    then have "as = take (length as) ds" by (intro nth_equalityI) (auto simp: prod_eq_iff)
    then show ?thesis using o by blast
  qed simp
qed

text \<open>Passing a function where another type is declared is sound for layouts. Without an adapter the parameters agree in
  number and each is the declared type or an object with a leading part of the declared fields, so
  every such pair is also accepted by the general check; and wherever the general check accepts an
  object parameter, each field the callback names is at the position where the caller put it.\<close>

theorem callable_layout_sound:
  assumes "callable_abi_compatible declared actual"
  shows "callable_value_compatible declared actual \<and>
    (\<exists>dps dr aps ar. declared = T_Function dps dr \<and> actual = T_Function aps ar \<and> length dps = length aps \<and>
      (\<forall>i < length aps. dps ! i = aps ! i \<or> (\<exists>ds k. dps ! i = T_Object ds \<and> aps ! i = T_Object (take k ds)))) \<and>
    (\<forall>es as name k. callback_param_compatible (T_Object es) (T_Object as) \<longrightarrow> field_at as name = Some k \<longrightarrow> field_at es name = Some k)"
proof -
  obtain dps dr aps ar where f: "declared = T_Function dps dr" "actual = T_Function aps ar" "length dps = length aps" "dr = ar \<or> dr = T_Void"
    and p: "\<And>i. i < length aps \<Longrightarrow> abi_param_ok (dps ! i) (aps ! i)"
    using assms by (cases declared; cases actual) (auto simp: callable_abi_compatible_def list_all_length split_beta)
  have "callable_value_compatible declared actual"
    using f p abi_param_compatible
    by (auto simp: callable_value_compatible_def callable_return_compatible_def params_compatible_def list_all_length)
  moreover have "dps ! i = aps ! i \<or> (\<exists>ds k. dps ! i = T_Object ds \<and> aps ! i = T_Object (take k ds))" if "i < length aps" for i
    by (rule abi_param_prefix [OF p [OF that]])
  ultimately show ?thesis using f field_at_prefix by blast
qed

theorem callable_layout_sound_witness:
  "callable_value_compatible (T_Function [T_Object [([97], T_F64), ([98], T_Str)]] T_Void) (T_Function [T_Object [([97], T_F64)]] T_Bool)"
proof -
  have "callable_abi_compatible (T_Function [T_Object [([97], T_F64), ([98], T_Str)]] T_Void) (T_Function [T_Object [([97], T_F64)]] T_Bool)"
    by (simp add: callable_abi_compatible_def abi_param_ok_def)
  then show ?thesis using callable_layout_sound by blast
qed

end
