(* ===== verification/Hir_Layout.thy ===== *)
theory Hir_Layout
  imports Hir_Compat
begin

text \<open>
  The physical layout that the code generator gives to native values, \<open>crates/thaw-llvm/src/hir_codegen.rs\<close>: sizes
  and alignments of values, the stride of an arena slot, field and element offsets, with overflow and
  unsupported types as errors. Fields do not overlap and stay inside the object, and the relations
  of \<open>Hir_Compat\<close> that promise equal offsets keep them.
\<close>

datatype layout_error = Size_overflow | Unsupported_type hir_type

type_synonym 'a layout_result = "layout_error + 'a"

definition and_then :: "'a layout_result \<Rightarrow> ('a \<Rightarrow> 'b layout_result) \<Rightarrow> 'b layout_result" where
  "and_then r f = (case r of Inl e \<Rightarrow> Inl e | Inr x \<Rightarrow> f x)"

lemma and_then_Inr [simp]: "and_then r f = Inr y \<longleftrightarrow> (\<exists>x. r = Inr x \<and> f x = Inr y)"
  by (cases r) (simp_all add: and_then_def)

lemma and_then_simps [simp]: "and_then (Inr x) f = f x" "and_then (Inl e) f = Inl e"
  by (simp_all add: and_then_def)

definition ARRAY_HEADER_BYTES :: nat where "ARRAY_HEADER_BYTES = 8"
definition ARRAY_ELEM_BYTES :: nat where "ARRAY_ELEM_BYTES = 8"

definition storage_limit :: nat where "storage_limit = 2 ^ 63 - 1"

text \<open>\<open>u64::checked_add\<close> and \<open>checked_mul\<close>, then the bound \<open>isize::MAX\<close>.\<close>

definition checked_storage_add :: "nat \<Rightarrow> nat \<Rightarrow> nat layout_result" where
  "checked_storage_add left right =
     (case checked_add left right of Some n \<Rightarrow> if n \<le> storage_limit then Inr n else Inl Size_overflow | None \<Rightarrow> Inl Size_overflow)"

definition checked_storage_mul :: "nat \<Rightarrow> nat \<Rightarrow> nat layout_result" where
  "checked_storage_mul left right =
     (if left * right < usize_limit \<and> left * right \<le> storage_limit then Inr (left * right) else Inl Size_overflow)"

definition checked_array_offset :: "nat \<Rightarrow> nat \<Rightarrow> nat layout_result" where
  "checked_array_offset stride index = and_then (checked_storage_mul stride index) (checked_storage_add ARRAY_HEADER_BYTES)"

definition align_storage :: "nat \<Rightarrow> nat \<Rightarrow> nat layout_result" where
  "align_storage sz align =
     and_then (checked_storage_add sz (align - 1)) (\<lambda>v. Inr (unat ((word_of_nat v :: u64) AND NOT (word_of_nat (align - 1)))))"

primrec raw_value_layout :: "hir_type \<Rightarrow> (nat \<times> nat) layout_result" where
  "raw_value_layout T_Bool = Inr (1, 1)" | "raw_value_layout T_Undefined = Inr (1, 1)" | "raw_value_layout T_Null = Inr (1, 1)"
| "raw_value_layout T_Void = Inr (4, 4)"
| "raw_value_layout T_F64 = Inr (8, 8)" | "raw_value_layout T_I64 = Inr (8, 8)" | "raw_value_layout T_BigInt = Inr (8, 8)"
| "raw_value_layout T_Str = Inr (8, 8)" | "raw_value_layout T_Symbol = Inr (8, 8)" | "raw_value_layout (T_StrLiteral _) = Inr (8, 8)"
| "raw_value_layout T_Json = Inr (8, 8)" | "raw_value_layout (T_Dictionary _) = Inr (8, 8)" | "raw_value_layout T_JsValue = Inr (8, 8)"
| "raw_value_layout (T_Promise _) = Inr (8, 8)" | "raw_value_layout (T_Array _) = Inr (8, 8)" | "raw_value_layout T_Bytes = Inr (8, 8)"
| "raw_value_layout (T_Map _ _) = Inr (8, 8)" | "raw_value_layout (T_WeakMap _ _) = Inr (8, 8)" | "raw_value_layout (T_Set _) = Inr (8, 8)"
| "raw_value_layout (T_WeakSet _) = Inr (8, 8)" | "raw_value_layout (T_Tuple _) = Inr (8, 8)" | "raw_value_layout (T_Object _) = Inr (8, 8)"
| "raw_value_layout (T_Recursive _) = Inr (8, 8)" | "raw_value_layout (T_Function _ _) = Inr (8, 8)"
| "raw_value_layout (T_CallableFunction _ _ _ _) = Inr (8, 8)" | "raw_value_layout T_NativeException = Inr (8, 8)"
| "raw_value_layout (T_NonArrowReceiver _) = Inr (8, 8)" | "raw_value_layout (T_FunctionWithThis _ _) = Inr (8, 8)"
| "raw_value_layout (T_OverloadedFunction _ physical) = raw_value_layout physical"
| "raw_value_layout (T_Union members) = (if members \<noteq> [] then Inr (16, 8) else Inl (Unsupported_type (T_Union members)))"
| "raw_value_layout (T_Optional payload) = and_then (raw_value_layout payload) (\<lambda>(payload_size, payload_align).
     and_then (align_storage 1 payload_align) (\<lambda>start.
     and_then (checked_storage_add start payload_size) (\<lambda>sz.
     and_then (align_storage sz payload_align) (\<lambda>aligned. Inr (aligned, payload_align)))))"
| "raw_value_layout (T_Nullable payload) = and_then (raw_value_layout payload) (\<lambda>(payload_size, payload_align).
     and_then (align_storage 1 payload_align) (\<lambda>start.
     and_then (checked_storage_add start payload_size) (\<lambda>sz.
     and_then (align_storage sz payload_align) (\<lambda>aligned. Inr (aligned, payload_align)))))"
| "raw_value_layout (T_Nullish payload) = and_then (raw_value_layout payload) (\<lambda>(payload_size, payload_align).
     and_then (align_storage 1 payload_align) (\<lambda>start.
     and_then (checked_storage_add start payload_size) (\<lambda>sz.
     and_then (align_storage sz payload_align) (\<lambda>aligned. Inr (aligned, payload_align)))))"
| "raw_value_layout T_Dynamic = Inl (Unsupported_type T_Dynamic)"

definition arena_storage_bytes :: "hir_type \<Rightarrow> nat layout_result" where
  "arena_storage_bytes ty =
     (let legacy = (case ty of T_Optional _ \<Rightarrow> 16 | T_Nullable _ \<Rightarrow> 16 | T_Nullish _ \<Rightarrow> 16 | T_Union _ \<Rightarrow> 16 | _ \<Rightarrow> 8)
      in and_then (raw_value_layout ty) (\<lambda>(sz, _). and_then (align_storage sz 8) (\<lambda>aligned. Inr (max legacy aligned))))"

definition object_field_storage_bytes :: "hir_type \<Rightarrow> nat layout_result" where
  "object_field_storage_bytes ty = arena_storage_bytes ty"

definition array_element_storage_bytes :: "hir_type \<Rightarrow> nat layout_result" where
  "array_element_storage_bytes ty = arena_storage_bytes ty"

definition tuple_element_storage_bytes :: "hir_type list \<Rightarrow> nat layout_result" where
  "tuple_element_storage_bytes elements =
     fold (\<lambda>element r. and_then r (\<lambda>max_width. and_then (array_element_storage_bytes element) (\<lambda>w. Inr (max max_width w)))) elements
       (Inr ARRAY_ELEM_BYTES)"

definition object_field_offset :: "(symbol \<times> hir_type) list \<Rightarrow> nat \<Rightarrow> nat layout_result" where
  "object_field_offset fs index =
     fold (\<lambda>f r. and_then r (\<lambda>offset. and_then (object_field_storage_bytes (snd f)) (checked_storage_add offset))) (take index fs) (Inr 0)"

definition object_storage_bytes :: "(symbol \<times> hir_type) list \<Rightarrow> nat layout_result" where
  "object_storage_bytes fs = object_field_offset fs (length fs)"

subsection \<open>Alignment\<close>

lemma checked_storage_add_Inr: "checked_storage_add a b = Inr n \<longleftrightarrow> n = a + b \<and> n \<le> storage_limit"
  by (auto simp: checked_storage_add_def checked_add_def storage_limit_def usize_limit_def)

lemma word_align: "(w :: u64) AND NOT (mask n) = push_bit n (drop_bit n w)"
  by (rule bit_word_eqI) (auto simp: bit_simps)

lemma align_storage_Inr:
  assumes "align_storage sz (2 ^ k) = Inr n" "k < 64"
  shows "n = (sz + (2 ^ k - 1)) div 2 ^ k * 2 ^ k \<and> sz + (2 ^ k - 1) \<le> storage_limit"
proof -
  have b: "sz + (2 ^ k - 1) \<le> storage_limit" and n: "n = unat ((word_of_nat (sz + (2 ^ k - 1)) :: u64) AND NOT (word_of_nat (2 ^ k - 1)))"
    using assms by (auto simp: align_storage_def checked_storage_add_Inr)
  let ?v = "sz + (2 ^ k - 1)"
  have lim: "?v < 2 ^ 64" using b by (simp add: storage_limit_def)
  have m: "word_of_nat (2 ^ k - 1) = (mask k :: u64)" by (simp add: mask_eq_exp_minus_1 of_nat_diff)
  have v: "unat (word_of_nat ?v :: u64) = ?v" using lim by (simp add: unat_of_nat)
  have "unat (push_bit k (drop_bit k (word_of_nat ?v :: u64))) = ?v div 2 ^ k * 2 ^ k"
  proof -
    have d: "unat (drop_bit k (word_of_nat ?v :: u64)) = ?v div 2 ^ k" by (simp only: unat_drop_bit_eq v) (simp only: drop_bit_eq_div)
    have "2 ^ k * (?v div 2 ^ k) \<le> ?v" by (rule times_div_less_eq_dividend)
    then have "2 ^ k * (?v div 2 ^ k) < 2 ^ 64" using lim by (rule le_less_trans)
    moreover have "unat ((2 :: u64) ^ k) = 2 ^ k"
    proof -
      have "(2 :: u64) ^ k = word_of_nat (2 ^ k)" by simp
      moreover have "(2 :: nat) ^ k < 2 ^ 64" using assms(2) by (rule power_strict_increasing) simp
      ultimately show ?thesis by (simp only: unat_of_nat len_num1 len_bit0 mod_less) simp
    qed
    ultimately show ?thesis using d by (simp add: push_bit_eq_mult unat_word_ariths mult.commute)
  qed
  then show ?thesis using n b by (simp only: m word_align)
qed

text \<open>Sizes of values are at least one byte, alignments are 1, 4 or 8.\<close>

lemma align_at_least: "align_storage sz (2 ^ k) = Inr n \<Longrightarrow> k < 64 \<Longrightarrow> sz \<le> n \<and> 2 ^ k dvd n"
proof -
  assume "align_storage sz (2 ^ k) = Inr n" "k < 64"
  then have n: "n = (sz + (2 ^ k - 1)) div 2 ^ k * 2 ^ k" using align_storage_Inr by blast
  have "sz + (2 ^ k - 1) = (sz + (2 ^ k - 1)) div 2 ^ k * 2 ^ k + (sz + (2 ^ k - 1)) mod 2 ^ k" by (simp add: div_mult_mod_eq)
  moreover have "(sz + (2 ^ k - 1)) mod 2 ^ k \<le> 2 ^ k - 1"
  proof -
    have "(sz + (2 ^ k - 1)) mod 2 ^ k < 2 ^ k" by (rule mod_less_divisor) simp
    then show ?thesis by linarith
  qed
  ultimately have "sz \<le> n" using n by linarith
  then show ?thesis using n by simp
qed

lemma storage_bytes_shape:
  assumes "object_field_storage_bytes ty = Inr w"
  shows "8 \<le> w \<and> 8 dvd w \<and> (\<exists>sz align. raw_value_layout ty = Inr (sz, align) \<and> sz \<le> w)"
proof -
  obtain sz align aligned where r: "raw_value_layout ty = Inr (sz, align)" and a: "align_storage sz 8 = Inr aligned"
    and w: "w = max (case ty of T_Optional _ \<Rightarrow> 16 | T_Nullable _ \<Rightarrow> 16 | T_Nullish _ \<Rightarrow> 16 | T_Union _ \<Rightarrow> 16 | _ \<Rightarrow> 8) aligned"
    using assms by (auto simp: object_field_storage_bytes_def arena_storage_bytes_def Let_def split_beta)
  have al: "sz \<le> aligned" "8 dvd aligned" using align_at_least [of sz 3 aligned] a by simp_all
  have "8 dvd w" "8 \<le> w" "aligned \<le> w" using al(2) by (simp_all add: w max_def split: hir_type.split)
  then show ?thesis using r al(1) by (auto intro: order_trans)
qed

subsection \<open>Objects\<close>

lemma offset_step:
  "i < length fs \<Longrightarrow> object_field_offset fs (Suc i) =
     and_then (object_field_offset fs i) (\<lambda>o'. and_then (object_field_storage_bytes (snd (fs ! i))) (checked_storage_add o'))"
  by (simp add: object_field_offset_def take_Suc_conv_app_nth)

lemma offset_prefix: "object_field_offset (fs @ gs) i = object_field_offset fs i" if "i \<le> length fs"
  using that by (simp add: object_field_offset_def)

lemma offset_dvd: "object_field_offset fs n = Inr s \<Longrightarrow> n \<le> length fs \<Longrightarrow> 8 dvd s"
proof (induction n arbitrary: s)
  case (Suc n)
  then obtain s' w where "object_field_offset fs n = Inr s'" "object_field_storage_bytes (snd (fs ! n)) = Inr w" "s = s' + w"
    using offset_step [of n fs] by (auto simp: checked_storage_add_Inr)
  then show ?case using Suc storage_bytes_shape by auto
qed (simp add: object_field_offset_def)

lemma offset_defined:
  assumes "object_field_offset fs n = Inr e" "n \<le> length fs" "i \<le> n"
  shows "\<exists>s. object_field_offset fs i = Inr s \<and> s \<le> e \<and> e \<le> storage_limit \<and> 8 dvd s"
  using assms
proof (induction n arbitrary: e)
  case 0
  then show ?case by (simp add: object_field_offset_def)
next
  case (Suc n)
  then obtain s w where s: "object_field_offset fs n = Inr s" "object_field_storage_bytes (snd (fs ! n)) = Inr w" "e = s + w" "e \<le> storage_limit"
    using offset_step [of n fs] by (auto simp: checked_storage_add_Inr)
  have ds: "8 dvd s" using offset_dvd [OF s(1)] Suc.prems(2) by simp
  show ?case
  proof (cases "i = Suc n")
    case True
    then show ?thesis using Suc.prems(1) s ds storage_bytes_shape [OF s(2)] by auto
  next
    case False
    then show ?thesis using Suc.IH [OF s(1), of] Suc.prems(2,3) s by fastforce
  qed
qed

text \<open>C28. The layout of a native object is sound: when its size is computed without overflow, every field has an offset, a
  multiple of 8, and at least the bytes its value needs, the fields lie one after another without
  overlap and inside the object, and the size fits \<open>isize\<close>.\<close>

theorem object_layout_sound:
  assumes "object_storage_bytes fs = Inr total_bytes" "i < length fs"
  shows "total_bytes \<le> 2 ^ 63 - 1 \<and>
    (\<exists>s w sz align. object_field_offset fs i = Inr s \<and> object_field_storage_bytes (snd (fs ! i)) = Inr w \<and>
       raw_value_layout (snd (fs ! i)) = Inr (sz, align) \<and> sz \<le> w \<and> 8 dvd s \<and> 8 \<le> w \<and> 8 dvd w \<and> s + w \<le> total_bytes \<and>
       (\<forall>j. i < j \<longrightarrow> j < length fs \<longrightarrow> (\<exists>s'. object_field_offset fs j = Inr s' \<and> s + w \<le> s')))"
proof -
  have all: "object_field_offset fs (length fs) = Inr total_bytes" using assms(1) by (simp add: object_storage_bytes_def)
  obtain e where e: "object_field_offset fs (Suc i) = Inr e" "e \<le> total_bytes" "total_bytes \<le> storage_limit"
    using offset_defined [OF all order_refl, of "Suc i"] assms(2) by auto
  then obtain s w where s: "object_field_offset fs i = Inr s" "object_field_storage_bytes (snd (fs ! i)) = Inr w" "e = s + w"
    using offset_step [OF assms(2)] by (auto simp: checked_storage_add_Inr)
  have d: "8 dvd s" using offset_defined [OF all order_refl, of i] assms(2) s(1) by auto
  have "\<exists>s'. object_field_offset fs j = Inr s' \<and> s + w \<le> s'" if j: "i < j" "j < length fs" for j
  proof -
    obtain s' where s': "object_field_offset fs j = Inr s'" using offset_defined [OF all order_refl, of j] j by auto
    then show ?thesis using offset_defined [OF s', of "Suc i"] j e(1) s(3) by auto
  qed
  then show ?thesis using storage_bytes_shape [OF s(2)] s d e by (auto simp: storage_limit_def)
qed

theorem object_layout_sound_witness:
  "object_storage_bytes [([97], T_Bool), ([98], T_Optional T_F64), ([99], T_Str)] = Inr 32 \<and>
   (\<exists>s w. object_field_offset [([97], T_Bool), ([98], T_Optional T_F64), ([99], T_Str)] 1 = Inr s \<and> 8 dvd s \<and> 8 \<le> w \<and> s + w \<le> 32 \<and>
     (\<exists>s'. object_field_offset [([97], T_Bool), ([98], T_Optional T_F64), ([99], T_Str)] 2 = Inr s' \<and> s + w \<le> s'))"
proof -
  let ?fs = "[([97], T_Bool), ([98], T_Optional T_F64), ([99], T_Str)] :: (symbol \<times> hir_type) list"
  have e: "object_storage_bytes ?fs = Inr 32"
    by (simp add: object_storage_bytes_def object_field_offset_def object_field_storage_bytes_def arena_storage_bytes_def align_storage_def
        checked_storage_add_def checked_add_def storage_limit_def usize_limit_def)
  have "1 < length ?fs" by simp
  from object_layout_sound [OF e this] obtain s w where s: "object_field_offset ?fs 1 = Inr s" "8 dvd s" "8 \<le> w" "s + w \<le> 32"
    and n: "\<forall>j. 1 < j \<longrightarrow> j < length ?fs \<longrightarrow> (\<exists>s'. object_field_offset ?fs j = Inr s' \<and> s + w \<le> s')" by blast
  have "\<exists>s'. object_field_offset ?fs 2 = Inr s' \<and> s + w \<le> s'" using n [rule_format, of 2] by simp
  then show ?thesis using e s by blast
qed

subsection \<open>Narrower views of an object\<close>

text \<open>C29. A narrower view reads the fields of an object where they are. A parameter that is passed without an adapter names a
  leading part of the declared fields, and every field it names has the declared offset; an instance
  of a subclass used as its base class has every base field at the base offset, provided the identity
  markers are equally wide.\<close>

theorem narrow_view_offsets:
  assumes "abi_param_ok (T_Object ds) (T_Object as) \<or>
    class_identity_subtype (T_Object as) (T_Object ds) \<and> object_field_storage_bytes (snd (hd as)) = object_field_storage_bytes (snd (hd ds))"
    and "i \<le> length as"
  shows "object_field_offset as i = object_field_offset ds i \<and> (0 < i \<and> i < length as \<longrightarrow> as ! i = ds ! i)"
  using assms(1)
proof
  assume "abi_param_ok (T_Object ds) (T_Object as)"
  then have "ds = as \<or> (\<exists>k. as = take k ds)" using abi_param_prefix [of "T_Object ds" "T_Object as"] by auto
  then obtain k where k: "as = take k ds" by (metis order_refl take_all)
  then have "object_field_offset as i = object_field_offset ds i" using assms(2) by (simp add: object_field_offset_def min_absorb1)
  then show ?thesis using k by auto
next
  assume c: "class_identity_subtype (T_Object as) (T_Object ds) \<and> object_field_storage_bytes (snd (hd as)) = object_field_storage_bytes (snd (hd ds))"
  then have ne: "as \<noteq> []" "ds \<noteq> []" "length as \<le> length ds"
    by (auto simp: class_identity_subtype_def class_identity_def split: list.splits option.splits)
  have tail: "as ! j = ds ! j" if "0 < j" "j < length as" for j
  proof -
    have "list_all (\<lambda>(e, a). e = a) (zip (drop 1 as) (drop 1 ds))" using c by (auto simp: class_identity_subtype_def split: option.splits)
    then have "\<forall>n < length as - 1. as ! Suc n = ds ! Suc n" using ne(3) by (auto simp: list_all_length)
    then show ?thesis using that by (cases j) auto
  qed
  have "object_field_offset as n = object_field_offset ds n" if "n \<le> length as" for n
    using that
  proof (induction n)
    case 0
    then show ?case by (simp add: object_field_offset_def)
  next
    case (Suc n)
    have "object_field_storage_bytes (snd (as ! n)) = object_field_storage_bytes (snd (ds ! n))"
      using tail [of n] c Suc.prems ne by (cases n) (auto simp: hd_conv_nth)
    then show ?case using Suc offset_step [of n as] offset_step [of n ds] ne(3) by simp
  qed
  then show ?thesis using assms(2) tail by simp
qed

theorem narrow_view_offsets_witness:
  "object_field_offset [([97], T_F64)] 1 = object_field_offset [([97], T_F64), ([98], T_Str)] 1"
proof -
  have "abi_param_ok (T_Object [([97], T_F64), ([98], T_Str)]) (T_Object [([97], T_F64)])" by (simp add: abi_param_ok_def)
  then show ?thesis using narrow_view_offsets [of "[([97], T_F64), ([98], T_Str)]" "[([97], T_F64)]" 1] by simp
qed

text \<open>The check of callback parameters also accepts a field that is optional on the side of the caller only. The field
  after it is then read at another offset than the one it was written to.\<close>

lemma callback_offsets_differ:
  "callback_param_compatible (T_Object [([97], T_Optional T_Json), ([98], T_F64)]) (T_Object [([97], T_Json), ([98], T_F64)]) \<and>
   object_field_offset [([97], T_Optional T_Json), ([98], T_F64)] 1 = Inr 16 \<and> object_field_offset [([97], T_Json), ([98], T_F64)] 1 = Inr 8"
proof -
  have o: "callback_param_compatible (T_Optional T_Json) T_Json"
    by (subst callback_param_compatible.simps) (simp add: compatible_refl)
  have "callback_param_compatible (T_Object [([97], T_Optional T_Json), ([98], T_F64)]) (T_Object [([97], T_Json), ([98], T_F64)])"
    by (auto simp: compatible_object less_Suc_eq compatible_refl o)
  moreover have "object_field_offset [([97], T_Optional T_Json), ([98], T_F64)] 1 = Inr 16" "object_field_offset [([97], T_Json), ([98], T_F64)] 1 = Inr 8"
    by (simp_all add: object_field_offset_def object_field_storage_bytes_def arena_storage_bytes_def align_storage_def
        checked_storage_add_def checked_add_def storage_limit_def usize_limit_def)
  ultimately show ?thesis by simp
qed

end
