(* ===== verification/F64_Bits.thy ===== *)
theory F64_Bits
  imports Map_Table Complex_Main
begin

text \<open>
  Numbers of the program are \<open>f64\<close> values, kept as bit patterns. This theory has the operations of the standard library
  that the value libraries use on them: classification, truncation, the fractional sign, and the
  conversions to and from machine integers.
\<close>

definition f64_negative :: "u64 \<Rightarrow> bool" where
  "f64_negative x \<longleftrightarrow> bit x 63"

definition f64_exponent :: "u64 \<Rightarrow> nat" where
  "f64_exponent x = unat (drop_bit 52 x AND 0x7ff)"

definition f64_fraction :: "u64 \<Rightarrow> nat" where
  "f64_fraction x = unat (x AND 0xfffffffffffff)"

definition f64_is_finite :: "u64 \<Rightarrow> bool" where
  "f64_is_finite x \<longleftrightarrow> f64_exponent x \<noteq> 0x7ff"

definition f64_is_infinite :: "u64 \<Rightarrow> bool" where
  "f64_is_infinite x \<longleftrightarrow> f64_exponent x = 0x7ff \<and> f64_fraction x = 0"

text \<open>A finite number is its significand times \<open>2 ^ (f64_power x - 1075)\<close>, negated by the sign bit.\<close>

definition f64_significand :: "u64 \<Rightarrow> nat" where
  "f64_significand x = (if f64_exponent x = 0 then f64_fraction x else 2 ^ 52 + f64_fraction x)"

definition f64_power :: "u64 \<Rightarrow> nat" where
  "f64_power x = max 1 (f64_exponent x)"

definition f64_value :: "u64 \<Rightarrow> real" where
  "f64_value x = (if f64_negative x then -1 else 1) * (of_nat (f64_significand x) * 2 ^ f64_power x / 2 ^ 1075)"

text \<open>The integer part, towards zero.\<close>

definition f64_magnitude :: "u64 \<Rightarrow> nat" where
  "f64_magnitude x = f64_significand x * 2 ^ f64_power x div 2 ^ 1075"

definition f64_int :: "u64 \<Rightarrow> int" where
  "f64_int x = (if f64_negative x then - int (f64_magnitude x) else int (f64_magnitude x))"

text \<open>\<open>f64::trunc\<close> clears the bits of the fraction.\<close>

definition f64_trunc :: "u64 \<Rightarrow> u64" where
  "f64_trunc x =
     (if f64_exponent x < 1023 then x AND 0x8000000000000000
      else if f64_exponent x < 1075 then x AND NOT (mask (1075 - f64_exponent x))
      else x)"

text \<open>The sign of \<open>x - x.trunc()\<close>, a difference that is exact.\<close>

definition f64_fract_sign :: "u64 \<Rightarrow> int" where
  "f64_fract_sign x = (if f64_trunc x = x then 0 else if f64_negative x then -1 else 1)"

text \<open>\<open>x as u64\<close> and \<open>x as u32\<close> saturate; a NaN gives 0.\<close>

definition f64_to_uint :: "nat \<Rightarrow> u64 \<Rightarrow> nat" where
  "f64_to_uint width x =
     (if f64_is_nan x \<or> f64_negative x then 0
      else if f64_is_infinite x then 2 ^ width - 1
      else min (f64_magnitude x) (2 ^ width - 1))"

fun nat_bits :: "nat \<Rightarrow> nat" where
  "nat_bits n = (if n = 0 then 0 else Suc (nat_bits (n div 2)))"

declare nat_bits.simps [simp del]

text \<open>Rounding to nearest, ties to even: of a quotient to a natural number, and of the magnitude \<open>m / d\<close> to a number. The
  significand has 53 bits; \<open>p\<close> is the exponent field, 1 for numbers below the normal range; too large a
  result is an infinity.\<close>

definition round_div :: "nat \<Rightarrow> nat \<Rightarrow> nat" where
  "round_div a b = (let q = a div b; r = a mod b in if 2 * r > b \<or> 2 * r = b \<and> odd q then q + 1 else q)"

definition f64_round :: "bool \<Rightarrow> nat \<Rightarrow> nat \<Rightarrow> u64" where
  "f64_round negative m d =
     (let p = max 1 (nat_bits (m * 2 ^ 1075 div d) - 53);
          q = round_div (m * 2 ^ 1075) (d * 2 ^ p)
      in (if negative then 0x8000000000000000 else 0) OR of_nat (min ((p - 1) * 2 ^ 52 + q) 0x7ff0000000000000))"

text \<open>\<open>v as f64\<close>\<close>

definition int_to_f64 :: "int \<Rightarrow> u64" where
  "int_to_f64 v = f64_round (v < 0) (nat \<bar>v\<bar>) 1"

definition f64_scaled :: "u64 \<Rightarrow> nat" where
  "f64_scaled x = f64_significand x * 2 ^ f64_power x"

text \<open>The value in units of \<open>2 ^ -1075\<close>; an infinity lies beyond every finite number.\<close>

definition f64_units :: "u64 \<Rightarrow> int" where
  "f64_units x = (if f64_negative x then - int (f64_scaled x) else int (f64_scaled x))"

definition f64_nan :: u64 where "f64_nan = 0x7ff8000000000000"

definition f64_infinity :: "bool \<Rightarrow> u64" where
  "f64_infinity negative = (if negative then 0xfff0000000000000 else 0x7ff0000000000000)"

definition f64_zero :: "bool \<Rightarrow> u64" where
  "f64_zero negative = (if negative then 0x8000000000000000 else 0)"

definition f64_neg :: "u64 \<Rightarrow> u64" where
  "f64_neg x = x XOR 0x8000000000000000"

definition f64_add :: "u64 \<Rightarrow> u64 \<Rightarrow> u64" where
  "f64_add x y =
     (if f64_is_nan x \<or> f64_is_nan y then f64_nan
      else if f64_is_infinite x then (if f64_is_infinite y \<and> f64_negative x \<noteq> f64_negative y then f64_nan else x)
      else if f64_is_infinite y then y
      else
        (let s = f64_units x + f64_units y
         in if s = 0 then f64_zero (f64_negative x \<and> f64_negative y) else f64_round (s < 0) (nat \<bar>s\<bar>) (2 ^ 1075)))"

definition f64_sub :: "u64 \<Rightarrow> u64 \<Rightarrow> u64" where
  "f64_sub x y = f64_add x (f64_neg y)"

definition f64_mul :: "u64 \<Rightarrow> u64 \<Rightarrow> u64" where
  "f64_mul x y =
     (let negative = (f64_negative x \<noteq> f64_negative y)
      in if f64_is_nan x \<or> f64_is_nan y then f64_nan
         else if f64_is_infinite x \<or> f64_is_infinite y then (if f64_scaled x = 0 \<or> f64_scaled y = 0 then f64_nan else f64_infinity negative)
         else f64_round negative (f64_scaled x * f64_scaled y) (2 ^ 2150))"

definition f64_div :: "u64 \<Rightarrow> u64 \<Rightarrow> u64" where
  "f64_div x y =
     (let negative = (f64_negative x \<noteq> f64_negative y)
      in if f64_is_nan x \<or> f64_is_nan y \<or> f64_is_infinite x \<and> f64_is_infinite y then f64_nan
         else if f64_is_infinite x then f64_infinity negative
         else if f64_is_infinite y then f64_zero negative
         else if f64_scaled y = 0 then (if f64_scaled x = 0 then f64_nan else f64_infinity negative)
         else f64_round negative (f64_scaled x) (f64_scaled y))"

definition f64_le :: "u64 \<Rightarrow> u64 \<Rightarrow> bool" where
  "f64_le x y \<longleftrightarrow> \<not> f64_is_nan x \<and> \<not> f64_is_nan y \<and> f64_units x \<le> f64_units y"

definition f64_lt :: "u64 \<Rightarrow> u64 \<Rightarrow> bool" where
  "f64_lt x y \<longleftrightarrow> \<not> f64_is_nan x \<and> \<not> f64_is_nan y \<and> f64_units x < f64_units y"

definition f64_abs :: "u64 \<Rightarrow> u64" where
  "f64_abs x = x AND 0x7fffffffffffffff"

text \<open>\<open>f64::floor\<close>\<close>

definition f64_floor :: "u64 \<Rightarrow> u64" where
  "f64_floor x = (if f64_trunc x = x \<or> \<not> f64_negative x then f64_trunc x else f64_sub (f64_trunc x) (int_to_f64 1))"

text \<open>\<open>x as i64\<close> saturates.\<close>

definition f64_to_i64 :: "u64 \<Rightarrow> int" where
  "f64_to_i64 x = (if f64_is_nan x then 0 else max (- (2 ^ 63)) (min (2 ^ 63 - 1) (f64_int x)))"

end
