(* ===== verification/Rust_Text.thy ===== *)
theory Rust_Text
  imports Error_Wire
begin

text \<open>
  What the value libraries use of Rust's strings: decoding of bytes that may be ill-formed, trimming, and the padded decimal
  forms of \<open>format!\<close>.
\<close>

text \<open>A \<open>str\<close> is a list of Unicode scalar values. \<open>String::from_utf8_lossy\<close> replaces every maximal ill-formed part.\<close>

definition utf8_second_ok :: "u8 \<Rightarrow> u8 \<Rightarrow> bool" where
  "utf8_second_ok first second \<longleftrightarrow>
     (if first = 0xE0 then 0xA0 \<le> second \<and> second \<le> 0xBF
      else if first = 0xED then 0x80 \<le> second \<and> second \<le> 0x9F
      else if first = 0xF0 then 0x90 \<le> second \<and> second \<le> 0xBF
      else if first = 0xF4 then 0x80 \<le> second \<and> second \<le> 0x8F
      else 0x80 \<le> second \<and> second \<le> 0xBF)"

function to_string_lossy :: "bytes \<Rightarrow> nat list" where
  "to_string_lossy [] = []"
| "to_string_lossy (first # rest) =
     (let byte = (\<lambda>i. if i < length rest then rest ! i else 0);
          tail = (\<lambda>b. unat (b AND 0x3F));
          bad = (\<lambda>k. 0xFFFD # to_string_lossy (drop k rest))
      in if first < 0x80 then unat first # to_string_lossy rest
         else if 0xC2 \<le> first \<and> first \<le> 0xDF then
           (if utf8_second_ok first (byte 0) then (unat (first AND 0x1F) * 64 + tail (byte 0)) # to_string_lossy (drop 1 rest) else bad 0)
         else if 0xE0 \<le> first \<and> first \<le> 0xEF then
           (if \<not> utf8_second_ok first (byte 0) then bad 0
            else if \<not> wtf8_continuation (byte 1) then bad 1
            else (unat (first AND 0x0F) * 4096 + tail (byte 0) * 64 + tail (byte 1)) # to_string_lossy (drop 2 rest))
         else if 0xF0 \<le> first \<and> first \<le> 0xF4 then
           (if \<not> utf8_second_ok first (byte 0) then bad 0
            else if \<not> wtf8_continuation (byte 1) then bad 1
            else if \<not> wtf8_continuation (byte 2) then bad 2
            else (unat (first AND 0x07) * 262144 + tail (byte 0) * 4096 + tail (byte 1) * 64 + tail (byte 2)) # to_string_lossy (drop 3 rest))
         else bad 0)"
  by pat_completeness auto
termination by (relation "measure length") auto

definition str_bytes :: "nat list \<Rightarrow> bytes" where
  "str_bytes cs = concat (map (\<lambda>c. wtf8_code_point (of_nat c)) cs)"

text \<open>\<open>char::is_whitespace\<close>\<close>

definition char_is_whitespace :: "nat \<Rightarrow> bool" where
  "char_is_whitespace c \<longleftrightarrow>
     9 \<le> c \<and> c \<le> 13 \<or> c = 32 \<or> c = 0x85 \<or> c = 0xA0 \<or> c = 0x1680 \<or> 0x2000 \<le> c \<and> c \<le> 0x200A \<or> c = 0x2028 \<or> c = 0x2029 \<or>
     c = 0x202F \<or> c = 0x205F \<or> c = 0x3000"

definition trim_matches :: "(nat \<Rightarrow> bool) \<Rightarrow> nat list \<Rightarrow> nat list" where
  "trim_matches p cs = rev (dropWhile p (rev (dropWhile p cs)))"

text \<open>\<open>format!("{v:0w}")\<close>: zeros after the sign up to the width.\<close>

definition pad_zeros :: "nat \<Rightarrow> bytes \<Rightarrow> bytes" where
  "pad_zeros width ds = replicate (width - length ds) 0x30 @ ds"

definition fmt_padded :: "nat \<Rightarrow> int \<Rightarrow> bytes" where
  "fmt_padded width v =
     (if v < 0 then 0x2D # pad_zeros (width - 1) (usize_to_string (nat (- v))) else pad_zeros width (usize_to_string (nat v)))"

definition ascii_bytes :: "string \<Rightarrow> bytes" where
  "ascii_bytes s = map (\<lambda>c. of_nat (of_char c)) s"

lemma to_string_lossy_ascii: "list_all (\<lambda>b. b < 0x80) bs \<Longrightarrow> to_string_lossy bs = map unat bs"
  by (induction bs) simp_all

end
