(* ===== verification/Bigint_Values.thy ===== *)
theory Bigint_Values
  imports F64_Bits Rust_Text "HOL-Library.Signed_Division" "HOL-Library.Monad_Syntax"
begin

text \<open>
  Native \<open>bigint\<close> values, \<open>runtime/native_values/bigint.rs\<close>. A value is one 64-bit handle: an odd handle is an inline
  signed integer of 63 bits, an even one points to a leaked box that holds an integer of the library
  \<open>num_bigint\<close>. The library is the parameter \<open>big_ops\<close>, the allocator of boxes the parameter \<open>new\<close>. A result
  \<open>None\<close> is a panic, or a handle that points nowhere.
\<close>

subsection \<open>The integer library\<close>

record 'n big_ops =
  bo_from :: "int \<Rightarrow> 'n"
  bo_to_i64 :: "'n \<Rightarrow> int option"
  bo_to_u64 :: "'n \<Rightarrow> nat option"
  bo_add :: "'n \<Rightarrow> 'n \<Rightarrow> 'n"
  bo_sub :: "'n \<Rightarrow> 'n \<Rightarrow> 'n"
  bo_mul :: "'n \<Rightarrow> 'n \<Rightarrow> 'n"
  bo_div :: "'n \<Rightarrow> 'n \<Rightarrow> 'n option"
  bo_rem :: "'n \<Rightarrow> 'n \<Rightarrow> 'n option"
  bo_and :: "'n \<Rightarrow> 'n \<Rightarrow> 'n"
  bo_or :: "'n \<Rightarrow> 'n \<Rightarrow> 'n"
  bo_xor :: "'n \<Rightarrow> 'n \<Rightarrow> 'n"
  bo_shl :: "'n \<Rightarrow> nat \<Rightarrow> 'n"
  bo_shr :: "'n \<Rightarrow> nat \<Rightarrow> 'n"
  bo_mod_floor :: "'n \<Rightarrow> 'n \<Rightarrow> 'n"
  bo_neg :: "'n \<Rightarrow> 'n"
  bo_abs :: "'n \<Rightarrow> 'n"
  bo_pow :: "'n \<Rightarrow> nat \<Rightarrow> 'n"
  bo_cmp :: "'n \<Rightarrow> 'n \<Rightarrow> int"
  bo_sign :: "'n \<Rightarrow> int"
  bo_bits :: "'n \<Rightarrow> nat"
  bo_signed_bytes :: "'n \<Rightarrow> bytes"
  bo_text :: "nat \<Rightarrow> 'n \<Rightarrow> bytes"
  bo_parse :: "bytes \<Rightarrow> nat \<Rightarrow> 'n option"
  bo_from_f64 :: "u64 \<Rightarrow> 'n option"
  bo_to_f64 :: "'n \<Rightarrow> u64 option"

definition bo_is_zero :: "'n big_ops \<Rightarrow> 'n \<Rightarrow> bool" where
  "bo_is_zero L n \<longleftrightarrow> bo_sign L n = 0"

definition bo_is_negative :: "'n big_ops \<Rightarrow> 'n \<Rightarrow> bool" where
  "bo_is_negative L n \<longleftrightarrow> bo_sign L n = -1"

definition bo_eq :: "'n big_ops \<Rightarrow> 'n \<Rightarrow> 'n \<Rightarrow> bool" where
  "bo_eq L a b \<longleftrightarrow> bo_cmp L a b = 0"

subsection \<open>Handles\<close>

text \<open>The leaked boxes by address, and whether \<open>BIGINT_DECIMAL_TEXT\<close> is set.\<close>

record 'n big_state =
  bg_heap :: "u64 \<Rightarrow> 'n option"
  bg_formatter :: bool

definition BIGINT_MAX_BITS :: nat where "BIGINT_MAX_BITS = 2 ^ 30"

definition bigint_encode :: "'n big_ops \<Rightarrow> ('n big_state \<Rightarrow> u64) \<Rightarrow> 'n \<Rightarrow> 'n big_state \<Rightarrow> u64 \<times> 'n big_state" where
  "bigint_encode L new v s =
     (case bo_to_i64 L v of
        Some small \<Rightarrow>
          if - (2 ^ 62) \<le> small \<and> small < 2 ^ 62 then (push_bit 1 (word_of_int small) OR 1, s)
          else (new s, s\<lparr>bg_heap := (bg_heap s)(new s \<mapsto> v), bg_formatter := True\<rparr>)
      | None \<Rightarrow> (new s, s\<lparr>bg_heap := (bg_heap s)(new s \<mapsto> v), bg_formatter := True\<rparr>))"

definition is_inline :: "u64 \<Rightarrow> bool" where
  "is_inline handle \<longleftrightarrow> handle AND 1 = 1"

text \<open>\<open>handle >> 1\<close> on \<open>i64\<close> keeps the sign.\<close>

definition inline_value :: "u64 \<Rightarrow> int" where
  "inline_value handle = sint (signed_drop_bit 1 handle)"

definition bigint_decode :: "'n big_ops \<Rightarrow> 'n big_state \<Rightarrow> u64 \<Rightarrow> 'n option" where
  "bigint_decode L s handle =
     (if is_inline handle then Some (bo_from L (inline_value handle))
      else if handle = 0 \<or> handle AND 7 \<noteq> 0 \<or> sint handle < 4096 then Some (bo_from L 0)
      else bg_heap s handle)"

definition bigint_inline :: "u64 \<Rightarrow> int option" where
  "bigint_inline handle = (if is_inline handle then Some (inline_value handle) else None)"

definition int_text :: "int \<Rightarrow> bytes" where
  "int_text v = (if v < 0 then 0x2D # usize_to_string (nat (- v)) else usize_to_string (nat v))"

definition bigint_decimal_text :: "'n big_ops \<Rightarrow> 'n big_state \<Rightarrow> u64 \<Rightarrow> bytes option" where
  "bigint_decimal_text L s handle = map_option (bo_text L 10) (bigint_decode L s handle)"

definition bigint_report_text :: "'n big_ops \<Rightarrow> 'n big_state \<Rightarrow> u64 \<Rightarrow> bytes option" where
  "bigint_report_text L s handle =
     (if is_inline handle then Some (int_text (inline_value handle))
      else if \<not> bg_formatter s then Some [0x30]
      else bigint_decimal_text L s handle)"

definition bigint_c_string :: "'b bump_ops \<Rightarrow> bytes \<Rightarrow> 'b native_state \<Rightarrow> usize \<times> 'b native_state" where
  "bigint_c_string B text ns = arena_string B text ns"

subsection \<open>Conversions\<close>

definition thaw_bigint_from_i64 :: "'n big_ops \<Rightarrow> ('n big_state \<Rightarrow> u64) \<Rightarrow> u64 \<Rightarrow> 'n big_state \<Rightarrow> u64 \<times> 'n big_state" where
  "thaw_bigint_from_i64 L new v s = bigint_encode L new (bo_from L (sint v)) s"

definition thaw_bigint_from_u64 :: "'n big_ops \<Rightarrow> ('n big_state \<Rightarrow> u64) \<Rightarrow> u64 \<Rightarrow> 'n big_state \<Rightarrow> u64 \<times> 'n big_state" where
  "thaw_bigint_from_u64 L new v s = bigint_encode L new (bo_from L (uint v)) s"

definition thaw_bigint_to_i64_wrapping :: "'n big_ops \<Rightarrow> 'n big_state \<Rightarrow> u64 \<Rightarrow> u64 option" where
  "thaw_bigint_to_i64_wrapping L s handle =
     (case bigint_inline handle of
        Some small \<Rightarrow> Some (word_of_int small)
      | None \<Rightarrow> do {
          v \<leftarrow> bigint_decode L s handle;
          let low = bo_to_u64 L (bo_and L v (bo_sub L (bo_shl L (bo_from L 1) 64) (bo_from L 1)));
          Some (word_of_nat (case low of Some n \<Rightarrow> n | None \<Rightarrow> 0))
        })"

definition thaw_bigint_from_f64 :: "'n big_ops \<Rightarrow> ('n big_state \<Rightarrow> u64) \<Rightarrow> u64 \<Rightarrow> 'n big_state \<Rightarrow> u64 \<times> 'n big_state" where
  "thaw_bigint_from_f64 L new x s =
     bigint_encode L new (case bo_from_f64 L (f64_trunc x) of Some v \<Rightarrow> v | None \<Rightarrow> bo_from L 0) s"

definition thaw_bigint_to_f64 :: "'n big_ops \<Rightarrow> 'n big_state \<Rightarrow> u64 \<Rightarrow> u64 option" where
  "thaw_bigint_to_f64 L s handle =
     (case bigint_inline handle of
        Some small \<Rightarrow> Some (int_to_f64 small)
      | None \<Rightarrow> do {
          v \<leftarrow> bigint_decode L s handle;
          Some (case bo_to_f64 L v of Some x \<Rightarrow> x
                | None \<Rightarrow> if bo_is_negative L v then 0xfff0000000000000 else 0x7ff0000000000000)
        })"

subsection \<open>Text\<close>

definition bigint_blank :: "nat \<Rightarrow> bool" where
  "bigint_blank c \<longleftrightarrow> char_is_whitespace c \<or> c = 0xFEFF"

text \<open>\<open>char::to_digit\<close>\<close>

definition digit_value :: "nat \<Rightarrow> nat" where
  "digit_value c =
     (if 0x30 \<le> c \<and> c \<le> 0x39 then c - 0x30
      else if 0x61 \<le> c \<and> c \<le> 0x7A then c - 0x57
      else if 0x41 \<le> c \<and> c \<le> 0x5A then c - 0x37
      else 36)"

definition is_digit :: "nat \<Rightarrow> nat \<Rightarrow> bool" where
  "is_digit radix c \<longleftrightarrow> digit_value c < radix"

definition radix_split :: "nat list \<Rightarrow> nat \<times> nat list \<times> bool" where
  "radix_split text =
     (let prefix = take 2 text
      in if prefix = [0x30, 0x78] \<or> prefix = [0x30, 0x58] then (16, drop 2 text, False)
         else if prefix = [0x30, 0x6F] \<or> prefix = [0x30, 0x4F] then (8, drop 2 text, False)
         else if prefix = [0x30, 0x62] \<or> prefix = [0x30, 0x42] then (2, drop 2 text, False)
         else if hd text = 0x2D then (10, drop 1 text, True)
         else if hd text = 0x2B then (10, drop 1 text, False)
         else (10, text, False))"

definition bigint_parse :: "'n big_ops \<Rightarrow> nat list \<Rightarrow> 'n option" where
  "bigint_parse L text0 =
     (let text = trim_matches bigint_blank text0
      in if text = [] then Some (bo_from L 0)
         else
           (let (radix, digits, negative) = radix_split text
            in if digits = [] \<or> \<not> list_all (is_digit radix) digits then None
               else do {
                 magnitude \<leftarrow> bo_parse L (map of_nat digits) radix;
                 Some (if negative then bo_neg L magnitude else magnitude)
               }))"

definition lossy_text :: "memory \<Rightarrow> usize \<Rightarrow> nat list option" where
  "lossy_text m p = (if p = 0 then None else map_option (\<lambda>n. to_string_lossy (read_bytes_at m p n)) (cstr_length m p))"

definition thaw_i64_from_string ::
    "'n big_ops \<Rightarrow> ('n big_state \<Rightarrow> u64) \<Rightarrow> memory \<Rightarrow> usize \<Rightarrow> 'n big_state \<Rightarrow> (u64 \<times> 'n big_state) option" where
  "thaw_i64_from_string L new m p s = do {
     text \<leftarrow> lossy_text m p;
     Some (bigint_encode L new (case bigint_parse L text of Some v \<Rightarrow> v | None \<Rightarrow> bo_from L 0) s)
   }"

definition thaw_bigint_parse_ok :: "'n big_ops \<Rightarrow> memory \<Rightarrow> usize \<Rightarrow> bool option" where
  "thaw_bigint_parse_ok L m p = map_option (\<lambda>text. bigint_parse L text \<noteq> None) (lossy_text m p)"

definition thaw_bigint_parse_error_message :: "'b bump_ops \<Rightarrow> usize \<Rightarrow> 'b native_state \<Rightarrow> (usize \<times> 'b native_state) option" where
  "thaw_bigint_parse_error_message B p ns = do {
     text \<leftarrow> lossy_text (mem (thr ns)) p;
     Some (bigint_c_string B (map (\<lambda>c. of_nat (of_char c)) ''Cannot convert '' @ str_bytes text @
       map (\<lambda>c. of_nat (of_char c)) '' to a BigInt'') ns)
   }"

definition thaw_i64_to_string ::
    "'n big_ops \<Rightarrow> 'b bump_ops \<Rightarrow> 'n big_state \<Rightarrow> u64 \<Rightarrow> 'b native_state \<Rightarrow> (usize \<times> 'b native_state) option" where
  "thaw_i64_to_string L B s handle ns = map_option (\<lambda>v. bigint_c_string B (bo_text L 10 v) ns) (bigint_decode L s handle)"

definition thaw_i64_to_bigint_string ::
    "'n big_ops \<Rightarrow> 'b bump_ops \<Rightarrow> 'n big_state \<Rightarrow> u64 \<Rightarrow> 'b native_state \<Rightarrow> (usize \<times> 'b native_state) option" where
  "thaw_i64_to_bigint_string L B s handle ns =
     map_option (\<lambda>v. bigint_c_string B (bo_text L 10 v @ [0x6E]) ns) (bigint_decode L s handle)"

definition clamp_radix :: "u64 \<Rightarrow> nat" where
  "clamp_radix x = min 36 (max 2 (if f64_is_finite x then f64_to_uint 32 (f64_trunc x) else 10))"

definition thaw_i64_to_radix_string ::
    "'n big_ops \<Rightarrow> 'b bump_ops \<Rightarrow> 'n big_state \<Rightarrow> u64 \<Rightarrow> u64 \<Rightarrow> 'b native_state \<Rightarrow> (usize \<times> 'b native_state) option" where
  "thaw_i64_to_radix_string L B s handle x ns =
     map_option (\<lambda>v. bigint_c_string B (bo_text L (clamp_radix x) v) ns) (bigint_decode L s handle)"

subsection \<open>Wrapping to a width\<close>

definition bigint_mod_pow2 :: "'n big_ops \<Rightarrow> 'n \<Rightarrow> nat \<Rightarrow> 'n" where
  "bigint_mod_pow2 L v bits = bo_mod_floor L v (bo_shl L (bo_from L 1) (min bits BIGINT_MAX_BITS))"

definition thaw_i64_as_uint_n ::
    "'n big_ops \<Rightarrow> ('n big_state \<Rightarrow> u64) \<Rightarrow> u64 \<Rightarrow> u64 \<Rightarrow> 'n big_state \<Rightarrow> (u64 \<times> 'n big_state) option" where
  "thaw_i64_as_uint_n L new handle x s =
     (let bits = f64_to_uint 64 x
      in if bits = 0 then Some (thaw_bigint_from_i64 L new 0 s)
         else do {
           v \<leftarrow> bigint_decode L s handle;
           Some (bigint_encode L new (bigint_mod_pow2 L v bits) s)
         })"

definition thaw_i64_as_int_n ::
    "'n big_ops \<Rightarrow> ('n big_state \<Rightarrow> u64) \<Rightarrow> u64 \<Rightarrow> u64 \<Rightarrow> 'n big_state \<Rightarrow> (u64 \<times> 'n big_state) option" where
  "thaw_i64_as_int_n L new handle x s =
     (let bits = min (f64_to_uint 64 x) BIGINT_MAX_BITS
      in if bits = 0 then Some (thaw_bigint_from_i64 L new 0 s)
         else do {
           v \<leftarrow> bigint_decode L s handle;
           let wrapped = bigint_mod_pow2 L v bits;
           let limit = bo_shl L (bo_from L 1) (bits - 1);
           Some (bigint_encode L new
             (if bo_cmp L wrapped limit \<ge> 0 then bo_sub L wrapped (bo_shl L (bo_from L 1) bits) else wrapped) s)
         })"

subsection \<open>Operators\<close>

datatype big_op = BIGINT_DIV | BIGINT_MOD | BIGINT_POW | BIGINT_SHL | BIGINT_SHR

definition pow_error :: "'n big_ops \<Rightarrow> 'n \<Rightarrow> 'n \<Rightarrow> nat" where
  "pow_error L base exponent =
     (if bo_is_zero L base \<or> bo_eq L (bo_abs L base) (bo_from L 1) \<or> bo_is_zero L exponent then 0
      else (case bo_to_u64 L exponent of
              Some e \<Rightarrow> if saturating_mul (bo_bits L base) e \<le> BIGINT_MAX_BITS then 0 else 3
            | None \<Rightarrow> 3))"

definition shift_error :: "'n big_ops \<Rightarrow> big_op \<Rightarrow> 'n option \<Rightarrow> 'n \<Rightarrow> nat option" where
  "shift_error L op left amount =
     (if (op = BIGINT_SHL) \<noteq> bo_is_negative L amount
      then map_option (\<lambda>l.
        if \<not> bo_is_zero L l \<and>
           (case bo_to_u64 L (bo_abs L amount) of None \<Rightarrow> True | Some a \<Rightarrow> saturating_add a (bo_bits L l) > BIGINT_MAX_BITS)
        then 3 else 0) left
      else Some 0)"

definition thaw_bigint_binop_error :: "'n big_ops \<Rightarrow> 'n big_state \<Rightarrow> big_op \<Rightarrow> u64 \<Rightarrow> u64 \<Rightarrow> nat option" where
  "thaw_bigint_binop_error L s op left right = do {
     r \<leftarrow> bigint_decode L s right;
     if op = BIGINT_DIV \<or> op = BIGINT_MOD then Some (if bo_is_zero L r then 1 else 0)
     else if op = BIGINT_POW
     then (if bo_is_negative L r then Some 2 else map_option (\<lambda>l. pow_error L l r) (bigint_decode L s left))
     else shift_error L op (bigint_decode L s left) r
   }"

text \<open>The inline operators compute in \<open>i128\<close>; leaving its range, or a zero divisor, panics.\<close>

definition i128_checked :: "int \<Rightarrow> int option" where
  "i128_checked v = (if - (2 ^ 127) \<le> v \<and> v < 2 ^ 127 then Some v else None)"

definition bigint_binary ::
    "'n big_ops \<Rightarrow> ('n big_state \<Rightarrow> u64) \<Rightarrow> (int \<Rightarrow> int \<Rightarrow> int option) \<Rightarrow> ('n \<Rightarrow> 'n \<Rightarrow> 'n option) \<Rightarrow> u64 \<Rightarrow> u64 \<Rightarrow> 'n big_state \<Rightarrow>
     (u64 \<times> 'n big_state) option" where
  "bigint_binary L new small big left right s =
     (case (bigint_inline left, bigint_inline right) of
        (Some a, Some b) \<Rightarrow> do { v \<leftarrow> small a b; Some (bigint_encode L new (bo_from L v) s) }
      | _ \<Rightarrow> do {
          a \<leftarrow> bigint_decode L s left;
          b \<leftarrow> bigint_decode L s right;
          v \<leftarrow> big a b;
          Some (bigint_encode L new v s)
        })"

definition thaw_bigint_add where
  "thaw_bigint_add L new = bigint_binary L new (\<lambda>a b. i128_checked (a + b)) (\<lambda>a b. Some (bo_add L a b))"

definition thaw_bigint_sub where
  "thaw_bigint_sub L new = bigint_binary L new (\<lambda>a b. i128_checked (a - b)) (\<lambda>a b. Some (bo_sub L a b))"

definition thaw_bigint_mul where
  "thaw_bigint_mul L new = bigint_binary L new (\<lambda>a b. i128_checked (a * b)) (\<lambda>a b. Some (bo_mul L a b))"

definition thaw_bigint_div where
  "thaw_bigint_div L new = bigint_binary L new (\<lambda>a b. if b = 0 then None else i128_checked (a sdiv b)) (bo_div L)"

definition thaw_bigint_mod where
  "thaw_bigint_mod L new = bigint_binary L new (\<lambda>a b. if b = 0 then None else i128_checked (a smod b)) (bo_rem L)"

definition thaw_bigint_and where
  "thaw_bigint_and L new = bigint_binary L new (\<lambda>a b. i128_checked (a AND b)) (\<lambda>a b. Some (bo_and L a b))"

definition thaw_bigint_or where
  "thaw_bigint_or L new = bigint_binary L new (\<lambda>a b. i128_checked (a OR b)) (\<lambda>a b. Some (bo_or L a b))"

definition thaw_bigint_xor where
  "thaw_bigint_xor L new = bigint_binary L new (\<lambda>a b. i128_checked (a XOR b)) (\<lambda>a b. Some (bo_xor L a b))"

definition bigint_shift :: "'n big_ops \<Rightarrow> 'n \<Rightarrow> 'n \<Rightarrow> bool \<Rightarrow> 'n" where
  "bigint_shift L v amount left0 =
     (let left = (left0 \<noteq> bo_is_negative L amount)
      in case bo_to_u64 L (bo_abs L amount) of
           None \<Rightarrow> if left \<or> \<not> bo_is_negative L v then bo_from L 0 else bo_from L (-1)
         | Some k \<Rightarrow> if left then bo_shl L v k else bo_shr L v k)"

definition bigint_shift_op ::
    "bool \<Rightarrow> 'n big_ops \<Rightarrow> ('n big_state \<Rightarrow> u64) \<Rightarrow> u64 \<Rightarrow> u64 \<Rightarrow> 'n big_state \<Rightarrow> (u64 \<times> 'n big_state) option" where
  "bigint_shift_op direction L new left right s = do {
     l \<leftarrow> bigint_decode L s left;
     r \<leftarrow> bigint_decode L s right;
     Some (bigint_encode L new (bigint_shift L l r direction) s)
   }"

definition thaw_bigint_shl where "thaw_bigint_shl = bigint_shift_op True"
definition thaw_bigint_shr where "thaw_bigint_shr = bigint_shift_op False"

text \<open>\<open>exp as u32\<close> keeps the low 32 bits.\<close>

definition thaw_bigint_pow ::
    "'n big_ops \<Rightarrow> ('n big_state \<Rightarrow> u64) \<Rightarrow> u64 \<Rightarrow> u64 \<Rightarrow> 'n big_state \<Rightarrow> (u64 \<times> 'n big_state) option" where
  "thaw_bigint_pow L new base0 exp0 s = do {
     base \<leftarrow> bigint_decode L s base0;
     exp1 \<leftarrow> bigint_decode L s exp0;
     Some (case bo_to_u64 L exp1 of
        None \<Rightarrow> thaw_bigint_from_i64 L new 0 s
      | Some e \<Rightarrow>
          if bo_is_zero L base \<or> e = 0 then thaw_bigint_from_i64 L new (if e = 0 \<or> \<not> bo_is_zero L base then 1 else 0) s
          else if bo_eq L base (bo_from L 1) then thaw_bigint_from_i64 L new 1 s
          else if bo_eq L base (bo_from L (-1)) then thaw_bigint_from_i64 L new (if even e then 1 else -1) s
          else bigint_encode L new (bo_pow L base (e mod 2 ^ 32)) s)
   }"

definition thaw_bigint_neg :: "'n big_ops \<Rightarrow> ('n big_state \<Rightarrow> u64) \<Rightarrow> u64 \<Rightarrow> 'n big_state \<Rightarrow> (u64 \<times> 'n big_state) option" where
  "thaw_bigint_neg L new handle s = map_option (\<lambda>v. bigint_encode L new (bo_neg L v) s) (bigint_decode L s handle)"

definition thaw_bigint_not :: "'n big_ops \<Rightarrow> ('n big_state \<Rightarrow> u64) \<Rightarrow> u64 \<Rightarrow> 'n big_state \<Rightarrow> (u64 \<times> 'n big_state) option" where
  "thaw_bigint_not L new handle s =
     map_option (\<lambda>v. bigint_encode L new (bo_sub L (bo_neg L v) (bo_from L 1)) s) (bigint_decode L s handle)"

definition thaw_bigint_cmp :: "'n big_ops \<Rightarrow> 'n big_state \<Rightarrow> u64 \<Rightarrow> u64 \<Rightarrow> int option" where
  "thaw_bigint_cmp L s left right =
     (case (bigint_inline left, bigint_inline right) of
        (Some a, Some b) \<Rightarrow> Some (sgn (a - b))
      | _ \<Rightarrow> do { a \<leftarrow> bigint_decode L s left; b \<leftarrow> bigint_decode L s right; Some (bo_cmp L a b) })"

definition thaw_bigint_cmp_f64 :: "'n big_ops \<Rightarrow> 'n big_state \<Rightarrow> u64 \<Rightarrow> u64 \<Rightarrow> int option" where
  "thaw_bigint_cmp_f64 L s left right =
     (if f64_is_nan right then Some 2
      else if f64_is_infinite right then Some (if f64_negative right then 1 else -1)
      else do {
        v \<leftarrow> bigint_decode L s left;
        let whole = (case bo_from_f64 L (f64_trunc right) of Some w \<Rightarrow> w | None \<Rightarrow> bo_from L 0);
        let order = bo_cmp L v whole;
        Some (if order = 0 \<and> f64_fract_sign right > 0 then -1
              else if order = 0 \<and> f64_fract_sign right < 0 then 1
              else order)
      })"

definition thaw_bigint_is_zero :: "'n big_ops \<Rightarrow> 'n big_state \<Rightarrow> u64 \<Rightarrow> bool option" where
  "thaw_bigint_is_zero L s handle = map_option (bo_is_zero L) (bigint_decode L s handle)"

definition thaw_bigint_sign :: "'n big_ops \<Rightarrow> 'n big_state \<Rightarrow> u64 \<Rightarrow> int option" where
  "thaw_bigint_sign L s handle = map_option (bo_sign L) (bigint_decode L s handle)"

subsection \<open>Keys of maps\<close>

text \<open>\<open>BigKey\<close> of \<open>maps.rs\<close>. A handle that points nowhere is outside the contract of the key.\<close>

definition BigKey :: "'n big_ops \<Rightarrow> 'n big_state \<Rightarrow> key_kind" where
  "BigKey L s = \<lparr>
     kk_hash = (\<lambda>key. case bigint_inline key of
        Some small \<Rightarrow> mix64 (word_of_int small)
      | None \<Rightarrow> (case bigint_decode L s key of Some v \<Rightarrow> hash_bytes (bo_signed_bytes L v) | None \<Rightarrow> 0)),
     kk_eq = (\<lambda>a b. thaw_bigint_cmp L s a b = Some 0)\<rparr>"

definition encode_big_key :: "u64 \<Rightarrow> u64" where
  "encode_big_key key = key"

definition thaw_map_big_has :: "'n big_ops \<Rightarrow> 'n big_state \<Rightarrow> map_header option \<Rightarrow> u64 \<Rightarrow> bool option" where
  "thaw_map_big_has L s m key = map_has (BigKey L s) m (encode_big_key key)"

definition thaw_map_big_get :: "'n big_ops \<Rightarrow> 'n big_state \<Rightarrow> map_header option \<Rightarrow> u64 \<Rightarrow> u64 option" where
  "thaw_map_big_get L s m key = map_get_word (BigKey L s) m (encode_big_key key)"

definition thaw_map_big_set ::
    "'n big_ops \<Rightarrow> 'n big_state \<Rightarrow> (nat \<Rightarrow> bool) \<Rightarrow> map_header option \<Rightarrow> u64 \<Rightarrow> u64 \<Rightarrow> (bool \<times> map_header option) option" where
  "thaw_map_big_set L s al m key v = with_map (\<lambda>h. map_set (BigKey L s) al h (encode_big_key key) v) m"

definition thaw_map_big_delete :: "'n big_ops \<Rightarrow> 'n big_state \<Rightarrow> map_header option \<Rightarrow> u64 \<Rightarrow> (bool \<times> map_header option) option" where
  "thaw_map_big_delete L s m key = with_map (\<lambda>h. map_delete (BigKey L s) h (encode_big_key key)) m"

end
