(* ===== verification/Bigint_Laws.thy ===== *)
theory Bigint_Laws
  imports Bigint_Values
begin

text \<open>
  What the operations on \<open>bigint\<close> handles rely on: the documented behaviour of the integer library as a relation to
  mathematical integers, and an allocator that returns fresh aligned boxes. Under these, a handle
  denotes an integer, encoding denotes the encoded integer and disturbs no other handle.
\<close>

subsection \<open>Digits\<close>

definition radix_value :: "nat \<Rightarrow> bytes \<Rightarrow> nat" where
  "radix_value r ds = foldl (\<lambda>a d. a * r + digit_value (unat d)) 0 ds"

definition digit_char :: "nat \<Rightarrow> u8" where
  "digit_char d = (if d < 10 then 0x30 + of_nat d else 0x57 + of_nat d)"

function radix_digits :: "nat \<Rightarrow> nat \<Rightarrow> bytes" where
  "radix_digits r n = (if n < r \<or> r < 2 then [digit_char n] else radix_digits r (n div r) @ [digit_char (n mod r)])"
  by pat_completeness auto
termination by (relation "measure snd") auto

declare radix_digits.simps [simp del]

definition radix_text :: "nat \<Rightarrow> int \<Rightarrow> bytes" where
  "radix_text r v = (if v < 0 then 0x2D # radix_digits r (nat (- v)) else radix_digits r (nat v))"

lemma digit_char_value: "d < 36 \<Longrightarrow> digit_value (unat (digit_char d)) = d"
  by (simp add: digit_char_def digit_value_def unat_word_ariths unat_of_nat)

lemma digit_char_ok: "d < r \<Longrightarrow> r \<le> 36 \<Longrightarrow> is_digit r (unat (digit_char d))"
  by (simp add: is_digit_def digit_char_value)

lemma radix_digits_ok:
  assumes "2 \<le> r" "r \<le> 36"
  shows "radix_digits r n \<noteq> [] \<and> list_all (\<lambda>d. is_digit r (unat d)) (radix_digits r n) \<and> radix_value r (radix_digits r n) = n"
proof (induction n rule: less_induct)
  case (less n)
  show ?case
  proof (cases "n < r")
    case True
    then show ?thesis using assms digit_char_value [of n] digit_char_ok [of n r] by (simp add: radix_digits.simps radix_value_def)
  next
    case False
    then have s: "radix_digits r n = radix_digits r (n div r) @ [digit_char (n mod r)]" using assms by (subst radix_digits.simps) simp
    have l: "n div r < n" "n mod r < r" using False assms by auto
    then have "digit_value (unat (digit_char (n mod r))) = n mod r" using assms(2) by (intro digit_char_value) linarith
    then show ?thesis using l less.IH [of "n div r"] assms digit_char_ok [of "n mod r" r]
      by (simp add: s radix_value_def)
  qed
qed

subsection \<open>The integer library\<close>

text \<open>Every operation of the library is the one on integers; \<open>/\<close> and \<open>%\<close> truncate and panic on a zero divisor, \<open>>>\<close> and
  \<open>mod_floor\<close> round down, the bitwise operators are those of two's complement, \<open>bits\<close> is the length of
  the magnitude, the texts are digits with a sign, and equal numbers have equal bytes.\<close>

definition arith_laws :: "'n big_ops \<Rightarrow> ('n \<Rightarrow> int) \<Rightarrow> bool" where
  "arith_laws L val \<longleftrightarrow>
     (\<forall>i. val (bo_from L i) = i) \<and>
     (\<forall>a b. val (bo_add L a b) = val a + val b) \<and> (\<forall>a b. val (bo_sub L a b) = val a - val b) \<and>
     (\<forall>a b. val (bo_mul L a b) = val a * val b) \<and>
     (\<forall>a b. map_option val (bo_div L a b) = (if val b = 0 then None else Some (val a sdiv val b))) \<and>
     (\<forall>a b. map_option val (bo_rem L a b) = (if val b = 0 then None else Some (val a smod val b))) \<and>
     (\<forall>a b. val (bo_and L a b) = val a AND val b) \<and> (\<forall>a b. val (bo_or L a b) = val a OR val b) \<and>
     (\<forall>a b. val (bo_xor L a b) = val a XOR val b) \<and>
     (\<forall>a k. val (bo_shl L a k) = val a * 2 ^ k) \<and> (\<forall>a k. val (bo_shr L a k) = val a div 2 ^ k) \<and>
     (\<forall>a b. 0 < val b \<longrightarrow> val (bo_mod_floor L a b) = val a mod val b) \<and>
     (\<forall>a. val (bo_neg L a) = - val a) \<and> (\<forall>a. val (bo_abs L a) = \<bar>val a\<bar>) \<and> (\<forall>a e. val (bo_pow L a e) = val a ^ e)"

definition query_laws :: "'n big_ops \<Rightarrow> ('n \<Rightarrow> int) \<Rightarrow> bool" where
  "query_laws L val \<longleftrightarrow>
     (\<forall>a. bo_to_i64 L a = (if - (2 ^ 63) \<le> val a \<and> val a < 2 ^ 63 then Some (val a) else None)) \<and>
     (\<forall>a. bo_to_u64 L a = (if 0 \<le> val a \<and> val a < 2 ^ 64 then Some (nat (val a)) else None)) \<and>
     (\<forall>a b. bo_cmp L a b = sgn (val a - val b)) \<and> (\<forall>a. bo_sign L a = sgn (val a)) \<and>
     (\<forall>a. \<bar>val a\<bar> < 2 ^ bo_bits L a \<and> (val a \<noteq> 0 \<longrightarrow> 2 ^ (bo_bits L a - 1) \<le> \<bar>val a\<bar> \<and> 0 < bo_bits L a)) \<and>
     (\<forall>a b. val a = val b \<longrightarrow> bo_signed_bytes L a = bo_signed_bytes L b)"

definition text_laws :: "'n big_ops \<Rightarrow> ('n \<Rightarrow> int) \<Rightarrow> bool" where
  "text_laws L val \<longleftrightarrow>
     (\<forall>r a. 2 \<le> r \<longrightarrow> r \<le> 36 \<longrightarrow> bo_text L r a = radix_text r (val a)) \<and>
     (\<forall>ds r. 2 \<le> r \<longrightarrow> r \<le> 36 \<longrightarrow> ds \<noteq> [] \<longrightarrow> list_all (\<lambda>d. is_digit r (unat d)) ds \<longrightarrow>
        map_option val (bo_parse L ds r) = Some (int (radix_value r ds))) \<and>
     (\<forall>x. map_option val (bo_from_f64 L x) = (if f64_is_finite x then Some (f64_int x) else None))"

definition big_laws :: "'n big_ops \<Rightarrow> ('n \<Rightarrow> int) \<Rightarrow> bool" where
  "big_laws L val \<longleftrightarrow> arith_laws L val \<and> query_laws L val \<and> text_laws L val"

text \<open>A new box is at a fresh, aligned address of user space.\<close>

definition box_ok :: "('n big_state \<Rightarrow> u64) \<Rightarrow> 'n big_state \<Rightarrow> bool" where
  "box_ok new s \<longleftrightarrow> bg_heap s (new s) = None \<and> new s AND 7 = 0 \<and> 4096 \<le> sint (new s)"

named_theorems big_rules \<open>what the integer library promises, one law each\<close>

lemma big_arith [big_rules]:
  assumes "big_laws L val"
  shows "val (bo_from L i) = i" "val (bo_add L a b) = val a + val b" "val (bo_sub L a b) = val a - val b"
    "val (bo_mul L a b) = val a * val b" "val (bo_and L a b) = val a AND val b" "val (bo_or L a b) = val a OR val b"
    "val (bo_xor L a b) = val a XOR val b" "val (bo_shl L a k) = val a * 2 ^ k" "val (bo_shr L a k) = val a div 2 ^ k"
    "val (bo_neg L a) = - val a" "val (bo_abs L a) = \<bar>val a\<bar>" "val (bo_pow L a e) = val a ^ e"
    "0 < val b \<Longrightarrow> val (bo_mod_floor L a b) = val a mod val b"
    "map_option val (bo_div L a b) = (if val b = 0 then None else Some (val a sdiv val b))"
    "map_option val (bo_rem L a b) = (if val b = 0 then None else Some (val a smod val b))"
  using assms by (simp_all add: big_laws_def arith_laws_def)

lemma big_query [big_rules]:
  assumes "big_laws L val"
  shows "bo_to_i64 L a = (if - (2 ^ 63) \<le> val a \<and> val a < 2 ^ 63 then Some (val a) else None)"
    "bo_to_u64 L a = (if 0 \<le> val a \<and> val a < 2 ^ 64 then Some (nat (val a)) else None)"
    "bo_cmp L a b = sgn (val a - val b)" "bo_sign L a = sgn (val a)" "bo_is_zero L a \<longleftrightarrow> val a = 0"
    "bo_is_negative L a \<longleftrightarrow> val a < 0" "bo_eq L a b \<longleftrightarrow> val a = val b"
  using assms by (simp_all add: big_laws_def query_laws_def bo_is_zero_def bo_is_negative_def bo_eq_def sgn_if)

lemma big_bits:
  assumes "big_laws L val"
  shows "\<bar>val a\<bar> < 2 ^ bo_bits L a" "val a \<noteq> 0 \<Longrightarrow> 2 ^ (bo_bits L a - 1) \<le> \<bar>val a\<bar> \<and> 0 < bo_bits L a"
  using assms by (simp_all add: big_laws_def query_laws_def)

lemma big_texts:
  assumes "big_laws L val"
  shows "2 \<le> r \<Longrightarrow> r \<le> 36 \<Longrightarrow> bo_text L r a = radix_text r (val a)"
    "2 \<le> r \<Longrightarrow> r \<le> 36 \<Longrightarrow> ds \<noteq> [] \<Longrightarrow> list_all (\<lambda>d. is_digit r (unat d)) ds \<Longrightarrow>
       map_option val (bo_parse L ds r) = Some (int (radix_value r ds))"
    "map_option val (bo_from_f64 L x) = (if f64_is_finite x then Some (f64_int x) else None)"
  using assms by (simp_all add: big_laws_def text_laws_def)

end
