(* ===== verification/Bigint_Properties.thy ===== *)
theory Bigint_Properties
  imports Bigint_Laws
begin

text \<open>
  The handles of \<open>Bigint_Values\<close> denote integers: every operator computes the integer result, whether its operands are
  inline or boxed, comparison with numbers is exact, and text round-trips.
\<close>

subsection \<open>Inline handles\<close>

definition inline_handle :: "int \<Rightarrow> u64" where
  "inline_handle i = word_of_int (2 * i + 1)"

lemma inline_word [simp]: "word_of_int i * 2 OR (1 :: u64) = inline_handle i"
  by (simp add: or_one_eq inline_handle_def)

lemma is_inline_odd: "is_inline h \<longleftrightarrow> odd h"
  by (simp add: is_inline_def and_one_eq odd_iff_mod_2_eq_one)

lemma inline_odd [simp]: "is_inline (inline_handle i)"
  by (simp add: is_inline_odd inline_handle_def)

lemma sint_inline_handle:
  assumes "- (2 ^ 62) \<le> i" "i < 2 ^ 62"
  shows "sint (inline_handle i) = 2 * i + 1"
  unfolding inline_handle_def sint_sbintrunc' using assms by (intro signed_take_bit_int_eq_self) simp_all

lemma inline_value_div: "inline_value h = sint h div 2"
  by (simp add: inline_value_def sint_signed_drop_bit_eq drop_bit_eq_div)

lemma inline_round_trip:
  assumes "- (2 ^ 62) \<le> i" "i < 2 ^ 62"
  shows "inline_value (inline_handle i) = i"
  using sint_inline_handle [OF assms] by (simp add: inline_value_div)

lemma inline_range: "- (2 ^ 62) \<le> inline_value h \<and> inline_value h < 2 ^ 62"
  using sint_ge [of h] sint_lt [of h] by (simp add: inline_value_div) linarith

subsection \<open>Values of handles\<close>

definition big_value :: "'n big_ops \<Rightarrow> ('n \<Rightarrow> int) \<Rightarrow> 'n big_state \<Rightarrow> u64 \<Rightarrow> int option" where
  "big_value L val s h = map_option val (bigint_decode L s h)"

text \<open>Every box holds a number outside the inline range, at an address that no inline handle and no null slot has.\<close>

definition big_inv :: "('n \<Rightarrow> int) \<Rightarrow> 'n big_state \<Rightarrow> bool" where
  "big_inv val s \<longleftrightarrow>
     (\<forall>a v. bg_heap s a = Some v \<longrightarrow> a AND 7 = 0 \<and> 4096 \<le> sint a \<and> \<not> (- (2 ^ 62) \<le> val v \<and> val v < 2 ^ 62) \<and> bg_formatter s)"

text \<open>What encoding promises: a handle of the number, and every handle keeps what it denotes.\<close>

definition encodes :: "'n big_ops \<Rightarrow> ('n \<Rightarrow> int) \<Rightarrow> 'n big_state \<Rightarrow> int \<Rightarrow> u64 \<times> 'n big_state \<Rightarrow> bool" where
  "encodes L val s i r \<longleftrightarrow>
     big_value L val (snd r) (fst r) = Some i \<and>
     (\<forall>h x. big_value L val s h = Some x \<longrightarrow> big_value L val (snd r) h = Some x) \<and>
     (big_inv val s \<longrightarrow> big_inv val (snd r)) \<and>
     (- (2 ^ 62) \<le> i \<and> i < 2 ^ 62 \<longrightarrow> r = (inline_handle i, s))"

lemma box_even: "w AND 7 = 0 \<Longrightarrow> \<not> is_inline (w :: u64)"
proof -
  assume "w AND 7 = 0"
  then have "(w AND 7) AND 1 = 0" by simp
  then have "w AND 1 = 0" by (simp add: and.assoc)
  then show ?thesis by (simp add: is_inline_def)
qed

lemma encodes_encode:
  assumes laws: "big_laws L val" and box: "box_ok new s"
  shows "encodes L val s (val v) (bigint_encode L new v s)"
proof (cases "- (2 ^ 62) \<le> val v \<and> val v < 2 ^ 62")
  case True
  then have "bigint_encode L new v s = (inline_handle (val v), s)"
    by (simp add: bigint_encode_def big_query [OF laws])
  then show ?thesis using True inline_round_trip [of "val v"]
    by (simp add: encodes_def big_value_def bigint_decode_def big_arith [OF laws])
next
  case False
  then have e: "bigint_encode L new v s = (new s, s\<lparr>bg_heap := (bg_heap s)(new s \<mapsto> v), bg_formatter := True\<rparr>)"
    by (auto simp: bigint_encode_def big_query [OF laws])
  have n: "\<not> is_inline (new s)" "new s \<noteq> 0" "bg_heap s (new s) = None" "new s AND 7 = 0" "4096 \<le> sint (new s)"
    using box box_even by (auto simp: box_ok_def)
  show ?thesis using n False
    by (auto simp: encodes_def e big_value_def bigint_decode_def big_inv_def split: if_splits)
qed


subsection \<open>Operators\<close>

lemma big_value_decode:
  "big_value L val s h = Some x \<Longrightarrow> \<exists>v. bigint_decode L s h = Some v \<and> val v = x"
  by (auto simp: big_value_def)

lemma big_value_inline: "big_laws L val \<Longrightarrow> is_inline h \<Longrightarrow> big_value L val s h = Some (inline_value h)"
  by (simp add: big_value_def bigint_decode_def big_arith)

lemma binary_encodes:
  assumes laws: "big_laws L val" and box: "box_ok new s" and v: "big_value L val s l = Some x" "big_value L val s r = Some y"
    and small: "\<And>a b. - (2 ^ 62) \<le> a \<Longrightarrow> a < 2 ^ 62 \<Longrightarrow> - (2 ^ 62) \<le> b \<Longrightarrow> b < 2 ^ 62 \<Longrightarrow> small a b = f a b"
    and big: "\<And>a b. map_option val (big a b) = f (val a) (val b)"
  shows "case f x y of Some z \<Rightarrow> (\<exists>e. bigint_binary L new small big l r s = Some e \<and> encodes L val s z e)
         | None \<Rightarrow> bigint_binary L new small big l r s = None"
proof (cases "is_inline l \<and> is_inline r")
  case True
  then have xy: "x = inline_value l" "y = inline_value r" using v big_value_inline [OF laws, of _ s] by simp_all
  have "small x y = f x y" unfolding xy using inline_range by (intro small) auto
  then show ?thesis using True encodes_encode [OF laws box, of "bo_from L _"]
    by (auto simp: bigint_binary_def bigint_inline_def xy big_arith [OF laws] split: option.split)
next
  case False
  obtain a b where ab: "bigint_decode L s l = Some a" "val a = x" "bigint_decode L s r = Some b" "val b = y"
    using v [THEN big_value_decode] by blast
  have e: "bigint_binary L new small big l r s = Option.bind (big a b) (\<lambda>w. Some (bigint_encode L new w s))"
    using False ab by (auto simp: bigint_binary_def bigint_inline_def split: option.split)
  show ?thesis
  proof (cases "big a b")
    case None
    then show ?thesis using big [of a b] ab e by simp
  next
    case (Some w)
    then have "f x y = Some (val w)" using big [of a b] ab by simp
    then show ?thesis using Some e encodes_encode [OF laws box, of w] by auto
  qed
qed

lemma i128_sum: "- (2 ^ 62) \<le> a \<Longrightarrow> a < 2 ^ 62 \<Longrightarrow> - (2 ^ 62) \<le> b \<Longrightarrow> b < 2 ^ 62 \<Longrightarrow>
    i128_checked (a + b) = Some (a + b) \<and> i128_checked (a - b) = Some (a - b)"
  by (simp add: i128_checked_def)

lemma i128_le: "\<bar>v\<bar> \<le> 2 ^ 126 \<Longrightarrow> i128_checked v = Some v"
  by (auto simp: i128_checked_def)

lemma i128_product:
  assumes "- (2 ^ 62) \<le> a" "a < 2 ^ 62" "- (2 ^ 62) \<le> b" "b < 2 ^ 62"
  shows "i128_checked (a * b) = Some (a * b)"
proof (rule i128_le)
  have "\<bar>a\<bar> * \<bar>b\<bar> \<le> 2 ^ 62 * 2 ^ 62" using assms by (intro mult_mono) auto
  then show "\<bar>a * b\<bar> \<le> 2 ^ 126" by (simp add: abs_mult)
qed

lemma i128_quotient:
  assumes "- (2 ^ 62) \<le> a" "a < 2 ^ 62" "b \<noteq> 0"
  shows "i128_checked (a sdiv b) = Some (a sdiv b)" "i128_checked (a smod b) = Some (a smod b)"
proof -
  have "\<bar>a\<bar> div \<bar>b\<bar> \<le> \<bar>a\<bar> div 1" using assms(3) by (intro zdiv_mono2) auto
  moreover have "\<bar>a sdiv b\<bar> = \<bar>a\<bar> div \<bar>b\<bar>" using assms(3) by (auto simp: signed_divide_int_def abs_mult sgn_if pos_imp_zdiv_nonneg_iff)
  ultimately have q: "\<bar>a sdiv b\<bar> \<le> \<bar>a\<bar>" by simp
  have "\<bar>a\<bar> mod \<bar>b\<bar> \<le> \<bar>a\<bar>" by (intro zmod_le_nonneg_dividend) simp
  then have "\<bar>a smod b\<bar> \<le> \<bar>a\<bar>" using assms(3) by (auto simp: signed_modulo_int_def abs_mult sgn_if)
  with q show "i128_checked (a sdiv b) = Some (a sdiv b)" "i128_checked (a smod b) = Some (a smod b)"
    using assms(1,2) by (auto intro!: i128_le)
qed

lemma signed_bits:
  "signed_take_bit n (a AND b) = signed_take_bit n a AND signed_take_bit n (b :: int)"
  "signed_take_bit n (a OR b) = signed_take_bit n a OR signed_take_bit n b"
  "signed_take_bit n (a XOR b) = signed_take_bit n a XOR signed_take_bit n b"
  by (rule bit_eqI; auto simp: bit_simps)+

lemma i128_bits:
  assumes "- (2 ^ 62) \<le> a" "a < 2 ^ 62" "- (2 ^ 62) \<le> b" "b < 2 ^ 62"
  shows "i128_checked (a AND b) = Some (a AND b)" "i128_checked (a OR b) = Some (a OR b)" "i128_checked (a XOR b) = Some (a XOR b)"
proof -
  have s: "signed_take_bit 62 a = a" "signed_take_bit 62 b = b" using assms by (simp_all add: signed_take_bit_int_eq_self_iff)
  have in_range: "i128_checked v = Some v" if "signed_take_bit 62 v = v" for v
  proof -
    have "- (2 ^ 62) \<le> v \<and> v < 2 ^ 62" using that by (simp only: signed_take_bit_int_eq_self_iff)
    then show ?thesis by (intro i128_le) auto
  qed
  show "i128_checked (a AND b) = Some (a AND b)" "i128_checked (a OR b) = Some (a OR b)" "i128_checked (a XOR b) = Some (a XOR b)"
    by (auto intro!: in_range simp: signed_bits s)
qed

definition yields :: "'n big_ops \<Rightarrow> ('n \<Rightarrow> int) \<Rightarrow> 'n big_state \<Rightarrow> (u64 \<times> 'n big_state) option \<Rightarrow> int \<Rightarrow> bool" where
  "yields L val s r z \<longleftrightarrow> (\<exists>e. r = Some e \<and> encodes L val s z e)"

lemma yields_encode: "big_laws L val \<Longrightarrow> box_ok new s \<Longrightarrow> yields L val s (Some (bigint_encode L new v s)) (val v)"
  by (simp add: yields_def encodes_encode)

lemma yields_from: "big_laws L val \<Longrightarrow> box_ok new s \<Longrightarrow> yields L val s (Some (thaw_bigint_from_i64 L new w s)) (sint w)"
  using yields_encode [of L val new s "bo_from L (sint w)"] by (simp add: thaw_bigint_from_i64_def big_arith)

lemma div_mod_yields:
  assumes "big_laws L val" "box_ok new s" "big_value L val s l = Some x" "big_value L val s r = Some y"
  shows "if y = 0 then thaw_bigint_div L new l r s = None \<and> thaw_bigint_mod L new l r s = None
     else yields L val s (thaw_bigint_div L new l r s) (x sdiv y) \<and> yields L val s (thaw_bigint_mod L new l r s) (x smod y)"
  using binary_encodes [OF assms, of "\<lambda>a b. if b = 0 then None else i128_checked (a sdiv b)" "\<lambda>a b. if b = 0 then None else Some (a sdiv b)" "bo_div L",
        OF _ big_arith(14) [OF assms(1)]]
    binary_encodes [OF assms, of "\<lambda>a b. if b = 0 then None else i128_checked (a smod b)" "\<lambda>a b. if b = 0 then None else Some (a smod b)" "bo_rem L",
        OF _ big_arith(15) [OF assms(1)]]
  by (cases "y = 0") (simp_all add: thaw_bigint_div_def thaw_bigint_mod_def yields_def i128_quotient)

text \<open>C30. Arithmetic on \<open>bigint\<close> handles is exact. For any two handles, inline or boxed, every operator returns a handle
  of the integer result: sum, difference, product, truncating quotient and remainder, the bitwise
  operators of two's complement, negation and complement. No machine overflow happens, a zero divisor
  is the only panic, and no other handle changes its value.\<close>

theorem bigint_arith_exact:
  assumes "big_laws L val" "box_ok new s" "big_value L val s l = Some x" "big_value L val s r = Some y"
  shows "yields L val s (thaw_bigint_add L new l r s) (x + y) \<and> yields L val s (thaw_bigint_sub L new l r s) (x - y) \<and>
    yields L val s (thaw_bigint_mul L new l r s) (x * y) \<and> yields L val s (thaw_bigint_and L new l r s) (x AND y) \<and>
    yields L val s (thaw_bigint_or L new l r s) (x OR y) \<and> yields L val s (thaw_bigint_xor L new l r s) (x XOR y) \<and>
    (if y = 0 then thaw_bigint_div L new l r s = None \<and> thaw_bigint_mod L new l r s = None
     else yields L val s (thaw_bigint_div L new l r s) (x sdiv y) \<and> yields L val s (thaw_bigint_mod L new l r s) (x smod y)) \<and>
    yields L val s (thaw_bigint_neg L new l s) (- x) \<and> yields L val s (thaw_bigint_not L new l s) (NOT x)"
proof (intro conjI)
  note ops = binary_encodes [OF assms]
  show "yields L val s (thaw_bigint_add L new l r s) (x + y)"
    using ops [of "\<lambda>a b. i128_checked (a + b)" "\<lambda>a b. Some (a + b)" "\<lambda>a b. Some (bo_add L a b)"] i128_sum
    by (simp add: thaw_bigint_add_def yields_def big_arith [OF assms(1)])
  show "yields L val s (thaw_bigint_sub L new l r s) (x - y)"
    using ops [of "\<lambda>a b. i128_checked (a - b)" "\<lambda>a b. Some (a - b)" "\<lambda>a b. Some (bo_sub L a b)"] i128_sum
    by (simp add: thaw_bigint_sub_def yields_def big_arith [OF assms(1)])
  show "yields L val s (thaw_bigint_mul L new l r s) (x * y)"
    using ops [of "\<lambda>a b. i128_checked (a * b)" "\<lambda>a b. Some (a * b)" "\<lambda>a b. Some (bo_mul L a b)"] i128_product
    by (simp add: thaw_bigint_mul_def yields_def big_arith [OF assms(1)])
  show "yields L val s (thaw_bigint_and L new l r s) (x AND y)"
    using ops [of "\<lambda>a b. i128_checked (a AND b)" "\<lambda>a b. Some (a AND b)" "\<lambda>a b. Some (bo_and L a b)"] i128_bits
    by (simp add: thaw_bigint_and_def yields_def big_arith [OF assms(1)])
  show "yields L val s (thaw_bigint_or L new l r s) (x OR y)"
    using ops [of "\<lambda>a b. i128_checked (a OR b)" "\<lambda>a b. Some (a OR b)" "\<lambda>a b. Some (bo_or L a b)"] i128_bits
    by (simp add: thaw_bigint_or_def yields_def big_arith [OF assms(1)])
  show "yields L val s (thaw_bigint_xor L new l r s) (x XOR y)"
    using ops [of "\<lambda>a b. i128_checked (a XOR b)" "\<lambda>a b. Some (a XOR b)" "\<lambda>a b. Some (bo_xor L a b)"] i128_bits
    by (simp add: thaw_bigint_xor_def yields_def big_arith [OF assms(1)])
  show "if y = 0 then thaw_bigint_div L new l r s = None \<and> thaw_bigint_mod L new l r s = None
     else yields L val s (thaw_bigint_div L new l r s) (x sdiv y) \<and> yields L val s (thaw_bigint_mod L new l r s) (x smod y)"
    by (rule div_mod_yields [OF assms])
  obtain v where v: "bigint_decode L s l = Some v" "val v = x" using big_value_decode [OF assms(3)] by blast
  show "yields L val s (thaw_bigint_neg L new l s) (- x)" "yields L val s (thaw_bigint_not L new l s) (NOT x)"
    using yields_encode [OF assms(1,2), of "bo_neg L v"] yields_encode [OF assms(1,2), of "bo_sub L (bo_neg L v) (bo_from L 1)"] v
    by (simp_all add: thaw_bigint_neg_def thaw_bigint_not_def big_arith [OF assms(1)] not_int_def)
qed

end
