(* ===== verification/F64_Lemmas.thy ===== *)
theory F64_Lemmas
  imports F64_Bits
begin

text \<open>
  Truncation of an \<open>f64\<close> bit pattern is the integer part of its value, and the fractional sign is the sign of what is left.
\<close>

subsection \<open>Lengths\<close>

lemma nat_bits_bounds: "n < 2 ^ nat_bits n \<and> (n \<noteq> 0 \<longrightarrow> 0 < nat_bits n \<and> 2 ^ (nat_bits n - 1) \<le> n)"
proof (induction n rule: less_induct)
  case (less n)
  show ?case
  proof (cases "n = 0")
    case True
    then show ?thesis by (simp add: nat_bits.simps)
  next
    case False
    then have IH: "n div 2 < 2 ^ nat_bits (n div 2) \<and> (n div 2 \<noteq> 0 \<longrightarrow> 0 < nat_bits (n div 2) \<and> 2 ^ (nat_bits (n div 2) - 1) \<le> n div 2)"
      by (intro less.IH) simp
    have s: "nat_bits n = Suc (nat_bits (n div 2))" using False by (subst nat_bits.simps) simp
    have "2 ^ nat_bits (n div 2) \<le> n"
    proof (cases "n div 2 = 0")
      case True
      then show ?thesis using False by (simp add: nat_bits.simps)
    next
      case half: False
      then have "2 ^ nat_bits (n div 2) = 2 * (2 ^ (nat_bits (n div 2) - 1) :: nat)" using IH by (metis Suc_pred' power_Suc)
      then show ?thesis using IH half by linarith
    qed
    moreover have "n < 2 * 2 ^ nat_bits (n div 2)" using IH by linarith
    ultimately show ?thesis using s by simp
  qed
qed

lemma nat_bits_eq: "n < 2 ^ b \<Longrightarrow> n \<noteq> 0 \<Longrightarrow> 2 ^ (b - 1) \<le> n \<Longrightarrow> 0 < b \<Longrightarrow> nat_bits n = b"
proof -
  assume a: "n < 2 ^ b" "n \<noteq> 0" "2 ^ (b - 1) \<le> n" "0 < b"
  have "2 ^ (nat_bits n - 1) < (2 :: nat) ^ b" "2 ^ (b - 1) < (2 :: nat) ^ nat_bits n"
    using a nat_bits_bounds [of n] by linarith+
  then have "nat_bits n - 1 < b" "b - 1 < nat_bits n" by simp_all
  then show ?thesis using a(4) by linarith
qed

subsection \<open>Fields\<close>

lemma unat_64: "unat (y :: u64) < 2 ^ 64"
  using unsigned_less [of y, where ?'a = nat] by simp

lemma unat_drop_bit: "unat (drop_bit k (y :: u64)) = unat y div 2 ^ k"
proof -
  have "take_bit 64 (unat y) = unat y" using unat_64 by (rule take_bit_nat_eq_self)
  then show ?thesis by (simp only: unsigned_drop_bit_eq) (simp add: drop_bit_eq_div)
qed

lemma unat_clear_low: "unat ((y :: u64) AND NOT (mask k)) = unat y div 2 ^ k * 2 ^ k"
proof -
  have "y AND NOT (mask k) = push_bit k (drop_bit k y)" by (rule bit_word_eqI) (auto simp: bit_simps)
  moreover have "unat y div 2 ^ k * 2 ^ k < 2 ^ 64"
    using unat_64 [of y] div_times_less_eq_dividend [of "unat y" "2 ^ k"] by (rule le_less_trans [rotated])
  moreover have "unat (push_bit k (drop_bit k y)) = take_bit 64 (push_bit k (unat (drop_bit k y)))" by (simp only: unsigned_push_bit_eq) simp
  moreover have "unat (drop_bit k y) = unat y div 2 ^ k" by (rule unat_drop_bit)
  ultimately show ?thesis by (simp only: push_bit_eq_mult take_bit_nat_eq_self)
qed

lemma unat_low_bits: "unat ((y :: u64) AND mask k) = unat y mod 2 ^ k"
proof -
  have "y AND mask k = take_bit k y" by (simp add: take_bit_eq_mask)
  then show ?thesis by (simp only: unsigned_take_bit_eq) (simp only: take_bit_eq_mod)
qed

lemma f64_fields:
  "f64_fraction x = unat x mod 2 ^ 52" "f64_exponent x = unat x div 2 ^ 52 mod 2 ^ 11" "f64_fraction x < 2 ^ 52"
proof -
  have m: "(0xfffffffffffff :: u64) = mask 52" "(0x7ff :: u64) = mask 11" by (simp_all add: mask_eq_exp_minus_1)
  show f: "f64_fraction x = unat x mod 2 ^ 52" unfolding f64_fraction_def m by (rule unat_low_bits)
  show "f64_exponent x = unat x div 2 ^ 52 mod 2 ^ 11" unfolding f64_exponent_def m unat_low_bits unat_drop_bit ..
  show "f64_fraction x < 2 ^ 52" by (simp add: f)
qed

lemma f64_negative_unat: "f64_negative x \<longleftrightarrow> unat x div 2 ^ 63 = 1"
proof -
  have "f64_negative x \<longleftrightarrow> bit (unat x) 63" by (simp add: f64_negative_def bit_unsigned_iff)
  then have "f64_negative x \<longleftrightarrow> odd (unat x div 2 ^ 63)" by (simp only: bit_iff_odd)
  moreover have "unat x div 2 ^ 63 < 2" using unat_64 [of x] by simp
  ultimately show ?thesis by (cases "unat x div 2 ^ 63 = 0") (auto simp: less_2_cases_iff)
qed

text \<open>The three fields determine the pattern.\<close>

lemma f64_split: "unat x = (unat x div 2 ^ 63 * 2 ^ 11 + f64_exponent x) * 2 ^ 52 + f64_fraction x"
proof -
  have "unat x div 2 ^ 52 div 2 ^ 11 = unat x div 2 ^ 63" by (simp flip: div_mult2_eq)
  then have "unat x div 2 ^ 52 = unat x div 2 ^ 63 * 2 ^ 11 + f64_exponent x" unfolding f64_fields(2) by (metis div_mult_mod_eq)
  then show ?thesis unfolding f64_fields(1) by (metis div_mult_mod_eq)
qed

lemma f64_from_fields:
  assumes "unat x = (n * 2 ^ 11 + e) * 2 ^ 52 + f" "e < 2 ^ 11" "f < 2 ^ 52"
  shows "f64_exponent x = e \<and> f64_fraction x = f \<and> unat x div 2 ^ 63 = n"
proof -
  have f: "f64_fraction x = f" and q: "unat x div 2 ^ 52 = n * 2 ^ 11 + e"
    unfolding f64_fields(1) assms(1) using assms(3) by (simp_all only: mod_mult_self3 div_mult_self3 mod_less div_less add_0_right)
  have "unat x div 2 ^ 52 div 2 ^ 11 = unat x div 2 ^ 63" by (simp flip: div_mult2_eq)
  then show ?thesis using f q assms(2) by (simp add: f64_fields(2))
qed

lemma f64_special: "f64_is_finite x \<longleftrightarrow> \<not> f64_is_infinite x \<and> \<not> f64_is_nan x"
proof -
  have e: "f64_exponent x = 0x7ff \<longleftrightarrow> x AND 0x7ff0000000000000 = 0x7ff0000000000000"
  proof -
    have m: "(0x7ff0000000000000 :: u64) = push_bit 52 0x7ff" by simp
    have "x AND push_bit k w = push_bit k (drop_bit k x AND w)" for k and w :: u64 by (rule bit_word_eqI) (auto simp: bit_simps)
    then have "x AND push_bit 52 0x7ff = push_bit 52 (drop_bit 52 x AND 0x7ff)" by blast
    moreover have "push_bit 52 (drop_bit 52 x AND 0x7ff) = push_bit 52 (0x7ff :: u64) \<longleftrightarrow> drop_bit 52 x AND 0x7ff = 0x7ff"
    proof
      assume a: "push_bit 52 (drop_bit 52 x AND 0x7ff) = push_bit 52 (0x7ff :: u64)"
      have "take_bit 11 (drop_bit 52 (push_bit 52 w)) = take_bit 11 (w :: u64)" for w by (rule bit_word_eqI) (auto simp: bit_simps)
      then have "take_bit 11 (drop_bit 52 x AND 0x7ff) = take_bit 11 (0x7ff :: u64)" using a by metis
      moreover have "take_bit 11 (drop_bit 52 x AND 0x7ff) = drop_bit 52 x AND 0x7ff"
        by (simp add: take_bit_eq_mask mask_eq_exp_minus_1 and.assoc)
      ultimately show "drop_bit 52 x AND 0x7ff = 0x7ff" by simp
    qed simp
    moreover have "f64_exponent x = 0x7ff \<longleftrightarrow> drop_bit 52 x AND 0x7ff = 0x7ff"
      by (simp add: f64_exponent_def word_unat_eq_iff)
    ultimately show ?thesis unfolding m by simp
  qed
  moreover have "f64_fraction x = 0 \<longleftrightarrow> x AND 0xfffffffffffff = 0" by (simp add: f64_fraction_def unat_eq_zero)
  ultimately show ?thesis by (auto simp: f64_is_finite_def f64_is_infinite_def f64_is_nan_def)
qed

subsection \<open>Truncation\<close>

lemma trunc_small:
  assumes "f64_exponent x < 1023"
  shows "f64_exponent (f64_trunc x) = 0 \<and> f64_fraction (f64_trunc x) = 0 \<and> (f64_negative (f64_trunc x) \<longleftrightarrow> f64_negative x)"
proof -
  have "x AND 0x8000000000000000 = x AND NOT (mask 63)"
    by (rule bit_word_eqI) (auto simp: bit_simps bit_numeral_word_iff less_Suc_eq numeral_eq_Suc)
  then have "unat (f64_trunc x) = (unat x div 2 ^ 63 * 2 ^ 11 + 0) * 2 ^ 52 + 0"
    using assms unat_clear_low [of x 63] by (simp add: f64_trunc_def)
  then show ?thesis using f64_from_fields [of "f64_trunc x" "unat x div 2 ^ 63" 0 0] by (simp add: f64_negative_unat)
qed

lemma trunc_middle:
  assumes "1023 \<le> f64_exponent x" "f64_exponent x < 1075"
  shows "f64_exponent (f64_trunc x) = f64_exponent x \<and>
    f64_fraction (f64_trunc x) = f64_fraction x div 2 ^ (1075 - f64_exponent x) * 2 ^ (1075 - f64_exponent x) \<and>
    (f64_negative (f64_trunc x) \<longleftrightarrow> f64_negative x)"
proof -
  let ?k = "1075 - f64_exponent x" and ?h = "unat x div 2 ^ 63 * 2 ^ 11 + f64_exponent x"
  have k: "?k \<le> 52" using assms by simp
  have p: "(2 :: nat) ^ 52 = 2 ^ (52 - ?k) * 2 ^ ?k" using k by (simp flip: power_add)
  have "unat x = (?h * 2 ^ (52 - ?k)) * 2 ^ ?k + f64_fraction x" using f64_split [of x] by (simp only: p mult.assoc)
  then have "unat x div 2 ^ ?k = ?h * 2 ^ (52 - ?k) + f64_fraction x div 2 ^ ?k" by (metis add.commute div_mult_self3 power_not_zero zero_neq_numeral)
  then have "unat x div 2 ^ ?k * 2 ^ ?k = ?h * 2 ^ 52 + f64_fraction x div 2 ^ ?k * 2 ^ ?k" by (simp only: p distrib_right mult.assoc)
  then have u: "unat (f64_trunc x) = ?h * 2 ^ 52 + f64_fraction x div 2 ^ ?k * 2 ^ ?k"
    using assms unat_clear_low [of x ?k] by (simp add: f64_trunc_def)
  have "f64_fraction x div 2 ^ ?k * 2 ^ ?k < 2 ^ 52"
    using f64_fields(3) [of x] div_times_less_eq_dividend [of "f64_fraction x" "2 ^ ?k"] by (rule le_less_trans [rotated])
  then show ?thesis using f64_from_fields [OF u] f64_fields(2) [of x] by (simp add: f64_negative_unat)
qed

lemma f64_eqI: "f64_exponent x = f64_exponent y \<Longrightarrow> f64_fraction x = f64_fraction y \<Longrightarrow> (f64_negative x \<longleftrightarrow> f64_negative y) \<Longrightarrow> x = y"
proof -
  assume a: "f64_exponent x = f64_exponent y" "f64_fraction x = f64_fraction y" "f64_negative x \<longleftrightarrow> f64_negative y"
  have "unat z div 2 ^ 63 = 0 \<or> unat z div 2 ^ 63 = 1" for z :: u64
  proof -
    have "unat z div 2 ^ 63 < 2" using unat_64 [of z] by simp
    then show ?thesis by linarith
  qed
  then have "unat x div 2 ^ 63 = unat y div 2 ^ 63" using a(3) unfolding f64_negative_unat by (metis zero_neq_one)
  then have "unat x = unat y" using f64_split [of x] f64_split [of y] a(1,2) by simp
  then show "x = y" by (rule unsigned_word_eqI)
qed

lemma trunc_scaled:
  "f64_scaled (f64_trunc x) = f64_scaled x div 2 ^ 1075 * 2 ^ 1075 \<and> f64_exponent (f64_trunc x) \<le> f64_exponent x \<and>
   (f64_negative (f64_trunc x) \<longleftrightarrow> f64_negative x) \<and> (f64_trunc x = x \<longleftrightarrow> 2 ^ 1075 dvd f64_scaled x)"
proof -
  consider "f64_exponent x < 1023" | "1023 \<le> f64_exponent x" "f64_exponent x < 1075" | "1075 \<le> f64_exponent x" by linarith
  then show ?thesis
  proof cases
    case 1
    note t = trunc_small [OF 1]
    have "f64_significand x < 2 ^ 53" using f64_fields(3) [of x] by (simp add: f64_significand_def)
    moreover have "(2 :: nat) ^ f64_power x \<le> 2 ^ 1022" using 1 by (intro power_increasing) (auto simp: f64_power_def)
    ultimately have "f64_scaled x < 2 ^ 53 * 2 ^ 1022" unfolding f64_scaled_def by (intro mult_less_le_imp_less) auto
    then have lt: "f64_scaled x < 2 ^ 1075" unfolding power_add [symmetric] by simp
    have z: "f64_scaled (f64_trunc x) = 0" using t by (simp add: f64_scaled_def f64_significand_def)
    have "f64_trunc x = x \<longleftrightarrow> f64_scaled x = 0"
    proof
      assume "f64_scaled x = 0"
      then have "f64_exponent x = 0 \<and> f64_fraction x = 0" by (auto simp: f64_scaled_def f64_significand_def split: if_splits)
      then show "f64_trunc x = x" using t by (intro f64_eqI) simp_all
    qed (use z in simp)
    moreover have "f64_scaled x = 0 \<longleftrightarrow> 2 ^ 1075 dvd f64_scaled x" using lt by (metis dvd_0_right nat_dvd_not_less neq0_conv)
    moreover have "f64_scaled x div 2 ^ 1075 = 0" using lt by (rule div_less)
    ultimately show ?thesis using t z by simp
  next
    case 2
    let ?k = "1075 - f64_exponent x" and ?e = "f64_exponent x"
    note t = trunc_middle [OF 2]
    have k: "?k \<le> 52" using 2 by simp
    have p: "(2 :: nat) ^ 52 = 2 ^ (52 - ?k) * 2 ^ ?k" using k by (simp flip: power_add)
    have b: "(2 :: nat) ^ 1075 = 2 ^ ?k * 2 ^ ?e" using 2 unfolding power_add [symmetric] by simp
    have s: "f64_significand x = 2 ^ (52 - ?k) * 2 ^ ?k + f64_fraction x" using 2 unfolding p [symmetric] by (simp add: f64_significand_def)
    have d: "f64_significand x div 2 ^ ?k * 2 ^ ?k = 2 ^ (52 - ?k) * 2 ^ ?k + f64_fraction x div 2 ^ ?k * 2 ^ ?k"
      unfolding s by (simp add: distrib_right)
    have st: "f64_significand (f64_trunc x) = f64_significand x div 2 ^ ?k * 2 ^ ?k"
      unfolding d p [symmetric] using t 2 by (simp add: f64_significand_def)
    have pw: "f64_power (f64_trunc x) = ?e" "f64_power x = ?e" using t 2 by (simp_all add: f64_power_def)
    have c: "f64_scaled x div 2 ^ 1075 = f64_significand x div 2 ^ ?k" unfolding b f64_scaled_def pw by simp
    have "2 ^ 1075 dvd f64_scaled x \<longleftrightarrow> 2 ^ ?k dvd f64_significand x" unfolding b f64_scaled_def pw by simp
    also have "\<dots> \<longleftrightarrow> 2 ^ ?k dvd f64_fraction x" unfolding s by (simp add: dvd_add_right_iff)
    also have "\<dots> \<longleftrightarrow> f64_trunc x = x"
    proof
      assume "2 ^ ?k dvd f64_fraction x"
      then show "f64_trunc x = x" using t by (intro f64_eqI) simp_all
    next
      assume "f64_trunc x = x"
      then show "2 ^ ?k dvd f64_fraction x" using t by (metis dvd_triv_right)
    qed
    finally show ?thesis using t st c unfolding f64_scaled_def pw b by (simp add: mult.assoc)
  next
    case 3
    then have "f64_trunc x = x" by (simp add: f64_trunc_def)
    moreover have "(2 :: nat) ^ 1075 dvd f64_scaled x" using 3 unfolding f64_scaled_def f64_power_def by (intro dvd_mult le_imp_power_dvd) simp
    ultimately show ?thesis by (metis dvd_div_mult_self order_refl)
  qed
qed

lemma f64_magnitude_scaled: "f64_magnitude x = f64_scaled x div 2 ^ 1075"
  by (simp add: f64_magnitude_def f64_scaled_def)

text \<open>Truncation keeps the integer part, and the fractional sign says which side the value lies on.\<close>

lemma f64_trunc_int: "f64_int (f64_trunc x) = f64_int x" "f64_is_finite x \<Longrightarrow> f64_is_finite (f64_trunc x)"
proof -
  have t: "f64_scaled (f64_trunc x) = f64_scaled x div 2 ^ 1075 * 2 ^ 1075" "f64_exponent (f64_trunc x) \<le> f64_exponent x"
    "f64_negative (f64_trunc x) \<longleftrightarrow> f64_negative x" using trunc_scaled [of x] by blast+
  have "f64_magnitude (f64_trunc x) = f64_magnitude x" unfolding f64_magnitude_scaled t(1) by (rule nonzero_mult_div_cancel_right) simp
  then show "f64_int (f64_trunc x) = f64_int x" using t(3) by (simp add: f64_int_def)
  have "f64_exponent x < 2 ^ 11" unfolding f64_fields(2) by simp
  then show "f64_is_finite x \<Longrightarrow> f64_is_finite (f64_trunc x)" using t(2) by (simp add: f64_is_finite_def)
qed

lemma f64_fract_sign_value:
  "f64_fract_sign x = sgn (f64_value x - of_int (f64_int x)) \<and> \<bar>f64_value x - of_int (f64_int x)\<bar> < 1"
proof -
  define B :: nat where "B = 2 ^ 1075"
  define A where "A = f64_scaled x"
  have B: "0 < B" by (simp add: B_def)
  have v: "f64_value x = (if f64_negative x then -1 else 1) * (real A / real B)"
    by (simp only: f64_value_def A_def B_def f64_scaled_def of_nat_mult of_nat_power of_nat_numeral)
  have i: "f64_int x = (if f64_negative x then -1 else 1) * int (A div B)"
    by (simp add: f64_int_def f64_magnitude_scaled A_def B_def)
  have "real A = real (A div B) * real B + real (A mod B)" by (metis div_mult_mod_eq of_nat_add of_nat_mult)
  then have q: "real A / real B = real (A div B) + real (A mod B) / real B" using B by (simp add: field_simps)
  then have d: "f64_value x - of_int (f64_int x) = (if f64_negative x then -1 else 1) * (real (A mod B) / real B)" unfolding v i by simp
  have m: "0 \<le> real (A mod B) / real B" "real (A mod B) / real B < 1" using B by simp_all
  have z: "f64_trunc x = x \<longleftrightarrow> A mod B = 0" using trunc_scaled [of x] unfolding A_def B_def by (simp only: dvd_eq_mod_eq_0)
  have "sgn (real (A mod B) / real B) = (if A mod B = 0 then 0 else 1)" using B by (simp add: sgn_if zero_less_divide_iff)
  then show ?thesis unfolding d f64_fract_sign_def z using m by (cases "f64_negative x") (auto simp: sgn_mult abs_mult)
qed

end
