(* ===== verification/Bigint_Checks.thy ===== *)
theory Bigint_Checks
  imports Bigint_Properties F64_Lemmas
begin

text \<open>
  The check that compiled code makes before \<open>/\<close>, \<open>%\<close>, \<open>**\<close>, \<open><<\<close> and \<open>>>\<close>: its answer decides exactly whether the operator
  is defined and small enough, and after a good answer the operator returns the integer result.
\<close>

subsection \<open>Lengths\<close>

lemma bo_bits_length:
  assumes laws: "big_laws L val" and nz: "val v \<noteq> 0"
  shows "bo_bits L v = nat_bits (nat \<bar>val v\<bar>)"
proof (rule nat_bits_eq [symmetric])
  show "nat \<bar>val v\<bar> < 2 ^ bo_bits L v" using big_bits(1) [OF laws, of v] by (simp add: nat_less_iff)
  show "2 ^ (bo_bits L v - 1) \<le> nat \<bar>val v\<bar>" using big_bits(2) [OF laws nz] by (simp add: le_nat_iff)
qed (use big_bits(2) [OF laws nz] nz in auto)

lemma abs_less_bits: "\<bar>x\<bar> < (2 :: int) ^ nat_bits (nat \<bar>x\<bar>)"
  using nat_bits_bounds [of "nat \<bar>x\<bar>"] by (simp add: nat_less_iff)

subsection \<open>Powers\<close>

definition pow_code :: "int \<Rightarrow> int \<Rightarrow> nat" where
  "pow_code x y = (if y < 0 then 2 else if \<bar>x\<bar> \<le> 1 \<or> y = 0 \<or> nat_bits (nat \<bar>x\<bar>) * nat y \<le> 2 ^ 30 then 0 else 3)"

lemma saturating_bound: "saturating_mul a b \<le> 2 ^ 30 \<longleftrightarrow> a * b \<le> 2 ^ 30" "saturating_add a b > 2 ^ 30 \<longleftrightarrow> a + b > 2 ^ 30"
  by (auto simp: saturating_mul_def saturating_add_def usize_limit_def)

lemma pow_error_code:
  assumes laws: "big_laws L val" and y: "0 \<le> val e"
  shows "pow_error L b e = pow_code (val b) (val e)"
proof (cases "\<bar>val b\<bar> \<le> 1 \<or> val e = 0")
  case True
  then have "val b = 0 \<or> \<bar>val b\<bar> = 1 \<or> val e = 0" by auto
  then show ?thesis using True y by (auto simp: pow_error_def pow_code_def big_query [OF laws] big_arith [OF laws])
next
  case False
  then have nz: "val b \<noteq> 0" by auto
  have pos: "0 < nat_bits (nat \<bar>val b\<bar>)" using nat_bits_bounds [of "nat \<bar>val b\<bar>"] nz by simp
  have big: "2 ^ 30 < nat_bits (nat \<bar>val b\<bar>) * nat (val e)" if "2 ^ 64 \<le> val e"
  proof -
    have "nat (val e) \<le> nat_bits (nat \<bar>val b\<bar>) * nat (val e)" using pos by simp
    moreover have "2 ^ 64 \<le> nat (val e)" using that by (simp add: le_nat_iff)
    moreover have "(2 :: nat) ^ 30 < 2 ^ 64" by simp
    ultimately show ?thesis by (meson less_le_trans)
  qed
  show ?thesis using False y big
    by (auto simp: pow_error_def pow_code_def big_query [OF laws] big_arith [OF laws] bo_bits_length [OF laws nz] BIGINT_MAX_BITS_def
        saturating_bound [simplified])
qed

lemma pow_result:
  assumes laws: "big_laws L val" and box: "box_ok new s" and d: "bigint_decode L s l = Some b" "bigint_decode L s r = Some e"
    and ok: "pow_code (val b) (val e) = 0"
  shows "yields L val s (thaw_bigint_pow L new l r s) (if \<bar>val b\<bar> = 1 \<and> 2 ^ 64 \<le> val e then 0 else val b ^ nat (val e))"
proof -
  have y: "0 \<le> val e" using ok by (auto simp: pow_code_def split: if_splits)
  note const = yields_from [OF laws box]
  show ?thesis
  proof (cases "val e < 2 ^ 64")
    case huge: False
    have "\<bar>val b\<bar> \<le> 1"
    proof (rule ccontr)
      assume "\<not> \<bar>val b\<bar> \<le> 1"
      then have "nat_bits (nat \<bar>val b\<bar>) * nat (val e) \<le> 2 ^ 30" "0 < nat_bits (nat \<bar>val b\<bar>)"
        using ok huge nat_bits_bounds [of "nat \<bar>val b\<bar>"] by (auto simp: pow_code_def split: if_splits)
      then have "nat (val e) \<le> 2 ^ 30" by (metis One_nat_def Suc_leI le_trans mult_le_mono1 nat_mult_1)
      then show False using huge by (simp add: nat_le_iff)
    qed
    then have "val b = 0 \<or> \<bar>val b\<bar> = 1" by auto
    then show ?thesis using d huge const [of 0] y
      by (auto simp: thaw_bigint_pow_def big_query [OF laws] power_0_left)
  next
    case False: True
    have e: "bo_to_u64 L e = Some (nat (val e))" using False y by (simp add: big_query [OF laws])
    consider "val b = 0 \<or> val e = 0" | "val b = 1" "val e \<noteq> 0" | "val b = -1" "val e \<noteq> 0" | "1 < \<bar>val b\<bar>" "val e \<noteq> 0" by linarith
    then show ?thesis
    proof cases
      case 1
      then show ?thesis using d e y False const [of 0] const [of 1]
        by (auto simp: thaw_bigint_pow_def big_query [OF laws] power_0_left)
    next
      case 2
      then show ?thesis using d e y False const [of 1] by (auto simp: thaw_bigint_pow_def big_query [OF laws] big_arith [OF laws])
    next
      case 3
      then show ?thesis using d e y False const [of 1] const [of "-1"]
        by (auto simp: thaw_bigint_pow_def big_query [OF laws] big_arith [OF laws])
    next
      case 4
      then have "nat_bits (nat \<bar>val b\<bar>) * nat (val e) \<le> 2 ^ 30" "0 < nat_bits (nat \<bar>val b\<bar>)"
        using ok y nat_bits_bounds [of "nat \<bar>val b\<bar>"] by (auto simp: pow_code_def split: if_splits)
      then have "nat (val e) \<le> 2 ^ 30" by (metis One_nat_def Suc_leI le_trans mult_le_mono1 nat_mult_1)
      then have "nat (val e) mod 2 ^ 32 = nat (val e)" by simp
      then show ?thesis using 4 d e y False yields_encode [OF laws box, of "bo_pow L b (nat (val e))"]
        by (auto simp: thaw_bigint_pow_def big_query [OF laws] big_arith [OF laws])
    qed
  qed
qed


subsection \<open>Shifts\<close>

definition shift_value :: "int \<Rightarrow> int \<Rightarrow> int" where
  "shift_value x k = (if 0 \<le> k then x * 2 ^ nat k else x div 2 ^ nat (- k))"

definition shift_code :: "int \<Rightarrow> int \<Rightarrow> nat" where
  "shift_code x k = (if 0 \<le> k \<and> x \<noteq> 0 \<and> 2 ^ 30 < nat k + nat_bits (nat \<bar>x\<bar>) then 3 else 0)"

lemma shift_error_code:
  assumes laws: "big_laws L val"
  shows "shift_error L BIGINT_SHL (Some l) k = Some (shift_code (val l) (val k))"
    "shift_error L BIGINT_SHR (Some l) k = Some (if val k = 0 then 0 else shift_code (val l) (- val k))"
proof -
  have big: "2 ^ 30 < nat \<bar>val k\<bar> + nat_bits (nat \<bar>val l\<bar>)" if "2 ^ 64 \<le> \<bar>val k\<bar>"
  proof -
    have "2 ^ 64 \<le> nat \<bar>val k\<bar>" using that by (simp add: le_nat_iff)
    moreover have "(2 :: nat) ^ 30 < 2 ^ 64" by simp
    ultimately show ?thesis by linarith
  qed
  have c: "\<not> bo_is_zero L l \<and> (case bo_to_u64 L (bo_abs L k) of None \<Rightarrow> True | Some a \<Rightarrow> saturating_add a (bo_bits L l) > BIGINT_MAX_BITS)
      \<longleftrightarrow> val l \<noteq> 0 \<and> 2 ^ 30 < nat \<bar>val k\<bar> + nat_bits (nat \<bar>val l\<bar>)"
    using big by (auto simp: big_query [OF laws] big_arith [OF laws] bo_bits_length [OF laws] BIGINT_MAX_BITS_def saturating_bound [simplified])
  show "shift_error L BIGINT_SHL (Some l) k = Some (shift_code (val l) (val k))"
    unfolding shift_error_def option.map c by (auto simp: shift_code_def big_query [OF laws])
  show "shift_error L BIGINT_SHR (Some l) k = Some (if val k = 0 then 0 else shift_code (val l) (- val k))"
    unfolding shift_error_def option.map c by (auto simp: shift_code_def big_query [OF laws])
qed

lemma div_out_of_bits:
  assumes "nat_bits (nat \<bar>x\<bar>) \<le> k"
  shows "x div 2 ^ k = (if x < 0 then -1 else 0)"
proof -
  have "\<bar>x\<bar> < 2 ^ k" using abs_less_bits [of x] assms by (metis le_less_trans less_le_trans one_le_numeral power_increasing)
  then show ?thesis using int_div_pos_eq [of x "2 ^ k" "-1" "x + 2 ^ k"] by (auto simp: abs_if split: if_splits)
qed

lemma shift_result:
  assumes laws: "big_laws L val" and ok: "val k = 0 \<or> shift_code (val v) (if up then val k else - val k) = 0" and len: "nat_bits (nat \<bar>val v\<bar>) < 2 ^ 64"
  shows "val (bigint_shift L v k up) = shift_value (val v) (if up then val k else - val k)"
proof (cases "\<bar>val k\<bar> < 2 ^ 64")
  case True
  then show ?thesis by (auto simp: bigint_shift_def shift_value_def big_query [OF laws] big_arith [OF laws] Let_def)
next
  case False
  let ?k = "if up then val k else - val k"
  have n: "bo_to_u64 L (bo_abs L k) = None" using False by (simp add: big_query [OF laws] big_arith [OF laws])
  have h: "2 ^ 64 \<le> nat \<bar>?k\<bar>" using False by (simp add: le_nat_iff)
  show ?thesis
  proof (cases "0 \<le> ?k")
    case up: True
    have "(2 :: nat) ^ 30 < 2 ^ 64" by simp
    then have "2 ^ 30 < nat ?k + nat_bits (nat \<bar>val v\<bar>)" using h up by linarith
    moreover have "val k \<noteq> 0" using False by auto
    ultimately have "val v = 0" using ok up by (auto simp: shift_code_def split: if_splits)
    then show ?thesis using n up False
      by (auto simp: bigint_shift_def shift_value_def big_query [OF laws] big_arith [OF laws] split: if_splits)
  next
    case down: False
    have "nat_bits (nat \<bar>val v\<bar>) \<le> nat (- ?k)" using h len down by linarith
    then have "shift_value (val v) ?k = (if val v < 0 then -1 else 0)" using down div_out_of_bits by (simp add: shift_value_def)
    then show ?thesis using n down False
      by (auto simp: bigint_shift_def big_query [OF laws] big_arith [OF laws] split: if_splits)
  qed
qed

subsection \<open>The check and the operators\<close>

lemma shift_yields:
  assumes laws: "big_laws L val" and box: "box_ok new s" and d: "bigint_decode L s l = Some v" "bigint_decode L s r = Some k"
    and ok: "val k = 0 \<or> shift_code (val v) (if up then val k else - val k) = 0" and len: "nat_bits (nat \<bar>val v\<bar>) < 2 ^ 64"
  shows "yields L val s (bigint_shift_op up L new l r s) (shift_value (val v) (if up then val k else - val k))"
  using yields_encode [OF laws box, of "bigint_shift L v k up"] d shift_result [OF laws ok len] by (simp add: bigint_shift_op_def)

text \<open>C31. The check before an operator is exact, and its answer 0 gives the integer result. Take two integers, the left one
  of fewer than 2 to the 64 bits. \<open>thaw_bigint_binop_error\<close> answers 1 exactly for a zero divisor, 2 exactly for
  a negative exponent, and 3 exactly when the size bound of a power or of a shift to the left is exceeded;
  a shift right by 0 always passes. After the answer 0 the operator returns the quotient or remainder of truncating
  division, the power, and the shift that rounds down. The exception is a base of 1 or -1 with an
  exponent of 2 to the 64 or more, where the code returns 0 although the power is 1 or -1.\<close>

theorem bigint_checked_ops:
  assumes "big_laws L val" "box_ok new s" "big_value L val s l = Some x" "big_value L val s r = Some y"
    and "nat_bits (nat \<bar>x\<bar>) < 2 ^ 64"
  shows "thaw_bigint_binop_error L s BIGINT_DIV l r = Some (if y = 0 then 1 else 0) \<and>
    thaw_bigint_binop_error L s BIGINT_MOD l r = Some (if y = 0 then 1 else 0) \<and>
    thaw_bigint_binop_error L s BIGINT_POW l r = Some (pow_code x y) \<and>
    thaw_bigint_binop_error L s BIGINT_SHL l r = Some (shift_code x y) \<and>
    thaw_bigint_binop_error L s BIGINT_SHR l r = Some (if y = 0 then 0 else shift_code x (- y)) \<and>
    (thaw_bigint_binop_error L s BIGINT_DIV l r = Some 0 \<longrightarrow> yields L val s (thaw_bigint_div L new l r s) (x sdiv y)) \<and>
    (thaw_bigint_binop_error L s BIGINT_MOD l r = Some 0 \<longrightarrow> yields L val s (thaw_bigint_mod L new l r s) (x smod y)) \<and>
    (thaw_bigint_binop_error L s BIGINT_POW l r = Some 0 \<longrightarrow>
       yields L val s (thaw_bigint_pow L new l r s) (if \<bar>x\<bar> = 1 \<and> 2 ^ 64 \<le> y then 0 else x ^ nat y)) \<and>
    (thaw_bigint_binop_error L s BIGINT_SHL l r = Some 0 \<longrightarrow> yields L val s (thaw_bigint_shl L new l r s) (shift_value x y)) \<and>
    (thaw_bigint_binop_error L s BIGINT_SHR l r = Some 0 \<longrightarrow> yields L val s (thaw_bigint_shr L new l r s) (shift_value x (- y)))"
proof -
  note laws = assms(1) and box = assms(2)
  obtain v k where d: "bigint_decode L s l = Some v" "val v = x" "bigint_decode L s r = Some k" "val k = y"
    using assms(3,4) [THEN big_value_decode] by blast
  have e: "thaw_bigint_binop_error L s BIGINT_DIV l r = Some (if y = 0 then 1 else 0)"
    "thaw_bigint_binop_error L s BIGINT_MOD l r = Some (if y = 0 then 1 else 0)"
    "thaw_bigint_binop_error L s BIGINT_POW l r = Some (pow_code x y)"
    using d pow_error_code [OF laws, of k v] by (auto simp: thaw_bigint_binop_error_def big_query [OF laws] pow_code_def)
  have f: "thaw_bigint_binop_error L s BIGINT_SHL l r = Some (shift_code x y)"
    "thaw_bigint_binop_error L s BIGINT_SHR l r = Some (if y = 0 then 0 else shift_code x (- y))"
    using d shift_error_code [OF laws, where l = v and k = k] by (simp_all add: thaw_bigint_binop_error_def)
  have m: "y \<noteq> 0 \<longrightarrow> yields L val s (thaw_bigint_div L new l r s) (x sdiv y)"
    "y \<noteq> 0 \<longrightarrow> yields L val s (thaw_bigint_mod L new l r s) (x smod y)"
    using div_mod_yields [OF assms(1-4)] by simp_all
  have p: "pow_code x y = 0 \<longrightarrow> yields L val s (thaw_bigint_pow L new l r s) (if \<bar>x\<bar> = 1 \<and> 2 ^ 64 \<le> y then 0 else x ^ nat y)"
    using pow_result [OF laws box d(1,3)] unfolding d by blast
  have q: "shift_code x y = 0 \<longrightarrow> yields L val s (thaw_bigint_shl L new l r s) (shift_value x y)"
    "y = 0 \<or> shift_code x (- y) = 0 \<longrightarrow> yields L val s (thaw_bigint_shr L new l r s) (shift_value x (- y))"
    using d assms(5) shift_yields [OF laws box d(1,3), of True] shift_yields [OF laws box d(1,3), of False]
    by (simp_all add: thaw_bigint_shl_def thaw_bigint_shr_def)
  show ?thesis unfolding e f using m p q by auto
qed

subsection \<open>Integers as an instance\<close>

text \<open>The integers themselves satisfy what is asked of the library.\<close>

definition int_ops :: "int big_ops" where
  "int_ops = \<lparr>bo_from = id, bo_to_i64 = (\<lambda>v. if - (2 ^ 63) \<le> v \<and> v < 2 ^ 63 then Some v else None),
     bo_to_u64 = (\<lambda>v. if 0 \<le> v \<and> v < 2 ^ 64 then Some (nat v) else None), bo_add = (+), bo_sub = (-), bo_mul = (*),
     bo_div = (\<lambda>a b. if b = 0 then None else Some (a sdiv b)), bo_rem = (\<lambda>a b. if b = 0 then None else Some (a smod b)),
     bo_and = (AND), bo_or = (OR), bo_xor = (XOR), bo_shl = (\<lambda>a k. a * 2 ^ k), bo_shr = (\<lambda>a k. a div 2 ^ k), bo_mod_floor = (mod),
     bo_neg = uminus, bo_abs = abs, bo_pow = (\<lambda>a e. a ^ e), bo_cmp = (\<lambda>a b. sgn (a - b)), bo_sign = sgn, bo_bits = (\<lambda>a. nat_bits (nat \<bar>a\<bar>)),
     bo_signed_bytes = radix_text 16, bo_text = radix_text, bo_parse = (\<lambda>ds r. if ds = [] then None else Some (int (radix_value r ds))),
     bo_from_f64 = (\<lambda>x. if f64_is_finite x then Some (f64_int x) else None), bo_to_f64 = (\<lambda>v. Some (int_to_f64 v))\<rparr>"

lemma int_ops_laws: "big_laws int_ops id"
proof -
  have "2 ^ (nat_bits (nat \<bar>a\<bar>) - Suc 0) \<le> \<bar>a\<bar> \<and> 0 < nat_bits (nat \<bar>a\<bar>)" if "a \<noteq> 0" for a :: int
    using nat_bits_bounds [of "nat \<bar>a\<bar>"] that by (simp add: le_nat_iff)
  then show ?thesis using abs_less_bits
    by (auto simp: big_laws_def arith_laws_def query_laws_def text_laws_def int_ops_def)
qed

definition no_boxes :: "int big_state" where
  "no_boxes = \<lparr>bg_heap = (\<lambda>_. None), bg_formatter = False\<rparr>"

lemma no_boxes_ok: "box_ok (\<lambda>_. 8192) no_boxes"
  by (simp add: box_ok_def no_boxes_def)

lemma no_boxes_value: "is_inline h \<Longrightarrow> big_value int_ops id no_boxes h = Some (inline_value h)"
  by (rule big_value_inline [OF int_ops_laws])

lemma inline_values: "big_value int_ops id no_boxes (inline_handle i) = Some i" if "- (2 ^ 62) \<le> i" "i < 2 ^ 62"
  using no_boxes_value [OF inline_odd] inline_round_trip [OF that] by simp

text \<open>\<open>-7\<close> and \<open>2\<close>; the product of \<open>2 ^ 40\<close> with itself leaves the inline range.\<close>

theorem bigint_arith_exact_witness:
  "yields int_ops id no_boxes (thaw_bigint_div int_ops (\<lambda>_. 8192) (inline_handle (-7)) (inline_handle 2) no_boxes) (-3) \<and>
   yields int_ops id no_boxes (thaw_bigint_mul int_ops (\<lambda>_. 8192) (inline_handle (2 ^ 40)) (inline_handle (2 ^ 40)) no_boxes) (2 ^ 80)"
  using bigint_arith_exact [OF int_ops_laws no_boxes_ok inline_values [of "-7"] inline_values [of 2]]
    bigint_arith_exact [OF int_ops_laws no_boxes_ok inline_values [of "2 ^ 40"] inline_values [of "2 ^ 40"]]
  by simp

lemma small_bits: "nat_bits (nat \<bar>x\<bar>) < 2 ^ 64" if "\<bar>x\<bar> < 2 ^ 62"
proof (rule ccontr)
  assume a: "\<not> nat_bits (nat \<bar>x\<bar>) < 2 ^ 64"
  then have "62 \<le> nat_bits (nat \<bar>x\<bar>) - 1" by simp
  then have "(2 :: nat) ^ 62 \<le> 2 ^ (nat_bits (nat \<bar>x\<bar>) - 1)" by (intro power_increasing) simp_all
  moreover have "nat \<bar>x\<bar> < 2 ^ 62" using that by (simp add: nat_less_iff)
  moreover have "nat \<bar>x\<bar> \<noteq> 0" using a by (cases "x = 0") (simp_all add: nat_bits.simps [of 0])
  then have "2 ^ (nat_bits (nat \<bar>x\<bar>) - 1) \<le> nat \<bar>x\<bar>" using nat_bits_bounds by blast
  ultimately show False by linarith
qed

theorem bigint_checked_ops_witness:
  "thaw_bigint_binop_error int_ops no_boxes BIGINT_POW (inline_handle 2) (inline_handle 70) = Some 0 \<and>
   yields int_ops id no_boxes (thaw_bigint_pow int_ops (\<lambda>_. 8192) (inline_handle 2) (inline_handle 70) no_boxes) (2 ^ 70) \<and>
   thaw_bigint_binop_error int_ops no_boxes BIGINT_POW (inline_handle 2) (inline_handle (-1)) = Some 2 \<and>
   yields int_ops id no_boxes (thaw_bigint_mod int_ops (\<lambda>_. 8192) (inline_handle (-7)) (inline_handle 2) no_boxes) (-1)"
proof -
  have c: "pow_code 2 70 = 0" by (simp add: pow_code_def nat_bits.simps)
  show ?thesis
    using bigint_checked_ops [OF int_ops_laws no_boxes_ok inline_values [of 2] inline_values [of 70] small_bits] c
      bigint_checked_ops [OF int_ops_laws no_boxes_ok inline_values [of 2] inline_values [of "-1"] small_bits]
      bigint_checked_ops [OF int_ops_laws no_boxes_ok inline_values [of "-7"] inline_values [of 2] small_bits]
    by (simp add: pow_code_def)
qed

end
