(* ===== verification/Bigint_Compare.thy ===== *)
theory Bigint_Compare
  imports Bigint_Checks
begin

text \<open>
  Comparison of \<open>bigint\<close> handles with each other and with numbers, and wrapping to a number of bits.
\<close>

subsection \<open>Comparison\<close>

lemma canonical_nan_pattern: "f64_is_nan 0x7ff8000000000000"
  by (simp add: f64_is_nan_def)

text \<open>C32. Comparison is exact. Two handles compare as their integers, and a handle compares with a number as the integer with
  the real value of the number, without rounding either; NaN gives 2, an infinity lies beyond every
  integer.\<close>

theorem bigint_compare_exact:
  assumes "big_laws L val" "big_value L val s l = Some x" "big_value L val s r = Some y"
  shows "thaw_bigint_cmp L s l r = Some (sgn (x - y)) \<and> thaw_bigint_sign L s l = Some (sgn x) \<and>
    thaw_bigint_is_zero L s l = Some (x = 0) \<and>
    thaw_bigint_cmp_f64 L s l z = Some
      (if f64_is_nan z then 2 else if f64_is_infinite z then if f64_negative z then 1 else -1
       else if of_int x < f64_value z then -1 else if of_int x = f64_value z then 0 else 1)"
proof -
  note laws = assms(1)
  obtain v w where d: "bigint_decode L s l = Some v" "val v = x" "bigint_decode L s r = Some w" "val w = y"
    using assms(2,3) [THEN big_value_decode] by blast
  have c: "thaw_bigint_cmp L s l r = Some (sgn (x - y))"
    using d big_value_inline [OF laws, of l s] big_value_inline [OF laws, of r s] assms(2,3)
    by (auto simp: thaw_bigint_cmp_def bigint_inline_def big_query [OF laws])
  have f: "thaw_bigint_cmp_f64 L s l z = Some (if of_int x < f64_value z then -1 else if of_int x = f64_value z then 0 else 1)"
    if "\<not> f64_is_nan z" "\<not> f64_is_infinite z"
  proof -
    have fin: "f64_is_finite z" using that f64_special [of z] by blast
    then obtain n where n: "bo_from_f64 L (f64_trunc z) = Some n" "val n = f64_int z"
      using big_texts(3) [OF laws, of "f64_trunc z"] f64_trunc_int [of z] by auto
    let ?d = "f64_value z - of_int (f64_int z)"
    have s: "f64_fract_sign z = sgn ?d" "\<bar>?d\<bar> < 1" using f64_fract_sign_value [of z] by blast+
    have k: "real_of_int x < f64_value z" if "x < f64_int z" using that s(2) by linarith
    have g: "f64_value z < real_of_int x" if "f64_int z < x" using that s(2) by linarith
    have "0 < f64_fract_sign z \<longleftrightarrow> of_int (f64_int z) < f64_value z" "f64_fract_sign z < 0 \<longleftrightarrow> f64_value z < of_int (f64_int z)"
      using s(1) by (auto simp: sgn_if split: if_splits)
    then show ?thesis using that d(1,2) n k g
      by (auto simp: thaw_bigint_cmp_f64_def big_query [OF laws] sgn_if)
  qed
  show ?thesis using c f d by (auto simp: thaw_bigint_sign_def thaw_bigint_is_zero_def big_query [OF laws] thaw_bigint_cmp_f64_def)
qed


theorem bigint_compare_exact_witness:
  "thaw_bigint_cmp int_ops no_boxes (inline_handle 4) (inline_handle 3) = Some 1 \<and>
   thaw_bigint_cmp_f64 int_ops no_boxes (inline_handle 4) 0x7ff8000000000000 = Some 2"
  using bigint_compare_exact [OF int_ops_laws inline_values [of 4] inline_values [of 3], where z = "0x7ff8000000000000"] canonical_nan_pattern
  by simp

subsection \<open>Wrapping\<close>

lemma wrap_signed:
  fixes x :: int
  assumes "0 < n"
  defines "w \<equiv> x mod 2 ^ n"
  defines "z \<equiv> if 2 ^ (n - 1) \<le> w then w - 2 ^ n else w"
  shows "- (2 ^ (n - 1)) \<le> z \<and> z < 2 ^ (n - 1) \<and> (z - x) mod 2 ^ n = 0"
proof -
  have p: "(2 :: int) ^ n = 2 * 2 ^ (n - 1)" using assms(1) by (cases n) simp_all
  have r: "0 \<le> w" "w < 2 * 2 ^ (n - 1)" unfolding w_def p [symmetric] by simp_all
  have "(w - x) mod 2 ^ n = 0" by (simp add: w_def mod_diff_left_eq)
  moreover have "(w - 2 ^ n - x) mod 2 ^ n = (w - x) mod 2 ^ n" using minus_mod_self2 [of "w - x" "2 ^ n"] by (simp add: algebra_simps)
  ultimately have "(z - x) mod 2 ^ n = 0" by (simp add: z_def)
  then show ?thesis using r unfolding z_def p by auto
qed

text \<open>C33. Wrapping to a width gives the representative of the right range. \<open>asUintN\<close> returns the integer modulo \<open>2 ^ n\<close>, \<open>asIntN\<close>
  the integer between \<open>- 2 ^ (n - 1)\<close> and \<open>2 ^ (n - 1)\<close> that is congruent to it, both 0 for width 0, and the
  conversion to a machine word keeps the low 64 bits, for every width up to the largest size.\<close>

theorem bigint_width:
  assumes "big_laws L val" "box_ok new s" "big_value L val s h = Some x" "n = f64_to_uint 64 b" "n \<le> 2 ^ 30"
  shows "yields L val s (thaw_i64_as_uint_n L new h b s) (x mod 2 ^ n) \<and>
    (\<exists>z. yields L val s (thaw_i64_as_int_n L new h b s) z \<and> (z - x) mod 2 ^ n = 0 \<and>
       (if n = 0 then z = 0 else - (2 ^ (n - 1)) \<le> z \<and> z < 2 ^ (n - 1))) \<and>
    thaw_bigint_to_i64_wrapping L s h = Some (word_of_int x)"
proof (intro conjI)
  note laws = assms(1) and box = assms(2)
  obtain v where d: "bigint_decode L s h = Some v" "val v = x" using big_value_decode [OF assms(3)] by blast
  have b: "min n BIGINT_MAX_BITS = n" using assms(5) by (simp add: BIGINT_MAX_BITS_def)
  have m: "val (bigint_mod_pow2 L v n) = x mod 2 ^ n" by (simp add: bigint_mod_pow2_def b big_arith [OF laws] d)
  show "yields L val s (thaw_i64_as_uint_n L new h b s) (x mod 2 ^ n)"
    using d m yields_from [OF laws box, of 0] yields_encode [OF laws box, of "bigint_mod_pow2 L v n"]
    by (simp add: thaw_i64_as_uint_n_def assms(4) [symmetric])
  show "\<exists>z. yields L val s (thaw_i64_as_int_n L new h b s) z \<and> (z - x) mod 2 ^ n = 0 \<and>
      (if n = 0 then z = 0 else - (2 ^ (n - 1)) \<le> z \<and> z < 2 ^ (n - 1))"
  proof (cases "n = 0")
    case True
    then show ?thesis using yields_from [OF laws box, of 0] by (intro exI [of _ 0]) (simp add: thaw_i64_as_int_n_def assms(4) [symmetric] b)
  next
    case False
    let ?w = "x mod 2 ^ n"
    have g: "0 \<le> sgn i \<longleftrightarrow> 0 \<le> i" for i :: int by (simp add: sgn_if)
    have "yields L val s (thaw_i64_as_int_n L new h b s) (if 2 ^ (n - 1) \<le> ?w then ?w - 2 ^ n else ?w)"
      using False d m yields_encode [OF laws box, of "bo_sub L (bigint_mod_pow2 L v n) (bo_shl L (bo_from L 1) n)"]
        yields_encode [OF laws box, of "bigint_mod_pow2 L v n"]
      by (simp add: thaw_i64_as_int_n_def assms(4) [symmetric] b big_query [OF laws] big_arith [OF laws] Let_def g)
    then show ?thesis using False wrap_signed [of n x] by auto
  qed
  show "thaw_bigint_to_i64_wrapping L s h = Some (word_of_int x)"
  proof (cases "is_inline h")
    case True
    then show ?thesis using assms(3) big_value_inline [OF laws True, of s] by (simp add: thaw_bigint_to_i64_wrapping_def bigint_inline_def)
  next
    case False
    have "x AND (2 ^ 64 - 1) = take_bit 64 x" by (simp add: take_bit_eq_mask mask_eq_exp_minus_1)
    moreover have "0 \<le> take_bit 64 x" "take_bit 64 x < 2 ^ 64" by (rule take_bit_nonnegative, rule take_bit_int_less_exp)
    moreover have "word_of_int (take_bit 64 x) = (word_of_int x :: u64)" by (rule bit_word_eqI) (simp add: bit_simps)
    ultimately show ?thesis using False d
      by (simp add: thaw_bigint_to_i64_wrapping_def bigint_inline_def big_query [OF laws] big_arith [OF laws] of_nat_nat)
  qed
qed


text \<open>\<open>-1\<close> as an unsigned byte is 255; \<open>0x4020000000000000\<close> is the number 8.\<close>

lemma number_eight: "f64_to_uint 64 0x4020000000000000 = 8"
proof -
  have e: "f64_exponent 0x4020000000000000 = 1026" "f64_fraction 0x4020000000000000 = 0" "\<not> f64_negative 0x4020000000000000"
    by (simp_all add: f64_exponent_def f64_fraction_def f64_negative_def)
  have "f64_magnitude 0x4020000000000000 = 2 ^ 52 * 2 ^ 1026 div 2 ^ 1075"
    by (simp only: f64_magnitude_def f64_significand_def f64_power_def e) simp
  also have "\<dots> = 2 ^ (52 + 1026) div 2 ^ 1075" by (simp only: power_add)
  also have "\<dots> = 8" by (subst power_diff [symmetric]) simp_all
  finally show ?thesis using e by (simp add: f64_to_uint_def f64_is_nan_def f64_is_infinite_def)
qed

theorem bigint_width_witness:
  "yields int_ops id no_boxes (thaw_i64_as_uint_n int_ops (\<lambda>_. 8192) (inline_handle (-1)) 0x4020000000000000 no_boxes) 255 \<and>
   thaw_bigint_to_i64_wrapping int_ops no_boxes (inline_handle (-1)) = Some (-1)"
  using bigint_width [OF int_ops_laws no_boxes_ok inline_values [of "-1"] number_eight [symmetric]] by simp

end
