(* ===== verification/Bigint_Text.thy ===== *)
theory Bigint_Text
  imports Bigint_Checks
begin

text \<open>
  The decimal text of a \<open>bigint\<close>, written to the arena and read back from there, denotes the same integer.
\<close>

lemma decimal_digit: "is_digit 10 c \<longleftrightarrow> 0x30 \<le> c \<and> c \<le> 0x39"
  by (auto simp: is_digit_def digit_value_def)

lemma dropWhile_hd: "xs \<noteq> [] \<Longrightarrow> \<not> P (hd xs) \<Longrightarrow> dropWhile P xs = xs"
  by (cases xs) auto

lemma trim_none: "xs \<noteq> [] \<Longrightarrow> \<not> P (hd xs) \<Longrightarrow> \<not> P (last xs) \<Longrightarrow> trim_matches P xs = xs"
  by (simp add: trim_matches_def dropWhile_hd hd_rev)

lemma blank_decimal: "is_digit 10 c \<Longrightarrow> \<not> bigint_blank c" "\<not> bigint_blank 0x2D"
  by (auto simp: decimal_digit bigint_blank_def char_is_whitespace_def)

lemma decimal_digits:
  fixes n
  defines "ds \<equiv> map unat (radix_digits 10 n)"
  shows "ds \<noteq> []" "list_all (is_digit 10) ds" "map of_nat ds = radix_digits 10 n" "radix_value 10 (radix_digits 10 n) = n"
    "is_digit 10 (hd ds)" "is_digit 10 (last ds)" "\<And>c. c \<in> set ds \<Longrightarrow> 0x30 \<le> c \<and> c \<le> 0x39"
proof -
  have r: "radix_digits 10 n \<noteq> [] \<and> list_all (\<lambda>d. is_digit 10 (unat d)) (radix_digits 10 n) \<and> radix_value 10 (radix_digits 10 n) = n"
    by (rule radix_digits_ok) simp_all
  then show n: "ds \<noteq> []" and l: "list_all (is_digit 10) ds" and "radix_value 10 (radix_digits 10 n) = n"
    by (simp_all add: ds_def list.pred_map comp_def)
  show "map of_nat ds = radix_digits 10 n" by (simp add: ds_def comp_def)
  show "is_digit 10 (hd ds)" "is_digit 10 (last ds)" using n l by (simp_all add: list_all_iff)
  show "\<And>c. c \<in> set ds \<Longrightarrow> 0x30 \<le> c \<and> c \<le> 0x39" using l by (auto simp: list_all_iff decimal_digit)
qed

lemma decimal_split:
  fixes n
  defines "ds \<equiv> map unat (radix_digits 10 n)"
  shows "radix_split ds = (10, ds, False)" "radix_split (0x2D # ds) = (10, ds, True)"
proof -
  have d: "\<And>c. c \<in> set ds \<Longrightarrow> 0x30 \<le> c \<and> c \<le> 0x39" "ds \<noteq> []" unfolding ds_def using decimal_digits by blast+
  have h: "0x30 \<le> hd ds \<and> hd ds \<le> 0x39" using d by simp
  have t: "take 2 ds \<noteq> [0x30, c]" if "0x39 < c" for c
  proof
    assume "take 2 ds = [0x30, c]"
    then have "c \<in> set ds" by (metis in_set_takeD list.set_intros)
    then show False using d that by fastforce
  qed
  show "radix_split ds = (10, ds, False)" using h t by (simp add: radix_split_def)
  show "radix_split (0x2D # ds) = (10, ds, True)" by (simp add: radix_split_def numeral_2_eq_2)
qed

text \<open>Reading a decimal text gives the number back.\<close>

lemma parse_decimal:
  assumes laws: "big_laws L val"
  shows "map_option val (bigint_parse L (map unat (radix_text 10 x))) = Some x"
proof -
  note ds = decimal_digits and sp = decimal_split
  have pv: "map_option val (bo_parse L (radix_digits 10 n) 10) = Some (int n)" for n
    using big_texts(2) [OF laws, of 10 "radix_digits 10 n"] radix_digits_ok [of 10 n] by simp
  show ?thesis
  proof (cases "x < 0")
    case False
    have "trim_matches bigint_blank (map unat (radix_digits 10 (nat x))) = map unat (radix_digits 10 (nat x))"
      by (rule trim_none) (use ds blank_decimal in auto)
    moreover obtain v where "bo_parse L (radix_digits 10 (nat x)) 10 = Some v" "val v = x" using pv [of "nat x"] False by auto
    ultimately show ?thesis using False ds [of "nat x"] by (simp add: bigint_parse_def radix_text_def sp(1) comp_def)
  next
    case True
    have "trim_matches bigint_blank (0x2D # map unat (radix_digits 10 (nat (- x)))) = 0x2D # map unat (radix_digits 10 (nat (- x)))"
      by (rule trim_none) (use ds [of "nat (- x)"] blank_decimal in auto)
    moreover obtain v where "bo_parse L (radix_digits 10 (nat (- x))) 10 = Some v" "val v = - x" using pv [of "nat (- x)"] True by auto
    ultimately show ?thesis using True ds [of "nat (- x)"]
      by (simp add: bigint_parse_def radix_text_def sp(2) comp_def big_arith [OF laws])
  qed
qed


subsection \<open>Through the arena\<close>

lemma radix_text_ascii: "list_all (\<lambda>b. b < 0x80 \<and> b \<noteq> 0) (radix_text 10 x)"
proof -
  have "b < 0x80 \<and> b \<noteq> 0" if "b \<in> set (radix_digits 10 n)" for b n
  proof -
    have "unat b \<in> set (map unat (radix_digits 10 n))" using that by simp
    then have u: "0x30 \<le> unat b" "unat b \<le> 0x39" using decimal_digits(7) by blast+
    then have "unat b < unat (0x80 :: u8)" by simp
    then have "b < 0x80" by (simp only: word_less_nat_alt)
    then show ?thesis using u(1) by auto
  qed
  then show ?thesis by (auto simp: radix_text_def list_all_iff)
qed

lemma arena_text_read:
  assumes "arena_string B bs ns = (p, ns')" "p \<noteq> 0" "0 \<notin> set bs"
  shows "cstr_length (mem (thr ns')) p = Some (length bs) \<and> read_bytes_at (mem (thr ns')) p (length bs) = bs"
proof -
  obtain t where ns': "ns' = ns\<lparr>thr := thaw_string_register p (length bs) (write_mem (p + length bs) [0] (write_mem p bs t))\<rparr>"
    using assms(1,2) by (auto simp: arena_string_def checked_add_def Let_def split: if_splits prod.splits)
  let ?m = "write_bytes_at (write_bytes_at (mem t) p bs) (p + length bs) [0]"
  have m: "mem (thr ns') = ?m" by (simp add: ns' thaw_string_register_def write_mem_def)
  have r: "read_bytes_at ?m p (length bs) = bs" using read_write_bytes_at [of "mem t" p bs] by (simp add: read_outside_write)
  have "?m (p + length bs) = 0" by (simp add: write_bytes_at_def)
  then show ?thesis unfolding m using cstr_length_terminated [OF r assms(3)] r by simp
qed

text \<open>C34. A \<open>bigint\<close> survives its text. The decimal text of a handle, written to the arena by \<open>toString\<close>, is accepted by the
  parser, and \<open>BigInt\<close> of that text is a handle of the same integer, negative numbers included.\<close>

theorem bigint_text_round_trip:
  assumes "big_laws L val" "box_ok new s" "big_value L val s h = Some x"
    and "thaw_i64_to_string L B s h ns = Some (p, ns')" "p \<noteq> 0"
  shows "thaw_bigint_parse_ok L (mem (thr ns')) p = Some True \<and> yields L val s (thaw_i64_from_string L new (mem (thr ns')) p s) x"
proof -
  obtain v where v: "bigint_decode L s h = Some v" "val v = x" using big_value_decode [OF assms(3)] by blast
  let ?t = "radix_text 10 x"
  have a: "list_all (\<lambda>b. b < 0x80) ?t" "0 \<notin> set ?t" using radix_text_ascii [of x] by (auto simp: list_all_iff)
  have b: "arena_string B ?t ns = (p, ns')"
    using assms(4) v big_texts(1) [OF assms(1), of 10 v] by (simp add: thaw_i64_to_string_def bigint_c_string_def)
  have l: "lossy_text (mem (thr ns')) p = Some (map unat ?t)"
    using arena_text_read [OF b assms(5) a(2)] assms(5) to_string_lossy_ascii [OF a(1)] by (simp add: lossy_text_def)
  obtain w where w: "bigint_parse L (map unat ?t) = Some w" "val w = x" using parse_decimal [OF assms(1), of x] by auto
  show ?thesis using l w yields_encode [OF assms(1,2), of w] by (simp add: thaw_bigint_parse_ok_def thaw_i64_from_string_def)
qed

theorem bigint_text_round_trip_witness:
  "\<exists>p ns. thaw_i64_to_string int_ops line_bump no_boxes (inline_handle (-12)) (init_native two_blocks) = Some (p, ns) \<and>
     yields int_ops id no_boxes (thaw_i64_from_string int_ops (\<lambda>_. 8192) (mem (thr ns)) p no_boxes) (-12)"
proof -
  let ?h = "inline_handle (-12)"
  have d: "bigint_decode int_ops no_boxes ?h = Some (-12)" using inline_values [of "-12"] by (auto simp: big_value_def)
  have t: "radix_text 10 (-12) = [45, 49, 50]" by (simp add: radix_text_def radix_digits.simps digit_char_def)
  have e: "thaw_i64_to_string int_ops line_bump no_boxes ?h (init_native two_blocks) = Some (arena_string line_bump [45, 49, 50] (init_native two_blocks))"
    using d t by (simp add: thaw_i64_to_string_def bigint_c_string_def int_ops_def)
  obtain p ns where a: "arena_string line_bump [45, 49, 50] (init_native two_blocks) = (p, ns)" by fastforce
  then have "p = 1056" using line_alloc [of "Suc (Suc (Suc (Suc 0)))"]
    by (auto simp: arena_string_def checked_add_def usize_limit_def init_native_def split: prod.splits if_splits)
  then show ?thesis using bigint_text_round_trip [OF int_ops_laws no_boxes_ok inline_values [of "-12"] e [unfolded a]] e a by auto
qed

end
