(* ===== verification/Key_Agreement.thy ===== *)
theory Key_Agreement
  imports Map_Properties
begin

text \<open>
  Key kinds that obey the laws on some keys only, such as handles that must point somewhere. On a map that holds such keys
  the operations are those of a kind that obeys the laws everywhere, so the contract of the hash
  table holds for them too.
\<close>

definition guarded :: "key_kind \<Rightarrow> u64 set \<Rightarrow> key_kind" where
  "guarded K V = \<lparr>kk_hash = (\<lambda>k. if k \<in> V then kk_hash K k else 0),
     kk_eq = (\<lambda>a b. if a \<in> V \<and> b \<in> V then kk_eq K a b else a \<notin> V \<and> b \<notin> V)\<rparr>"

lemma guarded_simps [simp]:
  "k \<in> V \<Longrightarrow> kk_hash (guarded K V) k = kk_hash K k" "a \<in> V \<Longrightarrow> b \<in> V \<Longrightarrow> kk_eq (guarded K V) a b = kk_eq K a b"
  by (simp_all add: guarded_def)

definition keys_in :: "u64 set \<Rightarrow> map_header \<Rightarrow> bool" where
  "keys_in V h \<longleftrightarrow> fst ` set (map_abs h) \<subseteq> V"

lemma live_set_entry: "mh_entries_len h \<le> length (mh_entries h) \<Longrightarrow> e \<in> live_set h \<Longrightarrow> mh_entries h ! e \<in> set (live_entries h)"
  by (auto simp: live_setD live_entries_def used_entries_def in_set_conv_nth intro!: exI [of _ e])

lemma keys_in_live: "keys_in V h \<longleftrightarrow> (\<forall>x \<in> set (live_entries h). en_key x \<in> V)"
  by (auto simp: keys_in_def map_abs_live entry_pair_def image_image)

subsection \<open>Probing\<close>

definition probes_agree :: "key_kind \<Rightarrow> key_kind \<Rightarrow> map_header \<Rightarrow> u64 \<Rightarrow> u64 \<Rightarrow> bool" where
  "probes_agree K K' h key hash \<longleftrightarrow> pow2 (length (mh_buckets h)) \<and>
     (\<forall>i < length (mh_buckets h). mh_buckets h ! i \<noteq> BUCKET_EMPTY \<longrightarrow> mh_buckets h ! i \<noteq> BUCKET_TOMBSTONE \<longrightarrow>
        entry_matches K (mh_entries h ! nat (mh_buckets h ! i)) key hash = entry_matches K' (mh_entries h ! nat (mh_buckets h ! i)) key hash)"

lemma next_bucket_less: "pow2 n \<Longrightarrow> next_bucket n i < n"
  using pow2_pos [of n] by (simp add: next_bucket_def pow2_and)

lemma find_loop_agree_Some:
  assumes "find_loop K h key hash index reusable = Some y"
  shows "probes_agree K K' h key hash \<longrightarrow> index < length (mh_buckets h) \<longrightarrow> find_loop K' h key hash index reusable = Some y"
proof (rule find_loop.raw_induct [OF _ assms])
  fix f :: "key_kind \<Rightarrow> map_header \<Rightarrow> u64 \<Rightarrow> u64 \<Rightarrow> nat \<Rightarrow> nat option \<Rightarrow> (nat \<times> nat option) option"
    and L h key hash index reusable y
  assume IH: "\<And>L h key hash index reusable y. f L h key hash index reusable = Some y \<Longrightarrow>
      probes_agree L K' h key hash \<longrightarrow> index < length (mh_buckets h) \<longrightarrow> find_loop K' h key hash index reusable = Some y"
    and r: "(let bucket = mh_buckets h ! index; step = next_bucket (length (mh_buckets h)) index
      in if bucket = BUCKET_EMPTY then Some (case reusable of None \<Rightarrow> index | Some r \<Rightarrow> r, None)
         else if bucket = BUCKET_TOMBSTONE then f L h key hash step (case reusable of None \<Rightarrow> Some index | Some r \<Rightarrow> Some r)
         else if entry_matches L (mh_entries h ! nat bucket) key hash then Some (index, Some (nat bucket))
         else f L h key hash step reusable) = Some y"
  show "probes_agree L K' h key hash \<longrightarrow> index < length (mh_buckets h) \<longrightarrow> find_loop K' h key hash index reusable = Some y"
  proof (intro impI)
    assume a: "probes_agree L K' h key hash" "index < length (mh_buckets h)"
    have s: "next_bucket (length (mh_buckets h)) index < length (mh_buckets h)" using a(1) by (simp add: probes_agree_def next_bucket_less)
    have m: "mh_buckets h ! index \<noteq> BUCKET_EMPTY \<Longrightarrow> mh_buckets h ! index \<noteq> BUCKET_TOMBSTONE \<Longrightarrow>
        entry_matches L (mh_entries h ! nat (mh_buckets h ! index)) key hash = entry_matches K' (mh_entries h ! nat (mh_buckets h ! index)) key hash"
      using a by (simp add: probes_agree_def)
    show "find_loop K' h key hash index reusable = Some y"
      using IH a(1) s r m by (subst find_loop.simps) (auto simp: Let_def split: if_splits)
  qed
qed

lemma find_bucket_agree:
  assumes "probes_agree K K' h key hash"
  shows "find_bucket K h key hash = find_bucket K' h key hash"
proof -
  have n: "pow2 (length (mh_buckets h))" and c: "probes_agree K' K h key hash" using assms by (auto simp: probes_agree_def)
  have "home_bucket (length (mh_buckets h)) hash < length (mh_buckets h)" using n using pow2_pos [OF n] by (simp add: home_bucket_mod slot_less)
  note agree = find_loop_agree_Some [rule_format, OF _ assms this] find_loop_agree_Some [rule_format, OF _ c this]
  show ?thesis unfolding find_bucket_def
    by (cases "find_loop K h key hash (home_bucket (length (mh_buckets h)) hash) None";
        cases "find_loop K' h key hash (home_bucket (length (mh_buckets h)) hash) None") (auto dest: agree)
qed

lemma map_inv_agree:
  assumes inv: "map_inv K h" and keys: "keys_in V h"
    and same: "\<And>a. a \<in> V \<Longrightarrow> kk_hash K' a = kk_hash K a" "\<And>a b. a \<in> V \<Longrightarrow> b \<in> V \<Longrightarrow> kk_eq K' a b = kk_eq K a b"
  shows "map_inv K' h"
proof (cases "mh_buckets h = []")
  case True
  then show ?thesis using inv by (simp add: map_inv_def)
next
  case False
  have "mh_entries_len h \<le> length (mh_entries h)" by (rule index_invD(2) [OF map_invD(2) [OF inv False]])
  then have "en_key (mh_entries h ! e) \<in> V" if "e \<in> live_set h" for e
    using live_set_entry [of h e] that keys by (simp add: keys_in_live)
  then show ?thesis using inv False same by (simp add: map_inv_def index_inv_def)
qed

subsection \<open>Operations\<close>

text \<open>The laws on a set of keys.\<close>

locale partial_keys =
  fixes K :: key_kind and V :: "u64 set"
  assumes in_refl: "a \<in> V \<Longrightarrow> kk_eq K a a"
    and in_sym: "a \<in> V \<Longrightarrow> b \<in> V \<Longrightarrow> kk_eq K a b \<Longrightarrow> kk_eq K b a"
    and in_trans: "a \<in> V \<Longrightarrow> b \<in> V \<Longrightarrow> c \<in> V \<Longrightarrow> kk_eq K a b \<Longrightarrow> kk_eq K b c \<Longrightarrow> kk_eq K a c"
    and in_hash: "a \<in> V \<Longrightarrow> b \<in> V \<Longrightarrow> kk_eq K a b \<Longrightarrow> kk_hash K a = kk_hash K b"

sublocale partial_keys \<subseteq> guard: key_laws "guarded K V"
proof
  show "kk_eq (guarded K V) a a" for a using in_refl by (simp add: guarded_def)
  show "kk_eq (guarded K V) a b \<Longrightarrow> kk_eq (guarded K V) b a" for a b using in_sym [of a b] by (cases "a \<in> V"; cases "b \<in> V") (simp_all add: guarded_def)
  show "kk_eq (guarded K V) a b \<Longrightarrow> kk_eq (guarded K V) b c \<Longrightarrow> kk_eq (guarded K V) a c" for a b c
    using in_trans [of a b c] by (cases "a \<in> V"; cases "b \<in> V"; cases "c \<in> V") (simp_all add: guarded_def)
  show "kk_eq (guarded K V) a b \<Longrightarrow> kk_hash (guarded K V) a = kk_hash (guarded K V) b" for a b
    using in_hash [of a b] by (cases "a \<in> V"; cases "b \<in> V") (simp_all add: guarded_def)
qed

context partial_keys
begin

lemma find_bucket_guarded:
  assumes "map_inv (guarded K V) h" "mh_buckets h \<noteq> []" "keys_in V h" "k \<in> V"
  shows "find_bucket K h k hash = find_bucket (guarded K V) h k hash"
proof (rule find_bucket_agree)
  note I = index_invD [OF map_invD(2) [OF assms(1,2)]]
  have "entry_matches K (mh_entries h ! e) k hash = entry_matches (guarded K V) (mh_entries h ! e) k hash" if "e \<in> live_set h" for e
    using live_set_entry [OF I(2) that] assms(3,4) by (auto simp: keys_in_live entry_matches_def)
  then show "probes_agree K (guarded K V) h k hash"
    unfolding probes_agree_def using I(1) bucket_inv_value [OF I(4)] by fastforce
qed

lemma map_get_guarded:
  "map_inv (guarded K V) h \<Longrightarrow> keys_in V h \<Longrightarrow> k \<in> V \<Longrightarrow> map_get K (Some h) k = map_get (guarded K V) (Some h) k"
  by (simp add: map_get_def find_bucket_guarded)

lemma map_insert_guarded:
  assumes "map_inv (guarded K V) h" "keys_in V h" "k \<in> V"
  shows "map_insert_new K al h k v = map_insert_new (guarded K V) al h k v"
proof -
  obtain ok h1 where e: "ensure_capacity_for_insert al h = Some (ok, h1)" "map_inv (guarded K V) h1" "guard.same_content h h1" "ok \<longrightarrow> \<not> needs_growth h1"
    using guard.ensure_result [OF assms(1), of al] by metis
  have "keys_in V h1" using e(3) assms(2) by (simp add: keys_in_live guard.same_content_def)
  then have "find_bucket K h1 k (kk_hash K k) = find_bucket (guarded K V) h1 k (kk_hash K k)" if ok
    using find_bucket_guarded [OF e(2) _ _ assms(3)] e(4) that by (auto simp: needs_growth_def)
  then show ?thesis using e(1) assms(3) by (simp add: map_insert_new_def)
qed

lemma map_set_guarded:
  "map_inv (guarded K V) h \<Longrightarrow> keys_in V h \<Longrightarrow> k \<in> V \<Longrightarrow> map_set K al h k v = map_set (guarded K V) al h k v"
  by (simp add: map_set_def find_bucket_guarded map_insert_guarded)

lemma map_delete_guarded:
  "map_inv (guarded K V) h \<Longrightarrow> keys_in V h \<Longrightarrow> k \<in> V \<Longrightarrow> map_delete K h k = map_delete (guarded K V) h k"
  by (cases "mh_buckets h = []") (simp_all add: map_delete_def find_bucket_guarded)

text \<open>On keys of the set the dictionary operations read the same with either equality.\<close>

lemma dict_guarded:
  assumes "fst ` set d \<subseteq> V" "k \<in> V"
  shows "dict_get (kk_eq (guarded K V)) d k = dict_get (kk_eq K) d k" "dict_set (kk_eq (guarded K V)) d k v = dict_set (kk_eq K) d k v"
    "dict_delete (kk_eq (guarded K V)) d k = dict_delete (kk_eq K) d k"
proof -
  have e: "kk_eq (guarded K V) (fst x) k = kk_eq K (fst x) k" if "x \<in> set d" for x using that assms by auto
  have "find (\<lambda>(k', _). kk_eq (guarded K V) k' k) d = find (\<lambda>(k', _). kk_eq K k' k) d"
    by (rule find_cong [OF refl]) (use e in auto)
  then show "dict_get (kk_eq (guarded K V)) d k = dict_get (kk_eq K) d k" by (simp add: dict_get_def)
  show "dict_delete (kk_eq (guarded K V)) d k = dict_delete (kk_eq K) d k"
    unfolding dict_delete_def by (rule filter_cong [OF refl]) (use e in auto)
  have x: "(\<exists>(k', _) \<in> set d. kk_eq (guarded K V) k' k) = (\<exists>(k', _) \<in> set d. kk_eq K k' k)" using e by fastforce
  have "map (\<lambda>(k', v'). (k', if kk_eq (guarded K V) k' k then v else v')) d = map (\<lambda>(k', v'). (k', if kk_eq K k' k then v else v')) d"
    by (rule map_cong [OF refl]) (use e in auto)
  then show "dict_set (kk_eq (guarded K V)) d k v = dict_set (kk_eq K) d k v" by (simp only: dict_set_def x)
qed

definition holds :: "map_header \<Rightarrow> bool" where
  "holds h \<longleftrightarrow> map_inv (guarded K V) h \<and> keys_in V h"

lemma in_get: "holds h \<Longrightarrow> k \<in> V \<Longrightarrow> map_get K (Some h) k = Some (dict_get (kk_eq K) (map_abs h) k)"
  using dict_guarded(1) [of "map_abs h" k] by (simp add: holds_def map_get_guarded guard.map_get_refines keys_in_def)

lemma in_set:
  assumes "holds h" "k \<in> V"
  obtains ok h' where "map_set K al h k v = Some (ok, h')" "holds h'" "map_abs h' = (if ok then dict_set (kk_eq K) (map_abs h) k v else map_abs h)"
    "(\<forall>n. al n) \<longrightarrow> mh_next_ordinal h < MAX_INSERTION_ORDINAL \<longrightarrow> ok"
proof -
  have i: "map_inv (guarded K V) h" "keys_in V h" using assms(1) by (simp_all add: holds_def)
  note result = that
  show thesis
  proof (rule guard.map_set_result [OF i(1), of al k v])
    fix ok h'
    assume r: "map_set (guarded K V) al h k v = Some (ok, h')" "map_inv (guarded K V) h'"
      "map_abs h' = (if ok then dict_set (kk_eq (guarded K V)) (map_abs h) k v else map_abs h)"
      "(\<forall>n. al n) \<longrightarrow> mh_next_ordinal h < MAX_INSERTION_ORDINAL \<longrightarrow> ok"
    have a: "map_abs h' = (if ok then dict_set (kk_eq K) (map_abs h) k v else map_abs h)"
      using r(3) dict_guarded(2) [of "map_abs h" k v] i(2) assms(2) by (simp add: keys_in_def)
    then have "keys_in V h'" using i(2) assms(2) by (force simp: keys_in_def dict_set_def split: if_splits)
    then show thesis using result r(1,2,4) a i assms(2) by (simp add: map_set_guarded holds_def)
  qed
qed

lemma in_delete:
  assumes "holds h" "k \<in> V"
  obtains h' where "map_delete K h k = Some (dict_get (kk_eq K) (map_abs h) k \<noteq> None, h')" "holds h'"
    "map_abs h' = dict_delete (kk_eq K) (map_abs h) k"
proof -
  have i: "map_inv (guarded K V) h" "keys_in V h" using assms(1) by (simp_all add: holds_def)
  note d = dict_guarded [OF i(2) [unfolded keys_in_def] assms(2)]
  obtain h' where r: "map_delete (guarded K V) h k = Some (dict_get (kk_eq (guarded K V)) (map_abs h) k \<noteq> None, h')"
    "map_inv (guarded K V) h'" "map_abs h' = dict_delete (kk_eq (guarded K V)) (map_abs h) k"
    using guard.delete_ex [OF i(1), of k] by blast
  have "keys_in V h'" using r(3) d(3) i(2) by (auto simp: keys_in_def dict_delete_def)
  then show thesis using that [of h'] r i assms(2) by (simp add: map_delete_guarded d holds_def)
qed

lemma in_new: "thaw_map_new al = Some h \<Longrightarrow> holds h \<and> map_abs h = []"
  using guard.new_inv [of al h] by (auto simp: holds_def keys_in_def thaw_map_new_def map_abs_def used_entries_def split: if_splits)

lemma in_clear: "holds h \<Longrightarrow> holds (thaw_map_clear h) \<and> map_abs (thaw_map_clear h) = []"
  using guard.clear_result [of h] by (auto simp: holds_def keys_in_def)

end

end
