(* ===== verification/Bigint_Keys.thy ===== *)
theory Bigint_Keys
  imports Bigint_Checks Key_Agreement
begin

text \<open>
  Maps and sets with \<open>bigint\<close> keys: the kind \<open>BigKey\<close> of \<open>maps.rs\<close> obeys the laws of a key on the handles that the
  encoder makes, so such a map is a dictionary from integers, and it stays one while more boxes are made.
\<close>

subsection \<open>Laws of the key\<close>

definition big_keys :: "'n big_ops \<Rightarrow> ('n \<Rightarrow> int) \<Rightarrow> 'n big_state \<Rightarrow> u64 set" where
  "big_keys L val s = {k. big_laws L val \<and> big_inv val s \<and> (is_inline k \<or> bg_heap s k \<noteq> None)}"

lemma big_keys_heap:
  assumes "big_inv val s" "bg_heap s k = Some v"
  shows "bigint_decode L s k = Some v \<and> \<not> is_inline k \<and> \<not> (- (2 ^ 62) \<le> val v \<and> val v < 2 ^ 62)"
proof -
  have a: "k AND 7 = 0" "4096 \<le> sint k" "\<not> (- (2 ^ 62) \<le> val v \<and> val v < 2 ^ 62)" using assms unfolding big_inv_def by blast+
  then have "\<not> is_inline k" "k \<noteq> 0" using box_even by auto
  then show ?thesis using a assms(2) by (auto simp: bigint_decode_def)
qed

lemma big_keys_value:
  assumes "k \<in> big_keys L val s"
  obtains x where "big_value L val s k = Some x" "is_inline k = (- (2 ^ 62) \<le> x \<and> x < 2 ^ 62)" "is_inline k \<longrightarrow> x = inline_value k"
proof (cases "is_inline k")
  case True
  have "big_laws L val" using assms by (simp add: big_keys_def)
  then show thesis using True inline_range [of k] big_value_inline [OF _ True] by (intro that [of "inline_value k"]) blast+
next
  case False
  then obtain v where "bg_heap s k = Some v" "big_inv val s" using assms by (auto simp: big_keys_def)
  note d = big_keys_heap [OF this(2,1), of L]
  show thesis by (rule that [of "val v"]) (use d False in \<open>auto simp: big_value_def\<close>)
qed

lemma BigKey_eq:
  assumes "a \<in> big_keys L val s" "b \<in> big_keys L val s"
  shows "kk_eq (BigKey L s) a b \<longleftrightarrow> big_value L val s a = big_value L val s b"
proof -
  obtain x y where v: "big_value L val s a = Some x" "big_value L val s b = Some y" using assms [THEN big_keys_value] by metis
  have laws: "big_laws L val" using assms(1) by (simp add: big_keys_def)
  obtain va vb where d: "bigint_decode L s a = Some va" "val va = x" "bigint_decode L s b = Some vb" "val vb = y"
    using v [THEN big_value_decode] by blast
  have "thaw_bigint_cmp L s a b = Some (sgn (x - y))"
    using d v big_value_inline [OF laws, of a s] big_value_inline [OF laws, of b s]
    by (auto simp: thaw_bigint_cmp_def bigint_inline_def big_query [OF laws])
  then show ?thesis using v by (auto simp: BigKey_def sgn_0_0)
qed

lemma BigKey_hash:
  assumes "a \<in> big_keys L val s" "b \<in> big_keys L val s" "big_value L val s a = big_value L val s b"
  shows "kk_hash (BigKey L s) a = kk_hash (BigKey L s) b"
proof -
  obtain x where x: "big_value L val s a = Some x" "is_inline a = (- (2 ^ 62) \<le> x \<and> x < 2 ^ 62)" "is_inline a \<longrightarrow> x = inline_value a"
    using big_keys_value [OF assms(1)] by metis
  obtain y where y: "big_value L val s b = Some y" "is_inline b = (- (2 ^ 62) \<le> y \<and> y < 2 ^ 62)" "is_inline b \<longrightarrow> y = inline_value b"
    using big_keys_value [OF assms(2)] by metis
  have "x = y" using x(1) y(1) assms(3) by simp
  obtain va vb where d: "bigint_decode L s a = Some va" "val va = x" "bigint_decode L s b = Some vb" "val vb = y"
    using x(1) y(1) big_value_decode by metis
  have "bo_signed_bytes L va = bo_signed_bytes L vb"
    using assms(1) d \<open>x = y\<close> by (simp add: big_keys_def big_laws_def query_laws_def)
  moreover have "is_inline a = is_inline b" using x(2) y(2) \<open>x = y\<close> by simp
  ultimately show ?thesis using x(3) y(3) d(1,3) \<open>x = y\<close> by (cases "is_inline a") (simp_all add: BigKey_def bigint_inline_def)
qed

interpretation big: partial_keys "BigKey L s" "big_keys L val s" for L s val
  by unfold_locales (auto simp: BigKey_eq intro: BigKey_hash)

text \<open>The laws need a handle that the encoder made: a slot of zero bits reads as \<open>0n\<close> and compares equal to it, but it has
  another hash.\<close>

lemma zero_slot_hash:
  assumes "big_laws L val" "\<And>v. val v = 0 \<Longrightarrow> bo_signed_bytes L v = [0]"
  shows "kk_eq (BigKey L s) 0 (inline_handle 0) \<and> kk_hash (BigKey L s) 0 \<noteq> kk_hash (BigKey L s) (inline_handle 0)"
proof -
  have i: "is_inline (inline_handle 0)" "inline_value (inline_handle 0) = 0" using inline_round_trip [of 0] by simp_all
  have z: "\<not> is_inline 0" by (simp add: is_inline_def)
  have "hash_bytes [0] \<noteq> mix64 0" by (simp add: hash_bytes_def mix64_def)
  then show ?thesis using i z assms(2) [of "bo_from L 0"]
    by (simp add: BigKey_def bigint_inline_def bigint_decode_def thaw_bigint_cmp_def big_query [OF assms(1)] big_arith [OF assms(1)])
qed

subsection \<open>Maps over integers\<close>

text \<open>The content of a map with the integers its keys denote.\<close>

definition big_abs :: "'n big_ops \<Rightarrow> ('n \<Rightarrow> int) \<Rightarrow> 'n big_state \<Rightarrow> map_header \<Rightarrow> (int \<times> u64) list" where
  "big_abs L val s h = map (map_prod (\<lambda>k. the (big_value L val s k)) id) (map_abs h)"

definition made :: "'n big_state \<Rightarrow> u64 \<Rightarrow> bool" where
  "made s k \<longleftrightarrow> is_inline k \<or> bg_heap s k \<noteq> None"

text \<open>A run of a program on one map: operations with keys that were made before, and new numbers in between.\<close>

inductive big_map_run :: "'n big_ops \<Rightarrow> ('n \<Rightarrow> int) \<Rightarrow> 'n big_state \<Rightarrow> map_header \<Rightarrow> bool" for L val where
  run_new: "big_inv val s \<Longrightarrow> thaw_map_new al = Some h \<Longrightarrow> big_map_run L val s h"
| run_set: "big_map_run L val s h \<Longrightarrow> made s k \<Longrightarrow> thaw_map_big_set L s al (Some h) k v = Some (ok, Some h') \<Longrightarrow> big_map_run L val s h'"
| run_delete: "big_map_run L val s h \<Longrightarrow> made s k \<Longrightarrow> thaw_map_big_delete L s (Some h) k = Some (ok, Some h') \<Longrightarrow> big_map_run L val s h'"
| run_clear: "big_map_run L val s h \<Longrightarrow> big_map_run L val s (thaw_map_clear h)"
| run_encode: "big_map_run L val s h \<Longrightarrow> box_ok new s \<Longrightarrow> bigint_encode L new n s = (k, s') \<Longrightarrow> big_map_run L val s' h"

lemma dict_image:
  assumes "\<And>a. a \<in> fst ` set d \<Longrightarrow> eq a k = (f a = f k)"
  shows "dict_get eq d k = dict_get (=) (map (map_prod f id) d) (f k)"
    "map (map_prod f id) (dict_set eq d k v) = dict_set (=) (map (map_prod f id) d) (f k) v"
    "map (map_prod f id) (dict_delete eq d k) = dict_delete (=) (map (map_prod f id) d) (f k)"
proof -
  have e: "\<And>a b. (a, b) \<in> set d \<Longrightarrow> eq a k = (f a = f k)" using assms by force
  have "find (\<lambda>(k', _). eq k' k) d = find ((\<lambda>(k', _). k' = f k) \<circ> map_prod f id) d" by (rule find_cong [OF refl]) (use e in auto)
  then show "dict_get eq d k = dict_get (=) (map (map_prod f id) d) (f k)" by (simp add: dict_get_def find_map option.map_comp comp_def)
  have "filter (\<lambda>(k', _). \<not> eq k' k) d = filter ((\<lambda>(k', _). k' \<noteq> f k) \<circ> map_prod f id) d" by (rule filter_cong [OF refl]) (use e in auto)
  then show "map (map_prod f id) (dict_delete eq d k) = dict_delete (=) (map (map_prod f id) d) (f k)" by (simp add: dict_delete_def filter_map)
  have x: "(\<exists>(k', _) \<in> set d. eq k' k) = (\<exists>(k', _) \<in> set (map (map_prod f id) d). k' = f k)"
  proof -
    have "(\<exists>p \<in> set d. eq (fst p) k) = (\<exists>p \<in> set d. f (fst p) = f k)" by (rule bex_cong [OF refl]) (use e in auto)
    then show ?thesis by (simp add: split_beta)
  qed
  have m: "map (map_prod f id) (map (\<lambda>(k', v'). (k', if eq k' k then v else v')) d) =
      map (\<lambda>(k', v'). (k', if k' = f k then v else v')) (map (map_prod f id) d)" using e by auto
  show "map (map_prod f id) (dict_set eq d k v) = dict_set (=) (map (map_prod f id) d) (f k) v" unfolding dict_set_def x using m by simp
qed

text \<open>Boxes that are made later change neither the hash nor the equality of the keys before.\<close>

lemma encode_keeps_keys:
  assumes laws: "big_laws L val" and inv: "big_inv val s" and box: "box_ok new s" and e: "bigint_encode L new n s = (k, s')"
  shows "big_inv val s'" "big_keys L val s \<subseteq> big_keys L val s'"
    "a \<in> big_keys L val s \<Longrightarrow> kk_hash (BigKey L s') a = kk_hash (BigKey L s) a"
    "a \<in> big_keys L val s \<Longrightarrow> b \<in> big_keys L val s \<Longrightarrow> kk_eq (BigKey L s') a b = kk_eq (BigKey L s) a b"
proof -
  have enc: "encodes L val s (val n) (k, s')" using encodes_encode [OF laws box, of n] e by simp
  then show inv': "big_inv val s'" using inv by (simp add: encodes_def)
  have heap: "bg_heap s' c = Some v" if "bg_heap s c = Some v" for c v
    using that e box by (auto simp: bigint_encode_def box_ok_def split: option.splits if_splits)
  then show sub: "big_keys L val s \<subseteq> big_keys L val s'" using inv' by (auto simp: big_keys_def)
  have keep: "bigint_decode L s' c = bigint_decode L s c" if "c \<in> big_keys L val s" for c
    using that heap big_keys_heap [OF inv, of c _ L] big_keys_heap [OF inv', of c _ L] by (cases "is_inline c") (auto simp: big_keys_def bigint_decode_def)
  then show "a \<in> big_keys L val s \<Longrightarrow> kk_hash (BigKey L s') a = kk_hash (BigKey L s) a" by (simp add: BigKey_def split: option.split)
  show "a \<in> big_keys L val s \<Longrightarrow> b \<in> big_keys L val s \<Longrightarrow> kk_eq (BigKey L s') a b = kk_eq (BigKey L s) a b"
    using sub keep by (auto simp: BigKey_eq [where val = val] subset_iff big_value_def)
qed

abbreviation big_holds :: "'n big_ops \<Rightarrow> ('n \<Rightarrow> int) \<Rightarrow> 'n big_state \<Rightarrow> map_header \<Rightarrow> bool" where
  "big_holds L val s \<equiv> partial_keys.holds (BigKey L s) (big_keys L val s)"

lemma big_holds_encode:
  assumes "big_laws L val" "big_inv val s" "box_ok new s" "bigint_encode L new n s = (k, s')" "big_holds L val s h"
  shows "big_holds L val s' h"
proof -
  note keep = encode_keeps_keys [OF assms(1-4)]
  have h: "map_inv (guarded (BigKey L s) (big_keys L val s)) h" "keys_in (big_keys L val s) h" using assms(5) by (simp_all add: big.holds_def)
  have "map_inv (guarded (BigKey L s') (big_keys L val s')) h"
    by (rule map_inv_agree [OF h]) (use keep(2-4) in \<open>auto simp: subset_iff\<close>)
  moreover have "keys_in (big_keys L val s') h" using h(2) keep(2) by (auto simp: keys_in_def)
  ultimately show ?thesis by (simp add: big.holds_def)
qed

lemma big_run_holds:
  assumes "big_map_run L val s h" "big_laws L val"
  shows "big_inv val s \<and> big_holds L val s h"
  using assms(1)
proof induction
  case (run_new s al h)
  then show ?case using big.in_new by blast
next
  case (run_set s h k al v ok h')
  then have "k \<in> big_keys L val s" using assms(2) by (simp add: big_keys_def made_def)
  moreover have "map_set (BigKey L s) al h k v = Some (ok, h')"
    using run_set.hyps by (auto simp: thaw_map_big_set_def with_map_def encode_big_key_def)
  ultimately show ?case using run_set.IH big.in_set [where L = L and s = s and val = val and h = h and k = k and al = al and v = v] by (metis option.inject prod.inject)
next
  case (run_delete s h k ok h')
  then have "k \<in> big_keys L val s" using assms(2) by (simp add: big_keys_def made_def)
  moreover have "map_delete (BigKey L s) h k = Some (ok, h')"
    using run_delete.hyps by (auto simp: thaw_map_big_delete_def with_map_def encode_big_key_def)
  ultimately show ?case using run_delete.IH big.in_delete [where L = L and s = s and val = val and h = h and k = k] by (metis option.inject prod.inject)
next
  case (run_clear s h)
  then show ?case using big.in_clear by blast
next
  case (run_encode s h new n k s')
  then show ?case using encode_keeps_keys(1) [OF assms(2)] big_holds_encode [OF assms(2)] by blast
qed

text \<open>C35. A map with \<open>bigint\<close> keys is a dictionary from integers. Along any run, with new numbers made between the operations, a
  lookup, an insertion and a removal act on the content in insertion order as the dictionary operations
  do on the integer that the key denotes, whatever handle of the encoder denotes it; each of them returns.\<close>

theorem big_map_dictionary:
  assumes "big_laws L val" "big_map_run L val s h" "made s k" "big_value L val s k = Some x"
  shows "thaw_map_big_has L s (Some h) k = Some (dict_get (=) (big_abs L val s h) x \<noteq> None) \<and>
    thaw_map_big_get L s (Some h) k = Some (case dict_get (=) (big_abs L val s h) x of None \<Rightarrow> 0 | Some w \<Rightarrow> w) \<and>
    (\<exists>ok h'. thaw_map_big_set L s al (Some h) k v = Some (ok, Some h') \<and>
       big_abs L val s h' = (if ok then dict_set (=) (big_abs L val s h) x v else big_abs L val s h) \<and>
       ((\<forall>n. al n) \<and> mh_next_ordinal h < MAX_INSERTION_ORDINAL \<longrightarrow> ok)) \<and>
    (\<exists>h'. thaw_map_big_delete L s (Some h) k = Some (dict_get (=) (big_abs L val s h) x \<noteq> None, Some h') \<and>
       big_abs L val s h' = dict_delete (=) (big_abs L val s h) x)"
proof -
  have inv: "big_inv val s" and hold: "big_holds L val s h" using big_run_holds [OF assms(2,1)] by blast+
  have k: "k \<in> big_keys L val s" using assms(1,3) inv by (simp add: big_keys_def made_def)
  let ?f = "\<lambda>c. the (big_value L val s c)"
  have "kk_eq (BigKey L s) a k = (?f a = ?f k)" if "a \<in> fst ` set (map_abs h)" for a
  proof -
    have a: "a \<in> big_keys L val s" using that hold by (auto simp: big.holds_def keys_in_def)
    obtain y where "big_value L val s a = Some y" using big_keys_value [OF a] by metis
    then show ?thesis using BigKey_eq [OF a k] assms(4) by simp
  qed
  note d = dict_image [of "map_abs h" "kk_eq (BigKey L s)" k ?f, OF this]
  have x: "?f k = x" using assms(4) by simp
  have g: "map_get (BigKey L s) (Some h) k = Some (dict_get (=) (big_abs L val s h) x)"
    using big.in_get [OF hold k] d(1) x by (simp add: big_abs_def)
  obtain ok h' where s: "map_set (BigKey L s) al h k v = Some (ok, h')" "map_abs h' = (if ok then dict_set (kk_eq (BigKey L s)) (map_abs h) k v else map_abs h)"
    "(\<forall>n. al n) \<longrightarrow> mh_next_ordinal h < MAX_INSERTION_ORDINAL \<longrightarrow> ok"
    using big.in_set [OF hold k, of al v] by metis
  obtain h'' where r: "map_delete (BigKey L s) h k = Some (dict_get (kk_eq (BigKey L s)) (map_abs h) k \<noteq> None, h'')"
    "map_abs h'' = dict_delete (kk_eq (BigKey L s)) (map_abs h) k"
    using big.in_delete [OF hold k] by metis
  have "big_abs L val s h' = (if ok then dict_set (=) (big_abs L val s h) x v else big_abs L val s h)"
    using s(2) d(2) [of v] x by (simp add: big_abs_def)
  moreover have "big_abs L val s h'' = dict_delete (=) (big_abs L val s h) x" using r(2) d(3) x by (simp add: big_abs_def)
  moreover have "dict_get (kk_eq (BigKey L s)) (map_abs h) k = dict_get (=) (big_abs L val s h) x" using d(1) x by (simp add: big_abs_def)
  ultimately show ?thesis using g s(1,3) r(1)
    by (simp add: thaw_map_big_has_def thaw_map_big_get_def thaw_map_big_set_def thaw_map_big_delete_def map_has_def map_get_word_def with_map_def
        encode_big_key_def)
qed

theorem big_map_dictionary_witness:
  "\<exists>h'. thaw_map_big_set int_ops no_boxes (\<lambda>_. True) (Some new_map) (inline_handle 5) 7 = Some (True, Some h') \<and>
     big_abs int_ops id no_boxes h' = [(5, 7)]"
proof -
  have "big_inv id no_boxes" by (simp add: big_inv_def no_boxes_def)
  moreover have n: "thaw_map_new (\<lambda>_. True) = Some new_map" by (simp add: thaw_map_new_def new_map_def)
  ultimately have run: "big_map_run int_ops id no_boxes new_map" by (rule run_new)
  have m: "made no_boxes (inline_handle 5)" by (simp add: made_def)
  have a: "big_abs int_ops id no_boxes new_map = []" by (simp add: big_abs_def new_map_def map_abs_def used_entries_def)
  show ?thesis using big_map_dictionary [OF int_ops_laws run m inline_values [of 5], of "\<lambda>_. True" 7] a
    by (auto simp: dict_set_def new_map_def MAX_INSERTION_ORDINAL_def)
qed

end
