(* ===== verification/Date_Calendar.thy ===== *)
theory Date_Calendar
  imports Main "HOL-Library.Signed_Division" "HOL-Library.Monad_Syntax"
begin

text \<open>
  The calendar of \<open>runtime/native_values/date.rs\<close>: day counts from 1970-01-01 and dates of the Gregorian calendar. An
  operation on \<open>i64\<close> that overflows, or on \<open>u64\<close> that falls below zero, is the result \<open>None\<close>. The two
  conversions, which have no case for leap years, agree with the rules of the calendar.
\<close>

definition i64_checked :: "int \<Rightarrow> int option" where
  "i64_checked v = (if - (2 ^ 63) \<le> v \<and> v < 2 ^ 63 then Some v else None)"

definition u64_checked :: "int \<Rightarrow> int option" where
  "u64_checked v = (if 0 \<le> v \<and> v < 2 ^ 64 then Some v else None)"

subsection \<open>Definitions\<close>

definition civil_from_days :: "int \<Rightarrow> (int \<times> int \<times> int) option" where
  "civil_from_days days = do {
     z \<leftarrow> i64_checked (days + 719468);
     dividend \<leftarrow> (if z \<ge> 0 then Some z else i64_checked (z - 146096));
     let era = dividend sdiv 146097;
     let doe = z - era * 146097;
     let yoe = (doe - doe div 1460 + doe div 36524 - doe div 146096) div 365;
     let y = yoe + era * 400;
     doy \<leftarrow> u64_checked (doe - (365 * yoe + yoe div 4 - yoe div 100));
     let mp = (5 * doy + 2) div 153;
     start \<leftarrow> u64_checked (doy - (153 * mp + 2) div 5);
     let d = start + 1;
     m \<leftarrow> (if mp < 10 then Some (mp + 3) else u64_checked (mp - 9));
     Some (if m \<le> 2 then y + 1 else y, m, d)
   }"

definition days_from_civil :: "int \<Rightarrow> int \<Rightarrow> int \<Rightarrow> int option" where
  "days_from_civil year month day = do {
     y \<leftarrow> (if month \<le> 2 then i64_checked (year - 1) else Some year);
     dividend \<leftarrow> (if y \<ge> 0 then Some y else i64_checked (y - 399));
     let era = dividend sdiv 400;
     let yoe = y - era * 400;
     let mp = (if month > 2 then month - 3 else month + 9);
     doy \<leftarrow> u64_checked ((153 * mp + 2) div 5 + day - 1);
     let doe = yoe * 365 + yoe div 4 - yoe div 100 + doy;
     eras \<leftarrow> i64_checked (era * 146097);
     total_days \<leftarrow> i64_checked (eras + doe);
     i64_checked (total_days - 719468)
   }"

definition is_leap_year :: "int \<Rightarrow> bool" where
  "is_leap_year year \<longleftrightarrow> year smod 4 = 0 \<and> year smod 100 \<noteq> 0 \<or> year smod 400 = 0"

definition days_in_month :: "int \<Rightarrow> int \<Rightarrow> int" where
  "days_in_month year month =
     (if month \<in> {1, 3, 5, 7, 8, 10, 12} then 31
      else if month \<in> {4, 6, 9, 11} then 30
      else if month = 2 then if is_leap_year year then 29 else 28
      else 0)"

lemma i64_checked_Some: "\<bar>v\<bar> < 2 ^ 63 \<Longrightarrow> i64_checked v = Some v"
  by (simp add: i64_checked_def abs_if split: if_splits)

subsection \<open>The calendar as counting\<close>

definition valid_date :: "int \<times> int \<times> int \<Rightarrow> bool" where
  "valid_date = (\<lambda>(y, m, d). 1 \<le> m \<and> m \<le> 12 \<and> 1 \<le> d \<and> d \<le> days_in_month y m)"

definition next_day :: "int \<times> int \<times> int \<Rightarrow> int \<times> int \<times> int" where
  "next_day = (\<lambda>(y, m, d).
     if d < days_in_month y m then (y, m, d + 1) else if m < 12 then (y, m + 1, 1) else (y + 1, 1, 1))"

text \<open>The day number in closed form, with years that begin in March.\<close>

definition march_days :: "int \<Rightarrow> int" where
  "march_days y = 365 * y + y div 4 - y div 100 + y div 400"

definition day_number :: "int \<Rightarrow> int \<Rightarrow> int \<Rightarrow> int" where
  "day_number year month day =
     march_days (if month \<le> 2 then year - 1 else year) + (153 * (if month > 2 then month - 3 else month + 9) + 2) div 5 + day - 719469"

lemma sdiv_floor: "0 < n \<Longrightarrow> (if z \<ge> 0 then z else z - (n - 1)) sdiv n = z div (n :: int)"
proof (cases "0 \<le> z")
  case False
  assume n: "0 < n"
  have "- (z - (n - 1)) div n = - (z div n)"
  proof (rule int_div_pos_eq [where r = "n - 1 - z mod n"])
    show "- (z - (n - 1)) = n * - (z div n) + (n - 1 - z mod n)" using mult_div_mod_eq [of n z] by (simp add: algebra_simps)
    show "0 \<le> n - 1 - z mod n" "n - 1 - z mod n < n" using pos_mod_bound [OF n, of z] pos_mod_sign [OF n, of z] by linarith+
  qed
  then show ?thesis using False n by (simp add: signed_divide_int_def sgn_if)
qed (simp add: signed_divide_int_def sgn_if)

lemma smod_zero: "0 < n \<Longrightarrow> y smod n = 0 \<longleftrightarrow> y mod (n :: int) = 0"
  by (simp add: signed_modulo_int_def sgn_if dvd_eq_mod_eq_0 [symmetric])

lemma leap_mod: "is_leap_year y \<longleftrightarrow> y mod 4 = 0 \<and> y mod 100 \<noteq> 0 \<or> y mod 400 = 0"
  by (simp add: is_leap_year_def smod_zero)

lemma march_days_era: "march_days (400 * e + r) = 146097 * e + march_days r"
proof -
  have "(n * k + r) div n = k + r div n" if "n \<noteq> 0" for n k :: int using that by (simp add: div_add1_eq)
  from this [of 4 "100 * e"] this [of 100 "4 * e"] this [of 400 e]
  show ?thesis by (simp add: march_days_def)
qed

lemma div_step: "1 < n \<Longrightarrow> (y + 1) div n = y div n + of_bool ((y + 1) mod (n :: int) = 0)"
proof -
  assume n: "1 < n"
  let ?s = "y mod n"
  have y: "y = n * (y div n) + ?s" "0 \<le> ?s" "?s < n" using n by simp_all
  show ?thesis
  proof (cases "?s = n - 1")
    case True
    then have e: "y + 1 = n * (y div n + 1)" using y(1) by (simp only: distrib_left)
    then have "(y + 1) div n = y div n + 1" "(y + 1) mod n = 0" using n by simp_all
    then show ?thesis by simp
  next
    case False
    then have s: "0 \<le> ?s + 1" "?s + 1 < n" using y by linarith+
    have e: "y + 1 = n * (y div n) + (?s + 1)" using y(1) by linarith
    have "(y + 1) div n = y div n" "(y + 1) mod n = ?s + 1" using int_div_pos_eq [OF e s] int_mod_pos_eq [OF e s] by simp_all
    then show ?thesis using y(2) by simp
  qed
qed

lemma march_days_step: "march_days (y + 1) = march_days y + 365 + of_bool (is_leap_year (y + 1))"
proof -
  define A B C where "A = ((y + 1) mod 4 = 0)" and "B = ((y + 1) mod 100 = 0)" and "C = ((y + 1) mod 400 = 0)"
  have "(4 :: int) dvd 100" "(100 :: int) dvd 400" by simp_all
  then have "B \<longrightarrow> A" "C \<longrightarrow> B" unfolding A_def B_def C_def mod_eq_0_iff_dvd using dvd_trans by blast+
  then have abc: "of_bool A - of_bool B + of_bool C = (of_bool (A \<and> \<not> B \<or> C) :: int)" by (cases A; cases B; cases C) simp_all
  have s: "(y + 1) div 4 = y div 4 + of_bool A" "(y + 1) div 100 = y div 100 + of_bool B" "(y + 1) div 400 = y div 400 + of_bool C"
    unfolding A_def B_def C_def by (rule div_step; simp)+
  have l: "is_leap_year (y + 1) = (A \<and> \<not> B \<or> C)" by (simp only: leap_mod A_def B_def C_def)
  have "365 * (y + 1) + (p + a) - (q + b) + (r + c) = 365 * y + p - q + r + 365 + (a - b + c)" for p q r a b c :: int by simp
  then show ?thesis unfolding march_days_def l s abc [symmetric] by blast
qed

lemma march_days_mono: "a \<le> b \<Longrightarrow> march_days a \<le> march_days b"
  by (induction b rule: int_ge_induct) (auto simp: march_days_step)

lemma era_split:
  assumes "z = n * e + r" "0 \<le> r" "r < n"
  shows "(if z \<ge> 0 then z else z - (n - 1)) sdiv n = e" "z - e * n = (r :: int)"
proof -
  have "z div n = e" using assms by (rule int_div_pos_eq)
  then show "(if z \<ge> 0 then z else z - (n - 1)) sdiv n = e" using sdiv_floor [of n z] assms by simp
  show "z - e * n = r" using assms(1) by (simp add: mult.commute)
qed

lemma days_from_civil_number:
  assumes "1 \<le> month" "month \<le> 12" "1 \<le> day" "day \<le> 2 ^ 32" "\<bar>year\<bar> \<le> 2 ^ 40"
  shows "days_from_civil year month day = Some (day_number year month day)"
proof -
  define y where "y = (if month \<le> 2 then year - 1 else year)"
  define mp where "mp = (if month > 2 then month - 3 else month + 9)"
  define e r where "e = y div 400" and "r = y mod 400"
  have y: "y = 400 * e + r" "0 \<le> r" "r < 400" "\<bar>y\<bar> \<le> 2 ^ 40 + 1" using assms(5) by (simp_all add: e_def r_def y_def) linarith
  have mp: "0 \<le> mp" "mp \<le> 11" using assms(1,2) by (auto simp: mp_def)
  note era = era_split [OF y(1-3)]
  have y1: "(if month \<le> 2 then i64_checked (year - 1) else Some year) = Some y" using assms(5) by (auto simp: y_def i64_checked_def)
  have y2: "(if y \<ge> 0 then Some y else i64_checked (y - 399)) = Some (if y \<ge> 0 then y else y - (400 - 1))" using y(4) by (simp add: i64_checked_def)
  have "0 \<le> (153 * mp + 2) div 5" "(153 * mp + 2) div 5 \<le> 337" using mp by linarith+
  then have doy: "0 \<le> (153 * mp + 2) div 5 + day - 1" "(153 * mp + 2) div 5 + day - 1 < 2 ^ 33" using assms(3,4) by simp_all
  have "r div 400 = 0" using y by (simp add: div_pos_pos_trivial)
  then have m: "march_days y = 146097 * e + (r * 365 + r div 4 - r div 100)" unfolding y(1) march_days_era by (simp add: march_days_def)
  have "0 \<le> r div 4 - r div 100" "r div 4 - r div 100 \<le> 100" using y(2,3) by linarith+
  then have b: "\<bar>146097 * e\<bar> < 2 ^ 60" "0 \<le> r * 365 + r div 4 - r div 100" "r * 365 + r div 4 - r div 100 < 2 ^ 20" using y by simp_all
  define Y D where "Y = r * 365 + r div 4 - r div 100" and "D = (153 * mp + 2) div 5 + day - 1"
  have c: "u64_checked D = Some D" "i64_checked (e * 146097) = Some (e * 146097)" "i64_checked (e * 146097 + (Y + D)) = Some (e * 146097 + (Y + D))"
    "i64_checked (e * 146097 + (Y + D) - 719468) = Some (e * 146097 + (Y + D) - 719468)"
    using doy b unfolding Y_def [symmetric] D_def [symmetric] by (auto simp: u64_checked_def i64_checked_def)
  have n: "day_number year month day = e * 146097 + (Y + D) - 719468"
    unfolding day_number_def y_def [symmetric] mp_def [symmetric] m Y_def [symmetric] by (simp add: D_def)
  show ?thesis unfolding days_from_civil_def y1 mp_def [symmetric] bind.bind_lunit y2 Let_def era D_def [symmetric] Y_def [symmetric] c n by simp
qed

subsection \<open>Years and months from days\<close>

text \<open>The year of a day within its era of 400 years: the quotient never decreases, so the ends of the years decide it.\<close>

definition era_quotient :: "int \<Rightarrow> int" where
  "era_quotient doe = doe - doe div 1460 + doe div 36524 - doe div 146096"

lemma era_quotient_step: "era_quotient n \<le> era_quotient (n + 1)"
proof -
  have "(36524 :: int) dvd 146096" by simp
  then have "(n + 1) mod 36524 = 0" if "(n + 1) mod 146096 = 0" using that unfolding mod_eq_0_iff_dvd using dvd_trans by blast
  then have "of_bool ((n + 1) mod 146096 = 0) \<le> (of_bool ((n + 1) mod 36524 = 0) :: int)" by simp
  moreover have "of_bool ((n + 1) mod 1460 = 0) \<le> (1 :: int)" by simp
  moreover have "n - p + q - r \<le> n + 1 - (p + a) + (q + b) - (r + c)" if "a \<le> 1" "c \<le> b" for p q r a b c :: int using that by linarith
  ultimately show ?thesis unfolding era_quotient_def div_step [of 1460 n, simplified] div_step [of 36524 n, simplified] div_step [of 146096 n, simplified] by blast
qed

lemma era_quotient_mono: "a \<le> b \<Longrightarrow> era_quotient a \<le> era_quotient b"
  by (induction b rule: int_ge_induct) (auto intro: order_trans [OF _ era_quotient_step])

lemma era_table: "list_all (\<lambda>r. 365 * r \<le> era_quotient (march_days r) \<and> era_quotient (march_days (r + 1) - 1) < 365 * (r + 1)) [0..399]"
  by code_simp

lemma era_year:
  assumes "0 \<le> r" "r < 400" "march_days r \<le> doe" "doe < march_days (r + 1)"
  shows "era_quotient doe div 365 = r"
proof -
  have "r \<in> set [0..399]" using assms(1,2) by simp
  then have "365 * r \<le> era_quotient (march_days r)" "era_quotient (march_days (r + 1) - 1) < 365 * (r + 1)"
    using era_table unfolding list_all_iff by blast+
  then have "365 * r \<le> era_quotient doe" "era_quotient doe < 365 * (r + 1)"
    using era_quotient_mono [OF assms(3)] era_quotient_mono [of doe "march_days (r + 1) - 1"] assms(4) by linarith+
  then show ?thesis by (intro int_div_pos_eq [where r = "era_quotient doe - 365 * r"]) simp_all
qed

text \<open>The lengths of the months from March on, and the month of a day in such a year.\<close>

definition march_length :: "int \<Rightarrow> int" where
  "march_length mp = (if mp \<in> {1, 3, 6, 8} then 30 else if mp = 11 then 29 else 31)"

lemma month_of_day:
  assumes "0 \<le> mp" "mp \<le> 11" "0 \<le> k" "k < march_length mp"
  shows "(5 * ((153 * mp + 2) div 5 + k) + 2) div 153 = mp"
proof -
  have "mp = 0 \<or> mp = 1 \<or> mp = 2 \<or> mp = 3 \<or> mp = 4 \<or> mp = 5 \<or> mp = 6 \<or> mp = 7 \<or> mp = 8 \<or> mp = 9 \<or> mp = 10 \<or> mp = 11" using assms(1,2) by presburger
  then show ?thesis using assms(3,4) by (elim disjE) (simp_all add: march_length_def)
qed

text \<open>A valid date in a year from March: the month and the day are in range, and the day lies in its year.\<close>

lemma valid_march:
  assumes "valid_date (y, m, d)"
  defines "Y \<equiv> if m \<le> 2 then y - 1 else y" and "mp \<equiv> if m > 2 then m - 3 else m + 9"
  shows "0 \<le> mp" "mp \<le> 11" "0 \<le> d - 1" "d - 1 < march_length mp" "(153 * mp + 2) div 5 + (d - 1) < 365 + of_bool (is_leap_year (Y + 1))"
proof -
  have v: "1 \<le> m" "m \<le> 12" "1 \<le> d" "d \<le> days_in_month y m" using assms(1) by (simp_all add: valid_date_def)
  have c: "m = 1 \<or> m = 2 \<or> m = 3 \<or> m = 4 \<or> m = 5 \<or> m = 6 \<or> m = 7 \<or> m = 8 \<or> m = 9 \<or> m = 10 \<or> m = 11 \<or> m = 12" using v(1,2) by presburger
  show "0 \<le> mp" "mp \<le> 11" "0 \<le> d - 1" using v by (auto simp: mp_def)
  show "d - 1 < march_length mp" using c v(4) unfolding mp_def by (elim disjE) (simp_all add: days_in_month_def march_length_def split: if_splits)
  show "(153 * mp + 2) div 5 + (d - 1) < 365 + of_bool (is_leap_year (Y + 1))"
    using c v(4) unfolding mp_def Y_def by (elim disjE) (simp_all add: days_in_month_def split: if_splits)
qed

lemma civil_from_days_number:
  assumes v: "valid_date (y, m, d)" and small: "\<bar>y\<bar> \<le> 2 ^ 40"
  shows "civil_from_days (day_number y m d) = Some (y, m, d)"
proof -
  define Y where "Y = (if m \<le> 2 then y - 1 else y)"
  define mp where "mp = (if m > 2 then m - 3 else m + 9)"
  note f = valid_march [OF v, folded Y_def mp_def]
  define e r where "e = Y div 400" and "r = Y mod 400"
  have Y: "Y = 400 * e + r" "0 \<le> r" "r < 400" "\<bar>Y\<bar> \<le> 2 ^ 40 + 1" using small by (simp_all add: e_def r_def Y_def) linarith
  define D where "D = (153 * mp + 2) div 5 + (d - 1)"
  define S where "S = march_days r"
  have S: "S = 365 * r + r div 4 - r div 100" using Y(2,3) by (simp add: S_def march_days_def div_pos_pos_trivial)
  have D: "0 \<le> D" "D < 366"
  proof -
    show "0 \<le> D" using f(1,3) by (simp add: D_def)
    have "of_bool (is_leap_year (Y + 1)) \<le> (1 :: int)" by simp
    then show "D < 366" using f(5) unfolding D_def [symmetric] by linarith
  qed
  have leap: "is_leap_year (Y + 1) = is_leap_year (r + 1)"
  proof -
    have "(Y + 1) mod n = (r + 1) mod n" if "n dvd 400" for n
    proof -
      have "(400 * e + (r + 1)) mod n = (r + 1) mod n" using that by (metis dvd_mult2 mod_add_left_eq mod_eq_0_iff_dvd add_0)
      then show ?thesis unfolding Y(1) by (simp add: add.assoc)
    qed
    from this [of 4] this [of 100] this [of 400] show ?thesis unfolding leap_mod by simp
  qed
  have step: "march_days (r + 1) = S + 365 + of_bool (is_leap_year (r + 1))" unfolding S_def by (rule march_days_step)
  have year: "era_quotient (S + D) div 365 = r"
    using f(5) D unfolding leap by (intro era_year [OF Y(2,3)]) (simp_all add: step S_def D_def)
  have lt: "S + D < 146097"
  proof -
    have "march_days (r + 1) \<le> march_days 400" using Y(3) by (intro march_days_mono) simp
    then show ?thesis using f(5) unfolding leap step D_def [symmetric] by (simp add: march_days_def)
  qed
  have "0 \<le> S + D" using Y(2) D(1) march_days_mono [of 0 r] by (simp add: S_def march_days_def)
  define z where "z = 146097 * e + (S + D)"
  have z: "day_number y m d + 719468 = z"
    unfolding z_def S_def day_number_def Y_def [symmetric] mp_def [symmetric] Y(1) march_days_era by (simp add: D_def)
  have b: "\<bar>z\<bar> < 2 ^ 60" using Y \<open>0 \<le> S + D\<close> lt by (simp add: z_def)
  note era = era_split [OF z_def \<open>0 \<le> S + D\<close> lt]
  have c1: "i64_checked (day_number y m d + 719468) = Some z" unfolding z using b by (simp add: i64_checked_Some)
  have c2: "(if z \<ge> 0 then Some z else i64_checked (z - 146096)) = Some (if z \<ge> 0 then z else z - (146097 - 1))" using b by (auto simp: i64_checked_def)
  have doy: "u64_checked (S + D - (365 * r + r div 4 - r div 100)) = Some D" unfolding S using D by (simp add: u64_checked_def)
  have mp: "(5 * D + 2) div 153 = mp" unfolding D_def using f(1-4) by (rule month_of_day)
  have d: "u64_checked (D - (153 * mp + 2) div 5) = Some (d - 1)" unfolding D_def using f(3) v by (simp add: u64_checked_def valid_date_def days_in_month_def split: if_splits)
  have m: "(if mp < 10 then Some (mp + 3) else u64_checked (mp - 9)) = Some m" using v by (auto simp: mp_def u64_checked_def valid_date_def)
  have y: "(if m \<le> 2 then r + e * 400 + 1 else r + e * 400) = y" using Y(1) by (simp add: Y_def split: if_splits)
  show ?thesis unfolding civil_from_days_def c1 bind.bind_lunit c2 Let_def era era_quotient_def [symmetric] year doy mp d m y by simp
qed

subsection \<open>Counting days\<close>

lemma valid_next: "valid_date a \<Longrightarrow> valid_date (next_day a)"
  by (cases a) (auto simp: valid_date_def next_day_def days_in_month_def split: if_splits)

lemma day_number_next:
  assumes v: "valid_date (y, m, d)" and n: "next_day (y, m, d) = (y', m', d')"
  shows "day_number y' m' d' = day_number y m d + 1"
proof (cases "d < days_in_month y m")
  case True
  then show ?thesis using n by (simp add: next_day_def day_number_def)
next
  case False
  then have d: "d = days_in_month y m" using v by (simp add: valid_date_def)
  have c: "m = 1 \<or> m = 2 \<or> m = 3 \<or> m = 4 \<or> m = 5 \<or> m = 6 \<or> m = 7 \<or> m = 8 \<or> m = 9 \<or> m = 10 \<or> m = 11 \<or> m = 12"
    using v by (simp add: valid_date_def) presburger
  have s: "march_days y = march_days (y - 1) + 365 + of_bool (is_leap_year y)" using march_days_step [of "y - 1"] by simp
  show ?thesis using c n False s unfolding d by (elim disjE) (auto simp: next_day_def day_number_def days_in_month_def)
qed

lemma day_number_onto: "\<exists>y m d. valid_date (y, m, d) \<and> day_number y m d = days"
proof -
  define k where "k = - \<bar>days\<bar>"
  have start: "valid_date (400 * k, 3, 1)" "day_number (400 * k) 3 1 = 146097 * k - 719468"
    using march_days_era [of k 0] by (simp_all add: valid_date_def days_in_month_def day_number_def march_days_def)
  have "\<exists>y m d. valid_date (y, m, d) \<and> day_number y m d = 146097 * k - 719468 + int n" for n
  proof (induction n)
    case 0
    then show ?case using start by (metis add_0_right of_nat_0)
  next
    case (Suc n)
    then obtain y m d where v: "valid_date (y, m, d)" "day_number y m d = 146097 * k - 719468 + int n" by blast
    obtain y' m' d' where n: "next_day (y, m, d) = (y', m', d')" by (cases "next_day (y, m, d)")
    show ?case using valid_next [OF v(1)] day_number_next [OF v(1) n] v(2) unfolding n by (intro exI [of _ y'] exI [of _ m'] exI [of _ d']) simp
  qed
  moreover have "146097 * k - 719468 + int (nat (days - (146097 * k - 719468))) = days" unfolding k_def by linarith
  ultimately show ?thesis by metis
qed

lemma day_number_march:
  assumes "valid_date (y, m, d)"
  shows "\<exists>Y D. (Y = y \<or> Y = y - 1) \<and> 0 \<le> D \<and> D < 366 \<and> day_number y m d = march_days Y + D - 719468"
proof -
  define Y where "Y = (if m \<le> 2 then y - 1 else y)"
  define D where "D = (153 * (if m > 2 then m - 3 else m + 9) + 2) div 5 + (d - 1)"
  note f = valid_march [OF assms(1), folded Y_def D_def]
  have "0 \<le> D" using f(1,3) by (simp add: D_def)
  moreover have "D < 366"
  proof -
    have "of_bool (is_leap_year (Y + 1)) \<le> (1 :: int)" by simp
    then show ?thesis using f(5) by linarith
  qed
  moreover have "day_number y m d = march_days Y + D - 719468" by (simp add: day_number_def Y_def D_def)
  ultimately show ?thesis by (intro exI [of _ Y] exI [of _ D]) (simp add: Y_def)
qed

lemma day_number_bound:
  assumes "valid_date (y, m, d)" "\<bar>day_number y m d\<bar> \<le> 2 ^ 46"
  shows "\<bar>y\<bar> \<le> 2 ^ 40"
proof -
  obtain Y D where Y': "Y = y \<or> Y = y - 1" and D: "0 \<le> D" "D < 366" "day_number y m d = march_days Y + D - 719468"
    using day_number_march [OF assms(1)] by blast
  then have b: "\<bar>march_days Y\<bar> \<le> 2 ^ 46 + 719834" using assms(2) by simp
  define e r where "e = Y div 400" and "r = Y mod 400"
  have Y: "Y = 400 * e + r" "0 \<le> r" "r < 400" by (simp_all add: e_def r_def)
  have "0 \<le> march_days r" "march_days r \<le> 146097"
    using march_days_mono [of 0 r] march_days_mono [of r 400] Y(2,3) by (simp_all add: march_days_def)
  then have "\<bar>e\<bar> \<le> 2 ^ 30" using b unfolding Y(1) march_days_era by simp
  then have "\<bar>Y\<bar> \<le> 2 ^ 39" unfolding Y(1) using Y(2,3) by simp
  then show ?thesis using Y' by auto
qed

lemma calendar_day:
  assumes "\<bar>days\<bar> \<le> 2 ^ 46"
  obtains y m d where "civil_from_days days = Some (y, m, d)" "valid_date (y, m, d)" "day_number y m d = days" "\<bar>y\<bar> \<le> 2 ^ 40"
    "days_from_civil y m d = Some days"
proof -
  obtain y m d where v: "valid_date (y, m, d)" "day_number y m d = days" using day_number_onto by blast
  then have y: "\<bar>y\<bar> \<le> 2 ^ 40" using day_number_bound assms by blast
  have "days_from_civil y m d = Some days"
    using v y days_from_civil_number [of m d y] by (auto simp: valid_date_def days_in_month_def split: if_splits)
  then show thesis using v y civil_from_days_number [OF v(1) y] by (intro that) auto
qed

text \<open>C36. The calendar is the Gregorian one. The arithmetic of \<open>civil_from_days\<close> has no case for a month or a leap year; still day 0
  is 1970-01-01, each day is followed by the day that \<open>days_in_month\<close> and \<open>is_leap_year\<close> give, every
  result is a date of the calendar, \<open>days_from_civil\<close> is its inverse on both sides, and nothing overflows,
  for day counts up to \<open>2 ^ 45\<close> and years up to \<open>2 ^ 36\<close>.\<close>

theorem calendar_counts_days:
  assumes "\<bar>days\<bar> \<le> 2 ^ 45" "valid_date (year, month, day)" "\<bar>year\<bar> \<le> 2 ^ 36"
  shows "civil_from_days 0 = Some (1970, 1, 1) \<and>
    (\<exists>y m d. civil_from_days days = Some (y, m, d) \<and> valid_date (y, m, d) \<and> days_from_civil y m d = Some days \<and>
       civil_from_days (days + 1) = Some (next_day (y, m, d))) \<and>
    (\<exists>n. days_from_civil year month day = Some n \<and> civil_from_days n = Some (year, month, day))"
proof (intro conjI)
  show "civil_from_days 0 = Some (1970, 1, 1)" by code_simp
  have "\<bar>days\<bar> \<le> 2 ^ 46" using assms(1) by simp
  then obtain y m d where c: "civil_from_days days = Some (y, m, d)" "valid_date (y, m, d)" "day_number y m d = days" "days_from_civil y m d = Some days"
    by (rule calendar_day)
  obtain y' m' d' where n: "next_day (y, m, d) = (y', m', d')" by (cases "next_day (y, m, d)")
  have v: "valid_date (y', m', d')" "day_number y' m' d' = days + 1" using valid_next [OF c(2)] day_number_next [OF c(2) n] c(3) n by simp_all
  then have "\<bar>y'\<bar> \<le> 2 ^ 40" using assms(1) by (intro day_number_bound) auto
  then have "civil_from_days (days + 1) = Some (next_day (y, m, d))" using civil_from_days_number [OF v(1)] v(2) n by simp
  then show "\<exists>y m d. civil_from_days days = Some (y, m, d) \<and> valid_date (y, m, d) \<and> days_from_civil y m d = Some days \<and>
       civil_from_days (days + 1) = Some (next_day (y, m, d))" using c by blast
  have "days_from_civil year month day = Some (day_number year month day)"
    using assms(2,3) by (intro days_from_civil_number) (auto simp: valid_date_def days_in_month_def split: if_splits)
  then show "\<exists>n. days_from_civil year month day = Some n \<and> civil_from_days n = Some (year, month, day)"
    using civil_from_days_number [OF assms(2)] assms(3) by simp
qed

theorem calendar_counts_days_witness:
  "(\<exists>y m d. civil_from_days 59 = Some (y, m, d) \<and> days_from_civil y m d = Some 59) \<and>
   (\<exists>n. days_from_civil 2024 2 29 = Some n \<and> civil_from_days n = Some (2024, 2, 29))"
proof -
  have "valid_date (2024, 2, 29)" by code_simp
  from calendar_counts_days [of 59, OF _ this] show ?thesis by auto
qed

text \<open>The end of the range of \<open>i64\<close> is outside.\<close>

lemma civil_from_days_overflow: "civil_from_days (2 ^ 63 - 1) = None"
  by (simp add: civil_from_days_def i64_checked_def)

end
