(* ===== verification/Date_Values.thy ===== *)
theory Date_Values
  imports Date_Calendar F64_Bits
begin

text \<open>
  Timestamps and their calendar fields, \<open>runtime/native_values/date.rs\<close>: the UTC and local decompositions, \<open>Date.UTC\<close>, the
  getters and the setters. A timestamp is an \<open>f64\<close>; an invalid date is NaN. The outer option of a result
  is \<open>None\<close> for a panic. The C library is the parameter \<open>libc_time\<close>, with \<open>time_t\<close> of 64 bits.
\<close>

subsection \<open>Fields\<close>

record civil_date_time =
  cd_year :: int
  cd_month :: int
  cd_day :: int
  cd_weekday :: int
  cd_hours :: int
  cd_minutes :: int
  cd_seconds :: int
  cd_milliseconds :: int

definition civil_from_timestamp :: "u64 \<Rightarrow> civil_date_time option option" where
  "civil_from_timestamp timestamp =
     (if \<not> f64_is_finite timestamp then Some None
      else
        (let millis_total = f64_to_i64 (f64_floor timestamp);
             days = millis_total div 86400000;
             ms_of_day = millis_total mod 86400000
         in do {
           (year, month, day) \<leftarrow> civil_from_days days;
           Some (Some \<lparr>cd_year = year, cd_month = month, cd_day = day, cd_weekday = (days mod 7 + 4) mod 7,
             cd_hours = ms_of_day div 3600000, cd_minutes = (ms_of_day div 60000) mod 60,
             cd_seconds = (ms_of_day div 1000) mod 60, cd_milliseconds = ms_of_day mod 1000\<rparr>)
         }))"

text \<open>The broken-down time of the C library; \<open>as u32\<close> wraps.\<close>

record c_tm =
  tm_sec :: int
  tm_min :: int
  tm_hour :: int
  tm_mday :: int
  tm_mon :: int
  tm_year :: int
  tm_wday :: int
  tm_yday :: int
  tm_isdst :: int
  tm_zone :: "bytes option"

record libc_time =
  lt_localtime_r :: "int \<Rightarrow> c_tm option"
  lt_mktime :: "c_tm \<Rightarrow> int"

definition u32_cast :: "int \<Rightarrow> int" where
  "u32_cast v = v mod 2 ^ 32"

definition u32_checked :: "int \<Rightarrow> int option" where
  "u32_checked v = (if 0 \<le> v \<and> v < 2 ^ 32 then Some v else None)"

definition local_civil_from_timestamp :: "libc_time \<Rightarrow> u64 \<Rightarrow> civil_date_time option option" where
  "local_civil_from_timestamp C timestamp =
     (if \<not> f64_is_finite timestamp then Some None
      else
        (let millis = f64_to_i64 (f64_floor timestamp);
             seconds = millis div 1000
         in case lt_localtime_r C seconds of
              None \<Rightarrow> Some None
            | Some local \<Rightarrow> do {
                month \<leftarrow> u32_checked (u32_cast (tm_mon local) + 1);
                Some (Some \<lparr>cd_year = tm_year local + 1900, cd_month = month, cd_day = u32_cast (tm_mday local),
                  cd_weekday = u32_cast (tm_wday local), cd_hours = u32_cast (tm_hour local), cd_minutes = u32_cast (tm_min local),
                  cd_seconds = u32_cast (tm_sec local), cd_milliseconds = millis mod 1000\<rparr>)
              }))"

subsection \<open>Timestamps from fields\<close>

definition make_day :: "u64 \<Rightarrow> u64 \<Rightarrow> u64 \<Rightarrow> u64 option" where
  "make_day year0 month0 date =
     (if \<not> f64_is_finite year0 \<or> \<not> f64_is_finite month0 \<or> \<not> f64_is_finite date then Some f64_nan
      else
        (let year = f64_trunc year0;
             month = f64_trunc month0;
             year_offset = f64_floor (f64_div month (int_to_f64 12));
             normalized_year = f64_add year year_offset;
             normalized_month = f64_sub month (f64_mul year_offset (int_to_f64 12))
         in if \<not> (f64_le (int_to_f64 (-1000000)) normalized_year \<and> f64_le normalized_year (int_to_f64 1000000)) \<or>
               \<not> (f64_le (int_to_f64 0) normalized_month \<and> f64_lt normalized_month (int_to_f64 12)) then Some f64_nan
            else do {
              day_of_first \<leftarrow> days_from_civil (f64_to_i64 normalized_year) (int (f64_to_uint 32 normalized_month) + 1) 1;
              Some (f64_sub (f64_add (int_to_f64 day_of_first) (f64_trunc date)) (int_to_f64 1))
            }))"

definition make_date :: "u64 \<Rightarrow> u64 \<Rightarrow> u64" where
  "make_date day time_within_day = f64_add (f64_mul day (int_to_f64 86400000)) time_within_day"

definition time_sum :: "u64 \<Rightarrow> u64 \<Rightarrow> u64 \<Rightarrow> u64 \<Rightarrow> u64" where
  "time_sum hours minutes seconds milliseconds =
     f64_add (f64_add (f64_add (f64_mul hours (int_to_f64 3600000)) (f64_mul minutes (int_to_f64 60000)))
       (f64_mul seconds (int_to_f64 1000))) milliseconds"

definition time_within_day_ms :: "civil_date_time \<Rightarrow> u64" where
  "time_within_day_ms c =
     time_sum (int_to_f64 (cd_hours c)) (int_to_f64 (cd_minutes c)) (int_to_f64 (cd_seconds c)) (int_to_f64 (cd_milliseconds c))"

definition time_clip :: "u64 \<Rightarrow> u64" where
  "time_clip v =
     (if f64_is_finite v \<and> f64_le (f64_abs v) (int_to_f64 8640000000000000)
      then if f64_is_zero v \<or> f64_lt (f64_abs v) (int_to_f64 1) then int_to_f64 0 else f64_trunc v
      else f64_nan)"

definition thaw_date_time_clip :: "u64 \<Rightarrow> u64" where
  "thaw_date_time_clip v = time_clip v"

text \<open>The clock is \<open>as_secs_f64\<close> of the time since the epoch, \<open>None\<close> when the time is before it.\<close>

definition thaw_date_now :: "u64 option \<Rightarrow> u64" where
  "thaw_date_now clock = time_clip (case clock of Some secs \<Rightarrow> f64_mul secs (int_to_f64 1000) | None \<Rightarrow> int_to_f64 0)"

definition civil_for_full_year_setter :: "u64 \<Rightarrow> civil_date_time option" where
  "civil_for_full_year_setter timestamp =
     Option.bind (civil_from_timestamp (if f64_is_finite timestamp then timestamp else int_to_f64 0)) id"

definition local_civil_for_setter :: "libc_time \<Rightarrow> u64 \<Rightarrow> bool \<Rightarrow> civil_date_time option option" where
  "local_civil_for_setter C timestamp invalid_as_epoch =
     (if f64_is_finite timestamp then local_civil_from_timestamp C timestamp
      else if invalid_as_epoch then civil_from_timestamp (int_to_f64 0)
      else Some None)"

definition make_tm :: "civil_date_time \<Rightarrow> int \<Rightarrow> c_tm" where
  "make_tm c isdst = \<lparr>tm_sec = cd_seconds c, tm_min = cd_minutes c, tm_hour = cd_hours c, tm_mday = cd_day c, tm_mon = cd_month c - 1,
     tm_year = cd_year c - 1900, tm_wday = 0, tm_yday = 0, tm_isdst = isdst, tm_zone = None\<rparr>"

definition local_matches :: "libc_time \<Rightarrow> civil_date_time \<Rightarrow> int \<Rightarrow> bool option" where
  "local_matches C c v = do {
     r \<leftarrow> local_civil_from_timestamp C (f64_mul (int_to_f64 v) (int_to_f64 1000));
     Some (case r of
        None \<Rightarrow> False
      | Some local \<Rightarrow> cd_year local = cd_year c \<and> cd_month local = cd_month c \<and> cd_day local = cd_day c \<and>
          cd_hours local = cd_hours c \<and> cd_minutes local = cd_minutes c \<and> cd_seconds local = cd_seconds c)
   }"

definition timestamp_from_local_fields ::
    "libc_time \<Rightarrow> u64 \<Rightarrow> u64 \<Rightarrow> u64 \<Rightarrow> u64 \<Rightarrow> u64 \<Rightarrow> u64 \<Rightarrow> u64 \<Rightarrow> u64 option" where
  "timestamp_from_local_fields C year month date hours minutes seconds milliseconds =
     (if \<not> list_all f64_is_finite [year, month, date, hours, minutes, seconds, milliseconds] then Some f64_nan
      else do {
        day \<leftarrow> make_day year month date;
        let naive = make_date day (time_sum (f64_trunc hours) (f64_trunc minutes) (f64_trunc seconds) (f64_trunc milliseconds));
        civil \<leftarrow> civil_from_timestamp naive;
        (case civil of
           None \<Rightarrow> Some f64_nan
         | Some c \<Rightarrow>
             if \<not> (- (2 ^ 31) \<le> cd_year c - 1900 \<and> cd_year c - 1900 < 2 ^ 31) then Some f64_nan
             else
               (let automatic = lt_mktime C (make_tm c (-1));
                    standard = lt_mktime C (make_tm c 0);
                    daylight = lt_mktime C (make_tm c 1)
                in do {
                  is_standard \<leftarrow> local_matches C c standard;
                  is_daylight \<leftarrow> local_matches C c daylight;
                  let secs = (if is_standard \<and> is_daylight then min standard daylight
                    else if is_standard then standard else if is_daylight then daylight else automatic);
                  Some (time_clip (f64_add (f64_mul (int_to_f64 secs) (int_to_f64 1000)) (int_to_f64 (cd_milliseconds c))))
                }))
      })"

definition two_digit_year :: "u64 \<Rightarrow> u64" where
  "two_digit_year year =
     (if f64_is_finite year \<and> f64_le (int_to_f64 0) (f64_trunc year) \<and> f64_le (f64_trunc year) (int_to_f64 99)
      then f64_add (f64_trunc year) (int_to_f64 1900) else year)"

definition thaw_date_utc :: "u64 \<Rightarrow> u64 \<Rightarrow> u64 \<Rightarrow> u64 \<Rightarrow> u64 \<Rightarrow> u64 \<Rightarrow> u64 \<Rightarrow> u64 option" where
  "thaw_date_utc year month date hours minutes seconds milliseconds =
     (if \<not> f64_is_finite hours \<or> \<not> f64_is_finite minutes \<or> \<not> f64_is_finite seconds \<or> \<not> f64_is_finite milliseconds then Some f64_nan
      else do {
        day \<leftarrow> make_day (two_digit_year year) month date;
        Some (time_clip (make_date day (time_sum (f64_trunc hours) (f64_trunc minutes) (f64_trunc seconds) (f64_trunc milliseconds))))
      })"

definition thaw_date_local :: "libc_time \<Rightarrow> u64 \<Rightarrow> u64 \<Rightarrow> u64 \<Rightarrow> u64 \<Rightarrow> u64 \<Rightarrow> u64 \<Rightarrow> u64 \<Rightarrow> u64 option" where
  "thaw_date_local C year month date hours minutes seconds milliseconds =
     timestamp_from_local_fields C (two_digit_year year) month date hours minutes seconds milliseconds"

end
