(* ===== verification/Date_Access.thy ===== *)
theory Date_Access
  imports Date_Values
begin

text \<open>The getters and setters of \<open>runtime/native_values/date.rs\<close>, for UTC and for the local time of the C library.\<close>

subsection \<open>Getters\<close>

text \<open>The macros \<open>date_field_getter!\<close> and \<open>local_date_field_getter!\<close>; a getter for the month counts from 0.\<close>

definition field_or :: "u64 \<Rightarrow> (civil_date_time \<Rightarrow> int option) \<Rightarrow> civil_date_time option option \<Rightarrow> u64 option" where
  "field_or absent get r = do {
     civil \<leftarrow> r;
     (case civil of None \<Rightarrow> Some absent | Some c \<Rightarrow> map_option int_to_f64 (get c))
   }"

definition date_field_getter :: "(civil_date_time \<Rightarrow> int) \<Rightarrow> u64 \<Rightarrow> u64 option" where
  "date_field_getter get timestamp = field_or f64_nan (\<lambda>c. Some (get c)) (civil_from_timestamp timestamp)"

definition local_date_field_getter :: "(civil_date_time \<Rightarrow> int) \<Rightarrow> libc_time \<Rightarrow> u64 \<Rightarrow> u64 option" where
  "local_date_field_getter get C timestamp = field_or f64_nan (\<lambda>c. Some (get c)) (local_civil_from_timestamp C timestamp)"

definition month_index :: "civil_date_time \<Rightarrow> int option" where
  "month_index c = u32_checked (cd_month c - 1)"

definition thaw_date_get_full_year where "thaw_date_get_full_year = date_field_getter cd_year"
definition thaw_date_get_day where "thaw_date_get_day = date_field_getter cd_weekday"
definition thaw_date_get_hours where "thaw_date_get_hours = date_field_getter cd_hours"
definition thaw_date_get_minutes where "thaw_date_get_minutes = date_field_getter cd_minutes"
definition thaw_date_get_seconds where "thaw_date_get_seconds = date_field_getter cd_seconds"
definition thaw_date_get_milliseconds where "thaw_date_get_milliseconds = date_field_getter cd_milliseconds"

definition thaw_date_get_local_full_year where "thaw_date_get_local_full_year = local_date_field_getter cd_year"
definition thaw_date_get_local_day where "thaw_date_get_local_day = local_date_field_getter cd_weekday"
definition thaw_date_get_local_hours where "thaw_date_get_local_hours = local_date_field_getter cd_hours"
definition thaw_date_get_local_minutes where "thaw_date_get_local_minutes = local_date_field_getter cd_minutes"
definition thaw_date_get_local_seconds where "thaw_date_get_local_seconds = local_date_field_getter cd_seconds"
definition thaw_date_get_local_milliseconds where "thaw_date_get_local_milliseconds = local_date_field_getter cd_milliseconds"

definition thaw_date_get_month :: "u64 \<Rightarrow> u64 option" where
  "thaw_date_get_month timestamp = field_or f64_nan month_index (civil_from_timestamp timestamp)"

definition thaw_date_get_date :: "u64 \<Rightarrow> u64 option" where
  "thaw_date_get_date timestamp = field_or f64_nan (\<lambda>c. Some (cd_day c)) (civil_from_timestamp timestamp)"

definition thaw_date_get_local_month :: "libc_time \<Rightarrow> u64 \<Rightarrow> u64 option" where
  "thaw_date_get_local_month C timestamp = field_or f64_nan month_index (local_civil_from_timestamp C timestamp)"

definition thaw_date_get_local_date :: "libc_time \<Rightarrow> u64 \<Rightarrow> u64 option" where
  "thaw_date_get_local_date C timestamp = field_or f64_nan (\<lambda>c. Some (cd_day c)) (local_civil_from_timestamp C timestamp)"

definition thaw_date_get_month_for_full_year :: "u64 \<Rightarrow> u64 option" where
  "thaw_date_get_month_for_full_year timestamp = field_or (int_to_f64 0) month_index (civil_from_timestamp timestamp)"

definition thaw_date_get_date_for_full_year :: "u64 \<Rightarrow> u64 option" where
  "thaw_date_get_date_for_full_year timestamp = field_or (int_to_f64 1) (\<lambda>c. Some (cd_day c)) (civil_from_timestamp timestamp)"

definition thaw_date_get_local_month_for_full_year :: "libc_time \<Rightarrow> u64 \<Rightarrow> u64 option" where
  "thaw_date_get_local_month_for_full_year C timestamp = field_or (int_to_f64 0) month_index (local_civil_from_timestamp C timestamp)"

definition thaw_date_get_local_date_for_full_year :: "libc_time \<Rightarrow> u64 \<Rightarrow> u64 option" where
  "thaw_date_get_local_date_for_full_year C timestamp =
     field_or (int_to_f64 1) (\<lambda>c. Some (cd_day c)) (local_civil_from_timestamp C timestamp)"

text \<open>The seconds that the fields of a local time count, as if they were UTC.\<close>

definition local_seconds :: "civil_date_time \<Rightarrow> int option" where
  "local_seconds c = do {
     days \<leftarrow> days_from_civil (cd_year c) (cd_month c) (cd_day c);
     day_seconds \<leftarrow> i64_checked (days * 86400);
     i64_checked (day_seconds + cd_hours c * 3600 + cd_minutes c * 60 + cd_seconds c)
   }"

definition thaw_date_get_timezone_offset :: "libc_time \<Rightarrow> u64 \<Rightarrow> u64 option" where
  "thaw_date_get_timezone_offset C timestamp = do {
     civil \<leftarrow> local_civil_from_timestamp C timestamp;
     (case civil of
        None \<Rightarrow> Some f64_nan
      | Some c \<Rightarrow> do {
          let utc_seconds = f64_to_i64 (f64_floor timestamp) div 1000;
          local \<leftarrow> local_seconds c;
          difference \<leftarrow> i64_checked (utc_seconds - local);
          Some (int_to_f64 (difference sdiv 60))
        })
   }"

subsection \<open>Setters for UTC\<close>

definition thaw_date_set_full_year :: "u64 \<Rightarrow> u64 \<Rightarrow> u64 \<Rightarrow> u64 \<Rightarrow> u64 option" where
  "thaw_date_set_full_year timestamp year month date = do {
     c \<leftarrow> civil_for_full_year_setter timestamp;
     day \<leftarrow> make_day year month date;
     Some (time_clip (make_date day (time_within_day_ms c)))
   }"

text \<open>A setter leaves an invalid date invalid.\<close>

definition with_civil :: "(civil_date_time \<Rightarrow> u64 option) \<Rightarrow> civil_date_time option option \<Rightarrow> u64 option" where
  "with_civil f r = do {
     civil \<leftarrow> r;
     (case civil of None \<Rightarrow> Some f64_nan | Some c \<Rightarrow> f c)
   }"

definition thaw_date_set_month :: "u64 \<Rightarrow> u64 \<Rightarrow> u64 \<Rightarrow> u64 option" where
  "thaw_date_set_month timestamp month date = with_civil (\<lambda>c. do {
     day \<leftarrow> make_day (int_to_f64 (cd_year c)) month date;
     Some (time_clip (make_date day (time_within_day_ms c)))
   }) (civil_from_timestamp timestamp)"

definition thaw_date_set_date :: "u64 \<Rightarrow> u64 \<Rightarrow> u64 option" where
  "thaw_date_set_date timestamp date = with_civil (\<lambda>c. do {
     month \<leftarrow> month_index c;
     day \<leftarrow> make_day (int_to_f64 (cd_year c)) (int_to_f64 month) date;
     Some (time_clip (make_date day (time_within_day_ms c)))
   }) (civil_from_timestamp timestamp)"

definition civil_day :: "civil_date_time \<Rightarrow> u64 option" where
  "civil_day c = map_option int_to_f64 (days_from_civil (cd_year c) (cd_month c) (cd_day c))"

definition thaw_date_set_hours :: "u64 \<Rightarrow> u64 \<Rightarrow> u64 \<Rightarrow> u64 \<Rightarrow> u64 \<Rightarrow> u64 option" where
  "thaw_date_set_hours timestamp hours minutes seconds milliseconds = with_civil (\<lambda>c. do {
     day \<leftarrow> civil_day c;
     Some (if \<not> f64_is_finite hours \<or> \<not> f64_is_finite minutes \<or> \<not> f64_is_finite seconds \<or> \<not> f64_is_finite milliseconds then f64_nan
       else time_clip (make_date day (time_sum (f64_trunc hours) (f64_trunc minutes) (f64_trunc seconds) (f64_trunc milliseconds))))
   }) (civil_from_timestamp timestamp)"

definition thaw_date_set_minutes :: "u64 \<Rightarrow> u64 \<Rightarrow> u64 \<Rightarrow> u64 \<Rightarrow> u64 option" where
  "thaw_date_set_minutes timestamp minutes seconds milliseconds = with_civil (\<lambda>c. do {
     day \<leftarrow> civil_day c;
     Some (if \<not> f64_is_finite minutes \<or> \<not> f64_is_finite seconds \<or> \<not> f64_is_finite milliseconds then f64_nan
       else time_clip (make_date day
         (time_sum (int_to_f64 (cd_hours c)) (f64_trunc minutes) (f64_trunc seconds) (f64_trunc milliseconds))))
   }) (civil_from_timestamp timestamp)"

definition thaw_date_set_seconds :: "u64 \<Rightarrow> u64 \<Rightarrow> u64 \<Rightarrow> u64 option" where
  "thaw_date_set_seconds timestamp seconds milliseconds = with_civil (\<lambda>c. do {
     day \<leftarrow> civil_day c;
     Some (if \<not> f64_is_finite seconds \<or> \<not> f64_is_finite milliseconds then f64_nan
       else time_clip (make_date day
         (time_sum (int_to_f64 (cd_hours c)) (int_to_f64 (cd_minutes c)) (f64_trunc seconds) (f64_trunc milliseconds))))
   }) (civil_from_timestamp timestamp)"

definition thaw_date_set_milliseconds :: "u64 \<Rightarrow> u64 \<Rightarrow> u64 option" where
  "thaw_date_set_milliseconds timestamp milliseconds = with_civil (\<lambda>c.
     if \<not> f64_is_finite milliseconds then Some f64_nan
     else do {
       day \<leftarrow> civil_day c;
       Some (time_clip (make_date day
         (time_sum (int_to_f64 (cd_hours c)) (int_to_f64 (cd_minutes c)) (int_to_f64 (cd_seconds c)) (f64_trunc milliseconds))))
     }) (civil_from_timestamp timestamp)"

subsection \<open>Setters for the local time\<close>

definition thaw_date_set_local_full_year :: "libc_time \<Rightarrow> u64 \<Rightarrow> u64 \<Rightarrow> u64 \<Rightarrow> u64 \<Rightarrow> u64 option" where
  "thaw_date_set_local_full_year C timestamp year month date = with_civil (\<lambda>c.
     timestamp_from_local_fields C year month date (int_to_f64 (cd_hours c)) (int_to_f64 (cd_minutes c)) (int_to_f64 (cd_seconds c))
       (int_to_f64 (cd_milliseconds c))) (local_civil_for_setter C timestamp True)"

definition thaw_date_set_local_month :: "libc_time \<Rightarrow> u64 \<Rightarrow> u64 \<Rightarrow> u64 \<Rightarrow> u64 option" where
  "thaw_date_set_local_month C timestamp month date = with_civil (\<lambda>c.
     timestamp_from_local_fields C (int_to_f64 (cd_year c)) month date (int_to_f64 (cd_hours c)) (int_to_f64 (cd_minutes c))
       (int_to_f64 (cd_seconds c)) (int_to_f64 (cd_milliseconds c))) (local_civil_for_setter C timestamp False)"

definition thaw_date_set_local_date :: "libc_time \<Rightarrow> u64 \<Rightarrow> u64 \<Rightarrow> u64 option" where
  "thaw_date_set_local_date C timestamp date = with_civil (\<lambda>c. do {
     month \<leftarrow> month_index c;
     timestamp_from_local_fields C (int_to_f64 (cd_year c)) (int_to_f64 month) date (int_to_f64 (cd_hours c)) (int_to_f64 (cd_minutes c))
       (int_to_f64 (cd_seconds c)) (int_to_f64 (cd_milliseconds c))
   }) (local_civil_for_setter C timestamp False)"

definition thaw_date_set_local_hours :: "libc_time \<Rightarrow> u64 \<Rightarrow> u64 \<Rightarrow> u64 \<Rightarrow> u64 \<Rightarrow> u64 \<Rightarrow> u64 option" where
  "thaw_date_set_local_hours C timestamp hours minutes seconds milliseconds = with_civil (\<lambda>c. do {
     month \<leftarrow> month_index c;
     timestamp_from_local_fields C (int_to_f64 (cd_year c)) (int_to_f64 month) (int_to_f64 (cd_day c)) hours minutes seconds milliseconds
   }) (local_civil_for_setter C timestamp False)"

definition thaw_date_set_local_minutes :: "libc_time \<Rightarrow> u64 \<Rightarrow> u64 \<Rightarrow> u64 \<Rightarrow> u64 \<Rightarrow> u64 option" where
  "thaw_date_set_local_minutes C timestamp minutes seconds milliseconds = with_civil (\<lambda>c. do {
     month \<leftarrow> month_index c;
     timestamp_from_local_fields C (int_to_f64 (cd_year c)) (int_to_f64 month) (int_to_f64 (cd_day c)) (int_to_f64 (cd_hours c))
       minutes seconds milliseconds
   }) (local_civil_for_setter C timestamp False)"

definition thaw_date_set_local_seconds :: "libc_time \<Rightarrow> u64 \<Rightarrow> u64 \<Rightarrow> u64 \<Rightarrow> u64 option" where
  "thaw_date_set_local_seconds C timestamp seconds milliseconds = with_civil (\<lambda>c. do {
     month \<leftarrow> month_index c;
     timestamp_from_local_fields C (int_to_f64 (cd_year c)) (int_to_f64 month) (int_to_f64 (cd_day c)) (int_to_f64 (cd_hours c))
       (int_to_f64 (cd_minutes c)) seconds milliseconds
   }) (local_civil_for_setter C timestamp False)"

definition thaw_date_set_local_milliseconds :: "libc_time \<Rightarrow> u64 \<Rightarrow> u64 \<Rightarrow> u64 option" where
  "thaw_date_set_local_milliseconds C timestamp milliseconds = with_civil (\<lambda>c. do {
     month \<leftarrow> month_index c;
     timestamp_from_local_fields C (int_to_f64 (cd_year c)) (int_to_f64 month) (int_to_f64 (cd_day c)) (int_to_f64 (cd_hours c))
       (int_to_f64 (cd_minutes c)) (int_to_f64 (cd_seconds c)) milliseconds
   }) (local_civil_for_setter C timestamp False)"

end
