(* ===== verification/Date_Text.thy ===== *)
theory Date_Text
  imports Date_Access Rust_Text
begin

text \<open>
  The texts of dates, \<open>runtime/native_values/date.rs\<close>: the printed forms, \<open>Date.parse\<close> with the ISO format, and the parser of
  the other spellings. A text is a list of characters when it is read and of bytes when it is written.
\<close>

subsection \<open>Printing\<close>

definition iso_year :: "int \<Rightarrow> bytes" where
  "iso_year year =
     (if 0 \<le> year \<and> year \<le> 9999 then fmt_padded 4 year else (if year < 0 then 0x2D else 0x2B) # fmt_padded 6 \<bar>year\<bar>)"

definition iso_text :: "civil_date_time \<Rightarrow> bytes" where
  "iso_text c =
     iso_year (cd_year c) @ [0x2D] @ fmt_padded 2 (cd_month c) @ [0x2D] @ fmt_padded 2 (cd_day c) @ [0x54] @ fmt_padded 2 (cd_hours c) @ [0x3A] @
     fmt_padded 2 (cd_minutes c) @ [0x3A] @ fmt_padded 2 (cd_seconds c) @ [0x2E] @ fmt_padded 3 (cd_milliseconds c) @ [0x5A]"

definition thaw_date_to_iso_string :: "'b bump_ops \<Rightarrow> u64 \<Rightarrow> 'b native_state \<Rightarrow> (usize \<times> 'b native_state) option" where
  "thaw_date_to_iso_string B timestamp ns = do {
     civil \<leftarrow> civil_from_timestamp timestamp;
     Some (case civil of None \<Rightarrow> (0, ns) | Some c \<Rightarrow> arena_string B (iso_text c) ns)
   }"

definition WEEKDAY_NAMES :: "bytes list" where
  "WEEKDAY_NAMES = map ascii_bytes [''Sun'', ''Mon'', ''Tue'', ''Wed'', ''Thu'', ''Fri'', ''Sat'']"

definition MONTH_NAMES :: "bytes list" where
  "MONTH_NAMES = map ascii_bytes [''Jan'', ''Feb'', ''Mar'', ''Apr'', ''May'', ''Jun'', ''Jul'', ''Aug'', ''Sep'', ''Oct'', ''Nov'', ''Dec'']"

definition index_checked :: "'a list \<Rightarrow> int \<Rightarrow> 'a option" where
  "index_checked xs i = (if 0 \<le> i \<and> i < int (length xs) then Some (xs ! nat i) else None)"

definition date_string_part :: "civil_date_time \<Rightarrow> bytes option" where
  "date_string_part c = do {
     weekday \<leftarrow> index_checked WEEKDAY_NAMES (cd_weekday c);
     month \<leftarrow> Option.bind (month_index c) (index_checked MONTH_NAMES);
     Some (weekday @ [0x20] @ month @ [0x20] @ fmt_padded 2 (cd_day c) @ [0x20] @ fmt_padded 4 (cd_year c))
   }"

definition zone_long_name :: "bytes \<Rightarrow> bytes" where
  "zone_long_name abbrev =
     (case map_of (map (map_prod ascii_bytes ascii_bytes)
        [(''UTC'', ''Coordinated Universal Time''), (''Z'', ''Coordinated Universal Time''), (''GMT'', ''Greenwich Mean Time''),
         (''JST'', ''Japan Standard Time''), (''KST'', ''Korean Standard Time''), (''IST'', ''India Standard Time''),
         (''CET'', ''Central European Standard Time''), (''CEST'', ''Central European Summer Time''),
         (''EET'', ''Eastern European Standard Time''), (''EEST'', ''Eastern European Summer Time''), (''BST'', ''British Summer Time''),
         (''EST'', ''Eastern Standard Time''), (''EDT'', ''Eastern Daylight Time''), (''CST'', ''Central Standard Time''),
         (''CDT'', ''Central Daylight Time''), (''MST'', ''Mountain Standard Time''), (''MDT'', ''Mountain Daylight Time''),
         (''PST'', ''Pacific Standard Time''), (''PDT'', ''Pacific Daylight Time'')]) abbrev of
        Some name \<Rightarrow> name | None \<Rightarrow> abbrev)"

text \<open>\<open>CStr::to_str\<close> accepts the bytes that lossy decoding does not change.\<close>

definition zone_text :: "libc_time \<Rightarrow> int \<Rightarrow> int \<Rightarrow> bytes" where
  "zone_text C utc_seconds offset_minutes =
     (if offset_minutes = 0 then ascii_bytes ''Coordinated Universal Time''
      else (case lt_localtime_r C utc_seconds of
              None \<Rightarrow> []
            | Some local \<Rightarrow>
                (case tm_zone local of
                   None \<Rightarrow> []
                 | Some bs \<Rightarrow> if str_bytes (to_string_lossy bs) = bs then bs else [])))"

definition time_string_part :: "libc_time \<Rightarrow> u64 \<Rightarrow> civil_date_time \<Rightarrow> bytes option" where
  "time_string_part C timestamp c = do {
     let utc_seconds = f64_to_i64 (f64_floor timestamp) div 1000;
     local \<leftarrow> local_seconds c;
     difference \<leftarrow> i64_checked (local - utc_seconds);
     let signed_minutes = difference sdiv 60;
     let offset_minutes = \<bar>signed_minutes\<bar>;
     let zone = zone_long_name (zone_text C utc_seconds offset_minutes);
     Some (fmt_padded 2 (cd_hours c) @ [0x3A] @ fmt_padded 2 (cd_minutes c) @ [0x3A] @ fmt_padded 2 (cd_seconds c) @ ascii_bytes '' GMT'' @
       [if signed_minutes < 0 then 0x2D else 0x2B] @ fmt_padded 2 (offset_minutes div 60) @ fmt_padded 2 (offset_minutes mod 60) @
       ascii_bytes '' ('' @ zone @ ascii_bytes '')'')
   }"

definition arena_c_string_or_invalid_date :: "'b bump_ops \<Rightarrow> bytes option \<Rightarrow> 'b native_state \<Rightarrow> usize \<times> 'b native_state" where
  "arena_c_string_or_invalid_date B text ns =
     arena_string B (case text of Some bs \<Rightarrow> bs | None \<Rightarrow> ascii_bytes ''Invalid Date'') ns"

text \<open>A text of the fields, where the fields and each part of the text may panic.\<close>

definition print_civil ::
    "'b bump_ops \<Rightarrow> (civil_date_time \<Rightarrow> bytes option) \<Rightarrow> civil_date_time option option \<Rightarrow> 'b native_state \<Rightarrow> (usize \<times> 'b native_state) option" where
  "print_civil B text r ns = do {
     civil \<leftarrow> r;
     (case civil of
        None \<Rightarrow> Some (arena_c_string_or_invalid_date B None ns)
      | Some c \<Rightarrow> map_option (\<lambda>bs. arena_c_string_or_invalid_date B (Some bs) ns) (text c))
   }"

definition thaw_date_to_date_string :: "'b bump_ops \<Rightarrow> libc_time \<Rightarrow> u64 \<Rightarrow> 'b native_state \<Rightarrow> (usize \<times> 'b native_state) option" where
  "thaw_date_to_date_string B C timestamp ns = print_civil B date_string_part (local_civil_from_timestamp C timestamp) ns"

definition thaw_date_to_time_string :: "'b bump_ops \<Rightarrow> libc_time \<Rightarrow> u64 \<Rightarrow> 'b native_state \<Rightarrow> (usize \<times> 'b native_state) option" where
  "thaw_date_to_time_string B C timestamp ns = print_civil B (time_string_part C timestamp) (local_civil_from_timestamp C timestamp) ns"

definition thaw_date_to_string :: "'b bump_ops \<Rightarrow> libc_time \<Rightarrow> u64 \<Rightarrow> 'b native_state \<Rightarrow> (usize \<times> 'b native_state) option" where
  "thaw_date_to_string B C timestamp ns = print_civil B (\<lambda>c. do {
     date \<leftarrow> date_string_part c;
     time \<leftarrow> time_string_part C timestamp c;
     Some (date @ [0x20] @ time)
   }) (local_civil_from_timestamp C timestamp) ns"

definition thaw_date_to_utc_string :: "'b bump_ops \<Rightarrow> u64 \<Rightarrow> 'b native_state \<Rightarrow> (usize \<times> 'b native_state) option" where
  "thaw_date_to_utc_string B timestamp ns = print_civil B (\<lambda>c. do {
     weekday \<leftarrow> index_checked WEEKDAY_NAMES (cd_weekday c);
     month \<leftarrow> Option.bind (month_index c) (index_checked MONTH_NAMES);
     Some (weekday @ ascii_bytes '', '' @ fmt_padded 2 (cd_day c) @ [0x20] @ month @ [0x20] @ fmt_padded 4 (cd_year c) @ [0x20] @
       fmt_padded 2 (cd_hours c) @ [0x3A] @ fmt_padded 2 (cd_minutes c) @ [0x3A] @ fmt_padded 2 (cd_seconds c) @ ascii_bytes '' GMT'')
   }) (civil_from_timestamp timestamp) ns"

subsection \<open>The ISO format\<close>

definition digit_char_p :: "nat \<Rightarrow> bool" where
  "digit_char_p c \<longleftrightarrow> 0x30 \<le> c \<and> c \<le> 0x39"

definition digits_int :: "nat list \<Rightarrow> int" where
  "digits_int ds = foldl (\<lambda>v c. v * 10 + int (c - 0x30)) 0 ds"

text \<open>\<open>str::parse::<i64>\<close>\<close>

definition parse_i64 :: "nat list \<Rightarrow> int option" where
  "parse_i64 cs =
     (let negative = (cs \<noteq> [] \<and> hd cs = 0x2D);
          ds = (if cs \<noteq> [] \<and> (hd cs = 0x2D \<or> hd cs = 0x2B) then tl cs else cs)
      in if ds = [] \<or> \<not> list_all digit_char_p ds then None
         else i64_checked (if negative then - digits_int ds else digits_int ds))"

definition take_digits :: "nat \<Rightarrow> nat list \<Rightarrow> (nat list \<times> nat list) option" where
  "take_digits k cs = (if k \<le> length cs \<and> list_all digit_char_p (take k cs) then Some (take k cs, drop k cs) else None)"

text \<open>The groups of the regular expression in \<open>thaw_date_parse\<close>. Where an optional part may begin, its first character
  decides, so there is no backtracking.\<close>

record iso_captures =
  ic_year :: "nat list"
  ic_month :: "nat list option"
  ic_day :: "nat list option"
  ic_hours :: "nat list option"
  ic_minutes :: "nat list option"
  ic_seconds :: "nat list option"
  ic_fraction :: "nat list option"
  ic_zone :: "nat list option"

definition match_year :: "nat list \<Rightarrow> (nat list \<times> nat list) option" where
  "match_year cs =
     (case cs of
        c # rest \<Rightarrow>
          if c = 0x2B \<or> c = 0x2D then map_option (\<lambda>(ds, r). (c # ds, r)) (take_digits 6 rest) else take_digits 4 cs
      | [] \<Rightarrow> None)"

definition match_date :: "nat list \<Rightarrow> (nat list option \<times> nat list option \<times> nat list) option" where
  "match_date cs =
     (case cs of
        c # rest \<Rightarrow>
          if c = 0x2D then do {
            (month, r) \<leftarrow> take_digits 2 rest;
            (case r of
               c' # rest' \<Rightarrow>
                 if c' = 0x2D then do { (day, r') \<leftarrow> take_digits 2 rest'; Some (Some month, Some day, r') }
                 else Some (Some month, None, r)
             | [] \<Rightarrow> Some (Some month, None, []))
          }
          else Some (None, None, cs)
      | [] \<Rightarrow> Some (None, None, []))"

definition match_fraction :: "nat list \<Rightarrow> (nat list option \<times> nat list) option" where
  "match_fraction cs =
     (case cs of
        c # rest \<Rightarrow>
          if c = 0x2E then
            (let ds = takeWhile digit_char_p rest in if ds = [] then None else Some (Some ds, dropWhile digit_char_p rest))
          else Some (None, cs)
      | [] \<Rightarrow> Some (None, []))"

definition match_seconds :: "nat list \<Rightarrow> (nat list option \<times> nat list option \<times> nat list) option" where
  "match_seconds cs =
     (case cs of
        c # rest \<Rightarrow>
          if c = 0x3A then do {
            (seconds, r) \<leftarrow> take_digits 2 rest;
            (fraction, r') \<leftarrow> match_fraction r;
            Some (Some seconds, fraction, r')
          }
          else Some (None, None, cs)
      | [] \<Rightarrow> Some (None, None, []))"

definition match_zone :: "nat list \<Rightarrow> nat list option option" where
  "match_zone cs =
     (case cs of
        [] \<Rightarrow> Some None
      | c # rest \<Rightarrow>
          if cs = [0x5A] then Some (Some cs)
          else if c = 0x2B \<or> c = 0x2D then do {
            (hours, r) \<leftarrow> take_digits 2 rest;
            (minutes, r') \<leftarrow> take_digits 2 (if r \<noteq> [] \<and> hd r = 0x3A then tl r else r);
            (if r' = [] then Some (Some cs) else None)
          }
          else None)"

definition iso_match :: "nat list \<Rightarrow> iso_captures option" where
  "iso_match text = do {
     (year, r1) \<leftarrow> match_year text;
     (month, day, r2) \<leftarrow> match_date r1;
     (case r2 of
        [] \<Rightarrow> Some \<lparr>ic_year = year, ic_month = month, ic_day = day, ic_hours = None, ic_minutes = None, ic_seconds = None,
           ic_fraction = None, ic_zone = None\<rparr>
      | c # r3 \<Rightarrow>
          if c \<noteq> 0x54 then None
          else do {
            (hours, r4) \<leftarrow> take_digits 2 r3;
            (if r4 = [] \<or> hd r4 \<noteq> 0x3A then None
             else do {
               (minutes, r5) \<leftarrow> take_digits 2 (tl r4);
               (seconds, fraction, r6) \<leftarrow> match_seconds r5;
               zone \<leftarrow> match_zone r6;
               Some \<lparr>ic_year = year, ic_month = month, ic_day = day, ic_hours = Some hours, ic_minutes = Some minutes,
                 ic_seconds = seconds, ic_fraction = fraction, ic_zone = zone\<rparr>
             })
          })
   }"

subsection \<open>Other spellings\<close>

record legacy =
  lg_month :: "int option"
  lg_meridiem :: "bool option"
  lg_zone :: "int option"
  lg_numbers :: "(int \<times> nat) list"
  lg_time :: "(int \<times> int \<times> int \<times> int) option"

definition chars :: "string \<Rightarrow> nat list" where
  "chars s = map of_char s"

definition ascii_letter :: "nat \<Rightarrow> bool" where
  "ascii_letter c \<longleftrightarrow> 0x41 \<le> c \<and> c \<le> 0x5A \<or> 0x61 \<le> c \<and> c \<le> 0x7A"

definition lower_char :: "nat \<Rightarrow> nat" where
  "lower_char c = (if 0x41 \<le> c \<and> c \<le> 0x5A then c + 32 else c)"

definition name_position :: "string list \<Rightarrow> nat list \<Rightarrow> int option" where
  "name_position names word = map_of (zip (map chars names) (map int [0..<length names])) (take 3 word)"

definition legacy_word :: "nat list \<Rightarrow> legacy \<Rightarrow> legacy option" where
  "legacy_word word g =
     (if word = chars ''am'' \<or> word = chars ''pm'' then Some (g\<lparr>lg_meridiem := Some (word = chars ''pm'')\<rparr>)
      else if word \<in> set (map chars [''z'', ''gmt'', ''utc'', ''ut'']) then Some (g\<lparr>lg_zone := Some 0\<rparr>)
      else (case map_of (zip (map chars [''est'', ''edt'', ''cst'', ''cdt'', ''mst'', ''mdt'', ''pst'', ''pdt'']) [5, 4, 6, 5, 7, 6, 8, 7]) word of
              Some hours \<Rightarrow> Some (g\<lparr>lg_zone := Some (- hours * 60)\<rparr>)
            | None \<Rightarrow>
                (case name_position [''jan'', ''feb'', ''mar'', ''apr'', ''may'', ''jun'', ''jul'', ''aug'', ''sep'', ''oct'', ''nov'', ''dec''] word of
                   Some i \<Rightarrow> Some (g\<lparr>lg_month := Some (i + 1)\<rparr>)
                 | None \<Rightarrow>
                     if name_position [''sun'', ''mon'', ''tue'', ''wed'', ''thu'', ''fri'', ''sat''] word \<noteq> None then Some g else None)))"

text \<open>The loop over the colons of a time, at most two of them.\<close>

function legacy_parts :: "nat list \<Rightarrow> int list \<Rightarrow> (int list \<times> nat list) option" where
  "legacy_parts cs parts =
     (if cs \<noteq> [] \<and> hd cs = 0x3A \<and> length parts < 3 then
        (case parse_i64 (takeWhile digit_char_p (tl cs)) of
           None \<Rightarrow> None
         | Some part \<Rightarrow> legacy_parts (dropWhile digit_char_p (tl cs)) (parts @ [part]))
      else Some (parts, cs))"
  by pat_completeness auto
termination by (relation "measure (\<lambda>(cs, parts). 3 - length parts)") auto

declare legacy_parts.simps [simp del]

definition fraction_ms :: "nat list \<Rightarrow> int" where
  "fraction_ms ds = (let digits = take 3 ds in case parse_i64 (digits @ replicate (3 - length digits) 0x30) of Some v \<Rightarrow> v | None \<Rightarrow> 0)"

text \<open>A number, or a time when a colon follows: the state and the rest of the text.\<close>

definition legacy_number :: "nat list \<Rightarrow> legacy \<Rightarrow> (legacy \<times> nat list) option" where
  "legacy_number cs g = do {
     let digits = takeWhile digit_char_p cs;
     let rest = dropWhile digit_char_p cs;
     v \<leftarrow> parse_i64 digits;
     (if rest \<noteq> [] \<and> hd rest = 0x3A \<and> lg_time g = None then do {
        (parts, rest2) \<leftarrow> legacy_parts rest [v];
        let (milliseconds, rest3) =
          (if rest2 \<noteq> [] \<and> hd rest2 = 0x2E then (fraction_ms (takeWhile digit_char_p (tl rest2)), dropWhile digit_char_p (tl rest2))
           else (0, rest2));
        let padded = parts @ replicate (3 - length parts) 0;
        Some (g\<lparr>lg_time := Some (padded ! 0, padded ! 1, padded ! 2, milliseconds)\<rparr>, rest3)
      }
      else Some (g\<lparr>lg_numbers := lg_numbers g @ [(v, length digits)]\<rparr>, rest))
   }"

definition legacy_offset :: "nat \<Rightarrow> nat list \<Rightarrow> legacy \<Rightarrow> legacy option" where
  "legacy_offset c cs g = do {
     let digits = filter (\<lambda>x. x \<noteq> 0x3A) (takeWhile (\<lambda>x. digit_char_p x \<or> x = 0x3A) cs);
     v \<leftarrow> parse_i64 digits;
     let minutes = (if length digits \<le> 2 then v * 60 else v sdiv 100 * 60 + v smod 100);
     Some (g\<lparr>lg_zone := Some ((if c = 0x2D then -1 else 1) * minutes)\<rparr>)
   }"

lemma dropWhile_tl_shorter: "length (dropWhile P (tl xs)) \<le> length xs"
  using length_dropWhile_le [of P "tl xs"] by simp

lemma legacy_parts_shorter: "legacy_parts cs parts = Some (r, rest) \<Longrightarrow> length rest \<le> length cs"
proof (induction cs parts rule: legacy_parts.induct)
  case (1 cs parts)
  show ?case
  proof (cases "cs \<noteq> [] \<and> hd cs = 0x3A \<and> length parts < 3")
    case True
    then obtain part where p: "parse_i64 (takeWhile digit_char_p (tl cs)) = Some part"
      and l: "legacy_parts (dropWhile digit_char_p (tl cs)) (parts @ [part]) = Some (r, rest)"
      using 1(2) unfolding legacy_parts.simps [of cs parts] by (auto split: option.splits)
    show ?thesis using 1(1) [OF True p l] dropWhile_tl_shorter [of digit_char_p cs] by linarith
  next
    case False
    then show ?thesis using 1(2) unfolding legacy_parts.simps [of cs parts] by (simp split: if_splits)
  qed
qed

lemma legacy_number_shorter:
  assumes "legacy_number (c # cs) g = Some (g', rest)" "digit_char_p c"
  shows "length rest \<le> length cs"
proof -
  let ?r = "dropWhile digit_char_p cs"
  have "length rest \<le> length ?r"
    using assms by (auto simp: legacy_number_def Let_def split: if_splits bind_splits dest!: legacy_parts_shorter intro: le_trans [OF dropWhile_tl_shorter])
  then show ?thesis using length_dropWhile_le [of digit_char_p cs] by linarith
qed

function legacy_loop :: "nat list \<Rightarrow> legacy \<Rightarrow> legacy option" where
  "legacy_loop [] g = Some g"
| "legacy_loop (c # cs) g =
     (if c = 0x28 then legacy_loop (tl (dropWhile (\<lambda>x. x \<noteq> 0x29) cs)) g
      else if ascii_letter c then
        (case legacy_word (map lower_char (takeWhile ascii_letter (c # cs))) g of
           None \<Rightarrow> None
         | Some g' \<Rightarrow> legacy_loop (dropWhile ascii_letter cs) g')
      else if digit_char_p c then
        (case legacy_number (c # cs) g of
           None \<Rightarrow> None
         | Some (g', rest) \<Rightarrow> legacy_loop rest g')
      else if (c = 0x2B \<or> c = 0x2D) \<and> (lg_time g \<noteq> None \<or> lg_zone g \<noteq> None) then
        (case legacy_offset c cs g of
           None \<Rightarrow> None
         | Some g' \<Rightarrow> legacy_loop (dropWhile (\<lambda>x. digit_char_p x \<or> x = 0x3A) cs) g')
      else if c \<in> {0x20, 0x2C, 0x2F, 0x2D, 0x2E} then legacy_loop cs g
      else None)"
  by pat_completeness auto
termination
proof (relation "measure (\<lambda>(cs, g). length cs)")
qed (auto simp: less_Suc_eq_le length_dropWhile_le le_diff_conv le_SucI dest: legacy_number_shorter)

text \<open>Which number is the year, the month and the day.\<close>

definition legacy_date :: "int option \<Rightarrow> (int \<times> nat) list \<Rightarrow> (int \<times> int \<times> int) option" where
  "legacy_date month_name numbers =
     (case month_name of
        Some month \<Rightarrow>
          (case numbers of
             [(a, alen), (b, _)] \<Rightarrow> Some (if alen \<ge> 3 \<or> a > 31 then (a, month, b) else (b, month, a))
           | [(a, _)] \<Rightarrow> Some (if a > 31 then (a, month, 1) else (2001, month, a))
           | _ \<Rightarrow> None)
      | None \<Rightarrow>
          (case numbers of
             [(a, alen), (b, _), (c, _)] \<Rightarrow> Some (if alen \<ge> 3 \<or> a > 31 then (a, u32_cast b, c) else (c, u32_cast a, b))
           | [(a, _), (b, _)] \<Rightarrow> Some (2001, u32_cast a, b)
           | [(a, _)] \<Rightarrow> Some (if a = 0 then (2000, 1, 1) else if a > 31 then (a, 1, 1) else (2001, u32_cast a, 1))
           | _ \<Rightarrow> None))"

definition pivot_year :: "(int \<times> nat) list \<Rightarrow> int \<Rightarrow> int" where
  "pivot_year numbers year =
     (if 0 \<le> year \<and> year \<le> 49 \<and> (\<exists>(v, l) \<in> set numbers. v = year \<and> l \<le> 2) then 2000 + year
      else if 50 \<le> year \<and> year \<le> 99 then 1900 + year
      else year)"

definition legacy_hours :: "bool option \<Rightarrow> int \<Rightarrow> int option" where
  "legacy_hours meridiem hours =
     (case meridiem of
        None \<Rightarrow> Some hours
      | Some pm \<Rightarrow> if 1 \<le> hours \<and> hours \<le> 12 then Some (hours mod 12 + (if pm then 12 else 0)) else None)"

text \<open>\<open>days * 86_400_000.0 + hours * 3_600_000.0 + minutes * 60_000.0 + seconds * 1_000.0 + milliseconds\<close>\<close>

definition utc_sum :: "int \<Rightarrow> int \<Rightarrow> int \<Rightarrow> int \<Rightarrow> int \<Rightarrow> u64" where
  "utc_sum days hours minutes seconds milliseconds =
     f64_add (f64_add (f64_add (f64_add (f64_mul (int_to_f64 days) (int_to_f64 86400000)) (f64_mul (int_to_f64 hours) (int_to_f64 3600000)))
       (f64_mul (int_to_f64 minutes) (int_to_f64 60000))) (f64_mul (int_to_f64 seconds) (int_to_f64 1000))) (int_to_f64 milliseconds)"

definition local_time ::
    "libc_time \<Rightarrow> int \<Rightarrow> int \<Rightarrow> int \<Rightarrow> int \<Rightarrow> int \<Rightarrow> int \<Rightarrow> int \<Rightarrow> u64 option" where
  "local_time C year month day hours minutes seconds milliseconds =
     timestamp_from_local_fields C (int_to_f64 year) (f64_sub (int_to_f64 month) (int_to_f64 1)) (int_to_f64 day) (int_to_f64 hours)
       (int_to_f64 minutes) (int_to_f64 seconds) (int_to_f64 milliseconds)"

definition parse_legacy_date :: "libc_time \<Rightarrow> nat list \<Rightarrow> u64 option" where
  "parse_legacy_date C text =
     (let parsed = do {
        g \<leftarrow> legacy_loop (trim_matches char_is_whitespace text)
          \<lparr>lg_month = None, lg_meridiem = None, lg_zone = None, lg_numbers = [], lg_time = None\<rparr>;
        (year, month, day) \<leftarrow> legacy_date (lg_month g) (lg_numbers g);
        let (hours0, minutes, seconds, milliseconds) = (case lg_time g of Some tm \<Rightarrow> tm | None \<Rightarrow> (0, 0, 0, 0));
        hours \<leftarrow> legacy_hours (lg_meridiem g) hours0;
        (if 1 \<le> month \<and> month \<le> 12 \<and> 1 \<le> day \<and> day \<le> 31 \<and> 0 \<le> hours \<and> hours \<le> 24 \<and> 0 \<le> minutes \<and> minutes \<le> 59 \<and>
            0 \<le> seconds \<and> seconds \<le> 59
         then Some (lg_zone g, pivot_year (lg_numbers g) year, month, day, hours, minutes, seconds, milliseconds) else None)
      } in case parsed of
        None \<Rightarrow> Some f64_nan
      | Some (zone, year, month, day, hours, minutes, seconds, milliseconds) \<Rightarrow>
          (case zone of
             None \<Rightarrow> local_time C year month day hours minutes seconds milliseconds
           | Some offset \<Rightarrow> do {
               first \<leftarrow> days_from_civil year month 1;
               day_sum \<leftarrow> i64_checked (first + day);
               days \<leftarrow> i64_checked (day_sum - 1);
               Some (time_clip (f64_sub (utc_sum days hours minutes seconds milliseconds) (f64_mul (int_to_f64 offset) (int_to_f64 60000))))
             }))"

subsection \<open>\<open>Date.parse\<close>\<close>

definition iso_field :: "nat list option \<Rightarrow> int \<Rightarrow> int" where
  "iso_field cs missing = (case Option.bind cs parse_i64 of Some v \<Rightarrow> v | None \<Rightarrow> missing)"

text \<open>The hours and the minutes of a zone, and whether it is negative; \<open>Z\<close> has none.\<close>

definition zone_fields :: "nat list \<Rightarrow> (bool \<times> int \<times> int) option" where
  "zone_fields zone =
     (let offset = filter (\<lambda>c. c \<noteq> 0x3A) zone
      in if offset = [0x5A] then None else Some (hd offset = 0x2D, digits_int (take 2 (tl offset)), digits_int (take 2 (drop 3 offset))))"

definition iso_ok :: "int \<Rightarrow> int \<Rightarrow> int \<Rightarrow> int \<Rightarrow> int \<Rightarrow> int \<Rightarrow> bool" where
  "iso_ok month day hours minutes seconds milliseconds \<longleftrightarrow>
     1 \<le> month \<and> month \<le> 12 \<and> 1 \<le> day \<and> day \<le> 31 \<and> 0 \<le> hours \<and> hours \<le> 24 \<and>
     \<not> (hours = 24 \<and> (minutes \<noteq> 0 \<or> seconds \<noteq> 0 \<or> milliseconds \<noteq> 0)) \<and> 0 \<le> minutes \<and> minutes \<le> 59 \<and> 0 \<le> seconds \<and> seconds \<le> 59"

definition zone_ok :: "nat list option \<Rightarrow> bool" where
  "zone_ok zone =
     (case Option.bind zone zone_fields of None \<Rightarrow> True | Some (_, hours, minutes) \<Rightarrow> hours \<le> 23 \<and> minutes \<le> 59)"

definition parse_iso_date :: "libc_time \<Rightarrow> iso_captures \<Rightarrow> u64 option" where
  "parse_iso_date C ic =
     (if ic_year ic = chars ''-000000'' then Some f64_nan
      else case parse_i64 (ic_year ic) of
        None \<Rightarrow> Some f64_nan
      | Some year \<Rightarrow>
          (let month = u32_cast (iso_field (ic_month ic) 1);
               day = u32_cast (iso_field (ic_day ic) 1);
               hours = iso_field (ic_hours ic) 0;
               minutes = iso_field (ic_minutes ic) 0;
               seconds = iso_field (ic_seconds ic) 0;
               milliseconds = (case ic_fraction ic of None \<Rightarrow> 0 | Some ds \<Rightarrow> fraction_ms ds)
           in if \<not> iso_ok month day hours minutes seconds milliseconds \<or> \<not> zone_ok (ic_zone ic) then Some f64_nan
              else if ic_hours ic \<noteq> None \<and> ic_zone ic = None then local_time C year month day hours minutes seconds milliseconds
              else do {
                days \<leftarrow> days_from_civil year month day;
                let timestamp = utc_sum days hours minutes seconds milliseconds;
                Some (time_clip (case Option.bind (ic_zone ic) zone_fields of
                    None \<Rightarrow> timestamp
                  | Some (negative, oh, om) \<Rightarrow>
                      f64_sub timestamp (f64_mul (int_to_f64 (if negative then -1 else 1))
                        (f64_add (f64_mul (int_to_f64 oh) (int_to_f64 3600000)) (f64_mul (int_to_f64 om) (int_to_f64 60000))))))
              }))"

definition thaw_date_parse :: "libc_time \<Rightarrow> 'b native_state \<Rightarrow> usize \<Rightarrow> u64 option" where
  "thaw_date_parse C ns text =
     (if text = 0 then Some f64_nan
      else do {
        bs \<leftarrow> native_bytes ns text;
        let cs = to_string_lossy bs;
        (case iso_match cs of None \<Rightarrow> parse_legacy_date C cs | Some ic \<Rightarrow> parse_iso_date C ic)
      })"

end
