(* ===== verification/F64_Exact.thy ===== *)
theory F64_Exact
  imports F64_Lemmas
begin

text \<open>
  Numbers that denote integers. Below \<open>2 ^ 53\<close> every integer is a number, and sums, differences and products of such
  numbers that stay below it are exact; so is the floor of a quotient by a small constant.
\<close>

definition denotes :: "u64 \<Rightarrow> int \<Rightarrow> bool" where
  "denotes x v \<longleftrightarrow> f64_is_finite x \<and> f64_units x = v * 2 ^ 1075"

subsection \<open>Rounding\<close>

lemma round_div_exact: "0 < b \<Longrightarrow> round_div (q * b) b = q"
  by (simp add: round_div_def)

lemma round_div_error: "0 < b \<Longrightarrow> \<bar>2 * int (round_div a b) * int b - 2 * int a\<bar> \<le> int b"
proof -
  assume b: "0 < b"
  have "int a = int (a div b) * int b + int (a mod b)" by (metis div_mult_mod_eq of_nat_add of_nat_mult)
  moreover have "a mod b < b" using b by simp
  ultimately show ?thesis by (auto simp: round_div_def Let_def algebra_simps)
qed

lemma sign_bits:
  assumes "b < 2 ^ 63"
  shows "unat ((if negative then 0x8000000000000000 else 0) OR (of_nat b :: u64)) = of_bool negative * 2 ^ 63 + b"
proof -
  have u: "unat (of_nat b :: u64) = b" using assms by (simp add: unsigned_of_nat take_bit_nat_eq_self)
  have "\<not> bit (of_nat b :: u64) n" if "bit (0x8000000000000000 :: u64) n" for n
  proof -
    have "(0x8000000000000000 :: u64) = push_bit 63 1" by simp
    then have "bit (push_bit 63 (1 :: u64)) n" using that by simp
    then have n: "n = 63" by (simp only: bit_push_bit_iff bit_1_iff) auto
    show ?thesis using f64_negative_unat [of "of_nat b"] assms u unfolding n f64_negative_def by simp
  qed
  then have "(0x8000000000000000 :: u64) + of_nat b = 0x8000000000000000 OR of_nat b" by (intro disjunctive_add) blast
  moreover have "unat ((0x8000000000000000 :: u64) + of_nat b) = 2 ^ 63 + b"
    using assms u by (subst unat_plus_if') simp_all
  ultimately show ?thesis using u by (cases negative) simp_all
qed

lemma nat_bits_shift: "0 < k \<Longrightarrow> nat_bits (k * 2 ^ n) = nat_bits k + n"
proof -
  assume k: "0 < k"
  have b: "k < 2 ^ nat_bits k" "0 < nat_bits k" "2 ^ (nat_bits k - 1) \<le> k" using nat_bits_bounds [of k] k by auto
  have "2 ^ (nat_bits k + n - 1) \<le> k * 2 ^ n"
  proof -
    have "2 ^ (nat_bits k + n - 1) = 2 ^ (nat_bits k - 1) * (2 :: nat) ^ n" using b(2) by (simp flip: power_add)
    then show ?thesis using b(3) by simp
  qed
  then show ?thesis using b k by (intro nat_bits_eq) (simp_all add: power_add)
qed

lemma nat_bits_le: "n < 2 ^ b \<Longrightarrow> nat_bits n \<le> b"
proof -
  assume n: "n < 2 ^ b"
  have "nat_bits n - 1 < b \<or> nat_bits n = 0"
  proof (cases "n = 0")
    case False
    then have "2 ^ (nat_bits n - 1) \<le> n" using nat_bits_bounds [of n] by simp
    then have "(2 :: nat) ^ (nat_bits n - 1) < 2 ^ b" using n by (rule le_less_trans)
    then show ?thesis by (simp add: power_less_imp_less_exp [of 2])
  qed (simp add: nat_bits.simps)
  then show ?thesis by linarith
qed

text \<open>A significand and an exponent field, packed, keep their value; a significand of \<open>2 ^ 53\<close> carries into the exponent.\<close>

lemma f64_packed:
  assumes u: "unat x = of_bool negative * 2 ^ 63 + ((p - 1) * 2 ^ 52 + q)"
    and p: "0 < p" "p < 2046" and q: "q \<le> 2 ^ 53" "p = 1 \<or> 2 ^ 52 \<le> q"
  shows "f64_scaled x = q * 2 ^ p \<and> f64_negative x = negative \<and> f64_is_finite x"
proof -
  define e where "e = (if q < 2 ^ 52 then 0 else if q < 2 ^ 53 then p else p + 1)"
  define f where "f = (if q < 2 ^ 52 then q else if q < 2 ^ 53 then q - 2 ^ 52 else 0)"
  have "unat x = (of_bool negative * 2 ^ 11 + e) * 2 ^ 52 + f" using u p(1) q by (auto simp: e_def f_def algebra_simps)
  moreover have "e < 2 ^ 11" "f < 2 ^ 52" using p q by (auto simp: e_def f_def)
  ultimately have "f64_exponent x = e \<and> f64_fraction x = f \<and> unat x div 2 ^ 63 = of_bool negative" by (rule f64_from_fields)
  then have x: "f64_exponent x = e" "f64_fraction x = f" "f64_negative x = negative" by (simp_all add: f64_negative_unat)
  have "f64_scaled x = q * 2 ^ p"
  proof (cases "q < 2 ^ 53")
    case True
    then show ?thesis using x p q by (auto simp: f64_scaled_def f64_significand_def f64_power_def e_def f_def)
  next
    case False
    then have "q = 2 ^ 53" using q(1) by simp
    then show ?thesis using x by (simp add: f64_scaled_def f64_significand_def f64_power_def e_def f_def)
  qed
  then show ?thesis using x p by (auto simp: f64_is_finite_def e_def)
qed

text \<open>Rounding a magnitude below \<open>2 ^ 100\<close>: the significand is the rounded quotient, so the error is half a unit of it.\<close>

lemma f64_round_parts:
  fixes m d :: nat and negative :: bool
  assumes d: "0 < d" and small: "m < d * 2 ^ 100"
  obtains p where "0 < p" "p = max 1 (nat_bits (m * 2 ^ 1075 div d) - 53)"
    "f64_scaled (f64_round negative m d) = round_div (m * 2 ^ 1075) (d * 2 ^ p) * 2 ^ p"
    "f64_negative (f64_round negative m d) = negative" "f64_is_finite (f64_round negative m d)"
    "p = 1 \<or> 2 ^ 52 \<le> round_div (m * 2 ^ 1075) (d * 2 ^ p)"
proof -
  define M where "M = m * 2 ^ 1075"
  define b where "b = nat_bits (M div d)"
  define p where "p = max 1 (b - 53)"
  define q where "q = round_div M (d * 2 ^ p)"
  have p1: "0 < p" by (simp add: p_def)
  have "M < d * 2 ^ 1175"
  proof -
    have "M < d * 2 ^ 100 * 2 ^ 1075" using small unfolding M_def by simp
    then show ?thesis unfolding mult.assoc power_add [symmetric] by simp
  qed
  then have "M div d < 2 ^ 1175" by (simp add: less_mult_imp_div_less mult.commute)
  then have "b \<le> 1175" unfolding b_def by (rule nat_bits_le)
  then have p2: "p < 2046" by (simp add: p_def)
  have hi: "M div d < 2 ^ (53 + p)"
  proof -
    have "M div d < 2 ^ b" using nat_bits_bounds [of "M div d"] by (simp add: b_def)
    also have "\<dots> \<le> (2 :: nat) ^ (53 + p)" by (intro power_increasing) (auto simp: p_def)
    finally show ?thesis .
  qed
  have dd: "M div (d * 2 ^ p) = M div d div 2 ^ p" by (rule div_mult2_eq)
  have "M div d div 2 ^ p < 2 ^ 53" using hi by (simp add: less_mult_imp_div_less power_add)
  then have q1: "q \<le> 2 ^ 53" unfolding q_def round_div_def Let_def dd by simp
  have q2: "p = 1 \<or> 2 ^ 52 \<le> q"
  proof (cases "p = 1")
    case False
    then have bp: "b = 53 + p" by (simp add: p_def max_def split: if_splits)
    then have "M div d \<noteq> 0" by (cases "M div d = 0") (simp_all add: b_def nat_bits.simps)
    then have "2 ^ (b - 1) \<le> M div d" using nat_bits_bounds [of "M div d"] by (simp add: b_def)
    then have "2 ^ 52 * 2 ^ p \<le> M div d" unfolding bp by (simp add: power_add)
    then have "2 ^ 52 \<le> M div d div 2 ^ p" by (simp add: less_eq_div_iff_mult_less_eq)
    also have "\<dots> \<le> q" unfolding q_def round_div_def Let_def dd by simp
    finally show ?thesis by simp
  qed simp
  have r: "f64_round negative m d =
      (if negative then 0x8000000000000000 else 0) OR of_nat (min ((p - 1) * 2 ^ 52 + q) 0x7ff0000000000000)"
    unfolding f64_round_def Let_def q_def p_def b_def M_def by (rule refl)
  have "(p - 1) * 2 ^ 52 + q < 0x7ff0000000000000"
  proof -
    have "(p - 1) * 2 ^ 52 \<le> 2044 * 2 ^ 52" using p2 by (intro mult_right_mono) auto
    then show ?thesis using q1 by simp
  qed
  then have "unat (f64_round negative m d) = of_bool negative * 2 ^ 63 + ((p - 1) * 2 ^ 52 + q)"
    using sign_bits [of "(p - 1) * 2 ^ 52 + q" negative] unfolding r by (simp only: min_def)  simp
  from f64_packed [OF this p1 p2 q1 q2] show thesis
    using q2 unfolding q_def M_def by (intro that [of p]) (simp_all add: p1 p_def b_def M_def)
qed

text \<open>A quotient that is an integer below \<open>2 ^ 53\<close> is exact.\<close>

lemma f64_round_int:
  fixes k d :: nat
  assumes d: "0 < d" and k: "k < 2 ^ 53"
  shows "f64_scaled (f64_round negative (k * d) d) = k * 2 ^ 1075 \<and> f64_negative (f64_round negative (k * d) d) = negative \<and>
    f64_is_finite (f64_round negative (k * d) d)"
proof -
  have "k * d < d * 2 ^ 100" using d k by (simp add: mult.commute)
  then obtain p where p: "p = max 1 (nat_bits (k * d * 2 ^ 1075 div d) - 53)"
    and r: "f64_scaled (f64_round negative (k * d) d) = round_div (k * d * 2 ^ 1075) (d * 2 ^ p) * 2 ^ p"
      "f64_negative (f64_round negative (k * d) d) = negative" "f64_is_finite (f64_round negative (k * d) d)"
    using f64_round_parts [OF d] by metis
  have c: "k * d * 2 ^ 1075 div d = k * 2 ^ 1075" using d by (metis mult.assoc mult.commute nonzero_mult_div_cancel_left not_gr_zero)
  have "p \<le> 1075"
  proof (cases "k = 0")
    case True
    then show ?thesis using p by (simp add: nat_bits.simps)
  next
    case False
    have "nat_bits k \<le> 53" using k by (rule nat_bits_le)
    then show ?thesis using p nat_bits_shift [of k 1075] False unfolding c by simp
  qed
  then have e: "(2 :: nat) ^ 1075 = 2 ^ (1075 - p) * 2 ^ p" unfolding power_add [symmetric] by simp
  then have "k * d * 2 ^ 1075 = k * 2 ^ (1075 - p) * (d * 2 ^ p)" by (simp only: mult.assoc mult.left_commute mult.commute)
  then have "round_div (k * d * 2 ^ 1075) (d * 2 ^ p) = k * 2 ^ (1075 - p)"
    using d by (simp only: round_div_exact nat_0_less_mult_iff zero_less_power zero_less_numeral)
  then show ?thesis using r e by (simp only: mult.assoc)
qed

subsection \<open>Numbers that denote integers\<close>

lemma denotes_round:
  assumes "0 < d" "\<bar>v\<bar> < 2 ^ 53" "m = nat \<bar>v\<bar> * d" "v \<noteq> 0 \<Longrightarrow> negative = (v < 0)"
  shows "denotes (f64_round negative m d) v"
proof -
  have "nat \<bar>v\<bar> < 2 ^ 53" using assms(2) by simp
  from f64_round_int [OF assms(1) this, of negative]
  show ?thesis using assms(3,4) by (cases "v = 0") (auto simp: denotes_def f64_units_def)
qed

lemma denotes_of_int: "\<bar>v\<bar> < 2 ^ 53 \<Longrightarrow> denotes (int_to_f64 v) v"
  by (simp add: int_to_f64_def denotes_round)

lemma denotes_scaled: "denotes x v \<Longrightarrow> f64_scaled x = nat \<bar>v\<bar> * 2 ^ 1075 \<and> (v \<noteq> 0 \<longrightarrow> f64_negative x = (v < 0))"
proof -
  assume "denotes x v"
  then have u: "f64_units x = v * 2 ^ 1075" by (simp only: denotes_def)
  have "int (f64_scaled x) = \<bar>v\<bar> * 2 ^ 1075 \<and> (v \<noteq> 0 \<longrightarrow> f64_negative x = (v < 0))"
  proof (cases "f64_negative x")
    case True
    then have "int (f64_scaled x) = - v * 2 ^ 1075" using u by (simp add: f64_units_def)
    moreover from this have "0 \<le> - v * 2 ^ 1075" by linarith
    then have "v \<le> 0" by (simp add: zero_le_mult_iff mult_le_0_iff)
    ultimately show ?thesis using True by simp
  next
    case False
    then have "int (f64_scaled x) = v * 2 ^ 1075" using u by (simp add: f64_units_def)
    moreover from this have "0 \<le> v * 2 ^ 1075" by linarith
    then have "0 \<le> v" by (simp add: zero_le_mult_iff)
    ultimately show ?thesis using False by simp
  qed
  moreover have "nat (\<bar>v\<bar> * 2 ^ 1075) = nat \<bar>v\<bar> * 2 ^ 1075" by (simp only: nat_mult_distrib abs_ge_zero nat_power_eq zero_le_numeral nat_numeral)
  ultimately show ?thesis by (metis nat_int)
qed

lemma scale_sign: "(v :: int) * 2 ^ n = 0 \<longleftrightarrow> v = 0" "v * 2 ^ n < 0 \<longleftrightarrow> v < 0"
  by (simp_all add: mult_less_0_iff)

lemma denotes_zero: "denotes (f64_zero negative) 0"
  by (simp add: denotes_def f64_zero_def f64_is_finite_def f64_units_def f64_scaled_def f64_significand_def f64_exponent_def f64_fraction_def)

lemma denotes_regular: "denotes x v \<Longrightarrow> \<not> f64_is_nan x \<and> \<not> f64_is_infinite x"
  using f64_special [of x] by (simp add: denotes_def)

lemma denotes_add: "denotes x a \<Longrightarrow> denotes y b \<Longrightarrow> \<bar>a + b\<bar> < 2 ^ 53 \<Longrightarrow> denotes (f64_add x y) (a + b)"
proof -
  assume a: "denotes x a" and b: "denotes y b" and small: "\<bar>a + b\<bar> < 2 ^ 53"
  have s: "f64_units x + f64_units y = (a + b) * 2 ^ 1075" using a b by (simp only: denotes_def distrib_right)
  have z: "(a + b) * 2 ^ 1075 = 0 \<longleftrightarrow> a + b = 0" "(a + b) * 2 ^ 1075 < 0 \<longleftrightarrow> a + b < 0" by (rule scale_sign)+
  have "nat \<bar>(a + b) * 2 ^ 1075\<bar> = nat \<bar>a + b\<bar> * 2 ^ 1075"
    by (simp only: abs_mult nat_mult_distrib abs_ge_zero power_abs abs_numeral nat_power_eq zero_le_numeral nat_numeral)
  then have r: "denotes (f64_round ((a + b) * 2 ^ 1075 < 0) (nat \<bar>(a + b) * 2 ^ 1075\<bar>) (2 ^ 1075)) (a + b)"
    using small z by (intro denotes_round) (simp_all only: zero_less_power zero_less_numeral)
  show ?thesis unfolding f64_add_def s Let_def
    using r denotes_zero denotes_regular [OF a] denotes_regular [OF b] by (simp only: z(1) if_False) (auto simp only: if_True if_False split: if_split)
qed

text \<open>A sum of \<open>2 ^ 53\<close> or more is rounded, but not below that.\<close>

lemma f64_add_large:
  assumes a: "denotes x a" and b: "denotes y b" and large: "2 ^ 53 \<le> \<bar>a + b\<bar>" "\<bar>a + b\<bar> < 2 ^ 100"
  shows "f64_is_finite (f64_add x y) \<and> 2 ^ 53 * 2 ^ 1075 \<le> f64_scaled (f64_add x y)"
proof -
  define B :: nat where "B = 2 ^ 1075"
  define k where "k = nat \<bar>a + b\<bar>"
  have B: "0 < B" "2 ^ 1075 = B" by (simp_all only: B_def zero_less_power zero_less_numeral)
  have k: "2 ^ 53 \<le> k" "k < 2 ^ 100" using large by (simp_all add: k_def)
  have s: "f64_units x + f64_units y = (a + b) * 2 ^ 1075" using a b by (simp only: denotes_def distrib_right)
  have z: "(a + b) * 2 ^ 1075 \<noteq> 0" using large(1) scale_sign(1) [of "a + b" 1075] by simp
  have n: "nat \<bar>(a + b) * 2 ^ 1075\<bar> = k * B" unfolding B_def k_def
    by (simp only: abs_mult nat_mult_distrib abs_ge_zero power_abs abs_numeral nat_power_eq zero_le_numeral nat_numeral)
  have r: "f64_add x y = f64_round ((a + b) * 2 ^ 1075 < 0) (k * B) B"
    using denotes_regular [OF a] denotes_regular [OF b] z unfolding f64_add_def s Let_def n B(2) [symmetric] by (simp only: if_False simp_thms)
  have "k * B < B * 2 ^ 100" using k(2) B(1) by (simp add: mult.commute)
  from f64_round_parts [OF B(1) this, of "(a + b) * 2 ^ 1075 < 0", folded r]
  obtain p where p: "p = max 1 (nat_bits (k * B * 2 ^ 1075 div B) - 53)" "f64_scaled (f64_add x y) = round_div (k * B * 2 ^ 1075) (B * 2 ^ p) * 2 ^ p"
    "f64_is_finite (f64_add x y)" "p = 1 \<or> 2 ^ 52 \<le> round_div (k * B * 2 ^ 1075) (B * 2 ^ p)" by metis
  have "k * B * 2 ^ 1075 div B = k * 2 ^ 1075" using B(1) by (metis mult.assoc mult.commute nonzero_mult_div_cancel_left not_gr_zero)
  moreover have "54 \<le> nat_bits k"
  proof (rule ccontr)
    assume "\<not> 54 \<le> nat_bits k"
    then have "(2 :: nat) ^ nat_bits k \<le> 2 ^ 53" by (intro power_increasing) simp_all
    then show False using nat_bits_bounds [of k] k(1) by linarith
  qed
  ultimately have p1: "1076 \<le> p" using p(1) nat_bits_shift [of k 1075] k(1) by simp
  then have "2 ^ 52 \<le> round_div (k * B * 2 ^ 1075) (B * 2 ^ p)" using p(4) by simp
  moreover have "(2 :: nat) ^ 1076 \<le> 2 ^ p" using p1 by (intro power_increasing) simp_all
  ultimately have "2 ^ 52 * 2 ^ 1076 \<le> f64_scaled (f64_add x y)" unfolding p(2) by (rule mult_le_mono)
  moreover have "(2 :: nat) ^ 52 * 2 ^ 1076 = 2 ^ 53 * 2 ^ 1075" unfolding power_add [symmetric] by (simp only: numeral_plus_numeral add_num_simps)
  ultimately show ?thesis using p(3) by (simp only: simp_thms)
qed

lemma denotes_neg: "denotes x a \<Longrightarrow> denotes (f64_neg x) (- a)"
proof -
  assume a: "denotes x a"
  have m: "(0x8000000000000000 :: u64) = push_bit 63 1" "(0xfffffffffffff :: u64) = mask 52" "(0x7ff :: u64) = mask 11"
    by (simp_all add: mask_eq_exp_minus_1)
  have e: "f64_exponent (f64_neg x) = f64_exponent x" "f64_fraction (f64_neg x) = f64_fraction x" "f64_negative (f64_neg x) \<longleftrightarrow> \<not> f64_negative x"
  proof -
    have "drop_bit 52 (x XOR push_bit 63 1) AND mask 11 = drop_bit 52 x AND mask 11"
      by (rule bit_word_eqI) (auto simp only: bit_and_iff bit_drop_bit_eq bit_xor_iff bit_push_bit_iff bit_1_iff bit_mask_iff comp_def)
    then show "f64_exponent (f64_neg x) = f64_exponent x" unfolding f64_exponent_def f64_neg_def m by simp
    have "(x XOR push_bit 63 1) AND mask 52 = x AND mask 52"
      by (rule bit_word_eqI) (auto simp only: bit_and_iff bit_xor_iff bit_push_bit_iff bit_1_iff bit_mask_iff)
    then show "f64_fraction (f64_neg x) = f64_fraction x" unfolding f64_fraction_def f64_neg_def m by simp
    show "f64_negative (f64_neg x) \<longleftrightarrow> \<not> f64_negative x" unfolding f64_negative_def f64_neg_def m(1) by (simp only: bit_xor_iff bit_push_bit_iff bit_1_iff) simp
  qed
  have "f64_scaled (f64_neg x) = f64_scaled x" by (simp only: f64_scaled_def f64_significand_def f64_power_def e)
  then have "f64_units (f64_neg x) = - f64_units x" by (simp add: f64_units_def e)
  then show ?thesis using a by (simp add: denotes_def f64_is_finite_def e)
qed

lemma denotes_sub: "denotes x a \<Longrightarrow> denotes y b \<Longrightarrow> \<bar>a - b\<bar> < 2 ^ 53 \<Longrightarrow> denotes (f64_sub x y) (a - b)"
  using denotes_add [OF _ denotes_neg] by (simp add: f64_sub_def)

lemma denotes_mul: "denotes x a \<Longrightarrow> denotes y b \<Longrightarrow> \<bar>a * b\<bar> < 2 ^ 53 \<Longrightarrow> denotes (f64_mul x y) (a * b)"
proof -
  assume a: "denotes x a" and b: "denotes y b" and small: "\<bar>a * b\<bar> < 2 ^ 53"
  note x = denotes_scaled [OF a] and y = denotes_scaled [OF b]
  have "f64_scaled x * f64_scaled y = nat \<bar>a\<bar> * nat \<bar>b\<bar> * (2 ^ 1075 * 2 ^ 1075)" using x y by (simp only: mult.assoc mult.left_commute mult.commute)
  also have "\<dots> = nat \<bar>a * b\<bar> * 2 ^ 2150"
    by (simp only: power_add [symmetric] abs_mult nat_mult_distrib abs_ge_zero) (simp only: numeral_plus_numeral add_num_simps)
  finally have m: "f64_scaled x * f64_scaled y = nat \<bar>a * b\<bar> * 2 ^ 2150" .
  have "denotes (f64_round (f64_negative x \<noteq> f64_negative y) (f64_scaled x * f64_scaled y) (2 ^ 2150)) (a * b)"
  proof (rule denotes_round [OF _ small m])
    show "(f64_negative x \<noteq> f64_negative y) = (a * b < 0)" if "a * b \<noteq> 0" using that x y by (auto simp: mult_less_0_iff)
  qed simp
  then show ?thesis using denotes_regular [OF a] denotes_regular [OF b] by (simp only: f64_mul_def Let_def if_False simp_thms)
qed

lemma denotes_trunc: "denotes x a \<Longrightarrow> f64_trunc x = x"
proof -
  assume a: "denotes x a"
  have "2 ^ 1075 dvd f64_scaled x" using denotes_scaled [OF a] by (simp only: dvd_triv_right)
  then show ?thesis using trunc_scaled [of x] by blast
qed

lemma denotes_int: "denotes x a \<Longrightarrow> f64_int x = a"
proof -
  assume a: "denotes x a"
  have "f64_magnitude x = nat \<bar>a\<bar>" unfolding f64_magnitude_scaled using denotes_scaled [OF a] by (simp only: nonzero_mult_div_cancel_right power_eq_0_iff) simp
  then show ?thesis using denotes_scaled [OF a] by (cases "a = 0") (auto simp: f64_int_def)
qed

lemma denotes_to_i64: "denotes x a \<Longrightarrow> f64_to_i64 x = max (- (2 ^ 63)) (min (2 ^ 63 - 1) a)"
  using denotes_regular [of x a] denotes_int [of x a] by (simp add: f64_to_i64_def)

lemma denotes_le: "denotes x a \<Longrightarrow> denotes y b \<Longrightarrow> f64_le x y \<longleftrightarrow> a \<le> b" "denotes x a \<Longrightarrow> denotes y b \<Longrightarrow> f64_lt x y \<longleftrightarrow> a < b"
proof -
  assume a: "denotes x a" and b: "denotes y b"
  have "a * B \<le> b * B \<longleftrightarrow> a \<le> b" "a * B < b * B \<longleftrightarrow> a < b" if "0 < B" for B :: int using that by simp_all
  moreover have "(0 :: int) < 2 ^ 1075" by (rule zero_less_power) simp
  ultimately show "f64_le x y \<longleftrightarrow> a \<le> b" "f64_lt x y \<longleftrightarrow> a < b"
    using a b denotes_regular [OF a] denotes_regular [OF b] unfolding f64_le_def f64_lt_def denotes_def by simp_all
qed

lemma f64_abs_units: "f64_units (f64_abs x) = int (f64_scaled x)" "f64_is_finite (f64_abs x) = f64_is_finite x"
proof -
  have m: "(0x7fffffffffffffff :: u64) = mask 63" "(0xfffffffffffff :: u64) = mask 52" "(0x7ff :: u64) = mask 11"
    by (simp_all add: mask_eq_exp_minus_1)
  have "drop_bit 52 (x AND mask 63) AND mask 11 = drop_bit 52 x AND mask 11"
    by (rule bit_word_eqI) (auto simp: bit_simps)
  then have e: "f64_exponent (f64_abs x) = f64_exponent x" unfolding f64_exponent_def f64_abs_def m by simp
  have "(x AND mask 63) AND mask 52 = x AND mask 52" by (rule bit_word_eqI) (auto simp only: bit_and_iff bit_mask_iff)
  then have f: "f64_fraction (f64_abs x) = f64_fraction x" unfolding f64_fraction_def f64_abs_def m by simp
  have n: "\<not> f64_negative (f64_abs x)" unfolding f64_negative_def f64_abs_def m(1) by (simp only: bit_and_iff bit_mask_iff) simp
  show "f64_units (f64_abs x) = int (f64_scaled x)" using n by (simp only: f64_units_def f64_scaled_def f64_significand_def f64_power_def e f if_False)
  show "f64_is_finite (f64_abs x) = f64_is_finite x" by (simp add: f64_is_finite_def e)
qed

lemma denotes_abs: "denotes x a \<Longrightarrow> denotes (f64_abs x) \<bar>a\<bar>"
  using denotes_scaled [of x a] by (simp add: denotes_def f64_abs_units)

subsection \<open>The floor\<close>

lemma f64_floor_denotes:
  assumes fin: "f64_is_finite x"
  shows "denotes (f64_floor x) (f64_units x div 2 ^ 1075)"
proof -
  define B :: nat where "B = 2 ^ 1075"
  define A where "A = f64_scaled x"
  have B: "0 < B" by (simp only: B_def zero_less_power zero_less_numeral)
  have iB: "(2 :: int) ^ 1075 = int B" by (simp only: B_def of_nat_power of_nat_numeral)
  have t: "f64_scaled (f64_trunc x) = A div B * B" "f64_negative (f64_trunc x) = f64_negative x" "f64_trunc x = x \<longleftrightarrow> B dvd A"
    using trunc_scaled [of x] unfolding A_def B_def by blast+
  have u: "f64_units x = (if f64_negative x then - int A else int A)" by (simp add: f64_units_def A_def)
  have d: "denotes (f64_trunc x) (if f64_negative x then - int (A div B) else int (A div B))"
    using f64_trunc_int(2) [OF fin] unfolding denotes_def f64_units_def iB t by simp
  show ?thesis
  proof (cases "f64_trunc x = x \<or> \<not> f64_negative x")
    case True
    then have "f64_units x div 2 ^ 1075 = (if f64_negative x then - int (A div B) else int (A div B))"
      unfolding u iB using t(3) B by (auto simp: zdiv_int dvd_neg_div)
    then show ?thesis using True d by (simp add: f64_floor_def)
  next
    case False
    then have nd: "\<not> B dvd A" and neg: "f64_negative x" using t(3) by auto
    have e: "f64_exponent x < 1075" using False by (auto simp: f64_trunc_def split: if_splits)
    have "f64_significand x < 2 ^ 53" using f64_fields(3) [of x] by (simp add: f64_significand_def)
    moreover have "(2 :: nat) ^ f64_power x \<le> 2 ^ 1074" using e by (intro power_increasing) (auto simp: f64_power_def)
    ultimately have "A < 2 ^ 53 * 2 ^ 1074" unfolding A_def f64_scaled_def by (intro mult_less_le_imp_less) auto
    also have "(2 :: nat) ^ 53 * 2 ^ 1074 = 2 ^ 52 * B" unfolding B_def power_add [symmetric] by (simp only: numeral_plus_numeral add_num_simps)
    finally have q: "A div B < 2 ^ 52" by (simp add: less_mult_imp_div_less)
    have "denotes (f64_trunc x) (- int (A div B))" using d neg by simp
    then have "denotes (f64_sub (f64_trunc x) (int_to_f64 1)) (- int (A div B) - 1)"
      using q by (intro denotes_sub denotes_of_int) (simp_all add: abs_if)
    moreover have "f64_units x div 2 ^ 1075 = - int (A div B) - 1"
    proof -
      have "\<not> int B dvd int A" using nd by simp
      then have "- int A div int B = - (int A div int B) - 1" using B by (simp add: zdiv_zminus1_eq_if dvd_eq_mod_eq_0)
      then show ?thesis unfolding u iB using neg by (simp add: zdiv_int)
    qed
    ultimately show ?thesis using False by (simp add: f64_floor_def)
  qed
qed

text \<open>The quotient by a small constant is rounded, by less than its distance to an integer.\<close>

lemma floor_of_near:
  fixes m r B c :: int
  assumes "0 < B" "0 < c" "\<not> c dvd m" "\<bar>c * r - m * B\<bar> < B"
  shows "r div B = m div c"
proof -
  have m: "m = c * (m div c) + m mod c" by simp
  have "0 \<le> m mod c" "m mod c < c" "m mod c \<noteq> 0" using assms(2,3) by (simp_all add: dvd_eq_mod_eq_0)
  then have j: "1 \<le> m mod c" "m mod c \<le> c - 1" by linarith+
  have mB: "m * B = c * (m div c * B) + m mod c * B" by (subst m) (simp only: distrib_right mult.assoc)
  have "1 * B \<le> m mod c * B" "m mod c * B \<le> (c - 1) * B" using j assms(1) by (intro mult_right_mono; simp)+
  then have "B \<le> m mod c * B" "m mod c * B \<le> c * B - B" by (simp_all only: left_diff_distrib mult_1)
  then have "c * (m div c * B) < c * r" "c * r < c * (m div c * B) + c * B" using assms(4) unfolding mB by linarith+
  then have "c * (m div c * B) < c * r" "c * r < c * ((m div c + 1) * B)" by (simp_all add: algebra_simps)
  then have "m div c * B < r" "r < (m div c + 1) * B" using assms(2) by (simp_all only: mult_less_cancel_left_pos)
  then show ?thesis by (intro int_div_pos_eq [where r = "r - m div c * B"]) (simp_all add: algebra_simps)
qed

lemma denotes_floor_div:
  assumes x: "denotes x m" and y: "denotes y c" and c: "0 < c" "c < 16" and m: "\<bar>m\<bar> < 2 ^ 50"
  shows "denotes (f64_floor (f64_div x y)) (m div c)"
proof -
  define B :: nat where "B = 2 ^ 1075"
  have B: "0 < B" "B = 8 * 2 ^ 1072" "2 ^ 1075 = B" and iB: "(2 :: int) ^ 1075 = int B"
    by (simp_all only: B_def zero_less_power zero_less_numeral of_nat_power of_nat_numeral) (simp flip: power_add)
  define k where "k = nat \<bar>m\<bar>"
  define n where "n = nat c"
  have n: "0 < n" "n < 16" "int n = c" using c by (simp_all add: n_def)
  have sx: "f64_scaled x = k * B" "m \<noteq> 0 \<longrightarrow> f64_negative x = (m < 0)" using denotes_scaled [OF x] unfolding B k_def by blast+
  have sy: "f64_scaled y = n * B" "\<not> f64_negative y" using denotes_scaled [OF y] c unfolding B n_def by auto
  define r where "r = f64_round (f64_negative x) (k * B) (n * B)"
  have nB: "0 < n * B" using n B by simp
  have dv: "f64_div x y = r"
    using denotes_regular [OF x] denotes_regular [OF y] sy nB unfolding f64_div_def r_def sx sy Let_def by simp
  have k: "k < 2 ^ 50" using m by (simp add: k_def)
  have "f64_is_finite r \<and> f64_units r div int B = m div c"
  proof (cases "c dvd m")
    case True
    then obtain z where z: "m = c * z" by (elim dvdE)
    have "k = nat \<bar>z\<bar> * n" using c unfolding k_def n_def z by (simp add: abs_mult nat_mult_distrib mult.commute)
    moreover have "\<bar>z\<bar> \<le> \<bar>m\<bar>" using c unfolding z abs_mult by (simp add: mult_le_cancel_right1)
    ultimately have "denotes r z" unfolding r_def using m c sx(2)
      by (intro denotes_round [OF nB]) (auto simp: z mult_less_0_iff)
    then have "f64_is_finite r" "f64_units r = z * int B" unfolding denotes_def iB by blast+
    then show ?thesis using z c B(1) by simp
  next
    case False
    then have m0: "m \<noteq> 0" by auto
    have "k * B < n * B * 2 ^ 100"
    proof -
      have "k < n * 2 ^ 100" using k n(1) by (simp add: less_le_trans [of k "2 ^ 50"])
      then have "k * B < n * 2 ^ 100 * B" using B(1) by simp
      then show ?thesis by (simp only: mult.assoc mult.commute mult.left_commute)
    qed
    from f64_round_parts [OF nB this, of "f64_negative x"]
    obtain p where p: "p = max 1 (nat_bits (k * B * 2 ^ 1075 div (n * B)) - 53)"
      and s: "f64_scaled r = round_div (k * B * 2 ^ 1075) (n * B * 2 ^ p) * 2 ^ p" "f64_negative r = f64_negative x" "f64_is_finite r"
      unfolding r_def by metis
    have "2 ^ p * 8 \<le> B"
    proof -
      have "k * B * 2 ^ 1075 div (n * B) \<le> k * B" using n(1) B(1) unfolding B(3) by (intro div_le_mono2 [of B "n * B" "k * B * B", THEN le_trans]) simp_all
      also have "\<dots> < 2 ^ 50 * B" using k B(1) by simp
      also have "\<dots> = 2 ^ 1125" unfolding B_def power_add [symmetric] by (simp only: numeral_plus_numeral add_num_simps)
      finally have "nat_bits (k * B * 2 ^ 1075 div (n * B)) \<le> 1125" by (rule nat_bits_le)
      then have "p \<le> 1072" using p by simp
      then have "(2 :: nat) ^ p \<le> 2 ^ 1072" by (intro power_increasing) simp_all
      then show ?thesis unfolding B(2) by simp
    qed
    define R where "R = round_div (k * B * B) (n * B * 2 ^ p)"
    have S: "f64_scaled r = R * 2 ^ p" using s(1) unfolding R_def B(3) .
    have "\<bar>2 * int R * int (n * B * 2 ^ p) - 2 * int (k * B * B)\<bar> \<le> int (n * B * 2 ^ p)"
      unfolding R_def using nB by (intro round_div_error) simp
    moreover have "2 * int R * int (n * B * 2 ^ p) - 2 * int (k * B * B) = int B * (2 * (c * int (f64_scaled r)) - 2 * (int k * int B))"
      unfolding S n(3) [symmetric] by (simp add: algebra_simps)
    moreover have "int (n * B * 2 ^ p) = int B * (c * 2 ^ p)" unfolding n(3) [symmetric] by simp
    ultimately have "\<bar>2 * (c * int (f64_scaled r)) - 2 * (int k * int B)\<bar> \<le> c * 2 ^ p"
      using B(1) by (simp only: abs_mult abs_of_nat) (simp add: mult_le_cancel_left_pos)
    moreover have "c * 2 ^ p < 2 * int B"
    proof -
      have "2 ^ p * 8 \<le> int B" using \<open>2 ^ p * 8 \<le> B\<close> by (metis of_nat_le_iff of_nat_mult of_nat_numeral of_nat_power)
      moreover have "c * 2 ^ p \<le> 15 * 2 ^ p" using c by (intro mult_right_mono) simp_all
      ultimately show ?thesis using B(1) by linarith
    qed
    ultimately have near: "\<bar>c * int (f64_scaled r) - int k * int B\<bar> < int B" by linarith
    have "\<bar>c * f64_units r - m * int B\<bar> < int B"
      using near sx(2) m0 s(2) by (cases "m < 0") (simp_all add: f64_units_def k_def abs_if split: if_splits)
    then show ?thesis using floor_of_near [OF _ c(1) False, of "int B" "f64_units r"] B(1) s(3) by simp
  qed
  then show ?thesis using f64_floor_denotes [of r] unfolding dv iB by simp
qed

end
