(* ===== verification/Date_Properties.thy ===== *)
theory Date_Properties
  imports Date_Access F64_Exact
begin

text \<open>
  Timestamps of dates are integers, and the floating point arithmetic of \<open>date.rs\<close> on them is exact. The fields, \<open>Date.UTC\<close> and
  the setters are stated on integers here.
\<close>

subsection \<open>Arithmetic\<close>

definition is_time :: "u64 option \<Rightarrow> int \<Rightarrow> bool" where
  "is_time r v \<longleftrightarrow> (\<exists>x. r = Some x \<and> (if \<bar>v\<bar> \<le> 8640000000000000 then denotes x v else f64_is_nan x))"

lemma f64_nan_is_nan: "f64_is_nan f64_nan"
  by (simp add: f64_is_nan_def f64_nan_def)

lemma denotes_finite [simp]: "denotes x v \<Longrightarrow> f64_is_finite x"
  by (simp add: denotes_def)

lemma zero_denotes: "f64_is_zero v \<Longrightarrow> denotes v 0"
  using denotes_zero [of True] denotes_zero [of False] by (auto simp: f64_is_zero_def f64_zero_def)

lemma denotes_functional: "denotes x a \<Longrightarrow> denotes x b \<Longrightarrow> a = b"
  using denotes_int by metis

lemma time_clip_exact:
  assumes "denotes v a"
  shows "is_time (Some (time_clip v)) a"
proof -
  have le: "f64_le (f64_abs v) (int_to_f64 8640000000000000) \<longleftrightarrow> \<bar>a\<bar> \<le> 8640000000000000"
    "f64_lt (f64_abs v) (int_to_f64 1) \<longleftrightarrow> \<bar>a\<bar> < 1"
    by (rule denotes_le [OF denotes_abs [OF assms] denotes_of_int]; simp)+
  have z: "f64_is_zero v \<Longrightarrow> a = 0" using zero_denotes denotes_functional assms by blast
  show ?thesis
  proof (cases "\<bar>a\<bar> \<le> 8640000000000000")
    case True
    have "denotes (int_to_f64 0) 0" by (rule denotes_of_int) simp
    then show ?thesis using True le z assms denotes_trunc [OF assms] by (auto simp: is_time_def time_clip_def)
  next
    case False
    then show ?thesis using le by (simp add: is_time_def time_clip_def f64_nan_is_nan)
  qed
qed

lemma time_clip_sum:
  assumes a: "denotes x a" and b: "denotes y b" and small: "\<bar>a + b\<bar> < 2 ^ 100"
  shows "is_time (Some (time_clip (f64_add x y))) (a + b)"
proof (cases "\<bar>a + b\<bar> < 2 ^ 53")
  case True
  then show ?thesis using denotes_add [OF a b] time_clip_exact by blast
next
  case False
  define B :: nat where "B = 2 ^ 1075"
  have fin: "f64_is_finite (f64_add x y)" and large: "2 ^ 53 * B \<le> f64_scaled (f64_add x y)"
    using f64_add_large [OF a b _ small] False unfolding B_def by linarith+
  have lim: "denotes (int_to_f64 8640000000000000) 8640000000000000" by (rule denotes_of_int) simp
  have u: "f64_units (int_to_f64 8640000000000000) = 8640000000000000 * int B" using lim by (simp only: denotes_def B_def of_nat_power of_nat_numeral)
  have B: "0 < B" by (simp only: B_def zero_less_power zero_less_numeral)
  have "f64_units (f64_abs (f64_add x y)) = int (f64_scaled (f64_add x y))" by (rule f64_abs_units)
  moreover have "8640000000000000 * int B < int (f64_scaled (f64_add x y))"
  proof -
    have "8640000000000000 * B < 2 ^ 53 * B" using B by simp
    then have "8640000000000000 * B < f64_scaled (f64_add x y)" using large by linarith
    then show ?thesis by (metis of_nat_less_iff of_nat_mult of_nat_numeral)
  qed
  ultimately have "\<not> f64_le (f64_abs (f64_add x y)) (int_to_f64 8640000000000000)" unfolding f64_le_def u by simp
  then show ?thesis using False by (simp add: is_time_def time_clip_def f64_nan_is_nan)
qed

lemma time_sum_exact:
  assumes "denotes h H" "denotes m M" "denotes s S" "denotes ms MS" "\<bar>H\<bar> \<le> 10 ^ 9" "\<bar>M\<bar> \<le> 10 ^ 9" "\<bar>S\<bar> \<le> 10 ^ 9" "\<bar>MS\<bar> \<le> 10 ^ 15"
  shows "denotes (time_sum h m s ms) (H * 3600000 + M * 60000 + S * 1000 + MS)"
proof -
  have c: "denotes (int_to_f64 3600000) 3600000" "denotes (int_to_f64 60000) 60000" "denotes (int_to_f64 1000) 1000"
    by (rule denotes_of_int; simp)+
  show ?thesis unfolding time_sum_def
    using assms by (intro denotes_add denotes_mul c) (simp_all add: abs_mult)
qed

lemma make_date_exact:
  assumes "denotes day D" "denotes time T" "\<bar>D\<bar> \<le> 104000000" "\<bar>T\<bar> \<le> 10 ^ 16"
  shows "is_time (Some (time_clip (make_date day time))) (D * 86400000 + T)"
proof -
  have "denotes (int_to_f64 86400000) 86400000" by (rule denotes_of_int) simp
  then have "denotes (f64_mul day (int_to_f64 86400000)) (D * 86400000)" using assms by (intro denotes_mul) (simp_all add: abs_mult)
  then show ?thesis unfolding make_date_def using assms by (intro time_clip_sum) simp_all
qed

subsection \<open>Days and fields\<close>

lemma denotes_i64: "denotes x a \<Longrightarrow> \<bar>a\<bar> < 2 ^ 63 \<Longrightarrow> f64_to_i64 x = a"
  using denotes_to_i64 [of x a] by (simp add: abs_less_iff)

lemma denotes_floor: "denotes x a \<Longrightarrow> f64_floor x = x"
  by (simp add: f64_floor_def denotes_trunc)

lemma denotes_to_uint:
  assumes "denotes x k" "0 \<le> k" "k < 2 ^ w"
  shows "int (f64_to_uint w x) = k"
proof -
  have "f64_int x = k" by (rule denotes_int [OF assms(1)])
  then have m: "f64_negative x \<Longrightarrow> k = 0" "\<not> f64_negative x \<Longrightarrow> int (f64_magnitude x) = k"
    using assms(2) by (auto simp: f64_int_def split: if_splits)
  have "min (nat k) (2 ^ w - 1) = nat k"
  proof -
    have "nat k < 2 ^ w" using assms(2,3) by (simp add: nat_less_iff)
    then have "nat k \<le> 2 ^ w - 1" by linarith
    then show ?thesis by (rule min_absorb1)
  qed
  then show ?thesis using denotes_regular [OF assms(1)] m assms(2) by (cases "f64_negative x") (auto simp: f64_to_uint_def)
qed

lemma march_days_small: "\<bar>Y\<bar> \<le> 1000001 \<Longrightarrow> \<bar>march_days Y\<bar> \<le> 366000000"
proof -
  assume "\<bar>Y\<bar> \<le> 1000001"
  define e r where "e = Y div 400" and "r = Y mod 400"
  have Y: "Y = 400 * e + r" "0 \<le> r" "r < 400" by (simp_all add: e_def r_def)
  then have e: "\<bar>e\<bar> \<le> 2501" using \<open>\<bar>Y\<bar> \<le> 1000001\<close> by linarith
  have "0 \<le> march_days r" "march_days r \<le> 146097"
    using march_days_mono [of 0 r] march_days_mono [of r 400] Y(2,3) by (simp_all add: march_days_def)
  then show ?thesis unfolding Y(1) march_days_era using e by simp
qed

lemma day_number_small:
  assumes "\<bar>y\<bar> \<le> 1000000" "1 \<le> m" "m \<le> 12"
  shows "\<bar>day_number y m 1\<bar> \<le> 370000000"
proof -
  have "\<bar>march_days (if m \<le> 2 then y - 1 else y)\<bar> \<le> 366000000" using assms(1) by (intro march_days_small) auto
  moreover have "0 \<le> (153 * k + 2) div 5 \<and> (153 * k + 2) div 5 \<le> 340" if "0 \<le> k" "k \<le> 11" for k :: int using that by linarith
  from this [of "if m > 2 then m - 3 else m + 9"] have "0 \<le> (153 * (if m > 2 then m - 3 else m + 9) + 2) div 5"
    "(153 * (if m > 2 then m - 3 else m + 9) + 2) div 5 \<le> 340" using assms(2,3) by (simp_all split: if_splits)
  ultimately show ?thesis unfolding day_number_def by linarith
qed

text \<open>\<open>MakeDay\<close> folds the month into the year and adds the days; a year far outside the range is invalid.\<close>

definition make_day_number :: "int \<Rightarrow> int \<Rightarrow> int \<Rightarrow> int" where
  "make_day_number y m d = day_number (y + m div 12) (m mod 12 + 1) 1 + d - 1"

lemma make_day_exact:
  assumes y: "denotes yr y" and m: "denotes mo m" and d: "denotes dt d" and small: "\<bar>y\<bar> \<le> 2 ^ 50" "\<bar>m\<bar> < 2 ^ 50" "\<bar>d\<bar> \<le> 2 ^ 50"
  shows "\<exists>r. make_day yr mo dt = Some r \<and>
    (if \<bar>y + m div 12\<bar> \<le> 1000000 then denotes r (make_day_number y m d) else r = f64_nan)"
proof -
  have q: "\<bar>m div 12\<bar> \<le> 2 ^ 50" using small(2) by simp
  have c: "denotes (int_to_f64 12) 12" by (rule denotes_of_int) simp
  have o: "denotes (f64_floor (f64_div mo (int_to_f64 12))) (m div 12)" by (rule denotes_floor_div [OF m c]) (use small in simp_all)
  define ny nm where "ny = f64_add yr (f64_floor (f64_div mo (int_to_f64 12)))"
    and "nm = f64_sub mo (f64_mul (f64_floor (f64_div mo (int_to_f64 12))) (int_to_f64 12))"
  have ny: "denotes ny (y + m div 12)" unfolding ny_def using small q by (intro denotes_add y o) simp
  have "m - m div 12 * 12 = m mod 12" by (simp add: minus_div_mult_eq_mod)
  moreover have "\<bar>m div 12 * 12\<bar> < 2 ^ 53" using small(2) by simp
  moreover have "0 \<le> m mod 12" "m mod 12 < 12" by simp_all
  ultimately have nm: "denotes nm (m mod 12)"
    unfolding nm_def using denotes_sub [OF m denotes_mul [OF o c]] by simp
  have le: "f64_le (int_to_f64 (-1000000)) ny \<longleftrightarrow> - 1000000 \<le> y + m div 12" "f64_le ny (int_to_f64 1000000) \<longleftrightarrow> y + m div 12 \<le> 1000000"
    "f64_le (int_to_f64 0) nm" "f64_lt nm (int_to_f64 12)"
    using denotes_le [OF denotes_of_int ny] denotes_le [OF ny denotes_of_int] denotes_le [OF denotes_of_int nm] denotes_le [OF nm denotes_of_int]
    by simp_all
  have t: "f64_trunc yr = yr" "f64_trunc mo = mo" "f64_trunc dt = dt" using denotes_trunc y m d by blast+
  have fin: "f64_is_finite yr" "f64_is_finite mo" "f64_is_finite dt" using y m d by simp_all
  show ?thesis
  proof (cases "\<bar>y + m div 12\<bar> \<le> 1000000")
    case False
    then have "make_day yr mo dt = Some f64_nan" unfolding make_day_def t Let_def ny_def [symmetric] nm_def [symmetric] using fin le by auto
    then show ?thesis using False by simp
  next
    case True
    have ci: "f64_to_i64 ny = y + m div 12" "int (f64_to_uint 32 nm) = m mod 12"
    proof -
      show "f64_to_i64 ny = y + m div 12" using True by (intro denotes_i64 [OF ny]) simp
      have "m mod 12 < 2 ^ 32" by (rule less_trans [of _ 12]) simp_all
      then show "int (f64_to_uint 32 nm) = m mod 12" by (intro denotes_to_uint [OF nm]) simp_all
    qed
    have dn: "days_from_civil (y + m div 12) (m mod 12 + 1) 1 = Some (day_number (y + m div 12) (m mod 12 + 1) 1)"
      using True by (intro days_from_civil_number) simp_all
    let ?n = "day_number (y + m div 12) (m mod 12 + 1) 1"
    have n: "\<bar>?n\<bar> \<le> 370000000" using True by (intro day_number_small) simp_all
    have "denotes (f64_sub (f64_add (int_to_f64 ?n) dt) (int_to_f64 1)) (?n + d - 1)"
      using n small(3) by (intro denotes_sub denotes_add denotes_of_int d) simp_all
    moreover have "make_day yr mo dt = Some (f64_sub (f64_add (int_to_f64 ?n) dt) (int_to_f64 1))"
      unfolding make_day_def t Let_def ny_def [symmetric] nm_def [symmetric] ci using fin le True dn by auto
    ultimately show ?thesis using True by (simp add: make_day_number_def)
  qed
qed

text \<open>The fields of an instant: a date of the calendar, a time of day, and together the instant.\<close>

definition civil_of :: "int \<Rightarrow> civil_date_time \<Rightarrow> bool" where
  "civil_of n c \<longleftrightarrow> valid_date (cd_year c, cd_month c, cd_day c) \<and> \<bar>cd_year c\<bar> \<le> 2 ^ 40 \<and>
     0 \<le> cd_hours c \<and> cd_hours c < 24 \<and> 0 \<le> cd_minutes c \<and> cd_minutes c < 60 \<and> 0 \<le> cd_seconds c \<and> cd_seconds c < 60 \<and>
     0 \<le> cd_milliseconds c \<and> cd_milliseconds c < 1000 \<and>
     day_number (cd_year c) (cd_month c) (cd_day c) = n div 86400000 \<and>
     cd_hours c * 3600000 + cd_minutes c * 60000 + cd_seconds c * 1000 + cd_milliseconds c = n mod 86400000 \<and>
     cd_weekday c = (n div 86400000 + 4) mod 7"

lemma time_of_day:
  fixes k :: int
  assumes "0 \<le> k" "k < 86400000"
  shows "k div 3600000 * 3600000 + (k div 60000) mod 60 * 60000 + (k div 1000) mod 60 * 1000 + k mod 1000 = k"
    "0 \<le> k div 3600000" "k div 3600000 < 24"
proof -
  have d: "k div 60000 = k div 1000 div 60" "k div 3600000 = k div 1000 div 60 div 60" by (simp_all flip: zdiv_zmult2_eq)
  have "k = k div 1000 * 1000 + k mod 1000" "k div 1000 = k div 1000 div 60 * 60 + k div 1000 mod 60"
    "k div 1000 div 60 = k div 1000 div 60 div 60 * 60 + k div 1000 div 60 mod 60" by (simp_all only: div_mult_mod_eq)
  then show "k div 3600000 * 3600000 + (k div 60000) mod 60 * 60000 + (k div 1000) mod 60 * 1000 + k mod 1000 = k"
    unfolding d by (smt (verit) distrib_right mult.assoc)
  show "0 \<le> k div 3600000" "k div 3600000 < 24" using assms by simp_all
qed

lemma civil_from_timestamp_floor:
  assumes fin: "f64_is_finite t" and n: "denotes (f64_floor t) n" "\<bar>n\<bar> < 2 ^ 63"
  obtains c where "civil_from_timestamp t = Some (Some c)" "civil_of n c"
proof -
  have f: "f64_to_i64 (f64_floor t) = n" using n by (rule denotes_i64)
  define k where "k = n mod 86400000"
  have k: "0 \<le> k" "k < 86400000" by (simp_all add: k_def)
  have "\<bar>n div 86400000\<bar> \<le> 2 ^ 46" using n(2) by simp
  then obtain y m d where c: "civil_from_days (n div 86400000) = Some (y, m, d)" "valid_date (y, m, d)" "day_number y m d = n div 86400000" "\<bar>y\<bar> \<le> 2 ^ 40"
    by (rule calendar_day)
  have w: "((n div 86400000) mod 7 + 4) mod 7 = (n div 86400000 + 4) mod 7" by (rule mod_add_left_eq)
  let ?c = "\<lparr>cd_year = y, cd_month = m, cd_day = d, cd_weekday = ((n div 86400000) mod 7 + 4) mod 7,
             cd_hours = k div 3600000, cd_minutes = (k div 60000) mod 60,
             cd_seconds = (k div 1000) mod 60, cd_milliseconds = k mod 1000\<rparr>"
  have r: "0 \<le> (k div 60000) mod 60" "(k div 60000) mod 60 < 60" "0 \<le> (k div 1000) mod 60" "(k div 1000) mod 60 < 60" "0 \<le> k mod 1000" "k mod 1000 < 1000"
    by simp_all
  have "civil_of n ?c" unfolding civil_of_def k_def [symmetric] civil_date_time.simps using c(2-4) time_of_day [OF k] w r by blast
  moreover have "civil_from_timestamp t = Some (Some ?c)" using fin f c(1) by (simp add: civil_from_timestamp_def Let_def k_def)
  ultimately show thesis using that by blast
qed

lemma civil_from_denoted: "denotes t n \<Longrightarrow> \<bar>n\<bar> < 2 ^ 63 \<Longrightarrow> \<exists>c. civil_from_timestamp t = Some (Some c) \<and> civil_of n c"
  using civil_from_timestamp_floor [of t n] denotes_floor [of t n] by auto

lemma day_number_year:
  assumes "valid_date (y, m, d)" "\<bar>day_number y m d\<bar> \<le> 100000000"
  shows "\<bar>y\<bar> \<le> 300000"
proof -
  obtain Y D where Y: "Y = y \<or> Y = y - 1" and D: "0 \<le> D" "D < 366" "day_number y m d = march_days Y + D - 719468"
    using day_number_march [OF assms(1)] by blast
  then have b: "\<bar>march_days Y\<bar> \<le> 100719834" using assms(2) by linarith
  define e r where "e = Y div 400" and "r = Y mod 400"
  have er: "Y = 400 * e + r" "0 \<le> r" "r < 400" by (simp_all add: e_def r_def)
  have "0 \<le> march_days r" "march_days r \<le> 146097"
    using march_days_mono [of 0 r] march_days_mono [of r 400] er(2,3) by (simp_all add: march_days_def)
  then have "\<bar>e\<bar> \<le> 700" using b unfolding er(1) march_days_era by linarith
  then show ?thesis using Y er by linarith
qed

lemma civil_of_day:
  assumes "civil_of n c" "\<bar>n\<bar> \<le> 8640000000000000"
  shows "\<bar>n div 86400000\<bar> \<le> 100000000" "\<bar>cd_year c\<bar> \<le> 300000"
    "days_from_civil (cd_year c) (cd_month c) (cd_day c) = Some (n div 86400000)"
    "make_day_number (cd_year c) (cd_month c - 1) (cd_day c) = n div 86400000"
    "month_index c = Some (cd_month c - 1)" "1 \<le> cd_month c" "cd_month c \<le> 12" "1 \<le> cd_day c" "cd_day c \<le> 31"
proof -
  have v: "valid_date (cd_year c, cd_month c, cd_day c)" and n: "day_number (cd_year c) (cd_month c) (cd_day c) = n div 86400000"
    and y: "\<bar>cd_year c\<bar> \<le> 2 ^ 40" using assms(1) by (simp_all only: civil_of_def)
  show m: "1 \<le> cd_month c" "cd_month c \<le> 12" "1 \<le> cd_day c" "cd_day c \<le> 31" using v by (auto simp: valid_date_def days_in_month_def split: if_splits)
  show b: "\<bar>n div 86400000\<bar> \<le> 100000000" using assms(2) by linarith
  show "\<bar>cd_year c\<bar> \<le> 300000" using day_number_year [OF v] b n by simp
  show "days_from_civil (cd_year c) (cd_month c) (cd_day c) = Some (n div 86400000)" unfolding n [symmetric] using m y by (intro days_from_civil_number) simp_all
  have "(cd_month c - 1) div 12 = 0" "(cd_month c - 1) mod 12 = cd_month c - 1" using m by (simp_all add: div_pos_pos_trivial mod_pos_pos_trivial)
  then show "make_day_number (cd_year c) (cd_month c - 1) (cd_day c) = n div 86400000"
    unfolding make_day_number_def n [symmetric] by (simp add: day_number_def)
  show "month_index c = Some (cd_month c - 1)" using m by (simp add: month_index_def u32_checked_def)
qed

subsection \<open>Setters and \<open>Date.UTC\<close>\<close>

lemma make_day_time:
  assumes "denotes yr y" "denotes mo m" "denotes dt d" "\<bar>y\<bar> \<le> 2 ^ 50" "\<bar>m\<bar> < 2 ^ 50" "\<bar>d\<bar> \<le> 2 ^ 50"
    and "denotes time T" "\<bar>T\<bar> \<le> 10 ^ 16" "\<bar>y + m div 12\<bar> \<le> 1000000" "\<bar>make_day_number y m d\<bar> \<le> 104000000"
  shows "is_time (do { day \<leftarrow> make_day yr mo dt; Some (time_clip (make_date day time)) }) (make_day_number y m d * 86400000 + T)"
proof -
  obtain r where r: "make_day yr mo dt = Some r" "denotes r (make_day_number y m d)" using make_day_exact [OF assms(1-6)] assms(9) by auto
  then show ?thesis using make_date_exact [OF r(2) assms(7,10,8)] by simp
qed

lemma civil_time_exact:
  assumes "civil_of n c"
  shows "denotes (int_to_f64 (cd_hours c)) (cd_hours c)" "denotes (int_to_f64 (cd_minutes c)) (cd_minutes c)"
    "denotes (int_to_f64 (cd_seconds c)) (cd_seconds c)" "denotes (int_to_f64 (cd_milliseconds c)) (cd_milliseconds c)"
    "\<bar>cd_hours c\<bar> \<le> 10 ^ 9" "\<bar>cd_minutes c\<bar> \<le> 10 ^ 9" "\<bar>cd_seconds c\<bar> \<le> 10 ^ 9" "\<bar>cd_milliseconds c\<bar> \<le> 10 ^ 15"
    "denotes (time_within_day_ms c) (n mod 86400000)"
proof -
  have r: "0 \<le> cd_hours c" "cd_hours c < 24" "0 \<le> cd_minutes c" "cd_minutes c < 60" "0 \<le> cd_seconds c" "cd_seconds c < 60"
    "0 \<le> cd_milliseconds c" "cd_milliseconds c < 1000"
    "cd_hours c * 3600000 + cd_minutes c * 60000 + cd_seconds c * 1000 + cd_milliseconds c = n mod 86400000"
    using assms by (simp_all only: civil_of_def)
  show d: "denotes (int_to_f64 (cd_hours c)) (cd_hours c)" "denotes (int_to_f64 (cd_minutes c)) (cd_minutes c)"
    "denotes (int_to_f64 (cd_seconds c)) (cd_seconds c)" "denotes (int_to_f64 (cd_milliseconds c)) (cd_milliseconds c)"
    using r by (intro denotes_of_int; simp)+
  show b: "\<bar>cd_hours c\<bar> \<le> 10 ^ 9" "\<bar>cd_minutes c\<bar> \<le> 10 ^ 9" "\<bar>cd_seconds c\<bar> \<le> 10 ^ 9" "\<bar>cd_milliseconds c\<bar> \<le> 10 ^ 15" using r by simp_all
  show "denotes (time_within_day_ms c) (n mod 86400000)" unfolding time_within_day_ms_def r(9) [symmetric] by (rule time_sum_exact [OF d b])
qed

lemma time_sum_bound:
  "\<bar>h\<bar> \<le> 10 ^ 9 \<Longrightarrow> \<bar>mi\<bar> \<le> 10 ^ 9 \<Longrightarrow> \<bar>s\<bar> \<le> 10 ^ 9 \<Longrightarrow> \<bar>ms\<bar> \<le> 10 ^ 15 \<Longrightarrow> \<bar>h * 3600000 + mi * 60000 + s * 1000 + ms :: int\<bar> \<le> 10 ^ 16"
  by simp

text \<open>A setter of the time of day keeps the day.\<close>

lemma civil_day_time:
  assumes c: "civil_of n c" "\<bar>n\<bar> \<le> 8640000000000000"
    and "denotes h H" "denotes m M" "denotes s S" "denotes ms MS" "\<bar>H\<bar> \<le> 10 ^ 9" "\<bar>M\<bar> \<le> 10 ^ 9" "\<bar>S\<bar> \<le> 10 ^ 9" "\<bar>MS\<bar> \<le> 10 ^ 15"
  shows "is_time (do { day \<leftarrow> civil_day c; Some (time_clip (make_date day (time_sum h m s ms))) })
    (n div 86400000 * 86400000 + (H * 3600000 + M * 60000 + S * 1000 + MS))"
proof -
  have d: "denotes (int_to_f64 (n div 86400000)) (n div 86400000)" using civil_of_day(1) [OF c] by (intro denotes_of_int) simp
  have "is_time (Some (time_clip (make_date (int_to_f64 (n div 86400000)) (time_sum h m s ms)))) (n div 86400000 * 86400000 + (H * 3600000 + M * 60000 + S * 1000 + MS))"
    using civil_of_day(1) [OF c] time_sum_bound assms(7-10) by (intro make_date_exact [OF d time_sum_exact [OF assms(3-10)]]) auto
  then show ?thesis using civil_of_day(3) [OF c] by (simp add: civil_day_def)
qed

end
