(* ===== verification/Date_Iso.thy ===== *)
theory Date_Iso
  imports Date_Text Date_Properties
begin

text \<open>
  \<open>Date.parse\<close> reads what \<open>toISOString\<close> prints.
\<close>

subsection \<open>Padded digits\<close>

lemma usize_to_string_length: "n < 10 ^ w \<Longrightarrow> 0 < w \<Longrightarrow> length (usize_to_string n) \<le> w"
proof (induction n arbitrary: w rule: usize_to_string.induct)
  case (1 n)
  show ?case
  proof (cases "n < 10")
    case True
    then show ?thesis using 1(3) by (simp add: usize_to_string.simps)
  next
    case False
    obtain v where w: "w = Suc v" using 1(3) by (cases w) auto
    then have v: "n div 10 < 10 ^ v" using 1(2) by simp
    then have "0 < v" using False by (cases v) auto
    then show ?thesis using 1(1) [OF False v] False w by (simp add: usize_to_string.simps [of n])
  qed
qed

lemma digit_char_p_unat: "is_ascii_digit b \<longleftrightarrow> digit_char_p (unat b)"
  by (simp add: is_ascii_digit_def digit_char_p_def word_le_nat_alt)

lemma digits_int_value: "list_all is_ascii_digit ds \<Longrightarrow> foldl (\<lambda>v c. v * 10 + int (c - 0x30)) (int k) (map unat ds) = int (digits_value ds k)"
proof (induction ds arbitrary: k)
  case (Cons d ds)
  have "0x30 \<le> d" using Cons(2) by (simp add: is_ascii_digit_def)
  then have "unat (d - 0x30) = unat d - 0x30" by (simp add: unat_sub)
  then have e: "int k * 10 + int (unat d - 0x30) = int (k * 10 + unat (d - 0x30))" by (simp only: of_nat_add of_nat_mult of_nat_numeral)
  have "list_all is_ascii_digit ds" using Cons(2) by simp
  from Cons(1) [OF this, of "k * 10 + unat (d - 0x30)"] show ?case unfolding digits_value_def by (simp only: list.map foldl_Cons e)
qed (simp add: digits_value_def)

lemma fmt_padded_digits:
  assumes "0 \<le> v" "v < 10 ^ w" "0 < w"
  defines "ds \<equiv> map unat (fmt_padded w v)"
  shows "length ds = w" "list_all digit_char_p ds" "digits_int ds = v" "list_all (\<lambda>b. b < 0x80) (fmt_padded w v)"
proof -
  let ?s = "usize_to_string (nat v)"
  have "nat v < 10 ^ w" using assms(1,2) by (simp add: nat_less_iff)
  then have l: "length ?s \<le> w" using usize_to_string_length assms(3) by blast
  have s: "list_all is_ascii_digit ?s" "digits_value ?s 0 = nat v" using usize_to_string_digits by blast+
  have f: "fmt_padded w v = replicate (w - length ?s) 0x30 @ ?s" using assms(1) by (simp add: fmt_padded_def pad_zeros_def)
  show "length ds = w" unfolding ds_def f using l by simp
  have a: "list_all is_ascii_digit (fmt_padded w v)" unfolding f using s(1) by (auto simp: list_all_iff is_ascii_digit_def)
  then show "list_all digit_char_p ds" unfolding ds_def by (simp add: list_all_iff digit_char_p_unat)
  have "digits_value (replicate k 0x30 @ xs) 0 = digits_value xs 0" for k xs by (induction k) (simp_all add: digits_value_def)
  then have "digits_value (fmt_padded w v) 0 = nat v" unfolding f using s(2) by simp
  then show "digits_int ds = v" using digits_int_value [OF a, of 0] assms(1) unfolding ds_def digits_int_def by simp
  show "list_all (\<lambda>b. b < 0x80) (fmt_padded w v)" using a
    by (auto simp: list_all_iff is_ascii_digit_def intro: order.strict_trans1 [of _ "0x39"])
qed

lemma take_digits_padded:
  "0 \<le> v \<Longrightarrow> v < 10 ^ w \<Longrightarrow> 0 < w \<Longrightarrow> take_digits w (map unat (fmt_padded w v) @ rest) = Some (map unat (fmt_padded w v), rest)"
  using fmt_padded_digits(1,2) [of v w] by (simp add: take_digits_def)

lemma parse_padded: "0 \<le> v \<Longrightarrow> v < 10 ^ w \<Longrightarrow> 0 < w \<Longrightarrow> w \<le> 18 \<Longrightarrow> parse_i64 (map unat (fmt_padded w v)) = Some v"
proof -
  assume a: "0 \<le> v" "v < 10 ^ w" "0 < w" "w \<le> 18"
  let ?d = "map unat (fmt_padded w v)"
  note f = fmt_padded_digits [OF a(1-3)]
  have ne: "?d \<noteq> []" using f(1) a(3) by auto
  then have "digit_char_p (hd ?d)" using f(2) hd_in_set unfolding list_all_iff by blast
  then have "hd ?d \<noteq> 0x2D" "hd ?d \<noteq> 0x2B" by (auto simp: digit_char_p_def)
  moreover have "v < 2 ^ 63"
  proof -
    have "(10 :: int) ^ w \<le> 10 ^ 18" using a(4) by (intro power_increasing) simp_all
    then show ?thesis using a(2) by simp
  qed
  ultimately show ?thesis using ne f(2,3) a(1) by (simp add: parse_i64_def Let_def i64_checked_def)
qed

subsection \<open>Matching the printed form\<close>

text \<open>A year prints as four digits, or as a sign and six digits; the text says which.\<close>

lemma iso_year_match:
  assumes "\<bar>y\<bar> \<le> 300000"
  shows "match_year (map unat (iso_year y) @ rest) = Some (map unat (iso_year y), rest)" "parse_i64 (map unat (iso_year y)) = Some y"
    "map unat (iso_year y) \<noteq> chars ''-000000''" "list_all (\<lambda>b. b < 0x80) (iso_year y)"
proof -
  have d: "digits_int (map unat (fmt_padded 6 \<bar>y\<bar>)) = \<bar>y\<bar>" "list_all digit_char_p (map unat (fmt_padded 6 \<bar>y\<bar>))" "length (map unat (fmt_padded 6 \<bar>y\<bar>)) = 6"
    "list_all (\<lambda>b. b < 0x80) (fmt_padded 6 \<bar>y\<bar>)"
    using fmt_padded_digits [of "\<bar>y\<bar>" 6] assms by simp_all
  show "match_year (map unat (iso_year y) @ rest) = Some (map unat (iso_year y), rest)"
  proof (cases "0 \<le> y \<and> y \<le> 9999")
    case True
    note f = fmt_padded_digits [of y 4] and td = take_digits_padded [of y 4 rest]
    obtain c cs where c: "map unat (fmt_padded 4 y) = c # cs" using f(1) True by (cases "map unat (fmt_padded 4 y)") auto
    have "digit_char_p c" using f(2) True unfolding c by simp
    then have "c \<noteq> 0x2B" "c \<noteq> 0x2D" by (auto simp: digit_char_p_def)
    moreover have "take_digits 4 (c # cs @ rest) = Some (c # cs, rest)" using td True unfolding c by simp
    ultimately show ?thesis using True c by (simp add: match_year_def iso_year_def)
  next
    case False
    have "take_digits 6 (map unat (fmt_padded 6 \<bar>y\<bar>) @ rest) = Some (map unat (fmt_padded 6 \<bar>y\<bar>), rest)" using assms by (intro take_digits_padded) simp_all
    then show ?thesis using False by (auto simp: match_year_def iso_year_def)
  qed
  show "parse_i64 (map unat (iso_year y)) = Some y"
  proof (cases "0 \<le> y \<and> y \<le> 9999")
    case True
    then show ?thesis using parse_padded [of y 4] by (simp add: iso_year_def)
  next
    case False
    have "map unat (fmt_padded 6 \<bar>y\<bar>) \<noteq> []" using d(3) by auto
    then show ?thesis using False d assms by (auto simp: iso_year_def parse_i64_def Let_def i64_checked_def)
  qed
  show "map unat (iso_year y) \<noteq> chars ''-000000''"
  proof
    assume e: "map unat (iso_year y) = chars ''-000000''"
    have c: "chars ''-000000'' = [0x2D, 0x30, 0x30, 0x30, 0x30, 0x30, 0x30]" by (simp add: chars_def)
    have "length (map unat (iso_year y)) = 7" unfolding e c by simp
    then have n: "\<not> (0 \<le> y \<and> y \<le> 9999)" using fmt_padded_digits(1) [of y 4] by (auto simp: iso_year_def)
    then have "map unat (fmt_padded 6 \<bar>y\<bar>) = [0x30, 0x30, 0x30, 0x30, 0x30, 0x30]" using e unfolding c by (auto simp: iso_year_def)
    then have "\<bar>y\<bar> = 0" using d(1) by (simp add: digits_int_def)
    then show False using n by simp
  qed
  show "list_all (\<lambda>b. b < 0x80) (iso_year y)" using d(4) fmt_padded_digits(4) [of y 4] by (auto simp: iso_year_def)
qed

lemma iso_text_match:
  assumes "\<bar>cd_year c\<bar> \<le> 300000" "0 \<le> cd_month c" "cd_month c < 100" "0 \<le> cd_day c" "cd_day c < 100" "0 \<le> cd_hours c" "cd_hours c < 100"
    "0 \<le> cd_minutes c" "cd_minutes c < 100" "0 \<le> cd_seconds c" "cd_seconds c < 100" "0 \<le> cd_milliseconds c" "cd_milliseconds c < 1000"
  shows "iso_match (map unat (iso_text c)) = Some \<lparr>ic_year = map unat (iso_year (cd_year c)), ic_month = Some (map unat (fmt_padded 2 (cd_month c))),
    ic_day = Some (map unat (fmt_padded 2 (cd_day c))), ic_hours = Some (map unat (fmt_padded 2 (cd_hours c))),
    ic_minutes = Some (map unat (fmt_padded 2 (cd_minutes c))), ic_seconds = Some (map unat (fmt_padded 2 (cd_seconds c))),
    ic_fraction = Some (map unat (fmt_padded 3 (cd_milliseconds c))), ic_zone = Some [0x5A]\<rparr>"
proof -
  note y = iso_year_match(1) [OF assms(1)]
  have t: "take_digits 2 (map unat (fmt_padded 2 v) @ rest) = Some (map unat (fmt_padded 2 v), rest)" if "0 \<le> v" "v < 100" for v rest
    using take_digits_padded [of v 2] that by simp
  note ms = fmt_padded_digits [of "cd_milliseconds c" 3]
  let ?ms = "map unat (fmt_padded 3 (cd_milliseconds c))"
  have m: "list_all digit_char_p ?ms" "?ms \<noteq> []" using ms(1,2) assms by auto
  have tw: "takeWhile digit_char_p (?ms @ [0x5A]) = ?ms" "dropWhile digit_char_p (?ms @ [0x5A]) = [0x5A]"
  proof -
    have "\<not> digit_char_p 0x5A" by (simp add: digit_char_p_def)
    moreover have "digit_char_p x" if "x \<in> set ?ms" for x using m(1) that by (simp only: list_all_iff)
    ultimately show "takeWhile digit_char_p (?ms @ [0x5A]) = ?ms" "dropWhile digit_char_p (?ms @ [0x5A]) = [0x5A]"
      by (simp_all only: takeWhile_append2 dropWhile_append2 takeWhile.simps dropWhile.simps if_False append_Nil2)
  qed
  then have fr: "match_fraction (0x2E # ?ms @ [0x5A]) = Some (Some ?ms, [0x5A])" using m(2) by (simp add: match_fraction_def)
  show ?thesis unfolding iso_text_def map_append append_assoc iso_match_def y using assms m
    by (simp add: match_date_def match_seconds_def t fr match_zone_def)
qed

subsection \<open>The round trip\<close>

lemma utc_sum_exact:
  assumes "\<bar>D\<bar> \<le> 100000001" "0 \<le> h" "h < 24" "0 \<le> mi" "mi < 60" "0 \<le> s" "s < 60" "0 \<le> ms" "ms < 1000"
  shows "denotes (utc_sum D h mi s ms) (D * 86400000 + h * 3600000 + mi * 60000 + s * 1000 + ms)"
  unfolding utc_sum_def using assms by (intro denotes_add denotes_mul denotes_of_int) (simp_all add: abs_mult)

lemma fraction_padded: "0 \<le> v \<Longrightarrow> v < 1000 \<Longrightarrow> fraction_ms (map unat (fmt_padded 3 v)) = v"
  using fmt_padded_digits(1) [of v 3] parse_padded [of v 3] by (simp add: fraction_ms_def Let_def)

lemma parse_iso_printed:
  assumes c: "civil_of n c" and n: "\<bar>n\<bar> \<le> 8640000000000000"
  shows "\<exists>ic. iso_match (map unat (iso_text c)) = Some ic \<and> is_time (parse_iso_date C ic) n"
proof -
  note f = civil_of_day [OF c n]
  have r: "0 \<le> cd_hours c" "cd_hours c < 24" "0 \<le> cd_minutes c" "cd_minutes c < 60" "0 \<le> cd_seconds c" "cd_seconds c < 60"
    "0 \<le> cd_milliseconds c" "cd_milliseconds c < 1000"
    and tm: "cd_hours c * 3600000 + cd_minutes c * 60000 + cd_seconds c * 1000 + cd_milliseconds c = n mod 86400000"
    using c by (simp_all only: civil_of_def)
  have p2: "iso_field (Some (map unat (fmt_padded 2 v))) k = v" if "0 \<le> v" "v < 100" for v k
    using parse_padded [of v 2] that by (simp add: iso_field_def)
  have u: "u32_cast (cd_month c) = cd_month c" "u32_cast (cd_day c) = cd_day c" using f(6-9) by (simp_all add: u32_cast_def)
  have ok: "iso_ok (cd_month c) (cd_day c) (cd_hours c) (cd_minutes c) (cd_seconds c) (cd_milliseconds c)" using f(6-9) r by (simp add: iso_ok_def)
  have z: "zone_ok (Some [0x5A])" "Option.bind (Some [0x5A]) zone_fields = None" by (simp_all add: zone_ok_def zone_fields_def)
  define S where "S = utc_sum (n div 86400000) (cd_hours c) (cd_minutes c) (cd_seconds c) (cd_milliseconds c)"
  have "denotes S n"
    using utc_sum_exact [of "n div 86400000" "cd_hours c" "cd_minutes c" "cd_seconds c" "cd_milliseconds c"] f(1) r tm div_mult_mod_eq [of n 86400000]
    unfolding S_def by (simp add: add.assoc)
  then have "is_time (Some (time_clip S)) n" by (rule time_clip_exact)
  then have "is_time (parse_iso_date C \<lparr>ic_year = map unat (iso_year (cd_year c)), ic_month = Some (map unat (fmt_padded 2 (cd_month c))),
    ic_day = Some (map unat (fmt_padded 2 (cd_day c))), ic_hours = Some (map unat (fmt_padded 2 (cd_hours c))),
    ic_minutes = Some (map unat (fmt_padded 2 (cd_minutes c))), ic_seconds = Some (map unat (fmt_padded 2 (cd_seconds c))),
    ic_fraction = Some (map unat (fmt_padded 3 (cd_milliseconds c))), ic_zone = Some [0x5A]\<rparr>) n"
    unfolding parse_iso_date_def iso_captures.simps Let_def option.case z
    using f(3,6-9) r iso_year_match(2,3) [OF f(2)] by (simp add: p2 u ok z fraction_padded S_def)
  moreover have "iso_match (map unat (iso_text c)) = Some \<lparr>ic_year = map unat (iso_year (cd_year c)), ic_month = Some (map unat (fmt_padded 2 (cd_month c))),
    ic_day = Some (map unat (fmt_padded 2 (cd_day c))), ic_hours = Some (map unat (fmt_padded 2 (cd_hours c))),
    ic_minutes = Some (map unat (fmt_padded 2 (cd_minutes c))), ic_seconds = Some (map unat (fmt_padded 2 (cd_seconds c))),
    ic_fraction = Some (map unat (fmt_padded 3 (cd_milliseconds c))), ic_zone = Some [0x5A]\<rparr>"
    by (rule iso_text_match) (use f(2,6-9) r in simp_all)
  ultimately show ?thesis by blast
qed

lemma iso_text_ascii:
  assumes "civil_of n c" "\<bar>n\<bar> \<le> 8640000000000000"
  shows "list_all (\<lambda>b. b < 0x80) (iso_text c)"
proof -
  note f = civil_of_day [OF assms]
  have r: "0 \<le> cd_hours c" "cd_hours c < 24" "0 \<le> cd_minutes c" "cd_minutes c < 60" "0 \<le> cd_seconds c" "cd_seconds c < 60"
    "0 \<le> cd_milliseconds c" "cd_milliseconds c < 1000" using assms(1) by (simp_all only: civil_of_def)
  have p: "list_all (\<lambda>b. b < 0x80) (fmt_padded 2 v)" if "0 \<le> v" "v < 100" for v using fmt_padded_digits(4) [of v 2] that by simp
  show ?thesis unfolding iso_text_def using iso_year_match(4) [OF f(2)] p [of "cd_month c"] p [of "cd_day c"] p [of "cd_hours c"] p [of "cd_minutes c"]
      p [of "cd_seconds c"] fmt_padded_digits(4) [of "cd_milliseconds c" 3] f(6-9) r by simp
qed

text \<open>C39. \<open>Date.parse\<close> inverts \<open>toISOString\<close>. The text that a valid date prints, four-digit years and signed six-digit ones alike,
  matches the ISO pattern, and its parse is the same instant to the millisecond.\<close>

theorem iso_round_trip:
  assumes "denotes t n" "\<bar>n\<bar> \<le> 8640000000000000"
    and "thaw_date_to_iso_string B t ns = Some (p, ns')" "p \<noteq> 0" "hm_get (lengths (thr ns)) p = None" "hm_get (owned_lengths ns) p = None"
  shows "is_time (thaw_date_parse C ns' p) n"
proof -
  have "\<bar>n\<bar> < 2 ^ 63" using assms(2) by simp
  then obtain c where c: "civil_from_timestamp t = Some (Some c)" "civil_of n c" using civil_from_denoted [OF assms(1)] by blast
  have "arena_string B (iso_text c) ns = (p, ns')" using assms(3) c(1) by (simp add: thaw_date_to_iso_string_def)
  then have "native_bytes ns' p = Some (iso_text c)" using assms(4-6) by (rule arena_string_round_trip)
  moreover obtain ic where "iso_match (map unat (iso_text c)) = Some ic" "is_time (parse_iso_date C ic) n" using parse_iso_printed [OF c(2) assms(2)] by blast
  ultimately show ?thesis using assms(4) to_string_lossy_ascii [OF iso_text_ascii [OF c(2) assms(2)]] by (simp add: thaw_date_parse_def)
qed

lemma iso_text_length:
  assumes "civil_of n c" "\<bar>n\<bar> \<le> 8640000000000000"
  shows "length (iso_text c) \<le> 27"
proof -
  note f = civil_of_day [OF assms]
  have r: "0 \<le> cd_hours c" "cd_hours c < 24" "0 \<le> cd_minutes c" "cd_minutes c < 60" "0 \<le> cd_seconds c" "cd_seconds c < 60"
    "0 \<le> cd_milliseconds c" "cd_milliseconds c < 1000" using assms(1) by (simp_all only: civil_of_def)
  have p: "length (fmt_padded 2 v) = 2" if "0 \<le> v" "v < 100" for v using fmt_padded_digits(1) [of v 2] that by simp
  have y: "length (iso_year (cd_year c)) \<le> 7"
    using fmt_padded_digits(1) [of "cd_year c" 4] fmt_padded_digits(1) [of "\<bar>cd_year c\<bar>" 6] f(2) by (auto simp: iso_year_def)
  show ?thesis unfolding iso_text_def using y p [of "cd_month c"] p [of "cd_day c"] p [of "cd_hours c"] p [of "cd_minutes c"]
      p [of "cd_seconds c"] fmt_padded_digits(1) [of "cd_milliseconds c" 3] f(6-9) r by simp
qed

theorem iso_round_trip_witness:
  "\<exists>p ns. thaw_date_to_iso_string line_bump (int_to_f64 (-62198755200000)) (init_native two_blocks) = Some (p, ns) \<and>
     is_time (thaw_date_parse \<lparr>lt_localtime_r = (\<lambda>_. None), lt_mktime = (\<lambda>_. -1)\<rparr> ns p) (-62198755200000)"
proof -
  have d: "denotes (int_to_f64 (-62198755200000)) (-62198755200000)" by (rule denotes_of_int) simp
  obtain c where c: "civil_from_timestamp (int_to_f64 (-62198755200000)) = Some (Some c)" "civil_of (-62198755200000) c"
    using civil_from_denoted [OF d] by auto
  obtain p ns where a: "arena_string line_bump (iso_text c) (init_native two_blocks) = (p, ns)" by fastforce
  have "length (iso_text c) \<le> 27" by (rule iso_text_length [OF c(2)]) simp
  then have p: "p = 1056" using a line_alloc [of "Suc (length (iso_text c))"]
    by (auto simp: arena_string_def checked_add_def usize_limit_def init_native_def split: prod.splits if_splits)
  have e: "thaw_date_to_iso_string line_bump (int_to_f64 (-62198755200000)) (init_native two_blocks) = Some (p, ns)"
    using a c(1) by (simp add: thaw_date_to_iso_string_def)
  show ?thesis using iso_round_trip [OF d _ e] e p two_blocks_lengths by (auto simp: init_native_def)
qed

text \<open>A year with many digits overflows the day count of the legacy parser before its range is checked.\<close>

lemma legacy_year_overflow: "parse_legacy_date C (chars ''Jan 1, 9223372036854775807 GMT'') = None"
  by code_simp

end
