(* ===== verification/Date_Setters.thy ===== *)
theory Date_Setters
  imports Date_Properties
begin

text \<open>
  What the getters, \<open>Date.UTC\<close> and the setters of dates compute, on integers.
\<close>

lemma day_setters:
  assumes t: "denotes t n" "\<bar>n\<bar> \<le> 8640000000000000" and c: "civil_from_timestamp t = Some (Some c)" "civil_of n c"
    and a: "denotes yr y" "denotes mo m" "denotes dt d" "\<bar>y\<bar> \<le> 2 ^ 50" "\<bar>m\<bar> < 2 ^ 50" "\<bar>d\<bar> \<le> 2 ^ 50"
  shows "\<bar>y + m div 12\<bar> \<le> 1000000 \<Longrightarrow> \<bar>make_day_number y m d\<bar> \<le> 104000000 \<Longrightarrow>
      is_time (thaw_date_set_full_year t yr mo dt) (make_day_number y m d * 86400000 + n mod 86400000)"
    "\<bar>cd_year c + m div 12\<bar> \<le> 1000000 \<Longrightarrow> \<bar>make_day_number (cd_year c) m d\<bar> \<le> 104000000 \<Longrightarrow>
      is_time (thaw_date_set_month t mo dt) (make_day_number (cd_year c) m d * 86400000 + n mod 86400000)"
    "\<bar>make_day_number (cd_year c) (cd_month c - 1) d\<bar> \<le> 104000000 \<Longrightarrow>
      is_time (thaw_date_set_date t dt) (make_day_number (cd_year c) (cd_month c - 1) d * 86400000 + n mod 86400000)"
proof -
  note f = civil_of_day [OF c(2) t(2)] and w = civil_time_exact(9) [OF c(2)]
  have k: "\<bar>n mod 86400000\<bar> \<le> 10 ^ 16"
  proof -
    have "0 \<le> n mod 86400000" "n mod 86400000 < 86400000" by simp_all
    then show ?thesis by simp
  qed
  have y: "denotes (int_to_f64 (cd_year c)) (cd_year c)" "denotes (int_to_f64 (cd_month c - 1)) (cd_month c - 1)"
    using f by (intro denotes_of_int; simp)+
  have z: "(cd_month c - 1) div 12 = 0" using f(6,7) by (simp add: div_pos_pos_trivial)
  have fin: "f64_is_finite t" using t by simp
  show "is_time (thaw_date_set_full_year t yr mo dt) (make_day_number y m d * 86400000 + n mod 86400000)"
    if "\<bar>y + m div 12\<bar> \<le> 1000000" "\<bar>make_day_number y m d\<bar> \<le> 104000000"
    using make_day_time [OF a w k that] c(1) fin by (simp add: thaw_date_set_full_year_def civil_for_full_year_setter_def)
  show "is_time (thaw_date_set_month t mo dt) (make_day_number (cd_year c) m d * 86400000 + n mod 86400000)"
    if "\<bar>cd_year c + m div 12\<bar> \<le> 1000000" "\<bar>make_day_number (cd_year c) m d\<bar> \<le> 104000000"
    using make_day_time [OF y(1) a(2,3) _ a(5,6) w k that] f(2) c(1) by (simp add: thaw_date_set_month_def with_civil_def)
  show "is_time (thaw_date_set_date t dt) (make_day_number (cd_year c) (cd_month c - 1) d * 86400000 + n mod 86400000)"
    if "\<bar>make_day_number (cd_year c) (cd_month c - 1) d\<bar> \<le> 104000000"
    using make_day_time [OF y(1,2) a(3) _ _ a(6) w k _ that] f c(1) z by (simp add: thaw_date_set_date_def with_civil_def)
qed

lemma time_setters:
  assumes t: "denotes t n" "\<bar>n\<bar> \<le> 8640000000000000" and c: "civil_from_timestamp t = Some (Some c)" "civil_of n c"
    and a: "denotes h H" "denotes mi M" "denotes s S" "denotes ms MS" "\<bar>H\<bar> \<le> 10 ^ 9" "\<bar>M\<bar> \<le> 10 ^ 9" "\<bar>S\<bar> \<le> 10 ^ 9" "\<bar>MS\<bar> \<le> 10 ^ 15"
  shows "is_time (thaw_date_set_hours t h mi s ms) (n div 86400000 * 86400000 + (H * 3600000 + M * 60000 + S * 1000 + MS))"
    "is_time (thaw_date_set_minutes t mi s ms) (n div 86400000 * 86400000 + (cd_hours c * 3600000 + M * 60000 + S * 1000 + MS))"
    "is_time (thaw_date_set_seconds t s ms) (n div 86400000 * 86400000 + (cd_hours c * 3600000 + cd_minutes c * 60000 + S * 1000 + MS))"
    "is_time (thaw_date_set_milliseconds t ms)
       (n div 86400000 * 86400000 + (cd_hours c * 3600000 + cd_minutes c * 60000 + cd_seconds c * 1000 + MS))"
proof -
  note e = civil_time_exact [OF c(2)] and day = civil_day_time [OF c(2) t(2)]
  have tr: "f64_trunc h = h" "f64_trunc mi = mi" "f64_trunc s = s" "f64_trunc ms = ms" using a denotes_trunc by blast+
  have fin: "f64_is_finite h" "f64_is_finite mi" "f64_is_finite s" "f64_is_finite ms" using a by simp_all
  show "is_time (thaw_date_set_hours t h mi s ms) (n div 86400000 * 86400000 + (H * 3600000 + M * 60000 + S * 1000 + MS))"
    using day [OF a(1,2,3,4,5,6,7,8)] c(1) fin by (simp add: thaw_date_set_hours_def with_civil_def tr)
  show "is_time (thaw_date_set_minutes t mi s ms) (n div 86400000 * 86400000 + (cd_hours c * 3600000 + M * 60000 + S * 1000 + MS))"
    using day [OF e(1) a(2,3,4) e(5) a(6,7,8)] c(1) fin by (simp add: thaw_date_set_minutes_def with_civil_def tr)
  show "is_time (thaw_date_set_seconds t s ms) (n div 86400000 * 86400000 + (cd_hours c * 3600000 + cd_minutes c * 60000 + S * 1000 + MS))"
    using day [OF e(1,2) a(3,4) e(5,6) a(7,8)] c(1) fin by (simp add: thaw_date_set_seconds_def with_civil_def tr)
  show "is_time (thaw_date_set_milliseconds t ms)
       (n div 86400000 * 86400000 + (cd_hours c * 3600000 + cd_minutes c * 60000 + cd_seconds c * 1000 + MS))"
    using day [OF e(1,2,3) a(4) e(5,6,7) a(8)] c(1) fin by (simp add: thaw_date_set_milliseconds_def with_civil_def tr)
qed

text \<open>C38. A setter replaces its fields, rolls over what is out of range and keeps the rest. For a valid date and integer arguments within wide bounds,
  \<open>setFullYear\<close>, \<open>setMonth\<close> and \<open>setDate\<close> fold months into years and days into months and keep the time of
  day; \<open>setHours\<close> to \<open>setMilliseconds\<close> keep the day and the larger fields. The result is the exact integer, or
  NaN outside the range of dates; no floating point error enters, and no operation panics. The date setters are
  taken up to just outside that range.\<close>

theorem date_setters_exact:
  assumes "denotes t n" "\<bar>n\<bar> \<le> 8640000000000000"
    and "denotes yr y" "denotes mo m" "denotes dt d" "\<bar>y\<bar> \<le> 2 ^ 50" "\<bar>m\<bar> < 2 ^ 50" "\<bar>d\<bar> \<le> 2 ^ 50"
    and "denotes h H" "denotes mi M" "denotes s S" "denotes ms MS" "\<bar>H\<bar> \<le> 10 ^ 9" "\<bar>M\<bar> \<le> 10 ^ 9" "\<bar>S\<bar> \<le> 10 ^ 9" "\<bar>MS\<bar> \<le> 10 ^ 15"
  shows "\<exists>c. civil_from_timestamp t = Some (Some c) \<and> civil_of n c \<and>
    (\<bar>y + m div 12\<bar> \<le> 1000000 \<and> \<bar>make_day_number y m d\<bar> \<le> 104000000 \<longrightarrow>
      is_time (thaw_date_set_full_year t yr mo dt) (make_day_number y m d * 86400000 + n mod 86400000)) \<and>
    (\<bar>cd_year c + m div 12\<bar> \<le> 1000000 \<and> \<bar>make_day_number (cd_year c) m d\<bar> \<le> 104000000 \<longrightarrow>
      is_time (thaw_date_set_month t mo dt) (make_day_number (cd_year c) m d * 86400000 + n mod 86400000)) \<and>
    (\<bar>make_day_number (cd_year c) (cd_month c - 1) d\<bar> \<le> 104000000 \<longrightarrow>
      is_time (thaw_date_set_date t dt) (make_day_number (cd_year c) (cd_month c - 1) d * 86400000 + n mod 86400000)) \<and>
    is_time (thaw_date_set_hours t h mi s ms) (n div 86400000 * 86400000 + (H * 3600000 + M * 60000 + S * 1000 + MS)) \<and>
    is_time (thaw_date_set_minutes t mi s ms) (n div 86400000 * 86400000 + (cd_hours c * 3600000 + M * 60000 + S * 1000 + MS)) \<and>
    is_time (thaw_date_set_seconds t s ms) (n div 86400000 * 86400000 + (cd_hours c * 3600000 + cd_minutes c * 60000 + S * 1000 + MS)) \<and>
    is_time (thaw_date_set_milliseconds t ms)
      (n div 86400000 * 86400000 + (cd_hours c * 3600000 + cd_minutes c * 60000 + cd_seconds c * 1000 + MS))"
proof -
  have "\<bar>n\<bar> < 2 ^ 63" using assms(2) by simp
  then obtain c where c: "civil_from_timestamp t = Some (Some c)" "civil_of n c" using civil_from_denoted [OF assms(1)] by blast
  show ?thesis using c day_setters [OF assms(1,2) c assms(3-8)] time_setters [OF assms(1,2) c assms(9-16)] by blast
qed

theorem date_setters_exact_witness:
  "\<exists>c. civil_from_timestamp (int_to_f64 1709164800000) = Some (Some c) \<and> civil_of 1709164800000 c \<and>
     is_time (thaw_date_set_hours (int_to_f64 1709164800000) (int_to_f64 25) (int_to_f64 0) (int_to_f64 0) (int_to_f64 0)) 1709254800000"
proof -
  have d: "denotes (int_to_f64 1709164800000) 1709164800000" "denotes (int_to_f64 0) 0" "denotes (int_to_f64 25) 25" by (rule denotes_of_int; simp)+
  show ?thesis using date_setters_exact [OF d(1) _ d(2,2,2) _ _ _ d(3) d(2,2,2)] by auto
qed

subsection \<open>Fields back to a time\<close>

lemma two_digit_year_exact: "denotes yr y \<Longrightarrow> \<bar>y\<bar> \<le> 2 ^ 50 \<Longrightarrow> denotes (two_digit_year yr) (if 0 \<le> y \<and> y \<le> 99 then y + 1900 else y)"
proof -
  assume y: "denotes yr y" "\<bar>y\<bar> \<le> 2 ^ 50"
  have c: "denotes (int_to_f64 0) 0" "denotes (int_to_f64 99) 99" "denotes (int_to_f64 1900) 1900" by (rule denotes_of_int; simp)+
  have "denotes (f64_add yr (int_to_f64 1900)) (y + 1900)" if "0 \<le> y" "y \<le> 99" using that by (intro denotes_add y(1) c) simp
  then show ?thesis using y c denotes_le(1) [OF c(1) y(1)] denotes_le(1) [OF y(1) c(2)] by (simp add: two_digit_year_def denotes_trunc)
qed

lemma utc_exact:
  assumes a: "denotes yr y" "denotes mo m" "denotes dt d" "\<bar>y\<bar> \<le> 2 ^ 40" "\<bar>m\<bar> < 2 ^ 50" "\<bar>d\<bar> \<le> 2 ^ 50"
    and b: "denotes h H" "denotes mi M" "denotes s S" "denotes ms MS" "\<bar>H\<bar> \<le> 10 ^ 9" "\<bar>M\<bar> \<le> 10 ^ 9" "\<bar>S\<bar> \<le> 10 ^ 9" "\<bar>MS\<bar> \<le> 10 ^ 15"
    and Y: "Y = (if 0 \<le> y \<and> y \<le> 99 then y + 1900 else y)" "\<bar>Y + m div 12\<bar> \<le> 1000000" "\<bar>make_day_number Y m d\<bar> \<le> 104000000"
  shows "is_time (thaw_date_utc yr mo dt h mi s ms) (make_day_number Y m d * 86400000 + (H * 3600000 + M * 60000 + S * 1000 + MS))"
proof -
  have yr: "denotes (two_digit_year yr) Y" using two_digit_year_exact [OF a(1)] a(4) unfolding Y(1) by simp
  have "\<bar>Y\<bar> \<le> 2 ^ 50" using a(4) unfolding Y(1) by auto
  note mk = make_day_time [OF yr a(2,3) this a(5,6) time_sum_exact [OF b(1-8)] time_sum_bound [OF b(5-8)] Y(2,3)]
  have tr: "f64_trunc h = h" "f64_trunc mi = mi" "f64_trunc s = s" "f64_trunc ms = ms" using b denotes_trunc by blast+
  have fin: "f64_is_finite h" "f64_is_finite mi" "f64_is_finite s" "f64_is_finite ms" using b by simp_all
  show ?thesis using mk fin by (simp add: thaw_date_utc_def tr)
qed

text \<open>C37. The fields of a date determine it. For every valid date the getters return integers, a day of the calendar and a time of
  day; \<open>Date.UTC\<close> of them is the date again, except that it reads the years 0 to 99 as 1900 to 1999, and so are
  \<open>setFullYear\<close> and \<open>setHours\<close> with the fields the getters returned, for every year.\<close>

theorem date_fields_round_trip:
  assumes "denotes t n" "\<bar>n\<bar> \<le> 8640000000000000"
  shows "\<exists>y mo d h mi s ms Y. thaw_date_get_full_year t = Some y \<and> thaw_date_get_month t = Some mo \<and> thaw_date_get_date t = Some d \<and>
    thaw_date_get_hours t = Some h \<and> thaw_date_get_minutes t = Some mi \<and> thaw_date_get_seconds t = Some s \<and>
    thaw_date_get_milliseconds t = Some ms \<and> denotes y Y \<and>
    is_time (thaw_date_set_full_year t y mo d) n \<and> is_time (thaw_date_set_hours t h mi s ms) n \<and>
    (0 \<le> Y \<and> Y \<le> 99 \<or> is_time (thaw_date_utc y mo d h mi s ms) n)"
proof -
  have "\<bar>n\<bar> < 2 ^ 63" using assms(2) by simp
  then obtain c where c: "civil_from_timestamp t = Some (Some c)" "civil_of n c" using civil_from_denoted [OF assms(1)] by blast
  note f = civil_of_day [OF c(2) assms(2)] and e = civil_time_exact [OF c(2)]
  have tm: "cd_hours c * 3600000 + cd_minutes c * 60000 + cd_seconds c * 1000 + cd_milliseconds c = n mod 86400000"
    using c(2) by (simp only: civil_of_def)
  have d: "denotes (int_to_f64 (cd_year c)) (cd_year c)" "denotes (int_to_f64 (cd_month c - 1)) (cd_month c - 1)" "denotes (int_to_f64 (cd_day c)) (cd_day c)"
    using f by (intro denotes_of_int; simp)+
  have b: "\<bar>cd_year c\<bar> \<le> 2 ^ 50" "\<bar>cd_year c\<bar> \<le> 2 ^ 40" "\<bar>cd_month c - 1\<bar> < 2 ^ 50" "\<bar>cd_day c\<bar> \<le> 2 ^ 50" using f by simp_all
  have z: "(cd_month c - 1) div 12 = 0" using f(6,7) by (simp add: div_pos_pos_trivial)
  then have q: "\<bar>cd_year c + (cd_month c - 1) div 12\<bar> \<le> 1000000" "\<bar>make_day_number (cd_year c) (cd_month c - 1) (cd_day c)\<bar> \<le> 104000000"
    using f(1,2,4) by simp_all
  have n: "n div 86400000 * 86400000 + n mod 86400000 = n" by (rule div_mult_mod_eq)
  have s: "is_time (thaw_date_set_full_year t (int_to_f64 (cd_year c)) (int_to_f64 (cd_month c - 1)) (int_to_f64 (cd_day c))) n"
    using day_setters(1) [OF assms c d b(1,3,4) q] unfolding f(4) n .
  have h: "is_time (thaw_date_set_hours t (int_to_f64 (cd_hours c)) (int_to_f64 (cd_minutes c)) (int_to_f64 (cd_seconds c)) (int_to_f64 (cd_milliseconds c))) n"
    using time_setters(1) [OF assms c e(1-8)] unfolding tm n .
  have u: "is_time (thaw_date_utc (int_to_f64 (cd_year c)) (int_to_f64 (cd_month c - 1)) (int_to_f64 (cd_day c)) (int_to_f64 (cd_hours c))
      (int_to_f64 (cd_minutes c)) (int_to_f64 (cd_seconds c)) (int_to_f64 (cd_milliseconds c))) n" if "\<not> (0 \<le> cd_year c \<and> cd_year c \<le> 99)"
    using utc_exact [OF d b(2-4) e(1-8) _ q] that unfolding tm f(4) n by simp
  have "thaw_date_get_full_year t = Some (int_to_f64 (cd_year c))" "thaw_date_get_month t = Some (int_to_f64 (cd_month c - 1))"
    "thaw_date_get_date t = Some (int_to_f64 (cd_day c))" "thaw_date_get_hours t = Some (int_to_f64 (cd_hours c))"
    "thaw_date_get_minutes t = Some (int_to_f64 (cd_minutes c))" "thaw_date_get_seconds t = Some (int_to_f64 (cd_seconds c))"
    "thaw_date_get_milliseconds t = Some (int_to_f64 (cd_milliseconds c))"
    using c(1) f(5) by (simp_all add: thaw_date_get_full_year_def thaw_date_get_month_def thaw_date_get_date_def thaw_date_get_hours_def
        thaw_date_get_minutes_def thaw_date_get_seconds_def thaw_date_get_milliseconds_def date_field_getter_def field_or_def)
  then show ?thesis using d(1) s h u by blast
qed

theorem date_fields_round_trip_witness:
  "\<exists>y mo d. thaw_date_get_full_year (int_to_f64 (-1)) = Some y \<and> thaw_date_get_month (int_to_f64 (-1)) = Some mo \<and>
     thaw_date_get_date (int_to_f64 (-1)) = Some d \<and> is_time (thaw_date_set_full_year (int_to_f64 (-1)) y mo d) (-1)"
proof -
  have "denotes (int_to_f64 (-1)) (-1)" by (rule denotes_of_int) simp
  from date_fields_round_trip [OF this] show ?thesis by auto
qed

end
