(* ===== verification/Date_Local.thy ===== *)
theory Date_Local
  imports Date_Setters
begin

text \<open>
  Local times. The zone is known to the C library only; what is shown here is that a time made from local fields has these fields
  whenever the C library offers such a time.
\<close>

definition localtime_ok :: "libc_time \<Rightarrow> bool" where
  "localtime_ok C \<longleftrightarrow> (\<forall>s local. lt_localtime_r C s = Some local \<longrightarrow> 0 \<le> tm_mon local \<and> tm_mon local \<le> 11)"

lemma local_civil_denoted:
  assumes "localtime_ok C" "denotes t n" "\<bar>n\<bar> < 2 ^ 63"
  shows "local_civil_from_timestamp C t = Some (map_option (\<lambda>local.
    \<lparr>cd_year = tm_year local + 1900, cd_month = tm_mon local + 1, cd_day = u32_cast (tm_mday local), cd_weekday = u32_cast (tm_wday local),
     cd_hours = u32_cast (tm_hour local), cd_minutes = u32_cast (tm_min local), cd_seconds = u32_cast (tm_sec local),
     cd_milliseconds = n mod 1000\<rparr>) (lt_localtime_r C (n div 1000)))"
proof -
  have f: "f64_to_i64 (f64_floor t) = n" using denotes_floor [OF assms(2)] denotes_i64 [OF assms(2,3)] by simp
  show ?thesis
  proof (cases "lt_localtime_r C (n div 1000)")
    case None
    then show ?thesis using assms(2) f by (simp add: local_civil_from_timestamp_def)
  next
    case (Some local)
    then have m: "0 \<le> tm_mon local" "tm_mon local \<le> 11" using assms(1) by (auto simp: localtime_ok_def)
    then have "u32_checked (u32_cast (tm_mon local) + 1) = Some (tm_mon local + 1)" by (simp add: u32_checked_def u32_cast_def)
    then show ?thesis using assms(2) f Some by (simp add: local_civil_from_timestamp_def)
  qed
qed

definition same_fields :: "civil_date_time \<Rightarrow> civil_date_time \<Rightarrow> bool" where
  "same_fields a b \<longleftrightarrow> cd_year a = cd_year b \<and> cd_month a = cd_month b \<and> cd_day a = cd_day b \<and> cd_hours a = cd_hours b \<and>
     cd_minutes a = cd_minutes b \<and> cd_seconds a = cd_seconds b \<and> cd_milliseconds a = cd_milliseconds b"

lemma local_matches_denoted:
  assumes "localtime_ok C" "\<bar>v\<bar> \<le> 8640000000000"
  shows "local_matches C c v = Some (\<exists>local. lt_localtime_r C v = Some local \<and> tm_year local + 1900 = cd_year c \<and> tm_mon local + 1 = cd_month c \<and>
    u32_cast (tm_mday local) = cd_day c \<and> u32_cast (tm_hour local) = cd_hours c \<and> u32_cast (tm_min local) = cd_minutes c \<and>
    u32_cast (tm_sec local) = cd_seconds c)"
proof -
  have "denotes (f64_mul (int_to_f64 v) (int_to_f64 1000)) (v * 1000)" using assms(2) by (intro denotes_mul denotes_of_int) (simp_all add: abs_mult)
  from local_civil_denoted [OF assms(1) this] assms(2) show ?thesis by (auto simp: local_matches_def split: option.split)
qed

lemma local_fields_chosen:
  assumes "localtime_ok C" "civil_from_timestamp (make_date day (time_sum h mi s ms)) = Some (Some c)"
    and "make_day yr mo dt = Some day" "denotes h H" "denotes mi M" "denotes s S" "denotes ms MS" "f64_is_finite yr" "f64_is_finite mo" "f64_is_finite dt"
    and "- (2 ^ 31) \<le> cd_year c - 1900" "cd_year c - 1900 < 2 ^ 31" "0 \<le> cd_milliseconds c" "cd_milliseconds c < 1000"
    and "\<bar>lt_mktime C (make_tm c 0)\<bar> \<le> 8639999999999" "\<bar>lt_mktime C (make_tm c 1)\<bar> \<le> 8639999999999"
    and "local_matches C c (lt_mktime C (make_tm c 0)) = Some True \<or> local_matches C c (lt_mktime C (make_tm c 1)) = Some True"
  shows "\<exists>x local. timestamp_from_local_fields C yr mo dt h mi s ms = Some x \<and> local_civil_from_timestamp C x = Some (Some local) \<and> same_fields local c"
proof -
  let ?s = "lt_mktime C (make_tm c 0)" and ?d = "lt_mktime C (make_tm c 1)"
  have lim: "\<bar>?s\<bar> \<le> 8640000000000" "\<bar>?d\<bar> \<le> 8640000000000" using assms(15,16) by simp_all
  note ms = local_matches_denoted [OF assms(1) lim(1), of c] and md = local_matches_denoted [OF assms(1) lim(2), of c]
  define std where "std = (\<exists>local. lt_localtime_r C ?s = Some local \<and> tm_year local + 1900 = cd_year c \<and> tm_mon local + 1 = cd_month c \<and>
    u32_cast (tm_mday local) = cd_day c \<and> u32_cast (tm_hour local) = cd_hours c \<and> u32_cast (tm_min local) = cd_minutes c \<and>
    u32_cast (tm_sec local) = cd_seconds c)"
  define dst where "dst = (\<exists>local. lt_localtime_r C ?d = Some local \<and> tm_year local + 1900 = cd_year c \<and> tm_mon local + 1 = cd_month c \<and>
    u32_cast (tm_mday local) = cd_day c \<and> u32_cast (tm_hour local) = cd_hours c \<and> u32_cast (tm_min local) = cd_minutes c \<and>
    u32_cast (tm_sec local) = cd_seconds c)"
  define v where "v = (if std \<and> dst then min ?s ?d else if std then ?s else ?d)"
  have vv: "v = ?s \<and> std \<or> v = ?d \<and> dst" using assms(17) ms md unfolding v_def std_def dst_def by (auto simp: min_def)
  then have b: "\<bar>v\<bar> \<le> 8639999999999" using assms(15,16) by auto
  obtain local where l: "lt_localtime_r C v = Some local" "tm_year local + 1900 = cd_year c" "tm_mon local + 1 = cd_month c"
    "u32_cast (tm_mday local) = cd_day c" "u32_cast (tm_hour local) = cd_hours c" "u32_cast (tm_min local) = cd_minutes c" "u32_cast (tm_sec local) = cd_seconds c"
    using vv unfolding std_def dst_def by blast
  let ?y = "f64_add (f64_mul (int_to_f64 v) (int_to_f64 1000)) (int_to_f64 (cd_milliseconds c))"
  have y: "denotes ?y (v * 1000 + cd_milliseconds c)" using b assms(13,14) by (intro denotes_add denotes_mul denotes_of_int) (simp_all add: abs_mult)
  have "\<bar>v * 1000 + cd_milliseconds c\<bar> \<le> 8640000000000000" using b assms(13,14) by simp
  then have x: "denotes (time_clip ?y) (v * 1000 + cd_milliseconds c)" using time_clip_exact [OF y] by (simp add: is_time_def)
  have dm: "(v * 1000 + cd_milliseconds c) div 1000 = v" "(v * 1000 + cd_milliseconds c) mod 1000 = cd_milliseconds c"
    using assms(13,14) by (simp_all add: div_pos_pos_trivial mod_pos_pos_trivial)
  have "\<bar>v * 1000 + cd_milliseconds c\<bar> < 2 ^ 63" using b assms(13,14) by simp
  from local_civil_denoted [OF assms(1) x this, unfolded dm] obtain r where r: "local_civil_from_timestamp C (time_clip ?y) = Some (Some r)" "same_fields r c"
    using l by (auto simp: same_fields_def)
  have tr: "f64_trunc h = h" "f64_trunc mi = mi" "f64_trunc s = s" "f64_trunc ms = ms" using assms(4-7) denotes_trunc by blast+
  have fin: "list_all f64_is_finite [yr, mo, dt, h, mi, s, ms]" using assms(4-10) by simp
  have "timestamp_from_local_fields C yr mo dt h mi s ms = Some (time_clip ?y)"
    unfolding timestamp_from_local_fields_def using fin assms(2,3,11,12) ms md vv
    by (auto simp: tr Let_def std_def [symmetric] dst_def [symmetric] v_def)
  then show ?thesis using r by blast
qed

text \<open>C40. A local time has the fields it was made from. When the C library has a time with the requested local fields, as standard
  or as daylight time, the timestamp that is returned shows exactly these fields through the local getters, also
  when both kinds of time exist or only one does; the milliseconds are kept.\<close>

theorem local_fields_kept:
  assumes "localtime_ok C" "denotes yr y" "denotes mo m" "denotes dt d" "\<bar>y\<bar> \<le> 2 ^ 50" "\<bar>m\<bar> < 2 ^ 50" "\<bar>d\<bar> \<le> 2 ^ 50"
    and "denotes h H" "denotes mi M" "denotes s S" "denotes ms MS" "\<bar>H\<bar> \<le> 10 ^ 9" "\<bar>M\<bar> \<le> 10 ^ 9" "\<bar>S\<bar> \<le> 10 ^ 9" "\<bar>MS\<bar> \<le> 10 ^ 15"
    and "\<bar>y + m div 12\<bar> \<le> 1000000" "\<bar>make_day_number y m d\<bar> \<le> 104000000"
    and "N = make_day_number y m d * 86400000 + (H * 3600000 + M * 60000 + S * 1000 + MS)" "\<bar>N\<bar> \<le> 8640000000000000"
  shows "\<exists>c. civil_of N c \<and>
    (\<bar>lt_mktime C (make_tm c 0)\<bar> \<le> 8639999999999 \<and> \<bar>lt_mktime C (make_tm c 1)\<bar> \<le> 8639999999999 \<and>
     (local_matches C c (lt_mktime C (make_tm c 0)) = Some True \<or> local_matches C c (lt_mktime C (make_tm c 1)) = Some True) \<longrightarrow>
     (\<exists>x local. timestamp_from_local_fields C yr mo dt h mi s ms = Some x \<and> local_civil_from_timestamp C x = Some (Some local) \<and>
        same_fields local c))"
proof -
  obtain day where day: "make_day yr mo dt = Some day" "denotes day (make_day_number y m d)" using make_day_exact [OF assms(2-7)] assms(16) by auto
  have "denotes (int_to_f64 86400000) 86400000" by (rule denotes_of_int) simp
  then have "denotes (f64_mul day (int_to_f64 86400000)) (make_day_number y m d * 86400000)" using day(2) assms(17) by (intro denotes_mul) (simp_all add: abs_mult)
  then have "denotes (make_date day (time_sum h mi s ms)) N"
    unfolding make_date_def assms(18) using assms(18,19) by (intro denotes_add time_sum_exact assms(8-15)) simp_all
  moreover have "\<bar>N\<bar> < 2 ^ 63" using assms(19) by simp
  ultimately obtain c where c: "civil_from_timestamp (make_date day (time_sum h mi s ms)) = Some (Some c)" "civil_of N c" using civil_from_denoted by blast
  have yr: "- (2 ^ 31) \<le> cd_year c - 1900" "cd_year c - 1900 < 2 ^ 31" using civil_of_day(2) [OF c(2) assms(19)] by simp_all
  have ms: "0 \<le> cd_milliseconds c" "cd_milliseconds c < 1000" using c(2) by (simp_all only: civil_of_def)
  have fin: "f64_is_finite yr" "f64_is_finite mo" "f64_is_finite dt" using assms(2-4) by simp_all
  show ?thesis using c(2) local_fields_chosen [OF assms(1) c(1) day(1) assms(8-11) fin yr ms] by blast
qed

text \<open>A zone without an offset, at the epoch.\<close>

definition epoch_zone :: libc_time where
  "epoch_zone = \<lparr>lt_localtime_r = (\<lambda>s. if s = 0 then Some \<lparr>tm_sec = 0, tm_min = 0, tm_hour = 0, tm_mday = 1, tm_mon = 0, tm_year = 70,
     tm_wday = 4, tm_yday = 0, tm_isdst = 0, tm_zone = None\<rparr> else None), lt_mktime = (\<lambda>_. 0)\<rparr>"

lemma civil_of_epoch: "civil_of 0 c \<Longrightarrow> cd_year c = 1970 \<and> cd_month c = 1 \<and> cd_day c = 1 \<and> cd_hours c = 0 \<and> cd_minutes c = 0 \<and> cd_seconds c = 0"
proof -
  assume c: "civil_of 0 c"
  then have v: "valid_date (cd_year c, cd_month c, cd_day c)" "\<bar>cd_year c\<bar> \<le> 2 ^ 40" "day_number (cd_year c) (cd_month c) (cd_day c) = 0"
    by (simp_all add: civil_of_def)
  have "civil_from_days 0 = Some (1970, 1, 1)" by code_simp
  then have "cd_year c = 1970 \<and> cd_month c = 1 \<and> cd_day c = 1" using civil_from_days_number [OF v(1,2)] unfolding v(3) by simp
  moreover have "cd_hours c = 0 \<and> cd_minutes c = 0 \<and> cd_seconds c = 0" using c unfolding civil_of_def by auto
  ultimately show ?thesis by blast
qed

theorem local_fields_kept_witness:
  "\<exists>x local. timestamp_from_local_fields epoch_zone (int_to_f64 1970) (int_to_f64 0) (int_to_f64 1) (int_to_f64 0) (int_to_f64 0) (int_to_f64 0)
     (int_to_f64 0) = Some x \<and> local_civil_from_timestamp epoch_zone x = Some (Some local) \<and> cd_year local = 1970"
proof -
  have d: "denotes (int_to_f64 1970) 1970" "denotes (int_to_f64 0) 0" "denotes (int_to_f64 1) 1" by (rule denotes_of_int; simp)+
  have ok: "localtime_ok epoch_zone" by (simp add: localtime_ok_def epoch_zone_def)
  have n: "make_day_number 1970 0 1 = 0" by code_simp
  obtain c where c: "civil_of 0 c" "\<bar>lt_mktime epoch_zone (make_tm c 0)\<bar> \<le> 8639999999999 \<and> \<bar>lt_mktime epoch_zone (make_tm c 1)\<bar> \<le> 8639999999999 \<and>
     (local_matches epoch_zone c (lt_mktime epoch_zone (make_tm c 0)) = Some True \<or> local_matches epoch_zone c (lt_mktime epoch_zone (make_tm c 1)) = Some True) \<longrightarrow>
     (\<exists>x local. timestamp_from_local_fields epoch_zone (int_to_f64 1970) (int_to_f64 0) (int_to_f64 1) (int_to_f64 0) (int_to_f64 0) (int_to_f64 0)
       (int_to_f64 0) = Some x \<and> local_civil_from_timestamp epoch_zone x = Some (Some local) \<and> same_fields local c)"
    using local_fields_kept [OF ok d(1,2,3) _ _ _ d(2,2,2,2), of 0] n by auto
  note e = civil_of_epoch [OF c(1)]
  have "local_matches epoch_zone c 0 = Some True"
    unfolding local_matches_denoted [OF ok, of 0 c, simplified] using e by (simp add: epoch_zone_def u32_cast_def)
  then show ?thesis using c(2) e by (auto simp: epoch_zone_def same_fields_def)
qed

end
