(* ===== verification/Spec2Isabelle.thy ===== *)
theory Spec2Isabelle
  imports Arena_Properties Utf16_Text Error_Wire Native_Strings Map_Properties Timer_Properties Promise_Outcomes
    Event_Properties Provenance_Properties Hir_Masks Hir_Tokens Hir_Layout Bigint_Compare Bigint_Text Bigint_Keys
    Date_Iso Date_Local
begin

text \<open>
  \<^bold>\<open>A verification library for thaw.\<close>

  thaw compiles TypeScript to native programs. The compiler crates lower and emit code; the emitted
  code calls a runtime through C entry points: a tracing arena for values, native strings and error
  texts, hash tables for \<open>Map\<close> and \<open>Set\<close>, timers, promises and the queue of their continuations. This
  library models that runtime core, and of the compiler the types whose layout both sides share. Names of definitions are the names of the source.

  \<^bold>\<open>Parts and theories.\<close>

  \<^item> \<open>Thaw_Prelude\<close>, \<open>Ordered_Map\<close>: checked and saturating arithmetic on \<open>usize\<close>, hash tables as association
    lists, \<open>BTreeMap\<close> as a sorted list, memory as bytes by address, little-endian words.

  \<^item> The arena, \<open>crates/thaw-arena/src/lib.rs\<close>. \<open>Arena_State\<close> has its thread-local state as one record and
    the operations on pins, roots, side references and allocation; \<open>Arena_Lookup\<close> the lookup of an
    address in the settled table and the pending list; \<open>Mark_Worklist\<close> a marking loop as a locale, which
    \<open>Arena_Mark\<close> interprets twice, for the snapshot and for the live tables; \<open>Arena_Reset\<close> the reset with
    its hooks, sweep and compaction of generations. \<open>Arena_Safety\<close>, \<open>Arena_Theorems\<close>, \<open>Arena_Agreement\<close>
    and \<open>Arena_Properties\<close> show that a reset keeps what is reachable, reclaims exactly the rest, never
    indexes a missing generation, and that snapshot and live marking agree.

  \<^item> Text, \<open>strings.rs\<close>, \<open>error_wire.rs\<close> and \<open>exception.rs\<close> of the same crate: \<open>Wtf8\<close> the codec, \<open>Utf16_Text\<close>
    replacement and segment mapping, \<open>Error_Wire\<close> tagged error frames, \<open>Exception_Packets\<close> reference
    counted packets, \<open>Native_Strings\<close> the length tables, in-place append and one-shot grants. The codec
    and the frames round-trip; a packet is readable exactly while it has an owner.

  \<^item> \<open>Map\<close> and \<open>Set\<close>, \<open>crates/thaw-runtime/src/runtime/native_values/maps.rs\<close>: \<open>Map_Table\<close> the table,
    \<open>Map_Probe\<close> open addressing, \<open>Map_Refine\<close>, \<open>Map_Ops\<close>, \<open>Map_Growth\<close> the operations against the list of live
    entries, \<open>Map_Contract\<close> the interface: the locale \<open>key_laws\<close> states what a key kind promises, the
    locale \<open>ordered_dict\<close> what a dictionary in insertion order promises, one is a sublocale of the other,
    and both are interpreted on the numeric and the string keys; keys of a type with invalid bit patterns come through
    \<open>Key_Agreement\<close>, where the laws are only asked for on valid keys. \<open>Map_Iteration\<close> and \<open>Map_Properties\<close> show
    refinement, termination of probing, and that iterators survive growth.

  \<^item> Timers, \<open>runtime/timers.rs\<close>: \<open>Timers\<close> and \<open>Timer_Properties\<close>: the order of callbacks, that a run
    with a ready timer calls exactly one callback, and that a one-shot timer is gone before its callback and for good.

  \<^item> Memory words and array provenance, \<open>native_values/array_provenance.rs\<close>: \<open>Word_Memory\<close>,
    \<open>Array_Provenance\<close>: recording behaves as an update, reservation is invisible.

  \<^item> Promises, \<open>runtime/promises.rs\<close> and the queue of \<open>lib.rs\<close>: \<open>Promise_State\<close> settlement, \<open>Promise_Frames\<close>
    ownership, chaining, adoption and \<open>finally\<close>, \<open>Promise_Join\<close> the joins \<open>all\<close>, \<open>any\<close> and \<open>allSettled\<close>,
    \<open>Promise_Loop\<close> racing, detaching, unhandled rejections, timers and one step of the queue.
    \<open>Promise_Lemmas\<close> and \<open>Promise_Invariant\<close> carry the invariant through every operation,
    \<open>Promise_Properties\<close> and \<open>Promise_Outcomes\<close> state the properties.

  \<^item> The event loop of \<open>lib.rs\<close> and the reports of unhandled rejections: \<open>Event_Loop\<close> has descriptor waits and
    watchers, deadlines and purging, one poll, the drains and the hand-over of continuations between
    threads; \<open>Event_Properties\<close> shows that an idle poll leaves nothing to do, that waits complete exactly
    when they should, that the hand-over keeps the order, and that purged joins touch no memory.

  \<^item> Exception descriptors and promise slots of \<open>promises.rs\<close>: \<open>Exception_Provenance\<close> has the descriptor as nine
    words of memory, the checked cast and the two tables of records that own a promise;
    \<open>Provenance_Properties\<close> shows that a cast succeeds exactly on the same category and layout, that
    replacing a slot moves one reference, and that a reset returns the references of what it reclaims.

  \<^item> Types of the compiler, \<open>thaw-hir/src/hir/types.rs\<close>, \<open>lower/inference/types.rs\<close> and \<open>lower/bytes_erasure.rs\<close>, and
    the layout arithmetic of \<open>thaw-llvm/src/hir_codegen.rs\<close>: \<open>Hir_Types\<close> the types, masks, layout tokens, recursive
    layouts and relations; \<open>Hir_Masks\<close> masks as sets of positions; \<open>Hir_Tokens\<close> that a token determines the fields
    and types it was made from; \<open>Hir_Compat\<close> what the relations guarantee; \<open>Hir_Layout\<close> sizes and offsets, that
    fields do not overlap, and that narrower views agree on offsets.

  \<^item> Numbers and text of the value libraries: \<open>F64_Bits\<close> has an \<open>f64\<close> as its 64 bits, with truncation, conversions and
    correctly rounded arithmetic; \<open>F64_Lemmas\<close> what these mean as values, \<open>F64_Exact\<close> that integers below
    \<open>2 ^ 53\<close> are computed exactly; \<open>Rust_Text\<close> lossy decoding, trimming and padded decimals.

  \<^item> Native \<open>bigint\<close>, \<open>native_values/bigint.rs\<close>: \<open>Bigint_Values\<close> has handles and every operation on them,
    \<open>Bigint_Laws\<close> what the integer library promises; \<open>Bigint_Properties\<close>, \<open>Bigint_Checks\<close>, \<open>Bigint_Compare\<close> and
    \<open>Bigint_Text\<close> show that arithmetic, checks, comparison, widths and text are those of the integers;
    \<open>Bigint_Keys\<close> that maps with such keys are dictionaries from integers.

  \<^item> Dates, \<open>native_values/date.rs\<close>: \<open>Date_Calendar\<close> has the day counts and shows that they are the Gregorian
    calendar, \<open>Date_Values\<close> timestamps and their fields, \<open>Date_Access\<close> getters and setters, \<open>Date_Text\<close> the
    printed forms and the two parsers. \<open>Date_Properties\<close> brings the floating point arithmetic to integers;
    \<open>Date_Setters\<close> shows what getters, setters and \<open>Date.UTC\<close> compute, \<open>Date_Local\<close> that local times keep the
    fields they are made from, \<open>Date_Iso\<close> that the printed form is parsed back.

  \<^item> This theory: the theorem that spans both, a caught value is cast to its own type only.

  \<^bold>\<open>How state and effects correspond.\<close> A thread-local is a field of a record; each record extends the one it
  builds on: the promise runtime extends the timer state, which holds the native strings, which hold
  the arena. An operation takes the state and returns it; a raise, a null result or a refused call is a
  branch of its result. Pointers are natural numbers, 0 is null; boxes allocated by Rust live in maps
  from addresses. \<open>RefCell\<close> borrows do not overlap in a sequential run.

  \<^bold>\<open>Loops and partiality.\<close> Loops are recursive functions with termination proofs (marking by the finite
  universe of addresses, \<open>swap_remove\<close> loops by the remaining length). The probing loop of the hash table
  may run for ever on a full table; it is a \<open>partial_function\<close> into options, and it is proved to return
  on every reachable table. The timer queue runs its three phases by the counter the source has. The drains of the event
  loop (\<open>run_until_idle_from\<close>, \<open>drain_detached_from\<close>, \<open>thaw_runtime_run_until_resolved\<close>) run as long as programs
  make work; they are \<open>partial_function\<close>s too, and what is proved is about the poll they repeat.

  \<^bold>\<open>Parameters.\<close> Code outside the sources is an argument: the bump allocator (\<open>bumpalo\<close>), foreign reset hooks,
  the clock, \<open>libc::poll\<close>, \<open>localtime_r\<close> and \<open>mktime\<close>, callbacks and continuations in generated code, job barriers of the JavaScript engine, the
  formatting of \<open>f64\<close>, the \<open>Debug\<close> text of a string, the integers of \<open>num_bigint\<close>, allocation of boxes, allocation failure of hash tables. What a theorem needs of them is a named
  hypothesis: a fresh block overlaps no live one (\<open>block_fresh\<close>), generated code acts through the
  exported functions (\<open>host_keeps\<close>), the quoted text of a string ends where its closing quote is (\<open>quote_ok\<close>),
  the allocator does not overwrite the static layout tokens (\<open>tokens_static\<close>), the integer library computes on
  integers (\<open>big_laws\<close>), a new box is an aligned address without a box (\<open>box_ok\<close>),
  \<open>localtime_r\<close> returns months from 0 to 11 (\<open>localtime_ok\<close>). The regular expression of \<open>Date.parse\<close> is matched by a
  function that follows the pattern in the source.

  \<^bold>\<open>Not modelled.\<close> Lowering works on the syntax trees of third-party parsers and code generation emits through
  third-party back ends; of the compiler only types, tokens, relations and layout are here. The
  interpreter, the engine bindings, the package registry, the Node modules, HTTP and the Lambda entry
  are input and output or bindings. Of the runtime, the Json keys of maps call the Json values of the
  standard modules, and the value libraries for arrays, byte buffers, regular expressions, number formatting and temporal values are
  not here.
\<close>

subsection \<open>Compiler and runtime together\<close>

text \<open>C8. A cast of a caught value is type safe from the compiler's types to the runtime's memory. The compiler names the
  type of a thrown value by its category and the text of its layout; the runtime compares categories
  and texts. A descriptor built for a value of type \<open>a\<close> gives the value back to a cast to type \<open>b\<close>
  exactly when both have the same category and the same physical type, and null otherwise.\<close>

theorem caught_value_type_safe:
  assumes "quote_ok quote"
    and "native_exception_layout_token quote a = Some text_a" "native_exception_layout_token quote b = Some text_b"
    and "native_exception_tag a = Some tag_a" "native_exception_tag b = Some tag_b"
    and "thaw_exception_native_provenance_new H tag_a owner layout_a s = (p, s')" "p \<noteq> 0"
    and "layout_text (memory_of s) layout_a = Some text_a" "layout_text (memory_of s) layout_b = Some text_b" "layout_b \<noteq> 0"
    and "tokens_static (ho_bump H) (thr (ts_native s)) {layout_a, layout_b}" "owner < 2 ^ 64" "layout_a < 2 ^ 64"
  shows "thaw_exception_native_owner s' p tag_b layout_b = (if tag_a = tag_b \<and> physical_type a = physical_type b then owner else 0)"
proof -
  have "tag_a < 2 ^ 64" using assms(4) by (cases a) auto
  from native_cast_result [OF assms(6,7) this assms(12,13,11), of tag_b]
  show ?thesis using assms(8-10) exception_token_type [OF assms(1-3)] by auto
qed

text \<open>A symbol is thrown: it is caught as a symbol and not as a promise.\<close>

definition symbol_memory :: memory where
  "symbol_memory = write_bytes_at (write_bytes_at (\<lambda>_. 0) 16 (debug_text ascii_quote T_Symbol)) 32 (debug_text ascii_quote (T_Array T_F64))"

definition symbol_runtime :: "nat runtime" where
  "symbol_runtime = runtime_start (init_native (init_state line_bump symbol_memory))"

lemma layout_text_written:
  assumes "0 \<notin> set bs" "write_bytes_at m p bs (p + length bs) = 0"
  shows "layout_text (write_bytes_at m p bs) p = Some bs"
  using cstr_length_terminated [OF read_write_bytes_at assms] by (simp add: layout_text_def read_write_bytes_at)

lemma symbol_texts:
  "debug_text ascii_quote T_Symbol = [83, 121, 109, 98, 111, 108]"
  "debug_text ascii_quote (T_Array T_F64) = [65, 114, 114, 97, 121, 40, 70, 54, 52, 41]"
  by (simp_all add: debug_text_def ascii_text_def)

lemma symbol_layouts:
  "layout_text (memory_of symbol_runtime) 16 = Some (debug_text ascii_quote T_Symbol)"
  "layout_text (memory_of symbol_runtime) 32 = Some (debug_text ascii_quote (T_Array T_F64))"
proof -
  have m: "memory_of symbol_runtime = symbol_memory"
    by (simp add: symbol_runtime_def memory_of_def runtime_start_def init_native_def init_state_def)
  have swap: "symbol_memory =
      write_bytes_at (write_bytes_at (\<lambda>_. 0) 32 (debug_text ascii_quote (T_Array T_F64))) 16 (debug_text ascii_quote T_Symbol)"
    by (rule ext) (simp add: symbol_memory_def symbol_texts write_bytes_at_def)
  show "layout_text (memory_of symbol_runtime) 16 = Some (debug_text ascii_quote T_Symbol)"
    unfolding m swap by (rule layout_text_written) (simp_all add: symbol_texts write_bytes_at_def)
  show "layout_text (memory_of symbol_runtime) 32 = Some (debug_text ascii_quote (T_Array T_F64))"
    unfolding m symbol_memory_def by (rule layout_text_written) (simp_all add: symbol_texts write_bytes_at_def)
qed

lemma symbol_static: "l = 16 \<or> l = 32 \<Longrightarrow> tokens_static (ho_bump token_host) (thr (ts_native symbol_runtime)) {16, l}"
  using symbol_layouts by (auto simp: tokens_static_def token_host_def line_bump_def memory_of_def symbol_texts symbol_runtime_def
      runtime_start_def init_native_def init_state_def)

lemma symbol_descriptor: "fst (thaw_exception_native_provenance_new token_host 20 4096 16 symbol_runtime) \<noteq> 0"
  by (simp add: thaw_exception_native_provenance_new_def arena_alloc_def token_host_def thaw_arena_alloc_def layout_ok_def line_bump_def
      word_alignment Let_def symbol_runtime_def runtime_start_def init_native_def init_state_def split_beta)

theorem caught_value_type_safe_witness:
  "\<exists>p s'. thaw_exception_native_provenance_new token_host 20 4096 16 symbol_runtime = (p, s') \<and>
     thaw_exception_native_owner s' p 20 16 = 4096 \<and> thaw_exception_native_owner s' p 21 32 = 0"
proof -
  obtain p s' where n: "thaw_exception_native_provenance_new token_host 20 4096 16 symbol_runtime = (p, s')" by (metis prod.exhaust)
  then have p: "p \<noteq> 0" using symbol_descriptor by simp
  have a: "native_exception_layout_token ascii_quote T_Symbol = Some (debug_text ascii_quote T_Symbol)" "native_exception_tag T_Symbol = Some 20"
    "native_exception_layout_token ascii_quote (T_Array T_F64) = Some (debug_text ascii_quote (T_Array T_F64))" "native_exception_tag (T_Array T_F64) = Some 21"
    by (simp_all add: native_exception_layout_token_def physical_type_def)
  have "thaw_exception_native_owner s' p 20 16 = 4096"
    using caught_value_type_safe [OF ascii_quote_ok a(1,1,2,2) n p symbol_layouts(1,1) _ symbol_static] by simp
  moreover have "thaw_exception_native_owner s' p 21 32 = 0"
    using caught_value_type_safe [OF ascii_quote_ok a(1,3,2,4) n p symbol_layouts(1,2) _ symbol_static] by simp
  ultimately show ?thesis using n by blast
qed

end
